(* ===== verification/Prelude.thy ===== *)
theory Prelude
  imports Main "HOL-Library.Signed_Division"
begin

text \<open>
  Shared vocabulary of the development: the fact collections the components fill, the parts of
  Rust's integer library that the modelled code calls (\<open>i128\<close> checked arithmetic and
  \<open>next_multiple_of\<close>), and generic facts on lists and options.

  Rust's bounded integers are represented by \<open>int\<close> or \<open>nat\<close> with the range and the
  wrap-around written out; each function that can fail returns an \<open>option\<close>, as the Rust method
  does.
\<close>

unbundle bit_operations_syntax

named_theorems shrinks \<open>a scanner returns a suffix that is not longer than its input\<close>
named_theorems ranged \<open>a value stays inside the range of its machine type\<close>

section \<open>Signed 128-bit integers\<close>

definition i128_min :: int where
  "i128_min = - (2 ^ 127)"

definition i128_max :: int where
  "i128_max = 2 ^ 127 - 1"

definition in_i128 :: "int \<Rightarrow> bool" where
  "in_i128 v \<longleftrightarrow> i128_min \<le> v \<and> v \<le> i128_max"

definition checked_i128 :: "int \<Rightarrow> int option" where
  "checked_i128 v = (if in_i128 v then Some v else None)"

definition checked_neg :: "int \<Rightarrow> int option" where
  "checked_neg a = checked_i128 (- a)"

definition checked_add :: "int \<Rightarrow> int \<Rightarrow> int option" where
  "checked_add a b = checked_i128 (a + b)"

definition checked_sub :: "int \<Rightarrow> int \<Rightarrow> int option" where
  "checked_sub a b = checked_i128 (a - b)"

definition checked_mul :: "int \<Rightarrow> int \<Rightarrow> int option" where
  "checked_mul a b = checked_i128 (a * b)"

text \<open>Rust's \<open>/\<close> and \<open>%\<close> truncate towards zero; both checked forms refuse a zero
  divisor and the one overflowing quotient, \<open>MIN / -1\<close>.\<close>

definition checked_div :: "int \<Rightarrow> int \<Rightarrow> int option" where
  "checked_div a b = (if b = 0 then None else checked_i128 (a sdiv b))"

definition checked_rem :: "int \<Rightarrow> int \<Rightarrow> int option" where
  "checked_rem a b = (if b = 0 \<or> a = i128_min \<and> b = - 1 then None else Some (a smod b))"

text \<open>\<open>u32::try_from\<close> on an \<open>i128\<close>.\<close>

definition u32_try_from :: "int \<Rightarrow> nat option" where
  "u32_try_from v = (if 0 \<le> v \<and> v < 2 ^ 32 then Some (nat v) else None)"

text \<open>\<open>checked_shl\<close> and \<open>checked_shr\<close> check the shift amount only: bits shifted out on
  the left are lost, the right shift is arithmetic.\<close>

definition checked_shl :: "int \<Rightarrow> nat \<Rightarrow> int option" where
  "checked_shl a n = (if n < 128 then Some (signed_take_bit 127 (push_bit n a)) else None)"

definition checked_shr :: "int \<Rightarrow> nat \<Rightarrow> int option" where
  "checked_shr a n = (if n < 128 then Some (drop_bit n a) else None)"

lemma in_i128_iff_signed_take_bit: "in_i128 v \<longleftrightarrow> signed_take_bit 127 v = v"
  unfolding in_i128_def i128_min_def i128_max_def signed_take_bit_int_eq_self_iff by auto

lemma checked_i128_Some [simp]: "checked_i128 v = Some w \<longleftrightarrow> w = v \<and> in_i128 v"
  by (auto simp: checked_i128_def)

lemma in_i128_0_1 [simp, ranged]: "in_i128 0" "in_i128 1"
  by (simp_all add: in_i128_def i128_min_def i128_max_def)

lemma in_i128_signed_take_bit [ranged]: "in_i128 (signed_take_bit 127 v)"
  by (simp add: in_i128_iff_signed_take_bit)

lemma in_i128_iff_bit: "in_i128 v \<longleftrightarrow> (\<forall>n. bit v n = bit v (min 127 n))"
  unfolding in_i128_iff_signed_take_bit bit_eq_iff by (auto simp: bit_signed_take_bit_iff)

lemma in_i128_and [ranged]: "in_i128 a \<Longrightarrow> in_i128 b \<Longrightarrow> in_i128 (a AND b)"
  unfolding in_i128_iff_bit bit_and_iff by metis

lemma in_i128_or [ranged]: "in_i128 a \<Longrightarrow> in_i128 b \<Longrightarrow> in_i128 (a OR b)"
  unfolding in_i128_iff_bit bit_or_iff by metis

lemma in_i128_xor [ranged]: "in_i128 a \<Longrightarrow> in_i128 b \<Longrightarrow> in_i128 (a XOR b)"
  unfolding in_i128_iff_bit bit_xor_iff by metis

lemma in_i128_not [ranged]: "in_i128 a \<Longrightarrow> in_i128 (NOT a)"
  by (auto simp: in_i128_def i128_min_def i128_max_def not_int_def)

lemma in_i128_drop_bit [ranged]: "in_i128 a \<Longrightarrow> in_i128 (drop_bit n a)"
proof -
  assume a: "in_i128 a"
  have "a div 2 ^ n \<le> a" if "a \<ge> 0"
    using that zdiv_mono2 [of a 1 "2 ^ n"] by simp
  moreover have "a \<le> a div 2 ^ n" if "a < 0"
    using that zdiv_mono2_neg [of a 1 "2 ^ n"] by simp
  moreover have "a div 2 ^ n < 0 \<longleftrightarrow> a < 0"
    by (simp add: neg_imp_zdiv_neg_iff pos_imp_zdiv_neg_iff)
  ultimately show ?thesis
    using a by (cases "a < 0") (auto simp: in_i128_def drop_bit_eq_div i128_min_def i128_max_def)
qed

lemma in_i128_smod [ranged]: "b \<noteq> 0 \<Longrightarrow> in_i128 b \<Longrightarrow> in_i128 (a smod b)"
  using smod_int_range [of b a]
  by (auto simp: in_i128_def i128_min_def i128_max_def abs_if split: if_splits)

section \<open>Rounding up\<close>

text \<open>\<open>u64::next_multiple_of\<close> for a non-zero divisor.\<close>

definition next_multiple_of :: "nat \<Rightarrow> nat \<Rightarrow> nat" where
  "next_multiple_of a m = (if a mod m = 0 then a else a + (m - a mod m))"

lemma next_multiple_of_dvd:
  assumes "0 < m"
  shows "m dvd next_multiple_of a m"
proof -
  have "(a + (m - a mod m)) mod m = (a mod m + (m - a mod m)) mod m"
    by (simp add: mod_add_left_eq)
  then show ?thesis
    using assms by (auto simp: next_multiple_of_def dvd_eq_mod_eq_0 less_imp_le)
qed

lemma next_multiple_of_ge: "a \<le> next_multiple_of a m"
  by (simp add: next_multiple_of_def)

lemma next_multiple_of_less: "0 < m \<Longrightarrow> next_multiple_of a m < a + m"
  by (auto simp: next_multiple_of_def intro: diff_less)

section \<open>Lists and options\<close>

definition starts_with :: "'a list \<Rightarrow> 'a list \<Rightarrow> bool" where
  "starts_with s p \<longleftrightarrow> take (length p) s = p"

lemma starts_with_append [simp]: "starts_with (p @ s) p"
  by (simp add: starts_with_def)

lemma starts_with_split: "starts_with s p \<Longrightarrow> s = p @ drop (length p) s"
  unfolding starts_with_def by (metis append_take_drop_id)

lemma find_SomeD: "List.find P xs = Some x \<Longrightarrow> x \<in> set xs \<and> P x"
  by (auto simp: find_Some_iff)

lemma length_dropWhile_less: "xs \<noteq> [] \<Longrightarrow> P (hd xs) \<Longrightarrow> length (dropWhile P xs) < length xs"
  by (cases xs) (auto simp: le_imp_less_Suc length_dropWhile_le)

section \<open>Fuel\<close>

text \<open>
  The contract of a recursion that is modelled with fuel: one more unit of fuel never changes an
  answer that was reached. A caller may then pick any fuel that is enough, and speak of the
  answer of the recursion itself.
\<close>

locale fuel_indexed =
  fixes run :: "nat \<Rightarrow> 'a \<Rightarrow> 'r" and stuck :: 'r
  assumes more_fuel: "run n x \<noteq> stuck \<Longrightarrow> run (Suc n) x = run n x"
begin

lemma fuel_mono:
  assumes "n \<le> m" and "run n x \<noteq> stuck"
  shows "run m x = run n x"
  using assms by (induction m rule: dec_induct) (auto simp: more_fuel)

lemma fuel_agree:
  assumes "run n x \<noteq> stuck" and "run m x \<noteq> stuck"
  shows "run n x = run m x"
  using assms fuel_mono [of n m x] fuel_mono [of m n x] by (cases "n \<le> m") auto

lemma stuck_below:
  assumes "n \<le> m" and "run m x = stuck"
  shows "run n x = stuck"
  using assms fuel_mono [of n m x] by metis

end

section \<open>Iterators\<close>

lemma set_map_filter: "set (List.map_filter f xs) = {y. \<exists>x \<in> set xs. f x = Some y}"
  by (induction xs) (auto simp: map_filter_simps split: option.splits)

lemma sum_list_eq_0_map: "sum_list (map (f :: 'a \<Rightarrow> nat) xs) = 0 \<longleftrightarrow> (\<forall>x \<in> set xs. f x = 0)"
  by (induction xs) auto

lemma filter_update:
  assumes "i < length xs" "P (xs ! i)" "\<not> P v"
  shows "Suc (length (filter P (xs[i := v]))) = length (filter P xs)"
proof -
  have "Suc (length (filter P (xs[i := v]))) = length (filter P (take i xs @ xs ! i # drop (Suc i) xs))"
    using assms by (simp add: upd_conv_take_nth_drop)
  then show ?thesis
    using id_take_nth_drop [OF assms(1)] by simp
qed

lemma filter_update_less:
  "i < length xs \<Longrightarrow> P (xs ! i) \<Longrightarrow> \<not> P v \<Longrightarrow> length (filter P (xs[i := v])) < length (filter P xs)"
  by (simp add: filter_update [symmetric])

end
