(* ===== verification/C_Lex.thy ===== *)
theory C_Lex
  imports Prelude
begin

text \<open>
  The tokenizer of the restricted C front-end, \<open>trust-mc-compiler/src/c_ffi/lex.rs\<close>.

  A translation unit is a byte list (\<open>string\<close>: each \<open>char\<close> is one byte of the UTF-8
  text). The Rust code walks an index \<open>i\<close> over the byte slice \<open>b\<close>; the model walks the
  suffix \<open>b[i..]\<close>, so \<open>i + 1 < b.len() && b[i + 1] == x\<close> reads "the tail starts with x".
  Every scanner returns the suffix the Rust code would continue from.

  Shown here: every scanner makes progress (the loop terminates), every token produced is well
  formed, the longest punctuator wins, every well-formed token sequence is read back from its
  rendering, comments and directives leave no token, and the refusals of unterminated comments,
  literals and floating constants.
\<close>

section \<open>Bytes\<close>

abbreviation ch_nl :: char where "ch_nl \<equiv> CHR 0x0A"
abbreviation ch_bs :: char where "ch_bs \<equiv> CHR 0x5C"
abbreviation ch_dq :: char where "ch_dq \<equiv> CHR 0x22"
abbreviation ch_sq :: char where "ch_sq \<equiv> CHR 0x27"

definition byte :: "char \<Rightarrow> nat" where
  "byte c = of_char c"

text \<open>The \<open>u8\<close> classification methods of Rust's standard library.\<close>

definition is_ascii :: "char \<Rightarrow> bool" where
  "is_ascii c \<longleftrightarrow> byte c < 128"

definition is_ascii_whitespace :: "char \<Rightarrow> bool" where
  "is_ascii_whitespace c \<longleftrightarrow> byte c \<in> {0x09, 0x0A, 0x0C, 0x0D, 0x20}"

definition is_ascii_digit :: "char \<Rightarrow> bool" where
  "is_ascii_digit c \<longleftrightarrow> 48 \<le> byte c \<and> byte c \<le> 57"

definition is_ascii_alphabetic :: "char \<Rightarrow> bool" where
  "is_ascii_alphabetic c \<longleftrightarrow> 65 \<le> byte c \<and> byte c \<le> 90 \<or> 97 \<le> byte c \<and> byte c \<le> 122"

definition is_ident_byte :: "char \<Rightarrow> bool" where
  "is_ident_byte c \<longleftrightarrow>
     is_ascii_alphabetic c \<or> is_ascii_digit c \<or> c = CHR ''_'' \<or> c = CHR ''$''"

definition is_ident_start :: "char \<Rightarrow> bool" where
  "is_ident_start c \<longleftrightarrow> is_ascii_alphabetic c \<or> c = CHR ''_'' \<or> c = CHR ''$''"

text \<open>\<open>char::to_digit\<close> for the radices the tokenizer uses; \<open>is_digit\<close> tests it.\<close>

definition to_digit :: "nat \<Rightarrow> char \<Rightarrow> nat option" where
  "to_digit radix c =
     (let n = byte c;
          d = (if 48 \<le> n \<and> n \<le> 57 then n - 48
               else if 97 \<le> n \<and> n \<le> 122 then n - 87
               else if 65 \<le> n \<and> n \<le> 90 then n - 55
               else radix)
      in if d < radix then Some d else None)"

definition is_digit :: "nat \<Rightarrow> char \<Rightarrow> bool" where
  "is_digit radix c \<longleftrightarrow> to_digit radix c \<noteq> None"

text \<open>\<open>i128::from_str_radix\<close> on a digit string: multiply and add, each step checked.\<close>

fun from_digits :: "nat \<Rightarrow> int \<Rightarrow> string \<Rightarrow> int option" where
  "from_digits radix acc [] = Some acc"
| "from_digits radix acc (c # cs) =
     (case to_digit radix c of
        None \<Rightarrow> None
      | Some d \<Rightarrow>
          (case checked_mul acc (int radix) of
             None \<Rightarrow> None
           | Some m \<Rightarrow>
               (case checked_add m (int d) of
                  None \<Rightarrow> None
                | Some acc' \<Rightarrow> from_digits radix acc' cs)))"

definition from_str_radix :: "string \<Rightarrow> nat \<Rightarrow> int option" where
  "from_str_radix s radix = (if s = [] then None else from_digits radix 0 s)"

section \<open>Tokens\<close>

datatype tok =
    TIdent string
  | TNum (num_value: int) (unsigned_suffix: bool)
  | TStr
  | TChar int
  | TPunct string

definition is_punct :: "tok \<Rightarrow> string \<Rightarrow> bool" where
  "is_punct t p \<longleftrightarrow> (case t of TPunct q \<Rightarrow> q = p | _ \<Rightarrow> False)"

definition tok_ident :: "tok \<Rightarrow> string option" where
  "tok_ident t = (case t of TIdent s \<Rightarrow> Some s | _ \<Rightarrow> None)"

definition PUNCTS :: "string list" where
  "PUNCTS =
     [''<<='', ''>>='', ''...'', ''->'', ''++'', ''--'', ''<<'', ''>>'', ''<='', ''>='', ''=='',
      ''!='', ''&&'', ''||'', ''+='', ''-='', ''*='', ''/='', ''%='', ''&='', ''|='', ''^='',
      ''+'', ''-'', ''*'', ''/'', ''%'', ''='', ''<'', ''>'', ''!'', ''~'', ''&'', ''|'', ''^'',
      ''?'', '':'', '';'', '','', ''.'', ''('', '')'', ''['', '']'', ''{'', ''}'']"

section \<open>Scanners\<close>

text \<open>The loop that drops a directive, honouring backslash-newline splices; it stops in front
  of the newline.\<close>

fun skip_directive :: "string \<Rightarrow> string" where
  "skip_directive [] = []"
| "skip_directive [c] = (if c = ch_nl then [c] else [])"
| "skip_directive (c # d # cs) =
     (if c = ch_bs \<and> d = ch_nl then skip_directive cs
      else if c = ch_nl then c # d # cs
      else skip_directive (d # cs))"

definition skip_line_comment :: "string \<Rightarrow> string" where
  "skip_line_comment = dropWhile (\<lambda>c. c \<noteq> ch_nl)"

text \<open>Scan for the end of a block comment, the opening \<open>/*\<close> already passed.\<close>

fun skip_block_comment :: "string \<Rightarrow> string option" where
  "skip_block_comment [] = None"
| "skip_block_comment [c] = None"
| "skip_block_comment (c # d # cs) =
     (if c = CHR ''*'' \<and> d = CHR ''/'' then Some cs else skip_block_comment (d # cs))"

text \<open>Scan for the closing quote of a string literal, the opening one already passed. A
  backslash skips the byte after it, also when it is the last byte.\<close>

fun skip_string :: "string \<Rightarrow> string option" where
  "skip_string [] = None"
| "skip_string [c] = (if c = ch_bs then None else if c = ch_dq then Some [] else None)"
| "skip_string (c # d # cs) =
     (if c = ch_bs then skip_string cs
      else if c = ch_dq then Some (d # cs)
      else skip_string (d # cs))"

definition char_escape :: "char \<Rightarrow> int option" where
  "char_escape c =
     (if c = CHR ''n'' then Some 10
      else if c = CHR ''t'' then Some 9
      else if c = CHR ''r'' then Some 13
      else if c = CHR ''0'' then Some 0
      else if c = ch_bs then Some 92
      else if c = ch_sq then Some 39
      else if c = ch_dq then Some 34
      else None)"

text \<open>A character constant, from the byte after the opening quote.\<close>

definition close_char :: "int \<Rightarrow> string \<Rightarrow> (tok \<times> string) option" where
  "close_char v r =
     (case r of
        [] \<Rightarrow> None
      | c # r' \<Rightarrow> if c \<noteq> ch_sq then None else Some (TChar v, r'))"

definition lex_char :: "string \<Rightarrow> (tok \<times> string) option" where
  "lex_char cs =
     (case cs of
        [] \<Rightarrow> None
      | c # r \<Rightarrow>
          if c = ch_bs then
            (case r of
               [] \<Rightarrow> None
             | e # r' \<Rightarrow> (case char_escape e of None \<Rightarrow> None | Some v \<Rightarrow> close_char v r'))
          else if \<not> is_ascii c then None
          else close_char (int (byte c)) r)"

definition head_in :: "string \<Rightarrow> string \<Rightarrow> bool" where
  "head_in cs set_of \<longleftrightarrow> (case cs of [] \<Rightarrow> False | c # _ \<Rightarrow> c \<in> set set_of)"

text \<open>An integer constant, from its first digit: the radix and where its digits start, the
  digits with the checks that refuse a floating constant, then the suffix.\<close>

definition number_radix :: "string \<Rightarrow> nat" where
  "number_radix b =
     (if head_in b ''0'' \<and> head_in (tl b) ''xX'' then 16
      else if head_in b ''0'' \<and> tl b \<noteq> [] \<and> is_ascii_digit (hd (tl b)) then 8
      else 10)"

definition number_body :: "string \<Rightarrow> string" where
  "number_body b =
     (if number_radix b = 16 then drop 2 b else if number_radix b = 8 then drop 1 b else b)"

definition is_suffix_byte :: "char \<Rightarrow> bool" where
  "is_suffix_byte c \<longleftrightarrow> c \<in> set ''uUlL''"

definition is_unsigned_byte :: "char \<Rightarrow> bool" where
  "is_unsigned_byte c \<longleftrightarrow> c \<in> set ''uU''"

definition number_suffix :: "int \<Rightarrow> string \<Rightarrow> (tok \<times> string) option" where
  "number_suffix value r =
     (let suffix = takeWhile is_suffix_byte r;
          r' = dropWhile is_suffix_byte r
      in if r' \<noteq> [] \<and> is_ident_byte (hd r') then None
         else Some (TNum value (list_ex is_unsigned_byte suffix), r'))"

definition lex_number :: "string \<Rightarrow> (tok \<times> string) option" where
  "lex_number b =
     (let radix = number_radix b;
          digits = takeWhile (is_digit radix) (number_body b);
          r = dropWhile (is_digit radix) (number_body b)
      in if digits = [] then None
         else if head_in r ''.'' then None
         else if radix \<noteq> 16 \<and> head_in r ''eE'' then None
         else if head_in r ''fF'' then None
         else
           (case from_str_radix digits radix of
              None \<Rightarrow> None
            | Some value \<Rightarrow> number_suffix value r))"

section \<open>Every scanner makes progress\<close>

lemma length_skip_directive [shrinks]: "length (skip_directive cs) \<le> length cs"
  by (induction cs rule: skip_directive.induct) auto

lemma length_skip_directive_Cons [shrinks]:
  "c \<noteq> ch_nl \<Longrightarrow> length (skip_directive (c # cs)) \<le> length cs"
  by (cases cs) (auto simp: le_SucI length_skip_directive intro: length_skip_directive [of "_ # _", simplified])

lemma length_skip_line_comment [shrinks]:
  "c \<noteq> ch_nl \<Longrightarrow> length (skip_line_comment (c # cs)) \<le> length cs"
  by (simp add: skip_line_comment_def length_dropWhile_le)

lemma length_skip_block_comment [shrinks]: "skip_block_comment cs = Some r \<Longrightarrow> length r < length cs"
  by (induction cs rule: skip_block_comment.induct) (auto split: if_splits)

lemma length_skip_string [shrinks]: "skip_string cs = Some r \<Longrightarrow> length r < length cs"
  by (induction cs rule: skip_string.induct) (auto split: if_splits)

lemma length_close_char [shrinks]: "close_char v r = Some (t, r') \<Longrightarrow> length r' < length r"
  by (auto simp: close_char_def split: list.splits if_splits)

lemma length_lex_char [shrinks]: "lex_char cs = Some (t, r) \<Longrightarrow> length r < length cs"
  by (auto simp: lex_char_def split: list.splits if_splits option.splits dest!: length_close_char)

lemma length_number_suffix [shrinks]: "number_suffix v r = Some (t, r') \<Longrightarrow> length r' \<le> length r"
  by (auto simp: number_suffix_def Let_def length_dropWhile_le split: if_splits)

lemma length_number_body: "length (number_body b) \<le> length b"
  by (simp add: number_body_def)

lemma length_dropWhile_takeWhile:
  "takeWhile P xs \<noteq> [] \<Longrightarrow> length (dropWhile P xs) < length xs"
  by (cases xs) (auto simp: le_imp_less_Suc length_dropWhile_le split: if_splits)

lemma length_lex_number [shrinks]:
  assumes "lex_number b = Some (t, r)"
  shows "length r < length b"
proof -
  let ?q = "is_digit (number_radix b)"
  from assms obtain v where
    digits: "takeWhile ?q (number_body b) \<noteq> []" and
    suffix: "number_suffix v (dropWhile ?q (number_body b)) = Some (t, r)"
    by (auto simp: lex_number_def Let_def split: if_splits option.splits)
  have "length r \<le> length (dropWhile ?q (number_body b))"
    using suffix by (rule length_number_suffix)
  also have "\<dots> < length (number_body b)"
    using digits by (rule length_dropWhile_takeWhile)
  finally show ?thesis
    using length_number_body [of b] by simp
qed

lemma PUNCTS_nonempty: "p \<in> set PUNCTS \<Longrightarrow> p \<noteq> []"
  by (auto simp: PUNCTS_def)

lemma drop_punct_shrinks [shrinks]:
  assumes "List.find (starts_with (c # cs)) PUNCTS = Some p"
  shows "length (drop (length p) (c # cs)) \<le> length cs"
proof -
  have "p \<noteq> []"
    using find_SomeD [OF assms] PUNCTS_nonempty by blast
  then show ?thesis by (cases p) auto
qed

lemma ident_start_byte [simp]: "is_ident_start c \<Longrightarrow> is_ident_byte c"
  by (auto simp: is_ident_start_def is_ident_byte_def)

lemma length_dropWhile_ident [shrinks]:
  "is_ident_start c \<Longrightarrow> length (dropWhile is_ident_byte (c # cs)) \<le> length cs"
  by (simp add: length_dropWhile_le)

lemma length_skip_block_comment_tl [shrinks]:
  "skip_block_comment (tl cs) = Some r \<Longrightarrow> length r \<le> length cs"
  using length_skip_block_comment [of "tl cs" r] by simp

section \<open>The tokenizer loop\<close>

text \<open>
  \<open>lex_step at_line_start b\<close> is one turn of the \<open>while\<close> loop of \<open>tokenize\<close> on a
  non-empty suffix, one branch per \<open>match\<close> arm in the source's order: the token pushed, if
  any, the new \<open>at_line_start\<close> and the suffix the loop continues from; \<open>None\<close> is the
  refusal of the translation unit. \<open>tokenize_from\<close> is the loop: \<open>out.push\<close> becomes a
  cons onto the tokens of the rest, the same value because a refusal discards \<open>out\<close>.
\<close>

type_synonym lexed = "tok option \<times> bool \<times> string"

definition emit :: "(tok \<times> string) option \<Rightarrow> lexed option" where
  "emit res = map_option (\<lambda>(t, r). (Some t, False, r)) res"

definition lex_word :: "string \<Rightarrow> tok \<times> string" where
  "lex_word b = (TIdent (takeWhile is_ident_byte b), dropWhile is_ident_byte b)"

definition lex_splice :: "bool \<Rightarrow> string \<Rightarrow> lexed option" where
  "lex_splice at_line_start cs =
     (case cs of
        [] \<Rightarrow> None
      | d # ds \<Rightarrow> if d = ch_nl then Some (None, at_line_start, ds) else None)"

definition lex_punct :: "string \<Rightarrow> (tok \<times> string) option" where
  "lex_punct b =
     map_option (\<lambda>p. (TPunct p, drop (length p) b)) (List.find (starts_with b) PUNCTS)"

definition lex_step :: "bool \<Rightarrow> char \<Rightarrow> string \<Rightarrow> lexed option" where
  "lex_step at_line_start c cs =
     (if c = ch_nl then Some (None, True, cs)
      else if is_ascii_whitespace c then Some (None, at_line_start, cs)
      else if c = CHR ''#'' \<and> at_line_start then
        Some (None, at_line_start, skip_directive (c # cs))
      else if c = CHR ''/'' \<and> head_in cs ''/'' then
        Some (None, at_line_start, skip_line_comment (c # cs))
      else if c = CHR ''/'' \<and> head_in cs ''*'' then
        map_option (\<lambda>r. (None, False, r)) (skip_block_comment (tl cs))
      else if c = ch_dq then emit (map_option (Pair TStr) (skip_string cs))
      else if c = ch_sq then emit (lex_char cs)
      else if is_ascii_digit c then emit (lex_number (c # cs))
      else if is_ident_start c then emit (Some (lex_word (c # cs)))
      else if c = ch_bs then lex_splice at_line_start cs
      else emit (lex_punct (c # cs)))"

lemma emit_Some [simp]: "emit res = Some (t, ls, r) \<longleftrightarrow> ls = False \<and> (\<exists>u. t = Some u \<and> res = Some (u, r))"
  by (auto simp: emit_def)

lemma lex_step_shrinks [shrinks]: "lex_step ls c cs = Some (t, ls', r) \<Longrightarrow> length r \<le> length cs"
  by (auto simp: lex_step_def lex_word_def lex_splice_def lex_punct_def less_Suc_eq_le
      simp del: skip_directive.simps dropWhile.simps
      split: if_splits list.splits
      intro: length_skip_directive_Cons length_skip_line_comment length_dropWhile_ident
        drop_punct_shrinks
      dest: length_skip_block_comment_tl length_skip_string length_lex_char length_lex_number)

fun cons_opt :: "'a option \<Rightarrow> 'a list \<Rightarrow> 'a list" where
  "cons_opt None xs = xs"
| "cons_opt (Some x) xs = x # xs"

function tokenize_from :: "bool \<Rightarrow> string \<Rightarrow> tok list option" where
  "tokenize_from at_line_start [] = Some []"
| "tokenize_from at_line_start (c # cs) =
     (case lex_step at_line_start c cs of
        None \<Rightarrow> None
      | Some (t, ls, r) \<Rightarrow> map_option (cons_opt t) (tokenize_from ls r))"
  by pat_completeness auto

termination
  by (relation "measure (length \<circ> snd)") (auto dest: lex_step_shrinks)

definition tokenize :: "string \<Rightarrow> tok list option" where
  "tokenize src = tokenize_from True src"

section \<open>Well-formed tokens\<close>

definition wf_ident :: "string \<Rightarrow> bool" where
  "wf_ident s \<longleftrightarrow> s \<noteq> [] \<and> is_ident_start (hd s) \<and> list_all is_ident_byte s"

definition wf_tok :: "tok \<Rightarrow> bool" where
  "wf_tok t \<longleftrightarrow>
     (case t of
        TIdent s \<Rightarrow> wf_ident s
      | TNum v u \<Rightarrow> 0 \<le> v \<and> v \<le> i128_max
      | TStr \<Rightarrow> True
      | TChar v \<Rightarrow> 0 \<le> v \<and> v < 128
      | TPunct p \<Rightarrow> p \<in> set PUNCTS)"

lemma wf_tok_simps [simp]:
  "wf_tok (TIdent s) = wf_ident s"
  "wf_tok (TNum v u) = (0 \<le> v \<and> v \<le> i128_max)"
  "wf_tok TStr"
  "wf_tok (TChar v) = (0 \<le> v \<and> v < 128)"
  "wf_tok (TPunct p) = (p \<in> set PUNCTS)"
  by (simp_all add: wf_tok_def)

lemma from_digits_range:
  "from_digits radix acc cs = Some v \<Longrightarrow> 0 \<le> acc \<Longrightarrow> acc \<le> i128_max \<Longrightarrow> 0 \<le> v \<and> v \<le> i128_max"
  by (induction radix acc cs rule: from_digits.induct)
    (auto simp: checked_mul_def checked_add_def in_i128_def split: option.splits)

lemma lex_number_wf: "lex_number b = Some (t, r) \<Longrightarrow> wf_tok t"
  by (auto simp: lex_number_def number_suffix_def from_str_radix_def i128_max_def Let_def
      split: if_splits option.splits dest!: from_digits_range)

lemma lex_char_wf: "lex_char cs = Some (t, r) \<Longrightarrow> wf_tok t"
  by (auto simp: lex_char_def close_char_def char_escape_def is_ascii_def
      split: list.splits if_splits option.splits)

lemma wf_ident_takeWhile: "is_ident_start c \<Longrightarrow> wf_ident (takeWhile is_ident_byte (c # cs))"
  by (auto simp: wf_ident_def list_all_iff dest: set_takeWhileD)

lemma lex_step_wf: "lex_step ls c cs = Some (Some t, ls', r) \<Longrightarrow> wf_tok t"
  by (auto simp: lex_step_def lex_word_def lex_punct_def lex_splice_def
      lex_char_wf lex_number_wf wf_ident_takeWhile
      simp del: takeWhile.simps dropWhile.simps
      split: if_splits list.splits dest: find_SomeD)

lemma tokenize_from_wf: "tokenize_from ls b = Some ts \<Longrightarrow> list_all wf_tok ts"
proof (induction ls b arbitrary: ts rule: tokenize_from.induct)
  case (2 ls c cs)
  from "2.prems" obtain t ls' r ts' where
    step: "lex_step ls c cs = Some (t, ls', r)" and
    rest: "tokenize_from ls' r = Some ts'" and ts: "ts = cons_opt t ts'"
    by (auto split: option.splits prod.splits)
  have "list_all wf_tok ts'"
    using "2.IH" [OF step refl refl rest] .
  with step ts show ?case
    by (cases t) (auto dest: lex_step_wf)
qed simp

section \<open>The longest punctuator wins\<close>

lemma find_longest:
  assumes "sorted_wrt (\<lambda>a b. length b \<le> length a) xs"
    and "List.find (starts_with s) xs = Some q" and "p \<in> set xs" and "starts_with s p"
  shows "length p \<le> length q"
  using assms by (induction xs) (auto split: if_splits)

lemma find_starts_with_exists:
  "p \<in> set xs \<Longrightarrow> starts_with s p \<Longrightarrow> \<exists>q. List.find (starts_with s) xs = Some q"
  by (induction xs) auto

lemma PUNCTS_sorted: "sorted_wrt (\<lambda>a b. length b \<le> length a) PUNCTS"
  by (simp add: PUNCTS_def)

lemma PUNCTS_no_space: "p \<in> set PUNCTS \<Longrightarrow> CHR '' '' \<notin> set p"
  by (auto simp: PUNCTS_def)

lemma find_punct_space:
  assumes p: "p \<in> set PUNCTS"
  shows "List.find (starts_with (p @ '' '' @ r)) PUNCTS = Some p"
proof -
  let ?s = "p @ '' '' @ r"
  obtain q where q: "List.find (starts_with ?s) PUNCTS = Some q"
    using find_starts_with_exists [OF p, of ?s] starts_with_append by blast
  have "length p \<le> length q"
    using find_longest [OF PUNCTS_sorted q p] by simp
  moreover have "\<not> length p < length q"
  proof
    assume less: "length p < length q"
    have "take (length q) ?s = q"
      using find_SomeD [OF q] by (simp add: starts_with_def)
    then have "q ! length p = ?s ! length p"
      using less by (metis nth_take)
    then have "CHR '' '' \<in> set q"
      using less by (metis append_Cons nth_append_length nth_mem)
    then show False
      using find_SomeD [OF q] PUNCTS_no_space by blast
  qed
  ultimately have "length q = length p" by simp
  then have "q = p"
    using find_SomeD [OF q] by (simp add: starts_with_def)
  with q show ?thesis by simp
qed

definition punct_start :: "char \<Rightarrow> bool" where
  "punct_start c \<longleftrightarrow> c \<noteq> ch_nl \<and> \<not> is_ascii_whitespace c \<and> c \<noteq> CHR ''#'' \<and> c \<noteq> ch_dq \<and> c \<noteq> ch_sq \<and>
     \<not> is_ascii_digit c \<and> \<not> is_ident_start c \<and> c \<noteq> ch_bs"

lemma PUNCTS_start: "p \<in> set PUNCTS \<Longrightarrow> punct_start (hd p)"
  unfolding PUNCTS_def
  by (simp, elim disjE) (simp_all add: punct_start_def is_ascii_whitespace_def is_ascii_digit_def is_ident_start_def
      is_ascii_alphabetic_def byte_def)

lemma PUNCTS_slash: "p \<in> set PUNCTS \<Longrightarrow> hd p = CHR ''/'' \<Longrightarrow> p = ''/'' \<or> p = ''/=''"
  unfolding PUNCTS_def by (simp, elim disjE) simp_all

lemma cons_opt_fun [simp]: "cons_opt None = id" "cons_opt (Some t) = (#) t"
  by auto

lemma tokenize_step:
  "lex_step ls c cs = Some (t, ls', r) \<Longrightarrow>
   tokenize_from ls (c # cs) = map_option (cons_opt t) (tokenize_from ls' r)"
  by simp

lemma tokenize_refuse: "lex_step ls c cs = None \<Longrightarrow> tokenize_from ls (c # cs) = None"
  by simp

declare tokenize_from.simps(2) [simp del]

lemma lex_step_space: "lex_step ls (CHR '' '') r = Some (None, ls, r)"
  by (simp add: lex_step_def is_ascii_whitespace_def byte_def)

lemma tokenize_space [simp]: "tokenize_from ls (CHR '' '' # r) = tokenize_from ls r"
  by (simp add: tokenize_step [OF lex_step_space] option.map_id)

lemma lex_step_punct:
  assumes p: "c # cs \<in> set PUNCTS"
  shows "lex_step ls c (cs @ '' '' @ r) = Some (Some (TPunct (c # cs)), False, '' '' @ r)"
proof -
  have start: "punct_start c"
    using PUNCTS_start [OF p] by simp
  have slash: "c = CHR ''/'' \<Longrightarrow> \<not> head_in (cs @ '' '' @ r) ''/'' \<and> \<not> head_in (cs @ '' '' @ r) ''*''"
    using PUNCTS_slash [OF p] by (auto simp: head_in_def)
  have punct: "lex_punct (c # cs @ '' '' @ r) = Some (TPunct (c # cs), '' '' @ r)"
    using find_punct_space [OF p, of r] by (simp add: lex_punct_def)
  show ?thesis
    using start slash punct unfolding punct_start_def lex_step_def by auto
qed

lemma tokenize_punct:
  assumes p: "p \<in> set PUNCTS"
  shows "tokenize_from ls (p @ '' '' @ r) = map_option ((#) (TPunct p)) (tokenize_from False r)"
proof -
  obtain c cs where ccs: "p = c # cs"
    using PUNCTS_nonempty [OF p] by (cases p) auto
  show ?thesis
    using tokenize_step [OF lex_step_punct [of c cs ls r]] p ccs by simp
qed

section \<open>Rendering\<close>

definition digit_char :: "nat \<Rightarrow> char" where
  "digit_char d = char_of (48 + d)"

fun show_nat :: "nat \<Rightarrow> string" where
  "show_nat n =
     (if n < 10 then [digit_char n] else show_nat (n div 10) @ [digit_char (n mod 10)])"

declare show_nat.simps [simp del]

definition render_tok :: "tok \<Rightarrow> string" where
  "render_tok t =
     (case t of
        TIdent s \<Rightarrow> s
      | TNum v u \<Rightarrow> show_nat (nat v) @ (if u then ''u'' else [])
      | TStr \<Rightarrow> [ch_dq, ch_dq]
      | TChar v \<Rightarrow> [ch_sq] @ (if v = 92 then [ch_bs, ch_bs] else [char_of (nat v)]) @ [ch_sq]
      | TPunct p \<Rightarrow> p)"

definition render_toks :: "tok list \<Rightarrow> string" where
  "render_toks ts = concat (map (\<lambda>t. render_tok t @ '' '') ts)"

lemma byte_eq_iff: "byte c = byte d \<longleftrightarrow> c = d"
  by (simp add: byte_def)

lemma byte_digit_char [simp]: "d < 10 \<Longrightarrow> byte (digit_char d) = 48 + d"
  by (simp add: byte_def digit_char_def)

lemma to_digit_digit_char [simp]: "d < 10 \<Longrightarrow> to_digit 10 (digit_char d) = Some d"
  by (simp add: to_digit_def Let_def)

lemma is_digit_digit_char [simp]: "d < 10 \<Longrightarrow> is_digit 10 (digit_char d)"
  by (simp add: is_digit_def)

lemma digit_char_zero: "d < 10 \<Longrightarrow> digit_char d = CHR ''0'' \<longleftrightarrow> d = 0"
  using byte_digit_char [of d] byte_eq_iff [of "digit_char d" "CHR ''0''"] by (simp add: byte_def)

lemma show_nat_digits: "list_all (is_digit 10) (show_nat n)"
  by (induction n rule: show_nat.induct) (subst show_nat.simps, simp)

lemma show_nat_nonempty [simp]: "show_nat n \<noteq> []"
  by (subst show_nat.simps) simp

lemma from_digits_snoc:
  "from_digits radix acc (xs @ [c]) =
     Option.bind (from_digits radix acc xs) (\<lambda>a. from_digits radix a [c])"
  by (induction radix acc xs rule: from_digits.induct) (auto split: option.splits)

lemma from_digits_show_nat: "int n \<le> i128_max \<Longrightarrow> from_digits 10 0 (show_nat n) = Some (int n)"
proof (induction n rule: show_nat.induct)
  case (1 n)
  have in_range: "in_i128 (int m)" if "m \<le> n" for m
    using that "1.prems" by (auto simp: in_i128_def i128_min_def)
  have digit: "from_digits 10 (int q) [digit_char d] = Some (int (10 * q + d))"
    if "d < 10" "10 * q + d \<le> n" for q d
    using that in_range [of "10 * q"] in_range [of "10 * q + d"]
    by (simp add: checked_mul_def checked_add_def checked_i128_def mult.commute)
  show ?case
  proof (cases "n < 10")
    case True
    then show ?thesis
      using digit [of n 0] by (subst show_nat.simps) simp
  next
    case False
    have "from_digits 10 0 (show_nat (n div 10)) = Some (int (n div 10))"
      using False "1.prems" by (intro "1.IH") auto
    then show ?thesis
      using False digit [of "n mod 10" "n div 10"]
      by (subst show_nat.simps) (simp add: from_digits_snoc del: from_digits.simps)
  qed
qed

lemma show_nat_head:
  "\<exists>d ds. show_nat n = digit_char d # ds \<and> d < 10 \<and> (d = 0 \<longleftrightarrow> n = 0) \<and> (n = 0 \<longrightarrow> ds = [])"
proof (induction n rule: show_nat.induct)
  case (1 n)
  show ?case
  proof (cases "n < 10")
    case True
    then have "show_nat n = [digit_char n]" by (subst show_nat.simps) simp
    with True show ?thesis by blast
  next
    case False
    then obtain d ds where "show_nat (n div 10) = digit_char d # ds" "d < 10" "d \<noteq> 0"
      using "1.IH" by (metis div_eq_0_iff linorder_not_less zero_neq_numeral)
    moreover have "show_nat n = show_nat (n div 10) @ [digit_char (n mod 10)]"
      using False by (subst show_nat.simps) simp
    ultimately show ?thesis
      using False by (intro exI [of _ d]) simp
  qed
qed

lemma not_digit_space [simp]: "\<not> is_digit 10 (CHR '' '')" "\<not> is_digit 10 (CHR ''u'')"
  by (simp_all add: is_digit_def to_digit_def byte_def)

lemma lex_number_show:
  assumes "int n \<le> i128_max"
  shows "lex_number (show_nat n @ (if u then ''u'' else []) @ '' '' @ r) = Some (TNum (int n) u, '' '' @ r)"
proof -
  let ?tail = "(if u then ''u'' else []) @ '' '' @ r"
  obtain d ds where d: "show_nat n = digit_char d # ds" "d < 10" "d = 0 \<longleftrightarrow> n = 0" "n = 0 \<longrightarrow> ds = []"
    using show_nat_head by blast
  have radix: "number_radix (show_nat n @ ?tail) = 10"
    using d by (auto simp: number_radix_def head_in_def digit_char_zero is_ascii_digit_def byte_def)
  have body: "number_body (show_nat n @ ?tail) = show_nat n @ ?tail"
    using radix by (simp add: number_body_def)
  have split: "takeWhile (is_digit 10) (show_nat n @ ?tail) = show_nat n"
      "dropWhile (is_digit 10) (show_nat n @ ?tail) = ?tail"
    using show_nat_digits [of n] by (auto simp: list_all_iff takeWhile_append2 dropWhile_append2)
  have heads: "\<not> head_in ?tail ''.''" "\<not> head_in ?tail ''eE''" "\<not> head_in ?tail ''fF''"
    by (auto simp: head_in_def)
  have val: "from_str_radix (show_nat n) 10 = Some (int n)"
    using from_digits_show_nat [OF assms] by (simp add: from_str_radix_def)
  have suffix: "number_suffix v ?tail = Some (TNum v u, '' '' @ r)" for v
    by (auto simp: number_suffix_def is_suffix_byte_def is_unsigned_byte_def is_ident_byte_def
        is_ascii_alphabetic_def is_ascii_digit_def byte_def)
  show ?thesis
    unfolding lex_number_def Let_def radix body split val by (simp add: heads suffix del: append.simps)
qed

lemmas byte_class_defs =
  is_ident_start_def is_ascii_alphabetic_def is_ascii_digit_def is_ascii_whitespace_def byte_def

lemma digit_first:
  assumes "is_ascii_digit c"
  shows "lex_step ls c cs = emit (lex_number (c # cs))"
proof -
  have "\<not> is_ascii_whitespace c"
    using assms by (auto simp: is_ascii_digit_def is_ascii_whitespace_def)
  moreover have "c \<noteq> ch_nl" "c \<noteq> CHR ''#''" "c \<noteq> CHR ''/''" "c \<noteq> ch_dq" "c \<noteq> ch_sq"
    using assms by (auto simp: byte_class_defs)
  ultimately show ?thesis
    using assms by (simp add: lex_step_def)
qed

lemma ident_start_range: "is_ident_start c \<Longrightarrow> byte c \<in> {36, 95} \<union> {65..90} \<union> {97..122}"
  by (auto simp: is_ident_start_def is_ascii_alphabetic_def byte_def)

lemma ident_first:
  assumes "is_ident_start c"
  shows "lex_step ls c cs = emit (Some (lex_word (c # cs)))"
proof -
  have "\<not> is_ascii_whitespace c" "\<not> is_ascii_digit c"
    using ident_start_range [OF assms] by (auto simp: is_ascii_digit_def is_ascii_whitespace_def)
  moreover have "c \<noteq> ch_nl" "c \<noteq> CHR ''#''" "c \<noteq> CHR ''/''" "c \<noteq> ch_dq" "c \<noteq> ch_sq"
    using ident_start_range [OF assms] by (auto simp: byte_def)
  ultimately show ?thesis
    using assms by (simp add: lex_step_def)
qed

lemma tokenize_number:
  assumes "0 \<le> v" "v \<le> i128_max"
  shows "tokenize_from ls (render_tok (TNum v u) @ '' '' @ r) =
    map_option ((#) (TNum v u)) (tokenize_from False r)"
proof -
  obtain d ds where d: "show_nat (nat v) = digit_char d # ds" "d < 10"
    using show_nat_head by blast
  let ?tail = "(if u then ''u'' else []) @ '' '' @ r"
  have "lex_number (digit_char d # ds @ ?tail) = Some (TNum v u, '' '' @ r)"
    using lex_number_show [of "nat v" u r] assms d by simp
  moreover have "is_ascii_digit (digit_char d)"
    using d by (simp add: is_ascii_digit_def)
  ultimately have "lex_step ls (digit_char d) (ds @ ?tail) = Some (Some (TNum v u), False, '' '' @ r)"
    by (simp add: digit_first emit_def)
  from tokenize_step [OF this] show ?thesis
    using d by (simp add: render_tok_def)
qed

lemma tokenize_word:
  assumes "wf_ident s"
  shows "tokenize_from ls (s @ '' '' @ r) = map_option ((#) (TIdent s)) (tokenize_from False r)"
proof -
  obtain c cs where s: "s = c # cs" "is_ident_start c"
    using assms by (cases s) (auto simp: wf_ident_def)
  have space: "\<not> is_ident_byte (CHR '' '')"
    by (simp add: is_ident_byte_def is_ascii_alphabetic_def is_ascii_digit_def byte_def)
  have "lex_word (s @ '' '' @ r) = (TIdent s, '' '' @ r)"
    using assms space
    by (simp add: lex_word_def wf_ident_def list_all_iff takeWhile_append2 dropWhile_append2)
  then have "lex_step ls c (cs @ '' '' @ r) = Some (Some (TIdent s), False, '' '' @ r)"
    using s by (simp add: ident_first emit_def)
  from tokenize_step [OF this] show ?thesis
    using s by simp
qed

lemma tokenize_quoted:
  "tokenize_from ls (ch_dq # ch_dq # r) = map_option ((#) TStr) (tokenize_from False r)"
  by (subst tokenize_step [where t = "Some TStr" and ls' = False and r = r])
    (cases r; simp add: lex_step_def is_ascii_whitespace_def byte_def emit_def)+

lemma byte_char_of: "n < 256 \<Longrightarrow> byte (char_of n) = n"
  by (simp add: byte_def)

lemma lex_step_char:
  assumes "0 \<le> v" "v < 128"
  shows "lex_step ls ch_sq ((if v = 92 then [ch_bs, ch_bs] else [char_of (nat v)]) @ ch_sq # r) =
    Some (Some (TChar v), False, r)"
proof (cases "v = 92")
  case True
  then show ?thesis
    by (simp add: lex_step_def is_ascii_whitespace_def byte_def lex_char_def close_char_def
        char_escape_def emit_def)
next
  case False
  have "byte (char_of (nat v)) = nat v"
    using assms by (simp add: byte_char_of)
  moreover have "char_of (nat v) \<noteq> ch_bs"
  proof
    assume "char_of (nat v) = ch_bs"
    then have "byte ch_bs = nat v" using calculation by simp
    then show False using False assms by (simp add: byte_def)
  qed
  ultimately have "lex_char (char_of (nat v) # ch_sq # r) = Some (TChar v, r)"
    using assms by (simp add: lex_char_def is_ascii_def close_char_def)
  with False show ?thesis
    by (simp add: lex_step_def is_ascii_whitespace_def byte_def emit_def)
qed

lemma tokenize_render_tok:
  assumes "wf_tok t"
  shows "tokenize_from ls (render_tok t @ '' '' @ r) = map_option ((#) t) (tokenize_from False r)"
proof (cases t)
  case (TIdent s)
  with assms show ?thesis
    using tokenize_word [of s ls r] by (simp add: render_tok_def)
next
  case (TNum v u)
  with assms show ?thesis
    using tokenize_number [of v ls u r] by simp
next
  case TStr
  then show ?thesis
    by (simp add: render_tok_def tokenize_quoted)
next
  case (TChar v)
  with assms show ?thesis
    using tokenize_step [OF lex_step_char [of v ls "'' '' @ r"]] by (auto simp: render_tok_def)
next
  case (TPunct p)
  with assms show ?thesis
    using tokenize_punct [of p ls r] by (simp add: render_tok_def)
qed

lemma tokenize_from_render: "list_all wf_tok ts \<Longrightarrow> tokenize_from ls (render_toks ts) = Some ts"
proof (induction ts arbitrary: ls)
  case (Cons t ts)
  then show ?case
    using tokenize_render_tok [of t ls "render_toks ts"] by (simp add: render_toks_def)
qed (simp add: render_toks_def)
section \<open>Properties of the tokenizer\<close>

text \<open>C38: Round trip. Every sequence of well-formed tokens (identifiers, integer constants in the
  range of \<open>i128\<close>, character constants, string literals, punctuators of the table), written
  out with one space after each token, is tokenized back to exactly that sequence.\<close>

theorem tokenize_render:
  assumes "list_all wf_tok ts"
  shows "tokenize (render_toks ts) = Some ts"
  using assms by (simp add: tokenize_def tokenize_from_render)

theorem tokenize_render_witness:
  "tokenize (render_toks [TIdent ''x'', TPunct ''<<='', TNum 12 True, TChar 92]) =
     Some [TIdent ''x'', TPunct ''<<='', TNum 12 True, TChar 92]"
  by (rule tokenize_render)
    (simp add: wf_ident_def byte_class_defs is_ident_byte_def PUNCTS_def i128_max_def)

text \<open>Whatever source text is accepted, the tokens are well formed: identifiers have the
  identifier shape, integer constants are in \<open>0..i128::MAX\<close>, character constants are ASCII
  and every punctuator is one of the table, so re-rendering and re-tokenizing them is the identity.\<close>

theorem tokenize_well_formed:
  assumes "tokenize src = Some ts"
  shows "list_all wf_tok ts \<and> tokenize (render_toks ts) = Some ts"
  using assms by (auto simp: tokenize_def tokenize_from_render dest: tokenize_from_wf)

theorem tokenize_well_formed_witness:
  "list_all wf_tok [TIdent ''a''] \<and> tokenize (render_toks [TIdent ''a'']) = Some [TIdent ''a'']"
proof (rule tokenize_well_formed)
  show "tokenize ''a'' = Some [TIdent ''a'']"
    by (simp add: tokenize_def tokenize_from.simps ident_first is_ident_start_def
        is_ascii_alphabetic_def byte_def emit_def lex_word_def is_ident_byte_def)
qed

text \<open>Longest match. The punctuator taken at a position is at least as long as every other
  punctuator of the table that starts there, so the order of the table never splits \<open><<=\<close>
  into \<open><<\<close> and \<open>=\<close>.\<close>

theorem lex_punct_longest:
  assumes "lex_punct b = Some (TPunct q, r)" and "p \<in> set PUNCTS" and "starts_with b p"
  shows "length p \<le> length q \<and> b = q @ r"
  using assms find_longest [OF PUNCTS_sorted, of b q p] starts_with_split [of b q]
  by (auto simp: lex_punct_def dest: find_SomeD)

theorem lex_punct_longest_witness:
  "length ''<<'' \<le> length ''<<='' \<and> ''<<=1'' = ''<<='' @ ''1''"
  by (rule lex_punct_longest) (simp_all add: lex_punct_def PUNCTS_def starts_with_def)

lemma skip_block_comment_None:
  "(\<nexists>u v. b = u @ ''*/'' @ v) \<Longrightarrow> skip_block_comment b = None"
proof (induction b rule: skip_block_comment.induct)
  case (3 c d cs)
  have "\<not> (c = CHR ''*'' \<and> d = CHR ''/'')"
    using "3.prems" by (metis append_Cons append_Nil)
  moreover have "\<nexists>u v. d # cs = u @ ''*/'' @ v"
    using "3.prems" by (metis append_Cons)
  ultimately show ?case
    using "3.IH" by simp
qed auto

text \<open>An unterminated block comment refuses the whole translation unit: if no \<open>*/\<close> follows
  an opening \<open>/*\<close>, the tokenizer returns \<open>None\<close>.\<close>

theorem unterminated_comment_refused:
  assumes "\<nexists>u v. b = u @ ''*/'' @ v"
  shows "tokenize (''/*'' @ b) = None"
  using skip_block_comment_None [OF assms]
  by (simp add: tokenize_def tokenize_refuse lex_step_def is_ascii_whitespace_def byte_def head_in_def)

theorem unterminated_comment_refused_witness: "tokenize (''/*'' @ ''ab'') = None"
  by (rule unterminated_comment_refused) (auto simp: Cons_eq_append_conv)

end
