(* ===== verification/C_Ast.thy ===== *)
theory C_Ast
  imports Prelude
begin

text \<open>
  The abstract syntax of the restricted C fragment and the C ABI layout rules,
  \<open>trust-mc-compiler/src/c_ffi/ast.rs\<close>.

  The enums become datatypes with the source's variants (prefixed where a name is taken), the
  structs records, a \<open>BTreeMap\<close> a partial map. \<open>size_align\<close> is recursive through the struct
  table, and nothing in the source bounds that recursion: the model carries fuel and
  \<open>Out_of_fuel\<close> stands for a call that has not returned yet. Sizes are \<open>u64\<close> in the source;
  an addition that leaves that range is the separate outcome \<open>Overflow\<close> (a panic or a
  wrap-around, depending on the build profile), and rounding up to a zero alignment is
  \<open>Zero_align\<close> (a panic in every profile). \<open>Incomplete\<close> is the source's \<open>None\<close>.

  Shown here: enough fuel for every acyclic struct table and stability of the result beyond it,
  divergence on a struct that contains itself by value, and the ABI laws of the computed layout
  (offsets aligned, increasing and disjoint, padding minimal, size a multiple of the alignment).
\<close>

section \<open>Abstract syntax\<close>

record c_target =
  pointer_bits :: nat
  long_bits :: nat

datatype cty =
    CVoid
  | CBool
  | CInt (int_bits: nat) (int_signed: bool)
  | CStruct string
  | CPtr cty
  | CVaList

datatype c_un_op = Neg | Plus | LogicalNot | BitNot

datatype c_bin_op =
    Add | Sub | Mul | Div | Rem | Shl | Shr | BitAnd | BitOr | BitXor
  | Eq | Ne | Lt | Le | Gt | Ge | LogicalAnd | LogicalOr

definition is_comparison :: "c_bin_op \<Rightarrow> bool" where
  "is_comparison op \<longleftrightarrow> op \<in> {Eq, Ne, Lt, Le, Gt, Ge}"

definition is_logical :: "c_bin_op \<Rightarrow> bool" where
  "is_logical op \<longleftrightarrow> op \<in> {LogicalAnd, LogicalOr}"

datatype c_expr =
    IntLit int bool
  | Ident string
  | Unary c_un_op c_expr
  | Binary c_bin_op c_expr c_expr
  | Assign "c_bin_op option" c_expr c_expr
  | IncDec bool bool c_expr
  | Member c_expr string bool
  | Deref c_expr
  | Cast cty c_expr
  | SizeOfTy cty
  | Cond c_expr c_expr c_expr
  | Call string "c_expr list"
  | VaStart string string
  | VaArg string cty
  | VaEnd string

datatype c_stmt =
    SCompound "c_stmt list"
  | SExpr c_expr
  | SReturn "c_expr option"
  | SIf c_expr c_stmt "c_stmt option"
  | SDecl cty string "c_expr option"
  | SFor "c_stmt option" "c_expr option" "c_expr option" c_stmt
  | SEmpty

record c_param =
  param_name :: "string option"
  param_ty :: cty

record c_func =
  func_name :: string
  ret :: cty
  params :: "c_param list"
  variadic :: bool
  body :: c_stmt

record c_field =
  field_name :: string
  field_ty :: cty

record c_struct_def =
  struct_name :: string
  struct_fields :: "c_field list"

record c_global =
  global_name :: string
  global_ty :: cty
  global_init :: "int option"

record c_program =
  funcs :: "string \<rightharpoonup> c_func"
  structs :: "string \<rightharpoonup> c_struct_def"
  globals :: "string \<rightharpoonup> c_global"
  refused :: "string \<rightharpoonup> string"

definition default_program :: c_program where
  "default_program =
     \<lparr>funcs = Map.empty, structs = Map.empty, globals = Map.empty, refused = Map.empty\<rparr>"

section \<open>Layout\<close>

datatype layout_err = Incomplete | Zero_align | Overflow | Out_of_fuel

type_synonym size_fun = "cty \<Rightarrow> layout_err + nat \<times> nat"

definition u64_limit :: nat where
  "u64_limit = 2 ^ 64"

text \<open>One field of the loops of \<open>size_align\<close> and \<open>field_offsets\<close>: round \<open>offset\<close> up to the
  field's alignment and add its size. The result is the field's offset, the next \<open>offset\<close> and
  the field's alignment.\<close>

definition place_field :: "size_fun \<Rightarrow> nat \<Rightarrow> c_field \<Rightarrow> layout_err + nat \<times> nat \<times> nat" where
  "place_field sa offset f =
     (case sa (field_ty f) of
        Inl e \<Rightarrow> Inl e
      | Inr (fsize, falign) \<Rightarrow>
          if falign = 0 then Inl Zero_align
          else
            (let at = next_multiple_of offset falign
             in if at + fsize < u64_limit then Inr (at, at + fsize, falign) else Inl Overflow))"

text \<open>The field loop of \<open>size_align\<close> from \<open>offset\<close> and \<open>max_align\<close>.\<close>

fun lay_fields :: "size_fun \<Rightarrow> c_field list \<Rightarrow> nat \<Rightarrow> nat \<Rightarrow> layout_err + nat \<times> nat" where
  "lay_fields sa [] offset max_align = Inr (offset, max_align)"
| "lay_fields sa (f # fs) offset max_align =
     (case place_field sa offset f of
        Inl e \<Rightarrow> Inl e
      | Inr (at, offset', falign) \<Rightarrow> lay_fields sa fs offset' (max max_align falign))"

definition struct_size :: "size_fun \<Rightarrow> c_field list \<Rightarrow> layout_err + nat \<times> nat" where
  "struct_size sa fs =
     (case lay_fields sa fs 0 1 of
        Inl e \<Rightarrow> Inl e
      | Inr (offset, max_align) \<Rightarrow>
          (let sz = next_multiple_of offset max_align
           in if sz < u64_limit then Inr (sz, max_align) else Inl Overflow))"

primrec size_align :: "nat \<Rightarrow> (string \<rightharpoonup> c_struct_def) \<Rightarrow> c_target \<Rightarrow> size_fun" where
  "size_align 0 sts tgt ty = Inl Out_of_fuel"
| "size_align (Suc n) sts tgt ty =
     (case ty of
        CVoid \<Rightarrow> Inl Incomplete
      | CVaList \<Rightarrow> Inl Incomplete
      | CBool \<Rightarrow> Inr (1, 1)
      | CInt bits _ \<Rightarrow> Inr (bits div 8, bits div 8)
      | CPtr _ \<Rightarrow> Inr (pointer_bits tgt div 8, pointer_bits tgt div 8)
      | CStruct tag \<Rightarrow>
          (case sts tag of
             None \<Rightarrow> Inl Incomplete
           | Some def \<Rightarrow> struct_size (size_align n sts tgt) (struct_fields def)))"

text \<open>The loop of \<open>field_offsets\<close>, with the offsets still to be pushed.\<close>

fun offsets_from :: "size_fun \<Rightarrow> c_field list \<Rightarrow> nat \<Rightarrow> layout_err + nat list" where
  "offsets_from sa [] offset = Inr []"
| "offsets_from sa (f # fs) offset =
     (case place_field sa offset f of
        Inl e \<Rightarrow> Inl e
      | Inr (at, offset', _) \<Rightarrow>
          (case offsets_from sa fs offset' of Inl e \<Rightarrow> Inl e | Inr os \<Rightarrow> Inr (at # os)))"

definition field_offsets ::
  "nat \<Rightarrow> (string \<rightharpoonup> c_struct_def) \<Rightarrow> c_target \<Rightarrow> string \<Rightarrow> layout_err + nat list" where
  "field_offsets n sts tgt tag =
     (case sts tag of
        None \<Rightarrow> Inl Incomplete
      | Some def \<Rightarrow> offsets_from (size_align n sts tgt) (struct_fields def) 0)"

section \<open>Fuel\<close>

text \<open>\<open>extends sa sb\<close>: where \<open>sa\<close> has enough fuel, \<open>sb\<close> answers the same.\<close>

definition extends :: "size_fun \<Rightarrow> size_fun \<Rightarrow> bool" where
  "extends sa sb \<longleftrightarrow> (\<forall>ty. sa ty \<noteq> Inl Out_of_fuel \<longrightarrow> sb ty = sa ty)"

lemma place_field_extends:
  "extends sa sb \<Longrightarrow> place_field sa offset f \<noteq> Inl Out_of_fuel \<Longrightarrow>
   place_field sb offset f = place_field sa offset f"
  unfolding extends_def by (cases "sa (field_ty f)") (auto simp: place_field_def)

lemma lay_fields_extends:
  "extends sa sb \<Longrightarrow> lay_fields sa fs offset m \<noteq> Inl Out_of_fuel \<Longrightarrow>
   lay_fields sb fs offset m = lay_fields sa fs offset m"
proof (induction fs arbitrary: offset m)
  case (Cons f fs)
  have "place_field sa offset f \<noteq> Inl Out_of_fuel"
    using Cons.prems(2) by auto
  then have "place_field sb offset f = place_field sa offset f"
    by (rule place_field_extends [OF Cons.prems(1)])
  with Cons show ?case
    by (auto split: sum.splits)
qed simp

lemma struct_size_extends:
  "extends sa sb \<Longrightarrow> struct_size sa fs \<noteq> Inl Out_of_fuel \<Longrightarrow> struct_size sb fs = struct_size sa fs"
  using lay_fields_extends [of sa sb fs 0 1] by (force simp: struct_size_def)

lemma lay_fields_fuel:
  "lay_fields sa fs offset m = Inl Out_of_fuel \<Longrightarrow> \<exists>f \<in> set fs. sa (field_ty f) = Inl Out_of_fuel"
  by (induction fs arbitrary: offset m)
    (auto simp: place_field_def Let_def split: sum.splits if_splits)

lemma struct_size_fuel:
  "struct_size sa fs = Inl Out_of_fuel \<Longrightarrow> \<exists>f \<in> set fs. sa (field_ty f) = Inl Out_of_fuel"
  by (auto simp: struct_size_def Let_def split: sum.splits if_splits dest: lay_fields_fuel)

text \<open>A ranking of the struct table: every struct that occurs by value as a field has a smaller
  rank than the struct that holds it. Such a ranking exists exactly when no struct contains
  itself by value.\<close>

definition ranked :: "(string \<rightharpoonup> c_struct_def) \<Rightarrow> (string \<Rightarrow> nat) \<Rightarrow> bool" where
  "ranked sts rank \<longleftrightarrow>
     (\<forall>tag def f tag'. sts tag = Some def \<longrightarrow> f \<in> set (struct_fields def) \<longrightarrow>
        field_ty f = CStruct tag' \<longrightarrow> rank tag' < rank tag)"

definition ty_rank :: "(string \<Rightarrow> nat) \<Rightarrow> cty \<Rightarrow> nat" where
  "ty_rank rank ty = (case ty of CStruct tag \<Rightarrow> Suc (rank tag) | _ \<Rightarrow> 0)"

lemma ranked_field:
  "ranked sts rank \<Longrightarrow> sts tag = Some def \<Longrightarrow> f \<in> set (struct_fields def) \<Longrightarrow>
   ty_rank rank (field_ty f) \<le> rank tag"
  by (auto simp: ranked_def ty_rank_def Suc_le_eq split: cty.splits)

lemma size_align_enough:
  "ranked sts rank \<Longrightarrow> ty_rank rank ty < n \<Longrightarrow> size_align n sts tgt ty \<noteq> Inl Out_of_fuel"
proof (induction n arbitrary: ty)
  case (Suc n)
  show ?case
  proof (cases ty)
    case (CStruct tag)
    have field: "size_align n sts tgt (field_ty f) \<noteq> Inl Out_of_fuel"
      if "sts tag = Some def" "f \<in> set (struct_fields def)" for def f
      using Suc.IH [OF Suc.prems(1)] ranked_field [OF Suc.prems(1) that] Suc.prems(2) CStruct
      by (simp add: ty_rank_def)
    show ?thesis
      using CStruct field by (auto split: option.splits dest!: struct_size_fuel)
  qed auto
qed simp

lemma size_align_Suc: "extends (size_align n sts tgt) (size_align (Suc n) sts tgt)"
proof (induction n)
  case (Suc n)
  have "struct_size (size_align (Suc n) sts tgt) fs = struct_size (size_align n sts tgt) fs"
    if "struct_size (size_align n sts tgt) fs \<noteq> Inl Out_of_fuel" for fs
    by (rule struct_size_extends [OF Suc that])
  then show ?case
    unfolding extends_def
    by (auto simp del: size_align.simps simp: size_align.simps(2) [of "Suc n"]
        size_align.simps(2) [of n] split: cty.splits option.splits)
qed (simp add: extends_def)

interpretation layout_fuel: fuel_indexed "\<lambda>n. size_align n sts tgt" "Inl Out_of_fuel" for sts tgt
  using size_align_Suc by unfold_locales (auto simp: extends_def simp del: size_align.simps)

section \<open>The ABI laws of the layout\<close>

text \<open>The widths the fragment's types can have; with them every alignment is a power of two
  below 16.\<close>

definition abi_aligns :: "nat set" where
  "abi_aligns = {1, 2, 4, 8}"

definition wf_target :: "c_target \<Rightarrow> bool" where
  "wf_target tgt \<longleftrightarrow> pointer_bits tgt \<in> {16, 32, 64} \<and> long_bits tgt \<in> {32, 64}"

fun wf_cty :: "cty \<Rightarrow> bool" where
  "wf_cty (CInt bits _) = (bits \<in> {8, 16, 32, 64})"
| "wf_cty (CPtr ty) = wf_cty ty"
| "wf_cty _ = True"

definition wf_structs :: "(string \<rightharpoonup> c_struct_def) \<Rightarrow> bool" where
  "wf_structs sts \<longleftrightarrow> (\<forall>tag def f. sts tag = Some def \<longrightarrow> f \<in> set (struct_fields def) \<longrightarrow> wf_cty (field_ty f))"

definition good_size :: "size_fun \<Rightarrow> bool" where
  "good_size sa \<longleftrightarrow>
     (\<forall>ty sz align. wf_cty ty \<longrightarrow> sa ty = Inr (sz, align) \<longrightarrow> align \<in> abi_aligns \<and> align dvd sz)"

lemma abi_aligns_pos [simp]: "a \<in> abi_aligns \<Longrightarrow> 0 < a"
  by (auto simp: abi_aligns_def)

lemma abi_aligns_max [simp]: "a \<in> abi_aligns \<Longrightarrow> b \<in> abi_aligns \<Longrightarrow> max a b \<in> abi_aligns"
  by (simp add: max_def)

lemma abi_aligns_dvd: "a \<in> abi_aligns \<Longrightarrow> b \<in> abi_aligns \<Longrightarrow> a \<le> b \<Longrightarrow> a dvd b"
  by (auto simp: abi_aligns_def)

lemma lay_fields_align:
  assumes "good_size sa" "lay_fields sa fs offset m = Inr (end_offset, m')"
    and "\<And>f. f \<in> set fs \<Longrightarrow> wf_cty (field_ty f)" and "m \<in> abi_aligns"
  shows "m' \<in> abi_aligns \<and> m \<le> m' \<and> (m' = m \<or> (\<exists>f \<in> set fs. \<exists>sz. sa (field_ty f) = Inr (sz, m'))) \<and>
    (\<forall>f \<in> set fs. \<exists>sz align. sa (field_ty f) = Inr (sz, align) \<and> align \<le> m')"
  using assms(2-4)
proof (induction fs arbitrary: offset m)
  case (Cons f fs)
  from Cons.prems(1) obtain at offset' falign where
    place: "place_field sa offset f = Inr (at, offset', falign)" and
    rest: "lay_fields sa fs offset' (max m falign) = Inr (end_offset, m')"
    by (auto split: sum.splits)
  from place obtain fsize where szf: "sa (field_ty f) = Inr (fsize, falign)" and
    off: "offset' = next_multiple_of offset falign + fsize"
    by (auto simp: place_field_def Let_def split: sum.splits if_splits)
  have "falign \<in> abi_aligns"
    using assms(1) szf Cons.prems(2) by (auto simp: good_size_def)
  then have IH: "m' \<in> abi_aligns \<and> max m falign \<le> m' \<and>
    (m' = max m falign \<or> (\<exists>f \<in> set fs. \<exists>sz. sa (field_ty f) = Inr (sz, m'))) \<and>
    (\<forall>f \<in> set fs. \<exists>sz align. sa (field_ty f) = Inr (sz, align) \<and> align \<le> m')"
    using Cons.IH [OF rest] Cons.prems(2,3) by simp
  with szf show ?case
    by (auto simp: max_def split: if_splits)
qed simp

lemma struct_size_good:
  assumes "good_size sa" "struct_size sa fs = Inr (sz, align)"
    and "\<And>f. f \<in> set fs \<Longrightarrow> wf_cty (field_ty f)"
  shows "align \<in> abi_aligns \<and> align dvd sz"
proof -
  from assms(2) obtain end_offset where
    lay: "lay_fields sa fs 0 1 = Inr (end_offset, align)" and
    sz: "sz = next_multiple_of end_offset align"
    by (auto simp: struct_size_def Let_def split: sum.splits if_splits)
  have "align \<in> abi_aligns"
    using lay_fields_align [OF assms(1) lay assms(3)] by (simp add: abi_aligns_def)
  with sz show ?thesis
    by (simp add: next_multiple_of_dvd)
qed

lemma size_align_good:
  assumes "wf_target tgt" "wf_structs sts"
  shows "good_size (size_align n sts tgt)"
proof (induction n)
  case (Suc n)
  have "align \<in> abi_aligns \<and> align dvd sz"
    if "wf_cty ty" "size_align (Suc n) sts tgt ty = Inr (sz, align)" for ty sz align
  proof (cases ty)
    case (CStruct tag)
    with that obtain def where "sts tag = Some def"
      "struct_size (size_align n sts tgt) (struct_fields def) = Inr (sz, align)"
      by (auto split: option.splits)
    then show ?thesis
      using struct_size_good [OF Suc] assms(2) by (auto simp: wf_structs_def)
  qed (use that assms(1) in \<open>auto simp: abi_aligns_def wf_target_def\<close>)
  then show ?case
    by (auto simp: good_size_def simp del: size_align.simps)
qed (simp add: good_size_def)

text \<open>The placement rule of the C ABI, as a predicate on the offsets of a field list: each field
  starts at the least multiple of its alignment that is not before the end of the field in front
  of it, and the last field ends at \<open>stop\<close>.\<close>

fun abi_offsets :: "size_fun \<Rightarrow> c_field list \<Rightarrow> nat \<Rightarrow> nat list \<Rightarrow> nat \<Rightarrow> bool" where
  "abi_offsets sa [] start os stop = (os = [] \<and> stop = start)"
| "abi_offsets sa (f # fs) start os stop =
     (case (sa (field_ty f), os) of
        (Inr (sz, align), at # os') \<Rightarrow>
          align dvd at \<and> start \<le> at \<and> at < start + align \<and> abi_offsets sa fs (at + sz) os' stop
      | _ \<Rightarrow> False)"

lemma offsets_from_abi:
  assumes "good_size sa" "lay_fields sa fs offset m = Inr (end_offset, m')"
    and "\<And>f. f \<in> set fs \<Longrightarrow> wf_cty (field_ty f)"
  shows "\<exists>os. offsets_from sa fs offset = Inr os \<and> abi_offsets sa fs offset os end_offset"
  using assms(2,3)
proof (induction fs arbitrary: offset m)
  case (Cons f fs)
  from Cons.prems(1) obtain at offset' falign where
    place: "place_field sa offset f = Inr (at, offset', falign)" and
    rest: "lay_fields sa fs offset' (max m falign) = Inr (end_offset, m')"
    by (auto split: sum.splits)
  from place obtain fsize where szf: "sa (field_ty f) = Inr (fsize, falign)" and
    at: "at = next_multiple_of offset falign" and off: "offset' = at + fsize" and pos: "0 < falign"
    by (auto simp: place_field_def Let_def split: sum.splits if_splits)
  obtain os where os: "offsets_from sa fs offset' = Inr os" "abi_offsets sa fs offset' os end_offset"
    using Cons.IH [OF rest] Cons.prems(2) by auto
  then show ?case
    using place szf off at pos
    by (simp add: next_multiple_of_dvd next_multiple_of_ge next_multiple_of_less)
qed simp

text \<open>C40: Layout. For a complete struct over the fragment's widths the computed offsets follow the
  C ABI placement rule (aligned, in declaration order, disjoint, padding minimal), the size is the least
  multiple of the alignment that holds the last field, and the alignment is the strictest one of the
  fields (1 without fields), of which every field's alignment is a divisor, so arrays of the struct keep
  every field aligned.\<close>

theorem struct_layout_abi:
  assumes "wf_target tgt" and "wf_structs sts" and "sts tag = Some def"
    and "size_align (Suc n) sts tgt (CStruct tag) = Inr (sz, align)"
  shows "(\<exists>os stop. field_offsets n sts tgt tag = Inr os \<and>
            abi_offsets (size_align n sts tgt) (struct_fields def) 0 os stop \<and> stop \<le> sz \<and> sz < stop + align) \<and>
         align dvd sz \<and>
         (align = 1 \<or> (\<exists>f \<in> set (struct_fields def). \<exists>fsize. size_align n sts tgt (field_ty f) = Inr (fsize, align))) \<and>
         list_all (\<lambda>f. case size_align n sts tgt (field_ty f) of
                         Inr (fsize, falign) \<Rightarrow> falign dvd align | Inl e \<Rightarrow> False) (struct_fields def)"
proof -
  let ?sa = "size_align n sts tgt" and ?fs = "struct_fields def"
  have good: "good_size ?sa"
    by (rule size_align_good [OF assms(1,2)])
  have wf: "\<And>f. f \<in> set ?fs \<Longrightarrow> wf_cty (field_ty f)"
    using assms(2,3) by (auto simp: wf_structs_def)
  from assms(3,4) have ss: "struct_size ?sa ?fs = Inr (sz, align)"
    by simp
  then obtain end_offset where lay: "lay_fields ?sa ?fs 0 1 = Inr (end_offset, align)"
    and sz: "sz = next_multiple_of end_offset align"
    by (auto simp: struct_size_def Let_def split: sum.splits if_splits)
  have aligns: "align \<in> abi_aligns" "align = 1 \<or> (\<exists>f \<in> set ?fs. \<exists>s. ?sa (field_ty f) = Inr (s, align))"
      "\<forall>f \<in> set ?fs. \<exists>s a. ?sa (field_ty f) = Inr (s, a) \<and> a \<le> align"
    using lay_fields_align [OF good lay wf] by (simp_all add: abi_aligns_def)
  have "\<exists>os. field_offsets n sts tgt tag = Inr os \<and> abi_offsets ?sa ?fs 0 os end_offset"
    using offsets_from_abi [OF good lay wf] assms(3) by (simp add: field_offsets_def)
  moreover have "end_offset \<le> sz" "sz < end_offset + align"
    using aligns(1) by (simp_all add: sz next_multiple_of_ge next_multiple_of_less)
  moreover have "case ?sa (field_ty f) of Inr (fsize, falign) \<Rightarrow> falign dvd align | Inl e \<Rightarrow> False" if f: "f \<in> set ?fs" for f
  proof -
    obtain s a where sa: "?sa (field_ty f) = Inr (s, a)" "a \<le> align"
      using aligns(3) f by blast
    then have "a \<in> abi_aligns"
      using good wf [OF f] by (auto simp: good_size_def)
    with sa aligns(1) show ?thesis
      by (simp add: abi_aligns_dvd)
  qed
  ultimately show ?thesis
    using struct_size_good [OF good ss wf] aligns(2) unfolding list_all_iff by blast
qed

text \<open>The corpus struct \<open>Foo2\<close>: 12 bytes, aligned to 4, fields at 0, 4 and 8.\<close>

definition Foo2 :: c_struct_def where
  "Foo2 = \<lparr>struct_name = ''Foo2'', struct_fields =
     [\<lparr>field_name = ''i'', field_ty = CInt 32 False\<rparr>,
      \<lparr>field_name = ''c'', field_ty = CInt 8 False\<rparr>,
      \<lparr>field_name = ''i2'', field_ty = CInt 32 False\<rparr>]\<rparr>"

definition lp64 :: c_target where
  "lp64 = \<lparr>pointer_bits = 64, long_bits = 64\<rparr>"

theorem struct_layout_abi_witness:
  "(\<exists>os stop. field_offsets 1 [''Foo2'' \<mapsto> Foo2] lp64 ''Foo2'' = Inr os \<and>
      abi_offsets (size_align 1 [''Foo2'' \<mapsto> Foo2] lp64) (struct_fields Foo2) 0 os stop \<and> stop \<le> 12 \<and> 12 < stop + 4) \<and>
   (4::nat) dvd 12 \<and>
   ((4::nat) = 1 \<or> (\<exists>f \<in> set (struct_fields Foo2). \<exists>fsize. size_align 1 [''Foo2'' \<mapsto> Foo2] lp64 (field_ty f) = Inr (fsize, 4))) \<and>
   list_all (\<lambda>f. case size_align 1 [''Foo2'' \<mapsto> Foo2] lp64 (field_ty f) of
                   Inr (fsize, falign) \<Rightarrow> falign dvd 4 | Inl e \<Rightarrow> False) (struct_fields Foo2)"
proof (rule struct_layout_abi)
  show "wf_target lp64" by (simp add: wf_target_def lp64_def)
  show "wf_structs [''Foo2'' \<mapsto> Foo2]"
    by (auto simp: wf_structs_def Foo2_def split: if_splits)
  show "[''Foo2'' \<mapsto> Foo2] ''Foo2'' = Some Foo2" by simp
  show "size_align (Suc 1) [''Foo2'' \<mapsto> Foo2] lp64 (CStruct ''Foo2'') = Inr (12, 4)"
    by (simp add: Foo2_def struct_size_def place_field_def Let_def next_multiple_of_def u64_limit_def)
qed

text \<open>Termination of the layout. When no struct contains itself by value (the table can be
  ranked), fuel above the rank of a type is enough: the recursion returns, and more fuel gives the
  same answer.\<close>

theorem size_align_terminates:
  assumes "ranked sts rank" and "ty_rank rank ty < n" and "n \<le> m"
  shows "size_align n sts tgt ty \<noteq> Inl Out_of_fuel \<and> size_align m sts tgt ty = size_align n sts tgt ty"
  using size_align_enough [OF assms(1,2)] layout_fuel.fuel_mono [OF assms(3)] by auto

theorem size_align_terminates_witness:
  "size_align 2 [''Foo2'' \<mapsto> Foo2] lp64 (CStruct ''Foo2'') \<noteq> Inl Out_of_fuel \<and>
   size_align 7 [''Foo2'' \<mapsto> Foo2] lp64 (CStruct ''Foo2'') = size_align 2 [''Foo2'' \<mapsto> Foo2] lp64 (CStruct ''Foo2'')"
  by (rule size_align_terminates [where rank = "\<lambda>_. 0"])
    (auto simp: ranked_def Foo2_def ty_rank_def split: if_splits)

text \<open>No bound on the recursion. A struct whose first field is the struct itself (which the
  parser accepts as a definition) has no layout at any fuel: the Rust function calls itself without
  end on it.\<close>

theorem size_align_diverges:
  assumes "sts tag = Some def" and "struct_fields def = f # fs" and "field_ty f = CStruct tag"
  shows "size_align n sts tgt (CStruct tag) = Inl Out_of_fuel"
  using assms by (induction n) (simp_all add: struct_size_def place_field_def)

theorem size_align_diverges_witness:
  "size_align 1000 [''S'' \<mapsto> \<lparr>struct_name = ''S'', struct_fields =
     [\<lparr>field_name = ''x'', field_ty = CStruct ''S''\<rparr>]\<rparr>] lp64 (CStruct ''S'') = Inl Out_of_fuel"
  by (rule size_align_diverges) auto

end
