(* ===== verification/C_Parse.thy ===== *)
theory C_Parse
  imports C_Lex C_Ast
begin

text \<open>
  The recursive-descent parser of the restricted C fragment,
  \<open>trust-mc-compiler/src/c_ffi/parse.rs\<close>: cursor, types, expressions and constant folding.

  The Rust \<open>Parser\<close> holds the token slice \<open>toks\<close> and an index \<open>pos\<close>; every access goes
  through \<open>toks.get(pos + n)\<close>, so the model's parser state is the suffix \<open>toks[pos..]\<close>. A
  method that returns \<open>Option<T>\<close> and moves \<open>pos\<close> becomes a function to
  \<open>(T * tok list) option\<close>; restoring a saved \<open>pos\<close> is using the earlier suffix again.

  The expression parser recurses without a structural bound, so its functions take fuel and
  return a \<open>pres\<close>: \<open>Parsed\<close>, \<open>Refused\<close> (the source's \<open>None\<close>), or \<open>No_fuel\<close>. The
  fuel \<open>10 * length ts + 10\<close> is enough for every token list (shown in \<open>C_Parse_Fuel\<close>).
\<close>

section \<open>Cursor\<close>

definition peek :: "tok list \<Rightarrow> tok option" where
  "peek ts = (case ts of [] \<Rightarrow> None | t # _ \<Rightarrow> Some t)"

definition peek_at :: "tok list \<Rightarrow> nat \<Rightarrow> tok option" where
  "peek_at ts n = peek (drop n ts)"

definition bump :: "tok list \<Rightarrow> (tok \<times> tok list) option" where
  "bump ts = (case ts of [] \<Rightarrow> None | t # ts' \<Rightarrow> Some (t, ts'))"

definition at_punct :: "string \<Rightarrow> tok list \<Rightarrow> bool" where
  "at_punct p ts \<longleftrightarrow> (case peek ts of None \<Rightarrow> False | Some t \<Rightarrow> is_punct t p)"

definition peek_ident :: "tok list \<Rightarrow> string option" where
  "peek_ident ts = Option.bind (peek ts) tok_ident"

definition eat_punct :: "string \<Rightarrow> tok list \<Rightarrow> bool \<times> tok list" where
  "eat_punct p ts = (if at_punct p ts then (True, tl ts) else (False, ts))"

definition expect_punct :: "string \<Rightarrow> tok list \<Rightarrow> tok list option" where
  "expect_punct p ts = (if at_punct p ts then Some (tl ts) else None)"

definition eat_ident :: "string \<Rightarrow> tok list \<Rightarrow> bool \<times> tok list" where
  "eat_ident name ts = (if peek_ident ts = Some name then (True, tl ts) else (False, ts))"

text \<open>\<open>self.bump()?.ident()?\<close>\<close>

definition bump_ident :: "tok list \<Rightarrow> (string \<times> tok list) option" where
  "bump_ident ts =
     (case bump ts of
        None \<Rightarrow> None
      | Some (t, ts') \<Rightarrow> (case tok_ident t of None \<Rightarrow> None | Some s \<Rightarrow> Some (s, ts')))"

section \<open>Types\<close>

definition IGNORED_SPECIFIERS :: "string list" where
  "IGNORED_SPECIFIERS =
     [''const'', ''volatile'', ''restrict'', ''__restrict'', ''register'', ''inline'', ''__inline'',
      ''auto'']"

definition TYPE_KEYWORDS :: "string list" where
  "TYPE_KEYWORDS =
     [''void'', ''_Bool'', ''bool'', ''signed'', ''unsigned'', ''short'', ''int'', ''long'',
      ''char'', ''struct'', ''int8_t'', ''int16_t'', ''int32_t'', ''int64_t'', ''uint8_t'',
      ''uint16_t'', ''uint32_t'', ''uint64_t'', ''size_t'', ''ssize_t'', ''ptrdiff_t'',
      ''intptr_t'', ''uintptr_t'', ''intmax_t'', ''uintmax_t'', ''va_list'']"

definition is_ignored :: "string \<Rightarrow> bool" where
  "is_ignored w \<longleftrightarrow> w \<in> set IGNORED_SPECIFIERS"

definition is_type_keyword :: "string \<Rightarrow> bool" where
  "is_type_keyword w \<longleftrightarrow> w \<in> set TYPE_KEYWORDS"

definition is_type_word :: "string \<Rightarrow> bool" where
  "is_type_word w \<longleftrightarrow> is_type_keyword w \<or> is_ignored w"

definition at_type_start :: "tok list \<Rightarrow> bool" where
  "at_type_start ts \<longleftrightarrow> (case peek_ident ts of None \<Rightarrow> False | Some w \<Rightarrow> is_type_word w)"

text \<open>The locals of \<open>parse_base_ty\<close>.\<close>

record specs =
  sp_signed :: "bool option"
  sp_longs :: nat
  sp_shorts :: nat
  sp_core :: "string option"
  sp_saw_any :: bool

definition no_specs :: specs where
  "no_specs = \<lparr>sp_signed = None, sp_longs = 0, sp_shorts = 0, sp_core = None, sp_saw_any = False\<rparr>"

text \<open>One turn of the specifier loop on the word under the cursor: go on with new locals, leave
  the loop, read a struct tag, or refuse.\<close>

datatype spec_step = Spec_next specs | Spec_done | Spec_struct | Spec_bad

definition spec_word :: "specs \<Rightarrow> string \<Rightarrow> spec_step" where
  "spec_word s w =
     (if is_ignored w then Spec_next s
      else if w = ''static'' \<or> w = ''extern'' then Spec_next (s\<lparr>sp_saw_any := True\<rparr>)
      else if w = ''signed'' then
        (if sp_signed s \<noteq> None then Spec_bad
         else Spec_next (s\<lparr>sp_signed := Some True, sp_saw_any := True\<rparr>))
      else if w = ''unsigned'' then
        (if sp_signed s \<noteq> None then Spec_bad
         else Spec_next (s\<lparr>sp_signed := Some False, sp_saw_any := True\<rparr>))
      else if w = ''long'' then Spec_next (s\<lparr>sp_longs := Suc (sp_longs s), sp_saw_any := True\<rparr>)
      else if w = ''short'' then Spec_next (s\<lparr>sp_shorts := Suc (sp_shorts s), sp_saw_any := True\<rparr>)
      else if w = ''struct'' then
        (if sp_core s \<noteq> None \<or> sp_signed s \<noteq> None \<or> sp_longs s > 0 \<or> sp_shorts s > 0 then Spec_bad
         else Spec_struct)
      else if is_type_keyword w then
        (if sp_core s \<noteq> None then Spec_bad
         else Spec_next (s\<lparr>sp_core := Some w, sp_saw_any := True\<rparr>))
      else Spec_done)"

text \<open>The loop itself: \<open>Inl ty\<close> is the early return of a struct type, \<open>Inr s\<close> the locals at
  its exit.\<close>

fun spec_loop :: "specs \<Rightarrow> tok list \<Rightarrow> ((cty + specs) \<times> tok list) option" where
  "spec_loop s [] = Some (Inr s, [])"
| "spec_loop s (t # ts) =
     (case tok_ident t of
        None \<Rightarrow> Some (Inr s, t # ts)
      | Some w \<Rightarrow>
          (case spec_word s w of
             Spec_next s' \<Rightarrow> spec_loop s' ts
           | Spec_done \<Rightarrow> Some (Inr s, t # ts)
           | Spec_bad \<Rightarrow> None
           | Spec_struct \<Rightarrow>
               (case bump_ident ts of
                  None \<Rightarrow> None
                | Some (tag, ts') \<Rightarrow>
                    if at_punct ''{'' ts' then None else Some (Inl (CStruct tag), ts'))))"

definition named_int :: "c_target \<Rightarrow> string \<Rightarrow> (nat \<times> bool) option" where
  "named_int tgt name =
     (if name = ''int8_t'' then Some (8, True)
      else if name = ''int16_t'' then Some (16, True)
      else if name = ''int32_t'' then Some (32, True)
      else if name = ''int64_t'' then Some (64, True)
      else if name = ''uint8_t'' then Some (8, False)
      else if name = ''uint16_t'' then Some (16, False)
      else if name = ''uint32_t'' then Some (32, False)
      else if name = ''uint64_t'' then Some (64, False)
      else if name = ''size_t'' \<or> name = ''uintptr_t'' then Some (pointer_bits tgt, False)
      else if name = ''ssize_t'' \<or> name = ''ptrdiff_t'' \<or> name = ''intptr_t'' then
        Some (pointer_bits tgt, True)
      else if name = ''intmax_t'' then Some (64, True)
      else if name = ''uintmax_t'' then Some (64, False)
      else None)"

text \<open>The \<open>match core\<close> that turns the collected specifiers into a type.\<close>

definition resolve_specs :: "c_target \<Rightarrow> specs \<Rightarrow> cty option" where
  "resolve_specs tgt s =
     (let bare = sp_signed s = None \<and> sp_longs s = 0 \<and> sp_shorts s = 0
      in case sp_core s of
           None \<Rightarrow> Some (CInt (if sp_shorts s > 0 then 16
                              else if sp_longs s = 1 then long_bits tgt
                              else if sp_longs s = 2 then 64 else 32)
                           (case sp_signed s of None \<Rightarrow> True | Some b \<Rightarrow> b))
         | Some core \<Rightarrow>
             if core = ''void'' then (if bare then Some CVoid else None)
             else if core = ''_Bool'' \<or> core = ''bool'' then (if bare then Some CBool else None)
             else if core = ''char'' then map_option (CInt 8) (sp_signed s)
             else if core = ''int'' then
               Some (CInt (if sp_shorts s > 0 then 16
                           else if sp_longs s = 1 then long_bits tgt
                           else if sp_longs s = 2 then 64 else 32)
                       (case sp_signed s of None \<Rightarrow> True | Some b \<Rightarrow> b))
             else if core = ''va_list'' then (if bare then Some CVaList else None)
             else if sp_longs s > 0 \<or> sp_shorts s > 0 then None
             else
               (case named_int tgt core of
                  None \<Rightarrow> None
                | Some (bits, sg) \<Rightarrow>
                    if sp_signed s \<noteq> None \<and> sp_signed s \<noteq> Some sg then None
                    else Some (CInt bits sg)))"

definition parse_base_ty :: "c_target \<Rightarrow> tok list \<Rightarrow> (cty \<times> tok list) option" where
  "parse_base_ty tgt ts =
     (case spec_loop no_specs ts of
        None \<Rightarrow> None
      | Some (Inl ty, ts') \<Rightarrow> Some (ty, ts')
      | Some (Inr s, ts') \<Rightarrow>
          if \<not> sp_saw_any s then None
          else if sp_shorts s > 1 \<or> sp_longs s > 2 then None
          else map_option (\<lambda>ty. (ty, ts')) (resolve_specs tgt s))"

fun skip_ignored :: "tok list \<Rightarrow> tok list" where
  "skip_ignored [] = []"
| "skip_ignored (t # ts) =
     (case tok_ident t of
        Some w \<Rightarrow> if is_ignored w then skip_ignored ts else t # ts
      | None \<Rightarrow> t # ts)"

lemma length_skip_ignored [shrinks]: "length (skip_ignored ts) \<le> length ts"
  by (induction ts) (auto split: option.splits)

lemma at_punct_nonempty: "at_punct p ts \<Longrightarrow> ts \<noteq> []"
  by (auto simp: at_punct_def peek_def)

lemma length_skip_ignored_tl [shrinks]: "ts \<noteq> [] \<Longrightarrow> length (skip_ignored (tl ts)) < length ts"
  using length_skip_ignored [of "tl ts"] by (cases ts) auto

function parse_pointer :: "cty \<Rightarrow> tok list \<Rightarrow> cty \<times> tok list" where
  "parse_pointer base ts =
     (if at_punct ''*'' ts then parse_pointer (CPtr base) (skip_ignored (tl ts)) else (base, ts))"
  by pat_completeness auto

termination
  by (relation "measure (length \<circ> snd)") (auto simp: length_skip_ignored_tl at_punct_nonempty)

declare parse_pointer.simps [simp del]

definition parse_type_name :: "c_target \<Rightarrow> tok list \<Rightarrow> (cty \<times> tok list) option" where
  "parse_type_name tgt ts =
     (case parse_base_ty tgt ts of
        None \<Rightarrow> None
      | Some (base, ts') \<Rightarrow> Some (parse_pointer base ts'))"

section \<open>Expressions\<close>

datatype 'a pres = Parsed 'a "tok list" | Refused | No_fuel

fun pbind :: "'a pres \<Rightarrow> ('a \<Rightarrow> tok list \<Rightarrow> 'b pres) \<Rightarrow> 'b pres" where
  "pbind (Parsed x ts) f = f x ts"
| "pbind Refused f = Refused"
| "pbind No_fuel f = No_fuel"

definition pres_of :: "('a \<times> tok list) option \<Rightarrow> 'a pres" where
  "pres_of r = (case r of None \<Rightarrow> Refused | Some (x, ts) \<Rightarrow> Parsed x ts)"

text \<open>\<open>self.expect_punct(p)?\<close> followed by the rest of the method.\<close>

definition expecting :: "string \<Rightarrow> tok list \<Rightarrow> (tok list \<Rightarrow> 'b pres) \<Rightarrow> 'b pres" where
  "expecting p ts f = (if at_punct p ts then f (tl ts) else Refused)"

definition assign_op :: "tok list \<Rightarrow> c_bin_op option option" where
  "assign_op ts =
     (case peek ts of
        Some (TPunct p) \<Rightarrow>
          if p = ''='' then Some None
          else if p = ''+='' then Some (Some Add)
          else if p = ''-='' then Some (Some Sub)
          else if p = ''*='' then Some (Some Mul)
          else if p = ''/='' then Some (Some Div)
          else if p = ''%='' then Some (Some Rem)
          else if p = ''<<='' then Some (Some Shl)
          else if p = ''>>='' then Some (Some Shr)
          else if p = ''&='' then Some (Some BitAnd)
          else if p = ''|='' then Some (Some BitOr)
          else if p = ''^='' then Some (Some BitXor)
          else None
      | _ \<Rightarrow> None)"

definition binary_op :: "tok \<Rightarrow> (c_bin_op \<times> nat) option" where
  "binary_op t =
     (case t of
        TPunct p \<Rightarrow>
          if p = ''||'' then Some (LogicalOr, 0)
          else if p = ''&&'' then Some (LogicalAnd, 1)
          else if p = ''|'' then Some (BitOr, 2)
          else if p = ''^'' then Some (BitXor, 3)
          else if p = ''&'' then Some (BitAnd, 4)
          else if p = ''=='' then Some (Eq, 5)
          else if p = ''!='' then Some (Ne, 5)
          else if p = ''<'' then Some (Lt, 6)
          else if p = ''<='' then Some (Le, 6)
          else if p = ''>'' then Some (Gt, 6)
          else if p = ''>='' then Some (Ge, 6)
          else if p = ''<<'' then Some (Shl, 7)
          else if p = ''>>'' then Some (Shr, 7)
          else if p = ''+'' then Some (Add, 8)
          else if p = ''-'' then Some (Sub, 8)
          else if p = ''*'' then Some (Mul, 9)
          else if p = ''/'' then Some (Div, 9)
          else if p = ''%'' then Some (Rem, 9)
          else None
      | _ \<Rightarrow> None)"

text \<open>\<open>parse_va_macro\<close>: \<open>None\<close> refuses the declaration, \<open>Some None\<close> means the callee is
  not one of the three macros.\<close>

definition is_va_macro :: "string \<Rightarrow> bool" where
  "is_va_macro callee \<longleftrightarrow> callee \<in> {''va_start'', ''va_arg'', ''va_end''}"

definition va_operands :: "c_target \<Rightarrow> string \<Rightarrow> string \<Rightarrow> tok list \<Rightarrow> (c_expr \<times> tok list) option" where
  "va_operands tgt callee ap ts =
     (if callee = ''va_end'' then Some (VaEnd ap, ts)
      else
        (case expect_punct '','' ts of
           None \<Rightarrow> None
         | Some ts1 \<Rightarrow>
             if callee = ''va_start'' then
               map_option (\<lambda>(last, ts2). (VaStart ap last, ts2)) (bump_ident ts1)
             else
               map_option (\<lambda>(ty, ts2). (VaArg ap ty, ts2)) (parse_type_name tgt ts1)))"

definition parse_va_macro ::
  "c_target \<Rightarrow> string \<Rightarrow> tok list \<Rightarrow> (c_expr \<times> tok list) option option" where
  "parse_va_macro tgt callee ts =
     (if \<not> is_va_macro callee then Some None
      else
        (case expect_punct ''('' ts of
           None \<Rightarrow> None
         | Some ts1 \<Rightarrow>
             (case bump_ident ts1 of
                None \<Rightarrow> None
              | Some (ap, ts2) \<Rightarrow>
                  (case va_operands tgt callee ap ts2 of
                     None \<Rightarrow> None
                   | Some (built, ts3) \<Rightarrow>
                       (case expect_punct '')'' ts3 of
                          None \<Rightarrow> None
                        | Some ts4 \<Rightarrow> Some (Some (built, ts4)))))))"

definition reserved_primary :: "string \<Rightarrow> bool" where
  "reserved_primary w \<longleftrightarrow>
     w \<in> {''return'', ''if'', ''else'', ''for'', ''while'', ''do'', ''switch'', ''sizeof''}"

text \<open>The prefix operators of \<open>parse_unary\<close>, in the order the source tries them.\<close>

definition unary_prefix :: "tok list \<Rightarrow> (c_expr \<Rightarrow> c_expr) option" where
  "unary_prefix ts =
     (if at_punct ''-'' ts then Some (Unary Neg)
      else if at_punct ''+'' ts then Some (Unary Plus)
      else if at_punct ''!'' ts then Some (Unary LogicalNot)
      else if at_punct ''~'' ts then Some (Unary BitNot)
      else if at_punct ''*'' ts then Some Deref
      else if at_punct ''++'' ts then Some (IncDec True True)
      else if at_punct ''--'' ts then Some (IncDec True False)
      else None)"

text \<open>The cast look-ahead of \<open>parse_unary\<close>: a parenthesised type name, or nothing, in which
  case the source restores the cursor.\<close>

definition parse_cast :: "c_target \<Rightarrow> tok list \<Rightarrow> (cty \<times> tok list) option" where
  "parse_cast tgt ts =
     (if at_punct ''('' ts \<and> at_type_start (tl ts) then
        (case parse_type_name tgt (tl ts) of
           None \<Rightarrow> None
         | Some (ty, ts') \<Rightarrow> map_option (Pair ty) (expect_punct '')'' ts'))
      else None)"

text \<open>
  The nine mutually recursive methods. Each takes the record \<open>r\<close> of the methods it calls
  (its own recursive calls included), so the body below reads like the Rust method with
  \<open>self.parse_x()\<close> written \<open>p_x r\<close>; the two \<open>loop\<close>s and the argument loop are methods of
  their own. \<open>parsers_at\<close> ties the knot: at fuel 0 every method answers \<open>No_fuel\<close>, at fuel
  \<open>Suc n\<close> the calls go to the methods at fuel \<open>n\<close>.
\<close>

record parsers =
  p_assign :: "tok list \<Rightarrow> c_expr pres"
  p_conditional :: "tok list \<Rightarrow> c_expr pres"
  p_binary :: "nat \<Rightarrow> tok list \<Rightarrow> c_expr pres"
  p_binary_loop :: "nat \<Rightarrow> c_expr \<Rightarrow> tok list \<Rightarrow> c_expr pres"
  p_unary :: "tok list \<Rightarrow> c_expr pres"
  p_postfix :: "tok list \<Rightarrow> c_expr pres"
  p_postfix_loop :: "c_expr \<Rightarrow> tok list \<Rightarrow> c_expr pres"
  p_args :: "tok list \<Rightarrow> c_expr list pres"
  p_primary :: "tok list \<Rightarrow> c_expr pres"

definition parse_assign :: "parsers \<Rightarrow> tok list \<Rightarrow> c_expr pres" where
  "parse_assign r ts =
     pbind (p_conditional r ts) (\<lambda>lhs ts1.
       case assign_op ts1 of
         None \<Rightarrow> Parsed lhs ts1
       | Some op \<Rightarrow> pbind (p_assign r (tl ts1)) (\<lambda>rhs ts2. Parsed (Assign op lhs rhs) ts2))"

definition parse_conditional :: "parsers \<Rightarrow> tok list \<Rightarrow> c_expr pres" where
  "parse_conditional r ts =
     pbind (p_binary r 0 ts) (\<lambda>c ts1.
       if \<not> at_punct ''?'' ts1 then Parsed c ts1
       else
         pbind (p_assign r (tl ts1)) (\<lambda>a ts2.
           expecting '':'' ts2 (\<lambda>ts3.
             pbind (p_conditional r ts3) (\<lambda>b ts4. Parsed (Cond c a b) ts4))))"

definition parse_binary :: "parsers \<Rightarrow> nat \<Rightarrow> tok list \<Rightarrow> c_expr pres" where
  "parse_binary r min_prec ts =
     pbind (p_unary r ts) (\<lambda>lhs ts1. p_binary_loop r min_prec lhs ts1)"

definition binary_loop :: "parsers \<Rightarrow> nat \<Rightarrow> c_expr \<Rightarrow> tok list \<Rightarrow> c_expr pres" where
  "binary_loop r min_prec lhs ts =
     (case Option.bind (peek ts) binary_op of
        None \<Rightarrow> Parsed lhs ts
      | Some (op, prec) \<Rightarrow>
          if prec < min_prec then Parsed lhs ts
          else
            pbind (p_binary r (prec + 1) (tl ts)) (\<lambda>rhs ts1.
              p_binary_loop r min_prec (Binary op lhs rhs) ts1))"

definition parse_unary :: "c_target \<Rightarrow> parsers \<Rightarrow> tok list \<Rightarrow> c_expr pres" where
  "parse_unary tgt r ts =
     (case unary_prefix ts of
        Some mk \<Rightarrow> pbind (p_unary r (tl ts)) (\<lambda>e ts1. Parsed (mk e) ts1)
      | None \<Rightarrow>
          if peek_ident ts = Some ''sizeof'' then
            expecting ''('' (tl ts) (\<lambda>ts1.
              pbind (pres_of (parse_type_name tgt ts1)) (\<lambda>ty ts2.
                expecting '')'' ts2 (\<lambda>ts3. Parsed (SizeOfTy ty) ts3)))
          else
            (case parse_cast tgt ts of
               Some (ty, ts1) \<Rightarrow> pbind (p_unary r ts1) (\<lambda>e ts2. Parsed (Cast ty e) ts2)
             | None \<Rightarrow> p_postfix r ts))"

definition parse_postfix :: "parsers \<Rightarrow> tok list \<Rightarrow> c_expr pres" where
  "parse_postfix r ts = pbind (p_primary r ts) (\<lambda>e ts1. p_postfix_loop r e ts1)"

text \<open>The call arm of the postfix loop: the cursor is at \<open>(\<close>.\<close>

definition postfix_call :: "c_target \<Rightarrow> parsers \<Rightarrow> string \<Rightarrow> tok list \<Rightarrow> c_expr pres" where
  "postfix_call tgt r callee ts =
     (case parse_va_macro tgt callee ts of
        None \<Rightarrow> Refused
      | Some (Some (va, ts1)) \<Rightarrow> p_postfix_loop r va ts1
      | Some None \<Rightarrow>
          if at_punct '')'' (tl ts) then p_postfix_loop r (Call callee []) (tl (tl ts))
          else
            pbind (p_args r (tl ts)) (\<lambda>args ts1. p_postfix_loop r (Call callee args) ts1))"

definition postfix_loop :: "c_target \<Rightarrow> parsers \<Rightarrow> c_expr \<Rightarrow> tok list \<Rightarrow> c_expr pres" where
  "postfix_loop tgt r e ts =
     (if at_punct ''.'' ts then
        pbind (pres_of (bump_ident (tl ts))) (\<lambda>f ts1. p_postfix_loop r (Member e f False) ts1)
      else if at_punct ''->'' ts then
        pbind (pres_of (bump_ident (tl ts))) (\<lambda>f ts1. p_postfix_loop r (Member e f True) ts1)
      else if at_punct ''++'' ts then p_postfix_loop r (IncDec False True e) (tl ts)
      else if at_punct ''--'' ts then p_postfix_loop r (IncDec False False e) (tl ts)
      else if at_punct ''('' ts then
        (case e of Ident callee \<Rightarrow> postfix_call tgt r callee ts | _ \<Rightarrow> Refused)
      else if at_punct ''['' ts then Refused
      else Parsed e ts)"

text \<open>The argument loop, from behind \<open>(\<close> or a comma.\<close>

definition call_args :: "parsers \<Rightarrow> tok list \<Rightarrow> c_expr list pres" where
  "call_args r ts =
     pbind (p_assign r ts) (\<lambda>a ts1.
       if at_punct '')'' ts1 then Parsed [a] (tl ts1)
       else
         expecting '','' ts1 (\<lambda>ts2.
           pbind (p_args r ts2) (\<lambda>as ts3. Parsed (a # as) ts3)))"

definition parse_primary :: "parsers \<Rightarrow> tok list \<Rightarrow> c_expr pres" where
  "parse_primary r ts =
     (case ts of
        TNum v u # ts1 \<Rightarrow> Parsed (IntLit v u) ts1
      | TChar v # ts1 \<Rightarrow> Parsed (IntLit v False) ts1
      | TIdent name # ts1 \<Rightarrow> if reserved_primary name then Refused else Parsed (Ident name) ts1
      | TPunct p # ts1 \<Rightarrow>
          if p = ''('' then
            pbind (p_assign r ts1) (\<lambda>e ts2. expecting '')'' ts2 (\<lambda>ts3. Parsed e ts3))
          else Refused
      | _ \<Rightarrow> Refused)"

primrec parsers_at :: "c_target \<Rightarrow> nat \<Rightarrow> parsers" where
  "parsers_at tgt 0 =
     \<lparr>p_assign = \<lambda>_. No_fuel, p_conditional = \<lambda>_. No_fuel, p_binary = \<lambda>_ _. No_fuel,
      p_binary_loop = \<lambda>_ _ _. No_fuel, p_unary = \<lambda>_. No_fuel, p_postfix = \<lambda>_. No_fuel,
      p_postfix_loop = \<lambda>_ _. No_fuel, p_args = \<lambda>_. No_fuel, p_primary = \<lambda>_. No_fuel\<rparr>"
| "parsers_at tgt (Suc n) =
     (let r = parsers_at tgt n
      in \<lparr>p_assign = parse_assign r, p_conditional = parse_conditional r,
          p_binary = parse_binary r, p_binary_loop = binary_loop r,
          p_unary = parse_unary tgt r, p_postfix = parse_postfix r,
          p_postfix_loop = postfix_loop tgt r, p_args = call_args r,
          p_primary = parse_primary r\<rparr>)"

definition expr_fuel :: "tok list \<Rightarrow> nat" where
  "expr_fuel ts = 10 * length ts + 10"

text \<open>\<open>parse_expr\<close> is \<open>parse_assign\<close> with fuel for the tokens it is given.\<close>

definition parse_expr :: "c_target \<Rightarrow> tok list \<Rightarrow> c_expr pres" where
  "parse_expr tgt ts = p_assign (parsers_at tgt (expr_fuel ts)) ts"

end
