(* ===== verification/C_Parse_Fuel.thy ===== *)
theory C_Parse_Fuel
  imports C_Parse
begin

text \<open>
  The expression parser as a total function. The parser of \<open>C_Parse\<close> runs on fuel; here every
  method is shown to consume tokens, to keep its answer when it gets more fuel, and to have
  enough with the fuel \<open>parse_expr\<close> gives it. The recursion therefore ends on every token list,
  and the equations of the source's methods hold without fuel (\<open>fuel-free equations\<close> below),
  which is what the round trip with the precedence-directed printer is proved from.
\<close>

section \<open>Every method consumes\<close>

named_theorems moves \<open>a successful step leaves fewer tokens, or not more\<close>

definition consumes :: "(tok list \<Rightarrow> 'a pres) \<Rightarrow> bool" where
  "consumes p \<longleftrightarrow> (\<forall>ts x ts'. p ts = Parsed x ts' \<longrightarrow> length ts' < length ts)"

definition keeps :: "(tok list \<Rightarrow> 'a pres) \<Rightarrow> bool" where
  "keeps p \<longleftrightarrow> (\<forall>ts x ts'. p ts = Parsed x ts' \<longrightarrow> length ts' \<le> length ts)"

lemma consumesD: "consumes p \<Longrightarrow> p ts = Parsed x ts' \<Longrightarrow> length ts' < length ts"
  by (auto simp: consumes_def)

lemma keepsD: "keeps p \<Longrightarrow> p ts = Parsed x ts' \<Longrightarrow> length ts' \<le> length ts"
  by (auto simp: keeps_def)

lemma pbind_Parsed:
  "pbind m f = Parsed x ts \<longleftrightarrow> (\<exists>y ts1. m = Parsed y ts1 \<and> f y ts1 = Parsed x ts)"
  by (cases m) auto

lemma pbind_No_fuel:
  "pbind m f = No_fuel \<longleftrightarrow> m = No_fuel \<or> (\<exists>y ts1. m = Parsed y ts1 \<and> f y ts1 = No_fuel)"
  by (cases m) auto

lemma expecting_Parsed:
  "expecting p ts f = Parsed x ts' \<longleftrightarrow> at_punct p ts \<and> f (tl ts) = Parsed x ts'"
  by (auto simp: expecting_def)

lemma expecting_No_fuel: "expecting p ts f = No_fuel \<longleftrightarrow> at_punct p ts \<and> f (tl ts) = No_fuel"
  by (auto simp: expecting_def)

lemma pres_of_Parsed: "pres_of r = Parsed x ts \<longleftrightarrow> r = Some (x, ts)"
  by (auto simp: pres_of_def split: option.splits)

lemma pres_of_No_fuel [simp]: "pres_of r \<noteq> No_fuel"
  by (auto simp: pres_of_def split: option.splits)

lemma at_punct_tl [moves]: "at_punct p ts \<Longrightarrow> length (tl ts) < length ts"
  by (cases ts) (auto dest: at_punct_nonempty)

lemma assign_op_tl [moves]: "assign_op ts = Some op \<Longrightarrow> length (tl ts) < length ts"
  by (cases ts) (auto simp: assign_op_def peek_def)

lemma binary_op_tl [moves]: "Option.bind (peek ts) binary_op = Some b \<Longrightarrow> length (tl ts) < length ts"
  by (cases ts) (auto simp: peek_def)

lemma unary_prefix_tl [moves]: "unary_prefix ts = Some mk \<Longrightarrow> length (tl ts) < length ts"
  by (auto simp: unary_prefix_def split: if_splits dest: at_punct_tl)

lemma peek_ident_tl [moves]: "peek_ident ts = Some w \<Longrightarrow> length (tl ts) < length ts"
  by (cases ts) (auto simp: peek_ident_def peek_def)

lemma bump_ident_shrinks [moves]: "bump_ident ts = Some (x, ts') \<Longrightarrow> length ts' < length ts"
  by (auto simp: bump_ident_def bump_def split: list.splits option.splits)

lemma expect_punct_shrinks [moves]: "expect_punct p ts = Some ts' \<Longrightarrow> length ts' < length ts"
  by (auto simp: expect_punct_def split: if_splits dest: at_punct_tl)

lemma spec_loop_shrinks [moves]: "spec_loop s ts = Some (r, ts') \<Longrightarrow> length ts' \<le> length ts"
  by (induction s ts rule: spec_loop.induct)
    (auto split: option.splits spec_step.splits if_splits dest!: bump_ident_shrinks intro: le_SucI)

lemma parse_base_ty_shrinks [moves]: "parse_base_ty tgt ts = Some (ty, ts') \<Longrightarrow> length ts' \<le> length ts"
  by (auto simp: parse_base_ty_def split: option.splits prod.splits sum.splits if_splits
      dest: spec_loop_shrinks)

lemma parse_pointer_shrinks: "length (snd (parse_pointer base ts)) \<le> length ts"
proof (induction base ts rule: parse_pointer.induct)
  case (1 base ts)
  then show ?case
    using length_skip_ignored_tl [of ts] at_punct_nonempty [of _ ts]
    by (subst parse_pointer.simps) (force intro: order_trans)
qed

lemma parse_type_name_shrinks [moves]:
  "parse_type_name tgt ts = Some (ty, ts') \<Longrightarrow> length ts' \<le> length ts"
  unfolding parse_type_name_def
  by (auto split: option.splits dest!: parse_base_ty_shrinks)
    (metis le_trans parse_pointer_shrinks snd_conv)

lemma va_operands_shrinks [moves]:
  "va_operands tgt callee ap ts = Some (e, ts') \<Longrightarrow> length ts' \<le> length ts"
  by (fastforce simp: va_operands_def split: if_splits option.splits dest: moves)

lemma parse_va_macro_shrinks [moves]:
  "parse_va_macro tgt callee ts = Some (Some (e, ts')) \<Longrightarrow> length ts' < length ts"
  by (fastforce simp: parse_va_macro_def split: if_splits option.splits prod.splits dest: moves)

lemma parse_cast_shrinks [moves]: "parse_cast tgt ts = Some (ty, ts') \<Longrightarrow> length ts' < length ts"
  by (fastforce simp: parse_cast_def split: if_splits option.splits prod.splits dest: moves)

text \<open>The nine methods at once: the two loops may stop where they are, every other method
  consumes at least one token.\<close>

definition all_consume :: "parsers \<Rightarrow> bool" where
  "all_consume r \<longleftrightarrow>
     consumes (p_assign r) \<and> consumes (p_conditional r) \<and> (\<forall>m. consumes (p_binary r m)) \<and>
     (\<forall>m e. keeps (p_binary_loop r m e)) \<and> consumes (p_unary r) \<and> consumes (p_postfix r) \<and>
     (\<forall>e. keeps (p_postfix_loop r e)) \<and> consumes (p_args r) \<and> consumes (p_primary r)"

lemma all_consumeD:
  assumes "all_consume r"
  shows "p_assign r ts = Parsed e ts' \<Longrightarrow> length ts' < length ts"
    and "p_conditional r ts = Parsed e ts' \<Longrightarrow> length ts' < length ts"
    and "p_binary r m ts = Parsed e ts' \<Longrightarrow> length ts' < length ts"
    and "p_binary_loop r m lhs ts = Parsed e ts' \<Longrightarrow> length ts' \<le> length ts"
    and "p_unary r ts = Parsed e ts' \<Longrightarrow> length ts' < length ts"
    and "p_postfix r ts = Parsed e ts' \<Longrightarrow> length ts' < length ts"
    and "p_postfix_loop r lhs ts = Parsed e ts' \<Longrightarrow> length ts' \<le> length ts"
    and "p_args r ts = Parsed es ts' \<Longrightarrow> length ts' < length ts"
    and "p_primary r ts = Parsed e ts' \<Longrightarrow> length ts' < length ts"
  using assms by (auto simp: all_consume_def consumes_def keeps_def)

lemmas pres_simps = pbind_Parsed pbind_No_fuel expecting_Parsed expecting_No_fuel pres_of_Parsed
lemmas pres_splits = option.splits prod.splits if_splits

lemma consumes_step:
  assumes "all_consume r"
  shows "consumes (parse_assign r)" and "consumes (parse_conditional r)"
    and "consumes (parse_binary r m)" and "keeps (binary_loop r m e)"
    and "consumes (parse_unary tgt r)" and "consumes (parse_postfix r)"
    and "keeps (postfix_loop tgt r e)" and "consumes (call_args r)" and "consumes (parse_primary r)"
proof -
  note D = all_consumeD [OF assms]
  show "consumes (parse_assign r)"
    by (auto simp: consumes_def parse_assign_def pres_simps split: pres_splits dest!: D dest: moves)
  show "consumes (parse_conditional r)"
    by (auto simp: consumes_def parse_conditional_def pres_simps split: pres_splits dest!: D dest: moves)
  show "consumes (parse_binary r m)"
    by (auto simp: consumes_def parse_binary_def pres_simps dest!: D)
  show "keeps (binary_loop r m e)"
    by (auto simp: keeps_def binary_loop_def pres_simps split: pres_splits dest!: D dest: moves)
  show "consumes (parse_unary tgt r)"
    by (auto simp: consumes_def parse_unary_def pres_simps split: pres_splits dest!: D moves)
  show "consumes (parse_postfix r)"
    by (auto simp: consumes_def parse_postfix_def pres_simps dest!: D)
  show "consumes (call_args r)"
    by (auto simp: consumes_def call_args_def pres_simps split: pres_splits dest!: D dest: moves)
  show "consumes (parse_primary r)"
    by (auto simp: consumes_def parse_primary_def pres_simps
        split: list.splits tok.splits if_splits dest!: D dest: moves)
  show "keeps (postfix_loop tgt r e)"
    by (auto simp: keeps_def postfix_loop_def postfix_call_def pres_simps
        split: c_expr.splits pres_splits dest!: D dest: moves)
qed

lemma all_consume_parsers: "all_consume (parsers_at tgt n)"
proof (induction n)
  case 0
  show ?case by (simp add: all_consume_def consumes_def keeps_def)
next
  case (Suc n)
  then show ?case
    using consumes_step [OF Suc] by (simp add: all_consume_def Let_def)
qed

section \<open>More fuel never changes an answer\<close>

definition below :: "'a pres \<Rightarrow> 'a pres \<Rightarrow> bool" where
  "below m m' \<longleftrightarrow> m = No_fuel \<or> m' = m"

lemma below_refl [simp]: "below m m"
  by (simp add: below_def)

lemma below_pbind:
  "below m m' \<Longrightarrow> (\<And>x ts. below (f x ts) (f' x ts)) \<Longrightarrow> below (pbind m f) (pbind m' f')"
  by (cases m) (auto simp: below_def)

lemma below_expecting:
  "(\<And>ts. below (f ts) (f' ts)) \<Longrightarrow> below (expecting p ts f) (expecting p ts f')"
  by (simp add: expecting_def)

definition refines :: "parsers \<Rightarrow> parsers \<Rightarrow> bool" where
  "refines r r' \<longleftrightarrow>
     (\<forall>ts. below (p_assign r ts) (p_assign r' ts)) \<and>
     (\<forall>ts. below (p_conditional r ts) (p_conditional r' ts)) \<and>
     (\<forall>m ts. below (p_binary r m ts) (p_binary r' m ts)) \<and>
     (\<forall>m e ts. below (p_binary_loop r m e ts) (p_binary_loop r' m e ts)) \<and>
     (\<forall>ts. below (p_unary r ts) (p_unary r' ts)) \<and>
     (\<forall>ts. below (p_postfix r ts) (p_postfix r' ts)) \<and>
     (\<forall>e ts. below (p_postfix_loop r e ts) (p_postfix_loop r' e ts)) \<and>
     (\<forall>ts. below (p_args r ts) (p_args r' ts)) \<and>
     (\<forall>ts. below (p_primary r ts) (p_primary r' ts))"

lemma refinesD:
  assumes "refines r r'"
  shows "below (p_assign r ts) (p_assign r' ts)"
    and "below (p_conditional r ts) (p_conditional r' ts)"
    and "below (p_binary r m ts) (p_binary r' m ts)"
    and "below (p_binary_loop r m e ts) (p_binary_loop r' m e ts)"
    and "below (p_unary r ts) (p_unary r' ts)"
    and "below (p_postfix r ts) (p_postfix r' ts)"
    and "below (p_postfix_loop r e ts) (p_postfix_loop r' e ts)"
    and "below (p_args r ts) (p_args r' ts)"
    and "below (p_primary r ts) (p_primary r' ts)"
  using assms by (auto simp: refines_def)

lemma parsers_at_sel:
  "p_assign (parsers_at tgt (Suc n)) = parse_assign (parsers_at tgt n)"
  "p_conditional (parsers_at tgt (Suc n)) = parse_conditional (parsers_at tgt n)"
  "p_binary (parsers_at tgt (Suc n)) = parse_binary (parsers_at tgt n)"
  "p_binary_loop (parsers_at tgt (Suc n)) = binary_loop (parsers_at tgt n)"
  "p_unary (parsers_at tgt (Suc n)) = parse_unary tgt (parsers_at tgt n)"
  "p_postfix (parsers_at tgt (Suc n)) = parse_postfix (parsers_at tgt n)"
  "p_postfix_loop (parsers_at tgt (Suc n)) = postfix_loop tgt (parsers_at tgt n)"
  "p_args (parsers_at tgt (Suc n)) = call_args (parsers_at tgt n)"
  "p_primary (parsers_at tgt (Suc n)) = parse_primary (parsers_at tgt n)"
  by (simp_all add: Let_def)

declare parsers_at.simps(2) [simp del]

lemma refines_step:
  assumes "refines r r'"
  shows "below (parse_assign r ts) (parse_assign r' ts)"
    and "below (parse_conditional r ts) (parse_conditional r' ts)"
    and "below (parse_binary r m ts) (parse_binary r' m ts)"
    and "below (binary_loop r m e ts) (binary_loop r' m e ts)"
    and "below (parse_unary tgt r ts) (parse_unary tgt r' ts)"
    and "below (parse_postfix r ts) (parse_postfix r' ts)"
    and "below (postfix_loop tgt r e ts) (postfix_loop tgt r' e ts)"
    and "below (call_args r ts) (call_args r' ts)"
    and "below (parse_primary r ts) (parse_primary r' ts)"
  unfolding parse_assign_def parse_conditional_def parse_binary_def binary_loop_def
    parse_unary_def parse_postfix_def postfix_loop_def postfix_call_def call_args_def parse_primary_def
  by (auto intro!: below_pbind below_expecting simp: refinesD [OF assms]
      split: option.split c_expr.split list.split tok.split)

lemma refines_Suc: "refines (parsers_at tgt n) (parsers_at tgt (Suc n))"
proof (induction n)
  case 0
  show ?case by (simp add: refines_def below_def)
next
  case (Suc n)
  show ?case
    unfolding refines_def parsers_at_sel by (simp only: refines_step [OF Suc] simp_thms)
qed

lemma below_Suc: "below m m' \<Longrightarrow> m \<noteq> No_fuel \<Longrightarrow> m' = m"
  by (auto simp: below_def)

interpretation assign_fuel: fuel_indexed "\<lambda>n. p_assign (parsers_at tgt n)" No_fuel for tgt
  by unfold_locales (rule below_Suc [OF refinesD(1) [OF refines_Suc]])

interpretation conditional_fuel: fuel_indexed "\<lambda>n. p_conditional (parsers_at tgt n)" No_fuel for tgt
  by unfold_locales (rule below_Suc [OF refinesD(2) [OF refines_Suc]])

interpretation binary_fuel: fuel_indexed "\<lambda>n. p_binary (parsers_at tgt n) m" No_fuel for tgt m
  by unfold_locales (rule below_Suc [OF refinesD(3) [OF refines_Suc]])

interpretation binary_loop_fuel: fuel_indexed "\<lambda>n. p_binary_loop (parsers_at tgt n) m e" No_fuel
  for tgt m e
  by unfold_locales (rule below_Suc [OF refinesD(4) [OF refines_Suc]])

interpretation unary_fuel: fuel_indexed "\<lambda>n. p_unary (parsers_at tgt n)" No_fuel for tgt
  by unfold_locales (rule below_Suc [OF refinesD(5) [OF refines_Suc]])

interpretation postfix_fuel: fuel_indexed "\<lambda>n. p_postfix (parsers_at tgt n)" No_fuel for tgt
  by unfold_locales (rule below_Suc [OF refinesD(6) [OF refines_Suc]])

interpretation postfix_loop_fuel: fuel_indexed "\<lambda>n. p_postfix_loop (parsers_at tgt n) e" No_fuel
  for tgt e
  by unfold_locales (rule below_Suc [OF refinesD(7) [OF refines_Suc]])

interpretation args_fuel: fuel_indexed "\<lambda>n. p_args (parsers_at tgt n)" No_fuel for tgt
  by unfold_locales (rule below_Suc [OF refinesD(8) [OF refines_Suc]])

interpretation primary_fuel: fuel_indexed "\<lambda>n. p_primary (parsers_at tgt n)" No_fuel for tgt
  by unfold_locales (rule below_Suc [OF refinesD(9) [OF refines_Suc]])

section \<open>The fuel is enough\<close>

text \<open>Ten units per token: the longest chain of calls that does not consume is
  \<open>call_args - parse_assign - parse_conditional - parse_binary - parse_unary - parse_postfix -
  parse_primary\<close>.\<close>

definition enough :: "nat \<Rightarrow> parsers \<Rightarrow> bool" where
  "enough n r \<longleftrightarrow>
     (\<forall>ts. 10 * length ts + 6 < n \<longrightarrow> p_assign r ts \<noteq> No_fuel) \<and>
     (\<forall>ts. 10 * length ts + 5 < n \<longrightarrow> p_conditional r ts \<noteq> No_fuel) \<and>
     (\<forall>m ts. 10 * length ts + 4 < n \<longrightarrow> p_binary r m ts \<noteq> No_fuel) \<and>
     (\<forall>m e ts. 10 * length ts < n \<longrightarrow> p_binary_loop r m e ts \<noteq> No_fuel) \<and>
     (\<forall>ts. 10 * length ts + 3 < n \<longrightarrow> p_unary r ts \<noteq> No_fuel) \<and>
     (\<forall>ts. 10 * length ts + 2 < n \<longrightarrow> p_postfix r ts \<noteq> No_fuel) \<and>
     (\<forall>e ts. 10 * length ts < n \<longrightarrow> p_postfix_loop r e ts \<noteq> No_fuel) \<and>
     (\<forall>ts. 10 * length ts + 7 < n \<longrightarrow> p_args r ts \<noteq> No_fuel) \<and>
     (\<forall>ts. 10 * length ts + 1 < n \<longrightarrow> p_primary r ts \<noteq> No_fuel)"

lemma enoughD:
  assumes "enough n r"
  shows "p_assign r ts = No_fuel \<Longrightarrow> n \<le> 10 * length ts + 6"
    and "p_conditional r ts = No_fuel \<Longrightarrow> n \<le> 10 * length ts + 5"
    and "p_binary r m ts = No_fuel \<Longrightarrow> n \<le> 10 * length ts + 4"
    and "p_binary_loop r m e ts = No_fuel \<Longrightarrow> n \<le> 10 * length ts"
    and "p_unary r ts = No_fuel \<Longrightarrow> n \<le> 10 * length ts + 3"
    and "p_postfix r ts = No_fuel \<Longrightarrow> n \<le> 10 * length ts + 2"
    and "p_postfix_loop r e ts = No_fuel \<Longrightarrow> n \<le> 10 * length ts"
    and "p_args r ts = No_fuel \<Longrightarrow> n \<le> 10 * length ts + 7"
    and "p_primary r ts = No_fuel \<Longrightarrow> n \<le> 10 * length ts + 1"
  using assms by (auto simp: enough_def not_less [symmetric])

lemma enough_step:
  assumes "enough n r" and "all_consume r"
  shows "parse_assign r ts = No_fuel \<Longrightarrow> n < 10 * length ts + 6"
    and "parse_conditional r ts = No_fuel \<Longrightarrow> n < 10 * length ts + 5"
    and "parse_binary r m ts = No_fuel \<Longrightarrow> n < 10 * length ts + 4"
    and "binary_loop r m e ts = No_fuel \<Longrightarrow> n < 10 * length ts"
    and "parse_unary tgt r ts = No_fuel \<Longrightarrow> n < 10 * length ts + 3"
    and "parse_postfix r ts = No_fuel \<Longrightarrow> n < 10 * length ts + 2"
    and "postfix_loop tgt r e ts = No_fuel \<Longrightarrow> n < 10 * length ts"
    and "call_args r ts = No_fuel \<Longrightarrow> n < 10 * length ts + 7"
    and "parse_primary r ts = No_fuel \<Longrightarrow> n < 10 * length ts + 1"
proof -
  note E = enoughD [OF assms(1)] and D = all_consumeD [OF assms(2)]
  show "parse_assign r ts = No_fuel \<Longrightarrow> n < 10 * length ts + 6"
    unfolding parse_assign_def
    by (auto simp: pres_simps split: pres_splits dest!: D E dest: moves)
  show "parse_conditional r ts = No_fuel \<Longrightarrow> n < 10 * length ts + 5"
    unfolding parse_conditional_def
    by (auto simp: pres_simps split: pres_splits dest!: D E dest: moves)
  show "parse_binary r m ts = No_fuel \<Longrightarrow> n < 10 * length ts + 4"
    unfolding parse_binary_def by (auto simp: pres_simps dest!: D E)
  show "binary_loop r m e ts = No_fuel \<Longrightarrow> n < 10 * length ts"
    unfolding binary_loop_def
    by (auto simp: pres_simps split: pres_splits dest!: D E dest: moves)
  show "parse_unary tgt r ts = No_fuel \<Longrightarrow> n < 10 * length ts + 3"
    unfolding parse_unary_def
    by (auto simp: pres_simps split: pres_splits dest!: D E moves)
  show "parse_postfix r ts = No_fuel \<Longrightarrow> n < 10 * length ts + 2"
    unfolding parse_postfix_def by (auto simp: pres_simps dest!: D E)
  show "postfix_loop tgt r e ts = No_fuel \<Longrightarrow> n < 10 * length ts"
    unfolding postfix_loop_def postfix_call_def
    by (auto simp: pres_simps split: c_expr.splits pres_splits dest!: D E moves)
  show "call_args r ts = No_fuel \<Longrightarrow> n < 10 * length ts + 7"
    unfolding call_args_def
    by (auto simp: pres_simps split: pres_splits dest!: D E dest: moves)
  show "parse_primary r ts = No_fuel \<Longrightarrow> n < 10 * length ts + 1"
    unfolding parse_primary_def
    by (auto simp: pres_simps split: list.splits tok.splits if_splits dest!: D E dest: moves)
qed

lemma enough_parsers: "enough n (parsers_at tgt n)"
proof (induction n)
  case 0
  show ?case by (simp add: enough_def)
next
  case (Suc n)
  note S = enough_step [OF Suc all_consume_parsers]
  show ?case
    unfolding enough_def parsers_at_sel by (auto dest!: S)
qed

lemma parse_expr_answers: "parse_expr tgt ts \<noteq> No_fuel"
  using enoughD(1) [OF enough_parsers [of "expr_fuel ts" tgt], of ts]
  by (auto simp: parse_expr_def expr_fuel_def)

section \<open>Fuel-free equations\<close>

text \<open>The methods as the source has them: each runs on the fuel that is enough for its tokens.\<close>

definition the_parsers :: "c_target \<Rightarrow> parsers" where
  "the_parsers tgt =
     \<lparr>p_assign = \<lambda>ts. p_assign (parsers_at tgt (expr_fuel ts)) ts,
      p_conditional = \<lambda>ts. p_conditional (parsers_at tgt (expr_fuel ts)) ts,
      p_binary = \<lambda>m ts. p_binary (parsers_at tgt (expr_fuel ts)) m ts,
      p_binary_loop = \<lambda>m e ts. p_binary_loop (parsers_at tgt (expr_fuel ts)) m e ts,
      p_unary = \<lambda>ts. p_unary (parsers_at tgt (expr_fuel ts)) ts,
      p_postfix = \<lambda>ts. p_postfix (parsers_at tgt (expr_fuel ts)) ts,
      p_postfix_loop = \<lambda>e ts. p_postfix_loop (parsers_at tgt (expr_fuel ts)) e ts,
      p_args = \<lambda>ts. p_args (parsers_at tgt (expr_fuel ts)) ts,
      p_primary = \<lambda>ts. p_primary (parsers_at tgt (expr_fuel ts)) ts\<rparr>"

lemma expr_fuel_enough:
  "p_assign (parsers_at tgt (expr_fuel ts)) ts \<noteq> No_fuel"
  "p_conditional (parsers_at tgt (expr_fuel ts)) ts \<noteq> No_fuel"
  "p_binary (parsers_at tgt (expr_fuel ts)) m ts \<noteq> No_fuel"
  "p_binary_loop (parsers_at tgt (expr_fuel ts)) m e ts \<noteq> No_fuel"
  "p_unary (parsers_at tgt (expr_fuel ts)) ts \<noteq> No_fuel"
  "p_postfix (parsers_at tgt (expr_fuel ts)) ts \<noteq> No_fuel"
  "p_postfix_loop (parsers_at tgt (expr_fuel ts)) e ts \<noteq> No_fuel"
  "p_args (parsers_at tgt (expr_fuel ts)) ts \<noteq> No_fuel"
  "p_primary (parsers_at tgt (expr_fuel ts)) ts \<noteq> No_fuel"
  using enough_parsers [of "expr_fuel ts" tgt] by (auto simp: enough_def expr_fuel_def)

lemma refines_the_parsers: "refines (parsers_at tgt n) (the_parsers tgt)"
  unfolding refines_def below_def the_parsers_def
  by (auto intro: assign_fuel.fuel_agree conditional_fuel.fuel_agree binary_fuel.fuel_agree
      binary_loop_fuel.fuel_agree unary_fuel.fuel_agree postfix_fuel.fuel_agree
      postfix_loop_fuel.fuel_agree args_fuel.fuel_agree primary_fuel.fuel_agree
      simp: expr_fuel_enough)

lemma the_parsers_step:
  assumes "n = expr_fuel ts"
  shows "p_assign (the_parsers tgt) ts = p_assign (parsers_at tgt (Suc n)) ts"
    and "p_conditional (the_parsers tgt) ts = p_conditional (parsers_at tgt (Suc n)) ts"
    and "p_binary (the_parsers tgt) m ts = p_binary (parsers_at tgt (Suc n)) m ts"
    and "p_binary_loop (the_parsers tgt) m e ts = p_binary_loop (parsers_at tgt (Suc n)) m e ts"
    and "p_unary (the_parsers tgt) ts = p_unary (parsers_at tgt (Suc n)) ts"
    and "p_postfix (the_parsers tgt) ts = p_postfix (parsers_at tgt (Suc n)) ts"
    and "p_postfix_loop (the_parsers tgt) e ts = p_postfix_loop (parsers_at tgt (Suc n)) e ts"
    and "p_args (the_parsers tgt) ts = p_args (parsers_at tgt (Suc n)) ts"
    and "p_primary (the_parsers tgt) ts = p_primary (parsers_at tgt (Suc n)) ts"
  using assms expr_fuel_enough [of tgt ts] refinesD [OF refines_Suc [of tgt n]]
  by (simp_all add: the_parsers_def below_def) metis+

lemma the_parsers_fix:
  "p_assign (the_parsers tgt) ts = parse_assign (the_parsers tgt) ts"
  "p_conditional (the_parsers tgt) ts = parse_conditional (the_parsers tgt) ts"
  "p_binary (the_parsers tgt) m ts = parse_binary (the_parsers tgt) m ts"
  "p_binary_loop (the_parsers tgt) m e ts = binary_loop (the_parsers tgt) m e ts"
  "p_unary (the_parsers tgt) ts = parse_unary tgt (the_parsers tgt) ts"
  "p_postfix (the_parsers tgt) ts = parse_postfix (the_parsers tgt) ts"
  "p_postfix_loop (the_parsers tgt) e ts = postfix_loop tgt (the_parsers tgt) e ts"
  "p_args (the_parsers tgt) ts = call_args (the_parsers tgt) ts"
  "p_primary (the_parsers tgt) ts = parse_primary (the_parsers tgt) ts"
proof -
  let ?n = "expr_fuel ts"
  note up = refines_step [OF refines_the_parsers [of tgt ?n]]
    and step = the_parsers_step [OF refl, where tgt = tgt and ts = ts]
    and full = expr_fuel_enough [where tgt = tgt and ts = ts]
    and more = refinesD [OF refines_Suc [of tgt ?n]]
  show "p_assign (the_parsers tgt) ts = parse_assign (the_parsers tgt) ts"
    using up(1) [of ts] more(1) [of ts] full(1) step(1) by (auto simp: below_def parsers_at_sel)
  show "p_conditional (the_parsers tgt) ts = parse_conditional (the_parsers tgt) ts"
    using up(2) [of ts] more(2) [of ts] full(2) step(2) by (auto simp: below_def parsers_at_sel)
  show "p_binary (the_parsers tgt) m ts = parse_binary (the_parsers tgt) m ts"
    using up(3) [of m ts] more(3) [of m ts] full(3) step(3) by (auto simp: below_def parsers_at_sel)
  show "p_binary_loop (the_parsers tgt) m e ts = binary_loop (the_parsers tgt) m e ts"
    using up(4) [of m e ts] more(4) [of m e ts] full(4) step(4) by (auto simp: below_def parsers_at_sel)
  show "p_unary (the_parsers tgt) ts = parse_unary tgt (the_parsers tgt) ts"
    using up(5) [of tgt ts] more(5) [of ts] full(5) step(5) by (auto simp: below_def parsers_at_sel)
  show "p_postfix (the_parsers tgt) ts = parse_postfix (the_parsers tgt) ts"
    using up(6) [of ts] more(6) [of ts] full(6) step(6) by (auto simp: below_def parsers_at_sel)
  show "p_postfix_loop (the_parsers tgt) e ts = postfix_loop tgt (the_parsers tgt) e ts"
    using up(7) [of tgt e ts] more(7) [of e ts] full(7) step(7) by (auto simp: below_def parsers_at_sel)
  show "p_args (the_parsers tgt) ts = call_args (the_parsers tgt) ts"
    using up(8) [of ts] more(8) [of ts] full(8) step(8) by (auto simp: below_def parsers_at_sel)
  show "p_primary (the_parsers tgt) ts = parse_primary (the_parsers tgt) ts"
    using up(9) [of ts] more(9) [of ts] full(9) step(9) by (auto simp: below_def parsers_at_sel)
qed

lemma parse_expr_the_parsers: "parse_expr tgt = p_assign (the_parsers tgt)"
  by (simp add: fun_eq_iff parse_expr_def the_parsers_def)

text \<open>C28: Termination of the expression parser. On every token list the recursive descent ends:
  the fuel \<open>parse_expr\<close> gives is enough, any larger fuel gives the same answer, and a parsed
  expression has consumed at least one token.\<close>

theorem parse_expr_total:
  "parse_expr tgt ts \<noteq> No_fuel \<and>
   p_assign (parsers_at tgt (expr_fuel ts + k)) ts = parse_expr tgt ts \<and>
   (case parse_expr tgt ts of Parsed e rest \<Rightarrow> length rest < length ts | _ \<Rightarrow> True)"
  using parse_expr_answers [of tgt ts] assign_fuel.fuel_mono [of "expr_fuel ts" "expr_fuel ts + k" tgt ts]
    all_consumeD(1) [OF all_consume_parsers [of tgt "expr_fuel ts"]]
  by (auto simp: parse_expr_def split: pres.split)

end
