(* ===== verification/C_Print.thy ===== *)
theory C_Print
  imports C_Parse_Fuel
begin

text \<open>
  The expression grammar of the fragment, read backwards: a printer that writes an expression
  with the parentheses its precedence needs, and the round trip through tokenizer and parser.
  The printer is the specification of precedence and associativity that \<open>parse_binary\<close> and its
  neighbours implement: if the climbing loop bound an operator too tightly or too loosely, or
  associated to the right, some printed expression would be read back differently.

  Levels: 0 assignment, 1 conditional, \<open>2 + p\<close> binary operators of precedence \<open>p\<close>, 12
  prefix operators, casts and \<open>sizeof\<close>, 13 postfix forms and primaries.
\<close>

section \<open>Printing\<close>

fun un_sym :: "c_un_op \<Rightarrow> string" where
  "un_sym Neg = ''-''"
| "un_sym Plus = ''+''"
| "un_sym LogicalNot = ''!''"
| "un_sym BitNot = ''~''"

fun bin_sym :: "c_bin_op \<Rightarrow> string" where
  "bin_sym Add = ''+''"
| "bin_sym Sub = ''-''"
| "bin_sym Mul = ''*''"
| "bin_sym Div = ''/''"
| "bin_sym Rem = ''%''"
| "bin_sym Shl = ''<<''"
| "bin_sym Shr = ''>>''"
| "bin_sym BitAnd = ''&''"
| "bin_sym BitOr = ''|''"
| "bin_sym BitXor = ''^''"
| "bin_sym Eq = ''==''"
| "bin_sym Ne = ''!=''"
| "bin_sym Lt = ''<''"
| "bin_sym Le = ''<=''"
| "bin_sym Gt = ''>''"
| "bin_sym Ge = ''>=''"
| "bin_sym LogicalAnd = ''&&''"
| "bin_sym LogicalOr = ''||''"

fun bin_prec :: "c_bin_op \<Rightarrow> nat" where
  "bin_prec LogicalOr = 0"
| "bin_prec LogicalAnd = 1"
| "bin_prec BitOr = 2"
| "bin_prec BitXor = 3"
| "bin_prec BitAnd = 4"
| "bin_prec Eq = 5"
| "bin_prec Ne = 5"
| "bin_prec Lt = 6"
| "bin_prec Le = 6"
| "bin_prec Gt = 6"
| "bin_prec Ge = 6"
| "bin_prec Shl = 7"
| "bin_prec Shr = 7"
| "bin_prec Add = 8"
| "bin_prec Sub = 8"
| "bin_prec Mul = 9"
| "bin_prec Div = 9"
| "bin_prec Rem = 9"

definition assign_sym :: "c_bin_op option \<Rightarrow> string" where
  "assign_sym op = (case op of None \<Rightarrow> ''='' | Some b \<Rightarrow> bin_sym b @ ''='')"

definition assign_ops :: "c_bin_op list" where
  "assign_ops = [Add, Sub, Mul, Div, Rem, Shl, Shr, BitAnd, BitOr, BitXor]"

definition int_name :: "nat \<Rightarrow> bool \<Rightarrow> string" where
  "int_name bits sg =
     (if bits = 8 then (if sg then ''int8_t'' else ''uint8_t'')
      else if bits = 16 then (if sg then ''int16_t'' else ''uint16_t'')
      else if bits = 32 then (if sg then ''int32_t'' else ''uint32_t'')
      else (if sg then ''int64_t'' else ''uint64_t''))"

fun print_ty :: "cty \<Rightarrow> tok list" where
  "print_ty CVoid = [TIdent ''void'']"
| "print_ty CBool = [TIdent ''bool'']"
| "print_ty (CInt bits sg) = [TIdent (int_name bits sg)]"
| "print_ty (CStruct tag) = [TIdent ''struct'', TIdent tag]"
| "print_ty (CPtr ty) = print_ty ty @ [TPunct ''*'']"
| "print_ty CVaList = [TIdent ''va_list'']"

definition wrap :: "nat \<Rightarrow> nat \<Rightarrow> tok list \<Rightarrow> tok list" where
  "wrap l level ts = (if l \<le> level then ts else TPunct ''('' # ts @ [TPunct '')''])"

fun print_expr :: "nat \<Rightarrow> c_expr \<Rightarrow> tok list" and print_args :: "c_expr list \<Rightarrow> tok list" where
  "print_expr l (IntLit v u) = [TNum v u]"
| "print_expr l (Ident w) = [TIdent w]"
| "print_expr l (Unary op e) = wrap l 12 (TPunct (un_sym op) # print_expr 12 e)"
| "print_expr l (Deref e) = wrap l 12 (TPunct ''*'' # print_expr 12 e)"
| "print_expr l (IncDec pre inc e) =
     (let t = TPunct (if inc then ''++'' else ''--'')
      in if pre then wrap l 12 (t # print_expr 12 e) else wrap l 13 (print_expr 13 e @ [t]))"
| "print_expr l (Cast ty e) =
     wrap l 12 (TPunct ''('' # print_ty ty @ TPunct '')'' # print_expr 12 e)"
| "print_expr l (SizeOfTy ty) =
     wrap l 12 (TIdent ''sizeof'' # TPunct ''('' # print_ty ty @ [TPunct '')''])"
| "print_expr l (Member e f arrow) =
     wrap l 13 (print_expr 13 e @ [TPunct (if arrow then ''->'' else ''.''), TIdent f])"
| "print_expr l (Call f args) = TIdent f # TPunct ''('' # print_args args"
| "print_expr l (VaStart ap name) =
     [TIdent ''va_start'', TPunct ''('', TIdent ap, TPunct '','', TIdent name, TPunct '')'']"
| "print_expr l (VaArg ap ty) =
     TIdent ''va_arg'' # TPunct ''('' # TIdent ap # TPunct '','' # print_ty ty @ [TPunct '')'']"
| "print_expr l (VaEnd ap) = [TIdent ''va_end'', TPunct ''('', TIdent ap, TPunct '')'']"
| "print_expr l (Binary op a b) =
     (let p = bin_prec op
      in wrap l (2 + p) (print_expr (2 + p) a @ TPunct (bin_sym op) # print_expr (3 + p) b))"
| "print_expr l (Cond c a b) =
     wrap l 1 (print_expr 2 c @ TPunct ''?'' # print_expr 0 a @ TPunct '':'' # print_expr 1 b)"
| "print_expr l (Assign op a b) =
     wrap l 0 (print_expr 1 a @ TPunct (assign_sym op) # print_expr 0 b)"
| "print_args [] = [TPunct '')'']"
| "print_args [e] = print_expr 0 e @ [TPunct '')'']"
| "print_args (e # es) = print_expr 0 e @ TPunct '','' # print_args es"

text \<open>The expressions the printer covers: names that are names (not type words, statement
  keywords or variadic macros), literals the tokenizer can produce, types with a spelling.\<close>

fun printable_ty :: "cty \<Rightarrow> bool" where
  "printable_ty (CInt bits _) = (bits \<in> {8, 16, 32, 64})"
| "printable_ty (CStruct tag) = wf_ident tag"
| "printable_ty (CPtr ty) = printable_ty ty"
| "printable_ty _ = True"

definition plain_name :: "string \<Rightarrow> bool" where
  "plain_name w \<longleftrightarrow> wf_ident w \<and> \<not> is_type_word w \<and> \<not> reserved_primary w"

fun printable :: "c_expr \<Rightarrow> bool" where
  "printable (IntLit v u) = (0 \<le> v \<and> v \<le> i128_max)"
| "printable (Ident w) = plain_name w"
| "printable (Unary op e) = printable e"
| "printable (Deref e) = printable e"
| "printable (IncDec pre inc e) = printable e"
| "printable (Cast ty e) = (printable_ty ty \<and> printable e)"
| "printable (SizeOfTy ty) = printable_ty ty"
| "printable (Member e f arrow) = (printable e \<and> wf_ident f)"
| "printable (Call f args) = (plain_name f \<and> \<not> is_va_macro f \<and> list_all printable args)"
| "printable (VaStart ap name) = (wf_ident ap \<and> wf_ident name)"
| "printable (VaArg ap ty) = (wf_ident ap \<and> printable_ty ty)"
| "printable (VaEnd ap) = wf_ident ap"
| "printable (Binary op a b) = (printable a \<and> printable b)"
| "printable (Cond c a b) = (printable c \<and> printable a \<and> printable b)"
| "printable (Assign op a b) =
     ((case op of None \<Rightarrow> True | Some bop \<Rightarrow> bop \<in> set assign_ops) \<and> printable a \<and> printable b)"

section \<open>Every printed token is a token of the language\<close>

lemma wf_ident_names [simp]:
  "wf_ident ''void''" "wf_ident ''bool''" "wf_ident ''struct''" "wf_ident ''va_list''"
  "wf_ident ''sizeof''" "wf_ident ''va_start''" "wf_ident ''va_arg''" "wf_ident ''va_end''"
  "wf_ident ''return''" "wf_ident ''if''" "wf_ident ''else''" "wf_ident ''for''"
  "wf_ident (int_name bits sg)"
  by (simp_all add: wf_ident_def is_ident_start_def is_ident_byte_def is_ascii_alphabetic_def
      is_ascii_digit_def byte_def int_name_def)

lemma op_puncts_in [simp]: "bin_sym op \<in> set PUNCTS" "un_sym uop \<in> set PUNCTS"
  by (cases op; simp add: PUNCTS_def) (cases uop; simp add: PUNCTS_def)

lemma puncts_in [simp]:
  "''('' \<in> set PUNCTS" "'')'' \<in> set PUNCTS" "'','' \<in> set PUNCTS" "''?'' \<in> set PUNCTS"
  "'':'' \<in> set PUNCTS" "''++'' \<in> set PUNCTS" "''--'' \<in> set PUNCTS" "''*'' \<in> set PUNCTS"
  "''.'' \<in> set PUNCTS" "''->'' \<in> set PUNCTS" "'';'' \<in> set PUNCTS" "''{'' \<in> set PUNCTS"
  "''}'' \<in> set PUNCTS" "''='' \<in> set PUNCTS"
  by (simp_all add: PUNCTS_def)

lemma assign_sym_in: "case op of None \<Rightarrow> True | Some bop \<Rightarrow> bop \<in> set assign_ops \<Longrightarrow> assign_sym op \<in> set PUNCTS"
  by (auto simp: assign_sym_def assign_ops_def PUNCTS_def split: option.splits)

lemma wf_print_ty: "printable_ty ty \<Longrightarrow> list_all wf_tok (print_ty ty)"
  by (induction ty) auto

lemma wf_wrap [simp]: "list_all wf_tok (wrap l level ts) = list_all wf_tok ts"
  by (simp add: wrap_def)

lemma wf_print_expr:
  "printable e \<Longrightarrow> list_all wf_tok (print_expr l e)"
  "list_all printable es \<Longrightarrow> list_all wf_tok (print_args es)"
  by (induction l e and es rule: print_expr_print_args.induct)
    (auto simp: wf_print_ty assign_sym_in plain_name_def Let_def)

section \<open>Types are read back\<close>

lemma at_punct_simps [simp]:
  "at_punct p [] = False"
  "at_punct p (TPunct q # ts) = (q = p)"
  "at_punct p (TIdent w # ts) = False"
  "at_punct p (TNum v u # ts) = False"
  "at_punct p (TStr # ts) = False"
  "at_punct p (TChar c # ts) = False"
  by (simp_all add: at_punct_def peek_def is_punct_def)

lemma peek_ident_simps [simp]:
  "peek_ident [] = None"
  "peek_ident (TIdent w # ts) = Some w"
  "peek_ident (TPunct q # ts) = None"
  "peek_ident (TNum v u # ts) = None"
  "peek_ident (TStr # ts) = None"
  "peek_ident (TChar c # ts) = None"
  by (simp_all add: peek_ident_def peek_def tok_ident_def)

lemma bump_ident_simps [simp]: "bump_ident (TIdent w # ts) = Some (w, ts)"
  by (simp add: bump_ident_def bump_def tok_ident_def)

text \<open>What may follow the spelling of a type: no word the specifier loop would take.\<close>

definition type_stop :: "tok list \<Rightarrow> bool" where
  "type_stop ts \<longleftrightarrow>
     (case ts of TIdent w # _ \<Rightarrow> \<not> is_type_word w \<and> w \<noteq> ''static'' \<and> w \<noteq> ''extern'' | _ \<Rightarrow> True)"

lemma type_stop_simps [simp]:
  "type_stop (TPunct p # ts)"
  "type_stop (TIdent w # ts) = (\<not> is_type_word w \<and> w \<noteq> ''static'' \<and> w \<noteq> ''extern'')"
  by (simp_all add: type_stop_def)

lemmas keyword_simps = is_type_keyword_def TYPE_KEYWORDS_def is_ignored_def IGNORED_SPECIFIERS_def

lemma skip_ignored_stop: "type_stop ts \<Longrightarrow> skip_ignored ts = ts"
  by (cases ts) (auto simp: type_stop_def tok_ident_def is_type_word_def split: tok.splits)

lemma spec_word_stop:
  "\<not> is_type_word w \<Longrightarrow> w \<noteq> ''static'' \<Longrightarrow> w \<noteq> ''extern'' \<Longrightarrow> spec_word s w = Spec_done"
  by (auto simp: spec_word_def is_type_word_def is_type_keyword_def TYPE_KEYWORDS_def)

lemma spec_loop_stop: "type_stop ts \<Longrightarrow> spec_loop s ts = Some (Inr s, ts)"
  by (cases ts) (auto simp: type_stop_def tok_ident_def spec_word_stop split: tok.splits)

fun star_depth :: "cty \<Rightarrow> nat" where
  "star_depth (CPtr ty) = Suc (star_depth ty)"
| "star_depth _ = 0"

fun base_of :: "cty \<Rightarrow> cty" where
  "base_of (CPtr ty) = base_of ty"
| "base_of ty = ty"

lemma print_ty_base: "print_ty ty = print_ty (base_of ty) @ replicate (star_depth ty) (TPunct ''*'')"
  by (induction ty) (auto simp: replicate_append_same)

lemma parse_pointer_stars:
  assumes "type_stop rest" and "\<not> at_punct ''*'' rest"
  shows "parse_pointer base (replicate n (TPunct ''*'') @ rest) = ((CPtr ^^ n) base, rest)"
proof (induction n arbitrary: base)
  case 0
  then show ?case using assms(2) by (subst parse_pointer.simps) simp
next
  case (Suc n)
  have skip: "skip_ignored (replicate n (TPunct ''*'') @ rest) = replicate n (TPunct ''*'') @ rest"
    using assms(1) by (intro skip_ignored_stop) (cases n; simp)
  show ?case
    by (subst parse_pointer.simps) (simp add: skip Suc funpow_swap1)
qed

lemma stars_base: "(CPtr ^^ star_depth ty) (base_of ty) = ty"
  by (induction ty) auto

text \<open>Reading the spelling of a base type; a named integer type is looked up by its name.\<close>

lemma spec_loop_keyword:
  assumes "is_type_keyword w" and "\<not> is_ignored w"
    and "w \<notin> {''signed'', ''unsigned'', ''long'', ''short'', ''struct'', ''static'', ''extern''}"
    and "type_stop ts"
  shows "spec_loop no_specs (TIdent w # ts) =
    Some (Inr (no_specs\<lparr>sp_core := Some w, sp_saw_any := True\<rparr>), ts)"
  using assms by (simp add: tok_ident_def spec_word_def no_specs_def spec_loop_stop)

lemma parse_base_keyword:
  assumes "is_type_keyword w" and "\<not> is_ignored w"
    and "w \<notin> {''signed'', ''unsigned'', ''long'', ''short'', ''struct'', ''static'', ''extern''}"
    and "type_stop ts"
    and "resolve_specs tgt (no_specs\<lparr>sp_core := Some w, sp_saw_any := True\<rparr>) = Some ty"
  shows "parse_base_ty tgt (TIdent w # ts) = Some (ty, ts)"
  unfolding parse_base_ty_def spec_loop_keyword [OF assms(1-4)]
  using assms(5) by (simp add: no_specs_def)

lemma parse_base_int:
  assumes "bits \<in> {8, 16, 32, 64}" and "type_stop ts"
  shows "parse_base_ty tgt (TIdent (int_name bits sg) # ts) = Some (CInt bits sg, ts)"
proof (rule parse_base_keyword)
  have "int_name bits sg \<in> set (map (\<lambda>(b, s). int_name b s)
      [(8, True), (8, False), (16, True), (16, False), (32, True), (32, False), (64, True), (64, False)])"
    using assms(1) by (cases sg) auto
  note names = this
  show "is_type_keyword (int_name bits sg)" "\<not> is_ignored (int_name bits sg)"
    "int_name bits sg \<notin> {''signed'', ''unsigned'', ''long'', ''short'', ''struct'', ''static'', ''extern''}"
    using names by (auto simp: int_name_def keyword_simps)
  show "resolve_specs tgt (no_specs\<lparr>sp_core := Some (int_name bits sg), sp_saw_any := True\<rparr>) = Some (CInt bits sg)"
    using assms(1) by (cases sg) (auto simp: resolve_specs_def no_specs_def int_name_def named_int_def)
qed (rule assms(2))

lemma parse_base_print:
  assumes "printable_ty ty" and "\<nexists>t. ty = CPtr t" and "type_stop rest" and "\<not> at_punct ''{'' rest"
  shows "parse_base_ty tgt (print_ty ty @ rest) = Some (ty, rest)"
proof (cases ty)
  case CVoid
  then show ?thesis using assms(3)
    by (auto intro!: parse_base_keyword simp: keyword_simps resolve_specs_def no_specs_def)
next
  case CBool
  then show ?thesis using assms(3)
    by (auto intro!: parse_base_keyword simp: keyword_simps resolve_specs_def no_specs_def)
next
  case CVaList
  then show ?thesis using assms(3)
    by (auto intro!: parse_base_keyword simp: keyword_simps resolve_specs_def no_specs_def)
next
  case (CInt bits sg)
  then show ?thesis using assms(1,3) by (auto intro!: parse_base_int)
next
  case (CStruct tag)
  then show ?thesis using assms(4)
    by (simp add: parse_base_ty_def spec_word_def keyword_simps no_specs_def tok_ident_def)
next
  case (CPtr t)
  then show ?thesis using assms(2) by blast
qed

lemma base_of_not_ptr: "base_of ty \<noteq> CPtr t"
  by (induction ty) auto

lemma printable_base_of: "printable_ty ty \<Longrightarrow> printable_ty (base_of ty)"
  by (induction ty) auto

lemma parse_base_stars:
  assumes "printable_ty ty" and "type_stop rest" and "\<not> at_punct ''{'' rest"
  shows "parse_base_ty tgt (print_ty ty @ rest) =
    Some (base_of ty, replicate (star_depth ty) (TPunct ''*'') @ rest)"
proof -
  let ?stars = "replicate (star_depth ty) (TPunct ''*'')"
  have "type_stop (?stars @ rest)" "\<not> at_punct ''{'' (?stars @ rest)"
    using assms(2,3) by (cases "star_depth ty"; simp)+
  then have "parse_base_ty tgt (print_ty (base_of ty) @ ?stars @ rest) = Some (base_of ty, ?stars @ rest)"
    using assms(1) by (intro parse_base_print) (auto simp: printable_base_of base_of_not_ptr)
  then show ?thesis by (subst print_ty_base) simp
qed

lemma parse_type_name_print:
  assumes "printable_ty ty" and "type_stop rest" and "\<not> at_punct ''*'' rest" and "\<not> at_punct ''{'' rest"
  shows "parse_type_name tgt (print_ty ty @ rest) = Some (ty, rest)"
  by (simp add: parse_type_name_def parse_base_stars [OF assms(1,2,4)] parse_pointer_stars [OF assms(2,3)]
      stars_base)

lemma print_ty_type_word: "printable_ty ty \<Longrightarrow> \<exists>w r. print_ty ty = TIdent w # r \<and> is_type_word w"
  by (induction ty) (auto simp: is_type_word_def keyword_simps int_name_def)

section \<open>Expressions are read back\<close>

text \<open>What may follow an expression: no token the postfix loop would take, no binary operator
  of precedence above \<open>k\<close>, no \<open>?\<close>, no assignment operator.\<close>

definition no_postfix :: "tok list \<Rightarrow> bool" where
  "no_postfix ts \<longleftrightarrow>
     \<not> at_punct ''.'' ts \<and> \<not> at_punct ''->'' ts \<and> \<not> at_punct ''++'' ts \<and> \<not> at_punct ''--'' ts \<and>
     \<not> at_punct ''('' ts \<and> \<not> at_punct ''['' ts"

abbreviation next_op :: "tok list \<Rightarrow> (c_bin_op \<times> nat) option" where
  "next_op ts \<equiv> Option.bind (peek ts) binary_op"

definition ends_binary :: "nat \<Rightarrow> tok list \<Rightarrow> bool" where
  "ends_binary k ts \<longleftrightarrow> no_postfix ts \<and> (case next_op ts of None \<Rightarrow> True | Some (op, q) \<Rightarrow> q \<le> k)"

definition ends_conditional :: "tok list \<Rightarrow> bool" where
  "ends_conditional ts \<longleftrightarrow> no_postfix ts \<and> next_op ts = None \<and> \<not> at_punct ''?'' ts"

definition ends_assign :: "tok list \<Rightarrow> bool" where
  "ends_assign ts \<longleftrightarrow> ends_conditional ts \<and> assign_op ts = None"

text \<open>The first token of a printed expression never is a type word or a token that closes or
  opens something else; the first token of a
  postfix form is a literal, a name or an opening parenthesis.\<close>

definition stmt_word :: "string \<Rightarrow> bool" where
  "stmt_word w \<longleftrightarrow> w \<in> {''return'', ''if'', ''else'', ''for'', ''while''}"

definition expr_start :: "tok list \<Rightarrow> bool" where
  "expr_start ts \<longleftrightarrow> (case ts of [] \<Rightarrow> False | TIdent w # _ \<Rightarrow> \<not> is_type_word w \<and> \<not> stmt_word w
      | TPunct p # _ \<Rightarrow> p \<notin> {'')'', '';'', ''{'', ''}''} | _ \<Rightarrow> True)"

definition postfix_start :: "tok list \<Rightarrow> bool" where
  "postfix_start ts \<longleftrightarrow>
     (case ts of
        TNum _ _ # _ \<Rightarrow> True
      | TIdent w # _ \<Rightarrow> w \<noteq> ''sizeof'' \<and> \<not> is_type_word w
      | TPunct p # r \<Rightarrow> p = ''('' \<and> expr_start r
      | _ \<Rightarrow> False)"

text \<open>\<open>reads tgt l e ts\<close>: the method that parses level \<open>l\<close> reads \<open>e\<close> from \<open>ts\<close>,
  whatever follows that does not belong to it.\<close>

definition reads :: "c_target \<Rightarrow> nat \<Rightarrow> c_expr \<Rightarrow> tok list \<Rightarrow> bool" where
  "reads tgt l e ts \<longleftrightarrow> expr_start ts \<and>
     (if l = 0 then \<forall>rest. ends_assign rest \<longrightarrow> p_assign (the_parsers tgt) (ts @ rest) = Parsed e rest
      else if l = 1 then
        \<forall>rest. ends_conditional rest \<longrightarrow> p_conditional (the_parsers tgt) (ts @ rest) = Parsed e rest
      else if l < 12 then
        \<forall>m rest. m \<le> l - 2 \<longrightarrow> ends_binary (l - 2) rest \<longrightarrow>
          p_binary (the_parsers tgt) m (ts @ rest) = p_binary_loop (the_parsers tgt) m e rest
      else if l = 12 then
        \<forall>rest. no_postfix rest \<longrightarrow> p_unary (the_parsers tgt) (ts @ rest) = Parsed e rest
      else postfix_start ts \<and>
        (\<forall>rest. p_postfix (the_parsers tgt) (ts @ rest) = p_postfix_loop (the_parsers tgt) e rest))"

lemma postfix_loop_ends: "no_postfix rest \<Longrightarrow> p_postfix_loop (the_parsers tgt) e rest = Parsed e rest"
  by (simp add: the_parsers_fix(7) postfix_loop_def no_postfix_def)

lemma binary_loop_ends:
  "next_op rest = None \<or> (\<exists>op q. next_op rest = Some (op, q) \<and> q < m) \<Longrightarrow>
   p_binary_loop (the_parsers tgt) m e rest = Parsed e rest"
  by (auto simp: the_parsers_fix(4) binary_loop_def split: option.split)

lemma postfix_start_unary:
  assumes "postfix_start ts"
  shows "p_unary (the_parsers tgt) (ts @ rest) = p_postfix (the_parsers tgt) (ts @ rest)"
  using assms
  by (subst the_parsers_fix(5)) (auto simp: parse_unary_def postfix_start_def unary_prefix_def parse_cast_def
      at_type_start_def expr_start_def split: list.splits tok.splits)

lemma reads_12: "reads tgt 13 e ts \<Longrightarrow> reads tgt 12 e ts"
  by (simp add: reads_def postfix_start_unary postfix_loop_ends)

lemma reads_binary: "reads tgt 12 e ts \<Longrightarrow> 2 \<le> l \<Longrightarrow> l < 12 \<Longrightarrow> reads tgt l e ts"
  by (auto simp: reads_def the_parsers_fix(3) parse_binary_def ends_binary_def)

lemma ends_binary_mono: "ends_binary k rest \<Longrightarrow> k \<le> k' \<Longrightarrow> ends_binary k' rest"
  by (auto simp: ends_binary_def split: option.splits)

lemma reads_weaken_binary: "reads tgt l e ts \<Longrightarrow> 2 \<le> l' \<Longrightarrow> l' \<le> l \<Longrightarrow> l < 12 \<Longrightarrow> reads tgt l' e ts"
  using ends_binary_mono [of "l' - 2" _ "l - 2"] by (auto simp: reads_def)

lemma reads_1: "reads tgt 2 e ts \<Longrightarrow> reads tgt 1 e ts"
  by (auto simp: reads_def the_parsers_fix(2) parse_conditional_def ends_binary_def
      ends_conditional_def binary_loop_ends)

lemma reads_0: "reads tgt 1 e ts \<Longrightarrow> reads tgt 0 e ts"
  by (auto simp: reads_def the_parsers_fix(1) parse_assign_def ends_assign_def)

lemma reads_mono:
  assumes "reads tgt l e ts" and "l' \<le> l" and "l \<le> 13"
  shows "reads tgt l' e ts"
proof -
  have high: "reads tgt j e ts" if "2 \<le> j" "j \<le> l" for j
  proof (cases "l < 12")
    case True
    then show ?thesis using assms(1) that reads_weaken_binary by blast
  next
    case False
    then have "reads tgt 12 e ts"
      using assms(1,3) reads_12 by (cases "l = 12") (auto simp: le_Suc_eq numeral_eq_Suc)
    moreover have "j = l \<or> j = 12 \<or> j < 12" using that assms(3) False by linarith
    ultimately show ?thesis using that(1) assms(1) reads_binary by blast
  qed
  have one: "reads tgt 1 e ts" if "1 \<le> l"
    using that assms(1) high [of 2] reads_1 by (cases "l = 1") auto
  have "reads tgt 0 e ts"
    using one assms(1) reads_0 by (cases "l = 0") auto
  with one high assms(2) show ?thesis
    by (cases "l' = 0"; cases "l' = 1") auto
qed

lemma ends_close [simp]:
  "ends_assign (TPunct '')'' # ts)" "ends_assign (TPunct '','' # ts)" "ends_assign (TPunct '':'' # ts)"
  "ends_assign (TPunct '';'' # ts)" "ends_assign []"
  by (simp_all add: ends_assign_def ends_conditional_def no_postfix_def assign_op_def peek_def binary_op_def)

lemma reads_paren:
  assumes "reads tgt 0 e ts"
  shows "reads tgt 13 e (TPunct ''('' # ts @ [TPunct '')''])"
  using assms
  by (auto simp: reads_def postfix_start_def expr_start_def the_parsers_fix(6,9) parse_postfix_def
      parse_primary_def expecting_def split: list.splits)

text \<open>A form of level \<open>level\<close>, wrapped or not, is read at every level.\<close>

lemma reads_wrap:
  assumes "reads tgt level e ts" and "level \<le> 13" and "l \<le> 13"
  shows "reads tgt l e (wrap l level ts)"
  using assms reads_mono [OF assms(1), of l] reads_mono [OF assms(1), of 0]
    reads_mono [OF reads_paren, of tgt e ts l]
  by (simp add: wrap_def)

lemma expr_start_simps [simp]:
  "expr_start (TNum v u # ts)" "expr_start (TPunct p # ts) = (p \<notin> {'')'', '';'', ''{'', ''}''})"
  "expr_start (TIdent w # ts) = (\<not> is_type_word w \<and> \<not> stmt_word w)"
  by (simp_all add: expr_start_def)

lemma expr_start_append: "expr_start ts \<Longrightarrow> expr_start (ts @ rest)"
  by (auto simp: expr_start_def split: list.splits tok.splits)

lemma postfix_start_append: "postfix_start ts \<Longrightarrow> postfix_start (ts @ rest)"
  by (auto simp: postfix_start_def expr_start_append split: list.splits tok.splits)

lemma readsD: "reads tgt l e ts \<Longrightarrow> expr_start ts"
  by (simp add: reads_def)

lemma reads_primary:
  shows "reads tgt 13 (IntLit v u) [TNum v u]"
    and "plain_name w \<Longrightarrow> reads tgt 13 (Ident w) [TIdent w]"
  by (auto simp: reads_def postfix_start_def the_parsers_fix(6,9) parse_postfix_def parse_primary_def
      plain_name_def reserved_primary_def stmt_word_def)

text \<open>Prefix forms. An operand read at level 12 makes the whole form one of level 12.\<close>

lemma unary_prefix_start: "unary_prefix (TPunct p # r) = Some mk \<Longrightarrow> p \<notin> {'')'', '';'', ''{'', ''}''}"
  by (auto simp: unary_prefix_def split: if_splits)

lemma reads_prefix:
  assumes "reads tgt 12 e ts" and "\<And>r. unary_prefix (TPunct p # r) = Some mk"
  shows "reads tgt 12 (mk e) (TPunct p # ts)"
  using assms unary_prefix_start [OF assms(2)] by (auto simp: reads_def) (subst the_parsers_fix(5), simp add: parse_unary_def)

lemma reads_cast:
  assumes "reads tgt 12 e ts" and "printable_ty ty"
  shows "reads tgt 12 (Cast ty e) (TPunct ''('' # print_ty ty @ TPunct '')'' # ts)"
proof -
  obtain w r where start: "print_ty ty = TIdent w # r" "is_type_word w"
    using print_ty_type_word [OF assms(2)] by blast
  have name: "parse_type_name tgt (print_ty ty @ TPunct '')'' # s) = Some (ty, TPunct '')'' # s)" for s
    using assms(2) by (intro parse_type_name_print) auto
  have cast: "parse_cast tgt (TPunct ''('' # print_ty ty @ TPunct '')'' # s) = Some (ty, s)" for s
    using name [of s] start by (simp add: parse_cast_def at_type_start_def expect_punct_def)
  have "p_unary (the_parsers tgt) ((TPunct ''('' # print_ty ty @ TPunct '')'' # ts) @ rest) = Parsed (Cast ty e) rest"
    if "no_postfix rest" for rest
    using assms(1) that cast
    by (subst the_parsers_fix(5)) (simp add: parse_unary_def unary_prefix_def reads_def)
  then show ?thesis by (simp add: reads_def)
qed

lemma is_type_word_sizeof [simp]: "\<not> is_type_word ''sizeof''" "\<not> stmt_word ''sizeof''"
  by (simp_all add: is_type_word_def keyword_simps stmt_word_def)

lemma reads_sizeof:
  assumes "printable_ty ty"
  shows "reads tgt 12 (SizeOfTy ty) (TIdent ''sizeof'' # TPunct ''('' # print_ty ty @ [TPunct '')''])"
proof -
  have name: "parse_type_name tgt (print_ty ty @ TPunct '')'' # s) = Some (ty, TPunct '')'' # s)" for s
    using assms by (intro parse_type_name_print) auto
  show ?thesis
    unfolding reads_def the_parsers_fix(5)
    using name by (simp add: parse_unary_def unary_prefix_def expecting_def pres_of_def)
qed

text \<open>Postfix forms.\<close>

lemma reads_postfix:
  assumes "reads tgt 13 e ts"
    and "\<And>rest. p_postfix_loop (the_parsers tgt) e (post @ rest) = p_postfix_loop (the_parsers tgt) e' rest"
  shows "reads tgt 13 e' (ts @ post)"
  using assms by (auto simp: reads_def expr_start_append postfix_start_append)

lemma postfix_loop_member:
  "p_postfix_loop (the_parsers tgt) e ([TPunct (if arrow then ''->'' else ''.''), TIdent f] @ rest) =
   p_postfix_loop (the_parsers tgt) (Member e f arrow) rest"
  by (subst the_parsers_fix(7)) (simp add: postfix_loop_def pres_of_def)

lemma postfix_loop_incdec:
  "p_postfix_loop (the_parsers tgt) e ([TPunct (if inc then ''++'' else ''--'')] @ rest) =
   p_postfix_loop (the_parsers tgt) (IncDec False inc e) rest"
  by (subst the_parsers_fix(7)) (simp add: postfix_loop_def)

lemma reads_member:
  "reads tgt 13 e ts \<Longrightarrow>
   reads tgt 13 (Member e f arrow) (ts @ [TPunct (if arrow then ''->'' else ''.''), TIdent f])"
  by (rule reads_postfix [OF _ postfix_loop_member])

lemma reads_postinc:
  "reads tgt 13 e ts \<Longrightarrow> reads tgt 13 (IncDec False inc e) (ts @ [TPunct (if inc then ''++'' else ''--'')])"
  by (rule reads_postfix [OF _ postfix_loop_incdec])

lemma args_read:
  assumes "es \<noteq> []" and "\<And>e. e \<in> set es \<Longrightarrow> reads tgt 0 e (print_expr 0 e)"
  shows "p_args (the_parsers tgt) (print_args es @ rest) = Parsed es rest"
  using assms
proof (induction es rule: list_nonempty_induct)
  case (single e)
  then show ?case
    by (subst the_parsers_fix(8)) (simp add: call_args_def reads_def)
next
  case (cons e es)
  then obtain e' es' where es: "es = e' # es'" by (cases es) auto
  have "p_args (the_parsers tgt) (print_args es @ rest) = Parsed es rest"
    using cons by simp
  then show ?case
    using cons(3) [of e] es
    by (subst the_parsers_fix(8)) (simp add: call_args_def reads_def expecting_def)
qed

lemma expr_start_open: "expr_start ts \<Longrightarrow> \<not> at_punct '')'' (ts @ rest)"
  by (auto simp: expr_start_def split: list.splits tok.splits)

lemma print_args_open:
  assumes "es \<noteq> []" and "\<And>e. e \<in> set es \<Longrightarrow> reads tgt 0 e (print_expr 0 e)"
  shows "\<not> at_punct '')'' (print_args es @ rest)"
  using assms by (cases es; cases "tl es") (auto dest!: readsD expr_start_open simp: append_assoc)

lemma postfix_loop_call:
  assumes "\<not> is_va_macro f" and "\<And>e. e \<in> set es \<Longrightarrow> reads tgt 0 e (print_expr 0 e)"
  shows "p_postfix_loop (the_parsers tgt) (Ident f) ((TPunct ''('' # print_args es) @ rest) =
    p_postfix_loop (the_parsers tgt) (Call f es) rest"
proof (cases "es = []")
  case True
  then show ?thesis
    using assms(1)
    by (subst the_parsers_fix(7)) (simp add: postfix_loop_def postfix_call_def parse_va_macro_def)
next
  case False
  then show ?thesis
    using assms(1) args_read [OF False assms(2)] print_args_open [OF False assms(2)]
    by (subst the_parsers_fix(7)) (simp add: postfix_loop_def postfix_call_def parse_va_macro_def)
qed

text \<open>The variadic macros: the name is read as a primary, the loop then takes the macro.\<close>

lemma reads_macro:
  assumes "is_va_macro w" and "\<And>rest. parse_va_macro tgt w (post @ rest) = Some (Some (e, rest))"
    and "\<And>rest. at_punct ''('' (post @ rest)"
  shows "reads tgt 13 e (TIdent w # post)"
proof -
  have "reads tgt 13 (Ident w) [TIdent w]"
    using assms(1) by (auto simp: is_va_macro_def reads_def postfix_start_def the_parsers_fix(6,9)
        parse_postfix_def parse_primary_def reserved_primary_def is_type_word_def keyword_simps
        stmt_word_def)
  moreover have "p_postfix_loop (the_parsers tgt) (Ident w) (post @ rest) = p_postfix_loop (the_parsers tgt) e rest" for rest
  proof -
    have "\<not> at_punct q (post @ rest)" if "q \<noteq> ''(''" for q
      using assms(3) [of rest] that by (auto simp: at_punct_def is_punct_def split: option.splits tok.splits)
    then show ?thesis
      using assms(2) [of rest] assms(3) [of rest]
      by (subst the_parsers_fix(7)) (simp add: postfix_loop_def postfix_call_def)
  qed
  ultimately show ?thesis
    using reads_postfix [of tgt "Ident w" "[TIdent w]" post e] by simp
qed

lemma reads_va:
  shows "reads tgt 13 (VaStart ap name)
      [TIdent ''va_start'', TPunct ''('', TIdent ap, TPunct '','', TIdent name, TPunct '')'']"
    and "reads tgt 13 (VaEnd ap) [TIdent ''va_end'', TPunct ''('', TIdent ap, TPunct '')'']"
    and "printable_ty ty \<Longrightarrow> reads tgt 13 (VaArg ap ty)
      (TIdent ''va_arg'' # TPunct ''('' # TIdent ap # TPunct '','' # print_ty ty @ [TPunct '')''])"
  using parse_type_name_print [of ty "TPunct '')'' # r" tgt for r]
  by (auto intro!: reads_macro simp: is_va_macro_def parse_va_macro_def va_operands_def expect_punct_def)

text \<open>Operators with two and three operands.\<close>

lemma binary_op_sym: "binary_op (TPunct (bin_sym op)) = Some (op, bin_prec op)"
  by (cases op) (simp_all add: binary_op_def)

lemma no_postfix_op: "no_postfix (TPunct (bin_sym op) # r)"
  by (cases op) (simp_all add: no_postfix_def)

lemma bin_prec_le: "bin_prec op \<le> 9"
  by (cases op) simp_all

lemma reads_operand:
  assumes "reads tgt (3 + p) b ts" and "p \<le> 9" and "ends_binary p rest"
  shows "p_binary (the_parsers tgt) (p + 1) (ts @ rest) = Parsed b rest"
proof -
  have "p_binary (the_parsers tgt) (p + 1) (ts @ rest) = p_binary_loop (the_parsers tgt) (p + 1) b rest"
  proof (cases "p = 9")
    case True
    then show ?thesis
      using assms(1,3) by (simp add: reads_def ends_binary_def the_parsers_fix(3) parse_binary_def)
  next
    case False
    then show ?thesis
      using assms ends_binary_mono [OF assms(3), of "p + 1"] by (auto simp: reads_def)
  qed
  moreover have "p_binary_loop (the_parsers tgt) (p + 1) b rest = Parsed b rest"
    using assms(3) by (intro binary_loop_ends) (auto simp: ends_binary_def split: option.splits)
  ultimately show ?thesis by simp
qed

lemma reads_op:
  assumes "reads tgt (2 + bin_prec op) a tsa" and "reads tgt (3 + bin_prec op) b tsb"
  shows "reads tgt (2 + bin_prec op) (Binary op a b) (tsa @ TPunct (bin_sym op) # tsb)"
proof -
  let ?p = "bin_prec op"
  have "p_binary (the_parsers tgt) m (tsa @ TPunct (bin_sym op) # tsb @ rest) =
      p_binary_loop (the_parsers tgt) m (Binary op a b) rest"
    if m: "m \<le> ?p" and rest: "ends_binary ?p rest" for m rest
  proof -
    have "ends_binary ?p (TPunct (bin_sym op) # tsb @ rest)"
      by (simp add: ends_binary_def no_postfix_op peek_def binary_op_sym)
    then have "p_binary (the_parsers tgt) m (tsa @ TPunct (bin_sym op) # tsb @ rest) =
        p_binary_loop (the_parsers tgt) m a (TPunct (bin_sym op) # tsb @ rest)"
      using assms(1) m bin_prec_le [of op] by (auto simp: reads_def)
    also have "\<dots> = p_binary_loop (the_parsers tgt) m (Binary op a b) rest"
      using reads_operand [OF assms(2) bin_prec_le rest] m
      by (subst the_parsers_fix(4)) (simp add: binary_loop_def peek_def binary_op_sym)
    finally show ?thesis .
  qed
  then show ?thesis
    using assms(1) bin_prec_le [of op] by (auto simp: reads_def expr_start_append)
qed

lemma reads_cond:
  assumes "reads tgt 2 c tsc" and "reads tgt 0 a tsa" and "reads tgt 1 b tsb"
  shows "reads tgt 1 (Cond c a b) (tsc @ TPunct ''?'' # tsa @ TPunct '':'' # tsb)"
proof -
  have q: "ends_binary 0 (TPunct ''?'' # r)" for r
    by (simp add: ends_binary_def no_postfix_def peek_def binary_op_def)
  have loop: "p_binary_loop (the_parsers tgt) 0 c (TPunct ''?'' # r) = Parsed c (TPunct ''?'' # r)" for r
    by (rule binary_loop_ends) (simp add: peek_def binary_op_def)
  have "p_conditional (the_parsers tgt) (tsc @ TPunct ''?'' # tsa @ TPunct '':'' # tsb @ rest) = Parsed (Cond c a b) rest"
    if "ends_conditional rest" for rest
    using assms q loop that
    by (subst the_parsers_fix(2)) (simp add: parse_conditional_def expecting_def reads_def)
  then show ?thesis
    using assms(1) by (auto simp: reads_def expr_start_append)
qed

lemma assign_op_sym:
  assumes "case op of None \<Rightarrow> True | Some bop \<Rightarrow> bop \<in> set assign_ops"
  shows "assign_op (TPunct (assign_sym op) # r) = Some op" and "ends_conditional (TPunct (assign_sym op) # r)"
  using assms
  by (auto simp: assign_op_def peek_def assign_sym_def assign_ops_def ends_conditional_def
      no_postfix_def binary_op_def split: option.splits)

lemma reads_assign:
  assumes "reads tgt 1 a tsa" and "reads tgt 0 b tsb"
    and "case op of None \<Rightarrow> True | Some bop \<Rightarrow> bop \<in> set assign_ops"
  shows "reads tgt 0 (Assign op a b) (tsa @ TPunct (assign_sym op) # tsb)"
proof -
  have "p_assign (the_parsers tgt) (tsa @ TPunct (assign_sym op) # tsb @ rest) = Parsed (Assign op a b) rest"
    if "ends_assign rest" for rest
    using assms(1,2) assign_op_sym [OF assms(3)] that
    by (subst the_parsers_fix(1)) (simp add: parse_assign_def reads_def)
  then show ?thesis
    using assms(1) by (auto simp: reads_def expr_start_append)
qed

lemma unary_prefix_syms [simp]:
  "unary_prefix (TPunct (un_sym op) # r) = Some (Unary op)"
  "unary_prefix (TPunct ''*'' # r) = Some Deref"
  "unary_prefix (TPunct ''++'' # r) = Some (IncDec True True)"
  "unary_prefix (TPunct ''--'' # r) = Some (IncDec True False)"
  by (cases op; simp add: unary_prefix_def) (simp_all add: unary_prefix_def)

lemmas reads_prefixes = unary_prefix_syms [THEN reads_prefix [rotated]]

lemma reads_print_expr:
  assumes "printable e" and "l \<le> 13"
  shows "reads tgt l e (print_expr l e)"
  using assms
proof (induction e arbitrary: l)
  case (IntLit v u)
  then show ?case using reads_mono [OF reads_primary(1)] by simp
next
  case (Ident w)
  then show ?case using reads_mono [OF reads_primary(2)] by simp
next
  case (Unary op e)
  then show ?case by (auto intro!: reads_wrap reads_prefixes)
next
  case (Deref e)
  then show ?case by (auto intro!: reads_wrap reads_prefixes)
next
  case (IncDec pre inc e)
  then show ?case
    using reads_postinc [of tgt e "print_expr 13 e" inc]
    by (cases pre; cases inc) (auto simp: Let_def intro!: reads_wrap reads_prefixes)
next
  case (Cast ty e)
  then show ?case by (auto intro!: reads_wrap reads_cast)
next
  case (SizeOfTy ty)
  then show ?case by (auto intro!: reads_wrap reads_sizeof)
next
  case (Member e f arrow)
  then show ?case
    using reads_member [of tgt e "print_expr 13 e" f arrow]
    by (auto intro!: reads_wrap)
next
  case (Call f args)
  have "reads tgt 0 a (print_expr 0 a)" if "a \<in> set args" for a
    using Call that by (simp add: list_all_iff)
  then have "reads tgt 13 (Call f args) ([TIdent f] @ TPunct ''('' # print_args args)"
    using Call.prems by (intro reads_postfix [OF reads_primary(2) postfix_loop_call]) auto
  then show ?case using Call.prems by (auto intro: reads_mono)
next
  case (VaStart ap name)
  then show ?case using reads_mono [OF reads_va(1)] by simp
next
  case (VaArg ap ty)
  then show ?case using reads_mono [OF reads_va(3)] by simp
next
  case (VaEnd ap)
  then show ?case using reads_mono [OF reads_va(2)] by simp
next
  case (Binary op a b)
  then have "reads tgt (2 + bin_prec op) a (print_expr (2 + bin_prec op) a)"
    and "reads tgt (3 + bin_prec op) b (print_expr (3 + bin_prec op) b)"
    using bin_prec_le [of op] by simp_all
  from reads_wrap [OF reads_op [OF this]] show ?case
    using Binary.prems bin_prec_le [of op] by (simp add: Let_def)
next
  case (Cond c a b)
  then show ?case by (auto simp del: One_nat_def intro!: reads_wrap reads_cond)
next
  case (Assign op a b)
  then show ?case by (auto simp del: One_nat_def intro!: reads_wrap reads_assign)
qed


text \<open>C26: Round trip of expressions. An expression of the fragment, printed with the parentheses
  its precedence requires and laid out as text, tokenizes, and \<open>parse_expr\<close> reads back exactly
  that expression and consumes all of it. In particular precedence climbing gives every binary
  operator its C precedence and left associativity, conditional and assignment associate to the
  right, and prefix operators, casts, \<open>sizeof\<close>, calls, member accesses and the variadic macros
  bind as in C.\<close>

theorem parse_print_roundtrip:
  assumes "printable e"
  shows "tokenize (render_toks (print_expr 0 e)) = Some (print_expr 0 e) \<and>
    parse_expr tgt (print_expr 0 e) = Parsed e []"
  using reads_print_expr [OF assms, of 0 tgt] wf_print_expr(1) [OF assms, of 0]
  by (auto simp: parse_expr_the_parsers reads_def tokenize_def tokenize_from_render
      dest: spec [where x = "[]"])

text \<open>\<open>a - (b - 1u) * *p = q->next ? -f(x, (uint8_t *)2) : a++\<close>, with every operator where the printer
  puts it.\<close>

definition sample_expr :: c_expr where
  "sample_expr =
     Assign None
       (Binary Sub (Ident ''a'')
         (Binary Mul (Binary Sub (Ident ''b'') (IntLit 1 True)) (Deref (Ident ''p''))))
       (Cond (Member (Ident ''q'') ''next'' True)
         (Unary Neg (Call ''f'' [Ident ''x'', Cast (CPtr (CInt 8 False)) (IntLit 2 False)]))
         (IncDec False True (Ident ''a'')))"

theorem parse_print_roundtrip_witness:
  "tokenize (render_toks (print_expr 0 sample_expr)) = Some (print_expr 0 sample_expr) \<and>
   parse_expr lp64 (print_expr 0 sample_expr) = Parsed sample_expr []"
  by (rule parse_print_roundtrip)
    (simp add: sample_expr_def plain_name_def wf_ident_def is_ident_start_def is_ident_byte_def
      is_ascii_alphabetic_def is_ascii_digit_def byte_def is_type_word_def keyword_simps
      reserved_primary_def is_va_macro_def i128_max_def)

end
