(* ===== verification/C_Stmt.thy ===== *)
theory C_Stmt
  imports C_Print
begin

text \<open>
  The statement parser of \<open>trust-mc-compiler/src/c_ffi/parse.rs\<close>: \<open>parse_compound\<close> and
  \<open>parse_stmt\<close>. As for expressions, the mutually recursive methods take the record of the
  methods they call and are tied with fuel; the fuel \<open>3 * length ts + 3\<close> is shown to be enough.
  Statements are read back from their printed form, so \<open>if\<close>/\<open>else\<close>, \<open>for\<close> and
  \<open>while\<close> headers, declarations and blocks are parsed with the nesting they were written with.
\<close>

section \<open>The parser\<close>

record stmt_parsers =
  p_stmt :: "tok list \<Rightarrow> c_stmt pres"
  p_block :: "tok list \<Rightarrow> c_stmt list pres"

text \<open>The loop of \<open>parse_compound\<close>, behind the opening brace.\<close>

definition parse_block :: "stmt_parsers \<Rightarrow> tok list \<Rightarrow> c_stmt list pres" where
  "parse_block r ts =
     (if at_punct ''}'' ts then Parsed [] (tl ts)
      else if ts = [] then Refused
      else pbind (p_stmt r ts) (\<lambda>s ts1. pbind (p_block r ts1) (\<lambda>ss ts2. Parsed (s # ss) ts2)))"

definition parse_compound :: "stmt_parsers \<Rightarrow> tok list \<Rightarrow> c_stmt pres" where
  "parse_compound r ts =
     expecting ''{'' ts (\<lambda>ts1. pbind (p_block r ts1) (\<lambda>ss ts2. Parsed (SCompound ss) ts2))"

definition parse_return :: "c_target \<Rightarrow> tok list \<Rightarrow> c_stmt pres" where
  "parse_return tgt ts =
     (if at_punct '';'' ts then Parsed (SReturn None) (tl ts)
      else pbind (parse_expr tgt ts) (\<lambda>e ts1. expecting '';'' ts1 (Parsed (SReturn (Some e)))))"

definition parse_if :: "c_target \<Rightarrow> stmt_parsers \<Rightarrow> tok list \<Rightarrow> c_stmt pres" where
  "parse_if tgt r ts =
     expecting ''('' ts (\<lambda>ts1.
       pbind (parse_expr tgt ts1) (\<lambda>c ts2.
         expecting '')'' ts2 (\<lambda>ts3.
           pbind (p_stmt r ts3) (\<lambda>th ts4.
             if peek_ident ts4 = Some ''else'' then
               pbind (p_stmt r (tl ts4)) (\<lambda>el ts5. Parsed (SIf c th (Some el)) ts5)
             else Parsed (SIf c th None) ts4))))"

text \<open>An optional expression in front of a closing token (the clauses of \<open>for\<close>).\<close>

definition parse_opt_expr :: "c_target \<Rightarrow> string \<Rightarrow> tok list \<Rightarrow> c_expr option pres" where
  "parse_opt_expr tgt stop ts =
     (if at_punct stop ts then Parsed None ts
      else pbind (parse_expr tgt ts) (\<lambda>e ts1. Parsed (Some e) ts1))"

definition parse_for :: "c_target \<Rightarrow> stmt_parsers \<Rightarrow> tok list \<Rightarrow> c_stmt pres" where
  "parse_for tgt r ts =
     expecting ''('' ts (\<lambda>ts1.
       pbind (if at_punct '';'' ts1 then Parsed None (tl ts1)
              else pbind (p_stmt r ts1) (\<lambda>s ts2. Parsed (Some s) ts2)) (\<lambda>init ts2.
         pbind (parse_opt_expr tgt '';'' ts2) (\<lambda>c ts3.
           expecting '';'' ts3 (\<lambda>ts4.
             pbind (parse_opt_expr tgt '')'' ts4) (\<lambda>step ts5.
               expecting '')'' ts5 (\<lambda>ts6.
                 pbind (p_stmt r ts6) (\<lambda>bd ts7. Parsed (SFor init c step bd) ts7)))))))"

definition parse_while :: "c_target \<Rightarrow> stmt_parsers \<Rightarrow> tok list \<Rightarrow> c_stmt pres" where
  "parse_while tgt r ts =
     expecting ''('' ts (\<lambda>ts1.
       pbind (parse_expr tgt ts1) (\<lambda>c ts2.
         expecting '')'' ts2 (\<lambda>ts3.
           pbind (p_stmt r ts3) (\<lambda>bd ts4. Parsed (SFor None (Some c) None bd) ts4))))"

definition parse_local :: "c_target \<Rightarrow> tok list \<Rightarrow> c_stmt pres" where
  "parse_local tgt ts =
     pbind (pres_of (parse_type_name tgt ts)) (\<lambda>ty ts1.
       pbind (pres_of (bump_ident ts1)) (\<lambda>name ts2.
         if at_punct ''['' ts2 then Refused
         else
           pbind (if at_punct ''='' ts2
                  then pbind (parse_expr tgt (tl ts2)) (\<lambda>e ts3. Parsed (Some e) ts3)
                  else Parsed None ts2) (\<lambda>init ts3.
             expecting '';'' ts3 (Parsed (SDecl ty name init)))))"

definition parse_expr_stmt :: "c_target \<Rightarrow> tok list \<Rightarrow> c_stmt pres" where
  "parse_expr_stmt tgt ts = pbind (parse_expr tgt ts) (\<lambda>e ts1. expecting '';'' ts1 (Parsed (SExpr e)))"

definition refused_keyword :: "string \<Rightarrow> bool" where
  "refused_keyword w \<longleftrightarrow>
     w \<in> {''do'', ''switch'', ''goto'', ''break'', ''continue'', ''case'', ''default''}"

definition parse_stmt :: "c_target \<Rightarrow> stmt_parsers \<Rightarrow> tok list \<Rightarrow> c_stmt pres" where
  "parse_stmt tgt r ts =
     (if at_punct '';'' ts then Parsed SEmpty (tl ts)
      else if at_punct ''{'' ts then parse_compound r ts
      else
        (case peek_ident ts of
           Some w \<Rightarrow>
             if w = ''return'' then parse_return tgt (tl ts)
             else if w = ''if'' then parse_if tgt r (tl ts)
             else if w = ''for'' then parse_for tgt r (tl ts)
             else if w = ''while'' then parse_while tgt r (tl ts)
             else if refused_keyword w then Refused
             else if at_type_start ts then parse_local tgt ts
             else parse_expr_stmt tgt ts
         | None \<Rightarrow> parse_expr_stmt tgt ts))"

primrec stmt_parsers_at :: "c_target \<Rightarrow> nat \<Rightarrow> stmt_parsers" where
  "stmt_parsers_at tgt 0 = \<lparr>p_stmt = \<lambda>_. No_fuel, p_block = \<lambda>_. No_fuel\<rparr>"
| "stmt_parsers_at tgt (Suc n) =
     \<lparr>p_stmt = parse_stmt tgt (stmt_parsers_at tgt n), p_block = parse_block (stmt_parsers_at tgt n)\<rparr>"

definition stmt_fuel :: "tok list \<Rightarrow> nat" where
  "stmt_fuel ts = 3 * length ts + 3"

text \<open>A function body.\<close>

definition parse_body :: "c_target \<Rightarrow> tok list \<Rightarrow> c_stmt pres" where
  "parse_body tgt ts = parse_compound (stmt_parsers_at tgt (stmt_fuel ts)) ts"

section \<open>Consumption and fuel\<close>

lemma parse_expr_shrinks [moves]: "parse_expr tgt ts = Parsed e ts' \<Longrightarrow> length ts' < length ts"
  using all_consumeD(1) [OF all_consume_parsers] by (simp add: parse_expr_def)

lemma parse_expr_No_fuel [simp]: "parse_expr tgt ts = No_fuel \<longleftrightarrow> False"
  by (simp add: parse_expr_answers)

lemma parse_opt_expr_shrinks [moves]: "parse_opt_expr tgt s ts = Parsed e ts' \<Longrightarrow> length ts' \<le> length ts"
  by (auto simp: parse_opt_expr_def pres_simps split: if_splits dest!: parse_expr_shrinks)

lemma parse_opt_expr_No_fuel [simp]: "parse_opt_expr tgt s ts = No_fuel \<longleftrightarrow> False"
  by (simp add: parse_opt_expr_def pres_simps)

lemma leaf_shrinks [moves]:
  "parse_return tgt ts = Parsed s ts' \<Longrightarrow> length ts' < length ts"
  "parse_local tgt ts = Parsed s ts' \<Longrightarrow> length ts' < length ts"
  "parse_expr_stmt tgt ts = Parsed s ts' \<Longrightarrow> length ts' < length ts"
  by (auto simp: parse_return_def parse_local_def parse_expr_stmt_def pres_simps
      split: if_splits dest!: moves)

lemma leaf_No_fuel [simp]:
  "parse_return tgt ts = No_fuel \<longleftrightarrow> False"
  "parse_local tgt ts = No_fuel \<longleftrightarrow> False"
  "parse_expr_stmt tgt ts = No_fuel \<longleftrightarrow> False"
  by (auto simp: parse_return_def parse_local_def parse_expr_stmt_def pres_simps)

definition stmts_consume :: "stmt_parsers \<Rightarrow> bool" where
  "stmts_consume r \<longleftrightarrow> consumes (p_stmt r) \<and> consumes (p_block r)"

lemma stmts_consumeD:
  assumes "stmts_consume r"
  shows "p_stmt r ts = Parsed s ts' \<Longrightarrow> length ts' < length ts"
    and "p_block r ts = Parsed ss ts' \<Longrightarrow> length ts' < length ts"
  using assms by (auto simp: stmts_consume_def consumes_def)

lemma nested_shrinks:
  assumes "stmts_consume r"
  shows "parse_compound r ts = Parsed s ts' \<Longrightarrow> length ts' < length ts"
    and "parse_if tgt r ts = Parsed s ts' \<Longrightarrow> length ts' < length ts"
    and "parse_for tgt r ts = Parsed s ts' \<Longrightarrow> length ts' < length ts"
    and "parse_while tgt r ts = Parsed s ts' \<Longrightarrow> length ts' < length ts"
proof -
  note D = stmts_consumeD [OF assms]
  show "parse_compound r ts = Parsed s ts' \<Longrightarrow> length ts' < length ts"
    by (auto simp: parse_compound_def pres_simps dest!: D moves)
  show "parse_if tgt r ts = Parsed s ts' \<Longrightarrow> length ts' < length ts"
    by (auto simp: parse_if_def pres_simps split: if_splits dest!: D moves)
  show "parse_for tgt r ts = Parsed s ts' \<Longrightarrow> length ts' < length ts"
    by (auto simp: parse_for_def pres_simps split: if_splits dest!: D moves)
  show "parse_while tgt r ts = Parsed s ts' \<Longrightarrow> length ts' < length ts"
    by (auto simp: parse_while_def pres_simps dest!: D moves)
qed

text \<open>The arms of \<open>parse_stmt\<close>.\<close>

lemma parse_stmt_arms:
  "at_punct '';'' ts \<and> parse_stmt tgt r ts = Parsed SEmpty (tl ts) \<or>
   parse_stmt tgt r ts = parse_compound r ts \<or>
   parse_stmt tgt r ts = parse_return tgt (tl ts) \<or>
   parse_stmt tgt r ts = parse_if tgt r (tl ts) \<or>
   parse_stmt tgt r ts = parse_for tgt r (tl ts) \<or>
   parse_stmt tgt r ts = parse_while tgt r (tl ts) \<or>
   parse_stmt tgt r ts = Refused \<or>
   parse_stmt tgt r ts = parse_local tgt ts \<or>
   parse_stmt tgt r ts = parse_expr_stmt tgt ts"
  by (simp add: parse_stmt_def split: option.split)

lemma length_tl_le: "length (tl ts) \<le> length ts"
  by simp

lemma parse_stmt_shrinks:
  assumes "stmts_consume r" and "parse_stmt tgt r ts = Parsed s ts'"
  shows "length ts' < length ts"
  using parse_stmt_arms [of ts tgt r] assms(2) length_tl_le [of ts] at_punct_tl [of "'';''" ts]
    nested_shrinks [OF assms(1), where ts' = ts' and s = s] leaf_shrinks [where ts' = ts' and s = s]
  by (elim disjE) (metis pres.inject(1) pres.distinct(1) order_less_le_trans)+

lemma stmts_consume_at: "stmts_consume (stmt_parsers_at tgt n)"
proof (induction n)
  case 0
  show ?case by (simp add: stmts_consume_def consumes_def)
next
  case (Suc n)
  let ?r = "stmt_parsers_at tgt n"
  have "consumes (parse_stmt tgt ?r)"
    using parse_stmt_shrinks [OF Suc] by (auto simp: consumes_def)
  moreover have "consumes (parse_block ?r)"
    by (auto simp: consumes_def parse_block_def pres_simps split: if_splits
        dest!: stmts_consumeD [OF Suc] at_punct_tl)
  ultimately show ?case by (simp add: stmts_consume_def)
qed

definition stmts_below :: "stmt_parsers \<Rightarrow> stmt_parsers \<Rightarrow> bool" where
  "stmts_below r r' \<longleftrightarrow>
     (\<forall>ts. below (p_stmt r ts) (p_stmt r' ts)) \<and> (\<forall>ts. below (p_block r ts) (p_block r' ts))"

lemma stmts_belowD:
  assumes "stmts_below r r'"
  shows "below (p_stmt r ts) (p_stmt r' ts)" and "below (p_block r ts) (p_block r' ts)"
  using assms by (auto simp: stmts_below_def)

lemma stmts_below_nested:
  assumes "stmts_below r r'"
  shows "below (parse_compound r ts) (parse_compound r' ts)"
    and "below (parse_if tgt r ts) (parse_if tgt r' ts)"
    and "below (parse_for tgt r ts) (parse_for tgt r' ts)"
    and "below (parse_while tgt r ts) (parse_while tgt r' ts)"
    and "below (parse_block r ts) (parse_block r' ts)"
  unfolding parse_compound_def parse_if_def parse_for_def parse_while_def parse_block_def
  by (auto intro!: below_pbind below_expecting simp: stmts_belowD [OF assms])

lemma stmts_below_stmt: "stmts_below r r' \<Longrightarrow> below (parse_stmt tgt r ts) (parse_stmt tgt r' ts)"
  by (simp add: parse_stmt_def stmts_below_nested split: option.split)

lemma stmts_below_Suc: "stmts_below (stmt_parsers_at tgt n) (stmt_parsers_at tgt (Suc n))"
proof (induction n)
  case 0
  show ?case by (simp add: stmts_below_def below_def)
next
  case (Suc n)
  show ?case
    unfolding stmts_below_def stmt_parsers_at.simps(2) [of tgt "Suc n"] stmt_parsers_at.simps(2) [of tgt n]
    using stmts_below_nested(5) [OF Suc] stmts_below_stmt [OF Suc] by (simp del: stmt_parsers_at.simps add: stmt_parsers_at.simps(2))
qed

interpretation stmt_fuel: fuel_indexed "\<lambda>n. p_stmt (stmt_parsers_at tgt n)" No_fuel for tgt
  by unfold_locales (rule below_Suc [OF stmts_belowD(1) [OF stmts_below_Suc]])

interpretation block_fuel: fuel_indexed "\<lambda>n. p_block (stmt_parsers_at tgt n)" No_fuel for tgt
  by unfold_locales (rule below_Suc [OF stmts_belowD(2) [OF stmts_below_Suc]])

definition stmts_enough :: "nat \<Rightarrow> stmt_parsers \<Rightarrow> bool" where
  "stmts_enough n r \<longleftrightarrow>
     (\<forall>ts. 3 * length ts + 1 < n \<longrightarrow> p_stmt r ts \<noteq> No_fuel) \<and>
     (\<forall>ts. 3 * length ts + 2 < n \<longrightarrow> p_block r ts \<noteq> No_fuel)"

lemma stmts_enoughD:
  assumes "stmts_enough n r"
  shows "p_stmt r ts = No_fuel \<Longrightarrow> n \<le> 3 * length ts + 1"
    and "p_block r ts = No_fuel \<Longrightarrow> n \<le> 3 * length ts + 2"
  using assms by (auto simp: stmts_enough_def not_less [symmetric])

lemma nested_enough:
  assumes "stmts_enough n r" and "stmts_consume r"
  shows "parse_compound r ts = No_fuel \<Longrightarrow> n < 3 * length ts"
    and "parse_if tgt r ts = No_fuel \<Longrightarrow> n < 3 * length ts"
    and "parse_for tgt r ts = No_fuel \<Longrightarrow> n < 3 * length ts"
    and "parse_while tgt r ts = No_fuel \<Longrightarrow> n < 3 * length ts"
proof -
  note D = stmts_consumeD [OF assms(2)] and E = stmts_enoughD [OF assms(1)]
  show "parse_compound r ts = No_fuel \<Longrightarrow> n < 3 * length ts"
    by (auto simp: parse_compound_def pres_simps dest!: D E at_punct_tl)
  show "parse_if tgt r ts = No_fuel \<Longrightarrow> n < 3 * length ts"
    by (auto simp: parse_if_def pres_simps split: if_splits dest!: D E at_punct_tl parse_expr_shrinks)
  show "parse_for tgt r ts = No_fuel \<Longrightarrow> n < 3 * length ts"
    by (auto simp: parse_for_def pres_simps split: if_splits
        dest!: D E at_punct_tl parse_opt_expr_shrinks)
  show "parse_while tgt r ts = No_fuel \<Longrightarrow> n < 3 * length ts"
    by (auto simp: parse_while_def pres_simps dest!: D E at_punct_tl parse_expr_shrinks)
qed

lemma stmts_enough_at: "stmts_enough n (stmt_parsers_at tgt n)"
proof (induction n)
  case 0
  show ?case by (simp add: stmts_enough_def)
next
  case (Suc n)
  let ?r = "stmt_parsers_at tgt n"
  note N = nested_enough [OF Suc stmts_consume_at] and D = stmts_consumeD [OF stmts_consume_at]
    and E = stmts_enoughD [OF Suc]
  have "n < 3 * length ts + 1" if "parse_stmt tgt ?r ts = No_fuel" for ts
    using parse_stmt_arms [of ts tgt ?r] that length_tl_le [of ts]
    by (elim disjE) (auto dest!: N [where ts = "tl ts"] N [where ts = ts])
  moreover have "n < 3 * length ts + 2" if "parse_block ?r ts = No_fuel" for ts
    using that by (auto simp: parse_block_def pres_simps split: if_splits dest!: D E)
  ultimately show ?case by (fastforce simp: stmts_enough_def)
qed

lemma parse_body_answers: "parse_body tgt ts \<noteq> No_fuel"
  using nested_enough(1) [OF stmts_enough_at stmts_consume_at, of tgt "stmt_fuel ts" ts]
  by (auto simp: parse_body_def stmt_fuel_def)

text \<open>C29: Termination of the statement parser. A function body is parsed or refused on every
  token list, for every fuel from \<open>stmt_fuel\<close> on with the same answer, and a parsed body has
  consumed tokens.\<close>

theorem parse_body_total:
  "parse_body tgt ts \<noteq> No_fuel \<and>
   parse_compound (stmt_parsers_at tgt (stmt_fuel ts + k)) ts = parse_body tgt ts \<and>
   (case parse_body tgt ts of Parsed s rest \<Rightarrow> length rest < length ts | _ \<Rightarrow> True)"
proof -
  note full = parse_body_answers [of tgt ts]
  have "stmts_below (stmt_parsers_at tgt n) (stmt_parsers_at tgt (n + k))" for n
    using stmt_fuel.fuel_mono [of n "n + k" tgt] block_fuel.fuel_mono [of n "n + k" tgt]
    by (auto simp: stmts_below_def below_def)
  then have "below (parse_body tgt ts) (parse_compound (stmt_parsers_at tgt (stmt_fuel ts + k)) ts)"
    unfolding parse_body_def by (rule stmts_below_nested(1))
  with full show ?thesis
    using nested_shrinks(1) [OF stmts_consume_at, of tgt "stmt_fuel ts" ts]
    by (auto simp: below_def parse_body_def split: pres.split)
qed

section \<open>Statements are read back\<close>

text \<open>The methods without fuel.\<close>

definition the_stmts :: "c_target \<Rightarrow> stmt_parsers" where
  "the_stmts tgt =
     \<lparr>p_stmt = \<lambda>ts. p_stmt (stmt_parsers_at tgt (stmt_fuel ts)) ts,
      p_block = \<lambda>ts. p_block (stmt_parsers_at tgt (stmt_fuel ts)) ts\<rparr>"

lemma stmt_fuel_enough:
  "p_stmt (stmt_parsers_at tgt (stmt_fuel ts)) ts \<noteq> No_fuel"
  "p_block (stmt_parsers_at tgt (stmt_fuel ts)) ts \<noteq> No_fuel"
  using stmts_enough_at [of "stmt_fuel ts" tgt] by (auto simp: stmts_enough_def stmt_fuel_def)

lemma stmts_below_the: "stmts_below (stmt_parsers_at tgt n) (the_stmts tgt)"
  unfolding stmts_below_def below_def the_stmts_def
  by (auto intro: stmt_fuel.fuel_agree block_fuel.fuel_agree simp: stmt_fuel_enough)

lemma the_stmts_fix:
  "p_stmt (the_stmts tgt) ts = parse_stmt tgt (the_stmts tgt) ts"
  "p_block (the_stmts tgt) ts = parse_block (the_stmts tgt) ts"
proof -
  let ?n = "stmt_fuel ts"
  note more = stmts_belowD [OF stmts_below_Suc [of tgt ?n], of ts] and full = stmt_fuel_enough [of tgt ts]
  show "p_stmt (the_stmts tgt) ts = parse_stmt tgt (the_stmts tgt) ts"
    using more(1) full(1) stmts_below_stmt [OF stmts_below_the [of tgt ?n], of tgt ts]
    by (auto simp: below_def the_stmts_def)
  show "p_block (the_stmts tgt) ts = parse_block (the_stmts tgt) ts"
    using more(2) full(2) stmts_below_nested(5) [OF stmts_below_the [of tgt ?n], of ts]
    by (auto simp: below_def the_stmts_def)
qed

lemma parse_body_the: "parse_body tgt ts = parse_compound (the_stmts tgt) ts"
  using stmts_below_nested(1) [OF stmts_below_the [of tgt "stmt_fuel ts"], of ts] parse_body_answers [of tgt ts]
  by (auto simp: below_def parse_body_def)

text \<open>The printer. An initializer clause of \<open>for\<close> ends with its own semicolon.\<close>

definition print_opt :: "c_expr option \<Rightarrow> tok list" where
  "print_opt e = (case e of None \<Rightarrow> [] | Some e \<Rightarrow> print_expr 0 e)"

fun print_stmt :: "c_stmt \<Rightarrow> tok list" and print_stmts :: "c_stmt list \<Rightarrow> tok list" where
  "print_stmt SEmpty = [TPunct '';'']"
| "print_stmt (SCompound ss) = TPunct ''{'' # print_stmts ss"
| "print_stmt (SExpr e) = print_expr 0 e @ [TPunct '';'']"
| "print_stmt (SReturn e) = TIdent ''return'' # print_opt e @ [TPunct '';'']"
| "print_stmt (SIf c th None) =
     TIdent ''if'' # TPunct ''('' # print_expr 0 c @ TPunct '')'' # print_stmt th"
| "print_stmt (SIf c th (Some el)) =
     TIdent ''if'' # TPunct ''('' # print_expr 0 c @ TPunct '')'' # print_stmt th @
     TIdent ''else'' # print_stmt el"
| "print_stmt (SDecl ty name None) = print_ty ty @ [TIdent name, TPunct '';'']"
| "print_stmt (SDecl ty name (Some e)) =
     print_ty ty @ TIdent name # TPunct ''='' # print_expr 0 e @ [TPunct '';'']"
| "print_stmt (SFor None c step bd) =
     TIdent ''for'' # TPunct ''('' # TPunct '';'' # print_opt c @ TPunct '';'' # print_opt step @
     TPunct '')'' # print_stmt bd"
| "print_stmt (SFor (Some init) c step bd) =
     TIdent ''for'' # TPunct ''('' # print_stmt init @ print_opt c @ TPunct '';'' # print_opt step @
     TPunct '')'' # print_stmt bd"
| "print_stmts [] = [TPunct ''}'']"
| "print_stmts (s # ss) = print_stmt s @ print_stmts ss"

text \<open>Statements that end in an \<open>if\<close> without \<open>else\<close> take a following \<open>else\<close>; they may not
  stand in front of one.\<close>

fun dangling :: "c_stmt \<Rightarrow> bool" where
  "dangling (SIf c th None) = True"
| "dangling (SIf c th (Some el)) = dangling el"
| "dangling (SFor init c step bd) = dangling bd"
| "dangling _ = False"

definition starts_refused :: "tok list \<Rightarrow> bool" where
  "starts_refused ts \<longleftrightarrow> (case ts of TIdent w # _ \<Rightarrow> refused_keyword w | _ \<Rightarrow> False)"

definition local_name :: "string \<Rightarrow> bool" where
  "local_name w \<longleftrightarrow> wf_ident w \<and> \<not> is_type_word w \<and> w \<noteq> ''static'' \<and> w \<noteq> ''extern''"

definition printable_opt :: "c_expr option \<Rightarrow> bool" where
  "printable_opt e = (case e of None \<Rightarrow> True | Some e \<Rightarrow> printable e)"

fun printable_stmt :: "c_stmt \<Rightarrow> bool" where
  "printable_stmt SEmpty = True"
| "printable_stmt (SCompound ss) = list_all printable_stmt ss"
| "printable_stmt (SExpr e) = (printable e \<and> \<not> starts_refused (print_expr 0 e))"
| "printable_stmt (SReturn e) = printable_opt e"
| "printable_stmt (SIf c th None) = (printable c \<and> printable_stmt th)"
| "printable_stmt (SIf c th (Some el)) =
     (printable c \<and> printable_stmt th \<and> \<not> dangling th \<and> printable_stmt el)"
| "printable_stmt (SDecl ty name init) = (printable_ty ty \<and> local_name name \<and> printable_opt init)"
| "printable_stmt (SFor None c step bd) = (printable_opt c \<and> printable_opt step \<and> printable_stmt bd)"
| "printable_stmt (SFor (Some init) c step bd) =
     (printable_stmt init \<and> init \<noteq> SEmpty \<and> \<not> dangling init \<and> printable_opt c \<and> printable_opt step \<and>
      printable_stmt bd)"

definition stmt_reads :: "c_target \<Rightarrow> c_stmt \<Rightarrow> tok list \<Rightarrow> bool" where
  "stmt_reads tgt s ts \<longleftrightarrow>
     (\<forall>rest. (dangling s \<longrightarrow> peek_ident rest \<noteq> Some ''else'') \<longrightarrow>
        p_stmt (the_stmts tgt) (ts @ rest) = Parsed s rest)"

lemma parse_expr_print:
  assumes "printable e" and "ends_assign rest"
  shows "parse_expr tgt (print_expr 0 e @ rest) = Parsed e rest"
  using reads_print_expr [OF assms(1), of 0 tgt] assms(2) by (simp add: reads_def parse_expr_the_parsers)

lemma expr_start_print: "printable e \<Longrightarrow> expr_start (print_expr 0 e)"
  using reads_print_expr [of e 0] readsD by blast

lemma expr_start_not_punct:
  "expr_start ts \<Longrightarrow> p \<in> {'')'', '';'', ''{''} \<Longrightarrow> \<not> at_punct p (ts @ rest)"
  by (auto simp: expr_start_def split: list.splits tok.splits)

lemma parse_opt_print:
  assumes "printable_opt e" and "p \<in> {'';'', '')''}"
  shows "parse_opt_expr tgt p (print_opt e @ TPunct p # rest) = Parsed e (TPunct p # rest)"
  using assms
  by (auto simp: parse_opt_expr_def print_opt_def printable_opt_def parse_expr_print
      expr_start_not_punct [OF expr_start_print] split: option.splits)

lemma parse_type_start:
  assumes "expr_start ts" and "\<not> starts_refused ts"
  shows "parse_stmt tgt r (ts @ rest) = parse_expr_stmt tgt (ts @ rest)"
  using assms
  by (cases ts) (auto simp: parse_stmt_def expr_start_def starts_refused_def at_type_start_def
      stmt_word_def refused_keyword_def split: tok.splits)

lemma type_word_facts:
  "is_type_word w \<Longrightarrow> w \<notin> {''return'', ''if'', ''else'', ''for'', ''while''} \<and> \<not> refused_keyword w"
  by (auto simp: is_type_word_def keyword_simps refused_keyword_def)

lemma parse_decl_start:
  assumes "printable_ty ty"
  shows "parse_stmt tgt r (print_ty ty @ rest) = parse_local tgt (print_ty ty @ rest)"
  using print_ty_type_word [OF assms] type_word_facts
  by (auto simp: parse_stmt_def at_type_start_def)

text \<open>The first token of a printed statement.\<close>

definition stmt_start :: "bool \<Rightarrow> tok list \<Rightarrow> bool" where
  "stmt_start semi ts \<longleftrightarrow>
     (case ts of [] \<Rightarrow> False | TIdent w # _ \<Rightarrow> w \<noteq> ''else''
      | TPunct p # _ \<Rightarrow> p \<noteq> ''}'' \<and> (p = '';'' \<longrightarrow> semi) | _ \<Rightarrow> True)"

lemma stmt_startD:
  assumes "stmt_start semi ts"
  shows "ts \<noteq> []" and "\<not> at_punct ''}'' (ts @ rest)" and "peek_ident (ts @ rest) \<noteq> Some ''else''"
    and "\<not> semi \<Longrightarrow> \<not> at_punct '';'' (ts @ rest)"
  using assms by (auto simp: stmt_start_def split: list.splits tok.splits)

lemma expr_stmt_start: "expr_start ts \<Longrightarrow> stmt_start False (ts @ rest)"
  by (auto simp: expr_start_def stmt_start_def stmt_word_def split: list.splits tok.splits)

lemma ty_stmt_start: "printable_ty ty \<Longrightarrow> stmt_start False (print_ty ty @ rest)"
  using print_ty_type_word [of ty] type_word_facts by (fastforce simp: stmt_start_def)

lemma stmt_start_simps [simp]:
  "stmt_start semi (TIdent w # ts) = (w \<noteq> ''else'')"
  "stmt_start semi (TPunct p # ts) = (p \<noteq> ''}'' \<and> (p = '';'' \<longrightarrow> semi))"
  by (simp_all add: stmt_start_def)

lemma print_stmt_start: "printable_stmt s \<Longrightarrow> stmt_start (s = SEmpty) (print_stmt s)"
proof (cases s rule: print_stmt.cases)
  case (8 ty name e)
  then show "printable_stmt s \<Longrightarrow> ?thesis" using ty_stmt_start by simp
qed (auto intro: expr_stmt_start expr_start_print ty_stmt_start)

lemma parse_local_print:
  assumes "printable_ty ty" and "local_name name" and "printable_opt init"
  shows "parse_local tgt (print_stmt (SDecl ty name init) @ rest) = Parsed (SDecl ty name init) rest"
proof (cases init)
  case None
  then show ?thesis
    using assms by (simp add: parse_local_def parse_type_name_print local_name_def pres_of_def expecting_def)
next
  case (Some e)
  then show ?thesis
    using assms by (simp add: parse_local_def parse_type_name_print local_name_def pres_of_def
        expecting_def printable_opt_def parse_expr_print)
qed

lemma the_stmts_if:
  assumes "printable c" and "p_stmt (the_stmts tgt) (ts @ rest) = Parsed th rest"
  shows "p_stmt (the_stmts tgt) (TIdent ''if'' # TPunct ''('' # print_expr 0 c @ TPunct '')'' # ts @ rest) =
    (if peek_ident rest = Some ''else'' then
       pbind (p_stmt (the_stmts tgt) (tl rest)) (\<lambda>el. Parsed (SIf c th (Some el)))
     else Parsed (SIf c th None) rest)"
  using assms by (subst the_stmts_fix(1)) (simp add: parse_stmt_def parse_if_def expecting_def parse_expr_print)

lemma the_stmts_for:
  assumes "printable_opt c" and "printable_opt step" and "p_stmt (the_stmts tgt) (ts @ rest) = Parsed bd rest"
    and "init = None \<and> pre = [TPunct '';''] \<or>
      (\<exists>s. init = Some s \<and> (\<forall>r. \<not> at_punct '';'' (pre @ r)) \<and>
        p_stmt (the_stmts tgt) (pre @ print_opt c @ TPunct '';'' # print_opt step @ TPunct '')'' # ts @ rest) =
          Parsed s (print_opt c @ TPunct '';'' # print_opt step @ TPunct '')'' # ts @ rest))"
  shows "p_stmt (the_stmts tgt) (TIdent ''for'' # TPunct ''('' # pre @ print_opt c @ TPunct '';'' #
      print_opt step @ TPunct '')'' # ts @ rest) = Parsed (SFor init c step bd) rest"
  using assms
  by (subst the_stmts_fix(1))
    (auto simp: parse_stmt_def parse_for_def expecting_def parse_opt_print)

lemma print_stmts_no_else: "list_all printable_stmt ss \<Longrightarrow> peek_ident (print_stmts ss @ rest) \<noteq> Some ''else''"
  using stmt_startD(3) [OF print_stmt_start] by (cases ss) auto

lemma reads_print_stmt:
  "printable_stmt s \<Longrightarrow> stmt_reads tgt s (print_stmt s)"
  "list_all printable_stmt ss \<Longrightarrow> p_block (the_stmts tgt) (print_stmts ss @ rest) = Parsed ss rest"
proof (induction s and ss arbitrary: and rest rule: print_stmt_print_stmts.induct)
  case 1
  show ?case by (simp add: stmt_reads_def the_stmts_fix(1) parse_stmt_def)
next
  case (2 ss)
  then show ?case
    by (simp add: stmt_reads_def the_stmts_fix(1) parse_stmt_def parse_compound_def expecting_def)
next
  case (3 e)
  then show ?case
    by (simp add: stmt_reads_def the_stmts_fix(1) parse_type_start expr_start_print parse_expr_stmt_def
        parse_expr_print expecting_def)
next
  case (4 e)
  then show ?case
    by (cases e) (simp_all add: stmt_reads_def the_stmts_fix(1) parse_stmt_def parse_return_def print_opt_def
        printable_opt_def parse_expr_print expecting_def expr_start_not_punct [OF expr_start_print])
next
  case (5 c th)
  then show ?case
    using the_stmts_if [of c tgt "print_stmt th"] by (auto simp: stmt_reads_def)
next
  case (6 c th el)
  then show ?case
    using the_stmts_if [of c tgt "print_stmt th"] by (auto simp: stmt_reads_def)
next
  case (7 ty name)
  then show ?case
    using parse_local_print [of ty name None] parse_decl_start
    by (simp add: stmt_reads_def the_stmts_fix(1))
next
  case (8 ty name e)
  then show ?case
    using parse_local_print [of ty name "Some e"] parse_decl_start
    by (simp add: stmt_reads_def the_stmts_fix(1))
next
  case (9 c step bd)
  then show ?case
    using the_stmts_for [of c step tgt "print_stmt bd" _ bd None "[TPunct '';'']"]
    by (auto simp: stmt_reads_def)
next
  case (10 init c step bd)
  then show ?case
    using the_stmts_for [of c step tgt "print_stmt bd" _ bd "Some init" "print_stmt init"]
      stmt_startD(4) [OF print_stmt_start [of init]]
    by (auto simp: stmt_reads_def)
next
  case 11
  show ?case by (simp add: the_stmts_fix(2) parse_block_def)
next
  case (12 s ss)
  then show ?case
    using print_stmts_no_else [of ss rest] stmt_startD [OF print_stmt_start [of s]]
    by (subst the_stmts_fix(2)) (simp add: parse_block_def stmt_reads_def)
qed

lemma wf_print_stmt:
  "printable_stmt s \<Longrightarrow> list_all wf_tok (print_stmt s)"
  "list_all printable_stmt ss \<Longrightarrow> list_all wf_tok (print_stmts ss)"
  by (induction s and ss rule: print_stmt_print_stmts.induct)
    (auto simp: wf_print_expr wf_print_ty print_opt_def printable_opt_def local_name_def split: option.splits)

text \<open>C27: Round trip of function bodies. A block of statements of the fragment, printed and laid
  out as text, tokenizes, and \<open>parse_compound\<close> reads back exactly that block and stops behind its
  closing brace: \<open>else\<close> goes with the nearest \<open>if\<close>, the clauses of a \<open>for\<close> header keep
  their places, and a declaration is told from an expression statement.\<close>

theorem parse_body_roundtrip:
  assumes "list_all printable_stmt ss"
  shows "tokenize (render_toks (print_stmt (SCompound ss))) = Some (print_stmt (SCompound ss)) \<and>
    parse_body tgt (print_stmt (SCompound ss) @ rest) = Parsed (SCompound ss) rest"
  using reads_print_stmt(2) [OF assms, of tgt rest] wf_print_stmt(2) [OF assms]
  by (simp add: parse_body_the parse_compound_def expecting_def tokenize_def tokenize_from_render)

text \<open>\<open>{ uint32_t n = 0; for (n = 1; n < 3; n++) if (n) return n; else { ; } return; }\<close>\<close>

definition sample_block :: "c_stmt list" where
  "sample_block =
     [SDecl (CInt 32 False) ''n'' (Some (IntLit 0 False)),
      SFor (Some (SExpr (Assign None (Ident ''n'') (IntLit 1 False))))
        (Some (Binary Lt (Ident ''n'') (IntLit 3 False))) (Some (IncDec False True (Ident ''n'')))
        (SIf (Ident ''n'') (SReturn (Some (Ident ''n''))) (Some (SCompound [SEmpty]))),
      SReturn None]"

theorem parse_body_roundtrip_witness:
  "tokenize (render_toks (print_stmt (SCompound sample_block))) = Some (print_stmt (SCompound sample_block)) \<and>
   parse_body lp64 (print_stmt (SCompound sample_block) @ [TPunct '';'']) =
     Parsed (SCompound sample_block) [TPunct '';'']"
  by (rule parse_body_roundtrip)
    (simp add: sample_block_def printable_opt_def local_name_def plain_name_def wf_ident_def
      is_ident_start_def is_ident_byte_def is_ascii_alphabetic_def is_ascii_digit_def byte_def
      is_type_word_def keyword_simps reserved_primary_def i128_max_def starts_refused_def
      refused_keyword_def wrap_def)

end
