(* ===== verification/C_Fold.thy ===== *)
theory C_Fold
  imports C_Ast
begin

text \<open>
  Constant folding of file-scope initializers, \<open>const_fold\<close> of
  \<open>trust-mc-compiler/src/c_ffi/parse.rs\<close>: checked 128-bit arithmetic on literals, a refusal
  (\<open>None\<close>) for every other form.

  Shown: the result of a fold is an \<open>i128\<close>; away from the left shift it is the value of the
  expression over the unbounded integers, so no wrap-around enters silently; only the forms of
  constant arithmetic fold; and the fold does not look at the \<open>u\<close> suffix of a literal, so it is
  the same for signed and unsigned spellings.
\<close>

section \<open>The fold\<close>

definition of_flag :: "bool \<Rightarrow> int" where
  "of_flag b = (if b then 1 else 0)"

definition fold_unary :: "c_un_op \<Rightarrow> int \<Rightarrow> int option" where
  "fold_unary op v =
     (case op of
        Neg \<Rightarrow> checked_neg v
      | Plus \<Rightarrow> Some v
      | LogicalNot \<Rightarrow> Some (of_flag (v = 0))
      | BitNot \<Rightarrow> Some (NOT v))"

definition fold_binary :: "c_bin_op \<Rightarrow> int \<Rightarrow> int \<Rightarrow> int option" where
  "fold_binary op a b =
     (case op of
        Add \<Rightarrow> checked_add a b
      | Sub \<Rightarrow> checked_sub a b
      | Mul \<Rightarrow> checked_mul a b
      | Div \<Rightarrow> checked_div a b
      | Rem \<Rightarrow> checked_rem a b
      | Shl \<Rightarrow> Option.bind (u32_try_from b) (checked_shl a)
      | Shr \<Rightarrow> Option.bind (u32_try_from b) (checked_shr a)
      | BitAnd \<Rightarrow> Some (a AND b)
      | BitOr \<Rightarrow> Some (a OR b)
      | BitXor \<Rightarrow> Some (a XOR b)
      | Eq \<Rightarrow> Some (of_flag (a = b))
      | Ne \<Rightarrow> Some (of_flag (a \<noteq> b))
      | Lt \<Rightarrow> Some (of_flag (a < b))
      | Le \<Rightarrow> Some (of_flag (a \<le> b))
      | Gt \<Rightarrow> Some (of_flag (a > b))
      | Ge \<Rightarrow> Some (of_flag (a \<ge> b))
      | LogicalAnd \<Rightarrow> Some (of_flag (a \<noteq> 0 \<and> b \<noteq> 0))
      | LogicalOr \<Rightarrow> Some (of_flag (a \<noteq> 0 \<or> b \<noteq> 0)))"

fun const_fold :: "c_expr \<Rightarrow> int option" where
  "const_fold (IntLit v u) = Some v"
| "const_fold (Unary op e) = Option.bind (const_fold e) (fold_unary op)"
| "const_fold (Binary op a b) =
     Option.bind (const_fold a) (\<lambda>x. Option.bind (const_fold b) (fold_binary op x))"
| "const_fold (Cond c a b) =
     Option.bind (const_fold c) (\<lambda>x. if x \<noteq> 0 then const_fold a else const_fold b)"
| "const_fold _ = None"

section \<open>Range\<close>

text \<open>The literals the tokenizer produces are \<open>i128\<close> values.\<close>

fun literals_ok :: "c_expr \<Rightarrow> bool" where
  "literals_ok (IntLit v u) = in_i128 v"
| "literals_ok (Unary op e) = literals_ok e"
| "literals_ok (Binary op a b) = (literals_ok a \<and> literals_ok b)"
| "literals_ok (Cond c a b) = (literals_ok c \<and> literals_ok a \<and> literals_ok b)"
| "literals_ok _ = True"

lemma in_i128_of_flag [ranged]: "in_i128 (of_flag b)"
  by (simp add: of_flag_def)

lemma fold_unary_range [ranged]: "fold_unary op v = Some w \<Longrightarrow> in_i128 v \<Longrightarrow> in_i128 w"
  by (cases op) (auto simp: fold_unary_def checked_neg_def intro: ranged)

lemma fold_binary_range [ranged]:
  "fold_binary op a b = Some w \<Longrightarrow> in_i128 a \<Longrightarrow> in_i128 b \<Longrightarrow> in_i128 w"
  by (cases op)
    (auto simp: fold_binary_def checked_add_def checked_sub_def checked_mul_def checked_div_def
      checked_rem_def checked_shl_def checked_shr_def bind_eq_Some_conv split: if_splits intro: ranged)

lemma const_fold_range: "literals_ok e \<Longrightarrow> const_fold e = Some v \<Longrightarrow> in_i128 v"
  by (induction e arbitrary: v rule: const_fold.induct)
    (auto simp: bind_eq_Some_conv split: if_splits intro: ranged)

section \<open>The value over the unbounded integers\<close>

definition math_unary :: "c_un_op \<Rightarrow> int \<Rightarrow> int" where
  "math_unary op v =
     (case op of Neg \<Rightarrow> - v | Plus \<Rightarrow> v | LogicalNot \<Rightarrow> of_flag (v = 0) | BitNot \<Rightarrow> - v - 1)"

definition math_binary :: "c_bin_op \<Rightarrow> int \<Rightarrow> int \<Rightarrow> int option" where
  "math_binary op a b =
     (case op of
        Add \<Rightarrow> Some (a + b)
      | Sub \<Rightarrow> Some (a - b)
      | Mul \<Rightarrow> Some (a * b)
      | Div \<Rightarrow> if b = 0 then None else Some (sgn a * sgn b * (\<bar>a\<bar> div \<bar>b\<bar>))
      | Rem \<Rightarrow> if b = 0 then None else Some (sgn a * (\<bar>a\<bar> mod \<bar>b\<bar>))
      | Shl \<Rightarrow> if b < 0 then None else Some (a * 2 ^ nat b)
      | Shr \<Rightarrow> if b < 0 then None else Some (a div 2 ^ nat b)
      | BitAnd \<Rightarrow> Some (a AND b)
      | BitOr \<Rightarrow> Some (a OR b)
      | BitXor \<Rightarrow> Some (a XOR b)
      | Eq \<Rightarrow> Some (of_flag (a = b))
      | Ne \<Rightarrow> Some (of_flag (a \<noteq> b))
      | Lt \<Rightarrow> Some (of_flag (a < b))
      | Le \<Rightarrow> Some (of_flag (a \<le> b))
      | Gt \<Rightarrow> Some (of_flag (b < a))
      | Ge \<Rightarrow> Some (of_flag (b \<le> a))
      | LogicalAnd \<Rightarrow> Some (of_flag (a \<noteq> 0 \<and> b \<noteq> 0))
      | LogicalOr \<Rightarrow> Some (of_flag (a \<noteq> 0 \<or> b \<noteq> 0)))"

fun math_value :: "c_expr \<Rightarrow> int option" where
  "math_value (IntLit v u) = Some v"
| "math_value (Unary op e) = map_option (math_unary op) (math_value e)"
| "math_value (Binary op a b) =
     Option.bind (math_value a) (\<lambda>x. Option.bind (math_value b) (math_binary op x))"
| "math_value (Cond c a b) =
     Option.bind (math_value c) (\<lambda>x. if x \<noteq> 0 then math_value a else math_value b)"
| "math_value _ = None"

fun shl_free :: "c_expr \<Rightarrow> bool" where
  "shl_free (Unary op e) = shl_free e"
| "shl_free (Binary op a b) = (op \<noteq> Shl \<and> shl_free a \<and> shl_free b)"
| "shl_free (Cond c a b) = (shl_free c \<and> shl_free a \<and> shl_free b)"
| "shl_free _ = True"

lemma fold_unary_math: "fold_unary op v = Some w \<Longrightarrow> w = math_unary op v"
  by (cases op) (auto simp: fold_unary_def math_unary_def checked_neg_def not_int_def)

lemma fold_binary_math: "fold_binary op a b = Some w \<Longrightarrow> op \<noteq> Shl \<Longrightarrow> math_binary op a b = Some w"
  by (cases op)
    (auto simp: fold_binary_def math_binary_def checked_add_def checked_sub_def checked_mul_def
      checked_div_def checked_rem_def checked_shr_def u32_try_from_def bind_eq_Some_conv
      drop_bit_eq_div signed_divide_int_def signed_modulo_int_def split: if_splits)

text \<open>Exactness of the fold. Without a left shift, whatever the fold returns is the value of
  the expression over the unbounded integers (division truncating towards zero, the remainder with
  the sign of the dividend): an overflow, a zero divisor or a bad shift count refuses instead of
  wrapping; and the value is an \<open>i128\<close>.\<close>

theorem const_fold_exact:
  assumes "literals_ok e" and "shl_free e" and "const_fold e = Some v"
  shows "math_value e = Some v \<and> in_i128 v"
proof -
  have "math_value e = Some v"
    using assms(2,3)
    by (induction e arbitrary: v rule: const_fold.induct)
      (auto simp: bind_eq_Some_conv split: if_splits dest!: fold_unary_math fold_binary_math)
  with const_fold_range [OF assms(1,3)] show ?thesis by simp
qed

theorem const_fold_exact_witness:
  "math_value (Binary Rem (Unary Neg (IntLit 7 False)) (Cond (IntLit 1 False) (IntLit 4 False) (Ident ''x''))) =
     Some (- 3) \<and> in_i128 (- 3)"
  by (rule const_fold_exact)
    (simp_all add: fold_binary_def fold_unary_def checked_neg_def checked_rem_def checked_i128_def
      in_i128_def i128_min_def i128_max_def signed_modulo_int_def signed_divide_int_def)

section \<open>What folds\<close>

fun strip_suffix :: "c_expr \<Rightarrow> c_expr" where
  "strip_suffix (IntLit v u) = IntLit v False"
| "strip_suffix (Unary op e) = Unary op (strip_suffix e)"
| "strip_suffix (Binary op a b) = Binary op (strip_suffix a) (strip_suffix b)"
| "strip_suffix (Cond c a b) = Cond (strip_suffix c) (strip_suffix a) (strip_suffix b)"
| "strip_suffix e = e"

text \<open>The fold has no types. It gives the same answer after every \<open>u\<close> suffix is removed;
  a difference of unsigned literals therefore folds to a negative number where C wraps.\<close>

theorem const_fold_ignores_suffix:
  "const_fold e = const_fold (strip_suffix e) \<and>
   const_fold (Binary Sub (IntLit 1 True) (IntLit 2 True)) = Some (- 1)"
proof
  show "const_fold e = const_fold (strip_suffix e)"
    by (induction e rule: strip_suffix.induct) (simp_all cong: if_cong)
qed (simp add: fold_binary_def checked_sub_def in_i128_def i128_min_def i128_max_def)

end
