(* ===== verification/C_Decl.thy ===== *)
theory C_Decl
  imports C_Stmt C_Fold
begin

text \<open>
  File scope of the C front-end: \<open>parse_declaration\<close>, \<open>parse_struct_definition\<close>,
  \<open>parse_params\<close>, \<open>split_top_level\<close>, \<open>guess_declared_name\<close> and
  \<open>parse_translation_unit\<close> of \<open>trust-mc-compiler/src/c_ffi/parse.rs\<close>, and the registry of
  \<open>mod.rs\<close> (\<open>init\<close>, \<open>program\<close>, \<open>target\<close>, \<open>func\<close>, \<open>global\<close>).

  The \<open>&mut CProgram\<close> argument is threaded: a method that returns \<open>Option<()>\<close> becomes a
  function to \<open>c_program option\<close>. Every refusal of the source happens before the first write to
  the program, so \<open>None\<close> stands for "refused, program unchanged". A \<open>BTreeMap\<close> is a HOL map.
  The two \<open>i32\<close> depth counters of the splitter are integers; they agree for inputs below
  \<open>2 ^ 31\<close> tokens.
\<close>

section \<open>Parameters\<close>

definition param_tail :: "cty \<Rightarrow> tok list \<Rightarrow> (c_param \<times> tok list) option" where
  "param_tail ty ts =
     (let (name, ts1) = (case peek_ident ts of Some n \<Rightarrow> (Some n, tl ts) | None \<Rightarrow> (None, ts))
      in if at_punct ''['' ts1 then None else Some (\<lparr>param_name = name, param_ty = ty\<rparr>, ts1))"

definition parse_param :: "c_target \<Rightarrow> tok list \<Rightarrow> (c_param \<times> tok list) option" where
  "parse_param tgt ts =
     (case parse_type_name tgt ts of None \<Rightarrow> None | Some (ty, ts1) \<Rightarrow> param_tail ty ts1)"

lemma parse_param_shrinks: "parse_param tgt ts = Some (p, ts') \<Longrightarrow> length ts' \<le> length ts"
  by (auto simp: parse_param_def param_tail_def Let_def split: option.splits if_splits
      dest!: parse_type_name_shrinks)

function param_loop :: "c_target \<Rightarrow> tok list \<Rightarrow> ((c_param list \<times> bool) \<times> tok list) option" where
  "param_loop tgt ts =
     (if at_punct ''...'' ts then Some (([], True), tl ts)
      else
        (case parse_param tgt ts of
           None \<Rightarrow> None
         | Some (p, ts1) \<Rightarrow>
             if at_punct '','' ts1 then
               map_option (\<lambda>((ps, v), ts2). ((p # ps, v), ts2)) (param_loop tgt (tl ts1))
             else Some (([p], False), ts1)))"
  by pat_completeness auto
termination
  by (relation "measure (length \<circ> snd)") (auto dest!: parse_param_shrinks at_punct_tl)

declare param_loop.simps [simp del]

definition parse_params :: "c_target \<Rightarrow> tok list \<Rightarrow> ((c_param list \<times> bool) \<times> tok list) option" where
  "parse_params tgt ts =
     (if at_punct '')'' ts then Some (([], False), ts)
      else if peek_ident ts = Some ''void'' \<and> at_punct '')'' (drop 1 ts) then Some (([], False), tl ts)
      else param_loop tgt ts)"

section \<open>Struct definitions\<close>

text \<open>The declarators that share one base type: name, no array or bit-field, comma or stop.\<close>

definition parse_declarator :: "cty \<Rightarrow> tok list \<Rightarrow> (c_field \<times> tok list) option" where
  "parse_declarator base ts =
     (let (fty, ts1) = parse_pointer base ts
      in case bump_ident ts1 of
           None \<Rightarrow> None
         | Some (fname, ts2) \<Rightarrow>
             if at_punct ''['' ts2 \<or> at_punct '':'' ts2 then None
             else Some (\<lparr>field_name = fname, field_ty = fty\<rparr>, ts2))"

lemma parse_declarator_shrinks: "parse_declarator base ts = Some (f, ts') \<Longrightarrow> length ts' < length ts"
  using parse_pointer_shrinks [of base ts]
  by (auto simp: parse_declarator_def Let_def split: prod.splits option.splits if_splits
      dest!: bump_ident_shrinks)

function declarator_loop :: "cty \<Rightarrow> tok list \<Rightarrow> (c_field list \<times> tok list) option" where
  "declarator_loop base ts =
     (case parse_declarator base ts of
        None \<Rightarrow> None
      | Some (f, ts1) \<Rightarrow>
          if at_punct '','' ts1 then
            map_option (\<lambda>(fs, ts2). (f # fs, ts2)) (declarator_loop base (tl ts1))
          else Some ([f], ts1))"
  by pat_completeness auto
termination
  by (relation "measure (length \<circ> snd)") (auto dest!: parse_declarator_shrinks at_punct_tl)

declare declarator_loop.simps [simp del]

lemma declarator_loop_shrinks: "declarator_loop base ts = Some (fs, ts') \<Longrightarrow> length ts' < length ts"
proof (induction base ts arbitrary: fs rule: declarator_loop.induct)
  case (1 base ts)
  from "1.prems" obtain f ts1 where f: "parse_declarator base ts = Some (f, ts1)"
    by (subst (asm) declarator_loop.simps) (auto split: option.splits)
  have "length ts1 < length ts" by (rule parse_declarator_shrinks [OF f])
  moreover have "length ts' < length (tl ts1)" if "at_punct '','' ts1" "declarator_loop base (tl ts1) = Some (fs', ts')" for fs'
    using "1.IH" [OF f refl that] .
  ultimately show ?case
    using "1.prems" f by (subst (asm) declarator_loop.simps) (fastforce split: if_splits)
qed

text \<open>One member declaration: base type, declarators, semicolon.\<close>

definition parse_member :: "c_target \<Rightarrow> tok list \<Rightarrow> (c_field list \<times> tok list) option" where
  "parse_member tgt ts =
     (case parse_base_ty tgt ts of
        None \<Rightarrow> None
      | Some (base, ts1) \<Rightarrow>
          (case declarator_loop base ts1 of
             None \<Rightarrow> None
           | Some (fs, ts2) \<Rightarrow> map_option (Pair fs) (expect_punct '';'' ts2)))"

lemma parse_member_shrinks: "parse_member tgt ts = Some (fs, ts') \<Longrightarrow> length ts' < length ts"
  by (auto simp: parse_member_def split: option.splits
      dest!: parse_base_ty_shrinks declarator_loop_shrinks expect_punct_shrinks)

function member_loop :: "c_target \<Rightarrow> tok list \<Rightarrow> (c_field list \<times> tok list) option" where
  "member_loop tgt ts =
     (if at_punct ''}'' ts then Some ([], tl ts)
      else
        (case parse_member tgt ts of
           None \<Rightarrow> None
         | Some (fs, ts1) \<Rightarrow> map_option (\<lambda>(gs, ts2). (fs @ gs, ts2)) (member_loop tgt ts1)))"
  by pat_completeness auto
termination
  by (relation "measure (length \<circ> snd)") (auto dest!: parse_member_shrinks)

declare member_loop.simps [simp del]

definition STRUCT_TWICE :: string where
  "STRUCT_TWICE = ''struct defined more than once across --c-lib files''"

definition SYMBOL_TWICE :: string where
  "SYMBOL_TWICE = ''defined more than once across --c-lib files''"

text \<open>The registration at the end of \<open>parse_struct_definition\<close>.\<close>

definition register_struct :: "string \<Rightarrow> c_field list \<Rightarrow> c_program \<Rightarrow> c_program" where
  "register_struct tag fs out =
     (case structs out tag of
        Some previous \<Rightarrow>
          if struct_fields previous \<noteq> fs then
            out\<lparr>structs := (structs out)(tag := None), refused := (refused out)(tag \<mapsto> STRUCT_TWICE)\<rparr>
          else out\<lparr>structs := (structs out)(tag \<mapsto> \<lparr>struct_name = tag, struct_fields = fs\<rparr>)\<rparr>
      | None \<Rightarrow> out\<lparr>structs := (structs out)(tag \<mapsto> \<lparr>struct_name = tag, struct_fields = fs\<rparr>)\<rparr>)"

definition struct_definition :: "c_target \<Rightarrow> tok list \<Rightarrow> (string \<times> c_field list) option" where
  "struct_definition tgt ts =
     (if peek_ident ts \<noteq> Some ''struct'' then None
      else
        (case bump_ident (tl ts) of
           None \<Rightarrow> None
         | Some (tag, ts1) \<Rightarrow>
             (case expect_punct ''{'' ts1 of
                None \<Rightarrow> None
              | Some ts2 \<Rightarrow>
                  (case member_loop tgt ts2 of
                     None \<Rightarrow> None
                   | Some (fs, ts3) \<Rightarrow>
                       if snd (eat_punct '';'' ts3) \<noteq> [] then None else Some (tag, fs)))))"

definition parse_struct_definition :: "c_target \<Rightarrow> tok list \<Rightarrow> c_program \<Rightarrow> c_program option" where
  "parse_struct_definition tgt ts out =
     map_option (\<lambda>(tag, fs). register_struct tag fs out) (struct_definition tgt ts)"

section \<open>Declarations\<close>

definition register_func :: "c_func \<Rightarrow> c_program \<Rightarrow> c_program" where
  "register_func f out =
     (if funcs out (func_name f) \<noteq> None then
        out\<lparr>funcs := (funcs out)(func_name f := None),
            refused := (refused out)(func_name f \<mapsto> SYMBOL_TWICE)\<rparr>
      else out\<lparr>funcs := (funcs out)(func_name f \<mapsto> f)\<rparr>)"

definition register_global :: "c_global \<Rightarrow> c_program \<Rightarrow> c_program" where
  "register_global g out =
     (case globals out (global_name g) of
        Some previous \<Rightarrow>
          if global_ty previous \<noteq> global_ty g \<or> global_init previous \<noteq> global_init g then
            out\<lparr>globals := (globals out)(global_name g := None),
                refused := (refused out)(global_name g \<mapsto> SYMBOL_TWICE)\<rparr>
          else out\<lparr>globals := (globals out)(global_name g \<mapsto> g)\<rparr>
      | None \<Rightarrow> out\<lparr>globals := (globals out)(global_name g \<mapsto> g)\<rparr>)"

text \<open>What one declaration adds: nothing (a prototype, an \<open>extern\<close> object, a forward
  declaration), a function, an object or a struct.\<close>

datatype c_decl = DNothing | DFunc c_func | DGlobal c_global | DStruct string "c_field list"

definition register :: "c_decl \<Rightarrow> c_program \<Rightarrow> c_program" where
  "register d out =
     (case d of
        DNothing \<Rightarrow> out
      | DFunc f \<Rightarrow> register_func f out
      | DGlobal g \<Rightarrow> register_global g out
      | DStruct tag fs \<Rightarrow> register_struct tag fs out)"

text \<open>From behind the opening parenthesis of a function declarator.\<close>

definition parse_function :: "c_target \<Rightarrow> cty \<Rightarrow> string \<Rightarrow> tok list \<Rightarrow> c_decl option" where
  "parse_function tgt ty name ts =
     (case parse_params tgt ts of
        None \<Rightarrow> None
      | Some ((ps, va), ts1) \<Rightarrow>
          (case expect_punct '')'' ts1 of
             None \<Rightarrow> None
           | Some ts2 \<Rightarrow>
               if at_punct '';'' ts2 then Some DNothing
               else
                 (case parse_body tgt ts2 of
                    Parsed bd ts3 \<Rightarrow>
                      if ts3 \<noteq> [] then None
                      else Some (DFunc \<lparr>func_name = name, ret = ty, params = ps, variadic = va, body = bd\<rparr>)
                  | _ \<Rightarrow> None)))"

definition parse_initializer :: "c_target \<Rightarrow> tok list \<Rightarrow> (int option \<times> tok list) option" where
  "parse_initializer tgt ts =
     (if at_punct ''='' ts then
        (case parse_expr tgt (tl ts) of
           Parsed e ts1 \<Rightarrow> map_option (\<lambda>v. (Some v, ts1)) (const_fold e)
         | _ \<Rightarrow> None)
      else Some (None, ts))"

definition parse_object :: "c_target \<Rightarrow> bool \<Rightarrow> cty \<Rightarrow> string \<Rightarrow> tok list \<Rightarrow> c_decl option" where
  "parse_object tgt is_extern ty name ts =
     (case parse_initializer tgt ts of
        None \<Rightarrow> None
      | Some (init, ts1) \<Rightarrow>
          (case expect_punct '';'' ts1 of
             None \<Rightarrow> None
           | Some ts2 \<Rightarrow>
               if ts2 \<noteq> [] then None
               else if is_extern then Some DNothing
               else Some (DGlobal \<lparr>global_name = name, global_ty = ty, global_init = init\<rparr>)))"

text \<open>What \<open>parse_declaration\<close> reads, before it writes.\<close>

definition read_declaration :: "c_target \<Rightarrow> tok list \<Rightarrow> c_decl option" where
  "read_declaration tgt ts =
     (if ts = [] then Some DNothing
      else if peek_ident ts = Some ''struct'' \<and> at_punct ''{'' (drop 2 ts) then
        map_option (\<lambda>(tag, fs). DStruct tag fs) (struct_definition tgt ts)
      else if peek_ident ts = Some ''struct'' \<and> at_punct '';'' (drop 2 ts) then Some DNothing
      else
        (let is_extern = list_ex (\<lambda>t. tok_ident t = Some ''extern'') ts
         in case parse_type_name tgt ts of
              None \<Rightarrow> None
            | Some (ty, ts1) \<Rightarrow>
                (case bump_ident ts1 of
                   None \<Rightarrow> None
                 | Some (name, ts2) \<Rightarrow>
                     if at_punct ''('' ts2 then parse_function tgt ty name (tl ts2)
                     else parse_object tgt is_extern ty name ts2)))"

definition parse_declaration :: "c_target \<Rightarrow> tok list \<Rightarrow> c_program \<Rightarrow> c_program option" where
  "parse_declaration tgt ts out = map_option (\<lambda>d. register d out) (read_declaration tgt ts)"

section \<open>Translation units\<close>

definition is_semi :: "tok \<Rightarrow> bool" where
  "is_semi t \<longleftrightarrow> is_punct t '';''"

text \<open>The splitting loop: the tokens of the open unit (in reverse) and the two depths.\<close>

fun split_loop :: "tok list \<Rightarrow> int \<Rightarrow> int \<Rightarrow> tok list \<Rightarrow> tok list list" where
  "split_loop cur brace paren [] = (if cur = [] then [] else [rev cur])"
| "split_loop cur brace paren (t # ts) =
     (if is_punct t ''{'' then split_loop (t # cur) (brace + 1) paren ts
      else if is_punct t ''}'' then
        (if brace - 1 \<le> 0 then rev (t # cur) # split_loop [] 0 paren ts
         else split_loop (t # cur) (brace - 1) paren ts)
      else if is_punct t ''('' then split_loop (t # cur) brace (paren + 1) ts
      else if is_punct t '')'' then split_loop (t # cur) brace (paren - 1) ts
      else if is_semi t \<and> brace = 0 \<and> paren = 0 then rev (t # cur) # split_loop [] brace paren ts
      else split_loop (t # cur) brace paren ts)"

definition keep_unit :: "tok list \<Rightarrow> bool" where
  "keep_unit u \<longleftrightarrow> list_ex (\<lambda>t. \<not> is_semi t) u"

definition split_top_level :: "tok list \<Rightarrow> tok list list" where
  "split_top_level ts = filter keep_unit (split_loop [] 0 0 ts)"

definition guess_declared_name :: "tok list \<Rightarrow> string option" where
  "guess_declared_name ts =
     (let front = takeWhile (\<lambda>t. \<not> (is_punct t ''('' \<or> is_punct t ''='' \<or> is_punct t '';'')) ts
      in case List.find (\<lambda>t. tok_ident t \<noteq> None) (rev front) of
           None \<Rightarrow> None
         | Some t \<Rightarrow> tok_ident t)"

definition OUTSIDE :: string where
  "OUTSIDE = ''outside the accepted C fragment''"

definition note_refused :: "tok list \<Rightarrow> c_program \<Rightarrow> c_program" where
  "note_refused unit out =
     (case guess_declared_name unit of
        None \<Rightarrow> out
      | Some name \<Rightarrow>
          (case refused out name of
             None \<Rightarrow> out\<lparr>refused := (refused out)(name \<mapsto> OUTSIDE)\<rparr>
           | Some _ \<Rightarrow> out))"

definition ingest_unit :: "c_target \<Rightarrow> c_program \<Rightarrow> tok list \<Rightarrow> c_program" where
  "ingest_unit tgt out unit =
     (case parse_declaration tgt unit out of Some out' \<Rightarrow> out' | None \<Rightarrow> note_refused unit out)"

definition parse_translation_unit :: "c_target \<Rightarrow> string \<Rightarrow> c_program \<Rightarrow> c_program" where
  "parse_translation_unit tgt src out =
     (case tokenize src of
        None \<Rightarrow> out\<lparr>refused := (refused out)(''<translation-unit>'' \<mapsto> ''tokenizer refused'')\<rparr>
      | Some toks \<Rightarrow> foldl (ingest_unit tgt) out (split_top_level toks))"

section \<open>The registry\<close>

text \<open>The two \<open>OnceLock\<close> cells of \<open>mod.rs\<close>. Reading a file is a parameter: \<open>None\<close> for a
  file that cannot be read.\<close>

record ffi =
  target_cell :: "c_target option"
  program_cell :: "c_program option"

definition ffi_new :: ffi where
  "ffi_new = \<lparr>target_cell = None, program_cell = None\<rparr>"

definition ingest_file :: "(string \<Rightarrow> string option) \<Rightarrow> c_target \<Rightarrow> c_program \<Rightarrow> string \<Rightarrow> c_program" where
  "ingest_file read tgt out path =
     (case read path of None \<Rightarrow> out | Some src \<Rightarrow> parse_translation_unit tgt src out)"

definition init :: "(string \<Rightarrow> string option) \<Rightarrow> string list \<Rightarrow> c_target \<Rightarrow> ffi \<Rightarrow> ffi" where
  "init read paths tgt st =
     \<lparr>target_cell = (case target_cell st of None \<Rightarrow> Some tgt | Some t \<Rightarrow> Some t),
      program_cell =
        (case program_cell st of
           None \<Rightarrow> Some (foldl (ingest_file read tgt) default_program paths)
         | Some p \<Rightarrow> Some p)\<rparr>"

definition program :: "ffi \<Rightarrow> c_program" where
  "program st = (case program_cell st of None \<Rightarrow> default_program | Some p \<Rightarrow> p)"

definition target :: "ffi \<Rightarrow> c_target" where
  "target st =
     (case target_cell st of None \<Rightarrow> \<lparr>pointer_bits = 64, long_bits = 64\<rparr> | Some t \<Rightarrow> t)"

definition func :: "ffi \<Rightarrow> string \<Rightarrow> c_func option" where
  "func st symbol = funcs (program st) symbol"

definition global :: "ffi \<Rightarrow> string \<Rightarrow> c_global option" where
  "global st symbol = globals (program st) symbol"

section \<open>Types that are read are well formed\<close>

lemma named_int_wf: "wf_target tgt \<Longrightarrow> named_int tgt w = Some (b, sg) \<Longrightarrow> b \<in> {8, 16, 32, 64}"
  by (auto simp: named_int_def wf_target_def split: if_splits)

lemma resolve_specs_wf: "wf_target tgt \<Longrightarrow> resolve_specs tgt s = Some ty \<Longrightarrow> wf_cty ty"
  using named_int_wf [of tgt]
  by (fastforce simp: resolve_specs_def wf_target_def Let_def split: option.splits if_splits)

lemma spec_loop_struct: "spec_loop s ts = Some (Inl ty, ts') \<Longrightarrow> wf_cty ty"
  by (induction s ts rule: spec_loop.induct)
    (auto split: option.splits spec_step.splits if_splits)

lemma parse_base_ty_wf: "wf_target tgt \<Longrightarrow> parse_base_ty tgt ts = Some (ty, ts') \<Longrightarrow> wf_cty ty"
  by (auto simp: parse_base_ty_def split: option.splits prod.splits sum.splits if_splits
      dest: resolve_specs_wf spec_loop_struct)

lemma parse_pointer_wf: "wf_cty base \<Longrightarrow> wf_cty (fst (parse_pointer base ts))"
  by (induction base ts rule: parse_pointer.induct) (subst parse_pointer.simps, simp)

lemma parse_declarator_wf: "wf_cty base \<Longrightarrow> parse_declarator base ts = Some (f, ts') \<Longrightarrow> wf_cty (field_ty f)"
  using parse_pointer_wf [of base ts]
  by (auto simp: parse_declarator_def split: prod.splits option.splits if_splits)

lemma declarator_loop_wf:
  "wf_cty base \<Longrightarrow> declarator_loop base ts = Some (fs, ts') \<Longrightarrow> \<forall>f \<in> set fs. wf_cty (field_ty f)"
proof (induction base ts arbitrary: fs ts' rule: declarator_loop.induct)
  case (1 base ts)
  from "1.prems"(2) show ?case
    using "1.IH" [OF _ refl _ "1.prems"(1)] parse_declarator_wf [OF "1.prems"(1)]
    by (subst (asm) declarator_loop.simps) (fastforce split: option.splits if_splits)
qed

lemma parse_member_wf:
  "wf_target tgt \<Longrightarrow> parse_member tgt ts = Some (fs, ts') \<Longrightarrow> \<forall>f \<in> set fs. wf_cty (field_ty f)"
  using parse_base_ty_wf [of tgt ts] declarator_loop_wf
  by (fastforce simp: parse_member_def split: option.splits)

lemma member_loop_wf:
  "wf_target tgt \<Longrightarrow> member_loop tgt ts = Some (fs, ts') \<Longrightarrow> \<forall>f \<in> set fs. wf_cty (field_ty f)"
proof (induction tgt ts arbitrary: fs ts' rule: member_loop.induct)
  case (1 tgt ts)
  from "1.prems"(2) show ?case
    using "1.IH" [OF _ _ refl "1.prems"(1)] parse_member_wf [OF "1.prems"(1)]
    by (subst (asm) member_loop.simps) (fastforce split: option.splits if_splits)
qed

section \<open>The program invariant\<close>

text \<open>Every table is keyed by the name its entry carries, and every struct field has one of the
  fragment's types.\<close>

definition program_ok :: "c_program \<Rightarrow> bool" where
  "program_ok p \<longleftrightarrow>
     (\<forall>n f. funcs p n = Some f \<longrightarrow> func_name f = n) \<and>
     (\<forall>n g. globals p n = Some g \<longrightarrow> global_name g = n) \<and>
     (\<forall>n d. structs p n = Some d \<longrightarrow> struct_name d = n) \<and>
     wf_structs (structs p)"

definition decl_ok :: "c_decl \<Rightarrow> bool" where
  "decl_ok d \<longleftrightarrow> (case d of DStruct tag fs \<Rightarrow> \<forall>f \<in> set fs. wf_cty (field_ty f) | _ \<Rightarrow> True)"

lemma register_ok: "decl_ok d \<Longrightarrow> program_ok p \<Longrightarrow> program_ok (register d p)"
  by (cases d) (auto simp: decl_ok_def program_ok_def register_def register_func_def register_global_def
      register_struct_def wf_structs_def split: option.split)

lemma read_declaration_ok: "wf_target tgt \<Longrightarrow> read_declaration tgt ts = Some d \<Longrightarrow> decl_ok d"
  by (auto simp: read_declaration_def struct_definition_def parse_function_def parse_object_def Let_def
      decl_ok_def split: if_splits option.splits prod.splits pres.splits dest: member_loop_wf)

lemma note_refused_tables [simp]:
  "funcs (note_refused u p) = funcs p" "globals (note_refused u p) = globals p"
  "structs (note_refused u p) = structs p"
  by (simp_all add: note_refused_def split: option.split)

lemma ingest_unit_ok: "wf_target tgt \<Longrightarrow> program_ok p \<Longrightarrow> program_ok (ingest_unit tgt p u)"
  using read_declaration_ok register_ok
  by (auto simp: ingest_unit_def parse_declaration_def split: option.split) (simp add: program_ok_def)

lemma foldl_invariant: "(\<And>p x. I p \<Longrightarrow> I (f p x)) \<Longrightarrow> I p \<Longrightarrow> I (foldl f p xs)"
  by (induction xs arbitrary: p) auto

lemma refused_only_ok [simp]: "program_ok (p\<lparr>refused := r\<rparr>) = program_ok p"
  by (simp add: program_ok_def)

lemma parse_translation_unit_ok:
  "wf_target tgt \<Longrightarrow> program_ok p \<Longrightarrow> program_ok (parse_translation_unit tgt src p)"
  by (auto simp: parse_translation_unit_def split: option.split
      intro!: foldl_invariant [where I = program_ok] ingest_unit_ok)

lemma ingest_file_ok: "wf_target tgt \<Longrightarrow> program_ok p \<Longrightarrow> program_ok (ingest_file rd tgt p path)"
  by (simp add: ingest_file_def parse_translation_unit_ok split: option.split)

lemma default_program_ok: "program_ok default_program"
  by (simp add: program_ok_def default_program_def wf_structs_def)

text \<open>C39: The registry is well formed. Whatever files the front-end is given, every function,
  object and struct it accepted is filed under its own name, and every struct field has a type of
  the fragment with a width the target model knows.\<close>

theorem init_program_ok:
  assumes "wf_target tgt"
  shows "program_ok (program (init rd paths tgt ffi_new))"
  unfolding program_def init_def ffi_new_def
  by (simp add: foldl_invariant [where I = program_ok] ingest_file_ok assms default_program_ok)

theorem init_program_ok_witness:
  "program_ok (program (init (\<lambda>p. Some (''struct S { int32_t a, *b; }; '' @ p)) [''int x = 3;''] lp64 ffi_new))"
  by (rule init_program_ok) (simp add: wf_target_def lp64_def)

section \<open>One declaration touches one name\<close>

definition decl_name :: "c_decl \<Rightarrow> string option" where
  "decl_name d =
     (case d of
        DNothing \<Rightarrow> None
      | DFunc f \<Rightarrow> Some (func_name f)
      | DGlobal g \<Rightarrow> Some (global_name g)
      | DStruct tag fs \<Rightarrow> Some tag)"

lemma register_frame:
  assumes "decl_name d \<noteq> Some n"
  shows "funcs (register d p) n = funcs p n" and "globals (register d p) n = globals p n"
    and "structs (register d p) n = structs p n" and "refused (register d p) n = refused p n"
  using assms by (cases d; auto simp: decl_name_def register_def register_func_def register_global_def
      register_struct_def split: option.split)+

text \<open>Refusals and registrations are per declaration. A top-level unit that the parser refuses
  leaves all three tables of the program as they were; one that it accepts changes them, and the
  table of refusals, at no name but the one it declares.\<close>

theorem ingest_unit_frame:
  "(case read_declaration tgt u of
      None \<Rightarrow> funcs (ingest_unit tgt p u) = funcs p \<and> globals (ingest_unit tgt p u) = globals p \<and>
              structs (ingest_unit tgt p u) = structs p
    | Some d \<Rightarrow> decl_name d = Some n \<or>
        funcs (ingest_unit tgt p u) n = funcs p n \<and> globals (ingest_unit tgt p u) n = globals p n \<and>
        structs (ingest_unit tgt p u) n = structs p n \<and> refused (ingest_unit tgt p u) n = refused p n)"
  by (auto simp: ingest_unit_def parse_declaration_def register_frame split: option.split)

section \<open>Repeated definitions\<close>

lemma register_func_twice:
  "funcs p (func_name f) = None \<Longrightarrow>
   funcs (register_func g (register_func f p)) (func_name f) =
     (if func_name g = func_name f then None else Some f)"
  by (simp add: register_func_def)

section \<open>Splitting\<close>

lemma split_loop_concat: "concat (split_loop cur brace paren ts) = rev cur @ ts"
  by (induction cur brace paren ts rule: split_loop.induct) auto

lemma split_loop_nonempty: "u \<in> set (split_loop cur brace paren ts) \<Longrightarrow> u \<noteq> []"
  by (induction cur brace paren ts rule: split_loop.induct) (auto split: if_splits)

text \<open>A complete declaration: read from the given depths, the splitter meets its boundary at the
  last token and not before, with all parentheses closed.\<close>

fun one_unit :: "int \<Rightarrow> int \<Rightarrow> tok list \<Rightarrow> bool" where
  "one_unit brace paren [] = False"
| "one_unit brace paren (t # ts) =
     (if is_punct t ''{'' then one_unit (brace + 1) paren ts
      else if is_punct t ''}'' then
        (if brace - 1 \<le> 0 then ts = [] \<and> paren = 0 else one_unit (brace - 1) paren ts)
      else if is_punct t ''('' then one_unit brace (paren + 1) ts
      else if is_punct t '')'' then one_unit brace (paren - 1) ts
      else if is_semi t \<and> brace = 0 \<and> paren = 0 then ts = []
      else one_unit brace paren ts)"

lemma split_loop_unit:
  "one_unit brace paren u \<Longrightarrow> split_loop cur brace paren (u @ ts) = (rev cur @ u) # split_loop [] 0 0 ts"
  by (induction brace paren u arbitrary: cur rule: one_unit.induct) (auto split: if_splits)

lemma split_loop_units: "list_all (one_unit 0 0) us \<Longrightarrow> split_loop [] 0 0 (concat us) = us"
  by (induction us) (auto simp: split_loop_unit)

lemma split_top_level_units:
  "list_all (one_unit 0 0) us \<Longrightarrow> split_top_level (concat us) = filter keep_unit us"
  by (simp add: split_top_level_def split_loop_units)

text \<open>Splitting. The units of a token list, with the ones that are only semicolons put back,
  are the token list: no token is dropped, duplicated or reordered. And a sequence of complete
  declarations is split into exactly these declarations.\<close>

theorem split_top_level_partition:
  "concat (split_loop [] 0 0 ts) = ts \<and>
   split_top_level ts = filter (list_ex (\<lambda>t. \<not> is_punct t '';'')) (split_loop [] 0 0 ts) \<and>
   (list_all (one_unit 0 0) us \<longrightarrow>
      split_top_level (concat us) = filter (list_ex (\<lambda>t. \<not> is_punct t '';'')) us)"
  using split_loop_concat [of "[]" 0 0 ts] split_top_level_units [of us]
  by (simp add: split_top_level_def keep_unit_def [abs_def] is_semi_def [abs_def])

theorem split_top_level_partition_witness:
  "split_top_level (concat [[TIdent ''int'', TIdent ''x'', TPunct '';''], [TPunct '';'']]) =
     [[TIdent ''int'', TIdent ''x'', TPunct '';'']]"
  using split_top_level_partition [of "[]" "[[TIdent ''int'', TIdent ''x'', TPunct '';''], [TPunct '';'']]"]
  by (simp add: is_punct_def is_semi_def)

text \<open>A parenthesis left open in front of one declaration reaches the next ones: the paren
  depth is not reset at a unit boundary, so after an unmatched closing parenthesis no semicolon ends
  a unit any more, and everything up to the next closing brace is one unit.\<close>

theorem paren_depth_leaks:
  assumes "list_all (\<lambda>t. \<not> is_punct t ''{'' \<and> \<not> is_punct t ''}'' \<and> \<not> is_punct t ''('' \<and> \<not> is_punct t '')'') ts"
    and "list_ex (\<lambda>t. \<not> is_semi t) ts"
  shows "split_top_level (TPunct '')'' # ts) = [TPunct '')'' # ts]"
proof -
  have "split_loop cur 0 (- 1) ts = (if rev cur @ ts = [] then [] else [rev cur @ ts])" for cur
    using assms(1) by (induction ts arbitrary: cur) auto
  then show ?thesis
    by (simp add: split_top_level_def keep_unit_def is_punct_def is_semi_def)
qed

theorem paren_depth_leaks_witness:
  "split_top_level [TPunct '')'', TIdent ''int'', TIdent ''x'', TPunct '';'', TIdent ''int'', TIdent ''y'', TPunct '';''] =
   [[TPunct '')'', TIdent ''int'', TIdent ''x'', TPunct '';'', TIdent ''int'', TIdent ''y'', TPunct '';'']]"
  by (rule paren_depth_leaks) (simp_all add: is_punct_def is_semi_def)

section \<open>The registry is set once\<close>

lemma init_once: "init rd' paths' tgt' (init rd paths tgt st) = init rd paths tgt st"
  by (simp add: init_def split: option.split)

lemma func_new: "func ffi_new symbol = None" "global ffi_new symbol = None"
  by (simp_all add: func_def global_def program_def ffi_new_def default_program_def)

end
