(* ===== verification/C_Unit.thy ===== *)
theory C_Unit
  imports C_Decl
begin

text \<open>
  The front-end as a whole: a file of declarations of the fragment, written out as text, is
  tokenized, split, parsed and registered declaration by declaration. This is where the tokenizer,
  the type, expression, statement and declaration parsers, the splitter and the registration meet.
\<close>

section \<open>Printing declarations\<close>

definition print_param :: "c_param \<Rightarrow> tok list" where
  "print_param p =
     print_ty (param_ty p) @ (case param_name p of None \<Rightarrow> [] | Some n \<Rightarrow> [TIdent n])"

fun print_params :: "c_param list \<Rightarrow> bool \<Rightarrow> tok list" where
  "print_params [] va = (if va then [TPunct ''...''] else [])"
| "print_params [p] va = print_param p @ (if va then [TPunct '','', TPunct ''...''] else [])"
| "print_params (p # q # ps) va = print_param p @ TPunct '','' # print_params (q # ps) va"

definition print_field :: "c_field \<Rightarrow> tok list" where
  "print_field f = print_ty (field_ty f) @ [TIdent (field_name f), TPunct '';'']"

definition print_init :: "int option \<Rightarrow> tok list" where
  "print_init v =
     (case v of
        None \<Rightarrow> []
      | Some i \<Rightarrow> TPunct ''='' # (if i < 0 then [TPunct ''-'', TNum (- i) False] else [TNum i False]))"

definition print_decl :: "c_decl \<Rightarrow> tok list" where
  "print_decl d =
     (case d of
        DNothing \<Rightarrow> [TIdent ''struct'', TIdent ''opaque'', TPunct '';'']
      | DFunc f \<Rightarrow>
          print_ty (ret f) @ TIdent (func_name f) # TPunct ''('' #
          print_params (params f) (variadic f) @ TPunct '')'' # print_stmt (body f)
      | DGlobal g \<Rightarrow>
          print_ty (global_ty g) @ TIdent (global_name g) # print_init (global_init g) @ [TPunct '';'']
      | DStruct tag fs \<Rightarrow>
          TIdent ''struct'' # TIdent tag # TPunct ''{'' # concat (map print_field fs) @ [TPunct ''}''])"

definition printable_param :: "c_param \<Rightarrow> bool" where
  "printable_param p \<longleftrightarrow>
     printable_ty (param_ty p) \<and> (case param_name p of None \<Rightarrow> True | Some n \<Rightarrow> local_name n)"

definition printable_field :: "c_field \<Rightarrow> bool" where
  "printable_field f \<longleftrightarrow> printable_ty (field_ty f) \<and> local_name (field_name f)"

definition mentions_extern :: "tok list \<Rightarrow> bool" where
  "mentions_extern = list_ex (\<lambda>t. tok_ident t = Some ''extern'')"

definition printable_decl :: "c_decl \<Rightarrow> bool" where
  "printable_decl d \<longleftrightarrow>
     (case d of
        DNothing \<Rightarrow> True
      | DFunc f \<Rightarrow>
          printable_ty (ret f) \<and> local_name (func_name f) \<and> list_all printable_param (params f) \<and>
          (\<not> variadic f \<longrightarrow> params f \<noteq> [\<lparr>param_name = None, param_ty = CVoid\<rparr>]) \<and>
          (case body f of SCompound ss \<Rightarrow> list_all printable_stmt ss | _ \<Rightarrow> False)
      | DGlobal g \<Rightarrow>
          printable_ty (global_ty g) \<and> local_name (global_name g) \<and>
          \<not> mentions_extern (print_ty (global_ty g)) \<and>
          (case global_init g of None \<Rightarrow> True | Some i \<Rightarrow> i128_min < i \<and> i \<le> i128_max)
      | DStruct tag fs \<Rightarrow> wf_ident tag \<and> list_all printable_field fs)"

section \<open>Declarations are read back\<close>

lemma local_name_simps:
  "local_name w \<Longrightarrow> wf_ident w" "local_name w \<Longrightarrow> type_stop (TIdent w # ts)"
  by (simp_all add: local_name_def)

lemma parse_param_print:
  assumes "printable_param p" and "q \<in> {'','', '')''}"
  shows "parse_param tgt (print_param p @ TPunct q # rest) = Some (p, TPunct q # rest)"
  using assms
  by (cases p; cases "param_name p")
    (auto simp: parse_param_def print_param_def printable_param_def parse_type_name_print
      local_name_def param_tail_def)

lemma param_start_not_dots:
  "printable_param p \<Longrightarrow> \<not> at_punct ''...'' (print_param p @ rest) \<and> \<not> at_punct '')'' (print_param p @ rest)"
  using print_ty_type_word [of "param_ty p"] by (auto simp: printable_param_def print_param_def)

lemma param_loop_print:
  assumes "list_all printable_param ps" and "ps \<noteq> [] \<or> va"
  shows "param_loop tgt (print_params ps va @ TPunct '')'' # rest) = Some ((ps, va), TPunct '')'' # rest)"
  using assms
proof (induction ps va rule: print_params.induct)
  case (1 va)
  then show ?case by (subst param_loop.simps) simp
next
  case (2 p va)
  have dots: "param_loop tgt (TPunct ''...'' # TPunct '')'' # rest) = Some (([], True), TPunct '')'' # rest)"
    by (subst param_loop.simps) simp
  from 2 show ?case
    by (subst param_loop.simps) (cases va; simp add: param_start_not_dots parse_param_print dots)
next
  case (3 p q ps va)
  then show ?case
    by (subst param_loop.simps) (simp add: param_start_not_dots parse_param_print)
qed

text \<open>A parameter list that prints as the lone word \<open>void\<close> is the unnamed void parameter.\<close>

lemma print_ty_void: "print_ty ty = TIdent ''void'' # r \<Longrightarrow> printable_ty ty \<Longrightarrow> r = [] \<Longrightarrow> ty = CVoid"
  by (cases ty) (auto simp: int_name_def split: if_splits)

lemma print_params_void:
  assumes "list_all printable_param ps" and "print_params ps va = [TIdent ''void'']"
  shows "ps = [\<lparr>param_name = None, param_ty = CVoid\<rparr>] \<and> \<not> va"
proof (cases "(ps, va)" rule: print_params.cases)
  case (2 p va')
  then show ?thesis
    using assms print_ty_type_word [of "param_ty p"]
    by (cases p) (auto simp: print_param_def printable_param_def dest: print_ty_void
        split: option.splits if_splits)
next
  case (3 p q ps va')
  then show ?thesis
    using assms print_ty_type_word [of "param_ty p"]
    by (auto simp: print_param_def printable_param_def)
qed (use assms in \<open>auto split: if_splits\<close>)

lemma print_params_no_close:
  "list_all printable_param ps \<Longrightarrow> ps \<noteq> [] \<or> va \<Longrightarrow> \<not> at_punct '')'' (print_params ps va @ rest)"
  using param_start_not_dots by (cases "(ps, va)" rule: print_params.cases) auto

text \<open>Tokens the splitter passes over at every depth.\<close>

definition flat :: "tok \<Rightarrow> bool" where
  "flat t \<longleftrightarrow> (case t of TPunct p \<Rightarrow> p \<notin> {''{'', ''}'', ''('', '')'', '';''} | _ \<Rightarrow> True)"

lemma flat_simps [simp]:
  "flat (TIdent w)" "flat (TNum v u)" "flat (TPunct p) = (p \<notin> {''{'', ''}'', ''('', '')'', '';''})"
  by (simp_all add: flat_def)

lemma flat_print_ty [simp]: "list_all flat (print_ty ty)"
  by (induction ty) auto

lemma flat_print_param [simp]: "list_all flat (print_param p)"
  by (auto simp: print_param_def split: option.split)

lemma flat_print_params [simp]: "list_all flat (print_params ps va)"
  by (induction ps va rule: print_params.induct) auto

lemma flat_print_init [simp]: "list_all flat (print_init v)"
  by (auto simp: print_init_def split: option.split)

lemma parse_params_print:
  assumes "list_all printable_param ps"
    and "\<not> va \<longrightarrow> ps \<noteq> [\<lparr>param_name = None, param_ty = CVoid\<rparr>]"
  shows "parse_params tgt (print_params ps va @ TPunct '')'' # rest) = Some ((ps, va), TPunct '')'' # rest)"
proof (cases "ps \<noteq> [] \<or> va")
  case True
  let ?T = "print_params ps va"
  note open_list = print_params_no_close [OF assms(1) True]
  have "\<not> (peek_ident (?T @ TPunct '')'' # rest) = Some ''void'' \<and> at_punct '')'' (drop 1 (?T @ TPunct '')'' # rest)))"
  proof
    assume void: "peek_ident (?T @ TPunct '')'' # rest) = Some ''void'' \<and>
      at_punct '')'' (drop 1 (?T @ TPunct '')'' # rest))"
    obtain t T' where T: "?T = t # T'"
      using open_list [of "[TPunct '')'']"] by (cases ?T) auto
    have "T' = []"
      using void T flat_print_params [of ps va] by (cases T') (auto simp: at_punct_def peek_def is_punct_def
          flat_def split: tok.splits)
    moreover have "t = TIdent ''void''"
      using void T by (cases t) auto
    ultimately show False
      using print_params_void [OF assms(1), of va] T assms(2) by simp
  qed
  then show ?thesis
    using open_list param_loop_print [OF assms(1) True] by (auto simp: parse_params_def)
qed (simp add: parse_params_def)

lemma parse_function_print:
  assumes "printable_decl (DFunc f)"
  shows "parse_function tgt (ret f) (func_name f)
    (print_params (params f) (variadic f) @ TPunct '')'' # print_stmt (body f)) = Some (DFunc f)"
proof -
  obtain ss where bd: "body f = SCompound ss" and ss: "list_all printable_stmt ss"
    using assms by (auto simp: printable_decl_def split: c_stmt.splits)
  have "parse_body tgt (TPunct ''{'' # print_stmts ss) = Parsed (SCompound ss) []"
    using reads_print_stmt(2) [OF ss, of tgt "[]"] by (simp add: parse_body_the parse_compound_def expecting_def)
  moreover have "parse_params tgt (print_params (params f) (variadic f) @ TPunct '')'' # r) =
      Some ((params f, variadic f), TPunct '')'' # r)" for r
    using assms by (intro parse_params_print) (auto simp: printable_decl_def)
  ultimately show ?thesis
    using bd by (simp add: parse_function_def expect_punct_def)
qed

text \<open>A declaration that starts with a type and a name is not taken for a struct definition.\<close>

lemma print_ty_struct:
  assumes "printable_ty ty" and "peek_ident (print_ty ty @ q) = Some ''struct''"
  shows "\<exists>tag. print_ty ty = TIdent ''struct'' # TIdent tag # replicate (star_depth ty) (TPunct ''*'')"
proof -
  have "peek_ident (print_ty (base_of ty) @ q') = Some ''struct'' \<Longrightarrow> \<exists>tag. base_of ty = CStruct tag" for q'
    using base_of_not_ptr [of ty] by (cases "base_of ty") (auto simp: int_name_def split: if_splits)
  from this [of "replicate (star_depth ty) (TPunct ''*'') @ q"]
  have "\<exists>tag. base_of ty = CStruct tag"
    using assms(2) print_ty_base [of ty] by simp
  then show ?thesis
    using print_ty_base [of ty] by auto
qed

lemma print_ty_not_struct_def:
  assumes "printable_ty ty"
  shows "\<not> (peek_ident (print_ty ty @ TIdent w # r) = Some ''struct'' \<and>
    (at_punct ''{'' (drop 2 (print_ty ty @ TIdent w # r)) \<or> at_punct '';'' (drop 2 (print_ty ty @ TIdent w # r))))"
  using print_ty_struct [OF assms, of "TIdent w # r"] by (cases "star_depth ty") auto

lemma read_object_start:
  assumes "printable_ty ty" and "local_name w"
  shows "read_declaration tgt (print_ty ty @ TIdent w # r) =
    (if at_punct ''('' r then parse_function tgt ty w (tl r)
     else parse_object tgt (mentions_extern (print_ty ty @ TIdent w # r)) ty w r)"
proof -
  have "parse_type_name tgt (print_ty ty @ TIdent w # r) = Some (ty, TIdent w # r)"
    using assms by (intro parse_type_name_print) (auto simp: local_name_def)
  then show ?thesis
    using print_ty_not_struct_def [OF assms(1), of w r]
    by (auto simp: read_declaration_def mentions_extern_def Let_def)
qed

lemma parse_init_print:
  assumes "case v of None \<Rightarrow> True | Some i \<Rightarrow> i128_min < i \<and> i \<le> i128_max"
  shows "parse_initializer tgt (print_init v @ [TPunct '';'']) = Some (v, [TPunct '';''])"
proof (cases v)
  case None
  then show ?thesis by (simp add: parse_initializer_def print_init_def)
next
  case (Some i)
  let ?e = "if i < 0 then Unary Neg (IntLit (- i) False) else IntLit i False"
  have range: "i128_min < i" "i \<le> i128_max" using assms Some by auto
  have "parse_expr tgt (print_expr 0 ?e @ [TPunct '';'']) = Parsed ?e [TPunct '';'']"
    using range by (intro parse_expr_print) (auto simp: i128_min_def i128_max_def)
  moreover have "const_fold ?e = Some i"
    using range by (auto simp: fold_unary_def checked_neg_def in_i128_def)
  ultimately show ?thesis
    using Some by (auto simp: parse_initializer_def print_init_def wrap_def split: if_splits)
qed

lemma parse_object_print:
  assumes "printable_decl (DGlobal g)"
  shows "parse_object tgt False (global_ty g) (global_name g) (print_init (global_init g) @ [TPunct '';'']) =
    Some (DGlobal g)"
  using parse_init_print [of "global_init g" tgt] assms
  by (simp add: parse_object_def expect_punct_def printable_decl_def)

lemma declarator_print:
  assumes "printable_field f"
  shows "parse_member tgt (print_field f @ rest) = Some ([f], rest)"
proof -
  let ?r = "TIdent (field_name f) # TPunct '';'' # rest"
  have stop: "type_stop ?r" using assms by (simp add: printable_field_def local_name_def)
  have "parse_base_ty tgt (print_ty (field_ty f) @ ?r) =
      Some (base_of (field_ty f), replicate (star_depth (field_ty f)) (TPunct ''*'') @ ?r)"
    using assms stop by (intro parse_base_stars) (auto simp: printable_field_def)
  moreover have "declarator_loop (base_of (field_ty f)) (replicate (star_depth (field_ty f)) (TPunct ''*'') @ ?r) =
      Some ([f], TPunct '';'' # rest)"
    using parse_pointer_stars [OF stop, of "base_of (field_ty f)" "star_depth (field_ty f)"]
    by (subst declarator_loop.simps) (cases f; simp add: parse_declarator_def stars_base)
  ultimately show ?thesis
    by (simp add: parse_member_def print_field_def expect_punct_def)
qed

lemma print_field_open: "printable_field f \<Longrightarrow> \<not> at_punct ''}'' (print_field f @ rest)"
  using print_ty_type_word [of "field_ty f"] by (auto simp: printable_field_def print_field_def)

lemma member_loop_print:
  "list_all printable_field fs \<Longrightarrow>
   member_loop tgt (concat (map print_field fs) @ TPunct ''}'' # rest) = Some (fs, rest)"
proof (induction fs)
  case Nil
  show ?case by (subst member_loop.simps) simp
next
  case (Cons f fs)
  then show ?case
    by (subst member_loop.simps) (simp add: declarator_print print_field_open)
qed

text \<open>Every declaration of the fragment is read back from its tokens.\<close>

lemma read_declaration_print:
  assumes "printable_decl d"
  shows "read_declaration tgt (print_decl d) = Some d"
proof (cases d)
  case DNothing
  then show ?thesis by (simp add: read_declaration_def print_decl_def)
next
  case (DFunc f)
  then show ?thesis
    using assms parse_function_print [of f tgt]
    by (simp add: print_decl_def read_object_start printable_decl_def)
next
  case (DGlobal g)
  have "\<not> mentions_extern (print_decl d)"
    using assms DGlobal by (auto simp: printable_decl_def print_decl_def mentions_extern_def local_name_def
        print_init_def tok_ident_def split: option.splits)
  moreover have "\<not> at_punct ''('' (print_init v @ [TPunct '';''])" for v
    by (simp add: print_init_def split: option.split)
  ultimately show ?thesis
    using assms DGlobal parse_object_print [of g tgt]
    by (simp add: print_decl_def read_object_start printable_decl_def)
next
  case (DStruct tag fs)
  then show ?thesis
    using assms member_loop_print [of fs tgt "[]"]
    by (simp add: read_declaration_def print_decl_def printable_decl_def struct_definition_def
        expect_punct_def eat_punct_def)
qed

section \<open>Declarations are split at their ends\<close>

text \<open>\<open>nested b ts\<close>: the splitter, at brace depth at least \<open>b\<close>, walks over \<open>ts\<close> and is back
  at the same depths.\<close>

definition nested :: "int \<Rightarrow> tok list \<Rightarrow> bool" where
  "nested b ts \<longleftrightarrow> (\<forall>brace paren rest. b \<le> brace \<longrightarrow> one_unit brace paren (ts @ rest) = one_unit brace paren rest)"

lemma nested_Nil [simp]: "nested b []"
  by (simp add: nested_def)

lemma nested_append [simp]: "nested b ts \<Longrightarrow> nested b (ts @ us) = nested b us"
  by (simp add: nested_def)

lemma one_unit_flat: "flat t \<Longrightarrow> one_unit brace paren (t # ts) = one_unit brace paren ts"
  by (auto simp: flat_def is_punct_def is_semi_def split: tok.splits)

lemma nested_Cons_flat [simp]: "flat t \<Longrightarrow> nested b (t # ts) = nested b ts"
  by (simp add: nested_def one_unit_flat del: one_unit.simps)

lemma nested_flat: "list_all flat ts \<Longrightarrow> nested b ts"
  by (induction ts) simp_all

lemma nested_print_ty [simp]: "nested b (print_ty ty)"
  by (simp add: nested_flat)

lemma nested_semi [simp]: "nested 1 (TPunct '';'' # ts) = nested 1 ts"
  by (simp add: nested_def is_punct_def is_semi_def)

lemma nested_paren: "nested b ts \<Longrightarrow> nested b (TPunct ''('' # ts @ TPunct '')'' # us) = nested b us"
  by (simp add: nested_def is_punct_def is_semi_def)

lemma nested_wrap [simp]: "nested b ts \<Longrightarrow> nested b (wrap l level ts)"
  using nested_paren [of b ts "[]"] by (simp add: wrap_def)

lemma flat_syms: "flat (TPunct (bin_sym op))" "flat (TPunct (un_sym uop))"
  by (cases op; simp) (cases uop; simp)

lemma flat_assign_sym: "flat (TPunct (assign_sym op))"
proof (cases op)
  case (Some b)
  then show ?thesis by (cases b) (simp_all add: assign_sym_def)
qed (simp add: assign_sym_def)

lemmas nested_op = nested_Cons_flat [OF flat_syms(1)] nested_Cons_flat [OF flat_syms(2)]
  nested_Cons_flat [OF flat_assign_sym]

lemma nested_print_expr:
  "nested b (print_expr l e)"
  "b \<le> brace \<Longrightarrow> one_unit brace paren (print_args es @ rest) = one_unit brace paren (TPunct '')'' # rest)"
proof (induction l e and es arbitrary: and brace paren rest rule: print_expr_print_args.induct)
  case (9 l f args)
  then show ?case
    by (auto simp: nested_def is_punct_def is_semi_def)
next
  case (17 e)
  then show ?case by (simp add: nested_def)
next
  case (18 e e' es)
  then show ?case by (simp add: nested_def is_punct_def is_semi_def)
next
  case (10 l ap name)
  show ?case using nested_paren [of b "[TIdent ap, TPunct '','', TIdent name]" "[]"] by simp
next
  case (11 l ap ty)
  show ?case using nested_paren [of b "TIdent ap # TPunct '','' # print_ty ty" "[]"] by simp
next
  case (12 l ap)
  show ?case using nested_paren [of b "[TIdent ap]" "[]"] by simp
qed (simp_all add: Let_def nested_op nested_paren [of _ "print_ty ty" for ty])

lemma nested_print_opt [simp]: "nested b (print_opt e)"
  by (simp add: print_opt_def nested_print_expr(1) split: option.split)

lemma nested_print_stmt:
  "nested 1 (print_stmt s)"
  "1 \<le> brace \<Longrightarrow> one_unit brace paren (print_stmts ss @ rest) = one_unit brace paren (TPunct ''}'' # rest)"
proof (induction s and ss arbitrary: and brace paren rest rule: print_stmt_print_stmts.induct)
  case (2 ss)
  then show ?case
    by (auto simp: nested_def is_punct_def is_semi_def)
next
  case (9 c step bd)
  then show ?case
    using nested_paren [of 1 "TPunct '';'' # print_opt c @ TPunct '';'' # print_opt step" "print_stmt bd"] by simp
next
  case (10 init c step bd)
  then show ?case
    using nested_paren [of 1 "print_stmt init @ print_opt c @ TPunct '';'' # print_opt step" "print_stmt bd"] by simp
next
  case (12 s ss)
  then show ?case by (simp add: nested_def)
qed (simp_all add: nested_print_expr(1) nested_paren)

lemma nested_skip: "nested brace ts \<Longrightarrow> one_unit brace paren (ts @ rest) = one_unit brace paren rest"
  by (simp add: nested_def)

lemma nested_fields: "nested 1 (concat (map print_field fs))"
  by (induction fs) (simp_all add: print_field_def)

lemma one_unit_simps:
  "one_unit brace paren (TIdent w # ts) = one_unit brace paren ts"
  "one_unit brace paren (TPunct ''('' # ts) = one_unit brace (paren + 1) ts"
  "one_unit brace paren (TPunct '')'' # ts) = one_unit brace (paren - 1) ts"
  "one_unit brace paren (TPunct ''{'' # ts) = one_unit (brace + 1) paren ts"
  "one_unit 1 0 [TPunct ''}'']" "one_unit 0 0 [TPunct '';'']"
  by (simp_all add: is_punct_def is_semi_def)

lemma one_unit_decl:
  assumes "printable_decl d"
  shows "one_unit 0 0 (print_decl d)"
proof (cases d)
  case (DFunc f)
  then obtain ss where "body f = SCompound ss"
    using assms by (auto simp: printable_decl_def split: c_stmt.splits)
  then show ?thesis
    using DFunc nested_print_stmt(2) [of 1 0 ss "[]"]
    by (simp add: print_decl_def nested_skip nested_flat one_unit_simps del: one_unit.simps)
next
  case (DStruct tag fs)
  then show ?thesis
    using nested_skip [OF nested_fields [of fs], of 0 "[TPunct ''}'']"]
    by (simp add: print_decl_def one_unit_simps del: one_unit.simps)
next
  case (DGlobal g)
  then show ?thesis
    by (simp add: print_decl_def nested_skip nested_flat one_unit_simps del: one_unit.simps)
qed (simp add: print_decl_def is_punct_def is_semi_def)

lemma keep_unit_decl: "printable_decl d \<Longrightarrow> keep_unit (print_decl d)"
  by (cases d) (auto simp: keep_unit_def print_decl_def is_semi_def is_punct_def)

section \<open>The front-end round trip\<close>

lemma wf_print_params: "list_all printable_param ps \<Longrightarrow> list_all wf_tok (print_params ps va)"
  by (induction ps va rule: print_params.induct)
    (auto simp: print_param_def printable_param_def wf_print_ty local_name_def PUNCTS_def split: option.splits)

lemma wf_print_fields: "list_all printable_field fs \<Longrightarrow> list_all wf_tok (concat (map print_field fs))"
  by (induction fs) (auto simp: print_field_def printable_field_def wf_print_ty local_name_def)

lemma wf_print_decl: "printable_decl d \<Longrightarrow> list_all wf_tok (print_decl d)"
proof (cases d)
  case DNothing
  then show ?thesis
    by (simp add: print_decl_def wf_ident_def is_ident_start_def is_ident_byte_def is_ascii_alphabetic_def byte_def)
next
  case (DFunc f)
  then show "printable_decl d \<Longrightarrow> ?thesis"
    by (auto simp: printable_decl_def print_decl_def wf_print_ty wf_print_params wf_print_stmt local_name_def
        split: c_stmt.splits)
next
  case (DGlobal g)
  then show "printable_decl d \<Longrightarrow> ?thesis"
    by (auto simp: printable_decl_def print_decl_def wf_print_ty local_name_def print_init_def
        i128_min_def i128_max_def PUNCTS_def split: option.splits)
next
  case (DStruct tag fs)
  then show "printable_decl d \<Longrightarrow> ?thesis"
    by (simp add: printable_decl_def print_decl_def wf_print_fields)
qed

text \<open>C25: Round trip of the front-end. A file of function definitions, objects, struct
  definitions and forward declarations of the fragment, written out as text, is ingested as exactly
  these declarations in their order: nothing is refused, dropped, merged or misread.\<close>

theorem front_end_roundtrip:
  assumes "list_all printable_decl ds"
  shows "parse_translation_unit tgt (render_toks (concat (map print_decl ds))) out =
    foldl (\<lambda>p d. register d p) out ds"
proof -
  have "tokenize (render_toks (concat (map print_decl ds))) = Some (concat (map print_decl ds))"
    using assms unfolding tokenize_def
    by (intro tokenize_from_render) (induction ds, auto simp: wf_print_decl)
  moreover have "split_top_level (concat (map print_decl ds)) = map print_decl ds"
    using split_top_level_units [of "map print_decl ds"] assms
    by (simp add: list_all_iff one_unit_decl keep_unit_decl filter_id_conv)
  moreover have "foldl (ingest_unit tgt) out (map print_decl ds) = foldl (\<lambda>p d. register d p) out ds"
    using assms by (induction ds arbitrary: out)
      (simp_all add: ingest_unit_def parse_declaration_def read_declaration_print)
  ultimately show ?thesis
    by (simp add: parse_translation_unit_def)
qed

text \<open>\<open>struct P { uint8_t * a; } int32_t g = - 5; int32_t f ( struct P x, ... ) { return g; }\<close>\<close>

definition sample_func :: c_func where
  "sample_func =
     \<lparr>func_name = ''f'', ret = CInt 32 True, params = [\<lparr>param_name = Some ''x'', param_ty = CStruct ''P''\<rparr>],
      variadic = True, body = SCompound [SReturn (Some (Ident ''g''))]\<rparr>"

definition sample_decls :: "c_decl list" where
  "sample_decls =
     [DStruct ''P'' [\<lparr>field_name = ''a'', field_ty = CPtr (CInt 8 False)\<rparr>],
      DGlobal \<lparr>global_name = ''g'', global_ty = CInt 32 True, global_init = Some (- 5)\<rparr>,
      DFunc sample_func]"

lemmas name_eval = local_name_def plain_name_def wf_ident_def is_ident_start_def is_ident_byte_def
  is_ascii_alphabetic_def is_ascii_digit_def byte_def is_type_word_def keyword_simps reserved_primary_def

lemma sample_decls_printable: "list_all printable_decl sample_decls"
  by (simp add: sample_decls_def sample_func_def printable_decl_def printable_field_def printable_param_def
      printable_opt_def name_eval mentions_extern_def tok_ident_def int_name_def i128_min_def i128_max_def)

theorem front_end_roundtrip_witness:
  "parse_translation_unit lp64 (render_toks (concat (map print_decl sample_decls))) default_program =
     foldl (\<lambda>p d. register d p) default_program sample_decls \<and>
   funcs (foldl (\<lambda>p d. register d p) default_program sample_decls) ''f'' = Some sample_func"
  using front_end_roundtrip [OF sample_decls_printable, of lp64 default_program]
  by (simp add: sample_decls_def sample_func_def register_def register_func_def register_global_def
      register_struct_def default_program_def)

section \<open>Repeated definitions\<close>

text \<open>Definitions cancel in pairs. After a function symbol has been defined \<open>n\<close> times in a
  row it is registered exactly when \<open>n\<close> is odd: the second definition withdraws it, and a third
  one registers it again.\<close>

theorem redefinition_parity:
  assumes "read_declaration tgt u = Some (DFunc f)" and "funcs p (func_name f) = None"
  shows "funcs (foldl (ingest_unit tgt) p (replicate n u)) (func_name f) = (if odd n then Some f else None)"
proof (induction n)
  case (Suc n)
  have "foldl (ingest_unit tgt) p (replicate (Suc n) u) =
      ingest_unit tgt (foldl (ingest_unit tgt) p (replicate n u)) u"
    by (metis foldl_Cons foldl_Nil foldl_append replicate_Suc replicate_append_same)
  moreover have "ingest_unit tgt q u = register_func f q" for q
    using assms(1) by (simp add: ingest_unit_def parse_declaration_def register_def)
  ultimately show ?case
    using Suc by (simp add: register_func_def del: replicate_Suc)
qed (simp add: assms(2))

theorem redefinition_parity_witness:
  "funcs (foldl (ingest_unit lp64) default_program (replicate 3 (print_decl (DFunc sample_func)))) ''f'' =
     Some sample_func \<and>
   funcs (foldl (ingest_unit lp64) default_program (replicate 2 (print_decl (DFunc sample_func)))) ''f'' = None"
proof -
  have read: "read_declaration lp64 (print_decl (DFunc sample_func)) = Some (DFunc sample_func)"
    using sample_decls_printable by (intro read_declaration_print) (simp add: sample_decls_def)
  have fresh: "funcs default_program (func_name sample_func) = None"
    by (simp add: default_program_def)
  show ?thesis
    using redefinition_parity [OF read fresh, of 3] redefinition_parity [OF read fresh, of 2]
    by (simp add: sample_func_def)
qed

end
