(* ===== verification/BTree.thy ===== *)
theory BTree
  imports Prelude "HOL-Library.Char_ord" "HOL-Library.List_Lexorder"
begin

text \<open>
  Rust's \<open>BTreeMap\<close> as an association list in key order, with the operations the driver uses:
  \<open>get\<close>, \<open>insert\<close>, \<open>entry(k).or_default()\<close> followed by an update,
  \<open>collect\<close> from an iterator of pairs, and iteration.  String keys are ordered as byte strings,
  as in Rust.  The laws a client relies on are the locale \<open>keyed_map\<close>; the association list is
  its interpretation.
\<close>

section \<open>The interface\<close>

locale keyed_map =
  fixes empty :: 'm
    and get :: "'m \<Rightarrow> 'k \<Rightarrow> 'v option"
    and put :: "'k \<Rightarrow> 'v \<Rightarrow> 'm \<Rightarrow> 'm"
  assumes get_empty: "get empty k = None"
    and get_put: "get (put k v m) j = (if j = k then Some v else get m j)"
begin

definition collected :: "('k \<times> 'v) list \<Rightarrow> 'm" where
  "collected xs = fold (\<lambda>(k, v). put k v) xs empty"

lemma get_fold_put: "get (fold (\<lambda>(k, v). put k v) xs m) j =
    (case map_of (rev xs) j of Some v \<Rightarrow> Some v | None \<Rightarrow> get m j)"
  by (induction xs arbitrary: m) (auto simp: get_put map_of_append map_add_def split: option.splits)

lemma get_collected: "get (collected xs) j = map_of (rev xs) j"
  by (simp add: collected_def get_fold_put get_empty split: option.splits)

lemma get_collected_one:
  assumes "(k, v) \<in> set xs" "\<And>w. (k, w) \<in> set xs \<Longrightarrow> w = v"
  shows "get (collected xs) k = Some v"
proof -
  from assms(1) have "map_of (rev xs) k \<noteq> None"
    by (auto simp: map_of_eq_None_iff image_iff intro!: bexI [of _ "(k, v)"])
  then obtain w where "map_of (rev xs) k = Some w"
    by blast
  with assms(2) show ?thesis
    by (auto simp: get_collected dest: map_of_SomeD)
qed

lemma get_collected_none: "k \<notin> fst ` set xs \<Longrightarrow> get (collected xs) k = None"
  by (simp add: get_collected map_of_eq_None_iff)

lemma get_collected_last: "get (collected (xs @ [(k, v)])) k = Some v"
  by (simp add: get_collected)

end

section \<open>Sorted association lists\<close>

type_synonym ('k, 'v) btree = "('k \<times> 'v) list"

abbreviation bt_get :: "('k, 'v) btree \<Rightarrow> 'k \<Rightarrow> 'v option" where
  "bt_get \<equiv> map_of"

fun bt_insert :: "'k::linorder \<Rightarrow> 'v \<Rightarrow> ('k, 'v) btree \<Rightarrow> ('k, 'v) btree" where
  "bt_insert k v [] = [(k, v)]"
| "bt_insert k v ((a, b) # m) =
     (if k = a then (k, v) # m else if k < a then (k, v) # (a, b) # m else (a, b) # bt_insert k v m)"

definition bt_get_or :: "'v \<Rightarrow> ('k, 'v) btree \<Rightarrow> 'k \<Rightarrow> 'v" where
  "bt_get_or d m k = (case bt_get m k of None \<Rightarrow> d | Some v \<Rightarrow> v)"

definition bt_update :: "'k::linorder \<Rightarrow> 'v \<Rightarrow> ('v \<Rightarrow> 'v) \<Rightarrow> ('k, 'v) btree \<Rightarrow> ('k, 'v) btree" where
  "bt_update k d f m = bt_insert k (f (bt_get_or d m k)) m"

definition bt_collect :: "('k::linorder \<times> 'v) list \<Rightarrow> ('k, 'v) btree" where
  "bt_collect xs = fold (\<lambda>(k, v). bt_insert k v) xs []"

definition bt_wf :: "('k::linorder, 'v) btree \<Rightarrow> bool" where
  "bt_wf m \<longleftrightarrow> sorted_wrt (<) (map fst m)"

lemma bt_get_insert [simp]: "bt_get (bt_insert k v m) j = (if j = k then Some v else bt_get m j)"
  by (induction k v m rule: bt_insert.induct) auto

lemma bt_keys_insert [simp]: "fst ` set (bt_insert k v m) = insert k (fst ` set m)"
  by (induction k v m rule: bt_insert.induct) auto

lemma bt_wf_insert [simp, intro]: "bt_wf m \<Longrightarrow> bt_wf (bt_insert k v m)"
proof (induction k v m rule: bt_insert.induct)
  case (2 k v a b m)
  have "\<forall>x \<in> fst ` set (bt_insert k v m). a < x" if "a < k" "\<forall>x \<in> fst ` set m. a < x"
    using that by simp
  with 2 show ?case
    by (auto simp: bt_wf_def)
qed (simp add: bt_wf_def)

lemma bt_wf_Nil [simp]: "bt_wf []"
  by (simp add: bt_wf_def)

lemma bt_insert_nonempty [simp]: "bt_insert k v m \<noteq> []"
  by (cases m) (auto split: if_splits)

lemma bt_wf_distinct: "bt_wf m \<Longrightarrow> distinct (map fst m)"
  by (simp add: bt_wf_def strict_sorted_iff)

interpretation bt: keyed_map "[] :: ('k::linorder, 'v) btree" bt_get bt_insert
  by unfold_locales simp_all

lemma bt_collected [simp]: "bt.collected xs = bt_collect xs"
  by (simp add: bt.collected_def bt_collect_def)

lemmas bt_get_collect = bt.get_collected [unfolded bt_collected]
lemmas bt_get_collect_one = bt.get_collected_one [unfolded bt_collected]
lemmas bt_get_collect_none = bt.get_collected_none [unfolded bt_collected]

lemma bt_wf_fold: "bt_wf m \<Longrightarrow> bt_wf (fold (\<lambda>(k, v). bt_insert k v) xs m)"
  by (induction xs arbitrary: m) auto

lemma bt_wf_collect [simp]: "bt_wf (bt_collect xs)"
  by (simp add: bt_collect_def bt_wf_fold)

lemma bt_get_update [simp]:
  "bt_get (bt_update k d f m) j = (if j = k then Some (f (bt_get_or d m k)) else bt_get m j)"
  by (simp add: bt_update_def)

lemma bt_get_or_update [simp]:
  "bt_get_or d (bt_update k d f m) j = (if j = k then f (bt_get_or d m k) else bt_get_or d m j)"
  by (simp add: bt_get_or_def [of _ _ j])

lemma bt_wf_update [simp, intro]: "bt_wf m \<Longrightarrow> bt_wf (bt_update k d f m)"
  by (simp add: bt_update_def)

lemma bt_get_iff: "bt_wf m \<Longrightarrow> bt_get m k = Some v \<longleftrightarrow> (k, v) \<in> set m"
  by (simp add: bt_wf_distinct)

end
