(* ===== verification/Text.thy ===== *)
theory Text
  imports Prelude "HOL-Library.Sublist"
begin

text \<open>
  The parts of Rust's string library that the driver calls, on byte strings: decimal printing and
  parsing of \<open>usize\<close>, \<open>strip_suffix\<close>, \<open>ends_with\<close>, \<open>contains\<close>,
  \<open>rsplit_once\<close>, \<open>join\<close>, \<open>lines\<close> and \<open>trim\<close>.  Counters are printed by
  one component and parsed by another, so the round trip of a \<open>name=count\<close> entry is proved
  here once.
\<close>

section \<open>Decimal numbers\<close>

definition digit_char :: "nat \<Rightarrow> char" where
  "digit_char d = char_of (48 + d)"

definition digit_val :: "char \<Rightarrow> nat option" where
  "digit_val c = (let n = of_char c :: nat in if 48 \<le> n \<and> n \<le> 57 then Some (n - 48) else None)"

text \<open>\<open>Display\<close> of an unsigned integer.\<close>

fun usize_str :: "nat \<Rightarrow> string" where
  "usize_str n = (if n < 10 then [digit_char n] else usize_str (n div 10) @ [digit_char (n mod 10)])"

declare usize_str.simps [simp del]

text \<open>\<open>str::parse::<usize>\<close>: an optional plus sign, at least one digit, nothing else, and a value
  that fits 64 bits.\<close>

primrec parse_digits :: "nat \<Rightarrow> string \<Rightarrow> nat option" where
  "parse_digits acc [] = Some acc"
| "parse_digits acc (c # cs) =
     (case digit_val c of None \<Rightarrow> None | Some d \<Rightarrow> parse_digits (10 * acc + d) cs)"

definition parse_usize :: "string \<Rightarrow> nat option" where
  "parse_usize s = (let ds = (case s of c # cs \<Rightarrow> if c = CHR ''+'' then cs else s | [] \<Rightarrow> []) in
     if ds = [] then None
     else case parse_digits 0 ds of None \<Rightarrow> None | Some n \<Rightarrow> if n < 2 ^ 64 then Some n else None)"

lemma digit_val_digit_char [simp]: "d < 10 \<Longrightarrow> digit_val (digit_char d) = Some d"
  by (simp add: digit_val_def digit_char_def)

lemma digit_char_distinct [simp]: "d < 10 \<Longrightarrow> digit_char d \<noteq> CHR ''+'' \<and> digit_char d \<noteq> CHR ''=''"
proof -
  assume "d < 10"
  then have "of_char (digit_char d) = 48 + d"
    by (simp add: digit_char_def)
  with \<open>d < 10\<close> show ?thesis
    by (auto dest: arg_cong [where f = "of_char :: char \<Rightarrow> nat"])
qed

lemma usize_str_nonempty [simp]: "usize_str n \<noteq> []"
  by (subst usize_str.simps) simp

lemma usize_str_digits: "c \<in> set (usize_str n) \<Longrightarrow> \<exists>d < 10. c = digit_char d"
proof (induction n rule: usize_str.induct)
  case (1 n)
  then show ?case
    by (subst (asm) (2) usize_str.simps) (auto split: if_splits intro: exI [of _ "n mod 10"])
qed

lemma parse_digits_append:
  "parse_digits a (xs @ ys) = (case parse_digits a xs of None \<Rightarrow> None | Some b \<Rightarrow> parse_digits b ys)"
  by (induction xs arbitrary: a) (auto split: option.splits)

lemma parse_digits_usize_str [simp]: "parse_digits 0 (usize_str n) = Some n"
proof (induction n rule: usize_str.induct)
  case (1 n)
  show ?case
  proof (cases "n < 10")
    case True
    then show ?thesis by (subst usize_str.simps) simp
  next
    case False
    with 1 show ?thesis by (subst usize_str.simps) (simp add: parse_digits_append)
  qed
qed

lemma parse_usize_str [simp]: "n < 2 ^ 64 \<Longrightarrow> parse_usize (usize_str n) = Some n"
proof -
  assume "n < 2 ^ 64"
  moreover have "hd (usize_str n) \<noteq> CHR ''+''"
    using usize_str_digits [of "hd (usize_str n)" n] by (auto dest: digit_char_distinct)
  moreover obtain c cs where "usize_str n = c # cs"
    by (cases "usize_str n") auto
  ultimately show ?thesis
    using parse_digits_usize_str [of n] by (simp add: parse_usize_def)
qed

lemma usize_str_inj: "usize_str m = usize_str n \<longleftrightarrow> m = n"
  by (metis option.inject parse_digits_usize_str)

section \<open>Searching and splitting\<close>

definition starts_with :: "string \<Rightarrow> string \<Rightarrow> bool" where
  "starts_with s p \<longleftrightarrow> take (length p) s = p"

definition strip_suffix :: "string \<Rightarrow> string \<Rightarrow> string option" where
  "strip_suffix s t =
     (let k = length s - length t in
      if length t \<le> length s \<and> drop k s = t then Some (take k s) else None)"

definition ends_with :: "string \<Rightarrow> string \<Rightarrow> bool" where
  "ends_with s t \<longleftrightarrow> strip_suffix s t \<noteq> None"

fun contains :: "string \<Rightarrow> string \<Rightarrow> bool" where
  "contains [] t \<longleftrightarrow> t = []"
| "contains (c # s) t \<longleftrightarrow> starts_with (c # s) t \<or> contains s t"

primrec split_once :: "char \<Rightarrow> string \<Rightarrow> (string \<times> string) option" where
  "split_once c [] = None"
| "split_once c (x # xs) =
     (if x = c then Some ([], xs)
      else case split_once c xs of None \<Rightarrow> None | Some (a, b) \<Rightarrow> Some (x # a, b))"

definition rsplit_once :: "char \<Rightarrow> string \<Rightarrow> (string \<times> string) option" where
  "rsplit_once c s =
     (case split_once c (rev s) of None \<Rightarrow> None | Some (a, b) \<Rightarrow> Some (rev b, rev a))"

fun join :: "string \<Rightarrow> string list \<Rightarrow> string" where
  "join sep [] = []"
| "join sep [x] = x"
| "join sep (x # y # zs) = x @ sep @ join sep (y # zs)"

lemma starts_with_prefix: "starts_with s p \<longleftrightarrow> prefix p s"
  unfolding starts_with_def
  by (metis append_eq_conv_conj append_take_drop_id prefix_def)

lemma strip_suffix_Some: "strip_suffix s t = Some p \<longleftrightarrow> s = p @ t"
  by (auto simp: strip_suffix_def Let_def)
    (metis append_take_drop_id)

lemma ends_with_suffix: "ends_with s t \<longleftrightarrow> suffix t s"
  by (auto simp: ends_with_def strip_suffix_Some suffix_def)

lemma contains_sublist: "contains s t \<longleftrightarrow> sublist t s"
  by (induction s) (auto simp: starts_with_prefix sublist_Cons_right)

lemma split_once_first: "c \<notin> set a \<Longrightarrow> split_once c (a @ c # b) = Some (a, b)"
  by (induction a) auto

lemma rsplit_once_last: "c \<notin> set b \<Longrightarrow> rsplit_once c (a @ c # b) = Some (a, b)"
  by (simp add: rsplit_once_def split_once_first)

section \<open>Counter entries\<close>

text \<open>\<open>format!("{cat}={count}")\<close>.\<close>

definition entry_str :: "string \<times> nat \<Rightarrow> string" where
  "entry_str e = fst e @ ''='' @ usize_str (snd e)"

text \<open>The reading side: \<open>rsplit_once('=')\<close> followed by \<open>parse::<usize>\<close>.\<close>

definition parse_entry :: "string \<Rightarrow> (string \<times> nat) option" where
  "parse_entry s =
     (case rsplit_once CHR ''='' s of None \<Rightarrow> None
      | Some (name, n) \<Rightarrow> (case parse_usize n of None \<Rightarrow> None | Some k \<Rightarrow> Some (name, k)))"

lemma parse_entry_str [simp]: "n < 2 ^ 64 \<Longrightarrow> parse_entry (entry_str (name, n)) = Some (name, n)"
proof -
  have "CHR ''='' \<notin> set (usize_str n)"
    using usize_str_digits [of "CHR ''=''" n] by (metis digit_char_distinct)
  then show "n < 2 ^ 64 \<Longrightarrow> ?thesis"
    by (simp add: parse_entry_def entry_str_def rsplit_once_last)
qed

lemma starts_with_entry: "starts_with (entry_str (name, n)) (name @ ''='')"
  by (simp add: starts_with_def entry_str_def)

lemma starts_with_other_entry:
  assumes "CHR ''='' \<notin> set a" "CHR ''='' \<notin> set b"
  shows "starts_with (entry_str (a, n)) (b @ ''='') \<longleftrightarrow> a = b"
proof
  assume "starts_with (entry_str (a, n)) (b @ ''='')"
  then obtain r where "a @ ''='' @ usize_str n = b @ ''='' @ r"
    by (auto simp: starts_with_prefix prefix_def entry_str_def)
  then show "a = b"
    using split_once_first [OF assms(1), of "usize_str n"] split_once_first [OF assms(2), of r]
    by (metis append_Cons append_Nil option.inject prod.inject)
qed (simp add: starts_with_entry)

section \<open>Lines\<close>

text \<open>\<open>str::lines\<close>: pieces between line feeds, a carriage return before the line feed removed, no
  empty piece after the last line feed.  \<open>trim\<close> is written for the ASCII members of the white
  space class.\<close>

fun lines_from :: "string \<Rightarrow> string \<Rightarrow> string list" where
  "lines_from acc [] = (if acc = [] then [] else [rev acc])"
| "lines_from acc (c # cs) =
     (if of_char c = (10 :: nat)
      then rev (case acc of r # rs \<Rightarrow> if of_char r = (13 :: nat) then rs else acc | [] \<Rightarrow> []) # lines_from [] cs
      else lines_from (c # acc) cs)"

definition lines :: "string \<Rightarrow> string list" where
  "lines s = lines_from [] s"

definition is_white :: "char \<Rightarrow> bool" where
  "is_white c = (let n = of_char c :: nat in 9 \<le> n \<and> n \<le> 13 \<or> n = 32)"

definition trim :: "string \<Rightarrow> string" where
  "trim s = rev (dropWhile is_white (rev (dropWhile is_white s)))"

end
