(* ===== verification/Metadata.thy ===== *)
theory Metadata
  imports BTree Text
begin

text \<open>
  The compiler's report to the driver: \<open>KaniMetadata\<close>
  (\<open>trust-mc-metadata/src/lib.rs\<close>) with one optional diagnostic field per unsoundness counter,
  and the category registry \<open>UnsoundnessCategory\<close>
  (\<open>trust-mc-metadata/src/diagnostics.rs\<close>).  \<open>unsoundness\<close> reads one category out of the
  record; \<open>unsoundness_diagnostics\<close> iterates over the registry.

  Counters are \<open>usize\<close> in the code and \<open>nat\<close> here: they count encoder events of one
  compilation and stay far below \<open>2 ^ 64\<close>.  The structs that hold exactly a count and a
  per-harness map share one record.  The fields of \<open>KaniMetadata\<close> that no modelled function reads
  (\<open>unsupported_features\<close>, \<open>contracted_functions\<close>, \<open>autoharness_md\<close>) are left out.
\<close>

section \<open>The category registry\<close>

datatype UnsoundnessCategory =
    ConstantZeroFallback
  | InternalWorkaround
  | ChcFallback
  | TypeSortFallback
  | SignednessFallback
  | UnsupportedConstructFallback
  | UnconstrainedAssignment
  | BmcStoreCoercionFallback
  | StoreDroppedTransition
  | DivergingCallDrop
  | KaniMemOverapprox
  | OffsetProvenanceUnresolved
  | InferablePredicate
  | FpBitvectorEncoding
  | RoundingAssertionBypass
  | AssertUntranslatable
  | HeapCheckUntranslatable
  | HeapCheckUnknownLayout
  | IteratorUnsoundness
  | BigIntUnsoundness
  | AssumeDroppedTransition
  | ChcCoerceEqDrop
  | ChcTranslationDrop
  | ChcSoundHavocDrop
  | IntoOptionDrop
  | AbstractedFallback
  | VecFieldFallback
  | PointeeSynthesisFallback
  | UnhandledCalls
  | SortHarmonizeFreshVar
  | PtrMetadataUnconstrained
  | StaticInitIncomplete
  | AggregateEncodingGap
  | StubApproximation

text \<open>\<open>UnsoundnessCategory::iter()\<close>: the variants in declaration order.\<close>

definition all_categories :: "UnsoundnessCategory list" where
  "all_categories = [ConstantZeroFallback,
     InternalWorkaround,
     ChcFallback,
     TypeSortFallback,
     SignednessFallback,
     UnsupportedConstructFallback,
     UnconstrainedAssignment,
     BmcStoreCoercionFallback,
     StoreDroppedTransition,
     DivergingCallDrop,
     KaniMemOverapprox,
     OffsetProvenanceUnresolved,
     InferablePredicate,
     FpBitvectorEncoding,
     RoundingAssertionBypass,
     AssertUntranslatable,
     HeapCheckUntranslatable,
     HeapCheckUnknownLayout,
     IteratorUnsoundness,
     BigIntUnsoundness,
     AssumeDroppedTransition,
     ChcCoerceEqDrop,
     ChcTranslationDrop,
     ChcSoundHavocDrop,
     IntoOptionDrop,
     AbstractedFallback,
     VecFieldFallback,
     PointeeSynthesisFallback,
     UnhandledCalls,
     SortHarmonizeFreshVar,
     PtrMetadataUnconstrained,
     StaticInitIncomplete,
     AggregateEncodingGap,
     StubApproximation]"

datatype UnsoundnessClass = Demoted | FailClosed | SoundApproximation

text \<open>\<open>UnsoundnessCategory::class\<close>.\<close>

fun category_class :: "UnsoundnessCategory \<Rightarrow> UnsoundnessClass" where
  "category_class ConstantZeroFallback = Demoted"
| "category_class InternalWorkaround = Demoted"
| "category_class ChcFallback = Demoted"
| "category_class TypeSortFallback = Demoted"
| "category_class SignednessFallback = Demoted"
| "category_class UnsupportedConstructFallback = Demoted"
| "category_class UnconstrainedAssignment = Demoted"
| "category_class BmcStoreCoercionFallback = Demoted"
| "category_class StoreDroppedTransition = Demoted"
| "category_class DivergingCallDrop = Demoted"
| "category_class KaniMemOverapprox = Demoted"
| "category_class OffsetProvenanceUnresolved = Demoted"
| "category_class InferablePredicate = Demoted"
| "category_class FpBitvectorEncoding = Demoted"
| "category_class RoundingAssertionBypass = Demoted"
| "category_class AssertUntranslatable = FailClosed"
| "category_class HeapCheckUntranslatable = FailClosed"
| "category_class HeapCheckUnknownLayout = FailClosed"
| "category_class IteratorUnsoundness = FailClosed"
| "category_class BigIntUnsoundness = FailClosed"
| "category_class AssumeDroppedTransition = SoundApproximation"
| "category_class ChcCoerceEqDrop = SoundApproximation"
| "category_class ChcTranslationDrop = SoundApproximation"
| "category_class ChcSoundHavocDrop = SoundApproximation"
| "category_class IntoOptionDrop = SoundApproximation"
| "category_class AbstractedFallback = SoundApproximation"
| "category_class VecFieldFallback = Demoted"
| "category_class PointeeSynthesisFallback = Demoted"
| "category_class UnhandledCalls = SoundApproximation"
| "category_class SortHarmonizeFreshVar = SoundApproximation"
| "category_class PtrMetadataUnconstrained = SoundApproximation"
| "category_class StaticInitIncomplete = SoundApproximation"
| "category_class AggregateEncodingGap = SoundApproximation"
| "category_class StubApproximation = SoundApproximation"

fun json_key :: "UnsoundnessCategory \<Rightarrow> string" where
  "json_key ConstantZeroFallback = ''constant_zero_fallback''"
| "json_key InternalWorkaround = ''internal_workaround''"
| "json_key ChcFallback = ''chc_fallback''"
| "json_key TypeSortFallback = ''type_sort_fallback''"
| "json_key SignednessFallback = ''signedness_fallback''"
| "json_key UnsupportedConstructFallback = ''unsupported_construct_fallback''"
| "json_key UnconstrainedAssignment = ''unconstrained_assignment''"
| "json_key BmcStoreCoercionFallback = ''bmc_store_coercion_fallback''"
| "json_key StoreDroppedTransition = ''store_dropped_transition''"
| "json_key DivergingCallDrop = ''diverging_call_drop''"
| "json_key KaniMemOverapprox = ''kani_mem_overapprox''"
| "json_key OffsetProvenanceUnresolved = ''offset_provenance_unresolved''"
| "json_key InferablePredicate = ''inferable_predicate''"
| "json_key FpBitvectorEncoding = ''fp_bitvector_encoding''"
| "json_key RoundingAssertionBypass = ''rounding_assertion_bypass''"
| "json_key AssertUntranslatable = ''assert_untranslatable''"
| "json_key HeapCheckUntranslatable = ''heap_check_untranslatable''"
| "json_key HeapCheckUnknownLayout = ''heap_check_unknown_layout''"
| "json_key IteratorUnsoundness = ''iterator_unsoundness''"
| "json_key BigIntUnsoundness = ''bigint_unsoundness''"
| "json_key AssumeDroppedTransition = ''assume_dropped_transition''"
| "json_key ChcCoerceEqDrop = ''chc_coerce_eq_drop''"
| "json_key ChcTranslationDrop = ''chc_translation_drop''"
| "json_key ChcSoundHavocDrop = ''chc_sound_havoc_drop''"
| "json_key IntoOptionDrop = ''into_option_drop''"
| "json_key AbstractedFallback = ''abstracted_fallback''"
| "json_key VecFieldFallback = ''vec_field_fallback''"
| "json_key PointeeSynthesisFallback = ''pointee_synthesis_fallback''"
| "json_key UnhandledCalls = ''unhandled_calls''"
| "json_key SortHarmonizeFreshVar = ''sort_harmonize_fresh_var''"
| "json_key PtrMetadataUnconstrained = ''ptr_metadata_unconstrained''"
| "json_key StaticInitIncomplete = ''static_init_incomplete''"
| "json_key AggregateEncodingGap = ''aggregate_encoding_gap''"
| "json_key StubApproximation = ''stub_approximation''"

lemma all_categories_complete [simp]: "cat \<in> set all_categories"
  by (cases cat) (simp_all add: all_categories_def)

lemma all_categories_distinct [simp]: "distinct all_categories"
  by (simp add: all_categories_def)

lemma json_key_no_equals [simp]: "CHR ''='' \<notin> set (json_key cat)"
  by (cases cat) simp_all

section \<open>Diagnostic counters\<close>

type_synonym harness_counts = "(string, nat) btree"

record counted_info =
  count :: nat
  per_harness :: harness_counts

record bare_info =
  bare_count :: nat

record total_info =
  total_count :: nat
  total_per_harness :: harness_counts

type_synonym ChcFallbackInfo = total_info
type_synonym ChcCoerceEqDropInfo = total_info
type_synonym AssumeDroppedTransitionInfo = counted_info
type_synonym StoreDroppedTransitionInfo = counted_info
type_synonym ConstantZeroFallbackInfo = counted_info
type_synonym UnhandledCallInfo = counted_info
type_synonym DivergingCallDropInfo = counted_info
type_synonym OffsetProvenanceUnresolvedInfo = counted_info
type_synonym ErrorBlockedFmtInfo = bare_info
type_synonym KnownStdlibUnconstrainedInfo = bare_info
type_synonym AssertUntranslatableInfo = bare_info
type_synonym HeapCheckUntranslatableInfo = bare_info
type_synonym HeapCheckUnknownLayoutInfo = bare_info
type_synonym TypeSortFallbackInfo = counted_info
type_synonym SignednessFallbackInfo = counted_info
type_synonym IntoOptionDropInfo = counted_info
type_synonym InternalWorkaroundInfo = counted_info
type_synonym AbstractedFallbackInfo = counted_info
type_synonym VecFieldFallbackInfo = counted_info
type_synonym PointeeSynthesisFallbackInfo = counted_info
type_synonym UnsupportedConstructFallbackInfo = counted_info
type_synonym UnconstrainedAssignmentInfo = counted_info
type_synonym BmcStoreCoercionFallbackInfo = counted_info
type_synonym KaniMemOverapproxInfo = counted_info
type_synonym SortHarmonizeFreshVarInfo = counted_info
type_synonym PtrMetadataUnconstrainedInfo = counted_info
type_synonym StaticInitIncompleteInfo = counted_info
type_synonym FpBitvectorEncodingInfo = counted_info
type_synonym StubApproximationInfo = counted_info
type_synonym RoundingAssertionBypassInfo = counted_info

record IteratorUnsoundnessInfo =
  it_chc_skip_count :: nat
  it_bmc_skip_count :: nat
  it_per_harness :: harness_counts

record BigIntUnsoundnessInfo =
  big_chc_skip_count :: nat
  big_per_harness :: harness_counts

record ChcTranslationDropInfo =
  place_count :: nat
  constant_count :: nat
  field_projection_count :: nat
  td_per_harness :: harness_counts
  td_per_harness_reasons :: "(string, harness_counts) btree"
  td_per_harness_translation_sites :: "(string, harness_counts) btree"
  sound_havoc_count :: nat
  sound_havoc_per_harness :: harness_counts

record InferablePredicateInfo = counted_info +
  ip_per_harness_summaries :: "(string, harness_counts) btree"

record AggregateEncodingGapInfo = counted_info +
  ag_per_harness_reasons :: "(string, harness_counts) btree"

definition total_skip_count :: "IteratorUnsoundnessInfo \<Rightarrow> nat" where
  "total_skip_count i = it_chc_skip_count i + it_bmc_skip_count i"

text \<open>\<open>total_count()\<close> of the translation drops: the certified havocs are deliberately left out.\<close>

definition translation_drop_total :: "ChcTranslationDropInfo \<Rightarrow> nat" where
  "translation_drop_total i = place_count i + constant_count i + field_projection_count i"

section \<open>Harnesses and crate metadata\<close>

datatype SolverOption = Bitwuzla | Cadical | Cvc5 | Kissat | Minisat | Z3 | Binary string

datatype HarnessKind = Proof | ProofForContract string | TestHarness

record Stub =
  original :: string
  replacement :: string

record HarnessAttributes =
  kind :: HarnessKind
  should_panic :: bool
  solver :: "SolverOption option"
  unwind_value :: "nat option"
  stubs :: "Stub list"
  verified_stubs :: "string list"

record AssignsContract =
  contracted_function_name :: string
  recursion_tracker :: "string option"

record HarnessMetadata =
  pretty_name :: string
  mangled_name :: string
  h_crate_name :: string
  original_file :: string
  original_start_line :: nat
  original_end_line :: nat
  model_file :: string
  attributes :: HarnessAttributes
  contract :: "AssignsContract option"
  has_loop_contracts :: bool
  is_automatically_generated :: bool

text \<open>\<open>HarnessAttributes::new\<close>.\<close>

definition new_attributes :: "HarnessKind \<Rightarrow> HarnessAttributes" where
  "new_attributes k = \<lparr> kind = k, should_panic = False, solver = None, unwind_value = None,
     stubs = [], verified_stubs = [] \<rparr>"

definition is_proof_harness :: "HarnessAttributes \<Rightarrow> bool" where
  "is_proof_harness a = (case kind a of Proof \<Rightarrow> True | ProofForContract _ \<Rightarrow> True | TestHarness \<Rightarrow> False)"

record KaniMetadata =
  crate_name :: string
  proof_harnesses :: "HarnessMetadata list"
  test_harnesses :: "HarnessMetadata list"
  iterator_unsoundness :: "IteratorUnsoundnessInfo option"
  bigint_unsoundness :: "BigIntUnsoundnessInfo option"
  chc_fallbacks :: "ChcFallbackInfo option"
  chc_translation_drops :: "ChcTranslationDropInfo option"
  chc_coerce_eq_drops :: "ChcCoerceEqDropInfo option"
  assume_dropped_transitions :: "AssumeDroppedTransitionInfo option"
  store_dropped_transitions :: "StoreDroppedTransitionInfo option"
  constant_zero_fallbacks :: "ConstantZeroFallbackInfo option"
  unhandled_calls :: "UnhandledCallInfo option"
  error_blocked_fmt :: "ErrorBlockedFmtInfo option"
  known_stdlib_unconstrained :: "KnownStdlibUnconstrainedInfo option"
  inferable_predicates :: "InferablePredicateInfo option"
  diverging_call_drops :: "DivergingCallDropInfo option"
  offset_provenance_unresolved :: "OffsetProvenanceUnresolvedInfo option"
  assert_untranslatable :: "AssertUntranslatableInfo option"
  heap_check_untranslatable :: "HeapCheckUntranslatableInfo option"
  heap_check_unknown_layout :: "HeapCheckUnknownLayoutInfo option"
  type_sort_fallbacks :: "TypeSortFallbackInfo option"
  signedness_fallbacks :: "SignednessFallbackInfo option"
  into_option_drops :: "IntoOptionDropInfo option"
  internal_workarounds :: "InternalWorkaroundInfo option"
  abstracted_fallbacks :: "AbstractedFallbackInfo option"
  vec_field_fallbacks :: "VecFieldFallbackInfo option"
  pointee_synthesis_fallbacks :: "PointeeSynthesisFallbackInfo option"
  unsupported_construct_fallbacks :: "UnsupportedConstructFallbackInfo option"
  unconstrained_assignments :: "UnconstrainedAssignmentInfo option"
  bmc_store_coercion_fallbacks :: "BmcStoreCoercionFallbackInfo option"
  kani_mem_overapprox :: "KaniMemOverapproxInfo option"
  sort_harmonize_fresh_var_fallbacks :: "SortHarmonizeFreshVarInfo option"
  ptr_metadata_unconstrained :: "PtrMetadataUnconstrainedInfo option"
  static_init_incomplete :: "StaticInitIncompleteInfo option"
  fp_bitvector_encoding :: "FpBitvectorEncodingInfo option"
  aggregate_encoding_gap :: "AggregateEncodingGapInfo option"
  stub_approximation :: "StubApproximationInfo option"
  rounding_assertion_bypass :: "RoundingAssertionBypassInfo option"

text \<open>The freshly created metadata of a crate: no diagnostic recorded.\<close>

definition clean_metadata :: "string \<Rightarrow> HarnessMetadata list \<Rightarrow> KaniMetadata" where
  "clean_metadata c hs = \<lparr> crate_name = c, proof_harnesses = hs, test_harnesses = [],
     iterator_unsoundness = None,
     bigint_unsoundness = None,
     chc_fallbacks = None,
     chc_translation_drops = None,
     chc_coerce_eq_drops = None,
     assume_dropped_transitions = None,
     store_dropped_transitions = None,
     constant_zero_fallbacks = None,
     unhandled_calls = None,
     error_blocked_fmt = None,
     known_stdlib_unconstrained = None,
     inferable_predicates = None,
     diverging_call_drops = None,
     offset_provenance_unresolved = None,
     assert_untranslatable = None,
     heap_check_untranslatable = None,
     heap_check_unknown_layout = None,
     type_sort_fallbacks = None,
     signedness_fallbacks = None,
     into_option_drops = None,
     internal_workarounds = None,
     abstracted_fallbacks = None,
     vec_field_fallbacks = None,
     pointee_synthesis_fallbacks = None,
     unsupported_construct_fallbacks = None,
     unconstrained_assignments = None,
     bmc_store_coercion_fallbacks = None,
     kani_mem_overapprox = None,
     sort_harmonize_fresh_var_fallbacks = None,
     ptr_metadata_unconstrained = None,
     static_init_incomplete = None,
     fp_bitvector_encoding = None,
     aggregate_encoding_gap = None,
     stub_approximation = None,
     rounding_assertion_bypass = None \<rparr>"

section \<open>Reading a category\<close>

record UnsoundnessRecord =
  category :: UnsoundnessCategory
  rclass :: UnsoundnessClass
  rkey :: string
  rtotal :: nat
  rper_harness :: "harness_counts option"

text \<open>The \<open>match\<close> of \<open>unsoundness\<close>: the count and the per-harness map behind a category,
  \<open>None\<close> when the diagnostic field is absent.  \<open>with_ph\<close> and \<open>without_ph\<close> are
  the two arm macros.\<close>

definition with_ph :: "('a \<Rightarrow> nat) \<Rightarrow> ('a \<Rightarrow> harness_counts) \<Rightarrow> 'a option \<Rightarrow> (nat \<times> harness_counts option) option" where
  "with_ph n p i = map_option (\<lambda>i. (n i, Some (p i))) i"

definition without_ph :: "('a \<Rightarrow> nat) \<Rightarrow> 'a option \<Rightarrow> (nat \<times> harness_counts option) option" where
  "without_ph n i = map_option (\<lambda>i. (n i, None)) i"

fun category_fields :: "KaniMetadata \<Rightarrow> UnsoundnessCategory \<Rightarrow> (nat \<times> harness_counts option) option" where
  "category_fields m ConstantZeroFallback = with_ph count per_harness (constant_zero_fallbacks m)"
| "category_fields m InternalWorkaround = with_ph count per_harness (internal_workarounds m)"
| "category_fields m ChcFallback = with_ph total_count total_per_harness (chc_fallbacks m)"
| "category_fields m TypeSortFallback = with_ph count per_harness (type_sort_fallbacks m)"
| "category_fields m SignednessFallback = with_ph count per_harness (signedness_fallbacks m)"
| "category_fields m UnsupportedConstructFallback = with_ph count per_harness (unsupported_construct_fallbacks m)"
| "category_fields m UnconstrainedAssignment = with_ph count per_harness (unconstrained_assignments m)"
| "category_fields m BmcStoreCoercionFallback = with_ph count per_harness (bmc_store_coercion_fallbacks m)"
| "category_fields m StoreDroppedTransition = with_ph count per_harness (store_dropped_transitions m)"
| "category_fields m DivergingCallDrop = with_ph count per_harness (diverging_call_drops m)"
| "category_fields m KaniMemOverapprox = with_ph count per_harness (kani_mem_overapprox m)"
| "category_fields m OffsetProvenanceUnresolved = with_ph count per_harness (offset_provenance_unresolved m)"
| "category_fields m InferablePredicate = with_ph count per_harness (inferable_predicates m)"
| "category_fields m FpBitvectorEncoding = with_ph count per_harness (fp_bitvector_encoding m)"
| "category_fields m RoundingAssertionBypass = with_ph count per_harness (rounding_assertion_bypass m)"
| "category_fields m AssertUntranslatable = without_ph bare_count (assert_untranslatable m)"
| "category_fields m HeapCheckUntranslatable = without_ph bare_count (heap_check_untranslatable m)"
| "category_fields m HeapCheckUnknownLayout = without_ph bare_count (heap_check_unknown_layout m)"
| "category_fields m IteratorUnsoundness = with_ph total_skip_count it_per_harness (iterator_unsoundness m)"
| "category_fields m BigIntUnsoundness = with_ph big_chc_skip_count big_per_harness (bigint_unsoundness m)"
| "category_fields m AssumeDroppedTransition = with_ph count per_harness (assume_dropped_transitions m)"
| "category_fields m ChcCoerceEqDrop = with_ph total_count total_per_harness (chc_coerce_eq_drops m)"
| "category_fields m ChcTranslationDrop = with_ph translation_drop_total td_per_harness (chc_translation_drops m)"
| "category_fields m ChcSoundHavocDrop = with_ph sound_havoc_count sound_havoc_per_harness (chc_translation_drops m)"
| "category_fields m IntoOptionDrop = with_ph count per_harness (into_option_drops m)"
| "category_fields m AbstractedFallback = with_ph count per_harness (abstracted_fallbacks m)"
| "category_fields m VecFieldFallback = with_ph count per_harness (vec_field_fallbacks m)"
| "category_fields m PointeeSynthesisFallback = with_ph count per_harness (pointee_synthesis_fallbacks m)"
| "category_fields m UnhandledCalls = with_ph count per_harness (unhandled_calls m)"
| "category_fields m SortHarmonizeFreshVar = with_ph count per_harness (sort_harmonize_fresh_var_fallbacks m)"
| "category_fields m PtrMetadataUnconstrained = with_ph count per_harness (ptr_metadata_unconstrained m)"
| "category_fields m StaticInitIncomplete = with_ph count per_harness (static_init_incomplete m)"
| "category_fields m AggregateEncodingGap = with_ph count per_harness (aggregate_encoding_gap m)"
| "category_fields m StubApproximation = with_ph count per_harness (stub_approximation m)"

definition unsoundness :: "KaniMetadata \<Rightarrow> UnsoundnessCategory \<Rightarrow> UnsoundnessRecord option" where
  "unsoundness m cat =
     (case category_fields m cat of
        None \<Rightarrow> None
      | Some (n, ph) \<Rightarrow>
          if n > 0
          then Some \<lparr> category = cat, rclass = category_class cat, rkey = json_key cat, rtotal = n, rper_harness = ph \<rparr>
          else None)"

definition unsoundness_diagnostics :: "KaniMetadata \<Rightarrow> UnsoundnessRecord list" where
  "unsoundness_diagnostics m = List.map_filter (unsoundness m) all_categories"

text \<open>\<open>diagnostic_per_harness\<close> of \<open>unsoundness_counts.rs\<close>: the map alone, whatever the total.\<close>

fun diagnostic_per_harness :: "KaniMetadata \<Rightarrow> UnsoundnessCategory \<Rightarrow> harness_counts option" where
  "diagnostic_per_harness m ConstantZeroFallback = map_option per_harness (constant_zero_fallbacks m)"
| "diagnostic_per_harness m InternalWorkaround = map_option per_harness (internal_workarounds m)"
| "diagnostic_per_harness m ChcFallback = map_option total_per_harness (chc_fallbacks m)"
| "diagnostic_per_harness m TypeSortFallback = map_option per_harness (type_sort_fallbacks m)"
| "diagnostic_per_harness m SignednessFallback = map_option per_harness (signedness_fallbacks m)"
| "diagnostic_per_harness m UnsupportedConstructFallback = map_option per_harness (unsupported_construct_fallbacks m)"
| "diagnostic_per_harness m UnconstrainedAssignment = map_option per_harness (unconstrained_assignments m)"
| "diagnostic_per_harness m BmcStoreCoercionFallback = map_option per_harness (bmc_store_coercion_fallbacks m)"
| "diagnostic_per_harness m StoreDroppedTransition = map_option per_harness (store_dropped_transitions m)"
| "diagnostic_per_harness m DivergingCallDrop = map_option per_harness (diverging_call_drops m)"
| "diagnostic_per_harness m KaniMemOverapprox = map_option per_harness (kani_mem_overapprox m)"
| "diagnostic_per_harness m OffsetProvenanceUnresolved = map_option per_harness (offset_provenance_unresolved m)"
| "diagnostic_per_harness m InferablePredicate = map_option per_harness (inferable_predicates m)"
| "diagnostic_per_harness m FpBitvectorEncoding = map_option per_harness (fp_bitvector_encoding m)"
| "diagnostic_per_harness m RoundingAssertionBypass = map_option per_harness (rounding_assertion_bypass m)"
| "diagnostic_per_harness m AssertUntranslatable = None"
| "diagnostic_per_harness m HeapCheckUntranslatable = None"
| "diagnostic_per_harness m HeapCheckUnknownLayout = None"
| "diagnostic_per_harness m IteratorUnsoundness = map_option it_per_harness (iterator_unsoundness m)"
| "diagnostic_per_harness m BigIntUnsoundness = map_option big_per_harness (bigint_unsoundness m)"
| "diagnostic_per_harness m AssumeDroppedTransition = map_option per_harness (assume_dropped_transitions m)"
| "diagnostic_per_harness m ChcCoerceEqDrop = map_option total_per_harness (chc_coerce_eq_drops m)"
| "diagnostic_per_harness m ChcTranslationDrop = map_option td_per_harness (chc_translation_drops m)"
| "diagnostic_per_harness m ChcSoundHavocDrop = map_option sound_havoc_per_harness (chc_translation_drops m)"
| "diagnostic_per_harness m IntoOptionDrop = map_option per_harness (into_option_drops m)"
| "diagnostic_per_harness m AbstractedFallback = map_option per_harness (abstracted_fallbacks m)"
| "diagnostic_per_harness m VecFieldFallback = map_option per_harness (vec_field_fallbacks m)"
| "diagnostic_per_harness m PointeeSynthesisFallback = map_option per_harness (pointee_synthesis_fallbacks m)"
| "diagnostic_per_harness m UnhandledCalls = map_option per_harness (unhandled_calls m)"
| "diagnostic_per_harness m SortHarmonizeFreshVar = map_option per_harness (sort_harmonize_fresh_var_fallbacks m)"
| "diagnostic_per_harness m PtrMetadataUnconstrained = map_option per_harness (ptr_metadata_unconstrained m)"
| "diagnostic_per_harness m StaticInitIncomplete = map_option per_harness (static_init_incomplete m)"
| "diagnostic_per_harness m AggregateEncodingGap = map_option per_harness (aggregate_encoding_gap m)"
| "diagnostic_per_harness m StubApproximation = map_option per_harness (stub_approximation m)"

section \<open>Facts\<close>

lemma bind_with_ph [simp]: "Option.bind (with_ph n p i) snd = map_option p i"
  by (cases i) (simp_all add: with_ph_def)

lemma bind_without_ph [simp]: "Option.bind (without_ph n i) snd = None"
  by (cases i) (simp_all add: without_ph_def)

lemma diagnostic_per_harness_fields:
  "diagnostic_per_harness m cat = Option.bind (category_fields m cat) snd"
  by (cases cat) simp_all

lemma unsoundness_Some:
  "unsoundness m cat = Some r \<longleftrightarrow>
     (\<exists>n ph. category_fields m cat = Some (n, ph) \<and> n > 0 \<and>
        r = \<lparr> category = cat, rclass = category_class cat, rkey = json_key cat, rtotal = n, rper_harness = ph \<rparr>)"
  by (auto simp: unsoundness_def split: option.splits)

lemma unsoundness_category: "unsoundness m cat = Some r \<Longrightarrow> category r = cat"
  by (auto simp: unsoundness_Some)

lemma unsoundness_diagnostics_set:
  "set (unsoundness_diagnostics m) = {r. unsoundness m (category r) = Some r}"
  by (auto simp: unsoundness_diagnostics_def set_map_filter dest: unsoundness_category)

lemma clean_metadata_fields [simp]: "category_fields (clean_metadata c hs) cat = None"
  by (cases cat) (simp_all add: clean_metadata_def with_ph_def without_ph_def)

end
