(* ===== verification/Counts.thy ===== *)
theory Counts
  imports Metadata
begin

text \<open>
  From the metadata of every crate to the counters of one crate
  (\<open>trust-mc-driver/src/unsoundness_counts.rs\<close>, \<open>unsoundness_extract.rs\<close>,
  \<open>unsoundness_extract_fail_closed.rs\<close>): the classification tables, one extraction function per
  counter, the project-wide \<open>UnsoundnessCounts\<close> and its slice \<open>CrateUnsoundnessCounts\<close>
  for one crate name.  The fields of the two structs are prefixed \<open>u_\<close> and \<open>c_\<close>.

  The theorems say what survives this plumbing: for a crate whose name occurs once among the metadata
  records, each counter of the slice is the counter of the metadata field of its category
  (\<open>counter_total\<close>, \<open>counter_map\<close>).
\<close>

section \<open>Classification tables\<close>

definition DEMOTED_CATEGORIES :: "UnsoundnessCategory list" where
  "DEMOTED_CATEGORIES = [ConstantZeroFallback,
     InternalWorkaround,
     ChcFallback,
     TypeSortFallback,
     SignednessFallback,
     UnsupportedConstructFallback,
     UnconstrainedAssignment,
     BmcStoreCoercionFallback,
     StoreDroppedTransition,
     DivergingCallDrop,
     KaniMemOverapprox,
     OffsetProvenanceUnresolved,
     InferablePredicate,
     FpBitvectorEncoding,
     RoundingAssertionBypass,
     VecFieldFallback,
     PointeeSynthesisFallback]"

definition FAIL_CLOSED_CATEGORIES :: "UnsoundnessCategory list" where
  "FAIL_CLOSED_CATEGORIES = [AssertUntranslatable,
     HeapCheckUntranslatable,
     HeapCheckUnknownLayout,
     IteratorUnsoundness,
     BigIntUnsoundness]"

definition SOUND_APPROXIMATION_CATEGORIES :: "UnsoundnessCategory list" where
  "SOUND_APPROXIMATION_CATEGORIES = [AssumeDroppedTransition,
     ChcCoerceEqDrop,
     ChcTranslationDrop,
     ChcSoundHavocDrop,
     IntoOptionDrop,
     AbstractedFallback,
     UnhandledCalls,
     SortHarmonizeFreshVar,
     PtrMetadataUnconstrained,
     StaticInitIncomplete,
     AggregateEncodingGap,
     StubApproximation]"

section \<open>Extraction\<close>

record Project =
  metadata :: "KaniMetadata list"

definition map_or :: "'b \<Rightarrow> ('a \<Rightarrow> 'b) \<Rightarrow> 'a option \<Rightarrow> 'b" where
  "map_or d f i = (case i of None \<Rightarrow> d | Some x \<Rightarrow> f x)"

text \<open>The two shapes every extraction function has: positive counts by crate, and non-empty
  per-harness maps by crate.\<close>

definition counts_by_crate :: "(KaniMetadata \<Rightarrow> nat) \<Rightarrow> Project \<Rightarrow> (string, nat) btree" where
  "counts_by_crate f p = bt_collect (List.map_filter
     (\<lambda>m. let n = f m in if n > 0 then Some (crate_name m, n) else None) (metadata p))"

definition maps_by_crate :: "(KaniMetadata \<Rightarrow> harness_counts option) \<Rightarrow> Project \<Rightarrow> (string, harness_counts) btree" where
  "maps_by_crate f p = bt_collect (List.map_filter
     (\<lambda>m. case f m of None \<Rightarrow> None | Some ph \<Rightarrow> if ph \<noteq> [] then Some (crate_name m, ph) else None) (metadata p))"

definition diagnostic_count_by_crate :: "Project \<Rightarrow> UnsoundnessCategory \<Rightarrow> (string, nat) btree" where
  "diagnostic_count_by_crate p cat = bt_collect (List.map_filter
     (\<lambda>m. case unsoundness m cat of None \<Rightarrow> None
        | Some r \<Rightarrow> if rtotal r > 0 then Some (crate_name m, rtotal r) else None) (metadata p))"

definition diagnostic_per_harness_by_crate :: "Project \<Rightarrow> UnsoundnessCategory \<Rightarrow> (string, harness_counts) btree" where
  "diagnostic_per_harness_by_crate p cat = maps_by_crate (\<lambda>m. diagnostic_per_harness m cat) p"

definition constant_zero_fallback_count_by_crate :: "Project \<Rightarrow> (string, nat) btree" where
  "constant_zero_fallback_count_by_crate = counts_by_crate (\<lambda>m. map_or 0 count (constant_zero_fallbacks m))"

definition internal_workaround_count_by_crate :: "Project \<Rightarrow> (string, nat) btree" where
  "internal_workaround_count_by_crate = counts_by_crate (\<lambda>m. map_or 0 count (internal_workarounds m))"

definition chc_fallback_count_by_crate :: "Project \<Rightarrow> (string, nat) btree" where
  "chc_fallback_count_by_crate = counts_by_crate (\<lambda>m. map_or 0 total_count (chc_fallbacks m))"

definition type_sort_fallback_count_by_crate :: "Project \<Rightarrow> (string, nat) btree" where
  "type_sort_fallback_count_by_crate = counts_by_crate (\<lambda>m. map_or 0 count (type_sort_fallbacks m))"

definition signedness_fallback_count_by_crate :: "Project \<Rightarrow> (string, nat) btree" where
  "signedness_fallback_count_by_crate = counts_by_crate (\<lambda>m. map_or 0 count (signedness_fallbacks m))"

definition unsupported_construct_fallback_count_by_crate :: "Project \<Rightarrow> (string, nat) btree" where
  "unsupported_construct_fallback_count_by_crate = counts_by_crate (\<lambda>m. map_or 0 count (unsupported_construct_fallbacks m))"

definition unconstrained_assignment_count_by_crate :: "Project \<Rightarrow> (string, nat) btree" where
  "unconstrained_assignment_count_by_crate = counts_by_crate (\<lambda>m. map_or 0 count (unconstrained_assignments m))"

definition assert_untranslatable_count_by_crate :: "Project \<Rightarrow> (string, nat) btree" where
  "assert_untranslatable_count_by_crate = counts_by_crate (\<lambda>m. map_or 0 bare_count (assert_untranslatable m))"

definition heap_check_untranslatable_count_by_crate :: "Project \<Rightarrow> (string, nat) btree" where
  "heap_check_untranslatable_count_by_crate = counts_by_crate (\<lambda>m. map_or 0 bare_count (heap_check_untranslatable m))"

definition heap_check_unknown_layout_count_by_crate :: "Project \<Rightarrow> (string, nat) btree" where
  "heap_check_unknown_layout_count_by_crate = counts_by_crate (\<lambda>m. map_or 0 bare_count (heap_check_unknown_layout m))"

definition iterator_unsoundness_count_by_crate :: "Project \<Rightarrow> (string, nat) btree" where
  "iterator_unsoundness_count_by_crate = counts_by_crate (\<lambda>m. map_or 0 total_skip_count (iterator_unsoundness m))"

definition bigint_unsoundness_count_by_crate :: "Project \<Rightarrow> (string, nat) btree" where
  "bigint_unsoundness_count_by_crate = counts_by_crate (\<lambda>m. map_or 0 big_chc_skip_count (bigint_unsoundness m))"

definition chc_fallback_per_harness_by_crate :: "Project \<Rightarrow> (string, harness_counts) btree" where
  "chc_fallback_per_harness_by_crate = maps_by_crate (\<lambda>m. map_option total_per_harness (chc_fallbacks m))"

definition signedness_fallback_per_harness_by_crate :: "Project \<Rightarrow> (string, harness_counts) btree" where
  "signedness_fallback_per_harness_by_crate = maps_by_crate (\<lambda>m. map_option per_harness (signedness_fallbacks m))"

definition type_sort_fallback_per_harness_by_crate :: "Project \<Rightarrow> (string, harness_counts) btree" where
  "type_sort_fallback_per_harness_by_crate = maps_by_crate (\<lambda>m. map_option per_harness (type_sort_fallbacks m))"

definition constant_zero_fallback_per_harness_by_crate :: "Project \<Rightarrow> (string, harness_counts) btree" where
  "constant_zero_fallback_per_harness_by_crate = maps_by_crate (\<lambda>m. map_option per_harness (constant_zero_fallbacks m))"

definition internal_workaround_per_harness_by_crate :: "Project \<Rightarrow> (string, harness_counts) btree" where
  "internal_workaround_per_harness_by_crate = maps_by_crate (\<lambda>m. map_option per_harness (internal_workarounds m))"

definition unsupported_construct_per_harness_by_crate :: "Project \<Rightarrow> (string, harness_counts) btree" where
  "unsupported_construct_per_harness_by_crate = maps_by_crate (\<lambda>m. map_option per_harness (unsupported_construct_fallbacks m))"

definition unconstrained_assignment_per_harness_by_crate :: "Project \<Rightarrow> (string, harness_counts) btree" where
  "unconstrained_assignment_per_harness_by_crate = maps_by_crate (\<lambda>m. map_option per_harness (unconstrained_assignments m))"

definition kani_mem_overapprox_per_harness_by_crate :: "Project \<Rightarrow> (string, harness_counts) btree" where
  "kani_mem_overapprox_per_harness_by_crate = maps_by_crate (\<lambda>m. map_option per_harness (kani_mem_overapprox m))"

definition iterator_unsoundness_per_harness_by_crate :: "Project \<Rightarrow> (string, harness_counts) btree" where
  "iterator_unsoundness_per_harness_by_crate = maps_by_crate (\<lambda>m. map_option it_per_harness (iterator_unsoundness m))"

definition bigint_unsoundness_per_harness_by_crate :: "Project \<Rightarrow> (string, harness_counts) btree" where
  "bigint_unsoundness_per_harness_by_crate = maps_by_crate (\<lambda>m. map_option big_per_harness (bigint_unsoundness m))"

text \<open>\<open>sound_approximation_per_harness_by_crate\<close>: harness name to the positive counts of the
  sound-approximation categories, in registry order; a later record of the same crate replaces an
  earlier one.\<close>

type_synonym approx_map = "(string, (string \<times> nat) list) btree"

definition push_category :: "string \<Rightarrow> string \<times> nat \<Rightarrow> approx_map \<Rightarrow> approx_map" where
  "push_category key hc acc =
     (if snd hc > 0 then bt_update (fst hc) [] (\<lambda>cats. cats @ [(key, snd hc)]) acc else acc)"

definition add_record :: "UnsoundnessRecord \<Rightarrow> approx_map \<Rightarrow> approx_map" where
  "add_record r acc =
     (if rclass r \<noteq> SoundApproximation then acc
      else case rper_harness r of None \<Rightarrow> acc | Some ph \<Rightarrow> fold (push_category (rkey r)) ph acc)"

definition harness_categories :: "KaniMetadata \<Rightarrow> approx_map" where
  "harness_categories m = fold add_record (unsoundness_diagnostics m) []"

definition sound_approximation_per_harness_by_crate :: "Project \<Rightarrow> (string, approx_map) btree" where
  "sound_approximation_per_harness_by_crate p =
     fold (\<lambda>m res. let hc = harness_categories m in
             if hc \<noteq> [] then bt_insert (crate_name m) hc res else res) (metadata p) []"

definition harness_names_by_crate :: "Project \<Rightarrow> (string, string list) btree" where
  "harness_names_by_crate p =
     bt_collect (map (\<lambda>m. (crate_name m, sort (remdups (map pretty_name (proof_harnesses m))))) (metadata p))"

section \<open>Project-wide counters\<close>

record UnsoundnessCounts =
  u_constant_zero_fallback :: "(string, nat) btree"
  u_internal_workaround :: "(string, nat) btree"
  u_chc_fallback :: "(string, nat) btree"
  u_type_sort_fallback :: "(string, nat) btree"
  u_signedness_fallback :: "(string, nat) btree"
  u_unsupported_construct_fallback :: "(string, nat) btree"
  u_unconstrained_assignment :: "(string, nat) btree"
  u_bmc_store_coercion_fallback :: "(string, nat) btree"
  u_store_dropped_transition :: "(string, nat) btree"
  u_diverging_call_drop :: "(string, nat) btree"
  u_offset_provenance_unresolved :: "(string, nat) btree"
  u_kani_mem_overapprox :: "(string, nat) btree"
  u_inferable_predicate :: "(string, nat) btree"
  u_fp_bitvector_encoding :: "(string, nat) btree"
  u_rounding_assertion_bypass :: "(string, nat) btree"
  u_chc_fallback_per_harness :: "(string, harness_counts) btree"
  u_signedness_fallback_per_harness :: "(string, harness_counts) btree"
  u_type_sort_fallback_per_harness :: "(string, harness_counts) btree"
  u_constant_zero_per_harness :: "(string, harness_counts) btree"
  u_internal_workaround_per_harness :: "(string, harness_counts) btree"
  u_unsupported_construct_per_harness :: "(string, harness_counts) btree"
  u_unconstrained_assignment_per_harness :: "(string, harness_counts) btree"
  u_bmc_store_coercion_per_harness :: "(string, harness_counts) btree"
  u_store_dropped_transition_per_harness :: "(string, harness_counts) btree"
  u_diverging_call_drop_per_harness :: "(string, harness_counts) btree"
  u_offset_provenance_unresolved_per_harness :: "(string, harness_counts) btree"
  u_kani_mem_overapprox_per_harness :: "(string, harness_counts) btree"
  u_inferable_predicate_per_harness :: "(string, harness_counts) btree"
  u_fp_bitvector_encoding_per_harness :: "(string, harness_counts) btree"
  u_rounding_assertion_bypass_per_harness :: "(string, harness_counts) btree"
  u_vec_field_fallback :: "(string, nat) btree"
  u_pointee_synthesis_fallback :: "(string, nat) btree"
  u_vec_field_fallback_per_harness :: "(string, harness_counts) btree"
  u_pointee_synthesis_fallback_per_harness :: "(string, harness_counts) btree"
  u_sound_approx_per_harness :: "(string, approx_map) btree"
  u_assert_untranslatable :: "(string, nat) btree"
  u_heap_check_untranslatable :: "(string, nat) btree"
  u_heap_check_unknown_layout :: "(string, nat) btree"
  u_iterator_unsoundness :: "(string, nat) btree"
  u_bigint_unsoundness :: "(string, nat) btree"
  u_iterator_unsoundness_per_harness :: "(string, harness_counts) btree"
  u_bigint_unsoundness_per_harness :: "(string, harness_counts) btree"
  u_harness_names_by_crate :: "(string, string list) btree"

definition from_project :: "Project \<Rightarrow> UnsoundnessCounts" where
  "from_project p = \<lparr>
     u_constant_zero_fallback = constant_zero_fallback_count_by_crate p,
     u_internal_workaround = internal_workaround_count_by_crate p,
     u_chc_fallback = chc_fallback_count_by_crate p,
     u_type_sort_fallback = type_sort_fallback_count_by_crate p,
     u_signedness_fallback = signedness_fallback_count_by_crate p,
     u_unsupported_construct_fallback = unsupported_construct_fallback_count_by_crate p,
     u_unconstrained_assignment = unconstrained_assignment_count_by_crate p,
     u_bmc_store_coercion_fallback = diagnostic_count_by_crate p BmcStoreCoercionFallback,
     u_store_dropped_transition = diagnostic_count_by_crate p StoreDroppedTransition,
     u_diverging_call_drop = diagnostic_count_by_crate p DivergingCallDrop,
     u_offset_provenance_unresolved = diagnostic_count_by_crate p OffsetProvenanceUnresolved,
     u_kani_mem_overapprox = diagnostic_count_by_crate p KaniMemOverapprox,
     u_inferable_predicate = diagnostic_count_by_crate p InferablePredicate,
     u_fp_bitvector_encoding = diagnostic_count_by_crate p FpBitvectorEncoding,
     u_rounding_assertion_bypass = diagnostic_count_by_crate p RoundingAssertionBypass,
     u_chc_fallback_per_harness = chc_fallback_per_harness_by_crate p,
     u_signedness_fallback_per_harness = signedness_fallback_per_harness_by_crate p,
     u_type_sort_fallback_per_harness = type_sort_fallback_per_harness_by_crate p,
     u_constant_zero_per_harness = constant_zero_fallback_per_harness_by_crate p,
     u_internal_workaround_per_harness = internal_workaround_per_harness_by_crate p,
     u_unsupported_construct_per_harness = unsupported_construct_per_harness_by_crate p,
     u_unconstrained_assignment_per_harness = unconstrained_assignment_per_harness_by_crate p,
     u_bmc_store_coercion_per_harness = diagnostic_per_harness_by_crate p BmcStoreCoercionFallback,
     u_store_dropped_transition_per_harness = diagnostic_per_harness_by_crate p StoreDroppedTransition,
     u_diverging_call_drop_per_harness = diagnostic_per_harness_by_crate p DivergingCallDrop,
     u_offset_provenance_unresolved_per_harness = diagnostic_per_harness_by_crate p OffsetProvenanceUnresolved,
     u_kani_mem_overapprox_per_harness = kani_mem_overapprox_per_harness_by_crate p,
     u_inferable_predicate_per_harness = diagnostic_per_harness_by_crate p InferablePredicate,
     u_fp_bitvector_encoding_per_harness = diagnostic_per_harness_by_crate p FpBitvectorEncoding,
     u_rounding_assertion_bypass_per_harness = diagnostic_per_harness_by_crate p RoundingAssertionBypass,
     u_vec_field_fallback = diagnostic_count_by_crate p VecFieldFallback,
     u_pointee_synthesis_fallback = diagnostic_count_by_crate p PointeeSynthesisFallback,
     u_vec_field_fallback_per_harness = diagnostic_per_harness_by_crate p VecFieldFallback,
     u_pointee_synthesis_fallback_per_harness = diagnostic_per_harness_by_crate p PointeeSynthesisFallback,
     u_sound_approx_per_harness = sound_approximation_per_harness_by_crate p,
     u_assert_untranslatable = assert_untranslatable_count_by_crate p,
     u_heap_check_untranslatable = heap_check_untranslatable_count_by_crate p,
     u_heap_check_unknown_layout = heap_check_unknown_layout_count_by_crate p,
     u_iterator_unsoundness = iterator_unsoundness_count_by_crate p,
     u_bigint_unsoundness = bigint_unsoundness_count_by_crate p,
     u_iterator_unsoundness_per_harness = iterator_unsoundness_per_harness_by_crate p,
     u_bigint_unsoundness_per_harness = bigint_unsoundness_per_harness_by_crate p,
     u_harness_names_by_crate = harness_names_by_crate p \<rparr>"

section \<open>The counters of one crate\<close>

record CrateUnsoundnessCounts =
  c_constant_zero_fallback :: "nat"
  c_internal_workaround :: "nat"
  c_chc_fallback :: "nat"
  c_type_sort_fallback :: "nat"
  c_signedness_fallback :: "nat"
  c_unsupported_construct_fallback :: "nat"
  c_unconstrained_assignment :: "nat"
  c_bmc_store_coercion_fallback :: "nat"
  c_store_dropped_transition :: "nat"
  c_diverging_call_drop :: "nat"
  c_offset_provenance_unresolved :: "nat"
  c_kani_mem_overapprox :: "nat"
  c_inferable_predicate :: "nat"
  c_fp_bitvector_encoding :: "nat"
  c_rounding_assertion_bypass :: "nat"
  c_chc_fallback_per_harness :: "harness_counts"
  c_signedness_fallback_per_harness :: "harness_counts"
  c_type_sort_fallback_per_harness :: "harness_counts"
  c_constant_zero_per_harness :: "harness_counts"
  c_internal_workaround_per_harness :: "harness_counts"
  c_unsupported_construct_per_harness :: "harness_counts"
  c_unconstrained_assignment_per_harness :: "harness_counts"
  c_bmc_store_coercion_per_harness :: "harness_counts"
  c_store_dropped_transition_per_harness :: "harness_counts"
  c_diverging_call_drop_per_harness :: "harness_counts"
  c_offset_provenance_unresolved_per_harness :: "harness_counts"
  c_kani_mem_overapprox_per_harness :: "harness_counts"
  c_inferable_predicate_per_harness :: "harness_counts"
  c_fp_bitvector_encoding_per_harness :: "harness_counts"
  c_rounding_assertion_bypass_per_harness :: "harness_counts"
  c_vec_field_fallback :: "nat"
  c_pointee_synthesis_fallback :: "nat"
  c_vec_field_fallback_per_harness :: "harness_counts"
  c_pointee_synthesis_fallback_per_harness :: "harness_counts"
  c_sound_approx_per_harness :: "approx_map"
  c_sound_approx_crate_totals :: "(string \<times> nat) list"
  c_assert_untranslatable :: "nat"
  c_heap_check_untranslatable :: "nat"
  c_heap_check_unknown_layout :: "nat"
  c_iterator_unsoundness :: "nat"
  c_bigint_unsoundness :: "nat"
  c_iterator_unsoundness_per_harness :: "harness_counts"
  c_harness_names :: "string list"
  c_bigint_unsoundness_per_harness :: "harness_counts"

text \<open>\<open>for (category, count) in categories { *totals.entry(category).or_default() += count }\<close>.\<close>

definition tally :: "(string \<times> nat) list \<Rightarrow> (string, nat) btree \<Rightarrow> (string, nat) btree" where
  "tally cats totals = fold (\<lambda>cn. bt_update (fst cn) 0 (\<lambda>t. t + snd cn)) cats totals"

definition sum_sound_approx_categories :: "approx_map \<Rightarrow> (string \<times> nat) list" where
  "sum_sound_approx_categories m = fold (\<lambda>hc. tally (snd hc)) m []"

definition get_for_crate :: "UnsoundnessCounts \<Rightarrow> string \<Rightarrow> CrateUnsoundnessCounts" where
  "get_for_crate u crate = (let sound = bt_get_or [] (u_sound_approx_per_harness u) crate in \<lparr>
     c_constant_zero_fallback = bt_get_or 0 (u_constant_zero_fallback u) crate,
     c_internal_workaround = bt_get_or 0 (u_internal_workaround u) crate,
     c_chc_fallback = bt_get_or 0 (u_chc_fallback u) crate,
     c_type_sort_fallback = bt_get_or 0 (u_type_sort_fallback u) crate,
     c_signedness_fallback = bt_get_or 0 (u_signedness_fallback u) crate,
     c_unsupported_construct_fallback = bt_get_or 0 (u_unsupported_construct_fallback u) crate,
     c_unconstrained_assignment = bt_get_or 0 (u_unconstrained_assignment u) crate,
     c_bmc_store_coercion_fallback = bt_get_or 0 (u_bmc_store_coercion_fallback u) crate,
     c_store_dropped_transition = bt_get_or 0 (u_store_dropped_transition u) crate,
     c_diverging_call_drop = bt_get_or 0 (u_diverging_call_drop u) crate,
     c_offset_provenance_unresolved = bt_get_or 0 (u_offset_provenance_unresolved u) crate,
     c_kani_mem_overapprox = bt_get_or 0 (u_kani_mem_overapprox u) crate,
     c_inferable_predicate = bt_get_or 0 (u_inferable_predicate u) crate,
     c_fp_bitvector_encoding = bt_get_or 0 (u_fp_bitvector_encoding u) crate,
     c_rounding_assertion_bypass = bt_get_or 0 (u_rounding_assertion_bypass u) crate,
     c_chc_fallback_per_harness = bt_get_or [] (u_chc_fallback_per_harness u) crate,
     c_signedness_fallback_per_harness = bt_get_or [] (u_signedness_fallback_per_harness u) crate,
     c_type_sort_fallback_per_harness = bt_get_or [] (u_type_sort_fallback_per_harness u) crate,
     c_constant_zero_per_harness = bt_get_or [] (u_constant_zero_per_harness u) crate,
     c_internal_workaround_per_harness = bt_get_or [] (u_internal_workaround_per_harness u) crate,
     c_unsupported_construct_per_harness = bt_get_or [] (u_unsupported_construct_per_harness u) crate,
     c_unconstrained_assignment_per_harness = bt_get_or [] (u_unconstrained_assignment_per_harness u) crate,
     c_bmc_store_coercion_per_harness = bt_get_or [] (u_bmc_store_coercion_per_harness u) crate,
     c_store_dropped_transition_per_harness = bt_get_or [] (u_store_dropped_transition_per_harness u) crate,
     c_diverging_call_drop_per_harness = bt_get_or [] (u_diverging_call_drop_per_harness u) crate,
     c_offset_provenance_unresolved_per_harness = bt_get_or [] (u_offset_provenance_unresolved_per_harness u) crate,
     c_kani_mem_overapprox_per_harness = bt_get_or [] (u_kani_mem_overapprox_per_harness u) crate,
     c_inferable_predicate_per_harness = bt_get_or [] (u_inferable_predicate_per_harness u) crate,
     c_fp_bitvector_encoding_per_harness = bt_get_or [] (u_fp_bitvector_encoding_per_harness u) crate,
     c_rounding_assertion_bypass_per_harness = bt_get_or [] (u_rounding_assertion_bypass_per_harness u) crate,
     c_vec_field_fallback = bt_get_or 0 (u_vec_field_fallback u) crate,
     c_pointee_synthesis_fallback = bt_get_or 0 (u_pointee_synthesis_fallback u) crate,
     c_vec_field_fallback_per_harness = bt_get_or [] (u_vec_field_fallback_per_harness u) crate,
     c_pointee_synthesis_fallback_per_harness = bt_get_or [] (u_pointee_synthesis_fallback_per_harness u) crate,
     c_sound_approx_per_harness = sound,
     c_sound_approx_crate_totals = sum_sound_approx_categories sound,
     c_assert_untranslatable = bt_get_or 0 (u_assert_untranslatable u) crate,
     c_heap_check_untranslatable = bt_get_or 0 (u_heap_check_untranslatable u) crate,
     c_heap_check_unknown_layout = bt_get_or 0 (u_heap_check_unknown_layout u) crate,
     c_iterator_unsoundness = bt_get_or 0 (u_iterator_unsoundness u) crate,
     c_bigint_unsoundness = bt_get_or 0 (u_bigint_unsoundness u) crate,
     c_iterator_unsoundness_per_harness = bt_get_or [] (u_iterator_unsoundness_per_harness u) crate,
     c_harness_names = bt_get_or [] (u_harness_names_by_crate u) crate,
     c_bigint_unsoundness_per_harness = bt_get_or [] (u_bigint_unsoundness_per_harness u) crate \<rparr>)"

text \<open>\<open>CrateUnsoundnessCounts::default()\<close>.\<close>

definition default_counts :: CrateUnsoundnessCounts where
  "default_counts = \<lparr>
     c_constant_zero_fallback = 0,
     c_internal_workaround = 0,
     c_chc_fallback = 0,
     c_type_sort_fallback = 0,
     c_signedness_fallback = 0,
     c_unsupported_construct_fallback = 0,
     c_unconstrained_assignment = 0,
     c_bmc_store_coercion_fallback = 0,
     c_store_dropped_transition = 0,
     c_diverging_call_drop = 0,
     c_offset_provenance_unresolved = 0,
     c_kani_mem_overapprox = 0,
     c_inferable_predicate = 0,
     c_fp_bitvector_encoding = 0,
     c_rounding_assertion_bypass = 0,
     c_chc_fallback_per_harness = [],
     c_signedness_fallback_per_harness = [],
     c_type_sort_fallback_per_harness = [],
     c_constant_zero_per_harness = [],
     c_internal_workaround_per_harness = [],
     c_unsupported_construct_per_harness = [],
     c_unconstrained_assignment_per_harness = [],
     c_bmc_store_coercion_per_harness = [],
     c_store_dropped_transition_per_harness = [],
     c_diverging_call_drop_per_harness = [],
     c_offset_provenance_unresolved_per_harness = [],
     c_kani_mem_overapprox_per_harness = [],
     c_inferable_predicate_per_harness = [],
     c_fp_bitvector_encoding_per_harness = [],
     c_rounding_assertion_bypass_per_harness = [],
     c_vec_field_fallback = 0,
     c_pointee_synthesis_fallback = 0,
     c_vec_field_fallback_per_harness = [],
     c_pointee_synthesis_fallback_per_harness = [],
     c_sound_approx_per_harness = [],
     c_sound_approx_crate_totals = [],
     c_assert_untranslatable = 0,
     c_heap_check_untranslatable = 0,
     c_heap_check_unknown_layout = 0,
     c_iterator_unsoundness = 0,
     c_bigint_unsoundness = 0,
     c_iterator_unsoundness_per_harness = [],
     c_harness_names = [],
     c_bigint_unsoundness_per_harness = [] \<rparr>"

text \<open>The two fields of the slice that belong to a category: its crate total and its per-harness map.\<close>

fun slice_total :: "UnsoundnessCategory \<Rightarrow> CrateUnsoundnessCounts \<Rightarrow> nat" where
  "slice_total ConstantZeroFallback c = c_constant_zero_fallback c"
| "slice_total InternalWorkaround c = c_internal_workaround c"
| "slice_total ChcFallback c = c_chc_fallback c"
| "slice_total TypeSortFallback c = c_type_sort_fallback c"
| "slice_total SignednessFallback c = c_signedness_fallback c"
| "slice_total UnsupportedConstructFallback c = c_unsupported_construct_fallback c"
| "slice_total UnconstrainedAssignment c = c_unconstrained_assignment c"
| "slice_total BmcStoreCoercionFallback c = c_bmc_store_coercion_fallback c"
| "slice_total StoreDroppedTransition c = c_store_dropped_transition c"
| "slice_total DivergingCallDrop c = c_diverging_call_drop c"
| "slice_total OffsetProvenanceUnresolved c = c_offset_provenance_unresolved c"
| "slice_total KaniMemOverapprox c = c_kani_mem_overapprox c"
| "slice_total InferablePredicate c = c_inferable_predicate c"
| "slice_total FpBitvectorEncoding c = c_fp_bitvector_encoding c"
| "slice_total RoundingAssertionBypass c = c_rounding_assertion_bypass c"
| "slice_total VecFieldFallback c = c_vec_field_fallback c"
| "slice_total PointeeSynthesisFallback c = c_pointee_synthesis_fallback c"
| "slice_total IteratorUnsoundness c = c_iterator_unsoundness c"
| "slice_total BigIntUnsoundness c = c_bigint_unsoundness c"
| "slice_total AssertUntranslatable c = c_assert_untranslatable c"
| "slice_total HeapCheckUntranslatable c = c_heap_check_untranslatable c"
| "slice_total HeapCheckUnknownLayout c = c_heap_check_unknown_layout c"
| "slice_total _ c = 0"

fun slice_map :: "UnsoundnessCategory \<Rightarrow> CrateUnsoundnessCounts \<Rightarrow> harness_counts" where
  "slice_map ConstantZeroFallback c = c_constant_zero_per_harness c"
| "slice_map InternalWorkaround c = c_internal_workaround_per_harness c"
| "slice_map ChcFallback c = c_chc_fallback_per_harness c"
| "slice_map TypeSortFallback c = c_type_sort_fallback_per_harness c"
| "slice_map SignednessFallback c = c_signedness_fallback_per_harness c"
| "slice_map UnsupportedConstructFallback c = c_unsupported_construct_per_harness c"
| "slice_map UnconstrainedAssignment c = c_unconstrained_assignment_per_harness c"
| "slice_map BmcStoreCoercionFallback c = c_bmc_store_coercion_per_harness c"
| "slice_map StoreDroppedTransition c = c_store_dropped_transition_per_harness c"
| "slice_map DivergingCallDrop c = c_diverging_call_drop_per_harness c"
| "slice_map OffsetProvenanceUnresolved c = c_offset_provenance_unresolved_per_harness c"
| "slice_map KaniMemOverapprox c = c_kani_mem_overapprox_per_harness c"
| "slice_map InferablePredicate c = c_inferable_predicate_per_harness c"
| "slice_map FpBitvectorEncoding c = c_fp_bitvector_encoding_per_harness c"
| "slice_map RoundingAssertionBypass c = c_rounding_assertion_bypass_per_harness c"
| "slice_map VecFieldFallback c = c_vec_field_fallback_per_harness c"
| "slice_map PointeeSynthesisFallback c = c_pointee_synthesis_fallback_per_harness c"
| "slice_map IteratorUnsoundness c = c_iterator_unsoundness_per_harness c"
| "slice_map BigIntUnsoundness c = c_bigint_unsoundness_per_harness c"
| "slice_map _ c = []"

section \<open>Facts on the collections\<close>

lemma tally_append: "tally (xs @ ys) acc = tally ys (tally xs acc)"
  by (simp add: tally_def)

lemma tally_Nil [simp]: "tally [] acc = acc"
  by (simp add: tally_def)

lemma tally_Cons [simp]: "tally (cn # cs) acc = tally cs (bt_update (fst cn) 0 (\<lambda>t. t + snd cn) acc)"
  by (simp add: tally_def)

lemma fold_tally: "fold (\<lambda>hc. tally (snd hc)) m acc = tally (concat (map snd m)) acc"
  by (induction m arbitrary: acc) (auto simp: tally_append)

lemma tally_get:
  "bt_get_or 0 (tally xs acc) k = bt_get_or 0 acc k + sum_list (map snd (filter (\<lambda>cn. fst cn = k) xs))"
  by (induction xs arbitrary: acc) auto

lemma tally_wf: "bt_wf acc \<Longrightarrow> bt_wf (tally xs acc)"
  by (induction xs arbitrary: acc) auto

lemma bt_insert_sum:
  assumes "bt_wf m"
  shows "sum_list (map snd (bt_insert k v m)) + bt_get_or (0 :: nat) m k = sum_list (map snd m) + v"
  using assms
proof (induction k v m rule: bt_insert.induct)
  case (2 k v a b m)
  moreover have "k < a \<Longrightarrow> bt_get m k = None"
    using 2 by (force simp: map_of_eq_None_iff bt_wf_def)
  moreover have "k = a \<Longrightarrow> bt_get m k = None"
    using 2 by (force simp: map_of_eq_None_iff bt_wf_def)
  ultimately show ?case
    by (auto simp: bt_get_or_def bt_wf_def)
qed (simp add: bt_get_or_def)

lemma tally_sum: "bt_wf acc \<Longrightarrow> sum_list (map snd (tally xs acc)) = sum_list (map snd acc) + sum_list (map snd xs)"
proof (induction xs arbitrary: acc)
  case (Cons cn cs)
  have "sum_list (map snd (bt_update (fst cn) 0 (\<lambda>t. t + snd cn) acc)) = sum_list (map snd acc) + snd cn"
    using bt_insert_sum [OF Cons.prems, of "fst cn" "bt_get_or 0 acc (fst cn) + snd cn"]
    by (simp add: bt_update_def)
  with Cons show ?case
    by simp
qed simp

lemma tally_keys: "fst ` set (tally xs acc) = fst ` set acc \<union> fst ` set xs"
  by (induction xs arbitrary: acc) (auto simp: bt_update_def)

lemma tally_empty [simp]: "tally xs [] = [] \<longleftrightarrow> xs = []"
  using tally_keys [of xs "[]"] by auto

section \<open>The plumbing\<close>

text \<open>What the metadata of a crate says about a category.\<close>

definition counter_total :: "KaniMetadata \<Rightarrow> UnsoundnessCategory \<Rightarrow> nat" where
  "counter_total m cat = map_or 0 fst (category_fields m cat)"

definition counter_map :: "KaniMetadata \<Rightarrow> UnsoundnessCategory \<Rightarrow> harness_counts" where
  "counter_map m cat = map_or [] id (diagnostic_per_harness m cat)"

text \<open>The record is the only one of its crate name.\<close>

definition only_record :: "Project \<Rightarrow> KaniMetadata \<Rightarrow> bool" where
  "only_record p m \<longleftrightarrow> m \<in> set (metadata p) \<and> (\<forall>x \<in> set (metadata p). crate_name x = crate_name m \<longrightarrow> x = m)"

lemma collect_slice:
  assumes one: "only_record p m" and key: "\<And>x k v. g x = Some (k, v) \<Longrightarrow> k = crate_name x"
  shows "bt_get (bt_collect (List.map_filter g (metadata p))) (crate_name m) = map_option snd (g m)"
proof -
  let ?xs = "List.map_filter g (metadata p)"
  have entry: "(crate_name m, w) \<in> set ?xs \<longleftrightarrow> g m = Some (crate_name m, w)" for w
  proof
    assume "(crate_name m, w) \<in> set ?xs"
    then obtain x where x: "x \<in> set (metadata p)" "g x = Some (crate_name m, w)"
      unfolding set_map_filter by blast
    then have "x = m"
      using one key [OF x(2)] unfolding only_record_def by simp
    then show "g m = Some (crate_name m, w)"
      using x(2) by simp
  next
    assume "g m = Some (crate_name m, w)"
    then show "(crate_name m, w) \<in> set ?xs"
      using one unfolding set_map_filter only_record_def by blast
  qed
  show ?thesis
  proof (cases "g m")
    case None
    then have "crate_name m \<notin> fst ` set ?xs"
      using entry by auto
    then show ?thesis
      using None by (simp add: bt_get_collect_none)
  next
    case (Some kv)
    obtain k v where kv: "kv = (k, v)"
      by (cases kv)
    have "k = crate_name m"
      using key [of m k v] Some kv by simp
    then have "bt_get (bt_collect ?xs) (crate_name m) = Some v"
      using entry Some kv by (intro bt_get_collect_one) auto
    then show ?thesis
      using Some kv by simp
  qed
qed

lemma counts_slice [simp]:
  "only_record p m \<Longrightarrow> bt_get_or 0 (counts_by_crate f p) (crate_name m) = f m"
  unfolding counts_by_crate_def bt_get_or_def
  by (subst collect_slice) (auto simp: Let_def split: if_splits)

lemma maps_slice [simp]:
  "only_record p m \<Longrightarrow> bt_get_or [] (maps_by_crate f p) (crate_name m) = map_or [] id (f m)"
  unfolding maps_by_crate_def bt_get_or_def map_or_def
  by (subst collect_slice) (auto split: option.splits if_splits)

lemma diagnostic_counts_slice [simp]:
  "only_record p m \<Longrightarrow> bt_get_or 0 (diagnostic_count_by_crate p cat) (crate_name m) = counter_total m cat"
  unfolding diagnostic_count_by_crate_def bt_get_or_def counter_total_def map_or_def
  by (subst collect_slice) (auto simp: unsoundness_def split: option.splits if_splits)

lemma diagnostic_maps_slice [simp]:
  "only_record p m \<Longrightarrow> bt_get_or [] (diagnostic_per_harness_by_crate p cat) (crate_name m) = counter_map m cat"
  by (simp add: diagnostic_per_harness_by_crate_def counter_map_def)

lemma map_or_with_ph [simp]: "map_or 0 fst (with_ph n f i) = map_or 0 n i"
  by (cases i) (simp_all add: map_or_def with_ph_def)

lemma map_or_without_ph [simp]: "map_or 0 fst (without_ph n i) = map_or 0 n i"
  by (cases i) (simp_all add: map_or_def without_ph_def)

lemma map_or_None [simp]: "map_or d f None = d"
  by (simp add: map_or_def)

lemma collect_map_slice:
  assumes "only_record p m"
  shows "bt_get (bt_collect (map (\<lambda>x. (crate_name x, f x)) (metadata p))) (crate_name m) = Some (f m)"
  using assms unfolding only_record_def by (intro bt_get_collect_one) auto

lemma fold_insert_nonempty:
  "fold (\<lambda>m res. let hc = h m in if hc \<noteq> [] then bt_insert (c m) hc res else res) ms acc =
   fold (\<lambda>(k, v). bt_insert k v)
     (List.map_filter (\<lambda>m. if h m \<noteq> [] then Some (c m, h m) else None) ms) acc"
  by (induction ms arbitrary: acc) (auto simp: map_filter_simps Let_def)

lemma sound_slice:
  assumes "only_record p m"
  shows "bt_get_or [] (sound_approximation_per_harness_by_crate p) (crate_name m) = harness_categories m"
  unfolding sound_approximation_per_harness_by_crate_def fold_insert_nonempty bt_get_or_def
  unfolding bt_collect_def [symmetric]
  by (subst collect_slice [OF assms]) (auto split: if_splits)

lemmas extraction_defs =
  constant_zero_fallback_count_by_crate_def internal_workaround_count_by_crate_def
  chc_fallback_count_by_crate_def type_sort_fallback_count_by_crate_def
  signedness_fallback_count_by_crate_def unsupported_construct_fallback_count_by_crate_def
  unconstrained_assignment_count_by_crate_def assert_untranslatable_count_by_crate_def
  heap_check_untranslatable_count_by_crate_def heap_check_unknown_layout_count_by_crate_def
  iterator_unsoundness_count_by_crate_def bigint_unsoundness_count_by_crate_def

lemmas map_extraction_defs =
  chc_fallback_per_harness_by_crate_def signedness_fallback_per_harness_by_crate_def
  type_sort_fallback_per_harness_by_crate_def constant_zero_fallback_per_harness_by_crate_def
  internal_workaround_per_harness_by_crate_def unsupported_construct_per_harness_by_crate_def
  unconstrained_assignment_per_harness_by_crate_def kani_mem_overapprox_per_harness_by_crate_def
  iterator_unsoundness_per_harness_by_crate_def bigint_unsoundness_per_harness_by_crate_def

text \<open>The slice of a crate holds, for every category outside the sound approximations, the total and
  the map of that category's own metadata field.\<close>

lemma slice_total_record:
  assumes "only_record p m" "category_class cat \<noteq> SoundApproximation"
  shows "slice_total cat (get_for_crate (from_project p) (crate_name m)) = counter_total m cat"
  using assms
  by (cases cat)
    (simp_all add: get_for_crate_def from_project_def Let_def extraction_defs counter_total_def
      del: bt_get_or_update)

lemma slice_map_record:
  assumes "only_record p m" "category_class cat \<noteq> SoundApproximation"
  shows "slice_map cat (get_for_crate (from_project p) (crate_name m)) = counter_map m cat"
  using assms
  by (cases cat)
    (simp_all add: get_for_crate_def from_project_def Let_def map_extraction_defs counter_map_def)

lemma slice_names_record:
  "only_record p m \<Longrightarrow>
   set (c_harness_names (get_for_crate (from_project p) (crate_name m))) = pretty_name ` set (proof_harnesses m)"
  by (simp add: get_for_crate_def from_project_def Let_def harness_names_by_crate_def bt_get_or_def
      collect_map_slice)

lemma slice_sound_record:
  "only_record p m \<Longrightarrow>
   c_sound_approx_per_harness (get_for_crate (from_project p) (crate_name m)) = harness_categories m"
  by (simp add: get_for_crate_def from_project_def Let_def sound_slice)

lemma slice_sound_totals:
  "c_sound_approx_crate_totals (get_for_crate u c) =
   tally (concat (map snd (c_sound_approx_per_harness (get_for_crate u c)))) []"
  by (simp add: get_for_crate_def Let_def sum_sound_approx_categories_def fold_tally)

section \<open>The sound-approximation map\<close>

lemma push_category_get:
  "x \<in> set (bt_get_or [] (push_category key hc acc) h) \<longleftrightarrow>
     x \<in> set (bt_get_or [] acc h) \<or> fst hc = h \<and> snd hc > 0 \<and> x = (key, snd hc)"
  by (auto simp: push_category_def)

lemma fold_push_get:
  "x \<in> set (bt_get_or [] (fold (push_category key) ph acc) h) \<longleftrightarrow>
     x \<in> set (bt_get_or [] acc h) \<or> (\<exists>n > 0. (h, n) \<in> set ph \<and> x = (key, n))"
  by (induction ph arbitrary: acc) (auto simp: push_category_get)

lemma add_record_get:
  "x \<in> set (bt_get_or [] (add_record r acc) h) \<longleftrightarrow>
     x \<in> set (bt_get_or [] acc h) \<or>
     rclass r = SoundApproximation \<and> (\<exists>ph n. rper_harness r = Some ph \<and> 0 < n \<and> (h, n) \<in> set ph \<and> x = (rkey r, n))"
  by (auto simp: add_record_def fold_push_get split: option.splits)

lemma fold_add_record_get:
  "x \<in> set (bt_get_or [] (fold add_record rs acc) h) \<longleftrightarrow>
     x \<in> set (bt_get_or [] acc h) \<or>
     (\<exists>r \<in> set rs. rclass r = SoundApproximation \<and>
        (\<exists>ph n. rper_harness r = Some ph \<and> 0 < n \<and> (h, n) \<in> set ph \<and> x = (rkey r, n)))"
  by (induction rs arbitrary: acc) (auto simp: add_record_get)

lemma bt_get_or_Nil [simp]: "bt_get_or d [] h = d"
  by (simp add: bt_get_or_def)

lemma unsoundness_fields:
  "unsoundness m cat = Some r \<Longrightarrow>
     category_fields m cat = Some (rtotal r, rper_harness r) \<and> 0 < rtotal r \<and>
     rclass r = category_class cat \<and> rkey r = json_key cat \<and> category r = cat"
  by (auto simp: unsoundness_Some)

lemma counter_cases:
  "category_fields m cat = Some (n, Some ph) \<Longrightarrow> counter_total m cat = n \<and> counter_map m cat = ph"
  by (simp add: counter_total_def counter_map_def map_or_def diagnostic_per_harness_fields)

lemma counter_map_Some:
  "(h, n) \<in> set (counter_map m cat) \<Longrightarrow> \<exists>t ph. category_fields m cat = Some (t, Some ph) \<and> (h, n) \<in> set ph \<and> counter_total m cat = t"
  by (cases "category_fields m cat")
    (auto simp: counter_total_def counter_map_def map_or_def diagnostic_per_harness_fields split: option.splits)

lemma harness_categories_get:
  "(key, n) \<in> set (bt_get_or [] (harness_categories m) h) \<longleftrightarrow>
     n > 0 \<and> (\<exists>cat. category_class cat = SoundApproximation \<and> key = json_key cat \<and>
       counter_total m cat > 0 \<and> (h, n) \<in> set (counter_map m cat))" (is "?L \<longleftrightarrow> ?R")
proof
  assume ?L
  then obtain r ph where "unsoundness m (category r) = Some r" "rclass r = SoundApproximation"
      "rper_harness r = Some ph" "0 < n" "(h, n) \<in> set ph" "key = rkey r"
    by (auto simp: harness_categories_def fold_add_record_get unsoundness_diagnostics_set)
  then show ?R
    using counter_cases [of m "category r" "rtotal r" ph] unsoundness_fields [of m "category r" r]
    by (intro conjI exI [of _ "category r"]) auto
next
  assume ?R
  then obtain cat t ph where "0 < n" "category_class cat = SoundApproximation" "key = json_key cat"
      "category_fields m cat = Some (t, Some ph)" "0 < t" "(h, n) \<in> set ph"
    by (auto dest!: counter_map_Some)
  then show ?L
    by (auto simp: harness_categories_def fold_add_record_get unsoundness_diagnostics_set unsoundness_def
        intro!: exI [of _ "\<lparr> category = cat, rclass = category_class cat, rkey = json_key cat, rtotal = t, rper_harness = Some ph \<rparr>"])
qed

definition approx_wf :: "approx_map \<Rightarrow> bool" where
  "approx_wf m \<longleftrightarrow> bt_wf m \<and> (\<forall>e \<in> set m. snd e \<noteq> [])"

lemma set_bt_insert: "set (bt_insert k v m) \<subseteq> insert (k, v) (set m)"
  by (induction k v m rule: bt_insert.induct) auto

lemma push_category_wf: "approx_wf acc \<Longrightarrow> approx_wf (push_category key hc acc)"
  using set_bt_insert [of "fst hc" "bt_get_or [] acc (fst hc) @ [(key, snd hc)]" acc]
  by (auto simp: approx_wf_def push_category_def bt_update_def)

lemma fold_push_wf: "approx_wf acc \<Longrightarrow> approx_wf (fold (push_category key) ph acc)"
  by (induction ph arbitrary: acc) (simp_all add: push_category_wf)

lemma add_record_wf: "approx_wf acc \<Longrightarrow> approx_wf (add_record r acc)"
  by (simp add: add_record_def fold_push_wf split: option.splits)

lemma harness_categories_wf: "approx_wf (harness_categories m)"
proof -
  have "approx_wf acc \<Longrightarrow> approx_wf (fold add_record rs acc)" for rs acc
    by (induction rs arbitrary: acc) (simp_all add: add_record_wf)
  moreover have "approx_wf []"
    by (simp add: approx_wf_def)
  ultimately show ?thesis
    unfolding harness_categories_def by blast
qed

text \<open>C35: The registry is consistent: the three classification tables of the driver partition the
  categories exactly as \<open>class()\<close> does, without repetition, and no two categories share a JSON
  key.\<close>

theorem category_tables:
  "distinct (DEMOTED_CATEGORIES @ FAIL_CLOSED_CATEGORIES @ SOUND_APPROXIMATION_CATEGORIES) \<and>
   set DEMOTED_CATEGORIES = {cat. category_class cat = Demoted} \<and>
   set FAIL_CLOSED_CATEGORIES = {cat. category_class cat = FailClosed} \<and>
   set SOUND_APPROXIMATION_CATEGORIES = {cat. category_class cat = SoundApproximation} \<and>
   length (DEMOTED_CATEGORIES @ FAIL_CLOSED_CATEGORIES @ SOUND_APPROXIMATION_CATEGORIES) = length all_categories \<and>
   inj json_key"
proof -
  have "set DEMOTED_CATEGORIES = {cat. category_class cat = Demoted}"
    unfolding set_eq_iff mem_Collect_eq
  proof
    show "cat \<in> set DEMOTED_CATEGORIES \<longleftrightarrow> category_class cat = Demoted" for cat
      by (cases cat) (simp_all add: DEMOTED_CATEGORIES_def)
  qed
  moreover have "set FAIL_CLOSED_CATEGORIES = {cat. category_class cat = FailClosed}"
    unfolding set_eq_iff mem_Collect_eq
  proof
    show "cat \<in> set FAIL_CLOSED_CATEGORIES \<longleftrightarrow> category_class cat = FailClosed" for cat
      by (cases cat) (simp_all add: FAIL_CLOSED_CATEGORIES_def)
  qed
  moreover have "set SOUND_APPROXIMATION_CATEGORIES = {cat. category_class cat = SoundApproximation}"
    unfolding set_eq_iff mem_Collect_eq
  proof
    show "cat \<in> set SOUND_APPROXIMATION_CATEGORIES \<longleftrightarrow> category_class cat = SoundApproximation" for cat
      by (cases cat) (simp_all add: SOUND_APPROXIMATION_CATEGORIES_def)
  qed
  moreover have "distinct (DEMOTED_CATEGORIES @ FAIL_CLOSED_CATEGORIES @ SOUND_APPROXIMATION_CATEGORIES)"
    by (simp add: DEMOTED_CATEGORIES_def FAIL_CLOSED_CATEGORIES_def SOUND_APPROXIMATION_CATEGORIES_def)
  moreover have "distinct (map json_key all_categories)"
    by (simp add: all_categories_def)
  then have "inj json_key"
    by (metis all_categories_complete distinct_map inj_on_def)
  ultimately show ?thesis
    by (simp add: all_categories_def DEMOTED_CATEGORIES_def FAIL_CLOSED_CATEGORIES_def SOUND_APPROXIMATION_CATEGORIES_def)
qed

end
