(* ===== verification/Results.thy ===== *)
theory Results
  imports Text
begin

text \<open>
  The result of checking one harness: properties and their statuses
  (\<open>trust-mc-driver/src/property_model.rs\<close>), the verdict record \<open>VerificationResult\<close> and the
  pure predicates on its property table (\<open>verification_result.rs\<close>), and the classification of
  the failed properties (\<open>ay_parse/violation.rs\<close>).  The enums \<open>VerificationStatus\<close>,
  \<open>FailedProperties\<close>, \<open>CheckStatus\<close>, \<open>CtrexCategory\<close> and \<open>UnknownQuality\<close>
  share variant names, so the constructors carry a prefix.

  Fields of \<open>VerificationResult\<close> that no modelled function reads or writes (run time, concrete
  playback, proof transcripts, the digest-backed verdict) are left out; of the coverage results only
  their presence matters.
\<close>

section \<open>Properties\<close>

datatype CheckStatus =
    CFailure | CCovered | CSatisfied | CSuccess | CUndetermined | CUnknown | CUnreachable
  | CUncovered | CUnsatisfiable

record RawSourceLocation =
  column :: "string option"
  in_file :: "string option"
  in_function :: "string option"
  line :: "string option"

record PropertyId =
  fn_name :: "string option"
  pclass :: string
  pid :: nat

record TraceItem =
  step_type :: string
  trace_location :: "RawSourceLocation option"

record Property =
  description :: string
  property_id :: PropertyId
  source_location :: RawSourceLocation
  pstatus :: CheckStatus
  trace :: "TraceItem list option"

definition property_class :: "Property \<Rightarrow> string" where
  "property_class p = pclass (property_id p)"

definition is_cover_property :: "Property \<Rightarrow> bool" where
  "is_cover_property p \<longleftrightarrow> pclass (property_id p) = ''cover''"

definition property_name :: "Property \<Rightarrow> string" where
  "property_name p =
     (let class = pclass (property_id p); n = usize_str (pid (property_id p)) in
      case fn_name (property_id p) of
        Some f \<Rightarrow> f @ ''.'' @ class @ ''.'' @ n
      | None \<Rightarrow> class @ ''.'' @ n)"

definition has_property_class_format :: "string \<Rightarrow> bool" where
  "has_property_class_format s \<longleftrightarrow>
     s = ''NaN'' \<or> list_all (\<lambda>c. (let n = of_char c :: nat in 97 \<le> n \<and> n \<le> 122) \<or> c = CHR ''_'' \<or> c = CHR ''-'') s"

definition is_missing :: "RawSourceLocation \<Rightarrow> bool" where
  "is_missing l \<longleftrightarrow> in_file l = None \<and> in_function l = None"

text \<open>\<open>Display for CheckStatus\<close>, without the terminal colours.\<close>

fun status_str :: "CheckStatus \<Rightarrow> string" where
  "status_str CSatisfied = ''SATISFIED''"
| "status_str CSuccess = ''SUCCESS''"
| "status_str CCovered = ''COVERED''"
| "status_str CUncovered = ''UNCOVERED''"
| "status_str CFailure = ''FAILURE''"
| "status_str CUnreachable = ''UNREACHABLE''"
| "status_str CUndetermined = ''UNDETERMINED''"
| "status_str CUnknown = ''UNDETERMINED''"
| "status_str CUnsatisfiable = ''UNSATISFIABLE''"

section \<open>The verdict record\<close>

datatype VerificationStatus = Success | Failure

datatype FailedProperties = NoFailures | PanicsOnly | OtherFailures

datatype LogicTier = TierA | TierB

datatype ValidationStatus = Validated | Unvalidated

fun tier_validation_status :: "LogicTier \<Rightarrow> ValidationStatus" where
  "tier_validation_status TierA = Validated"
| "tier_validation_status TierB = Unvalidated"

datatype CtrexCategory =
    EncodingGap "string list" | OverApproximation "string list" | Genuine | CtrexUnknown

fun ctrex_label :: "CtrexCategory \<Rightarrow> string" where
  "ctrex_label (EncodingGap _) = ''EncodingGap''"
| "ctrex_label (OverApproximation _) = ''OverApproximation''"
| "ctrex_label Genuine = ''Genuine''"
| "ctrex_label CtrexUnknown = ''Unknown''"

datatype UnknownQuality =
    QClean | QEncodingGap "string list" | QOverApproximation "string list" | QMixed "string list"

fun quality_label :: "UnknownQuality \<Rightarrow> string" where
  "quality_label QClean = ''Clean''"
| "quality_label (QEncodingGap _) = ''EncodingGap''"
| "quality_label (QOverApproximation _) = ''OverApproximation''"
| "quality_label (QMixed _) = ''Mixed''"

fun quality_reasons :: "UnknownQuality \<Rightarrow> string list" where
  "quality_reasons QClean = []"
| "quality_reasons (QEncodingGap rs) = rs"
| "quality_reasons (QOverApproximation rs) = rs"
| "quality_reasons (QMixed rs) = rs"

definition quality_details :: "UnknownQuality \<Rightarrow> string option" where
  "quality_details q =
     (if quality_reasons q = [] then None else Some (join '','' (quality_reasons q)))"

datatype SolverUnknownReason =
    Timeout | PreSolveDeadline | UndecidedModel | ChcParseError | SmtParseError | Memout
  | FalseProofRejected | SolverError

fun reason_label :: "SolverUnknownReason \<Rightarrow> string" where
  "reason_label Timeout = ''Timeout''"
| "reason_label PreSolveDeadline = ''PreSolveDeadline''"
| "reason_label UndecidedModel = ''UndecidedModel''"
| "reason_label ChcParseError = ''ChcParseError''"
| "reason_label SmtParseError = ''SmtParseError''"
| "reason_label Memout = ''Memout''"
| "reason_label FalseProofRejected = ''FalseProofRejected''"
| "reason_label SolverError = ''SolverError''"

datatype HarnessFeasibility = Undetermined | Reachable | Infeasible

record VerificationResult =
  status :: VerificationStatus
  failed_properties :: FailedProperties
  results :: "Property list"
  has_coverage_results :: bool
  logic_tier :: LogicTier
  validation_status :: ValidationStatus
  demotion_reasons :: "string list"
  ctrex_category :: "CtrexCategory option"
  unknown_quality :: "UnknownQuality option"
  solver_unknown_reason :: "SolverUnknownReason option"
  kani_mem_overapprox_count :: nat
  sound_fallback_count :: nat
  proof_qualifiers :: "string list"
  harness_feasibility :: HarnessFeasibility

section \<open>Predicates on the property table\<close>

text \<open>The loop of \<open>is_unsat_assumption_vacuous\<close>: covers and coverage rows are skipped, the
  remaining checks and the unreachable ones among them are counted.\<close>

fun count_checks :: "Property list \<Rightarrow> nat \<times> nat \<Rightarrow> nat \<times> nat" where
  "count_checks [] acc = acc"
| "count_checks (p # ps) (checks, unreachable) =
     (if is_cover_property p then count_checks ps (checks, unreachable)
      else if pstatus p = CCovered \<or> pstatus p = CUncovered then count_checks ps (checks, unreachable)
      else count_checks ps (checks + 1, if pstatus p = CUnreachable then unreachable + 1 else unreachable))"

definition is_unsat_assumption_vacuous :: "Property list \<Rightarrow> bool" where
  "is_unsat_assumption_vacuous ps =
     (case count_checks ps (0, 0) of (checks, unreachable) \<Rightarrow> checks > 0 \<and> unreachable = checks)"

datatype VacuityShape = NotVacuous | UnsatAssumption | DeadChecks

definition classify_vacuity :: "Property list \<Rightarrow> HarnessFeasibility \<Rightarrow> VacuityShape" where
  "classify_vacuity ps f =
     (if \<not> is_unsat_assumption_vacuous ps then NotVacuous
      else case f of Reachable \<Rightarrow> DeadChecks | Infeasible \<Rightarrow> UnsatAssumption | Undetermined \<Rightarrow> UnsatAssumption)"

definition has_decided_check :: "Property list \<Rightarrow> bool" where
  "has_decided_check ps \<longleftrightarrow>
     list_ex (\<lambda>p. \<not> is_cover_property p \<and> (pstatus p = CSuccess \<or> pstatus p = CFailure \<or> pstatus p = CUnreachable)) ps"

definition has_unsatisfiable_cover :: "Property list \<Rightarrow> bool" where
  "has_unsatisfiable_cover ps \<longleftrightarrow>
     list_ex (\<lambda>p. is_cover_property p \<and> (pstatus p = CUnsatisfiable \<or> pstatus p = CUnreachable)) ps"

definition has_satisfied_cover :: "Property list \<Rightarrow> bool" where
  "has_satisfied_cover ps \<longleftrightarrow> list_ex (\<lambda>p. is_cover_property p \<and> pstatus p = CSatisfied) ps"

text \<open>\<open>unwind_bound_exhausted\<close> of \<open>harness_runner.rs\<close>.\<close>

definition unwind_bound_exhausted :: "Property list \<Rightarrow> bool" where
  "unwind_bound_exhausted ps \<longleftrightarrow> list_ex (\<lambda>p. pstatus p = CFailure \<and> pclass (property_id p) = ''unwind'') ps"

text \<open>\<open>determine_failed_from_properties\<close>.\<close>

definition is_panic_class :: "string \<Rightarrow> bool" where
  "is_panic_class c \<longleftrightarrow> c = ''assertion'' \<or> c = ''panic'' \<or> c = ''unreachable''"

fun scan_failures :: "Property list \<Rightarrow> bool \<times> bool \<Rightarrow> bool \<times> bool" where
  "scan_failures [] acc = acc"
| "scan_failures (p # ps) (has_panic, has_other) =
     (if pstatus p = CFailure
      then if is_panic_class (pclass (property_id p)) then scan_failures ps (True, has_other)
           else scan_failures ps (has_panic, True)
      else scan_failures ps (has_panic, has_other))"

definition determine_failed_from_properties :: "Property list \<Rightarrow> FailedProperties" where
  "determine_failed_from_properties ps =
     (case scan_failures ps (False, False) of (has_panic, has_other) \<Rightarrow>
        if has_other then OtherFailures else if has_panic then PanicsOnly else NoFailures)"

text \<open>\<open>is_effective_manual_success\<close> of \<open>demotion.rs\<close>.\<close>

definition is_effective_manual_success :: "VerificationStatus \<Rightarrow> bool \<Rightarrow> FailedProperties \<Rightarrow> bool" where
  "is_effective_manual_success st should_panic fp =
     (if should_panic then fp = PanicsOnly else st = Success)"

definition effective_success_reason :: "VerificationStatus \<Rightarrow> bool \<Rightarrow> FailedProperties \<Rightarrow> string option" where
  "effective_success_reason st should_panic fp =
     (if st \<noteq> Success \<and> should_panic \<and> fp = PanicsOnly then Some ''should_panic_panics_only'' else None)"

section \<open>Facts\<close>

definition is_check :: "Property \<Rightarrow> bool" where
  "is_check p \<longleftrightarrow> \<not> is_cover_property p \<and> pstatus p \<noteq> CCovered \<and> pstatus p \<noteq> CUncovered"

lemma count_checks_eq:
  "count_checks ps (c, u) =
     (c + length (filter is_check ps), u + length (filter (\<lambda>p. is_check p \<and> pstatus p = CUnreachable) ps))"
  by (induction ps arbitrary: c u) (auto simp: is_check_def)

lemma filter_all_iff: "length (filter (\<lambda>x. P x \<and> Q x) xs) = length (filter P xs) \<longleftrightarrow> (\<forall>x \<in> set xs. P x \<longrightarrow> Q x)"
proof (induction xs)
  case (Cons x xs)
  have "length (filter (\<lambda>x. P x \<and> Q x) xs) \<le> length (filter P xs)"
    by (induction xs) auto
  with Cons show ?case
    by auto
qed simp

lemma is_unsat_assumption_vacuous_iff:
  "is_unsat_assumption_vacuous ps \<longleftrightarrow>
     (\<exists>p \<in> set ps. is_check p) \<and> (\<forall>p \<in> set ps. is_check p \<longrightarrow> pstatus p = CUnreachable)"
proof -
  have "0 < length (filter is_check ps) \<longleftrightarrow> (\<exists>p \<in> set ps. is_check p)"
    by (auto simp: filter_empty_conv)
  then show ?thesis
    by (simp add: is_unsat_assumption_vacuous_def count_checks_eq filter_all_iff)
qed

lemma scan_failures_eq:
  "scan_failures ps (a, b) =
     (a \<or> (\<exists>p \<in> set ps. pstatus p = CFailure \<and> is_panic_class (pclass (property_id p))),
      b \<or> (\<exists>p \<in> set ps. pstatus p = CFailure \<and> \<not> is_panic_class (pclass (property_id p))))"
  by (induction ps arbitrary: a b) auto

lemma determine_failed_cases:
  "(determine_failed_from_properties ps = NoFailures \<longleftrightarrow> \<not> (\<exists>p \<in> set ps. pstatus p = CFailure)) \<and>
   (determine_failed_from_properties ps = OtherFailures \<longleftrightarrow>
      (\<exists>p \<in> set ps. pstatus p = CFailure \<and> \<not> is_panic_class (property_class p))) \<and>
   (determine_failed_from_properties ps = PanicsOnly \<longleftrightarrow>
      (\<exists>p \<in> set ps. pstatus p = CFailure) \<and>
      \<not> (\<exists>p \<in> set ps. pstatus p = CFailure \<and> \<not> is_panic_class (property_class p)))"
  by (auto simp: determine_failed_from_properties_def scan_failures_eq property_class_def)

text \<open>C36: \<open>determine_failed_from_properties\<close> meets the contract of its documentation, line by line, on every
  property table whose failed panics carry the class \<open>assertion\<close>, as its REQUIRES line says (the classes
  \<open>panic\<close> and \<open>unreachable\<close>, which the body counts as panics against that contract, are left
  out, see below): \<open>None\<close> exactly when no property failed, \<open>Other\<close> exactly when a property of
  another class than \<open>assertion\<close> failed, \<open>PanicsOnly\<close> exactly when assertions failed and nothing
  else did.\<close>

theorem determine_failed_contract:
  assumes "\<forall>p \<in> set ps. pstatus p = CFailure \<longrightarrow> property_class p \<noteq> ''panic'' \<and> property_class p \<noteq> ''unreachable''"
  shows "(determine_failed_from_properties ps = NoFailures \<longleftrightarrow> \<not> (\<exists>p \<in> set ps. pstatus p = CFailure)) \<and>
    (determine_failed_from_properties ps = OtherFailures \<longleftrightarrow>
       (\<exists>p \<in> set ps. pstatus p = CFailure \<and> property_class p \<noteq> ''assertion'')) \<and>
    (determine_failed_from_properties ps = PanicsOnly \<longleftrightarrow>
       (\<exists>p \<in> set ps. pstatus p = CFailure \<and> property_class p = ''assertion'') \<and>
       \<not> (\<exists>p \<in> set ps. pstatus p = CFailure \<and> property_class p \<noteq> ''assertion''))"
  unfolding determine_failed_cases [THEN conjunct1] determine_failed_cases [THEN conjunct2, THEN conjunct1]
    determine_failed_cases [THEN conjunct2, THEN conjunct2]
  using assms by (auto simp: is_panic_class_def)

lemma panics_only_no_unwind:
  "determine_failed_from_properties ps = PanicsOnly \<Longrightarrow> \<not> unwind_bound_exhausted ps"
  by (auto simp: determine_failed_from_properties_def scan_failures_eq unwind_bound_exhausted_def
      list_ex_iff is_panic_class_def split: if_splits)

section \<open>Sample values\<close>

definition sample_result :: "VerificationStatus \<Rightarrow> FailedProperties \<Rightarrow> Property list \<Rightarrow> VerificationResult" where
  "sample_result st fp ps = \<lparr> status = st, failed_properties = fp, results = ps, has_coverage_results = False,
     logic_tier = TierA, validation_status = Validated, demotion_reasons = [], ctrex_category = None,
     unknown_quality = None, solver_unknown_reason = None, kani_mem_overapprox_count = 0,
     sound_fallback_count = 0, proof_qualifiers = [], harness_feasibility = Undetermined \<rparr>"

lemma sample_result_fields [simp]:
  "status (sample_result st fp ps) = st"
  "failed_properties (sample_result st fp ps) = fp"
  "results (sample_result st fp ps) = ps"
  "has_coverage_results (sample_result st fp ps) = False"
  "validation_status (sample_result st fp ps) = Validated"
  "ctrex_category (sample_result st fp ps) = None"
  "solver_unknown_reason (sample_result st fp ps) = None"
  "harness_feasibility (sample_result st fp ps) = Undetermined"
  "demotion_reasons (sample_result st fp ps) = []"
  by (simp_all add: sample_result_def)

definition sample_property :: "string \<Rightarrow> nat \<Rightarrow> CheckStatus \<Rightarrow> Property" where
  "sample_property cls n st = \<lparr> description = [], property_id = \<lparr> fn_name = None, pclass = cls, pid = n \<rparr>,
     source_location = \<lparr> column = None, in_file = None, in_function = None, line = None \<rparr>,
     pstatus = st, trace = None \<rparr>"

lemma sample_property_fields [simp]:
  "pclass (property_id (sample_property cls n st)) = cls"
  "pid (property_id (sample_property cls n st)) = n"
  "pstatus (sample_property cls n st) = st"
  by (simp_all add: sample_property_def)

section \<open>The documented contract of the failure classes\<close>

theorem determine_failed_contract_witness:
  "determine_failed_from_properties [sample_property ''assertion'' 1 CFailure, sample_property ''panic'' 2 CSuccess] = PanicsOnly \<and>
   determine_failed_from_properties [sample_property ''assertion'' 1 CFailure, sample_property ''overflow'' 2 CFailure] = OtherFailures"
  using determine_failed_contract [of "[sample_property ''assertion'' 1 CFailure, sample_property ''panic'' 2 CSuccess]"]
    determine_failed_contract [of "[sample_property ''assertion'' 1 CFailure, sample_property ''overflow'' 2 CFailure]"]
  by (simp add: property_class_def)

text \<open>The contract says that a failed property of another class than \<open>assertion\<close> gives \<open>Other\<close>;
  the body lets the classes \<open>panic\<close> and \<open>unreachable\<close> pass as panics.\<close>

lemma panic_class_not_other:
  "determine_failed_from_properties [sample_property ''panic'' 1 CFailure] = PanicsOnly"
  "determine_failed_from_properties [sample_property ''unreachable'' 1 CFailure] = PanicsOnly"
  by (simp_all add: determine_failed_from_properties_def is_panic_class_def)

end
