(* ===== verification/Demotion.thy ===== *)
theory Demotion
  imports Counts Results
begin

text \<open>
  The gate between a solver's PROOF and a reported success
  (\<open>trust-mc-driver/src/demotion.rs\<close>): which per-harness counter entries are charged to a harness,
  the seventeen demoting categories, the sound-fallback split, and the demotion itself.

  The attribution rule is the locale \<open>name_matching\<close>: from reflexivity and symmetry of the name
  match alone it follows that no entry of a counter map is lost, whatever its key is.  The driver's
  \<open>harness_names_match\<close> is its interpretation.
\<close>

section \<open>Attribution of counter keys\<close>

definition unique_harness_suffix_match :: "string \<Rightarrow> string \<Rightarrow> bool" where
  "unique_harness_suffix_match qualified sfx \<longleftrightarrow>
     length qualified > length sfx \<and>
     (case strip_suffix qualified sfx of None \<Rightarrow> False | Some pre \<Rightarrow> ends_with pre ''::'')"

definition harness_names_match :: "string \<Rightarrow> string \<Rightarrow> bool" where
  "harness_names_match a b \<longleftrightarrow>
     a = b \<or> unique_harness_suffix_match a b \<or> unique_harness_suffix_match b a"

definition attributable_to_harness :: "string \<Rightarrow> string \<Rightarrow> string list \<Rightarrow> bool" where
  "attributable_to_harness key h names \<longleftrightarrow>
     harness_names_match key h \<or>
     \<not> list_ex (\<lambda>name. name \<noteq> h \<and> harness_names_match key name) names"

text \<open>\<open>lookup_per_harness\<close>: the exact key, else the unique most specific suffix match.  The loop
  keeps the best match with its length, and whether that length was met twice.\<close>

definition lookup_step :: "string \<Rightarrow> string \<times> 'v \<Rightarrow> ('v \<times> nat) option \<times> bool \<Rightarrow> ('v \<times> nat) option \<times> bool" where
  "lookup_step h e st =
     (if unique_harness_suffix_match (fst e) h \<or> unique_harness_suffix_match h (fst e)
      then let n = min (length (fst e)) (length h) in
        (case fst st of
           None \<Rightarrow> (Some (snd e, n), False)
         | Some (v, b) \<Rightarrow>
             if n > b then (Some (snd e, n), False)
             else if n = b then (Some (v, b), True)
             else st)
      else st)"

definition lookup_per_harness :: "(string, 'v) btree \<Rightarrow> string \<Rightarrow> 'v option" where
  "lookup_per_harness m h =
     (case bt_get m h of
        Some v \<Rightarrow> Some v
      | None \<Rightarrow> (case fold (lookup_step h) m (None, False) of
                 (best, ambiguous) \<Rightarrow> if ambiguous then None else map_option fst best))"

definition resolve_per_harness_count :: "nat \<Rightarrow> harness_counts \<Rightarrow> string \<Rightarrow> nat" where
  "resolve_per_harness_count crate_total ph h =
     (if ph = [] then crate_total else case lookup_per_harness ph h of None \<Rightarrow> 0 | Some n \<Rightarrow> n)"

definition resolve_per_harness_count_fail_closed :: "nat \<Rightarrow> harness_counts \<Rightarrow> string \<Rightarrow> string list \<Rightarrow> nat" where
  "resolve_per_harness_count_fail_closed crate_total ph h names =
     (if ph = [] then crate_total
      else sum_list (map snd (filter (\<lambda>e. attributable_to_harness (fst e) h names) ph)))"

section \<open>The gates\<close>

definition resolve_demoting_categories :: "HarnessMetadata \<Rightarrow> CrateUnsoundnessCounts \<Rightarrow> (string \<times> nat) list" where
  "resolve_demoting_categories h c =
     (let resolve = (\<lambda>total ph. resolve_per_harness_count_fail_closed total ph (pretty_name h) (c_harness_names c)) in
     [(json_key ConstantZeroFallback, resolve (c_constant_zero_fallback c) (c_constant_zero_per_harness c)),
      (json_key InternalWorkaround, resolve (c_internal_workaround c) (c_internal_workaround_per_harness c)),
      (json_key ChcFallback, resolve (c_chc_fallback c) (c_chc_fallback_per_harness c)),
      (json_key TypeSortFallback, resolve (c_type_sort_fallback c) (c_type_sort_fallback_per_harness c)),
      (json_key SignednessFallback, resolve (c_signedness_fallback c) (c_signedness_fallback_per_harness c)),
      (json_key UnsupportedConstructFallback, resolve (c_unsupported_construct_fallback c) (c_unsupported_construct_per_harness c)),
      (json_key UnconstrainedAssignment, resolve (c_unconstrained_assignment c) (c_unconstrained_assignment_per_harness c)),
      (json_key BmcStoreCoercionFallback, resolve (c_bmc_store_coercion_fallback c) (c_bmc_store_coercion_per_harness c)),
      (json_key StoreDroppedTransition, resolve (c_store_dropped_transition c) (c_store_dropped_transition_per_harness c)),
      (json_key DivergingCallDrop, resolve (c_diverging_call_drop c) (c_diverging_call_drop_per_harness c)),
      (json_key OffsetProvenanceUnresolved, resolve (c_offset_provenance_unresolved c) (c_offset_provenance_unresolved_per_harness c)),
      (json_key KaniMemOverapprox, resolve (c_kani_mem_overapprox c) (c_kani_mem_overapprox_per_harness c)),
      (json_key InferablePredicate, resolve (c_inferable_predicate c) (c_inferable_predicate_per_harness c)),
      (json_key FpBitvectorEncoding, resolve (c_fp_bitvector_encoding c) (c_fp_bitvector_encoding_per_harness c)),
      (json_key RoundingAssertionBypass, resolve (c_rounding_assertion_bypass c) (c_rounding_assertion_bypass_per_harness c)),
      (json_key VecFieldFallback, resolve (c_vec_field_fallback c) (c_vec_field_fallback_per_harness c)),
      (json_key PointeeSynthesisFallback, resolve (c_pointee_synthesis_fallback c) (c_pointee_synthesis_fallback_per_harness c))])"

definition sound_approx_categories_fail_closed :: "CrateUnsoundnessCounts \<Rightarrow> string \<Rightarrow> (string, nat) btree" where
  "sound_approx_categories_fail_closed c h =
     fold (\<lambda>kc totals. if \<not> attributable_to_harness (fst kc) h (c_harness_names c) then totals
                        else tally (snd kc) totals)
       (c_sound_approx_per_harness c) []"

definition apply_sound_fallback_fail_close ::
    "VerificationResult \<Rightarrow> HarnessMetadata \<Rightarrow> CrateUnsoundnessCounts \<Rightarrow> VerificationResult" where
  "apply_sound_fallback_fail_close r h c =
     (let approx = filter (\<lambda>e. fst e \<noteq> json_key ChcSoundHavocDrop)
                     (sound_approx_categories_fail_closed c (pretty_name h));
          r = r\<lparr> sound_fallback_count := sum_list (map snd approx) \<rparr> in
      if status r = Success \<and> sound_fallback_count r > 0
      then r\<lparr> status := Failure, failed_properties := OtherFailures,
              ctrex_category := Some (OverApproximation (map entry_str approx)) \<rparr>
      else r)"

definition demote_for_all_unsoundness ::
    "VerificationResult \<Rightarrow> HarnessMetadata \<Rightarrow> CrateUnsoundnessCounts \<Rightarrow> VerificationResult" where
  "demote_for_all_unsoundness r h c =
     (if status r \<noteq> Success then r
      else let triggers = filter (\<lambda>e. snd e > 0) (resolve_demoting_categories h c) in
        if triggers = [] then r
        else r\<lparr> status := Failure, failed_properties := OtherFailures,
                demotion_reasons := map entry_str triggers \<rparr>)"

section \<open>The attribution law\<close>

locale name_matching =
  fixes matches :: "'n \<Rightarrow> 'n \<Rightarrow> bool"
  assumes matches_refl: "matches a a"
    and matches_sym: "matches a b \<Longrightarrow> matches b a"
begin

definition charged_to :: "'n \<Rightarrow> 'n \<Rightarrow> 'n set \<Rightarrow> bool" where
  "charged_to key h names \<longleftrightarrow> matches key h \<or> \<not> (\<exists>name \<in> names. name \<noteq> h \<and> matches key name)"

lemma some_harness_charged: "names \<noteq> {} \<Longrightarrow> \<exists>h \<in> names. charged_to key h names"
  unfolding charged_to_def by (cases "\<exists>name \<in> names. matches key name") auto

lemma own_key_charged: "charged_to h h names"
  by (simp add: charged_to_def matches_refl)

lemma stranger_charged_to_all: "\<not> (\<exists>name \<in> names. matches name key) \<Longrightarrow> charged_to key h names"
  unfolding charged_to_def by (metis matches_sym)

lemma sibling_not_charged: "g \<in> names \<Longrightarrow> matches g key \<Longrightarrow> \<not> matches key h \<Longrightarrow> \<not> charged_to key h names"
  unfolding charged_to_def by (metis matches_sym)

lemma charged_weight:
  fixes w :: "'e \<Rightarrow> nat"
  assumes "names \<noteq> {}" "finite names"
  shows "sum_list (map w ph) \<le> (\<Sum>h \<in> names. sum_list (map w (filter (\<lambda>e. charged_to (key e) h names) ph)))"
proof (induction ph)
  case (Cons e ph)
  obtain h where h: "h \<in> names" "charged_to (key e) h names"
    using some_harness_charged [OF assms(1)] by blast
  have "w e \<le> (\<Sum>g \<in> names. if charged_to (key e) g names then w e else 0)"
    using sum_mono2 [of names "{h}" "\<lambda>g. if charged_to (key e) g names then w e else 0"] h assms(2) by simp
  moreover have "(\<Sum>g \<in> names. sum_list (map w (filter (\<lambda>e. charged_to (key e) g names) (e # ph)))) =
      (\<Sum>g \<in> names. if charged_to (key e) g names then w e else 0) +
      (\<Sum>g \<in> names. sum_list (map w (filter (\<lambda>e. charged_to (key e) g names) ph)))"
    unfolding sum.distrib [symmetric] by (rule sum.cong) auto
  ultimately show ?case
    using Cons by simp
qed simp

end

interpretation harness_match: name_matching harness_names_match
  by unfold_locales (auto simp: harness_names_match_def)

lemma attributable_charged: "attributable_to_harness key h names = harness_match.charged_to key h (set names)"
  by (simp add: attributable_to_harness_def harness_match.charged_to_def list_ex_iff)

lemma attributable_set: "set xs = set ys \<Longrightarrow> attributable_to_harness key h xs = attributable_to_harness key h ys"
  by (simp add: attributable_charged)

lemma suffix_match_iff: "unique_harness_suffix_match a b \<longleftrightarrow> (\<exists>pre. a = pre @ ''::'' @ b)"
proof
  assume "unique_harness_suffix_match a b"
  then show "\<exists>pre. a = pre @ ''::'' @ b"
    by (auto simp: unique_harness_suffix_match_def strip_suffix_Some ends_with_suffix suffix_def
        split: option.splits)
next
  assume "\<exists>pre. a = pre @ ''::'' @ b"
  then obtain pre where a: "a = (pre @ ''::'') @ b"
    by auto
  then have "strip_suffix a b = Some (pre @ ''::'')"
    by (simp only: strip_suffix_Some)
  then show "unique_harness_suffix_match a b"
    using a by (simp add: unique_harness_suffix_match_def ends_with_suffix suffix_def)
qed

section \<open>The lookup loop\<close>

definition suffix_candidates :: "(string \<times> 'v) list \<Rightarrow> string \<Rightarrow> (string \<times> 'v) list" where
  "suffix_candidates m h =
     filter (\<lambda>e. unique_harness_suffix_match (fst e) h \<or> unique_harness_suffix_match h (fst e)) m"

abbreviation weight :: "string \<Rightarrow> string \<times> 'v \<Rightarrow> nat" where
  "weight h e \<equiv> min (length (fst e)) (length h)"

text \<open>The loop state after the candidates \<open>pre\<close>: the first of the longest matches, and whether there
  is another one of that length.\<close>

fun loop_state :: "string \<Rightarrow> (string \<times> 'v) list \<Rightarrow> ('v \<times> nat) option \<times> bool \<Rightarrow> bool" where
  "loop_state h pre (None, ambiguous) \<longleftrightarrow> pre = [] \<and> \<not> ambiguous"
| "loop_state h pre (Some (v, b), ambiguous) \<longleftrightarrow>
     (\<forall>e \<in> set pre. weight h e \<le> b) \<and>
     (\<exists>k rest. filter (\<lambda>e. weight h e = b) pre = (k, v) # rest \<and> (ambiguous \<longleftrightarrow> rest \<noteq> []))"

lemma filter_above: "(\<forall>x \<in> set xs. f x \<le> (b :: nat)) \<Longrightarrow> b < n \<Longrightarrow> filter (\<lambda>x. f x = n) xs = []"
  by (auto simp: filter_empty_conv)

lemma filter_hd: "filter P xs = y # ys \<Longrightarrow> y \<in> set xs \<and> P y"
  by (auto simp: filter_eq_Cons_iff)

lemma loop_state_step:
  assumes "loop_state h pre st" "suffix_candidates [e] h = [e]"
  shows "loop_state h (pre @ [e]) (lookup_step h e st)"
proof -
  have m: "unique_harness_suffix_match (fst e) h \<or> unique_harness_suffix_match h (fst e)"
    using assms(2) by (simp add: suffix_candidates_def split: if_splits)
  show ?thesis
  proof (cases "(h, pre, st)" rule: loop_state.cases)
    case (1 h' pre' ambiguous)
    then show ?thesis
      using assms(1) m by (cases e) (simp add: lookup_step_def Let_def)
  next
    case (2 h' pre' v b ambiguous)
    then have st: "st = (Some (v, b), ambiguous)" and le: "\<forall>e \<in> set pre. weight h e \<le> b"
      using assms(1) by auto
    obtain k rest where fl: "filter (\<lambda>e. weight h e = b) pre = (k, v) # rest" "ambiguous \<longleftrightarrow> rest \<noteq> []"
      using assms(1) st by auto
    consider "weight h e > b" | "weight h e = b" | "weight h e < b"
      by linarith
    then show ?thesis
    proof cases
      case 1
      then show ?thesis
        using st m le filter_above [OF le 1]
        by (cases e) (auto simp: lookup_step_def Let_def intro: order_trans less_imp_le)
    next
      case 2
      then show ?thesis
        using st m le fl by (simp add: lookup_step_def Let_def)
    next
      case 3
      then show ?thesis
        using st m le fl by (auto simp: lookup_step_def Let_def)
    qed
  qed
qed

lemma lookup_fold_state: "loop_state h (suffix_candidates m h) (fold (lookup_step h) m (None, False))"
proof (induction m rule: rev_induct)
  case (snoc e m)
  show ?case
  proof (cases "suffix_candidates [e] h = [e]")
    case True
    then have "suffix_candidates (m @ [e]) h = suffix_candidates m h @ [e]"
      by (simp add: suffix_candidates_def)
    then show ?thesis
      using loop_state_step [OF snoc True] by simp
  next
    case False
    then have "suffix_candidates (m @ [e]) h = suffix_candidates m h" "lookup_step h e st = st" for st :: "('a \<times> nat) option \<times> bool"
      by (auto simp: suffix_candidates_def lookup_step_def split: if_splits)
    then show ?thesis
      using snoc by simp
  qed
qed (simp add: suffix_candidates_def)

lemma loop_state_result:
  assumes "loop_state h pre st"
  shows "(if snd st then None else map_option fst (fst st)) = Some v \<longleftrightarrow>
           (\<exists>k. filter (\<lambda>e. weight h e = weight h (k, v)) pre = [(k, v)] \<and>
                (\<forall>e \<in> set pre. weight h e \<le> weight h (k, v)))" (is "?L \<longleftrightarrow> ?R")
proof (cases "(h, pre, st)" rule: loop_state.cases)
  case (1 h' pre' ambiguous)
  then show ?thesis
    using assms by simp
next
  case (2 h' pre' w b ambiguous)
  then have st: "st = (Some (w, b), ambiguous)" and le: "\<forall>e \<in> set pre. weight h e \<le> b"
    using assms by auto
  obtain k rest where fl: "filter (\<lambda>e. weight h e = b) pre = (k, w) # rest" "ambiguous \<longleftrightarrow> rest \<noteq> []"
    using assms st by auto
  then have kw: "(k, w) \<in> set pre" "weight h (k, w) = b"
    using filter_hd [OF fl(1)] by simp_all
  have wt: "weight h (k', v) = b" if "(k', v) \<in> set pre" "\<forall>e \<in> set pre. weight h e \<le> weight h (k', v)" for k'
    using that kw le by (metis le_antisym)
  show ?thesis
  proof
    assume ?L
    then show ?R
      using st fl kw(2) le by (intro exI [of _ k]) (auto split: if_splits)
  next
    assume ?R
    then obtain k' where k': "filter (\<lambda>e. weight h e = weight h (k', v)) pre = [(k', v)]"
        "\<forall>e \<in> set pre. weight h e \<le> weight h (k', v)"
      by auto
    then have "(k', v) \<in> set pre"
      using filter_hd [OF k'(1)] by simp
    then show ?L
      using k' wt [of k'] fl st by simp
  qed
qed

lemma filter_singleton_iff:
  "distinct xs \<Longrightarrow> filter P xs = [x] \<longleftrightarrow> x \<in> set xs \<and> P x \<and> (\<forall>y \<in> set xs. P y \<longrightarrow> y = x)"
proof (induction xs)
  case (Cons y ys)
  have "filter P ys = [] \<longleftrightarrow> (\<forall>y \<in> set ys. \<not> P y)"
    by (simp add: filter_empty_conv)
  with Cons show ?case
    by auto
qed simp

lemma unique_max_entry:
  fixes w :: "'k \<Rightarrow> nat"
  assumes inj: "\<And>k a b. (k, a) \<in> M \<Longrightarrow> (k, b) \<in> M \<Longrightarrow> a = b"
  shows "(k, v) \<in> M \<and> (\<forall>y \<in> M. w (fst y) = w k \<longrightarrow> y = (k, v)) \<and> (\<forall>e \<in> M. w (fst e) \<le> w k) \<longleftrightarrow>
         (k, v) \<in> M \<and> (\<forall>e \<in> M. fst e \<noteq> k \<longrightarrow> w (fst e) < w k)" (is "?L \<longleftrightarrow> ?R")
proof
  assume ?L
  then show ?R
    by (metis fst_conv le_less)
next
  assume ?R
  moreover have "e = (k, v)" if "e \<in> M" "fst e = k" for e
    using that \<open>?R\<close> inj [of k "snd e" v] by (metis prod.collapse)
  ultimately show ?L
    by (metis eq_iff fst_conv less_imp_le less_irrefl)
qed

text \<open>The per-harness lookup returns the exact entry when there is one, and otherwise the value of
  the matching key whose shared suffix is strictly longer than that of every other matching key; with
  no such key, or with two that tie, it returns nothing.\<close>

theorem lookup_per_harness_spec:
  assumes "bt_wf m"
  shows "lookup_per_harness m h = Some v \<longleftrightarrow>
     bt_get m h = Some v \<or>
     bt_get m h = None \<and>
     (\<exists>k. (k, v) \<in> set m \<and> harness_names_match k h \<and>
        (\<forall>e \<in> set m. harness_names_match (fst e) h \<and> fst e \<noteq> k \<longrightarrow> weight h e < weight h (k, v)))"
proof (cases "bt_get m h")
  case None
  then have no: "h \<notin> fst ` set m"
    by (simp add: map_of_eq_None_iff)
  have dist: "distinct (suffix_candidates m h)"
    using bt_wf_distinct [OF assms] by (simp add: suffix_candidates_def distinct_map)
  have inj: "\<And>k a b. (k, a) \<in> set m \<Longrightarrow> (k, b) \<in> set m \<Longrightarrow> a = b"
    using bt_wf_distinct [OF assms] by (meson eq_key_imp_eq_value)
  have cand: "e \<in> set (suffix_candidates m h) \<longleftrightarrow> e \<in> set m \<and> harness_names_match (fst e) h" for e
    using no by (auto simp: suffix_candidates_def harness_names_match_def)
  have inj': "\<And>k a b. (k, a) \<in> set (suffix_candidates m h) \<Longrightarrow> (k, b) \<in> set (suffix_candidates m h) \<Longrightarrow> a = b"
    unfolding cand by (blast dest: inj)
  have "lookup_per_harness m h = Some v \<longleftrightarrow>
      (\<exists>k. filter (\<lambda>e. weight h e = weight h (k, v)) (suffix_candidates m h) = [(k, v)] \<and>
           (\<forall>e \<in> set (suffix_candidates m h). weight h e \<le> weight h (k, v)))"
    using loop_state_result [OF lookup_fold_state, of h m v] None
    by (simp add: lookup_per_harness_def case_prod_beta)
  also have "\<dots> \<longleftrightarrow> (\<exists>k. (k, v) \<in> set (suffix_candidates m h) \<and>
        (\<forall>e \<in> set (suffix_candidates m h). fst e \<noteq> k \<longrightarrow> weight h e < weight h (k, v)))"
    using unique_max_entry [where M = "set (suffix_candidates m h)" and w = "\<lambda>k. min (length k) (length h)", OF inj']
    unfolding filter_singleton_iff [OF dist] by simp
  also have "\<dots> \<longleftrightarrow> (\<exists>k. (k, v) \<in> set m \<and> harness_names_match k h \<and>
        (\<forall>e \<in> set m. harness_names_match (fst e) h \<and> fst e \<noteq> k \<longrightarrow> weight h e < weight h (k, v)))"
    unfolding Ball_def cand by (intro ex_cong1) auto
  finally show ?thesis
    using None by simp
qed (simp add: lookup_per_harness_def)

theorem lookup_per_harness_spec_witness:
  "lookup_per_harness [(''h'', 7 :: nat), (''m::h'', 5)] ''c::m::h'' = Some 5"
proof -
  have wf: "bt_wf [(''h'', 7 :: nat), (''m::h'', 5)]"
    by (simp add: bt_wf_def less_list_code)
  have "harness_names_match ''m::h'' ''c::m::h''"
    unfolding harness_names_match_def suffix_match_iff by (intro disjI2 disjI2 exI [of _ "''c''"]) simp
  then show ?thesis
    by (subst lookup_per_harness_spec [OF wf]) simp
qed

section \<open>Demotion\<close>

definition demote_order :: "UnsoundnessCategory list" where
  "demote_order =
    [ConstantZeroFallback, InternalWorkaround, ChcFallback, TypeSortFallback,
     SignednessFallback, UnsupportedConstructFallback, UnconstrainedAssignment,
     BmcStoreCoercionFallback, StoreDroppedTransition, DivergingCallDrop,
     OffsetProvenanceUnresolved, KaniMemOverapprox, InferablePredicate, FpBitvectorEncoding,
     RoundingAssertionBypass, VecFieldFallback, PointeeSynthesisFallback]"

lemma demote_order_set: "cat \<in> set demote_order \<longleftrightarrow> category_class cat = Demoted"
  by (cases cat) (simp_all add: demote_order_def)

definition charged :: "KaniMetadata \<Rightarrow> HarnessMetadata \<Rightarrow> UnsoundnessCategory \<Rightarrow> nat" where
  "charged m h cat =
     resolve_per_harness_count_fail_closed (counter_total m cat) (counter_map m cat) (pretty_name h)
       (map pretty_name (proof_harnesses m))"

lemma resolve_categories_slice:
  "resolve_demoting_categories h c =
     map (\<lambda>cat. (json_key cat, resolve_per_harness_count_fail_closed (slice_total cat c) (slice_map cat c)
                   (pretty_name h) (c_harness_names c))) demote_order"
  by (simp add: resolve_demoting_categories_def demote_order_def Let_def)

lemma resolve_names_set:
  "set xs = set ys \<Longrightarrow>
   resolve_per_harness_count_fail_closed t ph h xs = resolve_per_harness_count_fail_closed t ph h ys"
  by (simp add: resolve_per_harness_count_fail_closed_def attributable_charged)

lemma resolve_categories_record:
  assumes "only_record p m"
  shows "resolve_demoting_categories h (get_for_crate (from_project p) (crate_name m)) =
     map (\<lambda>cat. (json_key cat, charged m h cat)) demote_order"
  unfolding resolve_categories_slice charged_def
  by (rule map_cong)
    (auto simp: demote_order_set slice_total_record slice_map_record slice_names_record assms
      intro!: resolve_names_set)

lemma demote_status:
  assumes "only_record p m"
  shows "status (demote_for_all_unsoundness r h (get_for_crate (from_project p) (crate_name m))) = Success \<longleftrightarrow>
     status r = Success \<and> (\<forall>cat. category_class cat = Demoted \<longrightarrow> charged m h cat = 0)"
proof -
  have "filter (\<lambda>e. 0 < snd e) (map (\<lambda>cat. (json_key cat, charged m h cat)) demote_order) = [] \<longleftrightarrow>
      (\<forall>cat. category_class cat = Demoted \<longrightarrow> charged m h cat = 0)"
    by (auto simp: filter_empty_conv demote_order_set)
  then show ?thesis
    by (cases "status r") (simp_all add: demote_for_all_unsoundness_def resolve_categories_record [OF assms] Let_def)
qed

text \<open>C2: The proof gate, from the compiler's metadata to the verdict: for a crate whose name occurs once,
  a successful result is turned into a failure exactly when some demoting category is charged to the
  harness, every such category is listed with its count, and nothing else of the result changes.\<close>

theorem demotion_gate:
  assumes "only_record p m"
  shows "demote_for_all_unsoundness r h (get_for_crate (from_project p) (crate_name m)) =
     (if status r = Success \<and> (\<exists>cat. category_class cat = Demoted \<and> charged m h cat > 0)
      then r\<lparr> status := Failure, failed_properties := OtherFailures,
              demotion_reasons := [entry_str (json_key cat, charged m h cat). cat \<leftarrow> demote_order, charged m h cat > 0] \<rparr>
      else r)"
proof -
  have "filter (\<lambda>e. 0 < snd e) (map (\<lambda>cat. (json_key cat, charged m h cat)) cs) =
      map (\<lambda>cat. (json_key cat, charged m h cat)) (filter (\<lambda>cat. 0 < charged m h cat) cs)" for cs
    by (simp add: filter_map comp_def)
  moreover have "map entry_str (map (\<lambda>cat. (json_key cat, charged m h cat)) (filter (\<lambda>cat. 0 < charged m h cat) cs)) =
      [entry_str (json_key cat, charged m h cat). cat \<leftarrow> cs, charged m h cat > 0]" for cs
    by (induction cs) auto
  moreover have "filter (\<lambda>cat. 0 < charged m h cat) demote_order = [] \<longleftrightarrow>
      \<not> (\<exists>cat. category_class cat = Demoted \<and> charged m h cat > 0)"
    by (auto simp: filter_empty_conv demote_order_set)
  ultimately show ?thesis
    by (cases "status r") (auto simp: demote_for_all_unsoundness_def resolve_categories_record [OF assms] Let_def)
qed

definition sample_harness :: "string \<Rightarrow> string \<Rightarrow> HarnessMetadata" where
  "sample_harness name crate = \<lparr> pretty_name = name, mangled_name = name, h_crate_name = crate,
     original_file = ''lib.rs'', original_start_line = 1, original_end_line = 2, model_file = [],
     attributes = new_attributes Proof, contract = None, has_loop_contracts = False,
     is_automatically_generated = False \<rparr>"

definition sample_fallbacks :: "string \<Rightarrow> string list \<Rightarrow> harness_counts \<Rightarrow> KaniMetadata" where
  "sample_fallbacks crate hs ph = (clean_metadata crate (map (\<lambda>h. sample_harness h crate) hs))
     \<lparr> chc_fallbacks := Some \<lparr> total_count = sum_list (map snd ph), total_per_harness = ph \<rparr> \<rparr>"

lemma sample_fallbacks_fields [simp]:
  "crate_name (sample_fallbacks crate hs ph) = crate"
  "proof_harnesses (sample_fallbacks crate hs ph) = map (\<lambda>h. sample_harness h crate) hs"
  "counter_map (sample_fallbacks crate hs ph) ChcFallback = ph"
  "counter_total (sample_fallbacks crate hs ph) ChcFallback = sum_list (map snd ph)"
  by (simp_all add: sample_fallbacks_def clean_metadata_def counter_map_def counter_total_def map_or_def with_ph_def)

lemma sample_harness_name [simp]: "pretty_name (sample_harness h crate) = h"
  by (simp add: sample_harness_def)

lemma only_record_single [simp]: "only_record \<lparr> metadata = [m] \<rparr> m"
  by (simp add: only_record_def)

theorem demotion_gate_witness:
  "(let m = sample_fallbacks ''app'' [''app::a'', ''app::b''] [(''app::a'', 3)];
        c = get_for_crate (from_project \<lparr> metadata = [m] \<rparr>) (crate_name m);
        r = sample_result Success NoFailures [] in
    status (demote_for_all_unsoundness r (sample_harness ''app::a'' ''app'') c) = Failure)"
proof -
  let ?m = "sample_fallbacks ''app'' [''app::a'', ''app::b''] [(''app::a'', 3)]"
  let ?h = "sample_harness ''app::a'' ''app''"
  have "charged ?m ?h ChcFallback = 3"
    by (simp add: charged_def resolve_per_harness_count_fail_closed_def attributable_to_harness_def harness_names_match_def)
  then have "\<exists>cat. category_class cat = Demoted \<and> charged ?m ?h cat > 0"
    by (intro exI [of _ ChcFallback]) simp
  then show ?thesis
    unfolding Let_def demotion_gate [OF only_record_single] by simp
qed

text \<open>C31: No entry of a counter map is lost between the harnesses of a crate: whatever the keys are,
  the counts charged to the proof harnesses add up to at least the counts recorded.\<close>

theorem no_entry_lost:
  assumes "names \<noteq> []" "ph \<noteq> []"
  shows "sum_list (map snd ph) \<le> (\<Sum>h \<in> set names. resolve_per_harness_count_fail_closed t ph h names)"
  using harness_match.charged_weight [of "set names" snd ph fst] assms
  by (simp add: resolve_per_harness_count_fail_closed_def attributable_charged)

theorem no_entry_lost_witness:
  "sum_list (map snd [(''helper'', 2 :: nat), (''a'', 1)])
     \<le> (\<Sum>h \<in> set [''a'', ''b'']. resolve_per_harness_count_fail_closed 9 [(''helper'', 2), (''a'', 1)] h [''a'', ''b''])"
  by (rule no_entry_lost) simp_all

lemma charged_positive:
  assumes "(key, n) \<in> set (counter_map m cat)" "n > 0"
    and "attributable_to_harness key (pretty_name h) (map pretty_name (proof_harnesses m))"
  shows "charged m h cat > 0"
proof -
  let ?ph = "filter (\<lambda>e. attributable_to_harness (fst e) (pretty_name h) (map pretty_name (proof_harnesses m))) (counter_map m cat)"
  have "(key, n) \<in> set ?ph"
    using assms by simp
  then have "0 < sum_list (map snd ?ph)"
    using assms(2) member_le_sum_list [of n "map snd ?ph"] by force
  moreover have "counter_map m cat \<noteq> []"
    using assms(1) by auto
  ultimately show ?thesis
    by (simp add: charged_def resolve_per_harness_count_fail_closed_def)
qed

text \<open>C30: A demoting count recorded under a name that is no proof harness of the crate blocks the proof
  of every harness of the crate: the mixed key space is resolved fail-closed.\<close>

theorem unattributed_count_blocks_every_proof:
  assumes "only_record p m" "category_class cat = Demoted"
    and "(key, n) \<in> set (counter_map m cat)" "n > 0"
    and "\<not> (\<exists>g \<in> set (proof_harnesses m). harness_names_match (pretty_name g) key)"
  shows "status (demote_for_all_unsoundness r h (get_for_crate (from_project p) (crate_name m))) = Failure"
proof -
  have "attributable_to_harness key (pretty_name h) (map pretty_name (proof_harnesses m))"
    unfolding attributable_charged using assms(5) by (intro harness_match.stranger_charged_to_all) auto
  then have "charged m h cat > 0"
    by (rule charged_positive [OF assms(3,4)])
  then have "status (demote_for_all_unsoundness r h (get_for_crate (from_project p) (crate_name m))) \<noteq> Success"
    using demote_status [OF assms(1), of r h] assms(2) by auto
  then show ?thesis
    by (metis VerificationStatus.exhaust)
qed

theorem unattributed_count_blocks_every_proof_witness:
  "(let m = sample_fallbacks ''app'' [''app::a'', ''app::b''] [(''helper'', 1)] in
    status (demote_for_all_unsoundness (sample_result Success NoFailures []) (sample_harness ''app::b'' ''app'')
      (get_for_crate (from_project \<lparr> metadata = [m] \<rparr>) (crate_name m))) = Failure)"
proof -
  let ?m = "sample_fallbacks ''app'' [''app::a'', ''app::b''] [(''helper'', 1)]"
  have "\<not> (\<exists>g \<in> set (proof_harnesses ?m). harness_names_match (pretty_name g) ''helper'')"
    by (simp add: harness_names_match_def unique_harness_suffix_match_def strip_suffix_def)
  then show ?thesis
    unfolding Let_def
    by (intro unattributed_count_blocks_every_proof [where cat = ChcFallback and key = "''helper''" and n = 1]) simp_all
qed

section \<open>The sound-fallback split\<close>

lemma fold_charged_tally:
  "fold (\<lambda>kc totals. if \<not> P (fst kc) then totals else tally (snd kc) totals) m acc =
   tally (concat (map snd (filter (\<lambda>kc. P (fst kc)) m))) acc"
  by (induction m arbitrary: acc) (auto simp: tally_append)

lemma sound_approx_entries:
  "sound_approx_categories_fail_closed c h =
     tally (concat (map snd (filter (\<lambda>kc. attributable_to_harness (fst kc) h (c_harness_names c))
       (c_sound_approx_per_harness c)))) []"
  unfolding sound_approx_categories_fail_closed_def by (rule fold_charged_tally)

lemma tally_positive:
  "(\<exists>n > 0. (k, n) \<in> set (tally xs [])) \<longleftrightarrow> (\<exists>n > 0. (k, n) \<in> set xs)"
proof -
  have wf: "bt_wf (tally xs [])"
    by (rule tally_wf) simp
  have "(\<exists>n > 0. (k, n) \<in> set (tally xs [])) \<longleftrightarrow> 0 < bt_get_or 0 (tally xs []) k"
    by (auto simp: bt_get_or_def simp flip: bt_get_iff [OF wf] split: option.splits)
  also have "\<dots> \<longleftrightarrow> (\<exists>n > 0. (k, n) \<in> set xs)"
    by (auto simp: tally_get sum_list_eq_0_map simp flip: neq0_conv)
  finally show ?thesis .
qed

lemma sound_sum_positive:
  "0 < sum_list (map snd (filter (\<lambda>e. fst e \<noteq> j) (tally xs []))) \<longleftrightarrow> (\<exists>k n. k \<noteq> j \<and> n > 0 \<and> (k, n) \<in> set xs)"
proof -
  have "0 < sum_list (map snd (filter (\<lambda>e. fst e \<noteq> j) (tally xs []))) \<longleftrightarrow>
      (\<exists>k. k \<noteq> j \<and> (\<exists>n > 0. (k, n) \<in> set (tally xs [])))"
    by (auto simp: sum_list_eq_0_map simp flip: neq0_conv)
  then show ?thesis
    unfolding tally_positive by auto
qed

lemma approx_entry_iff:
  assumes "approx_wf m"
  shows "(\<exists>kc \<in> set m. fst kc = h \<and> x \<in> set (snd kc)) \<longleftrightarrow> x \<in> set (bt_get_or [] m h)"
proof -
  have wf: "bt_wf m"
    using assms by (simp add: approx_wf_def)
  have "kc \<in> set m \<and> fst kc = h \<longleftrightarrow> bt_get m h = Some (snd kc) \<and> fst kc = h" for kc
    using bt_get_iff [OF wf, of h "snd kc"] by (metis prod.collapse)
  then show ?thesis
    by (auto simp: bt_get_or_def Bex_def split: option.splits) (metis fst_conv snd_conv)+
qed

lemma charged_sound_entries:
  "(key, n) \<in> set (concat (map snd (filter (\<lambda>kc. P (fst kc)) (harness_categories m)))) \<longleftrightarrow>
     n > 0 \<and> (\<exists>cat h. category_class cat = SoundApproximation \<and> key = json_key cat \<and>
       counter_total m cat > 0 \<and> (h, n) \<in> set (counter_map m cat) \<and> P h)"
proof -
  have "(key, n) \<in> set (concat (map snd (filter (\<lambda>kc. P (fst kc)) (harness_categories m)))) \<longleftrightarrow>
      (\<exists>h. P h \<and> (\<exists>kc \<in> set (harness_categories m). fst kc = h \<and> (key, n) \<in> set (snd kc)))"
    unfolding set_concat set_map set_filter by blast
  also have "\<dots> \<longleftrightarrow> (\<exists>h. P h \<and> (key, n) \<in> set (bt_get_or [] (harness_categories m) h))"
    by (simp only: approx_entry_iff [OF harness_categories_wf])
  finally show ?thesis
    by (auto simp: harness_categories_get)
qed

definition soundly_tainted :: "KaniMetadata \<Rightarrow> HarnessMetadata \<Rightarrow> UnsoundnessCategory \<Rightarrow> bool" where
  "soundly_tainted m h cat \<longleftrightarrow>
     category_class cat = SoundApproximation \<and> counter_total m cat > 0 \<and>
     (\<exists>key n. (key, n) \<in> set (counter_map m cat) \<and> n > 0 \<and>
        attributable_to_harness key (pretty_name h) (map pretty_name (proof_harnesses m)))"

lemma json_key_eq: "json_key a = json_key b \<longleftrightarrow> a = b"
proof -
  have "distinct (map json_key all_categories)"
    by (simp add: all_categories_def)
  then show ?thesis
    by (metis all_categories_complete distinct_map inj_on_def)
qed

lemma sound_fallback_status:
  assumes "only_record p m"
  shows "status (apply_sound_fallback_fail_close r h (get_for_crate (from_project p) (crate_name m))) = Success \<longleftrightarrow>
     status r = Success \<and> (\<forall>cat. soundly_tainted m h cat \<longrightarrow> cat = ChcSoundHavocDrop)"
proof -
  let ?c = "get_for_crate (from_project p) (crate_name m)"
  let ?P = "\<lambda>k. attributable_to_harness k (pretty_name h) (map pretty_name (proof_harnesses m))"
  let ?xs = "concat (map snd (filter (\<lambda>kc. ?P (fst kc)) (harness_categories m)))"
  have "sound_approx_categories_fail_closed ?c (pretty_name h) = tally ?xs []"
    unfolding sound_approx_entries slice_sound_record [OF assms]
    by (simp add: attributable_charged slice_names_record [OF assms])
  moreover have "0 < sum_list (map snd (filter (\<lambda>e. fst e \<noteq> json_key ChcSoundHavocDrop) (tally ?xs []))) \<longleftrightarrow>
      (\<exists>cat. soundly_tainted m h cat \<and> cat \<noteq> ChcSoundHavocDrop)"
    unfolding sound_sum_positive charged_sound_entries [where P = ?P] soundly_tainted_def
    using json_key_eq [of _ ChcSoundHavocDrop] by blast
  ultimately show ?thesis
    by (cases "status r") (auto simp: apply_sound_fallback_fail_close_def Let_def)
qed

section \<open>Two records of one crate name\<close>

abbreviation two_records :: "KaniMetadata \<Rightarrow> KaniMetadata \<Rightarrow> Project" where
  "two_records a b \<equiv> \<lparr> metadata = [a, b] \<rparr>"

lemma counts_two:
  assumes "crate_name a = c" "crate_name b = c"
  shows "bt_get_or 0 (counts_by_crate f (two_records a b)) c = (if f b > 0 then f b else f a)"
  using assms by (simp add: counts_by_crate_def bt_get_or_def bt_get_collect Let_def)

lemma maps_two:
  assumes "crate_name a = c" "crate_name b = c"
  shows "bt_get_or [] (maps_by_crate f (two_records a b)) c =
    (if map_or [] id (f b) \<noteq> [] then map_or [] id (f b) else map_or [] id (f a))"
  using assms
  by (cases "f a"; cases "f b") (auto simp: maps_by_crate_def bt_get_or_def bt_get_collect map_or_def)

lemma diagnostic_counts_two:
  assumes "crate_name a = c" "crate_name b = c"
  shows "bt_get_or 0 (diagnostic_count_by_crate (two_records a b) cat) c =
     (if counter_total b cat > 0 then counter_total b cat else counter_total a cat)"
  using assms
  by (cases "category_fields a cat"; cases "category_fields b cat")
    (auto simp: diagnostic_count_by_crate_def bt_get_or_def bt_get_collect counter_total_def map_or_def unsoundness_def)

lemma diagnostic_maps_two:
  assumes "crate_name a = c" "crate_name b = c"
  shows "bt_get_or [] (diagnostic_per_harness_by_crate (two_records a b) cat) c =
     (if counter_map b cat \<noteq> [] then counter_map b cat else counter_map a cat)"
  by (simp add: diagnostic_per_harness_by_crate_def counter_map_def maps_two [OF assms])

text \<open>Every counter map of the slice is the later record's, when that is not empty; the harness names are
  always the later record's.\<close>

lemma slice_map_two:
  assumes "crate_name a = c" "crate_name b = c" "category_class cat \<noteq> SoundApproximation"
  shows "slice_map cat (get_for_crate (from_project (two_records a b)) c) =
     (if counter_map b cat \<noteq> [] then counter_map b cat else counter_map a cat)"
  using assms(3)
  by (cases cat)
    (simp_all add: get_for_crate_def from_project_def Let_def map_extraction_defs
      maps_two [OF assms(1,2)] diagnostic_maps_two [OF assms(1,2)], simp_all add: counter_map_def)

lemma slice_total_two:
  assumes "crate_name a = c" "crate_name b = c" "category_class cat \<noteq> SoundApproximation"
  shows "slice_total cat (get_for_crate (from_project (two_records a b)) c) =
     (if counter_total b cat > 0 then counter_total b cat else counter_total a cat)"
  using assms(3)
  by (cases cat)
    (simp_all add: get_for_crate_def from_project_def Let_def extraction_defs
      counts_two [OF assms(1,2)] diagnostic_counts_two [OF assms(1,2)], simp_all add: counter_total_def)

lemma slice_names_two:
  assumes "crate_name a = c" "crate_name b = c"
  shows "set (c_harness_names (get_for_crate (from_project (two_records a b)) c)) = pretty_name ` set (proof_harnesses b)"
  using assms
  by (simp add: get_for_crate_def from_project_def Let_def harness_names_by_crate_def bt_get_or_def bt_get_collect)

lemma sample_fallbacks_other [simp]:
  "cat \<noteq> ChcFallback \<Longrightarrow> counter_map (sample_fallbacks crate hs ph) cat = [] \<and> counter_total (sample_fallbacks crate hs ph) cat = 0"
  by (cases cat) (simp_all add: sample_fallbacks_def clean_metadata_def counter_map_def counter_total_def map_or_def with_ph_def without_ph_def)

text \<open>Two metadata records with one crate name, such as the library and the binary of one package,
  shadow each other: the fallbacks recorded for a harness of the first record disappear behind the map
  of the second, and the harness keeps its proof whatever its own count is.\<close>

theorem shared_crate_name_hides_counts:
  "status (demote_for_all_unsoundness (sample_result Success NoFailures []) (sample_harness ''lib_proof'' ''app'')
     (get_for_crate (from_project \<lparr> metadata =
        [sample_fallbacks ''app'' [''lib_proof''] [(''lib_proof'', n)],
         sample_fallbacks ''app'' [''bin_proof''] [(''bin_proof'', 1)]] \<rparr>) ''app'')) = Success"
proof -
  let ?a = "sample_fallbacks ''app'' [''lib_proof''] [(''lib_proof'', n)]"
  let ?b = "sample_fallbacks ''app'' [''bin_proof''] [(''bin_proof'', 1)]"
  let ?c = "get_for_crate (from_project (two_records ?a ?b)) ''app''"
  have names: "set (c_harness_names ?c) = {''bin_proof''}"
    by (subst slice_names_two) simp_all
  have "resolve_per_harness_count_fail_closed (slice_total cat ?c) (slice_map cat ?c) ''lib_proof'' (c_harness_names ?c) = 0"
    if "category_class cat = Demoted" for cat
  proof (cases "cat = ChcFallback")
    case True
    have "\<not> attributable_to_harness ''bin_proof'' ''lib_proof'' (c_harness_names ?c)"
      unfolding attributable_charged names harness_match.charged_to_def
      by (simp add: harness_names_match_def unique_harness_suffix_match_def)
    moreover have "slice_map ChcFallback ?c = [(''bin_proof'', 1)]"
      by (subst slice_map_two) simp_all
    ultimately show ?thesis
      using True by (simp add: resolve_per_harness_count_fail_closed_def del: slice_map.simps)
  next
    case False
    have "slice_map cat ?c = []" "slice_total cat ?c = 0"
      using that False by (simp_all add: slice_map_two slice_total_two)
    then show ?thesis
      by (simp add: resolve_per_harness_count_fail_closed_def)
  qed
  then have "filter (\<lambda>e. 0 < snd e) (resolve_demoting_categories (sample_harness ''lib_proof'' ''app'') ?c) = []"
    by (auto simp: resolve_categories_slice filter_empty_conv demote_order_set)
  then show ?thesis
    by (simp add: demote_for_all_unsoundness_def Let_def)
qed

end
