(* ===== verification/Ctrex.thy ===== *)
theory Ctrex
  imports Demotion
begin

text \<open>
  What a counterexample is worth (\<open>trust-mc-driver/src/ctrex_classify.rs\<close>), what an UNKNOWN is worth
  (\<open>unknown_quality.rs\<close>), and the upgrade of a tainted counterexample on compiler evidence
  (\<open>ctrex_certifiable_genuine\<close> and \<open>recertify_overapprox_ctrex\<close> of
  \<open>harness_runner.rs\<close>).  The evidence is a value here; reading it from the artifact file is not
  modelled.
\<close>

section \<open>Classification\<close>

definition demoted_triggers :: "HarnessMetadata \<Rightarrow> CrateUnsoundnessCounts \<Rightarrow> string list" where
  "demoted_triggers h c = map entry_str (filter (\<lambda>e. snd e > 0) (resolve_demoting_categories h c))"

definition crate_trigger :: "string \<Rightarrow> nat \<Rightarrow> string list" where
  "crate_trigger cat n = (if n > 0 then [entry_str (cat, n)] else [])"

definition push_fail_closed_trigger :: "string \<Rightarrow> nat \<Rightarrow> harness_counts \<Rightarrow> HarnessMetadata \<Rightarrow> string list" where
  "push_fail_closed_trigger cat crate_total ph h = crate_trigger cat (resolve_per_harness_count crate_total ph (pretty_name h))"

definition fail_closed_triggers :: "HarnessMetadata \<Rightarrow> CrateUnsoundnessCounts \<Rightarrow> string list" where
  "fail_closed_triggers h c =
     crate_trigger ''assert_untranslatable'' (c_assert_untranslatable c) @
     crate_trigger ''heap_check_untranslatable'' (c_heap_check_untranslatable c) @
     crate_trigger ''heap_check_unknown_layout'' (c_heap_check_unknown_layout c) @
     push_fail_closed_trigger ''iterator_unsoundness'' (c_iterator_unsoundness c) (c_iterator_unsoundness_per_harness c) h @
     push_fail_closed_trigger ''bigint_unsoundness'' (c_bigint_unsoundness c) (c_bigint_unsoundness_per_harness c) h"

definition is_offset_entry :: "string \<Rightarrow> bool" where
  "is_offset_entry t \<longleftrightarrow> starts_with t ''offset_provenance_unresolved=''"

text \<open>The residual of the crate totals: entries of other proof harnesses are left to those harnesses.\<close>

definition residual_categories :: "HarnessMetadata \<Rightarrow> CrateUnsoundnessCounts \<Rightarrow> string list" where
  "residual_categories h c =
     (let current = pretty_name h in
      map entry_str (fold (\<lambda>kc totals.
         let could_be_current = harness_names_match (fst kc) current;
             attributed_to_other_harness = (\<not> could_be_current \<and>
               list_ex (\<lambda>name. name \<noteq> current \<and> harness_names_match (fst kc) name) (c_harness_names c)) in
         if attributed_to_other_harness then totals else tally (snd kc) totals)
       (c_sound_approx_per_harness c) []))"

definition classify_ctrex :: "HarnessMetadata \<Rightarrow> CrateUnsoundnessCounts \<Rightarrow> CtrexCategory" where
  "classify_ctrex h c =
     (let demoted = demoted_triggers h c;
          offset_only = (demoted \<noteq> [] \<and> list_all is_offset_entry demoted);
          forced = fail_closed_triggers h c;
          approx = lookup_per_harness (c_sound_approx_per_harness c) (pretty_name h) in
      if demoted \<noteq> [] \<and> \<not> offset_only then EncodingGap demoted
      else if forced \<noteq> [] then EncodingGap (if offset_only then demoted @ forced else forced)
      else if offset_only then
        OverApproximation (demoted @ (case approx of Some cats \<Rightarrow> map entry_str cats | None \<Rightarrow> []))
      else case approx of
        Some (cn # cats) \<Rightarrow> OverApproximation (map entry_str (cn # cats))
      | _ \<Rightarrow>
          if c_sound_approx_crate_totals c \<noteq> [] \<and> residual_categories h c \<noteq> []
          then OverApproximation (residual_categories h c)
          else Genuine)"

section \<open>The quality of an UNKNOWN\<close>

definition collect_encoding_gap_reasons :: "HarnessMetadata \<Rightarrow> CrateUnsoundnessCounts \<Rightarrow> string list" where
  "collect_encoding_gap_reasons h c = demoted_triggers h c @ fail_closed_triggers h c"

definition collect_overapprox_reasons :: "HarnessMetadata \<Rightarrow> CrateUnsoundnessCounts \<Rightarrow> string list" where
  "collect_overapprox_reasons h c =
     (case lookup_per_harness (c_sound_approx_per_harness c) (pretty_name h) of
        Some cats \<Rightarrow> map entry_str cats | None \<Rightarrow> [])"

definition classify_unknown_quality :: "HarnessMetadata \<Rightarrow> CrateUnsoundnessCounts \<Rightarrow> UnknownQuality" where
  "classify_unknown_quality h c =
     (case (collect_encoding_gap_reasons h c, collect_overapprox_reasons h c) of
        ([], []) \<Rightarrow> QClean
      | (g # gs, []) \<Rightarrow> QEncodingGap (g # gs)
      | ([], a # as) \<Rightarrow> QOverApproximation (a # as)
      | (g # gs, a # as) \<Rightarrow> QMixed (g # gs @ a # as))"

section \<open>Recertification\<close>

record ApproximationEvidence =
  complete :: bool
  accounted :: nat
  approximated_vars :: "string list"
  dependent_by_id :: "nat \<rightharpoonup> bool option"

text \<open>The loop over the \<open>name=count\<close> entries: the taint total and its share of unhandled calls;
  an entry that does not parse is skipped.\<close>

fun taint_totals :: "string list \<Rightarrow> nat \<times> nat \<Rightarrow> nat \<times> nat" where
  "taint_totals [] acc = acc"
| "taint_totals (e # es) (taint, unhandled) =
     (case parse_entry e of
        None \<Rightarrow> taint_totals es (taint, unhandled)
      | Some (name, n) \<Rightarrow>
          taint_totals es (taint + n, if name = ''unhandled_calls'' then unhandled + n else unhandled))"

definition ctrex_certifiable_genuine :: "string list \<Rightarrow> ApproximationEvidence \<Rightarrow> Property list \<Rightarrow> bool" where
  "ctrex_certifiable_genuine categories ev ps =
     (case taint_totals categories (0, 0) of (taint_total, unhandled) \<Rightarrow>
        let effective_total = taint_total - unhandled in
        if effective_total = 0 \<or> \<not> complete ev \<or> accounted ev \<noteq> effective_total then False
        else list_ex (\<lambda>p. pstatus p = CFailure \<and> dependent_by_id ev (pid (property_id p)) = Some (Some False)) ps)"

definition recertify_overapprox_ctrex ::
    "CtrexCategory \<Rightarrow> ApproximationEvidence option \<Rightarrow> Property list \<Rightarrow> CtrexCategory" where
  "recertify_overapprox_ctrex cat evidence ps =
     (let categories = (case cat of
            OverApproximation cs \<Rightarrow> Some cs
          | EncodingGap cs \<Rightarrow> if cs \<noteq> [] \<and> list_all is_offset_entry cs then Some cs else None
          | _ \<Rightarrow> None) in
      case categories of
        None \<Rightarrow> cat
      | Some cs \<Rightarrow> (case evidence of
            None \<Rightarrow> cat
          | Some ev \<Rightarrow> if ctrex_certifiable_genuine cs ev ps then Genuine else cat))"

section \<open>Facts\<close>

lemma crate_trigger_Nil [simp]: "crate_trigger cat n = [] \<longleftrightarrow> n = 0"
  by (simp add: crate_trigger_def)

lemma demoted_triggers_empty:
  assumes "only_record p m"
  shows "demoted_triggers h (get_for_crate (from_project p) (crate_name m)) = [] \<longleftrightarrow>
     (\<forall>cat. category_class cat = Demoted \<longrightarrow> charged m h cat = 0)"
  by (auto simp: demoted_triggers_def resolve_categories_record [OF assms] filter_empty_conv demote_order_set)

lemma residual_eq:
  "residual_categories h c = map entry_str (sound_approx_categories_fail_closed c (pretty_name h))"
proof -
  have "(\<not> harness_names_match k h' \<and> list_ex (\<lambda>name. name \<noteq> h' \<and> harness_names_match k name) ns) \<longleftrightarrow>
      \<not> attributable_to_harness k h' ns" for k h' ns
    by (auto simp: attributable_to_harness_def)
  then show ?thesis
    by (simp add: residual_categories_def sound_approx_categories_fail_closed_def Let_def)
qed

lemma not_offset_entry:
  assumes "CHR ''='' \<notin> set cat" "cat \<noteq> ''offset_provenance_unresolved''"
  shows "\<not> is_offset_entry (entry_str (cat, n))"
  using starts_with_other_entry [OF assms(1), of "''offset_provenance_unresolved''" n] assms(2)
  by (simp add: is_offset_entry_def)

lemma fail_closed_not_offset: "t \<in> set (fail_closed_triggers h c) \<Longrightarrow> \<not> is_offset_entry t"
  by (auto simp: fail_closed_triggers_def push_fail_closed_trigger_def crate_trigger_def not_offset_entry
      split: if_splits)

lemma taint_totals_entries:
  assumes "\<forall>cn \<in> set cats. snd cn < 2 ^ 64"
  shows "taint_totals (map entry_str cats) (t, u) =
     (t + sum_list (map snd cats), u + sum_list (map snd (filter (\<lambda>cn. fst cn = ''unhandled_calls'') cats)))"
  using assms
proof (induction cats arbitrary: t u)
  case (Cons cn cats)
  then have "parse_entry (entry_str cn) = Some (fst cn, snd cn)"
    using parse_entry_str [of "snd cn" "fst cn"] by simp
  with Cons show ?case
    by (cases cn) simp
qed simp

lemma tally_all_empty: "tally xs [] = [] \<longleftrightarrow> (\<forall>k n. (k, n) \<notin> set xs)"
  by (auto simp: neq_Nil_conv) (metis list.exhaust list.set_intros(1) prod.exhaust)

lemma residual_empty:
  assumes "only_record p m"
  shows "residual_categories h (get_for_crate (from_project p) (crate_name m)) = [] \<longleftrightarrow>
     (\<forall>cat. \<not> soundly_tainted m h cat)"
proof -
  let ?c = "get_for_crate (from_project p) (crate_name m)"
  let ?P = "\<lambda>k. attributable_to_harness k (pretty_name h) (map pretty_name (proof_harnesses m))"
  have "sound_approx_categories_fail_closed ?c (pretty_name h) =
      tally (concat (map snd (filter (\<lambda>kc. ?P (fst kc)) (harness_categories m)))) []"
    unfolding sound_approx_entries slice_sound_record [OF assms]
    by (simp add: attributable_charged slice_names_record [OF assms])
  then have "residual_categories h ?c = [] \<longleftrightarrow>
      (\<forall>k n. (k, n) \<notin> set (concat (map snd (filter (\<lambda>kc. ?P (fst kc)) (harness_categories m)))))"
    by (simp only: residual_eq map_is_Nil_conv tally_all_empty)
  then show ?thesis
    unfolding charged_sound_entries [where P = ?P] soundly_tainted_def by blast
qed

lemma lookup_matches:
  assumes "lookup_per_harness m h = Some v"
  shows "\<exists>k. (k, v) \<in> set m \<and> harness_names_match k h"
proof (cases "bt_get m h")
  case None
  then have "(if snd (fold (lookup_step h) m (None, False)) then None
              else map_option fst (fst (fold (lookup_step h) m (None, False)))) = Some v"
    using assms by (simp add: lookup_per_harness_def case_prod_beta)
  then obtain k where "filter (\<lambda>e. weight h e = weight h (k, v)) (suffix_candidates m h) = [(k, v)]"
    unfolding loop_state_result [OF lookup_fold_state] by blast
  from filter_hd [OF this] have "(k, v) \<in> set (suffix_candidates m h)"
    by simp
  then show ?thesis
    by (auto simp: suffix_candidates_def harness_names_match_def)
next
  case (Some w)
  then show ?thesis
    using assms by (auto simp: lookup_per_harness_def harness_names_match_def dest: map_of_SomeD)
qed

lemma lookup_sound_tainted:
  assumes "lookup_per_harness (harness_categories m) (pretty_name h) = Some cats"
  shows "cats \<noteq> [] \<and> (\<exists>cat. soundly_tainted m h cat)"
proof -
  obtain k where k: "(k, cats) \<in> set (harness_categories m)" "harness_names_match k (pretty_name h)"
    using lookup_matches [OF assms] by blast
  then have "cats \<noteq> []"
    using harness_categories_wf [of m] by (auto simp: approx_wf_def)
  then obtain key n where "(key, n) \<in> set cats"
    by (cases cats) auto
  then have "(key, n) \<in> set (bt_get_or [] (harness_categories m) k)"
    using k(1) by (auto simp: approx_entry_iff [OF harness_categories_wf, symmetric] intro!: bexI [of _ "(k, cats)"])
  then have "\<exists>cat. soundly_tainted m h cat"
    using k(2) by (auto simp: harness_categories_get soundly_tainted_def attributable_to_harness_def)
  then show ?thesis
    using \<open>cats \<noteq> []\<close> by simp
qed

lemma classify_Genuine:
  "classify_ctrex h c = Genuine \<longleftrightarrow>
     demoted_triggers h c = [] \<and> fail_closed_triggers h c = [] \<and>
     (lookup_per_harness (c_sound_approx_per_harness c) (pretty_name h) = None \<or>
      lookup_per_harness (c_sound_approx_per_harness c) (pretty_name h) = Some []) \<and>
     (c_sound_approx_crate_totals c = [] \<or> residual_categories h c = [])"
  by (auto simp: classify_ctrex_def Let_def split: option.splits list.splits if_splits)

lemma fail_closed_empty:
  "fail_closed_triggers h c = [] \<longleftrightarrow>
     c_assert_untranslatable c = 0 \<and> c_heap_check_untranslatable c = 0 \<and> c_heap_check_unknown_layout c = 0 \<and>
     resolve_per_harness_count (c_iterator_unsoundness c) (c_iterator_unsoundness_per_harness c) (pretty_name h) = 0 \<and>
     resolve_per_harness_count (c_bigint_unsoundness c) (c_bigint_unsoundness_per_harness c) (pretty_name h) = 0"
  by (simp add: fail_closed_triggers_def push_fail_closed_trigger_def)

definition forced :: "KaniMetadata \<Rightarrow> HarnessMetadata \<Rightarrow> UnsoundnessCategory \<Rightarrow> nat" where
  "forced m h cat = resolve_per_harness_count (counter_total m cat) (counter_map m cat) (pretty_name h)"

lemma bare_counter_map [simp]:
  "counter_map m AssertUntranslatable = []" "counter_map m HeapCheckUntranslatable = []"
  "counter_map m HeapCheckUnknownLayout = []"
  by (simp_all add: counter_map_def)

lemma fail_closed_record:
  assumes "only_record p m"
  shows "fail_closed_triggers h (get_for_crate (from_project p) (crate_name m)) = [] \<longleftrightarrow>
     (\<forall>cat. category_class cat = FailClosed \<longrightarrow> forced m h cat = 0)"
proof -
  let ?c = "get_for_crate (from_project p) (crate_name m)"
  have "fail_closed_triggers h ?c = [] \<longleftrightarrow>
      slice_total AssertUntranslatable ?c = 0 \<and> slice_total HeapCheckUntranslatable ?c = 0 \<and>
      slice_total HeapCheckUnknownLayout ?c = 0 \<and>
      resolve_per_harness_count (slice_total IteratorUnsoundness ?c) (slice_map IteratorUnsoundness ?c) (pretty_name h) = 0 \<and>
      resolve_per_harness_count (slice_total BigIntUnsoundness ?c) (slice_map BigIntUnsoundness ?c) (pretty_name h) = 0"
    by (simp add: fail_closed_empty)
  also have "\<dots> \<longleftrightarrow> (\<forall>cat \<in> set FAIL_CLOSED_CATEGORIES. forced m h cat = 0)"
    by (simp add: FAIL_CLOSED_CATEGORIES_def forced_def slice_total_record [OF assms] slice_map_record [OF assms]
        resolve_per_harness_count_def del: slice_total.simps slice_map.simps)
  also have "\<dots> \<longleftrightarrow> (\<forall>cat. category_class cat = FailClosed \<longrightarrow> forced m h cat = 0)"
  proof -
    have "cat \<in> set FAIL_CLOSED_CATEGORIES \<longleftrightarrow> category_class cat = FailClosed" for cat
      by (cases cat) (simp_all add: FAIL_CLOSED_CATEGORIES_def)
    then show ?thesis
      by auto
  qed
  finally show ?thesis .
qed

lemma genuine_iff_not_forced:
  assumes "only_record p m"
  shows "classify_ctrex h (get_for_crate (from_project p) (crate_name m)) = Genuine \<longleftrightarrow>
     (\<forall>cat. category_class cat = Demoted \<longrightarrow> charged m h cat = 0) \<and>
     (\<forall>cat. category_class cat = FailClosed \<longrightarrow> forced m h cat = 0) \<and>
     (\<forall>cat. \<not> soundly_tainted m h cat)"
proof -
  let ?c = "get_for_crate (from_project p) (crate_name m)"
  have totals: "c_sound_approx_crate_totals ?c = [] \<Longrightarrow> residual_categories h ?c = []"
  proof -
    assume "c_sound_approx_crate_totals ?c = []"
    then have "concat (map snd (c_sound_approx_per_harness ?c)) = []"
      by (simp only: slice_sound_totals tally_empty)
    then have "concat (map snd (filter P (c_sound_approx_per_harness ?c))) = []" for P
      by auto
    then show ?thesis
      by (simp only: residual_eq sound_approx_entries tally_empty map_is_Nil_conv)
  qed
  have lookup: "(\<forall>cat. \<not> soundly_tainted m h cat) \<Longrightarrow>
      lookup_per_harness (c_sound_approx_per_harness ?c) (pretty_name h) = None"
    using lookup_sound_tainted [of m h] by (auto simp: slice_sound_record [OF assms] intro: ccontr)
  show ?thesis
    unfolding classify_Genuine demoted_triggers_empty [OF assms] fail_closed_record [OF assms]
    using totals lookup residual_empty [OF assms, of h] lookup_sound_tainted [of m h]
    by (auto simp: slice_sound_record [OF assms])
qed

definition sample_iterators :: "string list \<Rightarrow> harness_counts \<Rightarrow> KaniMetadata" where
  "sample_iterators hs ph = (clean_metadata ''app'' (map (\<lambda>h. sample_harness h ''app'') hs))
     \<lparr> iterator_unsoundness := Some \<lparr> it_chc_skip_count = sum_list (map snd ph), it_bmc_skip_count = 0, it_per_harness = ph \<rparr> \<rparr>"

lemma sample_iterators_fields [simp]:
  "crate_name (sample_iterators hs ph) = ''app''"
  "proof_harnesses (sample_iterators hs ph) = map (\<lambda>h. sample_harness h ''app'') hs"
  "counter_map (sample_iterators hs ph) cat = (if cat = IteratorUnsoundness then ph else [])"
  "counter_total (sample_iterators hs ph) cat = (if cat = IteratorUnsoundness then sum_list (map snd ph) else 0)"
  by (cases cat; simp add: sample_iterators_def clean_metadata_def counter_map_def counter_total_def map_or_def
      with_ph_def without_ph_def total_skip_count_def)+

text \<open>A counter map is keyed by harnesses when each key is the harness's own name, or names another proof harness of
  the crate and not this one; the lookup of the forced failures is then the fail-closed one.\<close>

definition harness_keyed :: "KaniMetadata \<Rightarrow> HarnessMetadata \<Rightarrow> UnsoundnessCategory \<Rightarrow> bool" where
  "harness_keyed m h cat \<longleftrightarrow>
     distinct (map fst (counter_map m cat)) \<and>
     (\<forall>k \<in> fst ` set (counter_map m cat). k = pretty_name h \<or>
        \<not> harness_names_match k (pretty_name h) \<and> (\<exists>h' \<in> set (proof_harnesses m). harness_names_match k (pretty_name h')))"

lemma lookup_steps_skip:
  "\<forall>e \<in> set ph. \<not> harness_names_match (fst e) h \<Longrightarrow> fold (lookup_step h) ph st = st"
  by (induction ph arbitrary: st) (auto simp: lookup_step_def harness_names_match_def)

lemma own_entries:
  fixes ph :: harness_counts
  shows "distinct (map fst ph) \<Longrightarrow> sum_list (map snd (filter (\<lambda>e. fst e = h) ph)) = (case bt_get ph h of None \<Rightarrow> 0 | Some n \<Rightarrow> n)"
proof (induction ph)
  case (Cons e ph)
  then show ?case
    by (cases e) (auto simp: image_iff split: option.splits dest: map_of_SomeD)
qed simp

lemma forced_charged:
  assumes "harness_keyed m h cat"
  shows "forced m h cat = charged m h cat"
proof -
  let ?ph = "counter_map m cat" and ?h = "pretty_name h" and ?names = "map pretty_name (proof_harnesses m)"
  have own: "attributable_to_harness (fst e) ?h ?names \<longleftrightarrow> fst e = ?h" if "e \<in> set ?ph" for e
    using assms that by (fastforce simp: harness_keyed_def attributable_to_harness_def harness_names_match_def list_ex_iff)
  have "sum_list (map snd (filter (\<lambda>e. attributable_to_harness (fst e) ?h ?names) ?ph)) =
      (case bt_get ?ph ?h of None \<Rightarrow> 0 | Some n \<Rightarrow> n)"
    using own_entries [of ?ph ?h] assms own by (simp add: harness_keyed_def cong: filter_cong)
  moreover have "lookup_per_harness ?ph ?h = bt_get ?ph ?h"
  proof (cases "bt_get ?ph ?h")
    case None
    then have "\<forall>e \<in> set ?ph. \<not> harness_names_match (fst e) ?h"
      using assms by (force simp: harness_keyed_def map_of_eq_None_iff)
    then show ?thesis
      using None lookup_steps_skip [of ?ph ?h] by (simp add: lookup_per_harness_def)
  qed (simp add: lookup_per_harness_def)
  ultimately show ?thesis
    by (simp add: forced_def charged_def resolve_per_harness_count_def resolve_per_harness_count_fail_closed_def)
qed

text \<open>C3: A counterexample is classified Genuine exactly when the crate's metadata is clean for the harness: no
  demoting count and no injected failure is charged to it by the fail-closed attribution rule, and no sound
  approximation, the certified havocs included, is attributable to it.  The crate's record is the only one of its
  name, and the maps of the injected failures are keyed by harnesses; a map keyed by functions is resolved fail-open
  by the code, against its comment, and left out (see the last section).\<close>

theorem genuine_iff_clean:
  assumes "only_record p m" "\<And>cat. category_class cat = FailClosed \<Longrightarrow> harness_keyed m h cat"
  shows "classify_ctrex h (get_for_crate (from_project p) (crate_name m)) = Genuine \<longleftrightarrow>
     (\<forall>cat. category_class cat = Demoted \<or> category_class cat = FailClosed \<longrightarrow> charged m h cat = 0) \<and>
     (\<forall>cat. \<not> soundly_tainted m h cat)"
  unfolding genuine_iff_not_forced [OF assms(1)] using forced_charged [OF assms(2)] by auto

theorem genuine_iff_clean_witness:
  "(let m = sample_iterators [''app::a'', ''app::b''] [(''app::b'', 3)] in
    classify_ctrex (sample_harness ''app::a'' ''app'')
      (get_for_crate (from_project \<lparr> metadata = [m] \<rparr>) (crate_name m)) = Genuine \<and>
    classify_ctrex (sample_harness ''app::b'' ''app'')
      (get_for_crate (from_project \<lparr> metadata = [m] \<rparr>) (crate_name m)) \<noteq> Genuine)"
proof -
  let ?m = "sample_iterators [''app::a'', ''app::b''] [(''app::b'', 3)]"
  have names: "\<not> harness_names_match ''app::b'' ''app::a''" "harness_names_match ''app::b'' ''app::b''"
    by (simp_all add: harness_names_match_def unique_harness_suffix_match_def strip_suffix_def)
  then have keyed: "harness_keyed ?m (sample_harness x ''app'') cat" if "x \<in> {''app::a'', ''app::b''}" for x cat
    using that by (auto simp: harness_keyed_def)
  have counts: "charged ?m (sample_harness ''app::a'' ''app'') cat = 0"
      "charged ?m (sample_harness ''app::b'' ''app'') IteratorUnsoundness = 3" "\<not> soundly_tainted ?m h cat" for cat h
    using names by (auto simp: charged_def resolve_per_harness_count_fail_closed_def attributable_to_harness_def soundly_tainted_def)
  have "category_class IteratorUnsoundness = FailClosed"
    by simp
  then show ?thesis
    unfolding Let_def genuine_iff_clean [OF only_record_single keyed, OF insertI1]
      genuine_iff_clean [OF only_record_single keyed, OF insertI2, OF insertI1]
    using counts by (auto intro!: exI [of _ IteratorUnsoundness])
qed

text \<open>A counterexample with an encoding gap is never upgraded: whatever evidence the compiler
  recorded and whatever checks failed, recertification returns the EncodingGap that the classifier
  produced.\<close>

theorem encoding_gap_never_recertified:
  assumes "classify_ctrex h c = EncodingGap cs"
  shows "recertify_overapprox_ctrex (classify_ctrex h c) ev ps = EncodingGap cs"
proof -
  have "\<not> list_all is_offset_entry cs"
  proof (cases "demoted_triggers h c \<noteq> [] \<and> \<not> list_all is_offset_entry (demoted_triggers h c)")
    case True
    then show ?thesis
      using assms by (auto simp: classify_ctrex_def Let_def)
  next
    case False
    then have "fail_closed_triggers h c \<noteq> [] \<and> set (fail_closed_triggers h c) \<subseteq> set cs"
      using assms by (auto simp: classify_ctrex_def Let_def split: if_splits option.splits list.splits)
    then obtain t where "t \<in> set (fail_closed_triggers h c)" "t \<in> set cs"
      by (cases "fail_closed_triggers h c") auto
    then show ?thesis
      using fail_closed_not_offset [of t h c] by (auto simp: list_all_iff)
  qed
  then show ?thesis
    using assms by (simp add: recertify_overapprox_ctrex_def)
qed

theorem encoding_gap_never_recertified_witness:
  "recertify_overapprox_ctrex (classify_ctrex (sample_harness ''h'' ''app'') (default_counts\<lparr> c_assert_untranslatable := 2 \<rparr>))
     (Some \<lparr> complete = True, accounted = 2, approximated_vars = [], dependent_by_id = [1 \<mapsto> Some False] \<rparr>) [] =
   EncodingGap [entry_str (''assert_untranslatable'', 2)]"
  by (rule encoding_gap_never_recertified)
    (simp add: classify_ctrex_def demoted_triggers_def resolve_demoting_categories_def default_counts_def
      fail_closed_triggers_def push_fail_closed_trigger_def crate_trigger_def resolve_per_harness_count_def
      resolve_per_harness_count_fail_closed_def)

text \<open>C32: A tainted counterexample is certified Genuine exactly on complete evidence: the compiler's flag is
  set, its accounted events equal the harness's own taint total less the double-counted unhandled
  calls, that number is positive, and some failed check is recorded as independent of every freed
  variable.\<close>

theorem recertified_iff_evidence:
  assumes "\<forall>cn \<in> set cats. snd cn < 2 ^ 64"
  shows "recertify_overapprox_ctrex (OverApproximation (map entry_str cats)) (Some ev) ps = Genuine \<longleftrightarrow>
     (let n = sum_list (map snd cats) - sum_list (map snd (filter (\<lambda>cn. fst cn = ''unhandled_calls'') cats)) in
      n > 0 \<and> complete ev \<and> accounted ev = n \<and>
      (\<exists>p \<in> set ps. pstatus p = CFailure \<and> dependent_by_id ev (pid (property_id p)) = Some (Some False)))"
  by (auto simp: recertify_overapprox_ctrex_def ctrex_certifiable_genuine_def taint_totals_entries [OF assms] list_ex_iff Let_def)

theorem recertified_iff_evidence_witness:
  "recertify_overapprox_ctrex (OverApproximation (map entry_str [(''chc_translation_drop'', 2), (''unhandled_calls'', 1)]))
     (Some \<lparr> complete = True, accounted = 2, approximated_vars = [], dependent_by_id = [7 \<mapsto> Some False] \<rparr>)
     [sample_property ''assertion'' 7 CFailure] = Genuine"
  by (subst recertified_iff_evidence) (simp_all add: Let_def)

section \<open>Counts the classifiers do not see\<close>

lemma suffix_matchE: "unique_harness_suffix_match a b \<Longrightarrow> length b + 2 \<le> length a"
  by (auto simp: suffix_match_iff)

lemma clean_but_iterators:
  assumes "only_record p m" "m = sample_iterators hs ph"
  shows "classify_ctrex h (get_for_crate (from_project p) (crate_name m)) = Genuine \<longleftrightarrow> forced m h IteratorUnsoundness = 0"
proof -
  let ?c = "get_for_crate (from_project p) (crate_name m)"
  have "\<not> soundly_tainted m h cat" "category_class cat = Demoted \<Longrightarrow> charged m h cat = 0" for cat
    using assms(2) by (auto simp: soundly_tainted_def charged_def resolve_per_harness_count_fail_closed_def)
  moreover have "(\<forall>cat. category_class cat = FailClosed \<longrightarrow> forced m h cat = 0) \<longleftrightarrow> forced m h IteratorUnsoundness = 0"
    using assms(2) by (auto simp: forced_def resolve_per_harness_count_def split: if_splits)
  moreover have "lookup_per_harness (harness_categories m) (pretty_name h) = None"
    using calculation(1) lookup_sound_tainted [of m h] by (cases "lookup_per_harness (harness_categories m) (pretty_name h)") auto
  ultimately show ?thesis
    unfolding classify_Genuine demoted_triggers_empty [OF assms(1)] fail_closed_record [OF assms(1)]
    using residual_empty [OF assms(1), of h] slice_sound_record [OF assms(1)] by auto
qed

text \<open>The forced iterator failures are resolved fail-open, unlike the demoting counts: when their map is
  keyed by a function, the counterexample of every harness of the crate is classified Genuine, although
  the crate carries injected failures and the fail-closed rule would charge them.\<close>

theorem forced_failures_classified_genuine:
  "(let m = sample_iterators [''app::a''] [(''next'', Suc n)]; h = sample_harness ''app::a'' ''app'' in
    classify_ctrex h (get_for_crate (from_project \<lparr> metadata = [m] \<rparr>) (crate_name m)) = Genuine \<and>
    counter_total m IteratorUnsoundness = Suc n \<and>
    charged m h IteratorUnsoundness = Suc n)"
proof -
  let ?m = "sample_iterators [''app::a''] [(''next'', Suc n)]"
  let ?h = "sample_harness ''app::a'' ''app''"
  have nomatch: "\<not> unique_harness_suffix_match ''next'' ''app::a''" "\<not> unique_harness_suffix_match ''app::a'' ''next''"
    by (simp_all add: unique_harness_suffix_match_def strip_suffix_def)
  then have "forced ?m ?h IteratorUnsoundness = 0"
    by (simp add: forced_def resolve_per_harness_count_def lookup_per_harness_def lookup_step_def)
  then have "classify_ctrex ?h (get_for_crate (from_project \<lparr> metadata = [?m] \<rparr>) (crate_name ?m)) = Genuine"
    by (simp only: clean_but_iterators [OF only_record_single refl])
  moreover have "charged ?m ?h IteratorUnsoundness = Suc n"
    using nomatch by (simp add: charged_def resolve_per_harness_count_fail_closed_def attributable_to_harness_def)
  ultimately show ?thesis
    by (simp add: Let_def)
qed

end
