(* ===== verification/Report.thy ===== *)
theory Report
  imports Results
begin

text \<open>
  How a result is reported: the console text (\<open>format_result\<close>, \<open>format_coverage\<close> and
  \<open>render\<close> of \<open>trust-mc-driver/src/verification_result.rs\<close> with the helpers of
  \<open>verification_result_format_helpers.rs\<close>) and the verdict token of the JSON summary
  (\<open>classify_harness_verdict\<close> of \<open>proof_summary.rs\<close>).

  What the text takes from outside is the record \<open>RenderEnv\<close>: the colouring of the
  \<open>console\<close> crate, the display of a source location (working directory and demangler), the printed
  run time, the printed coverage table and whether the marker variable is set.  A failing
  \<open>assert!\<close> of the counting loop is the result \<open>None\<close>; the \<open>debug_assert!\<close> at the head of
  \<open>render\<close> (no unvalidated result of tier A), which release builds leave out, has no counterpart.
\<close>

section \<open>Environment and pieces of text\<close>

datatype Colour = Green | Yellow | Red

record RenderEnv =
  paint :: "Colour \<Rightarrow> string \<Rightarrow> string"
  loc_str :: "RawSourceLocation \<Rightarrow> string"
  runtime_str :: string
  coverage_str :: string
  emit_markers :: bool

definition newline :: string where
  "newline = [char_of (10 :: nat)]"

definition tab :: string where
  "tab = [char_of (9 :: nat)]"

definition quote :: string where
  "quote = [char_of (34 :: nat)]"

definition em_dash :: string where
  "em_dash = [char_of (226 :: nat), char_of (128 :: nat), char_of (148 :: nat)]"

fun status_colour :: "CheckStatus \<Rightarrow> Colour" where
  "status_colour CSatisfied = Green"
| "status_colour CSuccess = Green"
| "status_colour CCovered = Green"
| "status_colour CUncovered = Red"
| "status_colour CFailure = Red"
| "status_colour CUnreachable = Yellow"
| "status_colour CUndetermined = Yellow"
| "status_colour CUnknown = Yellow"
| "status_colour CUnsatisfiable = Yellow"

definition show_status :: "RenderEnv \<Rightarrow> CheckStatus \<Rightarrow> string" where
  "show_status env st = paint env (status_colour st) (status_str st)"

definition last_location :: "TraceItem list option \<Rightarrow> RawSourceLocation option" where
  "last_location t = (case t of None \<Rightarrow> None | Some [] \<Rightarrow> None | Some (i # is) \<Rightarrow> trace_location (last (i # is)))"

definition build_failure_message :: "string \<Rightarrow> TraceItem list option \<Rightarrow> string" where
  "build_failure_message desc t =
     (let backup = ''Failed Checks: '' @ desc @ newline in
      case last_location t of
        None \<Rightarrow> backup
      | Some src \<Rightarrow>
          (case (in_file src, in_function src, line src) of
             (Some f, Some fn, Some l) \<Rightarrow>
               ''Failed Checks: '' @ desc @ newline @ '' File: '' @ quote @ f @ quote @ '', line '' @ l @ '', in '' @ fn @ newline
           | _ \<Rightarrow> backup))"

definition has_check_failure :: "Property list \<Rightarrow> string \<Rightarrow> bool" where
  "has_check_failure ps desc \<longleftrightarrow> list_ex (\<lambda>p. pstatus p = CFailure \<and> contains (description p) desc) ps"

definition has_unwinding_assertion_failures :: "Property list \<Rightarrow> bool" where
  "has_unwinding_assertion_failures ps \<longleftrightarrow>
     has_check_failure ps ''unwinding assertion loop'' \<or> has_check_failure ps ''recursion unwinding assertion''"

section \<open>Counting\<close>

record ResultCounts =
  checks_failed :: nat
  checks_unreachable :: nat
  checks_undetermined :: nat
  covers_satisfied :: nat
  covers_undetermined :: nat
  covers_unreachable :: nat
  covers_unsatisfiable :: nat

definition no_counts :: ResultCounts where
  "no_counts = \<lparr> checks_failed = 0, checks_unreachable = 0, checks_undetermined = 0, covers_satisfied = 0,
     covers_undetermined = 0, covers_unreachable = 0, covers_unsatisfiable = 0 \<rparr>"

text \<open>One pass of the loop; the two cover statuses assert that the property is a cover.\<close>

definition count_property :: "Property \<Rightarrow> ResultCounts \<Rightarrow> ResultCounts option" where
  "count_property p n =
     (case pstatus p of
        CFailure \<Rightarrow> Some (n\<lparr> checks_failed := checks_failed n + 1 \<rparr>)
      | CUndetermined \<Rightarrow>
          Some (if is_cover_property p then n\<lparr> covers_undetermined := covers_undetermined n + 1 \<rparr>
                else n\<lparr> checks_undetermined := checks_undetermined n + 1 \<rparr>)
      | CUnreachable \<Rightarrow>
          Some (if is_cover_property p then n\<lparr> covers_unreachable := covers_unreachable n + 1 \<rparr>
                else n\<lparr> checks_unreachable := checks_unreachable n + 1 \<rparr>)
      | CSatisfied \<Rightarrow>
          if is_cover_property p then Some (n\<lparr> covers_satisfied := covers_satisfied n + 1 \<rparr>) else None
      | CUnsatisfiable \<Rightarrow>
          if is_cover_property p then Some (n\<lparr> covers_unsatisfiable := covers_unsatisfiable n + 1 \<rparr>) else None
      | _ \<Rightarrow> Some n)"

fun count_properties :: "Property list \<Rightarrow> ResultCounts \<Rightarrow> ResultCounts option" where
  "count_properties [] n = Some n"
| "count_properties (p # ps) n =
     (case count_property p n of None \<Rightarrow> None | Some n' \<Rightarrow> count_properties ps n')"

definition number_cover_properties :: "ResultCounts \<Rightarrow> nat" where
  "number_cover_properties n =
     covers_satisfied n + covers_unreachable n + covers_unsatisfiable n + covers_undetermined n"

section \<open>The verdict line\<close>

text \<open>The cascade of \<open>format_result\<close>: colour and text of the verdict.\<close>

definition verdict_line ::
    "Property list \<Rightarrow> VerificationStatus \<Rightarrow> bool \<Rightarrow> FailedProperties \<Rightarrow> ValidationStatus \<Rightarrow>
     SolverUnknownReason option \<Rightarrow> HarnessFeasibility \<Rightarrow> nat \<Rightarrow> Colour \<times> string" where
  "verdict_line ps st should_panic fp vs reason feas number_properties =
     (let effective_success = is_effective_manual_success st should_panic fp in
      if effective_success \<and> vs = Unvalidated then (Yellow, ''SUCCESSFUL (UNVALIDATED)'')
      else if effective_success then (Green, ''SUCCESSFUL'')
      else if \<not> should_panic \<and> classify_vacuity ps feas = UnsatAssumption then
        (Red, ''VACUOUS (proof discharged under unsatisfiable assumptions '' @ em_dash @ '' nothing verified)'')
      else if \<not> should_panic \<and> classify_vacuity ps feas = DeadChecks then
        (Yellow, ''INCONCLUSIVE (every check is unreachable '' @ em_dash @ '' dead code, nothing exercised)'')
      else if \<not> has_decided_check ps \<and> reason = Some SmtParseError then
        (Yellow, ''INCONCLUSIVE (solver rejected the emitted query as ill-formed '' @ em_dash @
           '' encoder defect; see [AY:SMT_REJECTED])'')
      else if \<not> has_decided_check ps \<and> reason = Some Memout then
        (Yellow, ''INCONCLUSIVE (solver ran out of memory '' @ em_dash @
           '' bounded query too large; try a smaller unwind bound or --ay-chc)'')
      else if \<not> has_decided_check ps \<and> (reason = Some UndecidedModel \<or> reason = Some Timeout) then
        (Yellow, ''INCONCLUSIVE (solver undecided '' @ em_dash @ '' try --ay-chc for unbounded proofs)'')
      else if number_properties = 0 then (Yellow, ''INCONCLUSIVE (no checks)'')
      else if vs = Unvalidated then (Yellow, ''UNVALIDATED (DT+BV)'')
      else (Red, ''FAILED''))"

definition should_panic_info :: "bool \<Rightarrow> FailedProperties \<Rightarrow> string" where
  "should_panic_info should_panic fp =
     (if should_panic then
        (case fp of
           NoFailures \<Rightarrow> '' (encountered no panics, but at least one was expected)''
         | PanicsOnly \<Rightarrow> '' (encountered one or more panics as expected)''
         | OtherFailures \<Rightarrow> '' (encountered failures other than panics, which were unexpected)'')
      else [])"

section \<open>The console text\<close>

fun show_checks_from :: "RenderEnv \<Rightarrow> nat \<Rightarrow> Property list \<Rightarrow> string" where
  "show_checks_from env i [] = []"
| "show_checks_from env i (p # ps) =
     ''Check '' @ usize_str i @ '': '' @ property_name p @ newline @
     tab @ '' - Status: '' @ show_status env (pstatus p) @ newline @
     tab @ '' - Description: '' @ quote @ description p @ quote @ newline @
     (if is_missing (source_location p) then []
      else tab @ '' - Location: '' @ loc_str env (source_location p) @ newline) @
     newline @ show_checks_from env (i + 1) ps"

definition other_status :: "nat \<Rightarrow> nat \<Rightarrow> string" where
  "other_status undetermined unreachable =
     (let parts = (if undetermined > 0 then [usize_str undetermined @ '' undetermined''] else []) @
                  (if unreachable > 0 then [usize_str unreachable @ '' unreachable''] else []) in
      if parts = [] then [] else '' ('' @ join '','' parts @ '')'')"

text \<open>The text in three parts: the listing with the two summary lines and the failed checks, the verdict
  line, and the closing notes.\<close>

definition report_head :: "RenderEnv \<Rightarrow> Property list \<Rightarrow> bool \<Rightarrow> ResultCounts \<Rightarrow> string" where
  "report_head env ps show_checks n =
     (let covers = number_cover_properties n; number_properties = length ps - covers in
      (if show_checks then newline @ ''RESULTS:'' @ newline @ show_checks_from env 1 ps @ newline @ ''SUMMARY:''
       else newline @ ''VERIFICATION RESULT:'') @
      newline @ '' ** '' @ usize_str (checks_failed n) @ '' of '' @ usize_str number_properties @ '' failed'' @
      other_status (checks_undetermined n) (checks_unreachable n) @ newline @
      (if covers > 0 then
         newline @ '' ** '' @ usize_str (covers_satisfied n) @ '' of '' @ usize_str covers @
         '' cover properties satisfied'' @
         other_status (covers_undetermined n) (covers_unreachable n) @ newline @ newline
       else []) @
      concat (map (\<lambda>p. build_failure_message (description p) (trace p)) (filter (\<lambda>p. pstatus p = CFailure) ps)))"

definition report_tail :: "RenderEnv \<Rightarrow> Property list \<Rightarrow> VerificationStatus \<Rightarrow> bool \<Rightarrow> FailedProperties \<Rightarrow> string" where
  "report_tail env ps st should_panic fp =
     should_panic_info should_panic fp @ newline @
     (case effective_success_reason st should_panic fp of
        Some r \<Rightarrow> if emit_markers env then ''[AY:EFFECTIVE_SUCCESS:'' @ r @ '']'' @ newline else []
      | None \<Rightarrow> []) @
     (if has_check_failure ps ''is not currently supported by trust_mc''
      then ''** WARNING: A Rust construct that is not currently supported by trust-mc was found to be reachable. Check the results for more details.'' @ newline
      else []) @
     (if has_unwinding_assertion_failures ps
      then ''[trust_mc] info: Verification output shows one or more unwinding failures.'' @ newline @
           ''[trust_mc] tip: Consider increasing the unwinding value or disabling `--unwinding-assertions`.'' @ newline
      else [])"

definition verdict_text :: "RenderEnv \<Rightarrow> Colour \<times> string \<Rightarrow> string" where
  "verdict_text env ct = newline @ ''VERIFICATION:- '' @ paint env (fst ct) (snd ct)"

definition format_result ::
    "RenderEnv \<Rightarrow> Property list \<Rightarrow> VerificationStatus \<Rightarrow> bool \<Rightarrow> FailedProperties \<Rightarrow> bool \<Rightarrow>
     ValidationStatus \<Rightarrow> SolverUnknownReason option \<Rightarrow> HarnessFeasibility \<Rightarrow> string option" where
  "format_result env ps st should_panic fp show_checks vs reason feas =
     map_option (\<lambda>n.
       report_head env ps show_checks n @
       verdict_text env (verdict_line ps st should_panic fp vs reason feas (length ps - number_cover_properties n)) @
       report_tail env ps st should_panic fp)
     (count_properties ps no_counts)"

definition format_coverage ::
    "RenderEnv \<Rightarrow> Property list \<Rightarrow> VerificationStatus \<Rightarrow> bool \<Rightarrow> FailedProperties \<Rightarrow> bool \<Rightarrow>
     ValidationStatus \<Rightarrow> SolverUnknownReason option \<Rightarrow> HarnessFeasibility \<Rightarrow> string option" where
  "format_coverage env ps st should_panic fp show_checks vs reason feas =
     (let non_coverage_checks = filter (\<lambda>p. property_class p \<noteq> ''code_coverage'') ps in
      map_option (\<lambda>out. out @ newline @ ''Source-based code coverage results:'' @ newline @ newline @ coverage_str env)
        (format_result env non_coverage_checks st should_panic fp show_checks vs reason feas))"

datatype OutputFormat = Regular | Terse | Old

definition old_listing_line :: "RenderEnv \<Rightarrow> Property \<Rightarrow> string" where
  "old_listing_line env p =
     ''['' @ property_name p @ '']'' @
     (case line (source_location p) of Some l \<Rightarrow> '' line '' @ l | None \<Rightarrow> []) @
     '' '' @ description p @ '': '' @ show_status env (pstatus p) @ newline"

definition render :: "RenderEnv \<Rightarrow> VerificationResult \<Rightarrow> OutputFormat \<Rightarrow> bool \<Rightarrow> string option" where
  "render env r fmt should_panic =
     (let show_checks = (fmt = Regular);
          old_listing = (if fmt = Old then concat (map (old_listing_line env) (results r)) else []);
          out = (if has_coverage_results r then format_coverage else format_result)
                  env (results r) (status r) should_panic (failed_properties r) show_checks
                  (validation_status r) (solver_unknown_reason r) (harness_feasibility r) in
      map_option (\<lambda>text. old_listing @ text @
        (if sound_fallback_count r > 0 \<and> status r = Success
         then ''** NOTE: PROOF with '' @ usize_str (sound_fallback_count r) @ '' sound fallback(s) '' @ em_dash @
              '' some constraints over-approximated'' @ newline
         else []) @
        ''Verification Time: '' @ runtime_str env @ ''s'' @ newline) out)"

section \<open>The JSON verdict\<close>

datatype HarnessVerdict =
    Successful | SuccessfulUnvalidated | Vacuous | InconclusiveDeadChecks | InconclusiveUndecided
  | InconclusiveNoChecks | UncertifiedCounterexample | VUnvalidated | VFailed

fun verdict_label :: "HarnessVerdict \<Rightarrow> string" where
  "verdict_label Successful = ''successful''"
| "verdict_label SuccessfulUnvalidated = ''successful_unvalidated''"
| "verdict_label Vacuous = ''vacuous''"
| "verdict_label InconclusiveDeadChecks = ''inconclusive_dead_checks''"
| "verdict_label InconclusiveUndecided = ''inconclusive_undecided''"
| "verdict_label InconclusiveNoChecks = ''inconclusive_no_checks''"
| "verdict_label UncertifiedCounterexample = ''uncertified_counterexample''"
| "verdict_label VUnvalidated = ''unvalidated''"
| "verdict_label VFailed = ''failed''"

definition is_success :: "HarnessVerdict \<Rightarrow> bool" where
  "is_success v \<longleftrightarrow> v = Successful \<or> v = SuccessfulUnvalidated"

definition is_inconclusive :: "HarnessVerdict \<Rightarrow> bool" where
  "is_inconclusive v \<longleftrightarrow> v = InconclusiveUndecided \<or> v = InconclusiveNoChecks \<or> v = InconclusiveDeadChecks"

definition is_console_cover :: "Property \<Rightarrow> bool" where
  "is_console_cover p \<longleftrightarrow>
     is_cover_property p \<and>
     (pstatus p = CSatisfied \<or> pstatus p = CUnsatisfiable \<or> pstatus p = CUndetermined \<or> pstatus p = CUnreachable)"

definition console_check_count :: "Property list \<Rightarrow> nat" where
  "console_check_count ps = length ps - length (filter is_console_cover ps)"

definition classify_harness_verdict :: "VerificationResult \<Rightarrow> bool \<Rightarrow> HarnessVerdict" where
  "classify_harness_verdict r should_panic =
     (let effective_success = is_effective_manual_success (status r) should_panic (failed_properties r);
          unvalidated = (validation_status r = Unvalidated);
          shape = (if should_panic then NotVacuous else classify_vacuity (results r) (harness_feasibility r));
          reason = solver_unknown_reason r in
      if effective_success then (if unvalidated then SuccessfulUnvalidated else Successful)
      else if shape = UnsatAssumption then Vacuous
      else if shape = DeadChecks then InconclusiveDeadChecks
      else if \<not> has_decided_check (results r) \<and>
              (reason = Some UndecidedModel \<or> reason = Some Timeout \<or> reason = Some SmtParseError \<or> reason = Some Memout)
      then InconclusiveUndecided
      else if console_check_count (results r) = 0 then InconclusiveNoChecks
      else case ctrex_category r of
          Some (EncodingGap _) \<Rightarrow> UncertifiedCounterexample
        | Some (OverApproximation _) \<Rightarrow> UncertifiedCounterexample
        | _ \<Rightarrow> if unvalidated then VUnvalidated else VFailed)"

section \<open>Theorems\<close>

definition misplaced_cover_status :: "Property \<Rightarrow> bool" where
  "misplaced_cover_status p \<longleftrightarrow> \<not> is_cover_property p \<and> (pstatus p = CSatisfied \<or> pstatus p = CUnsatisfiable)"

lemma count_property_None: "count_property p n = None \<longleftrightarrow> misplaced_cover_status p"
  by (auto simp: count_property_def misplaced_cover_status_def split: CheckStatus.splits)

lemma count_properties_None: "count_properties ps n = None \<longleftrightarrow> (\<exists>p \<in> set ps. misplaced_cover_status p)"
proof (induction ps arbitrary: n)
  case (Cons p ps)
  then show ?case
    using count_property_None [of p n] by (cases "count_property p n") simp_all
qed simp

lemma count_property_covers:
  "count_property p n = Some n' \<Longrightarrow>
   number_cover_properties n' = number_cover_properties n + (if is_console_cover p then 1 else 0)"
  by (auto simp: count_property_def is_console_cover_def number_cover_properties_def
      split: CheckStatus.splits if_splits)

lemma count_properties_covers:
  "count_properties ps n = Some n' \<Longrightarrow>
   number_cover_properties n' = number_cover_properties n + length (filter is_console_cover ps)"
proof (induction ps arbitrary: n)
  case (Cons p ps)
  then obtain n1 where "count_property p n = Some n1" "count_properties ps n1 = Some n'"
    by (auto split: option.splits)
  then show ?case
    using Cons.IH [of n1] count_property_covers [of p n n1] by simp
qed simp

lemma no_counts_covers [simp]: "number_cover_properties no_counts = 0"
  by (simp add: number_cover_properties_def no_counts_def)

text \<open>C37: Rendering a result panics exactly on a property that is not a cover and carries one of the two cover
  statuses; every other property table is rendered, in every output format.\<close>

theorem format_result_panics_iff:
  "format_result env ps st should_panic fp show_checks vs reason feas = None \<longleftrightarrow>
     (\<exists>p \<in> set ps. \<not> is_cover_property p \<and> (pstatus p = CSatisfied \<or> pstatus p = CUnsatisfiable))"
  using count_properties_None [of ps no_counts]
  by (simp add: format_result_def misplaced_cover_status_def)

text \<open>The console wording of a JSON verdict.  One token covers three console lines: the reason names
  which.\<close>

fun console_wording :: "HarnessVerdict \<Rightarrow> SolverUnknownReason option \<Rightarrow> ValidationStatus \<Rightarrow> Colour \<times> string" where
  "console_wording Successful _ _ = (Green, ''SUCCESSFUL'')"
| "console_wording SuccessfulUnvalidated _ _ = (Yellow, ''SUCCESSFUL (UNVALIDATED)'')"
| "console_wording Vacuous _ _ =
     (Red, ''VACUOUS (proof discharged under unsatisfiable assumptions '' @ em_dash @ '' nothing verified)'')"
| "console_wording InconclusiveDeadChecks _ _ =
     (Yellow, ''INCONCLUSIVE (every check is unreachable '' @ em_dash @ '' dead code, nothing exercised)'')"
| "console_wording InconclusiveUndecided reason _ =
     (if reason = Some SmtParseError then
        (Yellow, ''INCONCLUSIVE (solver rejected the emitted query as ill-formed '' @ em_dash @
           '' encoder defect; see [AY:SMT_REJECTED])'')
      else if reason = Some Memout then
        (Yellow, ''INCONCLUSIVE (solver ran out of memory '' @ em_dash @
           '' bounded query too large; try a smaller unwind bound or --ay-chc)'')
      else (Yellow, ''INCONCLUSIVE (solver undecided '' @ em_dash @ '' try --ay-chc for unbounded proofs)''))"
| "console_wording InconclusiveNoChecks _ _ = (Yellow, ''INCONCLUSIVE (no checks)'')"
| "console_wording UncertifiedCounterexample _ vs =
     (if vs = Unvalidated then (Yellow, ''UNVALIDATED (DT+BV)'') else (Red, ''FAILED''))"
| "console_wording VUnvalidated _ _ = (Yellow, ''UNVALIDATED (DT+BV)'')"
| "console_wording VFailed _ _ = (Red, ''FAILED'')"

lemma verdict_line_wording:
  "verdict_line (results r) (status r) should_panic (failed_properties r) (validation_status r)
     (solver_unknown_reason r) (harness_feasibility r) (console_check_count (results r)) =
   console_wording (classify_harness_verdict r should_panic) (solver_unknown_reason r) (validation_status r)"
  by (cases "validation_status r"; cases "is_effective_manual_success (status r) should_panic (failed_properties r)")
    (auto simp: verdict_line_def classify_harness_verdict_def Let_def split: option.splits CtrexCategory.splits)

lemma format_result_verdict:
  assumes "format_result env ps st should_panic fp show_checks vs reason feas = Some out"
  shows "\<exists>n. out = report_head env ps show_checks n @
     verdict_text env (verdict_line ps st should_panic fp vs reason feas (console_check_count ps)) @
     report_tail env ps st should_panic fp"
proof -
  obtain n where n: "count_properties ps no_counts = Some n"
    using assms by (auto simp: format_result_def)
  then have "length ps - number_cover_properties n = console_check_count ps"
    using count_properties_covers [OF n] by (simp add: console_check_count_def)
  then show ?thesis
    using assms n by (intro exI [of _ n]) (simp add: format_result_def)
qed

text \<open>C34: The two channels agree: outside coverage mode, the verdict printed on the console is the wording of
  the verdict written to the JSON summary, for every result that renders at all.\<close>

theorem console_matches_json:
  assumes "\<not> has_coverage_results r" "render env r fmt should_panic = Some out"
  shows "\<exists>before after. out = before @
     verdict_text env (console_wording (classify_harness_verdict r should_panic) (solver_unknown_reason r) (validation_status r)) @
     after"
proof -
  obtain rep where rep: "format_result env (results r) (status r) should_panic (failed_properties r) (fmt = Regular)
      (validation_status r) (solver_unknown_reason r) (harness_feasibility r) = Some rep"
      "\<exists>before after. out = before @ rep @ after"
    using assms by (fastforce simp: render_def Let_def)
  from format_result_verdict [OF rep(1)] obtain h t where
    "rep = h @ verdict_text env (console_wording (classify_harness_verdict r should_panic)
        (solver_unknown_reason r) (validation_status r)) @ t"
    unfolding verdict_line_wording by blast
  with rep(2) show ?thesis
    by (metis append.assoc)
qed

definition plain_env :: RenderEnv where
  "plain_env = \<lparr> paint = (\<lambda>_ s. s), loc_str = (\<lambda>_. []), runtime_str = ''0s'', coverage_str = [],
     emit_markers = False \<rparr>"

theorem console_matches_json_witness:
  "\<exists>out before after. render plain_env (sample_result Success NoFailures []) Regular False = Some out \<and>
     out = before @ verdict_text plain_env (Green, ''SUCCESSFUL'') @ after"
proof -
  let ?r = "sample_result Success NoFailures []"
  obtain out where out: "render plain_env ?r Regular False = Some out"
    by (simp add: render_def format_result_def Let_def)
  have "\<exists>before after. out = before @ verdict_text plain_env
      (console_wording (classify_harness_verdict ?r False) (solver_unknown_reason ?r) (validation_status ?r)) @ after"
    by (rule console_matches_json [OF _ out]) simp
  moreover have "classify_harness_verdict ?r False = Successful"
    by (simp add: classify_harness_verdict_def is_effective_manual_success_def)
  ultimately show ?thesis
    using out by auto
qed

text \<open>In coverage mode the channels part: the console computes its verdict without the code-coverage rows,
  the summary with them, so a harness whose only rows are coverage is INCONCLUSIVE on one and failed on
  the other.\<close>

theorem coverage_mode_disagrees:
  "(let r = (sample_result Failure OtherFailures [sample_property ''code_coverage'' 1 CCovered])
              \<lparr> has_coverage_results := True \<rparr> in
    classify_harness_verdict r False = VFailed \<and>
    (\<exists>out before after. render env r Regular False = Some out \<and>
       out = before @ verdict_text env (Yellow, ''INCONCLUSIVE (no checks)'') @ after))"
proof -
  let ?p = "sample_property ''code_coverage'' 1 CCovered"
  let ?r = "(sample_result Failure OtherFailures [?p])\<lparr> has_coverage_results := True \<rparr>"
  have "classify_harness_verdict ?r False = VFailed"
    by (simp add: classify_harness_verdict_def is_effective_manual_success_def classify_vacuity_def
        is_unsat_assumption_vacuous_def is_cover_property_def console_check_count_def is_console_cover_def Let_def)
  moreover have "property_class ?p = ''code_coverage''"
    by (simp add: property_class_def)
  then have "render env ?r Regular False = Some (report_head env [] True no_counts @
      verdict_text env (Yellow, ''INCONCLUSIVE (no checks)'') @ report_tail env [] Failure False OtherFailures @
      newline @ ''Source-based code coverage results:'' @ newline @ newline @ coverage_str env @
      ''Verification Time: '' @ runtime_str env @ ''s'' @ newline)"
    by (simp add: render_def format_coverage_def format_result_def verdict_line_def is_effective_manual_success_def
        classify_vacuity_def is_unsat_assumption_vacuous_def Let_def)
  ultimately show ?thesis
    unfolding Let_def by blast
qed

end
