(* ===== verification/Runner.thy ===== *)
theory Runner
  imports Ctrex Report
begin

text \<open>
  The harness runner (\<open>trust-mc-driver/src/harness_runner.rs\<close>): everything \<open>check_harness\<close>
  does to the solver's result before it is reported, gate by gate in the order of the code; the
  two-lane retry of loop contracts (\<open>loop_two_lane.rs\<close>); the run over all harnesses with
  \<open>--fail-fast\<close>; and the exit decision of the final summary (\<open>result_summary.rs\<close>).

  The solver run is a value of type \<open>VerificationResult\<close>.  What the gates read from the artifact
  file is the record \<open>HarnessArtifact\<close>; the child processes of the retry are the record
  \<open>LaneRuns\<close> with their captured output.  Markers printed for other tools are not modelled.
\<close>

section \<open>Inputs\<close>

record RunnerArgs =
  allow_vacuous :: bool
  strict_vacuity :: bool
  conformance_harnesses :: "string list"

record HarnessArtifact =
  approximation_evidence :: "ApproximationEvidence option"
  obligation_free_body :: bool

section \<open>The two-lane retry\<close>

datatype LaneRun = OutOfBudget | NoCommand | RunError | Ran string

record LaneRuns =
  eligible :: bool
  lane_o :: "string option"
  lane_p :: "string option"
  lane_p_deeper :: "LaneRun list"

datatype TwoLaneOutcome = Proved | Inconclusive string

text \<open>\<open>lane_budget\<close> in nanoseconds: what remains of seventy seconds, at least ten.\<close>

definition RETRY_TOTAL_BUDGET :: nat where
  "RETRY_TOTAL_BUDGET = 70 * 10 ^ 9"

definition lane_budget :: "nat \<Rightarrow> nat option" where
  "lane_budget elapsed =
     (if elapsed \<le> RETRY_TOTAL_BUDGET
      then let remaining = RETRY_TOTAL_BUDGET - elapsed in if remaining < 10 * 10 ^ 9 then None else Some remaining
      else None)"

definition child_proved :: "string \<Rightarrow> bool" where
  "child_proved out \<longleftrightarrow> list_ex (\<lambda>l. trim l = ''VERIFICATION:- SUCCESSFUL'') (lines out)"

definition LOOP_INVARIANT_BASE_REPORT_TEXT :: string where
  "LOOP_INVARIANT_BASE_REPORT_TEXT = ''Check invariant before entry for loop ''"

definition LOOP_INVARIANT_STEP_REPORT_TEXT :: string where
  "LOOP_INVARIANT_STEP_REPORT_TEXT = ''Check invariant after step for loop ''"

definition LOOP_CONTRACT_REPORT_MARKERS :: "(string \<times> string) list" where
  "LOOP_CONTRACT_REPORT_MARKERS =
     [(LOOP_INVARIANT_BASE_REPORT_TEXT, ''loop invariant base case:''),
      (LOOP_INVARIANT_STEP_REPORT_TEXT, ''loop invariant inductive step:''),
      (''loop decreases clause:'', ''loop decreases clause:'')]"

definition REQUIRED_OBLIGATIONS :: "string list" where
  "REQUIRED_OBLIGATIONS = [LOOP_INVARIANT_BASE_REPORT_TEXT, LOOP_INVARIANT_STEP_REPORT_TEXT]"

definition obligations_present_in_report :: "string \<Rightarrow> string list" where
  "obligations_present_in_report out =
     fold (\<lambda>(canonical, also_accepted) found.
         if (contains out canonical \<or> contains out also_accepted) \<and> canonical \<notin> set found
         then found @ [canonical] else found) LOOP_CONTRACT_REPORT_MARKERS []"

definition debug_list :: "string list \<Rightarrow> string" where
  "debug_list xs = ''['' @ join '', '' (map (\<lambda>x. quote @ x @ quote) xs) @ '']''"

definition merge :: "bool \<Rightarrow> string \<Rightarrow> bool \<Rightarrow> TwoLaneOutcome" where
  "merge lane_o_proved lane_o_stdout lane_p_proved =
     (if \<not> lane_o_proved then Inconclusive ''obligations lane did not discharge the loop contract''
      else let missing = filter (\<lambda>r. r \<notin> set (obligations_present_in_report lane_o_stdout)) REQUIRED_OBLIGATIONS in
        if missing \<noteq> [] then
          Inconclusive (''obligations lane is missing '' @ debug_list missing @ '' '' @ em_dash @ '' refusing a vacuous pass'')
        else if \<not> lane_p_proved then
          Inconclusive ''properties lane did not prove the user properties at any tried depth''
        else Proved)"

fun deepen :: "LaneRun list \<Rightarrow> bool" where
  "deepen [] = False"
| "deepen (OutOfBudget # _) = False"
| "deepen (NoCommand # _) = False"
| "deepen (RunError # rs) = deepen rs"
| "deepen (Ran out # rs) = (child_proved out \<or> deepen rs)"

definition discharged :: "Property \<Rightarrow> Property" where
  "discharged p =
     (if pstatus p = CFailure
      then p\<lparr> pstatus := CSuccess, description := description p @ '' [discharged in the two-lane loop-contract retry]'' \<rparr>
      else p)"

definition maybe_two_lane_retry :: "LaneRuns \<Rightarrow> VerificationResult \<Rightarrow> VerificationResult" where
  "maybe_two_lane_retry lanes r =
     (if \<not> eligible lanes then r
      else case lane_o lanes of
        None \<Rightarrow> r
      | Some o_stdout \<Rightarrow>
          if \<not> child_proved o_stdout then r
          else let p_first = (case lane_p lanes of None \<Rightarrow> False | Some out \<Rightarrow> child_proved out);
                   p_proved = (p_first \<or> deepen (lane_p_deeper lanes)) in
            (case merge True o_stdout p_proved of
               Proved \<Rightarrow> r\<lparr> results := map discharged (results r), status := Success, failed_properties := NoFailures \<rparr>
             | Inconclusive _ \<Rightarrow> r))"

section \<open>The gates of \<open>check_harness\<close>\<close>

definition has_non_chc_violation :: "Property list \<Rightarrow> bool" where
  "has_non_chc_violation ps \<longleftrightarrow> list_ex (\<lambda>p. pstatus p = CFailure \<and> pclass (property_id p) \<noteq> ''chc'') ps"

definition classify_stage ::
    "HarnessMetadata \<Rightarrow> CrateUnsoundnessCounts \<Rightarrow> HarnessArtifact \<Rightarrow> VerificationResult \<Rightarrow> VerificationResult" where
  "classify_stage h c art r =
     (if status r = Failure \<and> demotion_reasons r = [] then
        r\<lparr> ctrex_category := Some (
          if unwind_bound_exhausted (results r) then CtrexUnknown
          else if failed_properties r = OtherFailures \<and> \<not> has_non_chc_violation (results r) then CtrexUnknown
          else recertify_overapprox_ctrex (classify_ctrex h c) (approximation_evidence art) (results r)) \<rparr>
      else r)"

definition fail_other :: "VerificationResult \<Rightarrow> VerificationResult" where
  "fail_other r = r\<lparr> status := Failure, failed_properties := OtherFailures \<rparr>"

definition fail_keep_failures :: "VerificationResult \<Rightarrow> VerificationResult" where
  "fail_keep_failures r =
     r\<lparr> status := Failure,
        failed_properties := (if failed_properties r = NoFailures then OtherFailures else failed_properties r) \<rparr>"

definition vacuity_gate :: "RunnerArgs \<Rightarrow> HarnessMetadata \<Rightarrow> VerificationResult \<Rightarrow> VerificationResult" where
  "vacuity_gate args h r =
     (let shape = classify_vacuity (results r) (harness_feasibility r) in
      if \<not> should_panic (attributes h) \<and> status r \<noteq> Failure \<and> shape \<noteq> NotVacuous \<and> \<not> allow_vacuous args
      then fail_other r else r)"

definition no_checks_gate :: "HarnessMetadata \<Rightarrow> HarnessArtifact \<Rightarrow> VerificationResult \<Rightarrow> VerificationResult" where
  "no_checks_gate h art r =
     (if \<not> should_panic (attributes h) \<and> status r \<noteq> Failure \<and> results r = [] \<and> \<not> obligation_free_body art
      then fail_other r else r)"

definition cover_gate :: "RunnerArgs \<Rightarrow> VerificationResult \<Rightarrow> VerificationResult" where
  "cover_gate args r =
     (if has_unsatisfiable_cover (results r) \<and> strict_vacuity args then fail_keep_failures r else r)"

definition conformance_gate :: "RunnerArgs \<Rightarrow> HarnessMetadata \<Rightarrow> VerificationResult \<Rightarrow> VerificationResult" where
  "conformance_gate args h r =
     (if \<not> should_panic (attributes h) \<and> pretty_name h \<in> set (conformance_harnesses args) \<and>
         \<not> has_satisfied_cover (results r)
      then fail_keep_failures r else r)"

definition should_panic_gate :: "HarnessMetadata \<Rightarrow> VerificationResult \<Rightarrow> VerificationResult" where
  "should_panic_gate h r =
     (if should_panic (attributes h) \<and> failed_properties r = PanicsOnly \<and>
         (case ctrex_category r of
            Some (EncodingGap _) \<Rightarrow> True | Some (OverApproximation _) \<Rightarrow> True | _ \<Rightarrow> False)
      then fail_other r else r)"

definition bookkeeping :: "HarnessMetadata \<Rightarrow> CrateUnsoundnessCounts \<Rightarrow> VerificationResult \<Rightarrow> VerificationResult" where
  "bookkeeping h c r =
     (let r = r\<lparr> kani_mem_overapprox_count :=
                (case lookup_per_harness (c_kani_mem_overapprox_per_harness c) (pretty_name h) of
                   None \<Rightarrow> 0 | Some n \<Rightarrow> n) \<rparr> in
      if ctrex_category r = Some CtrexUnknown
      then r\<lparr> unknown_quality := Some (classify_unknown_quality h c) \<rparr> else r)"

definition retry_stage :: "HarnessMetadata \<Rightarrow> LaneRuns \<Rightarrow> VerificationResult \<Rightarrow> VerificationResult" where
  "retry_stage h lanes r =
     (if \<not> is_effective_manual_success (status r) (should_panic (attributes h)) (failed_properties r)
      then maybe_two_lane_retry lanes r else r)"

definition check_harness ::
    "RunnerArgs \<Rightarrow> HarnessMetadata \<Rightarrow> CrateUnsoundnessCounts \<Rightarrow> HarnessArtifact \<Rightarrow> LaneRuns \<Rightarrow>
     VerificationResult \<Rightarrow> VerificationResult" where
  "check_harness args h c art lanes solved =
     (let r = demote_for_all_unsoundness solved h c;
          r = classify_stage h c art r;
          r = vacuity_gate args h r;
          r = no_checks_gate h art r;
          r = cover_gate args r;
          r = conformance_gate args h r;
          r = apply_sound_fallback_fail_close r h c;
          r = should_panic_gate h r;
          r = bookkeeping h c r in
      retry_stage h lanes r)"

section \<open>Gates never promote\<close>

text \<open>A gate lets a success pass exactly when its condition holds, and leaves the property table alone.\<close>

locale fail_gate =
  fixes gate :: "VerificationResult \<Rightarrow> VerificationResult"
    and passes :: "Property list \<Rightarrow> HarnessFeasibility \<Rightarrow> bool"
  assumes gate_status: "status (gate r) = Success \<longleftrightarrow> status r = Success \<and> passes (results r) (harness_feasibility r)"
    and gate_results: "results (gate r) = results r"
    and gate_feasibility: "harness_feasibility (gate r) = harness_feasibility r"
begin

lemma no_promotion: "status r = Failure \<Longrightarrow> status (gate r) = Failure"
  using gate_status [of r] by (cases "status (gate r)") simp_all

lemmas gate_facts = gate_status gate_results gate_feasibility

end

locale gate_sequence = first: fail_gate gate1 passes1 + second: fail_gate gate2 passes2
  for gate1 passes1 gate2 passes2

sublocale gate_sequence \<subseteq> both: fail_gate "\<lambda>r. gate2 (gate1 r)" "\<lambda>ps f. passes1 ps f \<and> passes2 ps f"
  by unfold_locales (simp_all add: first.gate_facts second.gate_facts)

lemma neq_Failure [simp]: "st \<noteq> Failure \<longleftrightarrow> st = Success"
  by (cases st) simp_all

lemma neq_Success [simp]: "st \<noteq> Success \<longleftrightarrow> st = Failure"
  by (cases st) simp_all

interpretation classify_gate: fail_gate "classify_stage h c art" "\<lambda>_ _. True"
  by unfold_locales (auto simp: classify_stage_def)

interpretation vacuity: fail_gate "vacuity_gate args h"
    "\<lambda>ps f. should_panic (attributes h) \<or> classify_vacuity ps f = NotVacuous \<or> allow_vacuous args"
  by unfold_locales (auto simp: vacuity_gate_def fail_other_def Let_def)

interpretation no_checks: fail_gate "no_checks_gate h art"
    "\<lambda>ps _. should_panic (attributes h) \<or> ps \<noteq> [] \<or> obligation_free_body art"
  by unfold_locales (auto simp: no_checks_gate_def fail_other_def)

interpretation cover: fail_gate "cover_gate args" "\<lambda>ps _. \<not> (has_unsatisfiable_cover ps \<and> strict_vacuity args)"
  by unfold_locales (auto simp: cover_gate_def fail_keep_failures_def)

interpretation conformance: fail_gate "conformance_gate args h"
    "\<lambda>ps _. should_panic (attributes h) \<or> pretty_name h \<notin> set (conformance_harnesses args) \<or> has_satisfied_cover ps"
  by unfold_locales (auto simp: conformance_gate_def fail_keep_failures_def)

interpretation vacuity_checks: gate_sequence "vacuity_gate args h"
    "\<lambda>ps f. should_panic (attributes h) \<or> classify_vacuity ps f = NotVacuous \<or> allow_vacuous args"
    "no_checks_gate h art" "\<lambda>ps _. should_panic (attributes h) \<or> ps \<noteq> [] \<or> obligation_free_body art"
  by unfold_locales

interpretation cover_checks: gate_sequence "cover_gate args" "\<lambda>ps _. \<not> (has_unsatisfiable_cover ps \<and> strict_vacuity args)"
    "conformance_gate args h"
    "\<lambda>ps _. should_panic (attributes h) \<or> pretty_name h \<notin> set (conformance_harnesses args) \<or> has_satisfied_cover ps"
  by unfold_locales

lemma demote_results [simp]:
  "results (demote_for_all_unsoundness r h c) = results r"
  "harness_feasibility (demote_for_all_unsoundness r h c) = harness_feasibility r"
  by (simp_all add: demote_for_all_unsoundness_def Let_def)

lemma fallback_results [simp]:
  "results (apply_sound_fallback_fail_close r h c) = results r"
  "harness_feasibility (apply_sound_fallback_fail_close r h c) = harness_feasibility r"
  by (simp_all add: apply_sound_fallback_fail_close_def Let_def)

lemma bookkeeping_status [simp]:
  "status (bookkeeping h c r) = status r"
  "failed_properties (bookkeeping h c r) = failed_properties r"
  "ctrex_category (bookkeeping h c r) = ctrex_category r"
  by (simp_all add: bookkeeping_def Let_def)

lemma should_panic_gate_off [simp]: "\<not> should_panic (attributes h) \<Longrightarrow> should_panic_gate h r = r"
  by (simp add: should_panic_gate_def)

text \<open>C1: What a reported success means.  For an ordinary harness of a crate whose name is unique and without a
  loop-contract retry, \<open>check_harness\<close> reports Success exactly when the solver did, no demoting
  count is charged to the harness, its only sound approximations are certified havocs, the property
  table is neither all-unreachable (unless allowed) nor empty (unless certified obligation-free), no
  cover is refuted under \<open>--strict-vacuity\<close>, and a conformance harness has a satisfied cover.\<close>

theorem reported_success_iff:
  assumes "only_record p m" "\<not> should_panic (attributes h)" "\<not> eligible lanes"
  shows "status (check_harness args h (get_for_crate (from_project p) (crate_name m)) art lanes solved) = Success \<longleftrightarrow>
     status solved = Success \<and>
     (\<forall>cat. category_class cat = Demoted \<longrightarrow> charged m h cat = 0) \<and>
     (\<forall>cat. soundly_tainted m h cat \<longrightarrow> cat = ChcSoundHavocDrop) \<and>
     (classify_vacuity (results solved) (harness_feasibility solved) = NotVacuous \<or> allow_vacuous args) \<and>
     (results solved \<noteq> [] \<or> obligation_free_body art) \<and>
     \<not> (has_unsatisfiable_cover (results solved) \<and> strict_vacuity args) \<and>
     (pretty_name h \<in> set (conformance_harnesses args) \<longrightarrow> has_satisfied_cover (results solved))"
proof -
  let ?c = "get_for_crate (from_project p) (crate_name m)"
  have retry: "status (retry_stage h lanes r) = status r" for r
    using assms(3) by (simp add: retry_stage_def maybe_two_lane_retry_def)
  show ?thesis
    unfolding check_harness_def Let_def retry bookkeeping_status should_panic_gate_off [OF assms(2)]
      sound_fallback_status [OF assms(1)]
    using assms(2)
    by (auto simp: cover_checks.both.gate_facts vacuity_checks.both.gate_facts
        classify_gate.gate_facts demote_status [OF assms(1)])
qed

definition sample_args :: RunnerArgs where
  "sample_args = \<lparr> allow_vacuous = False, strict_vacuity = True, conformance_harnesses = [] \<rparr>"

definition sample_artifact :: HarnessArtifact where
  "sample_artifact = \<lparr> approximation_evidence = None, obligation_free_body = False \<rparr>"

definition no_lanes :: LaneRuns where
  "no_lanes = \<lparr> eligible = False, lane_o = None, lane_p = None, lane_p_deeper = [] \<rparr>"

lemma sample_harness_panic [simp]: "\<not> should_panic (attributes (sample_harness n crate))"
  by (simp add: sample_harness_def new_attributes_def)

theorem reported_success_iff_witness:
  "(let m = clean_metadata ''app'' [sample_harness ''app::a'' ''app'']; h = sample_harness ''app::a'' ''app'' in
    status (check_harness sample_args h (get_for_crate (from_project \<lparr> metadata = [m] \<rparr>) (crate_name m))
      sample_artifact no_lanes (sample_result Success NoFailures [sample_property ''assertion'' 1 CSuccess])) = Success)"
proof -
  let ?m = "clean_metadata ''app'' [sample_harness ''app::a'' ''app'']"
  have "counter_map ?m cat = [] \<and> counter_total ?m cat = 0" for cat
    by (simp add: counter_map_def counter_total_def diagnostic_per_harness_fields)
  then show ?thesis
    unfolding Let_def
    by (subst reported_success_iff)
      (simp_all add: no_lanes_def sample_args_def charged_def soundly_tainted_def resolve_per_harness_count_fail_closed_def
        classify_vacuity_def is_unsat_assumption_vacuous_def is_cover_property_def has_unsatisfiable_cover_def)
qed

section \<open>Expected panics\<close>

lemma demote_Failure [simp]: "status r = Failure \<Longrightarrow> demote_for_all_unsoundness r h c = r"
  by (simp add: demote_for_all_unsoundness_def)

lemma vacuity_gate_panic [simp]: "should_panic (attributes h) \<Longrightarrow> vacuity_gate args h r = r"
  by (simp add: vacuity_gate_def)

lemma no_checks_gate_panic [simp]: "should_panic (attributes h) \<Longrightarrow> no_checks_gate h art r = r"
  by (simp add: no_checks_gate_def)

lemma conformance_gate_panic [simp]: "should_panic (attributes h) \<Longrightarrow> conformance_gate args h r = r"
  by (simp add: conformance_gate_def)

lemma cover_gate_keeps:
  "ctrex_category (cover_gate args r) = ctrex_category r"
  "status r = Failure \<Longrightarrow> status (cover_gate args r) = Failure"
  "failed_properties (cover_gate args r) = PanicsOnly \<longleftrightarrow> failed_properties r = PanicsOnly"
  by (auto simp: cover_gate_def fail_keep_failures_def)

lemma fallback_Failure:
  assumes "status r = Failure"
  shows "ctrex_category (apply_sound_fallback_fail_close r h c) = ctrex_category r"
    "failed_properties (apply_sound_fallback_fail_close r h c) = failed_properties r"
  using assms by (simp_all add: apply_sound_fallback_fail_close_def Let_def)

lemma retry_panic:
  assumes "should_panic (attributes h)"
  shows "failed_properties (retry_stage h lanes r) = PanicsOnly \<longleftrightarrow> failed_properties r = PanicsOnly"
    "failed_properties r = PanicsOnly \<Longrightarrow> retry_stage h lanes r = r"
  using assms
  by (auto simp: retry_stage_def maybe_two_lane_retry_def is_effective_manual_success_def Let_def
      split: option.splits TwoLaneOutcome.splits)

lemma should_panic_gate_PanicsOnly:
  assumes "should_panic (attributes h)"
  shows "failed_properties (should_panic_gate h r) = PanicsOnly \<longleftrightarrow>
     failed_properties r = PanicsOnly \<and> (\<forall>cs. ctrex_category r \<noteq> Some (EncodingGap cs) \<and> ctrex_category r \<noteq> Some (OverApproximation cs))"
  using assms by (auto simp: should_panic_gate_def fail_other_def split: option.splits CtrexCategory.splits)

lemma check_harness_panic:
  assumes "should_panic (attributes h)" "status solved = Failure" "demotion_reasons solved = []"
  shows "failed_properties (check_harness args h c art lanes solved) = PanicsOnly \<longleftrightarrow>
     failed_properties solved = PanicsOnly \<and>
     (unwind_bound_exhausted (results solved) \<or>
      recertify_overapprox_ctrex (classify_ctrex h c) (approximation_evidence art) (results solved) \<in> {Genuine, CtrexUnknown})"
proof -
  let ?cat = "recertify_overapprox_ctrex (classify_ctrex h c) (approximation_evidence art) (results solved)"
  let ?r = "classify_stage h c art solved"
  have r: "status ?r = Failure" "failed_properties ?r = failed_properties solved"
    "failed_properties solved = PanicsOnly \<Longrightarrow>
       ctrex_category ?r = Some (if unwind_bound_exhausted (results solved) then CtrexUnknown else ?cat)"
    using assms by (simp_all add: classify_stage_def)
  then have "status (cover_gate args ?r) = Failure"
    by (simp add: cover_gate_keeps)
  note keep = fallback_Failure [OF this]
  show ?thesis
    unfolding check_harness_def Let_def retry_panic [OF assms(1)] bookkeeping_status
      should_panic_gate_PanicsOnly [OF assms(1)] demote_Failure [OF assms(2)]
      vacuity_gate_panic [OF assms(1)] no_checks_gate_panic [OF assms(1)] conformance_gate_panic [OF assms(1)]
      keep cover_gate_keeps r(2)
    using r(3) by (cases ?cat) (auto split: if_splits)
qed



definition panicking_harness :: HarnessMetadata where
  "panicking_harness = (sample_harness ''app::p'' ''app'')\<lparr> attributes := (new_attributes Proof)\<lparr> should_panic := True \<rparr> \<rparr>"

lemma panicking_harness_fields [simp]:
  "should_panic (attributes panicking_harness)" "pretty_name panicking_harness = ''app::p''"
  by (simp_all add: panicking_harness_def)

lemma default_counts_genuine [simp]: "classify_ctrex h default_counts = Genuine"
  by (simp add: classify_ctrex_def demoted_triggers_def resolve_demoting_categories_def default_counts_def
      fail_closed_triggers_def push_fail_closed_trigger_def crate_trigger_def resolve_per_harness_count_def
      resolve_per_harness_count_fail_closed_def lookup_per_harness_def)

lemma recertify_Genuine [simp]: "recertify_overapprox_ctrex Genuine ev ps = Genuine"
  by (simp add: recertify_overapprox_ctrex_def)


text \<open>\<open>--strict-vacuity\<close> does not fail a \<open>should_panic\<close> harness: a refuted cover sets the status
  to Failure but keeps the recorded panics, which are what decides the verdict.\<close>

theorem strict_vacuity_spares_expected_panics:
  "(let solved = sample_result Failure PanicsOnly
        [sample_property ''assertion'' 1 CFailure, sample_property ''cover'' 1 CUnsatisfiable];
        r = check_harness sample_args panicking_harness default_counts sample_artifact no_lanes solved in
    has_unsatisfiable_cover (results solved) \<and> strict_vacuity sample_args \<and>
    is_effective_manual_success (status r) True (failed_properties r))"
  by (simp add: is_effective_manual_success_def check_harness_panic has_unsatisfiable_cover_def is_cover_property_def
      sample_args_def unwind_bound_exhausted_def)

end
