(* ===== verification/Session.thy ===== *)
theory Session
  imports Runner "HOL-Library.Product_Lexorder" "HOL-Library.Multiset"
begin

text \<open>
  A whole session: selecting harnesses by name (\<open>find_proof_harnesses\<close> of
  \<open>trust-mc-metadata/src/harness.rs\<close>), ordering them (\<open>sort_harnesses_by_loc\<close> of
  \<open>metadata.rs\<close>), running them with or without \<open>--fail-fast\<close>
  (\<open>check_all_harnesses\<close> of \<open>harness_runner.rs\<close>, on one thread), and the exit decision of
  \<open>print_final_summary\<close> (\<open>result_summary.rs\<close>) in its quiet and its printing form.
\<close>

section \<open>Selection\<close>

text \<open>\<open>rfind("::")\<close>: the text after the last separator.\<close>

fun after_last_sep :: "string \<Rightarrow> string option" where
  "after_last_sep [] = None"
| "after_last_sep (c # s) =
     (case after_last_sep s of
        Some t \<Rightarrow> Some t
      | None \<Rightarrow> if starts_with (c # s) ''::'' then Some (drop 2 (c # s)) else None)"

definition get_harness_name_unqualified :: "HarnessMetadata \<Rightarrow> string" where
  "get_harness_name_unqualified h =
     (case after_last_sep (pretty_name h) of Some t \<Rightarrow> t | None \<Rightarrow> pretty_name h)"

definition find_proof_harnesses :: "string list \<Rightarrow> HarnessMetadata list \<Rightarrow> bool \<Rightarrow> HarnessMetadata list" where
  "find_proof_harnesses targets all_harnesses exact_filter =
     filter (\<lambda>md.
       if is_automatically_generated md then False
       else if exact_filter then pretty_name md \<in> set targets
       else pretty_name md \<in> set targets \<or> get_harness_name_unqualified md \<in> set targets \<or>
            list_ex (\<lambda>target. contains (pretty_name md) target) targets) all_harnesses"

text \<open>Files in order, later harnesses of a file first.  The code's sort is unstable; equal keys keep their
  order here.\<close>

definition sort_harnesses_by_loc :: "HarnessMetadata list \<Rightarrow> HarnessMetadata list" where
  "sort_harnesses_by_loc hs = sort_key (\<lambda>h. (original_file h, - int (original_start_line h))) hs"

section \<open>Running\<close>

type_synonym HarnessResult = "HarnessMetadata \<times> VerificationResult"

fun run_harnesses ::
    "bool \<Rightarrow> (HarnessMetadata \<Rightarrow> 'e + VerificationResult) \<Rightarrow> HarnessMetadata list \<Rightarrow> 'e + HarnessResult list" where
  "run_harnesses fail_fast check [] = Inr []"
| "run_harnesses fail_fast check (h # hs) =
     (case check h of
        Inl e \<Rightarrow> Inl e
      | Inr r \<Rightarrow>
          if fail_fast \<and> status r = Failure then Inr [(h, r)]
          else (case run_harnesses fail_fast check hs of
                  Inl e \<Rightarrow> Inl e
                | Inr rs \<Rightarrow> Inr ((h, r) # rs)))"

definition check_all_harnesses ::
    "bool \<Rightarrow> (HarnessMetadata \<Rightarrow> 'e + VerificationResult) \<Rightarrow> HarnessMetadata list \<Rightarrow> 'e + HarnessResult list" where
  "check_all_harnesses fail_fast check hs = run_harnesses fail_fast check (sort_harnesses_by_loc hs)"

section \<open>The exit decision\<close>

record SummaryArgs =
  harness_filters :: "string list"
  fail_on_unvalidated_success :: bool
  autoharness_mode :: bool

datatype Exit = ExitOk | ExitFailure | Bail

definition should_fail_final_summary :: "nat \<Rightarrow> nat \<Rightarrow> nat \<Rightarrow> nat \<Rightarrow> bool \<Rightarrow> bool" where
  "should_fail_final_summary failing autoharness_failing unvalidated_count unvalidated_success_count strict \<longleftrightarrow>
     failing + autoharness_failing + unvalidated_count > 0 \<or> strict \<and> unvalidated_success_count > 0"

definition manual_success :: "HarnessResult \<Rightarrow> bool" where
  "manual_success hr =
     is_effective_manual_success (status (snd hr)) (should_panic (attributes (fst hr))) (failed_properties (snd hr))"

definition is_automatic :: "HarnessResult \<Rightarrow> bool" where
  "is_automatic hr = is_automatically_generated (fst hr)"

definition quiet_summary :: "SummaryArgs \<Rightarrow> HarnessResult list \<Rightarrow> Exit" where
  "quiet_summary args rs =
     (let manual_failures = length (filter (\<lambda>r. \<not> is_automatic r \<and> \<not> manual_success r) rs);
          autoharness_failures = (if autoharness_mode args
            then length (filter (\<lambda>r. is_automatic r \<and> status (snd r) \<noteq> Success) rs) else 0);
          unvalidated_success_count = length (filter (\<lambda>r. \<not> is_automatic r \<and> manual_success r \<and>
            validation_status (snd r) = Unvalidated) rs);
          manual_count = length (filter (\<lambda>r. \<not> is_automatic r) rs) in
      if should_fail_final_summary manual_failures autoharness_failures 0 unvalidated_success_count
           (fail_on_unvalidated_success args)
      then ExitFailure
      else if manual_count = 0 \<and> harness_filters args \<noteq> [] then ExitFailure
      else ExitOk)"

definition print_autoharness_summary :: "HarnessResult list \<Rightarrow> nat" where
  "print_autoharness_summary automatic = length (filter (\<lambda>r. status (snd r) \<noteq> Success) automatic)"

definition printed_summary :: "SummaryArgs \<Rightarrow> HarnessResult list \<Rightarrow> nat \<Rightarrow> Exit" where
  "printed_summary args rs metadata_harness_count =
     (let (automatic, manual) = partition is_automatic rs;
          (successes, non_successes) = partition manual_success manual;
          (validated_successes, unvalidated_successes) = partition (\<lambda>r. validation_status (snd r) = Validated) successes;
          (failures, unvalidated) = partition (\<lambda>r. validation_status (snd r) = Validated) non_successes;
          total_count = length validated_successes + length unvalidated_successes + length failures + length unvalidated in
      if total_count = 0 \<and> harness_filters args \<noteq> [] then Bail
      else let autoharness_failing = (if autoharness_mode args then print_autoharness_summary automatic else 0) in
        if should_fail_final_summary (length failures) autoharness_failing (length unvalidated)
             (length unvalidated_successes) (fail_on_unvalidated_success args)
        then ExitFailure else ExitOk)"

section \<open>Selection: theorems\<close>

lemma after_last_sep_Some: "after_last_sep s = Some t \<Longrightarrow> \<exists>pre. s = pre @ ''::'' @ t"
proof (induction s arbitrary: t)
  case (Cons c s)
  show ?case
  proof (cases "after_last_sep s")
    case None
    then have "starts_with (c # s) ''::''" "t = drop 2 (c # s)"
      using Cons.prems by (auto split: if_splits)
    then have "c # s = ''::'' @ t"
      by (metis append_take_drop_id length_Cons list.size(3) numeral_2_eq_2 One_nat_def starts_with_def)
    then show ?thesis
      by (metis append_Nil)
  next
    case (Some u)
    then obtain pre where "s = pre @ ''::'' @ u"
      using Cons.IH by blast
    then show ?thesis
      using Cons.prems Some by (metis append_Cons after_last_sep.simps(2) option.inject option.simps(5))
  qed
qed simp

lemma contains_unqualified: "contains (pretty_name h) (get_harness_name_unqualified h)"
proof (cases "after_last_sep (pretty_name h)")
  case None
  then show ?thesis
    by (simp add: contains_sublist get_harness_name_unqualified_def)
next
  case (Some t)
  then obtain pre where "pretty_name h = (pre @ ''::'') @ t"
    using after_last_sep_Some by fastforce
  then have "sublist t (pretty_name h)"
    by (simp only: sublist_append_leftI)
  then show ?thesis
    using Some by (simp add: contains_sublist get_harness_name_unqualified_def)
qed

text \<open>The inexact harness filter is a plain substring filter: the equality tests on the full and on the
  unqualified name, which the code makes first, select nothing more.\<close>

theorem inexact_filter_is_substring:
  "find_proof_harnesses targets hs False =
   filter (\<lambda>h. \<not> is_automatically_generated h \<and> (\<exists>t \<in> set targets. contains (pretty_name h) t)) hs"
proof -
  have "contains (pretty_name h) (pretty_name h)" for h
    by (simp add: contains_sublist)
  then show ?thesis
    unfolding find_proof_harnesses_def
    by (intro filter_cong) (auto simp: list_ex_iff intro: contains_unqualified)
qed

section \<open>Running: theorems\<close>

lemma run_harnesses_fst:
  "run_harnesses ff check hs = Inr rs \<Longrightarrow> \<exists>rest. hs = map fst rs @ rest \<and> (\<not> ff \<longrightarrow> rest = [])"
  by (induction hs arbitrary: rs) (auto split: sum.splits if_splits)

lemma run_harnesses_results:
  "run_harnesses ff check hs = Inr rs \<Longrightarrow> hr \<in> set rs \<Longrightarrow> check (fst hr) = Inr (snd hr)"
  by (induction hs arbitrary: rs) (auto split: sum.splits if_splits)

lemma run_harnesses_fail_fast:
  "run_harnesses True check hs = Inr rs \<Longrightarrow> hr \<in> set (butlast rs) \<Longrightarrow> status (snd hr) = Success"
  by (induction hs arbitrary: rs) (auto split: sum.splits if_splits)

text \<open>A run without \<open>--fail-fast\<close> that does not abort reports every harness exactly once, each
  with the result of its own check, in location order.\<close>

theorem every_harness_reported:
  assumes "check_all_harnesses False check hs = Inr rs"
  shows "map fst rs = sort_harnesses_by_loc hs \<and> mset (map fst rs) = mset hs \<and>
    (\<forall>hr \<in> set rs. check (fst hr) = Inr (snd hr))"
proof -
  have "map fst rs = sort_harnesses_by_loc hs"
    using assms run_harnesses_fst [of False check "sort_harnesses_by_loc hs" rs] by (auto simp: check_all_harnesses_def)
  moreover have "mset (sort_harnesses_by_loc hs) = mset hs"
    by (simp add: sort_harnesses_by_loc_def)
  ultimately show ?thesis
    using assms run_harnesses_results by (auto simp: check_all_harnesses_def)
qed

theorem every_harness_reported_witness:
  "map fst [(sample_harness ''b'' ''app'', sample_result Success NoFailures [])] =
     sort_harnesses_by_loc [sample_harness ''b'' ''app'']"
proof -
  have "check_all_harnesses False (\<lambda>_. Inr (sample_result Success NoFailures []) :: unit + VerificationResult)
      [sample_harness ''b'' ''app''] = Inr [(sample_harness ''b'' ''app'', sample_result Success NoFailures [])]"
    by (simp add: check_all_harnesses_def sort_harnesses_by_loc_def)
  from every_harness_reported [OF this] show ?thesis
    by simp
qed

text \<open>\<open>--fail-fast\<close> stops at the raw solver status, not at the verdict: a \<open>should_panic\<close>
  harness that panics as expected is an effective success, and still the harnesses after it are not
  run.\<close>

theorem fail_fast_stops_at_success:
  "(let r = sample_result Failure PanicsOnly [sample_property ''assertion'' 1 CFailure];
        check = (\<lambda>h. Inr r :: unit + VerificationResult);
        first = panicking_harness; second = (sample_harness ''app::z'' ''app'')\<lparr> original_file := ''z.rs'' \<rparr> in
    check_all_harnesses True check [first, second] = Inr [(first, r)] \<and>
    manual_success (first, r))"
proof -
  have "sort_harnesses_by_loc [panicking_harness, (sample_harness ''app::z'' ''app'')\<lparr> original_file := ''z.rs'' \<rparr>] =
      [panicking_harness, (sample_harness ''app::z'' ''app'')\<lparr> original_file := ''z.rs'' \<rparr>]"
    by (simp add: sort_harnesses_by_loc_def panicking_harness_def sample_harness_def less_eq_prod_def
        less_list_code less_eq_list_code)
  then show ?thesis
    by (simp add: check_all_harnesses_def manual_success_def is_effective_manual_success_def)
qed

section \<open>The exit decision: theorems\<close>

definition clean_exit :: "SummaryArgs \<Rightarrow> HarnessResult list \<Rightarrow> bool" where
  "clean_exit args rs \<longleftrightarrow>
     (\<forall>hr \<in> set rs. if is_automatic hr then autoharness_mode args \<longrightarrow> status (snd hr) = Success
        else manual_success hr \<and> (fail_on_unvalidated_success args \<longrightarrow> validation_status (snd hr) = Validated)) \<and>
     (harness_filters args \<noteq> [] \<longrightarrow> (\<exists>hr \<in> set rs. \<not> is_automatic hr))"

lemma neq_Unvalidated [simp]: "v \<noteq> Unvalidated \<longleftrightarrow> v = Validated"
  by (cases v) simp_all

lemma summary_counts:
  "length (filter P xs) = 0 \<longleftrightarrow> (\<forall>x \<in> set xs. \<not> P x)"
  by (simp add: filter_empty_conv)

lemma quiet_exit_iff: "quiet_summary args rs = ExitOk \<longleftrightarrow> clean_exit args rs"
proof -
  have "quiet_summary args rs = ExitOk \<longleftrightarrow>
      (\<forall>r \<in> set rs. \<not> (\<not> is_automatic r \<and> \<not> manual_success r)) \<and>
      (autoharness_mode args \<longrightarrow> (\<forall>r \<in> set rs. \<not> (is_automatic r \<and> status (snd r) \<noteq> Success))) \<and>
      (fail_on_unvalidated_success args \<longrightarrow>
         (\<forall>r \<in> set rs. \<not> (\<not> is_automatic r \<and> manual_success r \<and> validation_status (snd r) = Unvalidated))) \<and>
      \<not> ((\<forall>r \<in> set rs. \<not> \<not> is_automatic r) \<and> harness_filters args \<noteq> [])"
    unfolding quiet_summary_def should_fail_final_summary_def Let_def summary_counts [symmetric] by auto
  then show ?thesis
    unfolding clean_exit_def by (auto split: if_splits)
qed

lemma printed_exit_iff: "printed_summary args rs n = ExitOk \<longleftrightarrow> clean_exit args rs"
proof -
  have "printed_summary args rs n = ExitOk \<longleftrightarrow>
      \<not> ((\<forall>r \<in> set rs. \<not> \<not> is_automatic r) \<and> harness_filters args \<noteq> []) \<and>
      (\<forall>r \<in> set rs. \<not> (\<not> is_automatic r \<and> \<not> manual_success r)) \<and>
      (autoharness_mode args \<longrightarrow> (\<forall>r \<in> set rs. \<not> (is_automatic r \<and> status (snd r) \<noteq> Success))) \<and>
      (fail_on_unvalidated_success args \<longrightarrow>
         (\<forall>r \<in> set rs. \<not> (\<not> is_automatic r \<and> manual_success r \<and> validation_status (snd r) = Unvalidated)))"
    unfolding printed_summary_def should_fail_final_summary_def Let_def print_autoharness_summary_def
      partition_filter_conv split_conv filter_filter comp_def
    by (simp add: filter_empty_conv summary_counts) blast
  then show ?thesis
    unfolding clean_exit_def by (auto split: if_splits)
qed

text \<open>The quiet and the printing summary agree: they exit with code zero on the same results, namely when
  every manual harness is an effective success (validated, if that is demanded), every automatic one
  succeeded in autoharness mode, and a harness filter selected something.\<close>

theorem summaries_exit_alike:
  "(quiet_summary args rs = ExitOk \<longleftrightarrow> clean_exit args rs) \<and> (printed_summary args rs n = ExitOk \<longleftrightarrow> clean_exit args rs)"
  by (simp add: quiet_exit_iff printed_exit_iff)

text \<open>A session that ran nothing exits with code zero even when the metadata lists harnesses: without a
  filter the count of known harnesses does not enter the exit decision.\<close>

theorem empty_run_exits_zero:
  "printed_summary \<lparr> harness_filters = [], fail_on_unvalidated_success = s, autoharness_mode = a \<rparr> [] (Suc n) = ExitOk"
  by (simp add: printed_exit_iff clean_exit_def)

section \<open>The retry: theorems\<close>



definition chomp :: "string \<Rightarrow> string" where
  "chomp acc = rev (case acc of r # rs \<Rightarrow> if of_char r = (13 :: nat) then rs else acc | [] \<Rightarrow> [])"

lemma lines_from_line:
  "\<forall>c \<in> set l. of_char c \<noteq> (10 :: nat) \<Longrightarrow>
   lines_from acc (l @ newline @ post) = chomp (rev l @ acc) # lines_from [] post"
  by (induction l arbitrary: acc) (simp_all add: newline_def chomp_def)

lemma lines_from_later: "\<exists>ls. lines_from acc (pre @ newline @ rest) = ls @ lines_from [] rest"
proof (induction pre arbitrary: acc)
  case Nil
  have "lines_from acc ([] @ newline @ rest) = [hd (lines_from acc (newline @ rest))] @ lines_from [] rest"
    by (simp add: newline_def)
  then show ?case
    by blast
next
  case (Cons c pre)
  show ?case
  proof (cases "of_char c = (10 :: nat)")
    case True
    then show ?thesis
      using Cons.IH [of "[]"] by (auto intro: exI [of _ "_ # _"])
  next
    case False
    then show ?thesis
      using Cons.IH [of "c # acc"] by simp
  qed
qed

lemma success_line_proves: "child_proved (pre @ newline @ ''VERIFICATION:- SUCCESSFUL'' @ newline @ post)"
proof -
  obtain ls where "lines (pre @ newline @ ''VERIFICATION:- SUCCESSFUL'' @ newline @ post) =
      ls @ lines_from [] (''VERIFICATION:- SUCCESSFUL'' @ newline @ post)"
    using lines_from_later unfolding lines_def by blast
  moreover have "lines_from [] (''VERIFICATION:- SUCCESSFUL'' @ newline @ post) =
      ''VERIFICATION:- SUCCESSFUL'' # lines_from [] post"
    by (subst lines_from_line) (simp_all add: chomp_def)
  moreover have "trim ''VERIFICATION:- SUCCESSFUL'' = ''VERIFICATION:- SUCCESSFUL''"
    by (simp add: trim_def is_white_def)
  ultimately show ?thesis
    by (simp add: child_proved_def)
qed

text \<open>A lane can be credited with the proof of another harness: the lane's harness filter also selects every
  harness whose name contains the name it was started for, and one success line anywhere in the output
  counts, whatever the other harnesses reported.\<close>

theorem lane_credits_sibling_harness:
  "find_proof_harnesses [''app::loop''] [sample_harness ''app::loop'' ''app'', sample_harness ''app::loop_small'' ''app''] False =
     [sample_harness ''app::loop'' ''app'', sample_harness ''app::loop_small'' ''app''] \<and>
   child_proved (''Checking harness app::loop...'' @ newline @ ''VERIFICATION:- FAILED'' @ newline @
     ''Checking harness app::loop_small...'' @ newline @ ''VERIFICATION:- SUCCESSFUL'' @ newline @ rest)"
proof -
  have "contains ''app::loop_small'' ''app::loop''" "contains ''app::loop'' ''app::loop''"
    by (simp_all add: starts_with_def)
  moreover have "\<not> is_automatically_generated (sample_harness n ''app'')" for n
    by (simp add: sample_harness_def)
  ultimately have "find_proof_harnesses [''app::loop''] [sample_harness ''app::loop'' ''app'', sample_harness ''app::loop_small'' ''app''] False =
     [sample_harness ''app::loop'' ''app'', sample_harness ''app::loop_small'' ''app'']"
    by (simp add: find_proof_harnesses_def del: contains.simps)
  moreover have "child_proved ((''Checking harness app::loop...'' @ newline @ ''VERIFICATION:- FAILED'' @ newline @
     ''Checking harness app::loop_small...'') @ newline @ ''VERIFICATION:- SUCCESSFUL'' @ newline @ rest)"
    by (rule success_line_proves)
  ultimately show ?thesis
    by simp
qed


end
