(* ===== verification/Mir.thy ===== *)
theory Mir
  imports Prelude
begin

text \<open>
  The part of a MIR body that bounded loop unrolling and the constant-trip analysis read and write
  (\<open>src/trust-mc-compiler/src/codegen_ay/loop_unroll\<close>): basic blocks, their statements and
  terminators, and the block numbers in them.  The types are the compiler's public MIR, as far as the code looks
  into them; what it only copies (messages, spans, the rest of a statement or rvalue) is an opaque value of type
  \<open>'x\<close>.  A panic of the source (an index out of range, an arithmetic underflow) is the value
  \<open>None\<close>.
\<close>

section \<open>Places, operands and statements\<close>

datatype IntTy = I8 | I16 | I32 | I64 | I128 | Isize
datatype UintTy = U8 | U16 | U32 | U64 | U128 | Usize
datatype Ty = TyBool | TyInt IntTy | TyUint UintTy | TyOther

datatype ProjectionElem = Deref | Field nat | OtherElem

record Place =
  place_local :: nat
  projection :: "ProjectionElem list"

text \<open>An allocation, as its three readers see it; a failed read is \<open>None\<close>.\<close>

record Allocation =
  read_bool :: "bool option"
  read_int :: "int option"
  read_uint :: "nat option"

datatype ConstantKind = Allocated Allocation | TyConstValue Allocation | OtherConst

record ConstOperand =
  const_ty :: Ty
  const_kind :: ConstantKind

datatype Operand = Copy Place | Move Place | Constant ConstOperand

datatype BinOp = Add | AddUnchecked | Sub | SubUnchecked | Mul | MulUnchecked | Div | Rem | BitAnd | BitOr | BitXor
  | Shl | ShlUnchecked | Shr | ShrUnchecked | BinEq | BinNe | BinLt | BinLe | BinGt | BinGe | OtherBinOp

datatype UnOp = BitNot | Neg | OtherUnOp
datatype CastKind = IntToInt | OtherCast
datatype AdtKind = AdtStruct | AdtEnum | AdtUnion
datatype AggregateKind = Tuple | Adt AdtKind "nat option" | OtherAggregate

datatype 'x Rvalue =
    Use Operand
  | BinaryOp BinOp Operand Operand
  | CheckedBinaryOp BinOp Operand Operand
  | UnaryOp UnOp Operand
  | Cast CastKind Operand Ty
  | Aggregate AggregateKind "Operand list"
  | Ref Place
  | AddressOf Place
  | CopyForDeref Place
  | OtherRvalue 'x

datatype 'x Statement =
    Assign Place "'x Rvalue"
  | SetDiscriminant Place
  | StorageLive nat
  | StorageDead nat
  | OtherStatement 'x

section \<open>Bodies\<close>

datatype UnwindAction = UnwindContinue | UnwindUnreachable | UnwindTerminate | Cleanup nat

datatype 'x TerminatorKind =
    Goto nat
  | SwitchInt Operand "(nat \<times> nat) list" nat
  | Resume
  | Abort
  | Return
  | Unreachable
  | Drop Place nat UnwindAction
  | Call Operand "Operand list" Place "nat option" UnwindAction
  | Assert Operand bool 'x nat UnwindAction
  | InlineAsm 'x "nat option"

record 'x Terminator =
  kind :: "'x TerminatorKind"
  span :: 'x

record 'x BasicBlock =
  statements :: "'x Statement list"
  terminator :: "'x Terminator"

record 'x Body =
  blocks :: "'x BasicBlock list"
  local_count :: nat

abbreviation block_kind :: "'x BasicBlock \<Rightarrow> 'x TerminatorKind" where
  "block_kind b \<equiv> kind (terminator b)"

text \<open>The targets of a terminator, in the order of the source; unwind edges are not control flow of the model
  checker.\<close>

fun kind_targets :: "'x TerminatorKind \<Rightarrow> nat list" where
  "kind_targets (Goto t) = [t]"
| "kind_targets (SwitchInt _ branches otherwise) = map snd branches @ [otherwise]"
| "kind_targets (Drop _ t _) = [t]"
| "kind_targets (Call _ _ _ t _) = (case t of None \<Rightarrow> [] | Some t \<Rightarrow> [t])"
| "kind_targets (Assert _ _ _ t _) = [t]"
| "kind_targets Return = []"
| "kind_targets Unreachable = []"
| "kind_targets Resume = []"
| "kind_targets Abort = []"
| "kind_targets (InlineAsm _ d) = (case d of None \<Rightarrow> [] | Some t \<Rightarrow> [t])"

definition targets_at :: "'x Body \<Rightarrow> nat \<Rightarrow> nat list" where
  "targets_at bd b = kind_targets (block_kind (blocks bd ! b))"

text \<open>A valid body has an entry block and every target names a block.\<close>

definition wf_body :: "'x Body \<Rightarrow> bool" where
  "wf_body bd \<longleftrightarrow> blocks bd \<noteq> [] \<and>
     (\<forall>b < length (blocks bd). \<forall>t \<in> set (targets_at bd b). t < length (blocks bd))"

lemma wf_bodyD: "wf_body bd \<Longrightarrow> b < length (blocks bd) \<Longrightarrow> t \<in> set (targets_at bd b) \<Longrightarrow> t < length (blocks bd)"
  by (simp add: wf_body_def)

lemma wf_body_entry: "wf_body bd \<Longrightarrow> 0 < length (blocks bd)"
  by (simp add: wf_body_def)

text \<open>The control-flow edges of a body, and the blocks the entry reaches.\<close>

definition edges :: "'x Body \<Rightarrow> (nat \<times> nat) set" where
  "edges bd = {(a, b). a < length (blocks bd) \<and> b \<in> set (targets_at bd a)}"

definition reached :: "'x Body \<Rightarrow> nat set" where
  "reached bd = {b. (0, b) \<in> (edges bd)\<^sup>*}"

definition loop_free :: "'x Body \<Rightarrow> bool" where
  "loop_free bd \<longleftrightarrow> acyclic {(a, b). (a, b) \<in> edges bd \<and> a \<in> reached bd}"

section \<open>Execution\<close>

text \<open>The data of a terminator without its block numbers.\<close>

fun shape :: "'x TerminatorKind \<Rightarrow> 'x TerminatorKind" where
  "shape (Goto _) = Goto 0"
| "shape (SwitchInt d branches _) = SwitchInt d (map (\<lambda>(v, _). (v, 0)) branches) 0"
| "shape (Drop p _ _) = Drop p 0 UnwindContinue"
| "shape (Call f args dest t _) = Call f args dest (map_option (\<lambda>_. 0) t) UnwindContinue"
| "shape (Assert c e m _ _) = Assert c e m 0 UnwindContinue"
| "shape Return = Return"
| "shape Unreachable = Unreachable"
| "shape Resume = Resume"
| "shape Abort = Abort"
| "shape (InlineAsm a d) = InlineAsm a (map_option (\<lambda>_. 0) d)"

lemma shape_targets: "shape k = shape k' \<Longrightarrow> length (kind_targets k) = length (kind_targets k')"
  by (cases k; cases k') (auto simp: map_option_case dest: map_eq_imp_length_eq split: option.splits)

lemma shape_stop: "shape k = Unreachable \<longleftrightarrow> k = Unreachable" "shape k = Return \<longleftrightarrow> k = Return"
  by (cases k; simp)+

text \<open>
  A semantics says, for the statements and the terminator data of a block and a state, which of the targets are
  taken and with which states; it does not see block numbers.  It is a parameter: the theorems about unrolling
  hold for every one.
\<close>

type_synonym ('x, 's) block_sem = "'x Statement list \<Rightarrow> 'x TerminatorKind \<Rightarrow> 's \<Rightarrow> (nat \<times> 's) set"

inductive step :: "('x, 's) block_sem \<Rightarrow> 'x Body \<Rightarrow> nat \<times> 's \<Rightarrow> nat \<times> 's \<Rightarrow> bool"
  for sem bd where
  take_target: "\<lbrakk>b < length (blocks bd); i < length (targets_at bd b);
    (i, s') \<in> sem (statements (blocks bd ! b)) (shape (block_kind (blocks bd ! b))) s\<rbrakk>
    \<Longrightarrow> step sem bd (b, s) (targets_at bd b ! i, s')"

inductive_cases stepE [elim]: "step sem bd (b, s) c"
inductive_simps step_simps: "step sem bd (b, s) (b', s')"

abbreviation runs :: "('x, 's) block_sem \<Rightarrow> 'x Body \<Rightarrow> nat \<times> 's \<Rightarrow> nat \<times> 's \<Rightarrow> bool" where
  "runs sem bd \<equiv> (step sem bd)\<^sup>*\<^sup>*"

lemma step_edge: "step sem bd (b, s) (b', s') \<Longrightarrow> (b, b') \<in> edges bd"
  by (auto simp: step_simps edges_def)

lemma runs_reached: "runs sem bd c d \<Longrightarrow> fst c \<in> reached bd \<Longrightarrow> fst d \<in> reached bd"
proof (induction rule: rtranclp_induct)
  case (step c' d')
  then show ?case
    using step_edge [of sem bd "fst c'" "snd c'" "fst d'" "snd d'"] by (auto simp: reached_def intro: rtrancl.intros(2))
qed

end
