(* ===== verification/Cfg.thy ===== *)
theory Cfg
  imports Mir
begin

text \<open>
  The control-flow graph of \<open>loop_unroll/cfg.rs\<close>: successor and predecessor lists, reachability from
  the entry by a queue, and Kahn's topological sort, whose order is complete exactly when the reachable part of
  the graph has no cycle.
\<close>

section \<open>The graph\<close>

record Cfg =
  successors :: "nat list list"
  predecessors :: "nat list list"
  reachable :: "bool list"
  topo_order :: "nat list"

definition sort_dedup :: "nat list \<Rightarrow> nat list" where
  "sort_dedup xs = remdups_adj (sort xs)"

definition block_successors :: "'x BasicBlock \<Rightarrow> nat list" where
  "block_successors b = sort_dedup (kind_targets (block_kind b))"

definition push_pred :: "nat \<Rightarrow> nat list list \<Rightarrow> nat \<Rightarrow> nat list list" where
  "push_pred src P dst = (if dst < length P then P[dst := P ! dst @ [src]] else P)"

definition predecessors_of :: "nat list list \<Rightarrow> nat list list" where
  "predecessors_of succs = map sort_dedup
     (foldl (\<lambda>P (src, ss). foldl (push_pred src) P ss) (replicate (length succs) []) (enumerate 0 succs))"

fun visit :: "nat list \<Rightarrow> bool list \<Rightarrow> nat list \<Rightarrow> (bool list \<times> nat list) option" where
  "visit [] r q = Some (r, q)"
| "visit (s # ss) r q =
     (if length r \<le> s then None
      else if r ! s then visit ss r q
      else visit ss (r[s := True]) (q @ [s]))"

lemma visit_measure:
  "visit ss r q = Some (r', q') \<Longrightarrow>
   length (filter Not r') + length q' = length (filter Not r) + length q \<and> length r' = length r"
proof (induction ss r q rule: visit.induct)
  case (2 s ss r q)
  show ?case
  proof (cases "r ! s")
    case False
    with 2 have "s < length r" "\<not> r ! s"
      by (auto split: if_splits)
    then have "Suc (length (filter Not (r[s := True]))) = length (filter Not r)"
      by (intro filter_update) auto
    with 2 False show ?thesis
      by (auto split: if_splits)
  qed (use 2 in \<open>auto split: if_splits\<close>)
qed simp

function reach_loop :: "nat list list \<Rightarrow> bool list \<Rightarrow> nat list \<Rightarrow> bool list option" where
  "reach_loop succs r [] = Some r"
| "reach_loop succs r (bb # q) =
     (if length succs \<le> bb then None
      else case visit (succs ! bb) r q of None \<Rightarrow> None | Some (r', q') \<Rightarrow> reach_loop succs r' q')"
  by pat_completeness auto
termination
  by (relation "measure (\<lambda>(_, r, q). length (filter Not r) + length q)") (auto dest!: visit_measure)

definition reachable_from_entry :: "nat list list \<Rightarrow> bool list option" where
  "reachable_from_entry succs =
     (if succs = [] then None else reach_loop succs ((replicate (length succs) False)[0 := True]) [0])"

section \<open>Topological sort\<close>

text \<open>Counting the incoming edges among reachable blocks.\<close>

fun add_indegrees :: "bool list \<Rightarrow> nat list \<Rightarrow> nat list \<Rightarrow> nat list option" where
  "add_indegrees reach [] indeg = Some indeg"
| "add_indegrees reach (s # ss) indeg =
     (if length reach \<le> s then None
      else if reach ! s then
        (if length indeg \<le> s then None else add_indegrees reach ss (indeg[s := indeg ! s + 1]))
      else add_indegrees reach ss indeg)"

fun indegrees :: "nat list list \<Rightarrow> bool list \<Rightarrow> nat list \<Rightarrow> nat list \<Rightarrow> nat list option" where
  "indegrees succs reach [] indeg = Some indeg"
| "indegrees succs reach (bb # bbs) indeg =
     (if length reach \<le> bb then None
      else if \<not> reach ! bb then indegrees succs reach bbs indeg
      else case add_indegrees reach (succs ! bb) indeg of
             None \<Rightarrow> None | Some indeg' \<Rightarrow> indegrees succs reach bbs indeg')"

fun relax :: "bool list \<Rightarrow> nat list \<Rightarrow> nat list \<Rightarrow> nat list \<Rightarrow> (nat list \<times> nat list) option" where
  "relax reach [] indeg q = Some (indeg, q)"
| "relax reach (s # ss) indeg q =
     (if length reach \<le> s then None
      else if \<not> reach ! s then relax reach ss indeg q
      else if length indeg \<le> s \<or> indeg ! s = 0 then None
      else let indeg' = indeg[s := indeg ! s - 1] in
           relax reach ss indeg' (if indeg' ! s = 0 then q @ [s] else q))"

lemma sum_list_dec:
  assumes "s < length xs" "xs ! s \<noteq> 0"
  shows "Suc (sum_list (xs[s := xs ! s - 1])) = sum_list (xs :: nat list)"
proof -
  have "Suc (sum_list (xs[s := xs ! s - 1])) = sum_list (take s xs @ xs ! s # drop (Suc s) xs)"
    using assms by (simp add: upd_conv_take_nth_drop)
  then show ?thesis
    using id_take_nth_drop [OF assms(1)] by simp
qed

lemma relax_measure:
  "relax reach ss indeg q = Some (indeg', q') \<Longrightarrow>
   sum_list indeg' + length q' \<le> sum_list indeg + length q \<and> length indeg' = length indeg"
proof (induction reach ss indeg q rule: relax.induct)
  case (2 reach s ss indeg q)
  then show ?case
    using sum_list_dec [of s indeg] by (fastforce simp: Let_def split: if_splits)
qed simp

function kahn :: "nat list list \<Rightarrow> bool list \<Rightarrow> nat list \<Rightarrow> nat list \<Rightarrow> nat list \<Rightarrow> nat list option" where
  "kahn succs reach indeg [] order = Some order"
| "kahn succs reach indeg (bb # q) order =
     (if length succs \<le> bb then None
      else case relax reach (succs ! bb) indeg q of
             None \<Rightarrow> None
           | Some (indeg', q') \<Rightarrow> kahn succs reach indeg' q' (order @ [bb]))"
  by pat_completeness auto
termination
  by (relation "measure (\<lambda>(_, _, indeg, q, _). sum_list indeg + length q)") (auto dest!: relax_measure)

definition topo_sort :: "nat list list \<Rightarrow> bool list \<Rightarrow> nat list option" where
  "topo_sort succs reach =
     (let n = length succs in
      case indegrees succs reach [0..<n] (replicate n 0) of
        None \<Rightarrow> None
      | Some indeg \<Rightarrow> kahn succs reach indeg (filter (\<lambda>bb. reach ! bb \<and> indeg ! bb = 0) [0..<n]) [])"

definition from_body :: "'x Body \<Rightarrow> Cfg option" where
  "from_body bd =
     (let succs = map block_successors (blocks bd) in
      case reachable_from_entry succs of
        None \<Rightarrow> None
      | Some r \<Rightarrow> map_option (\<lambda>order. \<lparr> successors = succs, predecessors = predecessors_of succs,
                                  reachable = r, topo_order = order \<rparr>) (topo_sort succs r))"

definition reachable_count :: "Cfg \<Rightarrow> nat" where
  "reachable_count c = length (filter (\<lambda>b. b) (reachable c))"

definition is_acyclic :: "Cfg \<Rightarrow> bool" where
  "is_acyclic c \<longleftrightarrow> length (topo_order c) = reachable_count c"

section \<open>Reachability is exact\<close>

definition graph :: "nat list list \<Rightarrow> (nat \<times> nat) set" where
  "graph succs = {(a, b). a < length succs \<and> b \<in> set (succs ! a)}"

definition wf_graph :: "nat list list \<Rightarrow> bool" where
  "wf_graph succs \<longleftrightarrow> succs \<noteq> [] \<and> (\<forall>a < length succs. \<forall>b \<in> set (succs ! a). b < length succs)"

definition marked :: "bool list \<Rightarrow> nat set" where
  "marked r = {b. b < length r \<and> r ! b}"

lemma marked_update: "s < length r \<Longrightarrow> marked (r[s := True]) = insert s (marked r)"
  by (auto simp: marked_def nth_list_update)

lemma visit_spec:
  assumes "\<forall>s \<in> set ss. s < length r"
  shows "\<exists>r' q'. visit ss r q = Some (r', q') \<and> length r' = length r \<and> marked r' = marked r \<union> set ss \<and>
    set q' = set q \<union> (set ss - marked r)"
  using assms
proof (induction ss r q rule: visit.induct)
  case (2 s ss r q)
  show ?case
  proof (cases "r ! s")
    case True
    with 2 obtain r' q' where "visit ss r q = Some (r', q')" "length r' = length r"
        "marked r' = marked r \<union> set ss" "set q' = set q \<union> (set ss - marked r)"
      by auto
    with 2(3) True show ?thesis
      by (auto simp: marked_def)
  next
    case False
    with 2 obtain r' q' where "visit ss (r[s := True]) (q @ [s]) = Some (r', q')" "length r' = length r"
        "marked r' = insert s (marked r) \<union> set ss" "set q' = insert s (set q) \<union> (set ss - insert s (marked r))"
      by (auto simp: marked_update)
    with 2(3) False show ?thesis
      by (auto simp: marked_def)
  qed
qed simp

lemma reach_loop_spec:
  assumes "wf_graph succs" "length r = length succs" "set q \<subseteq> marked r"
    and "\<And>a b. a \<in> marked r - set q \<Longrightarrow> (a, b) \<in> graph succs \<Longrightarrow> b \<in> marked r"
  shows "\<exists>r'. reach_loop succs r q = Some r' \<and> length r' = length succs \<and> marked r \<subseteq> marked r' \<and>
    graph succs `` marked r' \<subseteq> marked r' \<and>
    (\<forall>S. marked r \<subseteq> S \<longrightarrow> graph succs `` S \<subseteq> S \<longrightarrow> marked r' \<subseteq> S)"
  using assms
proof (induction succs r q rule: reach_loop.induct)
  case (2 succs r bb q)
  have bb: "bb < length succs" "bb \<in> marked r"
    using 2(3,4) by (auto simp: marked_def)
  obtain r' q' where v: "visit (succs ! bb) r q = Some (r', q')" "length r' = length r"
      "marked r' = marked r \<union> set (succs ! bb)" "set q' = set q \<union> (set (succs ! bb) - marked r)"
    using visit_spec [of "succs ! bb" r q] bb 2(2,3) by (auto simp: wf_graph_def)
  have "\<exists>r''. reach_loop succs r' q' = Some r'' \<and> length r'' = length succs \<and> marked r' \<subseteq> marked r'' \<and>
      graph succs `` marked r'' \<subseteq> marked r'' \<and> (\<forall>S. marked r' \<subseteq> S \<longrightarrow> graph succs `` S \<subseteq> S \<longrightarrow> marked r'' \<subseteq> S)"
  proof (rule 2(1))
    show "b \<in> marked r'" if "a \<in> marked r' - set q'" "(a, b) \<in> graph succs" for a b
      using that 2(5) [of a b] v(3,4) by (cases "a = bb") (auto simp: graph_def)
  qed (use bb v 2(2-4) in auto)
  moreover have "\<forall>S. marked r \<subseteq> S \<longrightarrow> graph succs `` S \<subseteq> S \<longrightarrow> marked r' \<subseteq> S"
    using bb v(3) by (fastforce simp: graph_def)
  ultimately show ?case
    using bb v by fastforce
qed auto

lemma reachable_from_entry_spec:
  assumes "wf_graph succs"
  shows "\<exists>r. reachable_from_entry succs = Some r \<and> length r = length succs \<and> marked r = {b. (0, b) \<in> (graph succs)\<^sup>*}"
proof -
  let ?r = "(replicate (length succs) False)[0 := True]"
  have start: "marked ?r = {0}"
    using assms by (auto simp: marked_def wf_graph_def nth_list_update split: if_splits)
  then obtain r where r: "reach_loop succs ?r [0] = Some r" "length r = length succs" "0 \<in> marked r"
      "graph succs `` marked r \<subseteq> marked r" "\<forall>S. 0 \<in> S \<longrightarrow> graph succs `` S \<subseteq> S \<longrightarrow> marked r \<subseteq> S"
    using reach_loop_spec [of succs ?r "[0]"] assms by auto
  have "b \<in> marked r" if "(0, b) \<in> (graph succs)\<^sup>*" for b
    using that by induction (use r in auto)
  moreover have "marked r \<subseteq> {b. (0, b) \<in> (graph succs)\<^sup>*}"
    using r(5) by (auto intro: rtrancl.intros(2))
  ultimately show ?thesis
    using r assms by (auto simp: reachable_from_entry_def wf_graph_def)
qed

section \<open>Kahn's algorithm\<close>

lemma add_indegrees_spec:
  assumes "distinct ss" "\<forall>s \<in> set ss. s < length reach" "length indeg = length reach"
  shows "\<exists>indeg'. add_indegrees reach ss indeg = Some indeg' \<and> length indeg' = length reach \<and>
    (\<forall>b < length reach. indeg' ! b = indeg ! b + (if b \<in> marked reach \<inter> set ss then 1 else 0))"
  using assms
proof (induction reach ss indeg rule: add_indegrees.induct)
  case (2 reach s ss indeg)
  show ?case
  proof (cases "reach ! s")
    case True
    with 2 obtain indeg' where "add_indegrees reach ss (indeg[s := indeg ! s + 1]) = Some indeg'"
        "length indeg' = length reach"
        "\<forall>b < length reach. indeg' ! b = indeg[s := indeg ! s + 1] ! b + (if b \<in> marked reach \<inter> set ss then 1 else 0)"
      by fastforce
    with 2(3-) True show ?thesis
      by (auto simp: marked_def nth_list_update)
  next
    case False
    with 2 obtain indeg' where "add_indegrees reach ss indeg = Some indeg'" "length indeg' = length reach"
        "\<forall>b < length reach. indeg' ! b = indeg ! b + (if b \<in> marked reach \<inter> set ss then 1 else 0)"
      by fastforce
    with 2(3-) False show ?thesis
      by (auto simp: marked_def)
  qed
qed simp

lemma indegrees_spec:
  assumes "distinct bbs" "set bbs \<subseteq> {..<length reach}" "length indeg = length reach"
    and "\<forall>a \<in> set bbs. distinct (succs ! a) \<and> (\<forall>b \<in> set (succs ! a). b < length reach)"
  shows "\<exists>indeg'. indegrees succs reach bbs indeg = Some indeg' \<and> length indeg' = length reach \<and>
    (\<forall>b \<in> marked reach. indeg' ! b = indeg ! b + card {a \<in> set bbs \<inter> marked reach. b \<in> set (succs ! a)})"
  using assms
proof (induction succs reach bbs indeg rule: indegrees.induct)
  case (2 succs reach bb bbs indeg)
  show ?case
  proof (cases "reach ! bb")
    case True
    obtain indeg' where a: "add_indegrees reach (succs ! bb) indeg = Some indeg'" "length indeg' = length reach"
        "\<forall>b < length reach. indeg' ! b = indeg ! b + (if b \<in> marked reach \<inter> set (succs ! bb) then 1 else 0)"
      using add_indegrees_spec [of "succs ! bb" reach indeg] 2(5,6) by auto
    obtain indeg'' where b: "indegrees succs reach bbs indeg' = Some indeg''" "length indeg'' = length reach"
        "\<forall>b \<in> marked reach. indeg'' ! b = indeg' ! b + card {a \<in> set bbs \<inter> marked reach. b \<in> set (succs ! a)}"
      using 2(2) [OF _ _ a(1)] 2(3-) True a(2) by auto
    have "{a \<in> set (bb # bbs) \<inter> marked reach. b \<in> set (succs ! a)} =
        (if b \<in> set (succs ! bb) then insert bb else id) {a \<in> set bbs \<inter> marked reach. b \<in> set (succs ! a)}" for b
      using True 2(4) by (auto simp: marked_def)
    then have "card {a \<in> set (bb # bbs) \<inter> marked reach. b \<in> set (succs ! a)} =
        card {a \<in> set bbs \<inter> marked reach. b \<in> set (succs ! a)} + (if b \<in> set (succs ! bb) then 1 else 0)" for b
      using 2(3) by (auto simp: card_insert_if)
    moreover have "b < length reach" if "b \<in> marked reach" for b
      using that by (simp add: marked_def)
    ultimately show ?thesis
      using True 2(4) a b by auto
  next
    case False
    then have "{a \<in> set (bb # bbs) \<inter> marked reach. b \<in> set (succs ! a)} =
        {a \<in> set bbs \<inter> marked reach. b \<in> set (succs ! a)}" for b
      by (auto simp: marked_def)
    with 2 False show ?thesis
      by auto
  qed
qed simp

lemma relax_spec:
  assumes "distinct ss" "\<forall>s \<in> set ss. s < length reach" "length indeg = length reach"
    and "\<forall>s \<in> set ss \<inter> marked reach. 0 < indeg ! s"
  shows "\<exists>indeg'. relax reach ss indeg q = Some (indeg', q @ filter (\<lambda>s. s \<in> marked reach \<and> indeg ! s = 1) ss) \<and>
    length indeg' = length reach \<and>
    (\<forall>b < length reach. indeg' ! b = indeg ! b - (if b \<in> marked reach \<inter> set ss then 1 else 0))"
  using assms
proof (induction reach ss indeg q rule: relax.induct)
  case (2 reach s ss indeg q)
  show ?case
  proof (cases "reach ! s")
    case True
    let ?d = "indeg[s := indeg ! s - 1]" and ?q = "if indeg ! s = 1 then q @ [s] else q"
    have s: "s < length reach" "s \<in> marked reach" "0 < indeg ! s" "s \<notin> set ss"
      using True 2(3-) by (auto simp: marked_def)
    have zero: "?d ! s = 0 \<longleftrightarrow> indeg ! s = 1"
      using s 2(5) by auto
    have flt: "filter (\<lambda>x. x \<in> marked reach \<and> ?d ! x = 1) ss = filter (\<lambda>x. x \<in> marked reach \<and> indeg ! x = 1) ss"
      using s 2(5) by (intro filter_cong) (auto simp: nth_list_update split: if_splits)
    have "\<exists>indeg'. relax reach ss ?d ?q = Some (indeg', ?q @ filter (\<lambda>x. x \<in> marked reach \<and> ?d ! x = 1) ss) \<and>
        length indeg' = length reach \<and>
        (\<forall>b < length reach. indeg' ! b = ?d ! b - (if b \<in> marked reach \<inter> set ss then 1 else 0))"
      using 2(2) [of ?d] True s 2(3-) zero by (auto simp: nth_list_update)
    then obtain indeg' where d': "relax reach ss ?d ?q = Some (indeg', ?q @ filter (\<lambda>x. x \<in> marked reach \<and> indeg ! x = 1) ss)"
        "length indeg' = length reach"
        "\<forall>b < length reach. indeg' ! b = ?d ! b - (if b \<in> marked reach \<inter> set ss then 1 else 0)"
      unfolding flt by blast
    have "relax reach (s # ss) indeg q = relax reach ss ?d ?q"
      using True s 2(5) zero by (simp add: Let_def)
    with d' s 2(5) show ?thesis
      by (auto simp: nth_list_update)
  next
    case False
    then have "s \<notin> marked reach"
      by (simp add: marked_def)
    with 2 False show ?thesis
      by auto
  qed
qed simp

text \<open>
  The loop invariant: the emitted order and the queue hold distinct reachable blocks; the counter of a block is
  the number of its predecessors not yet emitted; a block is emitted or queued exactly when its counter is zero;
  an emitted block comes after all its predecessors.
\<close>

definition open_preds :: "nat list list \<Rightarrow> bool list \<Rightarrow> nat list \<Rightarrow> nat \<Rightarrow> nat set" where
  "open_preds succs reach order b = {a \<in> marked reach. b \<in> set (succs ! a) \<and> a \<notin> set order}"

definition topo_sorted :: "nat list list \<Rightarrow> bool list \<Rightarrow> nat list \<Rightarrow> bool" where
  "topo_sorted succs reach order \<longleftrightarrow>
     (\<forall>i < length order. \<forall>a \<in> marked reach. order ! i \<in> set (succs ! a) \<longrightarrow> a \<in> set (take i order))"

definition kahn_inv :: "nat list list \<Rightarrow> bool list \<Rightarrow> nat list \<Rightarrow> nat list \<Rightarrow> nat list \<Rightarrow> bool" where
  "kahn_inv succs reach indeg q order \<longleftrightarrow>
     length indeg = length reach \<and> distinct (order @ q) \<and> set (order @ q) \<subseteq> marked reach \<and>
     (\<forall>b \<in> marked reach. indeg ! b = card (open_preds succs reach order b)) \<and>
     (\<forall>b \<in> marked reach. b \<in> set (order @ q) \<longleftrightarrow> indeg ! b = 0) \<and>
     topo_sorted succs reach order"

lemma finite_marked [simp]: "finite (marked r)"
  by (simp add: marked_def)

lemma finite_open_preds [simp]: "finite (open_preds succs reach order b)"
  by (simp add: open_preds_def)

lemma open_preds_snoc:
  assumes "bb \<in> marked reach" "bb \<notin> set order"
  shows "card (open_preds succs reach (order @ [bb]) b) =
    card (open_preds succs reach order b) - (if b \<in> set (succs ! bb) then 1 else 0)"
proof -
  have "open_preds succs reach (order @ [bb]) b = open_preds succs reach order b - {bb}"
    by (auto simp: open_preds_def)
  moreover have "bb \<in> open_preds succs reach order b \<longleftrightarrow> b \<in> set (succs ! bb)"
    using assms by (auto simp: open_preds_def)
  ultimately show ?thesis
    by (auto simp: card_Diff_singleton)
qed

lemma topo_sorted_snoc:
  assumes "topo_sorted succs reach order" "open_preds succs reach order bb = {}"
  shows "topo_sorted succs reach (order @ [bb])"
  using assms by (auto simp: topo_sorted_def open_preds_def nth_append less_Suc_eq)

lemma kahn_step:
  assumes inv: "kahn_inv succs reach indeg (bb # q) order"
    and ok: "distinct (succs ! bb)" "\<forall>b \<in> set (succs ! bb). b < length reach"
  shows "\<exists>indeg' q'. relax reach (succs ! bb) indeg q = Some (indeg', q') \<and> kahn_inv succs reach indeg' q' (order @ [bb])"
proof -
  have bb: "bb \<in> marked reach" "bb \<notin> set order" "indeg ! bb = 0"
    using inv by (auto simp: kahn_inv_def)
  have len: "length indeg = length reach" and cnt: "\<And>b. b \<in> marked reach \<Longrightarrow> indeg ! b = card (open_preds succs reach order b)"
    and iff: "\<And>b. b \<in> marked reach \<Longrightarrow> b \<in> set (order @ bb # q) \<longleftrightarrow> indeg ! b = 0"
    using inv by (simp_all add: kahn_inv_def)
  have pos: "0 < indeg ! s" if "s \<in> set (succs ! bb) \<inter> marked reach" for s
    using that bb cnt [of s] by (auto simp: card_gt_0_iff open_preds_def)
  let ?new = "filter (\<lambda>s. s \<in> marked reach \<and> indeg ! s = 1) (succs ! bb)"
  obtain indeg' where r: "relax reach (succs ! bb) indeg q = Some (indeg', q @ ?new)" "length indeg' = length reach"
      "\<forall>b < length reach. indeg' ! b = indeg ! b - (if b \<in> marked reach \<inter> set (succs ! bb) then 1 else 0)"
    using relax_spec [of "succs ! bb" reach indeg q] ok len pos by auto
  have val: "indeg' ! b = indeg ! b - (if b \<in> set (succs ! bb) then 1 else 0)" if "b \<in> marked reach" for b
    using r(3) that by (auto simp: marked_def)
  have new: "s \<notin> set (order @ bb # q)" if "s \<in> set ?new" for s
    using that iff [of s] by auto
  have "kahn_inv succs reach indeg' (q @ ?new) (order @ [bb])"
    unfolding kahn_inv_def
  proof (intro conjI ballI)
    show "distinct ((order @ [bb]) @ q @ ?new)"
      using inv ok(1) new by (auto simp: kahn_inv_def)
    show "set ((order @ [bb]) @ q @ ?new) \<subseteq> marked reach"
      using inv by (auto simp: kahn_inv_def)
    show "indeg' ! b = card (open_preds succs reach (order @ [bb]) b)" if "b \<in> marked reach" for b
      using that val cnt bb by (simp add: open_preds_snoc)
    show "b \<in> set ((order @ [bb]) @ q @ ?new) \<longleftrightarrow> indeg' ! b = 0" if "b \<in> marked reach" for b
      using that val [OF that] iff [OF that] pos [of b] by auto
    have "open_preds succs reach order bb = {}"
      using bb cnt by simp
    then show "topo_sorted succs reach (order @ [bb])"
      using inv by (simp add: kahn_inv_def topo_sorted_snoc)
  qed (use r in auto)
  with r show ?thesis
    by blast
qed

lemma kahn_spec:
  assumes "kahn_inv succs reach indeg q order" "length reach = length succs"
    and "\<forall>a < length succs. distinct (succs ! a) \<and> (\<forall>b \<in> set (succs ! a). b < length succs)"
  shows "\<exists>indeg' order'. kahn succs reach indeg q order = Some order' \<and> kahn_inv succs reach indeg' [] order'"
  using assms
proof (induction succs reach indeg q order rule: kahn.induct)
  case (2 succs reach indeg bb q order)
  have "bb < length succs"
    using 2(2,3) by (auto simp: kahn_inv_def marked_def)
  with 2(3,4) kahn_step [OF 2(2)] obtain indeg' q' where
    "relax reach (succs ! bb) indeg q = Some (indeg', q')" "kahn_inv succs reach indeg' q' (order @ [bb])"
    by auto
  with 2 \<open>bb < length succs\<close> show ?case
    by auto
qed auto

lemma topo_sort_spec:
  assumes "wf_graph succs" "\<forall>ss \<in> set succs. distinct ss" "length reach = length succs"
  shows "\<exists>order indeg. topo_sort succs reach = Some order \<and> kahn_inv succs reach indeg [] order"
proof -
  let ?n = "length succs"
  have ok: "\<forall>a < ?n. distinct (succs ! a) \<and> (\<forall>b \<in> set (succs ! a). b < ?n)"
    using assms(1,2) by (auto simp: wf_graph_def)
  have zero: "replicate ?n 0 ! b = (0 :: nat)" if "b \<in> marked reach" for b
    using that assms(3) by (simp add: marked_def)
  obtain indeg where d: "indegrees succs reach [0..<?n] (replicate ?n 0) = Some indeg" "length indeg = length reach"
      "\<forall>b \<in> marked reach. indeg ! b = card {a \<in> set [0..<?n] \<inter> marked reach. b \<in> set (succs ! a)}"
    using indegrees_spec [of "[0..<?n]" reach "replicate ?n 0" succs] assms(3) zero ok
    by (auto simp: atLeast0LessThan)
  let ?q = "filter (\<lambda>bb. reach ! bb \<and> indeg ! bb = 0) [0..<?n]"
  have "{a \<in> set [0..<?n] \<inter> marked reach. b \<in> set (succs ! a)} = open_preds succs reach [] b" for b
    using assms(3) by (auto simp: open_preds_def marked_def)
  then have "\<forall>b \<in> marked reach. indeg ! b = card (open_preds succs reach [] b)"
    using d(3) by simp
  moreover have "set ?q \<subseteq> marked reach" "\<forall>b \<in> marked reach. b \<in> set ?q \<longleftrightarrow> indeg ! b = 0"
    using assms(3) by (auto simp: marked_def)
  ultimately have "kahn_inv succs reach indeg ?q []"
    using d(2) by (simp add: kahn_inv_def topo_sorted_def)
  from kahn_spec [OF this assms(3) ok] show ?thesis
    using d(1) by (auto simp: topo_sort_def)
qed

definition live_edges :: "nat list list \<Rightarrow> bool list \<Rightarrow> (nat \<times> nat) set" where
  "live_edges succs reach = {(a, b). a \<in> marked reach \<and> b \<in> set (succs ! a)}"

lemma topo_sorted_acyclic:
  assumes "topo_sorted succs reach order" "marked reach \<subseteq> set order" "live_edges succs reach `` marked reach \<subseteq> marked reach"
  shows "acyclic (live_edges succs reach)"
proof -
  let ?E = "live_edges succs reach"
  have before: "\<exists>i < j. a = order ! i" if "j < length order" "(a, order ! j) \<in> ?E" for a j
  proof -
    have "a \<in> set (take j order)"
      using assms(1) that by (auto simp: topo_sorted_def live_edges_def)
    then show ?thesis
      using that(1) by (auto simp: in_set_conv_nth)
  qed
  have "\<exists>i < j. a = order ! i" if "(a, b) \<in> ?E\<^sup>+" "b = order ! j" "j < length order" for a b j
    using that
  proof (induction arbitrary: j rule: trancl_induct)
    case (base b)
    then show ?case
      using before by blast
  next
    case (step b c)
    then obtain i where "i < j" "b = order ! i"
      using before by blast
    with step.IH [of i] step.prems obtain k where "k < i" "a = order ! k"
      by auto
    with \<open>i < j\<close> show ?case
      by (intro exI [of _ k]) simp
  qed
  note up = this
  have "(order ! j, order ! j) \<notin> ?E\<^sup>+" if "j < length order" for j
    using that
  proof (induction j rule: less_induct)
    case (less j)
    show ?case
    proof
      assume cyc: "(order ! j, order ! j) \<in> ?E\<^sup>+"
      with up [OF this refl less(2)] obtain i where "i < j" "order ! i = order ! j"
        by metis
      with less cyc show False
        by (metis less_trans)
    qed
  qed
  moreover have "a \<in> marked reach" if "(a, b) \<in> ?E\<^sup>+" for a b
    using that by (auto simp: live_edges_def dest: tranclD)
  ultimately show ?thesis
    using assms(2) unfolding acyclic_def by (metis in_set_conv_nth subsetD)
qed

lemma acyclic_order_complete:
  assumes "acyclic (live_edges succs reach)" "kahn_inv succs reach indeg [] order"
    and closed: "live_edges succs reach `` marked reach \<subseteq> marked reach"
  shows "marked reach \<subseteq> set order"
proof
  fix b assume b: "b \<in> marked reach"
  have "finite (live_edges succs reach)"
    using closed by (intro finite_subset [OF _ finite_cartesian_product [OF finite_marked [of reach] finite_marked [of reach]]])
      (auto simp: live_edges_def)
  then have "wf (live_edges succs reach)"
    using assms(1) by (rule finite_acyclic_wf)
  then show "b \<in> set order"
    using b
  proof (induction b rule: wf_induct_rule)
    case (less b)
    then have "a \<in> set order" if "a \<in> marked reach" "b \<in> set (succs ! a)" for a
      using that by (simp add: live_edges_def)
    then have "open_preds succs reach order b = {}"
      by (auto simp: open_preds_def)
    with assms(2) less(2) show ?case
      by (auto simp: kahn_inv_def)
  qed
qed

lemma kahn_complete_iff:
  assumes "kahn_inv succs reach indeg [] order" "live_edges succs reach `` marked reach \<subseteq> marked reach"
  shows "length order = length (filter (\<lambda>b. b) reach) \<longleftrightarrow> acyclic (live_edges succs reach)"
proof -
  have "length order = card (set order)" "set order \<subseteq> marked reach" "topo_sorted succs reach order"
    using assms(1) by (auto simp: kahn_inv_def distinct_card)
  moreover have "length (filter (\<lambda>b. b) reach) = card (marked reach)"
    by (simp add: length_filter_conv_card marked_def)
  ultimately have "length order = length (filter (\<lambda>b. b) reach) \<longleftrightarrow> marked reach \<subseteq> set order"
    by (metis card_subset_eq finite_marked order_refl subset_antisym)
  then show ?thesis
    using topo_sorted_acyclic [OF \<open>topo_sorted succs reach order\<close> _ assms(2)] acyclic_order_complete [OF _ assms] by blast
qed

section \<open>The graph of a body\<close>

lemma set_sort_dedup [simp]: "set (sort_dedup xs) = set xs"
  by (simp add: sort_dedup_def)

lemma distinct_remdups_adj: "sorted xs \<Longrightarrow> distinct (remdups_adj xs)"
  by (induction xs rule: remdups_adj.induct) auto

lemma distinct_sort_dedup [simp]: "distinct (sort_dedup xs)"
  by (simp add: sort_dedup_def distinct_remdups_adj)

lemma graph_of_body: "graph (map block_successors (blocks bd)) = edges bd"
  by (auto simp: graph_def edges_def block_successors_def targets_at_def)

lemma wf_graph_of_body: "wf_body bd \<Longrightarrow> wf_graph (map block_successors (blocks bd))"
  by (auto simp: wf_graph_def wf_body_def block_successors_def targets_at_def)

lemma reached_in_range:
  assumes "wf_body bd" "b \<in> reached bd"
  shows "b < length (blocks bd)"
proof -
  have "(0, b) \<in> (edges bd)\<^sup>*"
    using assms(2) by (simp add: reached_def)
  then show ?thesis
    by (cases rule: rtranclE) (use assms(1) in \<open>auto simp: wf_body_def edges_def\<close>)
qed

lemma from_body_spec:
  assumes "wf_body bd"
  shows "\<exists>c. from_body bd = Some c \<and> marked (reachable c) = reached bd \<and>
    (is_acyclic c \<longleftrightarrow> loop_free bd) \<and> distinct (topo_order c) \<and> set (topo_order c) \<subseteq> reached bd \<and>
    (\<forall>i < length (topo_order c). \<forall>a \<in> reached bd. (a, topo_order c ! i) \<in> edges bd \<longrightarrow> a \<in> set (take i (topo_order c)))"
proof -
  let ?succs = "map block_successors (blocks bd)"
  obtain r where r: "reachable_from_entry ?succs = Some r" "length r = length ?succs" "marked r = reached bd"
    using reachable_from_entry_spec [OF wf_graph_of_body [OF assms]] by (auto simp: graph_of_body reached_def)
  obtain order indeg where o: "topo_sort ?succs r = Some order" "kahn_inv ?succs r indeg [] order"
    using topo_sort_spec [OF wf_graph_of_body [OF assms] _ r(2)] by (auto simp: block_successors_def)
  have live: "live_edges ?succs r = {(a, b). (a, b) \<in> edges bd \<and> a \<in> reached bd}"
    using r(3) reached_in_range [OF assms]
    by (auto simp: live_edges_def edges_def block_successors_def targets_at_def)
  then have "live_edges ?succs r `` marked r \<subseteq> marked r"
    using r(3) by (auto simp: reached_def intro: rtrancl.intros(2))
  from kahn_complete_iff [OF o(2) this] have "length order = length (filter (\<lambda>b. b) r) \<longleftrightarrow> loop_free bd"
    by (simp add: live loop_free_def)
  moreover have "a \<in> set (take i order)" if "i < length order" "a \<in> reached bd" "(a, order ! i) \<in> edges bd" for i a
  proof -
    have "(a, order ! i) \<in> live_edges ?succs r"
      using live that by blast
    then show ?thesis
      using o(2) that(1) by (auto simp: kahn_inv_def topo_sorted_def live_edges_def)
  qed
  ultimately show ?thesis
    using r o by (auto simp: from_body_def Let_def is_acyclic_def reachable_count_def kahn_inv_def)
qed

text \<open>C10: On a valid body the graph construction does not panic, its flags mark exactly the blocks the entry
  reaches, every block of the computed order comes after all its reachable predecessors, and the order is
  complete, which is the test \<open>is_acyclic\<close>, exactly when no cycle is reachable.\<close>

theorem from_body_correct:
  assumes "wf_body bd"
  shows "\<exists>c. from_body bd = Some c \<and> marked (reachable c) = reached bd \<and>
    (is_acyclic c \<longleftrightarrow> loop_free bd) \<and> distinct (topo_order c) \<and> set (topo_order c) \<subseteq> reached bd \<and>
    (\<forall>i < length (topo_order c). \<forall>a \<in> reached bd. (a, topo_order c ! i) \<in> edges bd \<longrightarrow> a \<in> set (take i (topo_order c)))"
  by (rule from_body_spec [OF assms])

definition plain_block :: "nat \<Rightarrow> nat TerminatorKind \<Rightarrow> nat BasicBlock" where
  "plain_block x k = \<lparr> statements = [OtherStatement x], terminator = \<lparr> kind = k, span = 0 \<rparr> \<rparr>"

definition flag :: Operand where
  "flag = Copy \<lparr> place_local = 0, projection = [] \<rparr>"

definition sample_loop :: "nat Body" where
  "sample_loop = \<lparr> blocks =
     [plain_block 10 (Goto 1), plain_block 11 (SwitchInt flag [(0, 3)] 2), plain_block 12 (Goto 1), plain_block 13 Return],
     local_count = 1 \<rparr>"

lemma sample_loop_wf: "wf_body sample_loop"
  by (simp add: wf_body_def sample_loop_def plain_block_def targets_at_def less_Suc_eq numeral_eq_Suc all_conj_distrib)

theorem from_body_correct_witness:
  "\<exists>c. from_body sample_loop = Some c \<and> marked (reachable c) = reached sample_loop \<and>
     (is_acyclic c \<longleftrightarrow> loop_free sample_loop)"
  using from_body_correct [OF sample_loop_wf] by blast

end
