(* ===== verification/Dominators.thy ===== *)
theory Dominators
  imports Cfg BTree "HOL-Library.Monad_Syntax"
begin

text \<open>
  \<open>loop_unroll/dominators.rs\<close>: the Lengauer-Tarjan computation of immediate dominators with its
  depth-first numbering and path compression, the check that the result has no cycle, and the loop headers found
  with it.  \<open>usize::MAX\<close>, the sentinel for no block or no number, is
  \<open>None\<close> in the arrays, and above every number in comparisons.  Every access to an array is checked; an access
  out of range is a panic, the value \<open>None\<close>.
\<close>

section \<open>Checked arrays\<close>

definition idx :: "'a list \<Rightarrow> nat \<Rightarrow> 'a option" where
  "idx xs i = (if i < length xs then Some (xs ! i) else None)"

definition upd :: "'a list \<Rightarrow> nat \<Rightarrow> 'a \<Rightarrow> 'a list option" where
  "upd xs i v = (if i < length xs then Some (xs[i := v]) else None)"

fun num_less :: "nat option \<Rightarrow> nat option \<Rightarrow> bool" where
  "num_less (Some x) (Some y) \<longleftrightarrow> x < y"
| "num_less (Some x) None \<longleftrightarrow> True"
| "num_less None y \<longleftrightarrow> False"

section \<open>Depth-first numbering\<close>

record Dfs =
  dfs_num :: "nat option list"
  vertex :: "nat option list"
  parent :: "nat option list"
  dfs_count :: nat
  discovered :: "bool list"
  dfs_stack :: "nat list"

fun discover :: "nat \<Rightarrow> nat \<Rightarrow> nat list \<Rightarrow> Dfs \<Rightarrow> Dfs option" where
  "discover n v [] st = Some st"
| "discover n v (w # ws) st =
     (if w < n then do {
        seen \<leftarrow> idx (discovered st) w;
        if seen then discover n v ws st
        else do {
          d \<leftarrow> upd (discovered st) w True;
          p \<leftarrow> upd (parent st) w (Some v);
          discover n v ws (st\<lparr> discovered := d, parent := p, dfs_stack := w # dfs_stack st \<rparr>)
        }
      } else discover n v ws st)"

lemma discover_measure:
  "discover n v ws st = Some st' \<Longrightarrow>
   length (filter Not (discovered st')) + length (dfs_stack st') =
   length (filter Not (discovered st)) + length (dfs_stack st)"
proof (induction n v ws st rule: discover.induct)
  case (2 n v w ws st)
  show ?case
  proof (cases "w < n \<and> w < length (discovered st) \<and> \<not> discovered st ! w")
    case True
    with 2(4) have "w < length (parent st)" and
      rec: "discover n v ws (st\<lparr> discovered := (discovered st)[w := True], parent := (parent st)[w := Some v],
         dfs_stack := w # dfs_stack st \<rparr>) = Some st'"
      by (auto simp: idx_def upd_def split: if_splits)
    with 2(2) [of False "(discovered st)[w := True]" "(parent st)[w := Some v]"] True
    show ?thesis
      using filter_update [of w "discovered st" Not True] by (simp add: idx_def upd_def)
  qed (use 2 in \<open>auto simp: idx_def upd_def split: if_splits\<close>)
qed simp

function dfs :: "nat list list \<Rightarrow> Dfs \<Rightarrow> Dfs option" where
  "dfs succs st =
     (case dfs_stack st of
        [] \<Rightarrow> Some st
      | v # stack \<Rightarrow>
          (case idx (dfs_num st) v of
             None \<Rightarrow> None
           | Some (Some num) \<Rightarrow> dfs succs (st\<lparr> dfs_stack := stack \<rparr>)
           | Some None \<Rightarrow>
               (case do {
                  nums \<leftarrow> upd (dfs_num st) v (Some (dfs_count st));
                  vs \<leftarrow> upd (vertex st) (dfs_count st) (Some v);
                  ws \<leftarrow> idx succs v;
                  discover (length succs) v ws
                    (st\<lparr> dfs_num := nums, vertex := vs, dfs_count := dfs_count st + 1, dfs_stack := stack \<rparr>)
                } of None \<Rightarrow> None | Some st' \<Rightarrow> dfs succs st')))"
  by pat_completeness auto
termination
  by (relation "measure (\<lambda>(_, st). length (filter Not (discovered st)) + length (dfs_stack st))")
    (auto split: bind_splits dest!: discover_measure)

definition dfs_start :: "nat \<Rightarrow> Dfs" where
  "dfs_start n = \<lparr> dfs_num = replicate n None, vertex = replicate n None, parent = replicate n None,
     dfs_count = 0, discovered = (replicate n False)[0 := True], dfs_stack = [0] \<rparr>"

section \<open>Link and eval\<close>

record Forest =
  semi :: "nat list"
  ancestor :: "nat option list"
  best_label :: "nat list"
  bucket :: "nat list list"
  idom :: "nat option list"

text \<open>The path from a node to below the root of its tree, the node nearest the root first.\<close>

partial_function (option) compress_path :: "nat option list \<Rightarrow> nat \<Rightarrow> nat list \<Rightarrow> nat list option" where
  [code]: "compress_path anc cur path =
     (case idx anc cur of
        None \<Rightarrow> None
      | Some None \<Rightarrow> Some path
      | Some (Some a) \<Rightarrow>
          (case idx anc a of
             None \<Rightarrow> None
           | Some None \<Rightarrow> Some path
           | Some (Some _) \<Rightarrow> compress_path anc a (cur # path)))"

definition semi_num :: "nat option list \<Rightarrow> Forest \<Rightarrow> nat \<Rightarrow> nat option option" where
  "semi_num nums f v = do { s \<leftarrow> idx (semi f) v; idx nums s }"

fun compress_nodes :: "nat option list \<Rightarrow> nat list \<Rightarrow> Forest \<Rightarrow> Forest option" where
  "compress_nodes nums [] f = Some f"
| "compress_nodes nums (node # nodes) f =
     do {
       a \<leftarrow> Option.bind (idx (ancestor f) node) id;
       la \<leftarrow> idx (best_label f) a;
       ln \<leftarrow> idx (best_label f) node;
       na \<leftarrow> semi_num nums f la;
       nn \<leftarrow> semi_num nums f ln;
       labels \<leftarrow> (if num_less na nn then upd (best_label f) node la else Some (best_label f));
       aa \<leftarrow> idx (ancestor f) a;
       ancs \<leftarrow> upd (ancestor f) node aa;
       compress_nodes nums nodes (f\<lparr> best_label := labels, ancestor := ancs \<rparr>)
     }"

definition compress :: "nat option list \<Rightarrow> nat \<Rightarrow> Forest \<Rightarrow> Forest option" where
  "compress nums v f = do { path \<leftarrow> compress_path (ancestor f) v []; compress_nodes nums path f }"

definition eval :: "nat option list \<Rightarrow> nat \<Rightarrow> Forest \<Rightarrow> (nat \<times> Forest) option" where
  "eval nums v f =
     do {
       a \<leftarrow> idx (ancestor f) v;
       if a = None then Some (v, f)
       else do { f' \<leftarrow> compress nums v f; l \<leftarrow> idx (best_label f') v; Some (l, f') }
     }"

section \<open>Immediate dominators\<close>

fun semi_step :: "nat option list \<Rightarrow> nat \<Rightarrow> nat list \<Rightarrow> Forest \<Rightarrow> Forest option" where
  "semi_step nums w [] f = Some f"
| "semi_step nums w (v # vs) f =
     (if length nums \<le> v \<or> nums ! v = None then semi_step nums w vs f
      else do {
        (u, f') \<leftarrow> eval nums v f;
        nu \<leftarrow> semi_num nums f' u;
        nw \<leftarrow> semi_num nums f' w;
        su \<leftarrow> idx (semi f') u;
        semis \<leftarrow> (if num_less nu nw then upd (semi f') w su else Some (semi f'));
        semi_step nums w vs (f'\<lparr> semi := semis \<rparr>)
      })"

fun bucket_step :: "nat option list \<Rightarrow> nat \<Rightarrow> nat list \<Rightarrow> Forest \<Rightarrow> Forest option" where
  "bucket_step nums p [] f = Some f"
| "bucket_step nums p (v # vs) f =
     do {
       (u, f') \<leftarrow> eval nums v f;
       su \<leftarrow> idx (semi f') u;
       sv \<leftarrow> idx (semi f') v;
       idoms \<leftarrow> upd (idom f') v (Some (if su = sv then p else u));
       bucket_step nums p vs (f'\<lparr> idom := idoms \<rparr>)
     }"

definition link_step :: "Dfs \<Rightarrow> nat \<Rightarrow> Forest \<Rightarrow> Forest option" where
  "link_step d w f =
     do {
       p \<leftarrow> idx (parent d) w;
       case p of
         None \<Rightarrow> Some f
       | Some p \<Rightarrow> do {
           ancs \<leftarrow> upd (ancestor f) w (Some p);
           vs \<leftarrow> idx (bucket f) p;
           bs \<leftarrow> upd (bucket f) p [];
           bucket_step (dfs_num d) p vs (f\<lparr> ancestor := ancs, bucket := bs \<rparr>)
         }
     }"

fun lt_loop :: "Cfg \<Rightarrow> Dfs \<Rightarrow> nat \<Rightarrow> Forest \<Rightarrow> Forest option" where
  "lt_loop c d 0 f = Some f"
| "lt_loop c d (Suc i) f =
     (if i = 0 then Some f
      else do {
        w \<leftarrow> idx (vertex d) i;
        case w of
          None \<Rightarrow> lt_loop c d i f
        | Some w \<Rightarrow> do {
            ps \<leftarrow> idx (predecessors c) w;
            f \<leftarrow> semi_step (dfs_num d) w ps f;
            s \<leftarrow> idx (semi f) w;
            b \<leftarrow> idx (bucket f) s;
            bs \<leftarrow> upd (bucket f) s (b @ [w]);
            f \<leftarrow> link_step d w (f\<lparr> bucket := bs \<rparr>);
            lt_loop c d i f
          }
      })"

fun finalize :: "nat list \<Rightarrow> nat option list \<Rightarrow> nat option list \<Rightarrow> nat option list option" where
  "finalize semis [] idoms = Some idoms"
| "finalize semis (None # ws) idoms = finalize semis ws idoms"
| "finalize semis (Some w # ws) idoms =
     do {
       i \<leftarrow> idx idoms w;
       s \<leftarrow> idx semis w;
       idoms' \<leftarrow> (case i of
           None \<Rightarrow> Some idoms
         | Some i \<Rightarrow> if i \<noteq> s then do { ii \<leftarrow> idx idoms i; upd idoms w ii } else Some idoms);
       finalize semis ws idoms'
     }"

definition compute_idom_lengauer_tarjan :: "Cfg \<Rightarrow> nat option list option" where
  "compute_idom_lengauer_tarjan c =
     (let n = length (successors c) in
      if n = 0 then Some []
      else do {
        d \<leftarrow> dfs (successors c) (dfs_start n);
        if dfs_count d = 0 then Some (replicate n None)
        else do {
          f \<leftarrow> lt_loop c d (dfs_count d)
            \<lparr> semi = [0..<n], ancestor = replicate n None, best_label = [0..<n], bucket = replicate n [],
              idom = replicate n None \<rparr>;
          finalize (semi f) (drop 1 (take (dfs_count d) (vertex d))) (idom f)
        }
      })"

section \<open>Dominance and loop headers\<close>

datatype LoopUnrollError =
    IrreducibleCycle
  | MultipleEntries nat nat nat
  | TooManyIterations nat
  | IdomCycle nat nat nat
  | MaxBlocksExceeded nat nat

function dominates_from :: "nat option list \<Rightarrow> nat \<Rightarrow> nat option \<Rightarrow> nat \<Rightarrow> nat \<Rightarrow> bool option" where
  "dominates_from idoms anc None n steps = Some False"
| "dominates_from idoms anc (Some cur) n steps =
     (if cur = anc then Some True
      else if n < steps + 1 then Some False
      else case idx idoms cur of None \<Rightarrow> None | Some up \<Rightarrow> dominates_from idoms anc up n (steps + 1))"
  by pat_completeness auto
termination
  by (relation "measure (\<lambda>(_, _, _, n, steps). n + 1 - steps)") auto

definition dominates :: "nat option list \<Rightarrow> nat \<Rightarrow> nat \<Rightarrow> nat \<Rightarrow> bool option" where
  "dominates idoms anc descendant n = dominates_from idoms anc (Some descendant) n 0"

function idom_chain :: "nat option list \<Rightarrow> bool list \<Rightarrow> nat \<Rightarrow> nat option \<Rightarrow> nat list \<Rightarrow> nat list \<Rightarrow>
    (LoopUnrollError + nat list \<times> nat list) option" where
  "idom_chain idoms reach start None state path = Some (Inr (state, path))"
| "idom_chain idoms reach start (Some cur) state path =
     (case idx reach cur of
        None \<Rightarrow> None
      | Some False \<Rightarrow> Some (Inr (state, path))
      | Some True \<Rightarrow>
          if length state \<le> cur then None
          else if state ! cur = 0 then
            (case idx idoms cur of
               None \<Rightarrow> None
             | Some up \<Rightarrow> idom_chain idoms reach start up (state[cur := 1]) (path @ [cur]))
          else if state ! cur = 1 then Some (Inl (IdomCycle start cur (length path)))
          else Some (Inr (state, path)))"
  by pat_completeness auto
termination
  by (relation "measure (\<lambda>(_, _, _, _, state, _). length (filter (\<lambda>s. s = 0) state))")
    (auto intro: filter_update_less)

fun validate_from :: "nat option list \<Rightarrow> bool list \<Rightarrow> nat list \<Rightarrow> nat list \<Rightarrow> (LoopUnrollError + unit) option" where
  "validate_from idoms reach [] state = Some (Inr ())"
| "validate_from idoms reach (start # rest) state =
     do {
       r \<leftarrow> idx reach start;
       s \<leftarrow> idx state start;
       if \<not> r \<or> s = 2 then validate_from idoms reach rest state
       else do {
         res \<leftarrow> idom_chain idoms reach start (Some start) state [];
         case res of
           Inl e \<Rightarrow> Some (Inl e)
         | Inr (state', path) \<Rightarrow> validate_from idoms reach rest (fold (\<lambda>v st. st[v := 2]) path state')
       }
     }"

definition validate_idom :: "nat option list \<Rightarrow> bool list \<Rightarrow> (LoopUnrollError + unit) option" where
  "validate_idom idoms reach = validate_from idoms reach [0..<length idoms] (replicate (length idoms) 0)"

fun add_headers :: "nat option list \<Rightarrow> bool list \<Rightarrow> nat \<Rightarrow> nat \<Rightarrow> nat list \<Rightarrow> (nat, nat list) btree \<Rightarrow> (nat, nat list) btree option" where
  "add_headers idoms reach n src [] hs = Some hs"
| "add_headers idoms reach n src (dst # dsts) hs =
     do {
       r \<leftarrow> idx reach dst;
       if \<not> r then add_headers idoms reach n src dsts hs
       else do {
         dom \<leftarrow> dominates idoms dst src n;
         add_headers idoms reach n src dsts (if dom then bt_update dst [] (\<lambda>ls. ls @ [src]) hs else hs)
       }
     }"

fun all_headers :: "nat option list \<Rightarrow> Cfg \<Rightarrow> nat list \<Rightarrow> (nat, nat list) btree \<Rightarrow> (nat, nat list) btree option" where
  "all_headers idoms c [] hs = Some hs"
| "all_headers idoms c (src # srcs) hs =
     do {
       r \<leftarrow> idx (reachable c) src;
       if \<not> r then all_headers idoms c srcs hs
       else do {
         dsts \<leftarrow> idx (successors c) src;
         hs' \<leftarrow> add_headers idoms (reachable c) (length (successors c)) src dsts hs;
         all_headers idoms c srcs hs'
       }
     }"

definition find_loop_headers :: "Cfg \<Rightarrow> (LoopUnrollError + (nat, nat list) btree) option" where
  "find_loop_headers c =
     do {
       idoms \<leftarrow> compute_idom_lengauer_tarjan c;
       valid \<leftarrow> validate_idom idoms (reachable c);
       case valid of
         Inl e \<Rightarrow> Some (Inl e)
       | Inr _ \<Rightarrow> map_option Inr (all_headers idoms c [0..<length (successors c)] [])
     }"

section \<open>A join the numbering gets wrong\<close>

text \<open>
  The depth-first search marks a block as discovered when it is pushed and not when it is popped, so the recorded
  parents need not form a depth-first tree, which the algorithm relies on.  In the body below, block 3 is
  reported as the immediate dominator of block 2, although the path 0, 1, 4, 2 avoids it.
\<close>

definition goto_block :: "nat \<Rightarrow> nat BasicBlock" where
  "goto_block t = \<lparr> statements = [], terminator = \<lparr> kind = Goto t, span = 0 \<rparr> \<rparr>"

definition switch_block :: "nat \<Rightarrow> nat \<Rightarrow> nat BasicBlock" where
  "switch_block t u = \<lparr> statements = [], terminator = \<lparr> kind = SwitchInt flag [(0, t)] u, span = 0 \<rparr> \<rparr>"

definition join_body :: "nat Body" where
  "join_body = \<lparr> blocks = [switch_block 1 3, goto_block 4,
     \<lparr> statements = [], terminator = \<lparr> kind = Return, span = 0 \<rparr> \<rparr>, switch_block 2 4, goto_block 2], local_count = 1 \<rparr>"

lemma idom_of_join_wrong:
  "Option.bind (from_body join_body) compute_idom_lengauer_tarjan = Some [None, Some 0, Some 3, Some 0, Some 0]"
  "{(0, 1), (1, 4), (4, 2)} \<subseteq> edges join_body"
proof -
  show "Option.bind (from_body join_body) compute_idom_lengauer_tarjan = Some [None, Some 0, Some 3, Some 0, Some 0]"
    by code_simp
  show "{(0, 1), (1, 4), (4, 2)} \<subseteq> edges join_body"
    by (simp add: edges_def join_body_def targets_at_def goto_block_def switch_block_def numeral_eq_Suc)
qed

end
