(* ===== verification/Unroll.thy ===== *)
theory Unroll
  imports Dominators
begin

text \<open>
  \<open>loop_unroll/unroll.rs\<close> and \<open>unroll_cfg_loops\<close> of \<open>loop_unroll/mod.rs\<close>: natural
  loops, the copies of a loop body, the rewriting of terminators and the outer loop that unrolls one natural loop
  after the other until the body has no cycle.
\<close>

section \<open>Natural loops\<close>

record NaturalLoop =
  header :: nat
  latches :: "nat list"
  in_loop :: "bool list"
  loop_blocks :: "nat list"

fun mark_latches :: "nat list \<Rightarrow> bool list \<Rightarrow> nat list \<Rightarrow> (bool list \<times> nat list) option" where
  "mark_latches [] inl stack = Some (inl, stack)"
| "mark_latches (l # ls) inl stack = do { inl' \<leftarrow> upd inl l True; mark_latches ls inl' (l # stack) }"

fun mark_preds :: "bool list \<Rightarrow> nat \<Rightarrow> nat list \<Rightarrow> bool list \<Rightarrow> nat list \<Rightarrow> (bool list \<times> nat list) option" where
  "mark_preds reach h [] inl stack = Some (inl, stack)"
| "mark_preds reach h (p # ps) inl stack =
     (if length reach \<le> p \<or> length inl \<le> p then None
      else if \<not> reach ! p \<or> inl ! p then mark_preds reach h ps inl stack
      else mark_preds reach h ps (inl[p := True]) (if p \<noteq> h then p # stack else stack))"

lemma mark_preds_measure:
  "mark_preds reach h ps inl stack = Some (inl', stack') \<Longrightarrow>
   length (filter Not inl') + length stack' \<le> length (filter Not inl) + length stack \<and> length inl' = length inl"
proof (induction reach h ps inl stack rule: mark_preds.induct)
  case (2 reach h p ps inl stack)
  then show ?case
    using filter_update [of p inl Not True] by (fastforce split: if_splits)
qed simp

function loop_walk :: "Cfg \<Rightarrow> nat \<Rightarrow> bool list \<Rightarrow> nat list \<Rightarrow> bool list option" where
  "loop_walk c h inl [] = Some inl"
| "loop_walk c h inl (node # stack) =
     (if length (predecessors c) \<le> node then None
      else case mark_preds (reachable c) h (predecessors c ! node) inl stack of
             None \<Rightarrow> None
           | Some (inl', stack') \<Rightarrow> loop_walk c h inl' stack')"
  by pat_completeness auto
termination
  by (relation "measure (\<lambda>(_, _, inl, stack). length (filter Not inl) + length stack)") (auto dest!: mark_preds_measure)

definition natural_loop :: "Cfg \<Rightarrow> nat \<Rightarrow> nat list \<Rightarrow> NaturalLoop option" where
  "natural_loop c h ls =
     do {
       inl \<leftarrow> upd (replicate (length (successors c)) False) h True;
       (inl, stack) \<leftarrow> mark_latches ls inl [];
       inl \<leftarrow> loop_walk c h inl stack;
       Some \<lparr> header = h, latches = ls, in_loop = inl,
              loop_blocks = filter (\<lambda>bb. inl ! bb) [0..<length (successors c)] \<rparr>
     }"

fun outside_pred :: "Cfg \<Rightarrow> NaturalLoop \<Rightarrow> nat \<Rightarrow> nat list \<Rightarrow> (LoopUnrollError + unit) option" where
  "outside_pred c lp bb [] = Some (Inr ())"
| "outside_pred c lp bb (p # ps) =
     do {
       r \<leftarrow> idx (reachable c) p;
       if \<not> r then outside_pred c lp bb ps
       else do {
         i \<leftarrow> idx (in_loop lp) p;
         if \<not> i then Some (Inl (MultipleEntries (header lp) bb p)) else outside_pred c lp bb ps
       }
     }"

fun single_entry_from :: "Cfg \<Rightarrow> NaturalLoop \<Rightarrow> nat list \<Rightarrow> (LoopUnrollError + unit) option" where
  "single_entry_from c lp [] = Some (Inr ())"
| "single_entry_from c lp (bb # bbs) =
     (if bb = header lp then single_entry_from c lp bbs
      else do {
        ps \<leftarrow> idx (predecessors c) bb;
        res \<leftarrow> outside_pred c lp bb ps;
        case res of Inl e \<Rightarrow> Some (Inl e) | Inr _ \<Rightarrow> single_entry_from c lp bbs
      })"

definition check_single_entry :: "Cfg \<Rightarrow> NaturalLoop \<Rightarrow> (LoopUnrollError + unit) option" where
  "check_single_entry c lp = single_entry_from c lp (loop_blocks lp)"

section \<open>Rewriting\<close>

text \<open>A block map stores the remapped blocks of one copy; every other block is its own image.\<close>

type_synonym BlockMap = "(nat \<times> nat) list"

definition map_get :: "BlockMap \<Rightarrow> nat \<Rightarrow> nat" where
  "map_get m b = (case map_of m b of None \<Rightarrow> b | Some b' \<Rightarrow> b')"

record UnrollContext =
  lp :: NaturalLoop
  maps :: "BlockMap list"
  unwind_depth :: nat
  fail_bb :: nat
  silent_fail_bb :: nat
  unwinding_assertions :: bool

fun remap_unwind_action :: "UnwindAction \<Rightarrow> BlockMap \<Rightarrow> UnwindAction" where
  "remap_unwind_action UnwindContinue m = UnwindContinue"
| "remap_unwind_action UnwindUnreachable m = UnwindUnreachable"
| "remap_unwind_action UnwindTerminate m = UnwindTerminate"
| "remap_unwind_action (Cleanup bb) m = Cleanup (map_get m bb)"

definition cut_bb :: "UnrollContext \<Rightarrow> nat" where
  "cut_bb u = (if unwinding_assertions u then fail_bb u else silent_fail_bb u)"

definition remap_target :: "nat \<Rightarrow> nat \<Rightarrow> nat \<Rightarrow> UnrollContext \<Rightarrow> nat" where
  "remap_target target iter src u =
     (if \<not> in_loop (lp u) ! target then target
      else if iter = unwind_depth u \<and> src = header (lp u) then cut_bb u
      else if target = header (lp u) then
        (if iter < unwind_depth u then map_get (maps u ! (iter + 1)) (header (lp u)) else cut_bb u)
      else map_get (maps u ! iter) target)"

fun rewrite_kind :: "'x TerminatorKind \<Rightarrow> nat \<Rightarrow> nat \<Rightarrow> UnrollContext \<Rightarrow> 'x TerminatorKind" where
  "rewrite_kind (Goto t) iter src u = Goto (remap_target t iter src u)"
| "rewrite_kind (SwitchInt d branches otherwise) iter src u =
     SwitchInt d (map (\<lambda>(v, t). (v, remap_target t iter src u)) branches) (remap_target otherwise iter src u)"
| "rewrite_kind (Drop p t w) iter src u =
     Drop p (remap_target t iter src u) (remap_unwind_action w (maps u ! iter))"
| "rewrite_kind (Call f args dest t w) iter src u =
     Call f args dest (map_option (\<lambda>t. remap_target t iter src u) t) (remap_unwind_action w (maps u ! iter))"
| "rewrite_kind (Assert c e m t w) iter src u =
     Assert c e m (remap_target t iter src u) (remap_unwind_action w (maps u ! iter))"
| "rewrite_kind Return iter src u = Return"
| "rewrite_kind Unreachable iter src u = Unreachable"
| "rewrite_kind Resume iter src u = Resume"
| "rewrite_kind Abort iter src u = Abort"
| "rewrite_kind (InlineAsm a d) iter src u = InlineAsm a d"

text \<open>The targets whose loop membership the rewriting reads; a number out of range panics.\<close>

fun remapped_targets :: "'x TerminatorKind \<Rightarrow> nat list" where
  "remapped_targets (InlineAsm a d) = []"
| "remapped_targets k = kind_targets k"

definition rewrite_terminator :: "'x Terminator \<Rightarrow> nat \<Rightarrow> nat \<Rightarrow> UnrollContext \<Rightarrow> 'x Terminator option" where
  "rewrite_terminator term iter src u =
     (if list_all (\<lambda>t. t < length (in_loop (lp u))) (remapped_targets (kind term))
      then Some \<lparr> kind = rewrite_kind (kind term) iter src u, span = span term \<rparr> else None)"

section \<open>Unrolling one loop\<close>

fun copy_blocks :: "(nat \<times> 'b) list \<Rightarrow> 'b list \<Rightarrow> 'b list \<times> BlockMap" where
  "copy_blocks [] bs = (bs, [])"
| "copy_blocks ((bb, t) # ts) bs = (let (bs', m) = copy_blocks ts (bs @ [t]) in (bs', (bb, length bs) # m))"

fun make_copies :: "nat \<Rightarrow> (nat \<times> 'b) list \<Rightarrow> 'b list \<Rightarrow> 'b list \<times> BlockMap list" where
  "make_copies 0 ts bs = (bs, [])"
| "make_copies (Suc k) ts bs =
     (let (bs', m) = copy_blocks ts bs; (bs'', ms) = make_copies k ts bs' in (bs'', m # ms))"

fun rewrite_copy ::
    "UnrollContext \<Rightarrow> nat \<Rightarrow> (nat \<times> 'x BasicBlock) list \<Rightarrow> 'x BasicBlock list \<Rightarrow> 'x BasicBlock list option" where
  "rewrite_copy u iter [] bs = Some bs"
| "rewrite_copy u iter ((orig, tpl) # ts) bs =
     do {
       t \<leftarrow> rewrite_terminator (terminator tpl) iter orig u;
       let bb = map_get (maps u ! iter) orig in do {
         old \<leftarrow> idx bs bb;
         bs' \<leftarrow> upd bs bb (old\<lparr> terminator := t \<rparr>);
         rewrite_copy u iter ts bs'
       }
     }"

fun rewrite_copies ::
    "UnrollContext \<Rightarrow> nat list \<Rightarrow> (nat \<times> 'x BasicBlock) list \<Rightarrow> 'x BasicBlock list \<Rightarrow> 'x BasicBlock list option" where
  "rewrite_copies u [] ts bs = Some bs"
| "rewrite_copies u (iter # iters) ts bs =
     do { bs' \<leftarrow> rewrite_copy u iter ts bs; rewrite_copies u iters ts bs' }"

definition stop_block :: "'x TerminatorKind \<Rightarrow> 'x \<Rightarrow> 'x BasicBlock" where
  "stop_block k sp = \<lparr> statements = [], terminator = \<lparr> kind = k, span = sp \<rparr> \<rparr>"

definition unroll_natural_loop :: "'x Body \<Rightarrow> NaturalLoop \<Rightarrow> nat \<Rightarrow> bool \<Rightarrow> 'x Body option" where
  "unroll_natural_loop bd l depth ua =
     (if list_ex (\<lambda>bb. length (blocks bd) \<le> bb) (loop_blocks l) \<or> length (blocks bd) \<le> header l then None
      else let templates = map (\<lambda>bb. (bb, blocks bd ! bb)) (loop_blocks l);
               (bs, ms) = make_copies depth templates (blocks bd);
               sp = span (terminator (bs ! header l));
               u = \<lparr> lp = l, maps = [] # ms, unwind_depth = depth, fail_bb = length bs,
                     silent_fail_bb = length bs + 1, unwinding_assertions = ua \<rparr> in
           map_option (\<lambda>bs'. bd\<lparr> blocks := bs' \<rparr>)
             (rewrite_copies u [0..<depth + 1] templates (bs @ [stop_block Unreachable sp, stop_block Return sp])))"

definition MAX_EXPANDED_BLOCKS :: nat where
  "MAX_EXPANDED_BLOCKS = 10000"

text \<open>The product saturates at \<open>usize::MAX\<close>.\<close>

definition saturating_mul :: "nat \<Rightarrow> nat \<Rightarrow> nat" where
  "saturating_mul a b = min (2 ^ 64 - 1) (a * b)"

definition compute_effective_unwind_depth :: "nat \<Rightarrow> nat \<Rightarrow> nat \<times> bool" where
  "compute_effective_unwind_depth requested n =
     (if MAX_EXPANDED_BLOCKS < saturating_mul requested n
      then (max (MAX_EXPANDED_BLOCKS div max n 1) 1, True) else (requested, False))"

section \<open>Unrolling every loop\<close>

definition MAX_ITERATIONS :: nat where
  "MAX_ITERATIONS = 256"

definition MAX_TOTAL_BLOCKS :: nat where
  "MAX_TOTAL_BLOCKS = 100000"

text \<open>The smallest loop with a single entry, the first one on a tie, and the first refusal otherwise.\<close>

fun best_loop :: "Cfg \<Rightarrow> (nat, nat list) btree \<Rightarrow> NaturalLoop option \<Rightarrow> LoopUnrollError option \<Rightarrow>
    (LoopUnrollError + NaturalLoop) option" where
  "best_loop c [] best err =
     Some (case best of Some l \<Rightarrow> Inr l | None \<Rightarrow> Inl (case err of Some e \<Rightarrow> e | None \<Rightarrow> IrreducibleCycle))"
| "best_loop c ((h, ls) # cands) best err =
     do {
       l \<leftarrow> natural_loop c h (sort_dedup ls);
       res \<leftarrow> check_single_entry c l;
       case res of
         Inl e \<Rightarrow> best_loop c cands best (if err = None then Some e else err)
       | Inr _ \<Rightarrow> best_loop c cands
           (case best of
              None \<Rightarrow> Some l
            | Some b \<Rightarrow> if length (loop_blocks l) < length (loop_blocks b) then Some l else best) err
     }"

definition choose_loop :: "Cfg \<Rightarrow> (LoopUnrollError + NaturalLoop) option" where
  "choose_loop c =
     do {
       found \<leftarrow> find_loop_headers c;
       case found of
         Inl e \<Rightarrow> Some (Inl e)
       | Inr headers \<Rightarrow>
           if headers = [] then Some (Inl IrreducibleCycle)
           else do {
             best \<leftarrow> best_loop c headers None None;
             case best of
               Inl e \<Rightarrow> Some (Inl e)
             | Inr l \<Rightarrow> map_option (case_sum Inl (\<lambda>_. Inr l)) (check_single_entry c l)
           }
     }"

fun unroll_from :: "nat \<Rightarrow> 'x Body \<Rightarrow> nat \<Rightarrow> bool \<Rightarrow> (LoopUnrollError + 'x Body) option" where
  "unroll_from 0 bd depth ua = Some (Inl (TooManyIterations MAX_ITERATIONS))"
| "unroll_from (Suc k) bd depth ua =
     (if MAX_TOTAL_BLOCKS < length (blocks bd)
      then Some (Inl (MaxBlocksExceeded (length (blocks bd)) MAX_TOTAL_BLOCKS))
      else do {
        c \<leftarrow> from_body bd;
        if is_acyclic c then Some (Inr bd)
        else do {
          chosen \<leftarrow> choose_loop c;
          case chosen of
            Inl e \<Rightarrow> Some (Inl e)
          | Inr l \<Rightarrow> do {
              bd' \<leftarrow> unroll_natural_loop bd l (fst (compute_effective_unwind_depth depth (length (loop_blocks l)))) ua;
              if k = 0 then Some (Inl (TooManyIterations MAX_ITERATIONS)) else unroll_from k bd' depth ua
            }
        }
      })"

definition unroll_cfg_loops :: "'x Body \<Rightarrow> nat \<Rightarrow> bool \<Rightarrow> (LoopUnrollError + 'x Body) option" where
  "unroll_cfg_loops bd depth ua = unroll_from MAX_ITERATIONS bd depth ua"

end
