(* ===== verification/Unroll_Sim.thy ===== *)
theory Unroll_Sim
  imports Unroll
begin

text \<open>
  What bounded unrolling preserves.  An unrolled body is a copy of the original: every block but the cut blocks
  has an origin with the same statements and terminator data, and an edge of the copy leads to a copy of the
  original target or to a cut block.  From this structure follow, for every semantics of blocks, that runs of the
  unrolled body are runs of the original and that every run of the original is matched or ends at a cut.
\<close>

section \<open>Copies of a loop\<close>

lemma copy_blocks_eq:
  "copy_blocks ts bs = (bs @ map snd ts, zip (map fst ts) [length bs..<length bs + length ts])"
proof (induction ts arbitrary: bs)
  case (Cons t ts)
  then show ?case
    by (cases t) (simp add: upt_conv_Cons del: upt_Suc)
qed simp

lemma make_copies_blocks: "fst (make_copies k ts bs) = bs @ concat (replicate k (map snd ts))"
  by (induction k arbitrary: bs) (simp_all add: copy_blocks_eq split_beta Let_def)

lemma make_copies_length: "length (snd (make_copies k ts bs)) = k"
  by (induction k arbitrary: bs) (simp_all add: copy_blocks_eq split_beta Let_def)

lemma make_copies_map:
  "i < k \<Longrightarrow> snd (make_copies k ts bs) ! i =
     zip (map fst ts) [length bs + i * length ts..<length bs + Suc i * length ts]"
proof (induction k arbitrary: bs i)
  case (Suc k)
  then show ?case
    by (cases i) (simp_all add: copy_blocks_eq split_beta Let_def ac_simps)
qed simp

lemma map_get_zip:
  "distinct xs \<Longrightarrow> length ys = length xs \<Longrightarrow> j < length xs \<Longrightarrow> map_get (zip xs ys) (xs ! j) = ys ! j"
  by (simp add: map_get_def map_of_zip_nth)

lemma nth_concat_replicate:
  "i < k * length xs \<Longrightarrow> concat (replicate k xs) ! i = xs ! (i mod length xs)"
proof (induction k arbitrary: i)
  case (Suc k)
  show ?case
  proof (cases "i < length xs")
    case False
    with Suc have "concat (replicate k xs) ! (i - length xs) = xs ! ((i - length xs) mod length xs)"
      by (intro Suc.IH) simp
    with False show ?thesis
      by (simp add: nth_append le_mod_geq)
  qed (simp add: nth_append)
qed simp

section \<open>Rewriting the copies\<close>

abbreviation slot :: "UnrollContext \<Rightarrow> nat \<Rightarrow> nat \<Rightarrow> nat" where
  "slot u iter b \<equiv> map_get (maps u ! iter) b"

definition rewritten :: "UnrollContext \<Rightarrow> nat \<Rightarrow> nat \<times> 'x BasicBlock \<Rightarrow> 'x BasicBlock list \<Rightarrow> 'x BasicBlock list \<Rightarrow> bool" where
  "rewritten u iter t bs bs' \<longleftrightarrow> slot u iter (fst t) < length bs \<and>
     (\<exists>term. rewrite_terminator (terminator (snd t)) iter (fst t) u = Some term \<and>
        bs' ! slot u iter (fst t) = (bs ! slot u iter (fst t))\<lparr> terminator := term \<rparr>)"

lemma rewrite_copy_spec:
  assumes "rewrite_copy u iter ts bs = Some bs'" "distinct (map (\<lambda>t. slot u iter (fst t)) ts)"
  shows "length bs' = length bs \<and> (\<forall>b. b \<notin> (\<lambda>t. slot u iter (fst t)) ` set ts \<longrightarrow> bs' ! b = bs ! b) \<and>
    (\<forall>t \<in> set ts. rewritten u iter t bs bs')"
  using assms
proof (induction u iter ts bs rule: rewrite_copy.induct)
  case (2 u iter orig tpl ts bs)
  let ?b = "slot u iter orig"
  obtain t where t: "rewrite_terminator (terminator tpl) iter orig u = Some t" "?b < length bs"
      "rewrite_copy u iter ts (bs[?b := (bs ! ?b)\<lparr> terminator := t \<rparr>]) = Some bs'"
    using 2(2) by (force simp: idx_def upd_def Let_def bind_eq_Some_conv split: if_splits)
  let ?bs = "bs[?b := (bs ! ?b)\<lparr> terminator := t \<rparr>]"
  have IH: "length bs' = length ?bs" "\<forall>b. b \<notin> (\<lambda>t. slot u iter (fst t)) ` set ts \<longrightarrow> bs' ! b = ?bs ! b"
      "\<forall>t \<in> set ts. rewritten u iter t ?bs bs'"
    using 2(1) [of t "map_get (maps u ! iter) orig" "bs ! ?b" ?bs] t 2(3) by (simp_all add: idx_def upd_def)
  have new: "?b \<notin> (\<lambda>t. slot u iter (fst t)) ` set ts"
    using 2(3) by simp
  then have fresh: "slot u iter (fst x) \<noteq> ?b" if "x \<in> set ts" for x
    using that by (metis (mono_tags, lifting) image_eqI)
  have "bs' ! ?b = ?bs ! ?b"
    using IH(2) new by blast
  then have "rewritten u iter (orig, tpl) bs bs'"
    using t by (simp add: rewritten_def)
  moreover have "rewritten u iter x bs bs'" if "x \<in> set ts" for x
    using IH(3) fresh [OF that] that by (auto simp: rewritten_def)
  moreover have "bs' ! b = bs ! b" if "b \<noteq> ?b" "b \<notin> (\<lambda>t. slot u iter (fst t)) ` set ts" for b
    using IH(2) that by simp
  ultimately show ?case
    using IH(1) by simp
qed simp

lemma rewrite_copies_spec:
  assumes "rewrite_copies u iters ts bs = Some bs'"
    and "distinct (concat (map (\<lambda>i. map (\<lambda>t. slot u i (fst t)) ts) iters))"
  shows "length bs' = length bs \<and>
    (\<forall>b. b \<notin> (\<Union>i \<in> set iters. (\<lambda>t. slot u i (fst t)) ` set ts) \<longrightarrow> bs' ! b = bs ! b) \<and>
    (\<forall>i \<in> set iters. \<forall>t \<in> set ts. rewritten u i t bs bs')"
  using assms
proof (induction u iters ts bs rule: rewrite_copies.induct)
  case (2 u iter iters ts bs)
  obtain bs1 where bs1: "rewrite_copy u iter ts bs = Some bs1" "rewrite_copies u iters ts bs1 = Some bs'"
    using 2(2) by (auto simp: bind_eq_Some_conv)
  have "distinct (map (\<lambda>t. slot u iter (fst t)) ts)"
    using 2(3) by simp
  then have one: "length bs1 = length bs" "\<And>b. b \<notin> (\<lambda>t. slot u iter (fst t)) ` set ts \<Longrightarrow> bs1 ! b = bs ! b"
      "\<And>t. t \<in> set ts \<Longrightarrow> rewritten u iter t bs bs1"
    using rewrite_copy_spec [OF bs1(1)] by blast+
  have rest: "length bs' = length bs1"
      "\<And>b. b \<notin> (\<Union>i \<in> set iters. (\<lambda>t. slot u i (fst t)) ` set ts) \<Longrightarrow> bs' ! b = bs1 ! b"
      "\<And>i t. i \<in> set iters \<Longrightarrow> t \<in> set ts \<Longrightarrow> rewritten u i t bs1 bs'"
    using 2(1) [OF bs1] 2(3) by simp_all
  have apart: "(\<lambda>t. slot u iter (fst t)) ` set ts \<inter> (\<Union>i \<in> set iters. (\<lambda>t. slot u i (fst t)) ` set ts) = {}"
    using 2(3) by auto
  have "rewritten u iter t bs bs'" if "t \<in> set ts" for t
  proof -
    have "slot u iter (fst t) \<notin> (\<Union>i \<in> set iters. (\<lambda>t. slot u i (fst t)) ` set ts)"
      using apart that by blast
    then show ?thesis
      using one(3) [OF that] rest(2) by (simp add: rewritten_def)
  qed
  moreover have "rewritten u i t bs bs'" if "i \<in> set iters" "t \<in> set ts" for i t
  proof -
    have "slot u i (fst t) \<notin> (\<lambda>t. slot u iter (fst t)) ` set ts"
      using apart that by blast
    then show ?thesis
      using rest(3) [OF that] one(1,2) by (simp add: rewritten_def)
  qed
  ultimately show ?case
    using one rest by simp
qed simp

section \<open>Terminators\<close>

lemma shape_rewrite: "shape (rewrite_kind k iter src u) = shape k"
  by (cases k) (auto simp: option.map_comp comp_def)

lemma targets_rewrite:
  "kind_targets (rewrite_kind k iter src u) =
     (if \<exists>a d. k = InlineAsm a d then kind_targets k else map (\<lambda>t. remap_target t iter src u) (kind_targets k))"
  by (cases k) (auto simp: comp_def split_beta split: option.splits)

section \<open>The layout of an unrolled body\<close>

definition loop_of :: "nat \<Rightarrow> NaturalLoop \<Rightarrow> bool" where
  "loop_of n l \<longleftrightarrow> length (in_loop l) = n \<and> header l < n \<and> in_loop l ! header l \<and>
     loop_blocks l = filter (\<lambda>bb. in_loop l ! bb) [0..<n]"

lemma loop_ofD:
  assumes "loop_of n l"
  shows "distinct (loop_blocks l)" "set (loop_blocks l) = {b. b < n \<and> in_loop l ! b}" "0 < length (loop_blocks l)"
proof -
  show s: "set (loop_blocks l) = {b. b < n \<and> in_loop l ! b}"
    using assms by (auto simp: loop_of_def)
  show "distinct (loop_blocks l)"
    using assms by (simp add: loop_of_def)
  have "header l \<in> set (loop_blocks l)"
    unfolding s using assms by (simp add: loop_of_def)
  then show "0 < length (loop_blocks l)"
    by (rule length_pos_if_in_set)
qed

definition ctx :: "nat \<Rightarrow> NaturalLoop \<Rightarrow> nat \<Rightarrow> bool \<Rightarrow> UnrollContext" where
  "ctx n l d ua = (let m = length (loop_blocks l) in
     \<lparr> lp = l, maps = [] # map (\<lambda>i. zip (loop_blocks l) [n + i * m..<n + Suc i * m]) [0..<d], unwind_depth = d,
       fail_bb = n + d * m, silent_fail_bb = n + d * m + 1, unwinding_assertions = ua \<rparr>)"

lemma ctx_sel [simp]:
  "lp (ctx n l d ua) = l" "unwind_depth (ctx n l d ua) = d" "unwinding_assertions (ctx n l d ua) = ua"
  "fail_bb (ctx n l d ua) = n + d * length (loop_blocks l)"
  "silent_fail_bb (ctx n l d ua) = n + d * length (loop_blocks l) + 1"
  by (simp_all add: ctx_def Let_def)

lemma slot_0 [simp]: "slot (ctx n l d ua) 0 b = b"
  by (simp add: ctx_def Let_def map_get_def)

lemma slot_Suc:
  assumes "distinct (loop_blocks l)" "i < d" "j < length (loop_blocks l)"
  shows "slot (ctx n l d ua) (Suc i) (loop_blocks l ! j) = n + i * length (loop_blocks l) + j"
  using assms by (simp add: ctx_def Let_def map_get_zip)

lemma slots_Suc:
  assumes "distinct (loop_blocks l)" "i < d"
  shows "map (slot (ctx n l d ua) (Suc i)) (loop_blocks l) =
    [n + i * length (loop_blocks l)..<n + Suc i * length (loop_blocks l)]"
  by (rule nth_equalityI) (use slot_Suc [OF assms] in \<open>simp_all del: upt_Suc\<close>)

lemma concat_ranges: "concat (map (\<lambda>i. [n + i * m..<n + Suc i * m]) [0..<d]) = [n..<n + d * m]"
proof (induction d)
  case (Suc d)
  then show ?case
    using upt_add_eq_append [of n "n + d * m" m] by (simp add: ac_simps)
qed simp

lemma slots_all:
  assumes "distinct (loop_blocks l)"
  shows "concat (map (\<lambda>i. map (slot (ctx n l d ua) i) (loop_blocks l)) [0..<d + 1]) =
    loop_blocks l @ [n..<n + d * length (loop_blocks l)]"
proof -
  have "concat (map (\<lambda>i. map (slot (ctx n l d ua) (Suc i)) (loop_blocks l)) [0..<d]) =
      concat (map (\<lambda>i. [n + i * length (loop_blocks l)..<n + Suc i * length (loop_blocks l)]) [0..<d])"
    by (intro arg_cong [where f = concat] map_cong) (simp_all only: slots_Suc [OF assms] set_upt atLeastLessThan_iff)
  then have rest: "concat (map (\<lambda>i. map (slot (ctx n l d ua) (Suc i)) (loop_blocks l)) [0..<d]) =
      [n..<n + d * length (loop_blocks l)]"
    by (simp only: concat_ranges)
  have "[0..<d + 1] = 0 # map Suc [0..<d]"
    by (simp add: upt_conv_Cons map_Suc_upt del: upt_Suc)
  then have "concat (map (\<lambda>i. map (slot (ctx n l d ua) i) (loop_blocks l)) [0..<d + 1]) =
      map (slot (ctx n l d ua) 0) (loop_blocks l) @ [n..<n + d * length (loop_blocks l)]"
    by (simp only: rest list.map concat.simps map_map comp_def)
  also have "map (slot (ctx n l d ua) 0) (loop_blocks l) = loop_blocks l"
    by (rule map_idI) simp
  finally show ?thesis .
qed

lemma row_less: "i < d \<Longrightarrow> j < m \<Longrightarrow> i * m + j < d * (m :: nat)"
  using mult_le_mono1 [of "Suc i" d m] by simp

lemma slot_cases:
  assumes "loop_of n l" "b < n + d * length (loop_blocks l)" "b < n \<Longrightarrow> in_loop l ! b"
  obtains i a where "i \<le> d" "a \<in> set (loop_blocks l)" "b = slot (ctx n l d ua) i a"
proof (cases "b < n")
  case True
  then show ?thesis
    using that [of 0 b] assms loop_ofD(2) [OF assms(1)] by simp
next
  case False
  let ?m = "length (loop_blocks l)"
  let ?i = "(b - n) div ?m" and ?j = "(b - n) mod ?m"
  have m: "0 < ?m" "distinct (loop_blocks l)"
    using loop_ofD [OF assms(1)] by auto
  have "?i < d"
    using assms(2) False m(1) by (simp add: less_mult_imp_div_less)
  moreover have "?j < ?m"
    using m(1) by simp
  moreover have "b = n + ?i * ?m + ?j"
    using False by simp
  ultimately show ?thesis
    using that [of "Suc ?i" "loop_blocks l ! ?j"] slot_Suc [OF m(2), of ?i d ?j n ua] by simp
qed

lemma unrolled_blocks:
  assumes "unroll_natural_loop bd l d ua = Some bd'" "loop_of (length (blocks bd)) l"
  shows "\<exists>sp. rewrite_copies (ctx (length (blocks bd)) l d ua) [0..<d + 1] (map (\<lambda>bb. (bb, blocks bd ! bb)) (loop_blocks l))
    (blocks bd @ concat (replicate d (map (\<lambda>bb. blocks bd ! bb) (loop_blocks l))) @
       [stop_block Unreachable sp, stop_block Return sp]) = Some (blocks bd')"
proof -
  let ?n = "length (blocks bd)" and ?ts = "map (\<lambda>bb. (bb, blocks bd ! bb)) (loop_blocks l)"
  obtain bs ms where c: "make_copies d ?ts (blocks bd) = (bs, ms)"
    by fastforce
  have bs: "bs = blocks bd @ concat (replicate d (map (\<lambda>bb. blocks bd ! bb) (loop_blocks l)))"
    using make_copies_blocks [of d ?ts "blocks bd"] c by (simp add: comp_def)
  then have len: "length bs = ?n + d * length (loop_blocks l)"
    by (simp add: length_concat sum_list_replicate)
  have "ms = map (\<lambda>i. zip (loop_blocks l) [?n + i * length (loop_blocks l)..<?n + Suc i * length (loop_blocks l)]) [0..<d]"
    using make_copies_length [of d ?ts "blocks bd"] make_copies_map [of _ d ?ts "blocks bd"] c
    by (intro nth_equalityI) (simp_all add: comp_def)
  then have "ctx ?n l d ua = \<lparr> lp = l, maps = [] # ms, unwind_depth = d, fail_bb = length bs,
      silent_fail_bb = length bs + 1, unwinding_assertions = ua \<rparr>"
    by (simp add: ctx_def Let_def len)
  then show ?thesis
    using assms(1) c bs by (auto simp: unroll_natural_loop_def Let_def split: if_splits)
qed

lemma unrolled_layout:
  assumes "unroll_natural_loop bd l d ua = Some bd'" "loop_of (length (blocks bd)) l"
  defines "n \<equiv> length (blocks bd)" and "stop \<equiv> length (blocks bd) + d * length (loop_blocks l)"
  shows "length (blocks bd') = stop + 2"
    and "\<And>b. b < n \<Longrightarrow> \<not> in_loop l ! b \<Longrightarrow> blocks bd' ! b = blocks bd ! b"
    and "\<And>i a. i \<le> d \<Longrightarrow> a \<in> set (loop_blocks l) \<Longrightarrow>
      statements (blocks bd' ! slot (ctx n l d ua) i a) = statements (blocks bd ! a) \<and>
      block_kind (blocks bd' ! slot (ctx n l d ua) i a) = rewrite_kind (block_kind (blocks bd ! a)) i a (ctx n l d ua)"
    and "\<exists>sp. blocks bd' ! stop = stop_block Unreachable sp \<and> blocks bd' ! (stop + 1) = stop_block Return sp"
proof -
  let ?L = "loop_blocks l" and ?u = "ctx n l d ua"
  let ?ts = "map (\<lambda>bb. (bb, blocks bd ! bb)) ?L" and ?copies = "concat (replicate d (map (\<lambda>bb. blocks bd ! bb) ?L))"
  obtain sp where sp: "rewrite_copies ?u [0..<d + 1] ?ts
      (blocks bd @ ?copies @ [stop_block Unreachable sp, stop_block Return sp]) = Some (blocks bd')"
    using unrolled_blocks [OF assms(1,2)] unfolding n_def by blast
  let ?bs = "blocks bd @ ?copies @ [stop_block Unreachable sp, stop_block Return sp]"
  note L = loop_ofD [OF assms(2), folded n_def]
  have len: "length ?copies = d * length ?L"
    by (simp add: length_concat sum_list_replicate)
  have slots: "concat (map (\<lambda>i. map (\<lambda>t. slot ?u i (fst t)) ?ts) [0..<d + 1]) = ?L @ [n..<stop]"
    using slots_all [OF L(1), of n d ua] by (simp add: comp_def n_def stop_def del: upt_Suc)
  have "distinct (?L @ [n..<stop])"
    by (simp add: L(1,2) disjoint_iff)
  then have "distinct (concat (map (\<lambda>i. map (\<lambda>t. slot ?u i (fst t)) ?ts) [0..<d + 1]))"
    by (simp only: slots)
  note spec = rewrite_copies_spec [OF sp this]
  have all: "(\<Union>i \<in> set [0..<d + 1]. (\<lambda>t. slot ?u i (fst t)) ` set ?ts) = set ?L \<union> {n..<stop}"
    using arg_cong [OF slots, of set] by (simp add: image_image Un_commute)
  show "length (blocks bd') = stop + 2"
    using spec len by (simp add: stop_def)
  have other: "blocks bd' ! b = ?bs ! b" if "b \<notin> set ?L" "b < n \<or> stop \<le> b" for b
    using spec all that by auto
  show "blocks bd' ! b = blocks bd ! b" if "b < n" "\<not> in_loop l ! b" for b
    using other [of b] that L(2) by (simp add: nth_append n_def)
  show "\<exists>sp. blocks bd' ! stop = stop_block Unreachable sp \<and> blocks bd' ! (stop + 1) = stop_block Return sp"
    using other [of stop] other [of "stop + 1"] L(2) len by (auto simp: nth_append n_def stop_def)
  show "statements (blocks bd' ! slot ?u i a) = statements (blocks bd ! a) \<and>
      block_kind (blocks bd' ! slot ?u i a) = rewrite_kind (block_kind (blocks bd ! a)) i a ?u"
    if i: "i \<le> d" and a: "a \<in> set ?L" for i a
  proof -
    have "rewritten ?u i (a, blocks bd ! a) ?bs (blocks bd')"
      using spec i a by auto
    moreover have "?bs ! slot ?u i a = blocks bd ! a"
    proof (cases i)
      case 0
      then show ?thesis
        using a L(2) by (simp add: nth_append n_def)
    next
      case (Suc i')
      obtain j where j: "a = ?L ! j" "j < length ?L"
        using a by (auto simp: in_set_conv_nth)
      have lt: "i' * length ?L + j < d * length ?L"
        using Suc i j(2) by (intro row_less) simp_all
      then show ?thesis
        using Suc i j slot_Suc [OF L(1), of i' d j n ua] len nth_concat_replicate [of "i' * length ?L + j" d "map (\<lambda>bb. blocks bd ! bb) ?L"]
        by (simp add: nth_append n_def)
    qed
    ultimately show ?thesis
      by (auto simp: rewritten_def rewrite_terminator_def split: if_splits)
  qed
qed

section \<open>Copies\<close>

text \<open>
  The specification of an unrolled body: \<open>orig\<close> gives the origin of a block, \<open>None\<close> for the
  blocks that end a path.  Corresponding blocks have the same statements and terminator data; a target is a
  copy of the original target, or the block that stands for the unwinding assertion (or for the silent end).
\<close>

definition cut_kind :: "bool \<Rightarrow> 'x TerminatorKind" where
  "cut_kind ua = (if ua then Unreachable else Return)"

definition is_stop :: "'x BasicBlock \<Rightarrow> bool" where
  "is_stop b \<longleftrightarrow> statements b = [] \<and> (block_kind b = Unreachable \<or> block_kind b = Return)"

definition copy_of :: "bool \<Rightarrow> 'x Body \<Rightarrow> 'x Body \<Rightarrow> (nat \<Rightarrow> nat option) \<Rightarrow> bool" where
  "copy_of ua bd bd' orig \<longleftrightarrow> orig 0 = Some 0 \<and>
     (\<forall>b < length (blocks bd').
        (case orig b of
           None \<Rightarrow> is_stop (blocks bd' ! b)
         | Some a \<Rightarrow> a < length (blocks bd) \<and> statements (blocks bd' ! b) = statements (blocks bd ! a) \<and>
             shape (block_kind (blocks bd' ! b)) = shape (block_kind (blocks bd ! a)) \<and>
             (\<forall>i < length (targets_at bd a). targets_at bd' b ! i < length (blocks bd') \<and>
                (orig (targets_at bd' b ! i) = Some (targets_at bd a ! i) \<or>
                 orig (targets_at bd' b ! i) = None \<and> block_kind (blocks bd' ! (targets_at bd' b ! i)) = cut_kind ua))))"

lemma copy_ofD:
  assumes "copy_of ua bd bd' orig" "b < length (blocks bd')" "orig b = Some a"
  shows "a < length (blocks bd)" "statements (blocks bd' ! b) = statements (blocks bd ! a)"
    "shape (block_kind (blocks bd' ! b)) = shape (block_kind (blocks bd ! a))"
    "length (targets_at bd' b) = length (targets_at bd a)"
    "\<And>i. i < length (targets_at bd a) \<Longrightarrow> targets_at bd' b ! i < length (blocks bd') \<and>
       (orig (targets_at bd' b ! i) = Some (targets_at bd a ! i) \<or>
        orig (targets_at bd' b ! i) = None \<and> block_kind (blocks bd' ! (targets_at bd' b ! i)) = cut_kind ua)"
proof -
  have "case orig b of
      None \<Rightarrow> is_stop (blocks bd' ! b)
    | Some a \<Rightarrow> a < length (blocks bd) \<and> statements (blocks bd' ! b) = statements (blocks bd ! a) \<and>
      shape (block_kind (blocks bd' ! b)) = shape (block_kind (blocks bd ! a)) \<and>
      (\<forall>i < length (targets_at bd a). targets_at bd' b ! i < length (blocks bd') \<and>
         (orig (targets_at bd' b ! i) = Some (targets_at bd a ! i) \<or>
          orig (targets_at bd' b ! i) = None \<and> block_kind (blocks bd' ! (targets_at bd' b ! i)) = cut_kind ua))"
    using assms(1,2) unfolding copy_of_def by blast
  note c = this [unfolded assms(3) option.case]
  show "a < length (blocks bd)" "statements (blocks bd' ! b) = statements (blocks bd ! a)"
    by (rule conjunct1 [OF c] conjunct1 [OF conjunct2 [OF c]])+
  show sh: "shape (block_kind (blocks bd' ! b)) = shape (block_kind (blocks bd ! a))"
    by (rule conjunct1 [OF conjunct2 [OF conjunct2 [OF c]]])
  show "length (targets_at bd' b) = length (targets_at bd a)"
    unfolding targets_at_def by (rule shape_targets [OF sh])
  show "targets_at bd' b ! i < length (blocks bd') \<and>
       (orig (targets_at bd' b ! i) = Some (targets_at bd a ! i) \<or>
        orig (targets_at bd' b ! i) = None \<and> block_kind (blocks bd' ! (targets_at bd' b ! i)) = cut_kind ua)"
    if "i < length (targets_at bd a)" for i
    using c that by blast
qed

lemma copy_of_stop: "copy_of ua bd bd' orig \<Longrightarrow> b < length (blocks bd') \<Longrightarrow> orig b = None \<Longrightarrow> is_stop (blocks bd' ! b)"
  by (auto simp: copy_of_def)

definition origin :: "nat \<Rightarrow> NaturalLoop \<Rightarrow> nat \<Rightarrow> nat \<Rightarrow> nat option" where
  "origin n l d b =
     (if b < n then Some b
      else if b < n + d * length (loop_blocks l) then Some (loop_blocks l ! ((b - n) mod length (loop_blocks l)))
      else None)"

lemma origin_slot:
  assumes "loop_of n l" "i \<le> d" "a \<in> set (loop_blocks l)"
  shows "origin n l d (slot (ctx n l d ua) i a) = Some a"
    and "slot (ctx n l d ua) i a < n + d * length (loop_blocks l)"
proof -
  have "origin n l d (slot (ctx n l d ua) i a) = Some a \<and> slot (ctx n l d ua) i a < n + d * length (loop_blocks l)"
  proof (cases i)
    case 0
    then show ?thesis
      using assms(3) loop_ofD(2) [OF assms(1)] by (simp add: origin_def)
  next
    case (Suc i')
    obtain j where j: "a = loop_blocks l ! j" "j < length (loop_blocks l)"
      using assms(3) by (auto simp: in_set_conv_nth)
    have "i' * length (loop_blocks l) + j < d * length (loop_blocks l)"
      using Suc assms(2) j(2) by (intro row_less) simp_all
    then show ?thesis
      using Suc assms(2) j slot_Suc [OF loop_ofD(1) [OF assms(1)], of i' d j n ua] by (simp add: origin_def)
  qed
  then show "origin n l d (slot (ctx n l d ua) i a) = Some a" "slot (ctx n l d ua) i a < n + d * length (loop_blocks l)"
    by auto
qed

text \<open>A remapped target is in the same copy, the next one, outside the loop, or cut.\<close>

lemma remap_cases:
  assumes "loop_of n l" "t < n" "i \<le> d"
  obtains (outside) "\<not> in_loop l ! t" "remap_target t i a (ctx n l d ua) = t"
    | (same) "in_loop l ! t" "t \<noteq> header l" "i = d \<longrightarrow> a \<noteq> header l"
        "remap_target t i a (ctx n l d ua) = slot (ctx n l d ua) i t"
    | (again) "t = header l" "i < d" "remap_target t i a (ctx n l d ua) = slot (ctx n l d ua) (Suc i) t"
    | (cut) "in_loop l ! t" "i = d" "a = header l \<or> t = header l"
        "remap_target t i a (ctx n l d ua) = cut_bb (ctx n l d ua)"
proof -
  consider "\<not> in_loop l ! t" | "in_loop l ! t" "i = d" "a = header l" | "in_loop l ! t" "i = d" "t = header l"
    | "t = header l" "i < d" | "in_loop l ! t" "t \<noteq> header l" "i = d \<longrightarrow> a \<noteq> header l"
    using assms(3) by linarith
  then show ?thesis
  proof cases
    case 1
    then show ?thesis
      by (intro outside) (simp_all add: remap_target_def)
  next
    case 2
    then show ?thesis
      by (intro cut) (simp_all add: remap_target_def)
  next
    case 3
    then show ?thesis
      by (intro cut) (simp_all add: remap_target_def)
  next
    case 4
    then show ?thesis
      using assms(1) by (intro again) (simp_all add: remap_target_def loop_of_def)
  next
    case 5
    then show ?thesis
      by (intro same) (auto simp: remap_target_def)
  qed
qed

lemma remap_origin:
  assumes "loop_of n l" "t < n" "i \<le> d"
  shows "remap_target t i a (ctx n l d ua) < n + d * length (loop_blocks l) \<and>
      origin n l d (remap_target t i a (ctx n l d ua)) = Some t \<or>
    remap_target t i a (ctx n l d ua) = cut_bb (ctx n l d ua)"
  using assms
proof (cases rule: remap_cases [where a = a and ua = ua])
  case outside
  then show ?thesis
    using assms(2) by (simp add: origin_def)
next
  case same
  then show ?thesis
    using origin_slot [OF assms(1,3), of t ua] assms(2) loop_ofD(2) [OF assms(1)] by simp
next
  case again
  then have "t \<in> set (loop_blocks l)"
    using assms(1) loop_ofD(2) [OF assms(1)] by (simp add: loop_of_def)
  then show ?thesis
    using again origin_slot [OF assms(1), of "Suc i" d t ua] by simp
qed simp

theorem unroll_natural_loop_copy:
  assumes "unroll_natural_loop bd l d ua = Some bd'" "loop_of (length (blocks bd)) l" "wf_body bd"
  shows "copy_of ua bd bd' (origin (length (blocks bd)) l d)"
proof -
  let ?n = "length (blocks bd)" and ?stop = "length (blocks bd) + d * length (loop_blocks l)"
  let ?u = "ctx ?n l d ua" and ?o = "origin ?n l d"
  note lay = unrolled_layout [OF assms(1,2)]
  obtain sp where sp: "blocks bd' ! ?stop = stop_block Unreachable sp" "blocks bd' ! (?stop + 1) = stop_block Return sp"
    using lay(4) by blast
  have cut: "cut_bb ?u < length (blocks bd')" "?o (cut_bb ?u) = None" "block_kind (blocks bd' ! cut_bb ?u) = cut_kind ua"
    using sp by (auto simp: cut_bb_def lay(1) origin_def stop_block_def cut_kind_def)
  have ok: "t' < length (blocks bd') \<and> (?o t' = Some t \<or> ?o t' = None \<and> block_kind (blocks bd' ! t') = cut_kind ua)"
    if "t' < ?stop \<and> ?o t' = Some t \<or> t' = cut_bb ?u" for t t'
    using that cut lay(1) by auto
  show ?thesis
    unfolding copy_of_def
  proof (intro conjI allI impI)
    show "?o 0 = Some 0"
      using wf_body_entry [OF assms(3)] by (simp add: origin_def)
    fix b assume b: "b < length (blocks bd')"
    consider (old) "b < ?n" "\<not> in_loop l ! b" | (copy) "b < ?stop" "b < ?n \<Longrightarrow> in_loop l ! b" | (stop) "?stop \<le> b"
      by linarith
    then show "case ?o b of
           None \<Rightarrow> is_stop (blocks bd' ! b)
         | Some a \<Rightarrow> a < ?n \<and> statements (blocks bd' ! b) = statements (blocks bd ! a) \<and>
             shape (block_kind (blocks bd' ! b)) = shape (block_kind (blocks bd ! a)) \<and>
             (\<forall>i < length (targets_at bd a). targets_at bd' b ! i < length (blocks bd') \<and>
                (?o (targets_at bd' b ! i) = Some (targets_at bd a ! i) \<or>
                 ?o (targets_at bd' b ! i) = None \<and> block_kind (blocks bd' ! (targets_at bd' b ! i)) = cut_kind ua))"
    proof cases
      case old
      then show ?thesis
        using lay(1) lay(2) [OF old] wf_bodyD [OF assms(3) old(1), OF nth_mem]
        by (simp add: origin_def targets_at_def trans_less_add1 less_SucI)
    next
      case copy
      obtain i a where ia: "i \<le> d" "a \<in> set (loop_blocks l)" "b = slot ?u i a"
        using slot_cases [OF assms(2) copy] by metis
      have a: "a < ?n"
        using ia(2) loop_ofD(2) [OF assms(2)] by auto
      have ob: "?o b = Some a"
        using origin_slot [OF assms(2) ia(1,2)] ia(3) by simp
      have k: "statements (blocks bd' ! b) = statements (blocks bd ! a)"
          "block_kind (blocks bd' ! b) = rewrite_kind (block_kind (blocks bd ! a)) i a ?u"
        using lay(3) [OF ia(1,2)] ia(3) by auto
      have "targets_at bd' b ! j < length (blocks bd') \<and>
          (?o (targets_at bd' b ! j) = Some (targets_at bd a ! j) \<or>
           ?o (targets_at bd' b ! j) = None \<and> block_kind (blocks bd' ! (targets_at bd' b ! j)) = cut_kind ua)"
        if j: "j < length (targets_at bd a)" for j
      proof (rule ok)
        let ?t = "targets_at bd a ! j"
        have t: "?t < ?n"
          using j wf_bodyD [OF assms(3) a] by simp
        have "targets_at bd' b ! j = remap_target ?t i a ?u \<or> targets_at bd' b ! j = ?t"
          using j by (simp add: targets_at_def k(2) targets_rewrite)
        then show "targets_at bd' b ! j < ?stop \<and> ?o (targets_at bd' b ! j) = Some ?t \<or> targets_at bd' b ! j = cut_bb ?u"
          using remap_origin [OF assms(2) t ia(1), of a ua] t by (auto simp: origin_def)
      qed
      then show ?thesis
        using ob k a by (simp add: shape_rewrite)
    next
      case stop
      then have "b = ?stop \<or> b = ?stop + 1"
        using b lay(1) by linarith
      then show ?thesis
        using sp stop by (auto simp: origin_def is_stop_def stop_block_def)
    qed
  qed
qed

end
