(* ===== verification/Unrolling.thy ===== *)
theory Unrolling
  imports Unroll_Sim
begin

text \<open>
  The correctness of \<open>unroll_cfg_loops\<close>: composition of copies over the iterations, the correspondence of
  runs, absence of cycles and the size bound of the result, and that the depth is enough for a loop that runs no
  more often than the bound.
\<close>

section \<open>Copies compose\<close>

lemma copy_of_refl: "wf_body bd \<Longrightarrow> copy_of ua bd bd Some"
  using wf_bodyD [OF _ _ nth_mem, of bd] by (auto simp: copy_of_def)

lemma targets_stop: "is_stop (blocks bd ! b) \<Longrightarrow> targets_at bd b = []"
  by (auto simp: is_stop_def targets_at_def)

lemma stop_of_shape:
  assumes "is_stop x" "statements y = statements x" "shape (block_kind y) = shape (block_kind x)"
  shows "is_stop y" and "block_kind y = block_kind x"
  using assms by (auto simp: is_stop_def shape_stop)

lemma copy_of_trans:
  assumes f: "copy_of ua bd bd1 f" and g: "copy_of ua bd1 bd2 g"
  shows "copy_of ua bd bd2 (\<lambda>b. Option.bind (g b) f)"
  unfolding copy_of_def
proof (intro conjI allI impI)
  show "Option.bind (g 0) f = Some 0"
    using f g by (simp add: copy_of_def)
  fix b assume b: "b < length (blocks bd2)"
  show "case Option.bind (g b) f of
      None \<Rightarrow> is_stop (blocks bd2 ! b)
    | Some a \<Rightarrow> a < length (blocks bd) \<and> statements (blocks bd2 ! b) = statements (blocks bd ! a) \<and>
        shape (block_kind (blocks bd2 ! b)) = shape (block_kind (blocks bd ! a)) \<and>
        (\<forall>i < length (targets_at bd a). targets_at bd2 b ! i < length (blocks bd2) \<and>
           (Option.bind (g (targets_at bd2 b ! i)) f = Some (targets_at bd a ! i) \<or>
            Option.bind (g (targets_at bd2 b ! i)) f = None \<and> block_kind (blocks bd2 ! (targets_at bd2 b ! i)) = cut_kind ua))"
  proof (cases "g b")
    case None
    then show ?thesis
      using copy_of_stop [OF g b] by simp
  next
    case (Some b1)
    note g1 = copy_ofD [OF g b Some]
    show ?thesis
    proof (cases "f b1")
      case None
      then show ?thesis
        using Some copy_of_stop [OF f g1(1) None] stop_of_shape(1) [OF _ g1(2,3)] by simp
    next
      case (Some a)
      note f1 = copy_ofD [OF f g1(1) Some]
      have "targets_at bd2 b ! i < length (blocks bd2) \<and>
          (Option.bind (g (targets_at bd2 b ! i)) f = Some (targets_at bd a ! i) \<or>
           Option.bind (g (targets_at bd2 b ! i)) f = None \<and> block_kind (blocks bd2 ! (targets_at bd2 b ! i)) = cut_kind ua)"
        if i: "i < length (targets_at bd a)" for i
      proof -
        let ?t2 = "targets_at bd2 b ! i" and ?t1 = "targets_at bd1 b1 ! i"
        have g2: "?t2 < length (blocks bd2) \<and> (g ?t2 = Some ?t1 \<or> g ?t2 = None \<and> block_kind (blocks bd2 ! ?t2) = cut_kind ua)"
          using g1(5) i f1(4) by simp
        have f2: "?t1 < length (blocks bd1) \<and>
            (f ?t1 = Some (targets_at bd a ! i) \<or> f ?t1 = None \<and> block_kind (blocks bd1 ! ?t1) = cut_kind ua)"
          using f1(5) [OF i] .
        show ?thesis
        proof (cases "g ?t2")
          case (Some t)
          with g2 have t: "g ?t2 = Some ?t1"
            by simp
          note h = copy_ofD [OF g _ t]
          have "block_kind (blocks bd2 ! ?t2) = cut_kind ua" if "f ?t1 = None"
            using stop_of_shape(2) [OF copy_of_stop [OF f _ that] h(2,3)] g2 f2 that by simp
          then show ?thesis
            using g2 f2 t by auto
        qed (use g2 in simp)
      qed
      then show ?thesis
        using \<open>g b = Some b1\<close> Some f1 g1 by simp
    qed
  qed
qed

lemma copy_of_wf:
  assumes "copy_of ua bd bd' orig" "blocks bd' \<noteq> []"
  shows "wf_body bd'"
  unfolding wf_body_def
proof (intro conjI allI impI ballI assms(2))
  fix b t assume b: "b < length (blocks bd')" and t: "t \<in> set (targets_at bd' b)"
  show "t < length (blocks bd')"
  proof (cases "orig b")
    case None
    then show ?thesis
      using t targets_stop copy_of_stop [OF assms(1) b] by fastforce
  next
    case (Some a)
    then show ?thesis
      using t copy_ofD(4,5) [OF assms(1) b Some] by (auto simp: in_set_conv_nth)
  qed
qed

section \<open>Runs of a copy\<close>

definition is_cut :: "bool \<Rightarrow> 'x BasicBlock \<Rightarrow> bool" where
  "is_cut ua b \<longleftrightarrow> statements b = [] \<and> block_kind b = cut_kind ua"

lemma stop_is_cut: "is_stop b \<Longrightarrow> block_kind b = cut_kind ua \<Longrightarrow> is_cut ua b"
  by (simp add: is_stop_def is_cut_def)

lemma step_back:
  assumes c: "copy_of ua bd bd' orig" and st: "step sem bd' (b, s) (b', s')" and b: "orig b = Some a"
  shows "\<exists>a'. step sem bd (a, s) (a', s') \<and> b' < length (blocks bd') \<and>
    (orig b' = Some a' \<or> orig b' = None \<and> is_cut ua (blocks bd' ! b'))"
proof -
  obtain i where i: "b < length (blocks bd')" "i < length (targets_at bd' b)" "b' = targets_at bd' b ! i"
      "(i, s') \<in> sem (statements (blocks bd' ! b)) (shape (block_kind (blocks bd' ! b))) s"
    using st by (auto simp: step_simps)
  note d = copy_ofD [OF c i(1) b]
  have "step sem bd (a, s) (targets_at bd a ! i, s')"
    using i d by (intro take_target) auto
  moreover have "b' < length (blocks bd') \<and> (orig b' = Some (targets_at bd a ! i) \<or> orig b' = None \<and> is_cut ua (blocks bd' ! b'))"
    using d(4) d(5) [of i] i stop_is_cut copy_of_stop [OF c, of b'] by auto
  ultimately show ?thesis
    by blast
qed

lemma step_forward:
  assumes c: "copy_of ua bd bd' orig" and st: "step sem bd (a, s) (a', s')" and b: "b < length (blocks bd')" "orig b = Some a"
  shows "\<exists>b'. step sem bd' (b, s) (b', s') \<and> b' < length (blocks bd') \<and>
    (orig b' = Some a' \<or> orig b' = None \<and> is_cut ua (blocks bd' ! b'))"
proof -
  obtain i where i: "a < length (blocks bd)" "i < length (targets_at bd a)" "a' = targets_at bd a ! i"
      "(i, s') \<in> sem (statements (blocks bd ! a)) (shape (block_kind (blocks bd ! a))) s"
    using st by (auto simp: step_simps)
  note d = copy_ofD [OF c b]
  let ?b' = "targets_at bd' b ! i"
  have "step sem bd' (b, s) (?b', s')"
    using i d b by (intro take_target) auto
  moreover have "?b' < length (blocks bd') \<and> (orig ?b' = Some a' \<or> orig ?b' = None \<and> is_cut ua (blocks bd' ! ?b'))"
    using d(5) [OF i(2)] i(3) stop_is_cut copy_of_stop [OF c, of ?b'] by auto
  ultimately show ?thesis
    by blast
qed

lemma cut_final: "is_cut ua (blocks bd ! b) \<Longrightarrow> \<not> step sem bd (b, s) d"
  by (cases d) (auto simp: step_simps is_cut_def cut_kind_def targets_at_def split: if_splits)

lemma runs_back:
  assumes c: "copy_of ua bd bd' orig" and r: "runs sem bd' (b, s) (b', s')"
    and b: "b < length (blocks bd')" "orig b = Some a"
  shows "\<exists>a'. runs sem bd (a, s) (a', s') \<and> b' < length (blocks bd') \<and>
    (orig b' = Some a' \<or> orig b' = None \<and> is_cut ua (blocks bd' ! b'))"
  using r
proof (induction "(b', s')" arbitrary: b' s' rule: rtranclp_induct)
  case base
  then show ?case
    using b by auto
next
  case (step y)
  obtain b1 s1 where y: "y = (b1, s1)"
    by fastforce
  from step(3) [OF y] obtain a1 where a1: "runs sem bd (a, s) (a1, s1)"
      "orig b1 = Some a1 \<or> orig b1 = None \<and> is_cut ua (blocks bd' ! b1)"
    by blast
  with cut_final step(2) y have "orig b1 = Some a1"
    by fastforce
  from step_back [OF c _ this, of sem s1 b' s'] step(2) y a1(1) show ?case
    by (metis rtranclp.rtrancl_into_rtrancl)
qed

lemma runs_forward:
  assumes c: "copy_of ua bd bd' orig" and r: "runs sem bd (a, s) (a', s')"
    and b: "b < length (blocks bd')" "orig b = Some a"
  shows "(\<exists>b' < length (blocks bd'). runs sem bd' (b, s) (b', s') \<and> orig b' = Some a') \<or>
    (\<exists>b' a1 s1. runs sem bd' (b, s) (b', s1) \<and> is_cut ua (blocks bd' ! b') \<and>
       runs sem bd (a, s) (a1, s1) \<and> runs sem bd (a1, s1) (a', s'))"
  using r
proof (induction "(a', s')" arbitrary: a' s' rule: rtranclp_induct)
  case base
  then show ?case
    using b by auto
next
  case (step y)
  obtain a1 s1 where y: "y = (a1, s1)"
    by fastforce
  have last: "runs sem bd (a, s) (a', s')"
    using step(1,2) by (rule rtranclp.rtrancl_into_rtrancl)
  from step(3) [OF y] show ?case
  proof (elim disjE exE conjE)
    fix b1 assume b1: "b1 < length (blocks bd')" "runs sem bd' (b, s) (b1, s1)" "orig b1 = Some a1"
    from step_forward [OF c step(2) [unfolded y] b1(1,3)] obtain b' where
      b': "step sem bd' (b1, s1) (b', s')" "b' < length (blocks bd')"
        "orig b' = Some a' \<or> orig b' = None \<and> is_cut ua (blocks bd' ! b')"
      by blast
    have "runs sem bd' (b, s) (b', s')"
      using b1(2) b'(1) by (rule rtranclp.rtrancl_into_rtrancl)
    with b' last show ?thesis
      by blast
  next
    fix b' a2 s2
    assume "runs sem bd' (b, s) (b', s2)" "is_cut ua (blocks bd' ! b')" "runs sem bd (a, s) (a2, s2)"
      "runs sem bd (a2, s2) (a1, s1)"
    with step(2) y show ?thesis
      by (metis rtranclp.rtrancl_into_rtrancl)
  qed
qed

section \<open>The chosen loop\<close>

lemma mark_latches_keeps:
  "mark_latches ls inl stack = Some (inl', stack') \<Longrightarrow> length inl' = length inl \<and> (\<forall>b < length inl. inl ! b \<longrightarrow> inl' ! b)"
proof (induction ls inl stack rule: mark_latches.induct)
  case (2 l ls inl stack)
  then have "l < length inl" "mark_latches ls (inl[l := True]) (l # stack) = Some (inl', stack')"
    by (auto simp: upd_def split: if_splits)
  with 2(1) [of "inl[l := True]"] show ?case
    by (auto simp: upd_def nth_list_update)
qed simp

lemma mark_preds_keeps:
  "mark_preds reach h ps inl stack = Some (inl', stack') \<Longrightarrow>
   length inl' = length inl \<and> (\<forall>b < length inl. inl ! b \<longrightarrow> inl' ! b)"
proof (induction reach h ps inl stack rule: mark_preds.induct)
  case (2 reach h p ps inl stack)
  then show ?case
    by (fastforce simp: nth_list_update split: if_splits)
qed simp

lemma loop_walk_keeps:
  "loop_walk c h inl stack = Some inl' \<Longrightarrow> length inl' = length inl \<and> (\<forall>b < length inl. inl ! b \<longrightarrow> inl' ! b)"
proof (induction c h inl stack rule: loop_walk.induct)
  case (2 c h inl node stack)
  then obtain inl1 stack1 where "mark_preds (reachable c) h (predecessors c ! node) inl stack = Some (inl1, stack1)"
      "loop_walk c h inl1 stack1 = Some inl'" "\<not> length (predecessors c) \<le> node"
    by (auto split: if_splits option.splits)
  with 2(1) mark_preds_keeps show ?case
    by fastforce
qed simp

lemma natural_loop_of:
  assumes "natural_loop c h ls = Some l"
  shows "loop_of (length (successors c)) l"
proof -
  let ?n = "length (successors c)" and ?inl = "(replicate (length (successors c)) False)[h := True]"
  obtain inl1 stack inl2 where w: "h < ?n" "mark_latches ls ?inl [] = Some (inl1, stack)" "loop_walk c h inl1 stack = Some inl2"
      "l = \<lparr> header = h, latches = ls, in_loop = inl2, loop_blocks = filter (\<lambda>bb. inl2 ! bb) [0..<?n] \<rparr>"
    using assms by (auto simp: natural_loop_def upd_def bind_eq_Some_conv split: if_splits)
  then show ?thesis
    using mark_latches_keeps [OF w(2)] loop_walk_keeps [OF w(3)] by (auto simp: loop_of_def)
qed

lemma best_loop_of:
  assumes "best_loop c cands best err = Some (Inr l)" "\<And>b. best = Some b \<Longrightarrow> loop_of (length (successors c)) b"
  shows "loop_of (length (successors c)) l"
  using assms
proof (induction c cands best err rule: best_loop.induct)
  case (2 c h ls cands best err)
  obtain l1 res where l1: "natural_loop c h (sort_dedup ls) = Some l1" "check_single_entry c l1 = Some res"
    using 2(3) by (auto simp: bind_eq_Some_conv)
  show ?case
  proof (cases res)
    case (Inl e)
    then show ?thesis
      using 2(1) [OF l1(1,2) Inl] 2(3,4) l1 by simp
  next
    case (Inr x)
    have "loop_of (length (successors c)) b"
      if "(case best of None \<Rightarrow> Some l1 | Some b \<Rightarrow> if length (loop_blocks l1) < length (loop_blocks b) then Some l1 else best) = Some b" for b
      using that natural_loop_of [OF l1(1)] 2(4) by (auto split: option.splits if_splits)
    with 2(2) [OF l1(1,2) Inr] 2(3) l1 Inr show ?thesis
      by simp
  qed
qed (auto split: option.splits)

lemma case_Ok [simp]:
  "(case x of Inl e \<Rightarrow> Some (Inl e) | Inr y \<Rightarrow> f y) = Some (Inr z) \<longleftrightarrow> (\<exists>y. x = Inr y \<and> f y = Some (Inr z))"
  by (cases x) auto

lemma case_sum_Ok [simp]: "case_sum Inl f x = Inr z \<longleftrightarrow> (\<exists>y. x = Inr y \<and> f y = Inr z)"
  by (cases x) auto

lemma choose_loop_of: "choose_loop c = Some (Inr l) \<Longrightarrow> loop_of (length (successors c)) l"
  by (auto simp: choose_loop_def bind_eq_Some_conv split: if_splits dest!: best_loop_of)

lemma from_body_length: "from_body bd = Some c \<Longrightarrow> length (successors c) = length (blocks bd)"
  by (auto simp: from_body_def Let_def split: option.splits)

section \<open>The whole transformation\<close>

lemma from_body_acyclic:
  assumes "wf_body bd" "from_body bd = Some c" "is_acyclic c"
  shows "loop_free bd"
  using from_body_spec [OF assms(1)] assms(2,3) by auto

lemma unroll_from_Ok:
  assumes "unroll_from k bd depth ua = Some (Inr bd')" "wf_body bd"
  shows "loop_free bd' \<and> length (blocks bd') \<le> MAX_TOTAL_BLOCKS \<and> (\<exists>orig. copy_of ua bd bd' orig) \<and> wf_body bd'"
  using assms
proof (induction k bd depth ua rule: unroll_from.induct)
  case (2 k bd depth ua)
  obtain c where c: "from_body bd = Some c" "length (blocks bd) \<le> MAX_TOTAL_BLOCKS"
    using 2(2) by (auto simp: bind_eq_Some_conv split: if_splits)
  show ?case
  proof (cases "is_acyclic c")
    case True
    then have "bd' = bd"
      using 2(2) c by simp
    then show ?thesis
      using from_body_acyclic [OF 2(3) c(1) True] c(2) copy_of_refl 2(3) by auto
  next
    case False
    then obtain l bd1 where l: "choose_loop c = Some (Inr l)"
        "unroll_natural_loop bd l (fst (compute_effective_unwind_depth depth (length (loop_blocks l)))) ua = Some bd1"
        "k \<noteq> 0" "unroll_from k bd1 depth ua = Some (Inr bd')"
      using 2(2) c by (auto simp: bind_eq_Some_conv split: if_splits)
    have of: "loop_of (length (blocks bd)) l"
      using choose_loop_of [OF l(1)] from_body_length [OF c(1)] by simp
    note copy = unroll_natural_loop_copy [OF l(2) of 2(3)]
    have "wf_body bd1"
      using copy_of_wf [OF copy] unrolled_layout(1) [OF l(2) of] by (metis add_2_eq_Suc' length_0_conv nat.distinct(1))
    from 2(1) [OF _ c(1) False l(1) refl l(2,3,4) this] c(2) copy_of_trans [OF copy] show ?thesis
      by auto
  qed
qed simp

text \<open>C6: A successful unrolling keeps its promise: no cycle is reachable in the returned body, all of its targets
  name blocks, and it has at most 100000 blocks.\<close>

theorem unrolled_body_loop_free:
  assumes "wf_body bd" "unroll_cfg_loops bd depth ua = Some (Inr bd')"
  shows "loop_free bd' \<and> wf_body bd' \<and> length (blocks bd') \<le> MAX_TOTAL_BLOCKS"
  using unroll_from_Ok [of MAX_ITERATIONS bd depth ua bd'] assms by (simp add: unroll_cfg_loops_def)

text \<open>C5: Unrolling invents no behaviour and hides none silently, for every semantics of blocks.  There is an
  assignment of origins to blocks, with equal statements, such that a run of the unrolled body is a run of the
  original up to its last block, which is a copy or the block that cuts the loop; and a run of the original is
  matched by a run to a copy of its last block with the same state, or passes a state in which the unrolled body
  stands at a cut.\<close>

theorem unrolling_refines:
  fixes sem :: "('x, 's) block_sem"
  assumes "wf_body bd" "unroll_cfg_loops bd depth ua = Some (Inr bd')"
  shows "\<exists>orig. orig 0 = Some 0 \<and>
    (\<forall>b a. b < length (blocks bd') \<and> orig b = Some a \<longrightarrow> statements (blocks bd' ! b) = statements (blocks bd ! a)) \<and>
    (\<forall>s b s'. runs sem bd' (0, s) (b, s') \<longrightarrow>
       (\<exists>a. runs sem bd (0, s) (a, s') \<and> (orig b = Some a \<or> orig b = None \<and> is_cut ua (blocks bd' ! b)))) \<and>
    (\<forall>s a s'. runs sem bd (0, s) (a, s') \<longrightarrow>
       (\<exists>b. runs sem bd' (0, s) (b, s') \<and> orig b = Some a) \<or>
       (\<exists>b a1 s1. runs sem bd' (0, s) (b, s1) \<and> is_cut ua (blocks bd' ! b) \<and>
          runs sem bd (0, s) (a1, s1) \<and> runs sem bd (a1, s1) (a, s')))"
proof -
  obtain orig where c: "copy_of ua bd bd' orig" and wf: "wf_body bd'"
    using unroll_from_Ok [of MAX_ITERATIONS bd depth ua bd'] assms by (auto simp: unroll_cfg_loops_def)
  have start: "0 < length (blocks bd')" "orig 0 = Some 0"
    using wf_body_entry [OF wf] c by (auto simp: copy_of_def)
  show ?thesis
  proof (intro exI [of _ orig] conjI allI impI)
    show "orig 0 = Some 0"
      by (rule start)
    show "statements (blocks bd' ! b) = statements (blocks bd ! a)" if "b < length (blocks bd') \<and> orig b = Some a" for b a
      using copy_ofD(2) [OF c] that by blast
    show "\<exists>a. runs sem bd (0, s) (a, s') \<and> (orig b = Some a \<or> orig b = None \<and> is_cut ua (blocks bd' ! b))"
      if "runs sem bd' (0, s) (b, s')" for s b s'
      using runs_back [OF c that start] by blast
    show "(\<exists>b. runs sem bd' (0, s) (b, s') \<and> orig b = Some a) \<or>
       (\<exists>b a1 s1. runs sem bd' (0, s) (b, s1) \<and> is_cut ua (blocks bd' ! b) \<and>
          runs sem bd (0, s) (a1, s1) \<and> runs sem bd (a1, s1) (a, s'))"
      if "runs sem bd (0, s) (a, s')" for s a s'
      using runs_forward [OF c that start] by blast
  qed
qed

section \<open>The depth\<close>

text \<open>The depth actually used is at least one and at most the requested one; it is reduced exactly when the
  copies would exceed the limit of 10000 blocks, stays within that limit unless one copy alone exceeds it, and a
  reduced depth is the largest that does.\<close>

theorem effective_depth_bounds:
  assumes "compute_effective_unwind_depth requested n = (e, reduced)" "1 \<le> requested"
  shows "1 \<le> e \<and> e \<le> requested \<and> e * n \<le> max MAX_EXPANDED_BLOCKS n \<and>
    (reduced \<longleftrightarrow> MAX_EXPANDED_BLOCKS < requested * n) \<and> (\<not> reduced \<longrightarrow> e = requested) \<and>
    (reduced \<longrightarrow> MAX_EXPANDED_BLOCKS < (e + 1) * n)"
proof -
  let ?M = "MAX_EXPANDED_BLOCKS"
  have sat: "?M < saturating_mul requested n \<longleftrightarrow> ?M < requested * n"
    by (simp add: saturating_mul_def MAX_EXPANDED_BLOCKS_def)
  show ?thesis
  proof (cases "?M < requested * n")
    case False
    then show ?thesis
      using assms sat by (auto simp: compute_effective_unwind_depth_def le_max_iff_disj)
  next
    case True
    then have n: "0 < n"
      by (cases n) auto
    then have e: "e = max (?M div n) 1" "reduced"
      using assms(1) True sat by (simp_all add: compute_effective_unwind_depth_def max_absorb1)
    have le: "?M div n \<le> requested"
      using True n by (metis div_le_mono div_mult_self_is_m less_imp_le)
    have up: "?M < (?M div n + 1) * n"
      using n by (metis Suc_eq_plus1 dividend_less_div_times mult_Suc add.commute)
    have low: "?M div n * n \<le> ?M"
      by simp
    have "(?M div n + 1) * n \<le> (e + 1) * n"
      using e(1) by (intro mult_le_mono1) simp
    then have "?M < (e + 1) * n"
      using up by linarith
    moreover have "1 \<le> e" "e \<le> requested"
      using e(1) le assms(2) by auto
    moreover have "e * n \<le> max ?M n"
      using e(1) low by (cases "?M div n \<le> 1") (simp_all add: max_absorb1 max_absorb2 le_max_iff_disj)
    ultimately show ?thesis
      using True e(2) by simp
  qed
qed

theorem effective_depth_bounds_witness:
  "\<exists>e reduced. compute_effective_unwind_depth 3000 7 = (e, reduced) \<and> e = 1428 \<and> reduced \<and>
     1 \<le> e \<and> e \<le> 3000 \<and> e * 7 \<le> max MAX_EXPANDED_BLOCKS 7"
proof -
  have "compute_effective_unwind_depth 3000 7 = (1428, True)"
    by (simp add: compute_effective_unwind_depth_def saturating_mul_def MAX_EXPANDED_BLOCKS_def)
  from effective_depth_bounds [OF this] show ?thesis
    using \<open>compute_effective_unwind_depth 3000 7 = (1428, True)\<close> by (intro exI [of _ 1428] exI [of _ True]) simp
qed

text \<open>
  A path through the blocks fits the depth when every stay in the loop starts no step inside the loop from or to
  the header after as many returns to the header as there are copies; the counter is the number of returns.
\<close>

fun is_path :: "'x Body \<Rightarrow> nat list \<Rightarrow> bool" where
  "is_path bd (a # t # p) \<longleftrightarrow> (a, t) \<in> edges bd \<and> is_path bd (t # p)"
| "is_path bd p \<longleftrightarrow> True"

fun fits :: "NaturalLoop \<Rightarrow> nat \<Rightarrow> nat \<Rightarrow> nat list \<Rightarrow> bool" where
  "fits l d i (a # t # p) \<longleftrightarrow>
     (if in_loop l ! a \<and> in_loop l ! t
      then (i < d \<or> a \<noteq> header l \<and> t \<noteq> header l) \<and> fits l d (if t = header l then Suc i else i) (t # p)
      else fits l d 0 (t # p))"
| "fits l d i p \<longleftrightarrow> True"

lemma edge_to: "(a, t) \<in> edges bd \<longleftrightarrow> a < length (blocks bd) \<and> (\<exists>j < length (targets_at bd a). t = targets_at bd a ! j)"
  by (auto simp: edges_def in_set_conv_nth)

lemma origin_at:
  assumes "loop_of n l" "a < n" "j \<le> d"
  shows "origin n l d (if in_loop l ! a then slot (ctx n l d ua) j a else a) = Some a"
    and "(if in_loop l ! a then slot (ctx n l d ua) j a else a) < n + d * length (loop_blocks l)"
proof -
  have "(if in_loop l ! a then slot (ctx n l d ua) j a else a) < n + d * length (loop_blocks l) \<and>
      origin n l d (if in_loop l ! a then slot (ctx n l d ua) j a else a) = Some a"
  proof (cases "in_loop l ! a")
    case True
    then show ?thesis
      using origin_slot [OF assms(1,3), of a ua] loop_ofD(2) [OF assms(1)] assms(2) by simp
  next
    case False
    then show ?thesis
      using assms(2) by (simp add: origin_def trans_less_add1)
  qed
  then show "origin n l d (if in_loop l ! a then slot (ctx n l d ua) j a else a) = Some a"
      "(if in_loop l ! a then slot (ctx n l d ua) j a else a) < n + d * length (loop_blocks l)"
    by auto
qed

lemma lift_path:
  assumes un: "unroll_natural_loop bd l d ua = Some bd'" "loop_of (length (blocks bd)) l" "wf_body bd"
    and "is_path bd (a # p)" "a < length (blocks bd)" "j \<le> i" "i \<le> d" "fits l d i (a # p)"
    and "b = (if in_loop l ! a then slot (ctx (length (blocks bd)) l d ua) j a else a)"
  shows "\<exists>q. is_path bd' (b # q) \<and> map (origin (length (blocks bd)) l d) (b # q) = map Some (a # p)"
  using assms(4-)
proof (induction p arbitrary: a i j b)
  case Nil
  then show ?case
    using origin_at(1) [OF un(2), of a j d ua] by (intro exI [of _ "[]"]) simp
next
  case (Cons t p)
  let ?n = "length (blocks bd)" and ?u = "ctx (length (blocks bd)) l d ua"
  note lay = unrolled_layout [OF un(1,2)] and loop = loop_ofD [OF un(2)]
  obtain x where x: "x < length (targets_at bd a)" "t = targets_at bd a ! x"
    using Cons.prems(1) by (auto simp: edge_to)
  have t: "t < ?n"
    using wf_bodyD [OF un(3) Cons.prems(2)] x by simp
  have ob: "origin ?n l d b = Some a"
    using origin_at(1) [OF un(2), of a j d ua] Cons.prems by simp
  have go: ?case if e: "(b, b') \<in> edges bd'" and f: "fits l d i' (t # p)" "j' \<le> i'" "i' \<le> d"
      "b' = (if in_loop l ! t then slot ?u j' t else t)" for b' i' j'
  proof -
    have "is_path bd (t # p)"
      using Cons.prems(1) by simp
    from Cons.IH [OF this t f(2,3,1,4)] obtain q where
      q: "is_path bd' (b' # q)" "map (origin ?n l d) (b' # q) = map Some (t # p)"
      by blast
    then show ?thesis
      using e ob by (intro exI [of _ "b' # q"]) simp
  qed
  have kinds: "targets_at bd' b = targets_at bd a \<or>
      in_loop l ! a \<and> targets_at bd' b = map (\<lambda>t. remap_target t j a ?u) (targets_at bd a)"
  proof (cases "in_loop l ! a")
    case True
    then have "block_kind (blocks bd' ! b) = rewrite_kind (block_kind (blocks bd ! a)) j a ?u"
      using lay(3) [of j a] loop(2) Cons.prems by simp
    then show ?thesis
      using True by (simp add: targets_at_def targets_rewrite)
  next
    case False
    then show ?thesis
      using lay(2) [of a] Cons.prems by (simp add: targets_at_def)
  qed
  have b: "b < length (blocks bd')"
    using origin_at(2) [OF un(2), of a j d ua] lay(1) Cons.prems by simp
  show ?case
  proof (cases "targets_at bd' b = targets_at bd a")
    case True
    then have "(b, t) \<in> edges bd'"
      using b x by (auto simp: edge_to)
    then show ?thesis
      using Cons.prems by (intro go [where i' = "if in_loop l ! a \<and> in_loop l ! t then (if t = header l then Suc i else i) else 0" and j' = 0])
        (auto split: if_splits)
  next
    case False
    with kinds have a: "in_loop l ! a" and tg: "targets_at bd' b = map (\<lambda>t. remap_target t j a ?u) (targets_at bd a)"
      by auto
    then have e: "(b, remap_target t j a ?u) \<in> edges bd'"
      using b x by (auto simp: edge_to)
    have j: "j \<le> d"
      using Cons.prems by simp
    from un(2) t j show ?thesis
    proof (cases rule: remap_cases [where a = a and ua = ua])
      case outside
      then show ?thesis
        using Cons.prems e by (intro go [where i' = 0 and j' = 0]) auto
    next
      case same
      then show ?thesis
        using Cons.prems e a by (intro go [where i' = i and j' = j]) auto
    next
      case again
      then have "in_loop l ! t"
        using un(2) by (simp add: loop_of_def)
      with again show ?thesis
        using Cons.prems e a by (intro go [where i' = "Suc i" and j' = "Suc j"]) auto
    next
      case cut
      then show ?thesis
        using Cons.prems a by auto
    qed
  qed
qed

lemma path_lifts:
  assumes "unroll_natural_loop bd l d ua = Some bd'" "loop_of (length (blocks bd)) l" "wf_body bd"
    and "is_path bd (0 # p)" "fits l d 0 (0 # p)"
  shows "\<exists>q. is_path bd' (0 # q) \<and> map (origin (length (blocks bd)) l d) (0 # q) = map Some (0 # p)"
  using lift_path [OF assms(1-4) wf_body_entry [OF assms(3)] order_refl _ assms(5), of 0] by simp

text \<open>C7: Depth \<open>d\<close> is enough for \<open>d\<close> iterations: a path of the original body from the entry that
  fits the depth is, copy by copy, a path of the unrolled body from its entry, so it is not cut.\<close>

theorem enough_depth:
  assumes "unroll_natural_loop bd l d ua = Some bd'" "loop_of (length (blocks bd)) l" "wf_body bd"
    and "is_path bd (0 # p)" "fits l d 0 (0 # p)"
  shows "\<exists>q. is_path bd' (0 # q) \<and> map (origin (length (blocks bd)) l d) (0 # q) = map Some (0 # p)"
  by (rule path_lifts [OF assms])

section \<open>A loop, unrolled\<close>

definition sample_natural_loop :: NaturalLoop where
  "sample_natural_loop = \<lparr> header = 1, latches = [2], in_loop = [False, True, True, False], loop_blocks = [1, 2] \<rparr>"

definition sample_unrolled :: "nat Body" where
  "sample_unrolled = \<lparr> blocks = [plain_block 10 (Goto 1), plain_block 11 (SwitchInt flag [(0, 3)] 2), plain_block 12 (Goto 4),
     plain_block 13 Return, plain_block 11 (SwitchInt flag [(0, 3)] 5), plain_block 12 (Goto 6),
     plain_block 11 (SwitchInt flag [(0, 3)] 8), plain_block 12 (Goto 8), stop_block Unreachable 0, stop_block Return 0],
     local_count = 1 \<rparr>"

lemma sample_unroll: "unroll_natural_loop sample_loop sample_natural_loop 2 True = Some sample_unrolled"
  by code_simp

lemma sample_chosen:
  "\<exists>c. from_body sample_loop = Some c \<and> \<not> is_acyclic c \<and> choose_loop c = Some (Inr sample_natural_loop)"
proof -
  have "(case from_body sample_loop of None \<Rightarrow> False
         | Some c \<Rightarrow> \<not> is_acyclic c \<and> choose_loop c = Some (Inr sample_natural_loop))"
    by code_simp
  then show ?thesis
    by (simp split: option.splits)
qed

lemma sample_acyclic: "\<exists>c. from_body sample_unrolled = Some c \<and> is_acyclic c"
proof -
  have "(case from_body sample_unrolled of None \<Rightarrow> False | Some c \<Rightarrow> is_acyclic c)"
    by code_simp
  then show ?thesis
    by (simp split: option.splits)
qed

lemma sample_unroll_cfg: "unroll_cfg_loops sample_loop 2 True = Some (Inr sample_unrolled)"
proof -
  have "MAX_ITERATIONS = Suc (Suc (MAX_ITERATIONS - 2))"
    by (simp add: MAX_ITERATIONS_def)
  then obtain k where it: "MAX_ITERATIONS = Suc (Suc k)"
    by blast
  have size: "length (blocks sample_loop) \<le> MAX_TOTAL_BLOCKS" "length (blocks sample_unrolled) \<le> MAX_TOTAL_BLOCKS"
    by (simp_all add: MAX_TOTAL_BLOCKS_def sample_loop_def sample_unrolled_def)
  have depth: "fst (compute_effective_unwind_depth 2 (length (loop_blocks sample_natural_loop))) = 2"
    by (simp add: compute_effective_unwind_depth_def saturating_mul_def MAX_EXPANDED_BLOCKS_def sample_natural_loop_def)
  show ?thesis
    using sample_chosen sample_acyclic size by (auto simp: unroll_cfg_loops_def it depth sample_unroll)
qed

theorem unrolled_body_loop_free_witness: "loop_free sample_unrolled"
  using unrolled_body_loop_free [OF sample_loop_wf sample_unroll_cfg] by simp

theorem unrolling_refines_witness:
  "\<exists>orig. orig 0 = Some 0 \<and>
     (\<forall>b a. b < length (blocks sample_unrolled) \<and> orig b = Some a \<longrightarrow>
        statements (blocks sample_unrolled ! b) = statements (blocks sample_loop ! a))"
  using unrolling_refines [OF sample_loop_wf sample_unroll_cfg, of "\<lambda>_ _ _. {}"]
  by (elim exE conjE) (intro exI conjI; assumption)

lemma sample_loop_of: "loop_of (length (blocks sample_loop)) sample_natural_loop"
  by (simp add: loop_of_def sample_natural_loop_def sample_loop_def upt_rec numeral_eq_Suc)

theorem enough_depth_witness:
  "\<exists>q. is_path sample_unrolled (0 # q) \<and>
     map (origin 4 sample_natural_loop 2) (0 # q) = map Some [0, 1, 2, 1, 2, 1, 3]"
proof -
  have p: "is_path sample_loop (0 # [1, 2, 1, 2, 1, 3])"
    by (simp add: edges_def sample_loop_def plain_block_def targets_at_def)
  have f: "fits sample_natural_loop 2 0 (0 # [1, 2, 1, 2, 1, 3])"
    by (simp add: sample_natural_loop_def)
  have n: "length (blocks sample_loop) = 4"
    by (simp add: sample_loop_def)
  show ?thesis
    using enough_depth [OF sample_unroll sample_loop_of sample_loop_wf p f] unfolding n .
qed

section \<open>Inline assembly\<close>

text \<open>
  The targets of an inline-assembly terminator are not rewritten.  Such a latch keeps its edge to the original
  header, so unrolling does not remove the cycle: the body below still has it after one unrolling, and each
  further pass finds it again.
\<close>

lemma asm_edge_survives:
  assumes "unroll_natural_loop bd l d ua = Some bd'" "loop_of (length (blocks bd)) l"
    and "a \<in> set (loop_blocks l)" "block_kind (blocks bd ! a) = InlineAsm x (Some t)"
  shows "targets_at bd' a = [t]"
  using unrolled_layout(3) [OF assms(1,2) le0 assms(3)] assms(4) by (simp add: targets_at_def)

definition asm_loop :: "nat Body" where
  "asm_loop = \<lparr> blocks = [plain_block 10 (Goto 1), plain_block 11 (SwitchInt flag [(0, 3)] 2),
     plain_block 12 (InlineAsm 0 (Some 1)), plain_block 13 Return], local_count = 1 \<rparr>"

lemma asm_latch_keeps_cycle:
  "\<exists>bd' c. unroll_natural_loop asm_loop sample_natural_loop 2 True = Some bd' \<and> from_body bd' = Some c \<and> \<not> is_acyclic c"
proof -
  have "(case Option.bind (unroll_natural_loop asm_loop sample_natural_loop 2 True) from_body of
           None \<Rightarrow> False | Some c \<Rightarrow> \<not> is_acyclic c)"
    by code_simp
  then show ?thesis
    by (auto simp: bind_eq_Some_conv split: option.splits)
qed

end
