(* ===== verification/Const_Trip.thy ===== *)
theory Const_Trip
  imports Unrolling
begin

unbundle bit_operations_syntax

text \<open>
  \<open>loop_unroll/const_trip.rs\<close>: the depth derived for loops whose trip count can be computed.  A
  concrete simulation of the control flow from the entry, with a store of exactly known values, counts the
  returns to every loop header.  The \<open>u128\<close> bits of a value are natural numbers below \<open>2 ^ 128\<close>,
  \<open>i128\<close> values are integers with the checked operations of the prelude.
\<close>

section \<open>Values\<close>

definition MAX_SIM_STEPS :: nat where
  "MAX_SIM_STEPS = 200000"

definition CONST_TRIP_DEPTH_CAP :: nat where
  "CONST_TRIP_DEPTH_CAP = 64"

datatype Val = VBool bool | VInt nat nat bool

fun switch_bits :: "Val \<Rightarrow> nat \<times> nat" where
  "switch_bits (VBool b) = (of_bool b, 8)"
| "switch_bits (VInt bits width _) = (bits, width)"

definition width_mask :: "nat \<Rightarrow> nat" where
  "width_mask width = (if 128 \<le> width then 2 ^ 128 - 1 else 2 ^ width - 1)"

definition truncate_bits :: "nat \<Rightarrow> nat \<Rightarrow> nat" where
  "truncate_bits bits width = bits AND width_mask width"

text \<open>The casts between \<open>u128\<close> and \<open>i128\<close>.\<close>

definition as_i128 :: "nat \<Rightarrow> int" where
  "as_i128 bits = signed_take_bit 127 (int bits)"

definition as_u128 :: "int \<Rightarrow> nat" where
  "as_u128 x = nat (take_bit 128 x)"

definition to_signed :: "nat \<Rightarrow> nat \<Rightarrow> int" where
  "to_signed bits width =
     (if 128 \<le> width then as_i128 bits
      else if bits AND 2 ^ (width - 1) \<noteq> 0 then as_i128 bits - 2 ^ width
      else as_i128 bits)"

fun int_ty_to_bitvec_width :: "IntTy \<Rightarrow> nat" where
  "int_ty_to_bitvec_width I8 = 8"
| "int_ty_to_bitvec_width I16 = 16"
| "int_ty_to_bitvec_width I32 = 32"
| "int_ty_to_bitvec_width I64 = 64"
| "int_ty_to_bitvec_width I128 = 128"
| "int_ty_to_bitvec_width Isize = 64"

fun uint_ty_to_bitvec_width :: "UintTy \<Rightarrow> nat" where
  "uint_ty_to_bitvec_width U8 = 8"
| "uint_ty_to_bitvec_width U16 = 16"
| "uint_ty_to_bitvec_width U32 = 32"
| "uint_ty_to_bitvec_width U64 = 64"
| "uint_ty_to_bitvec_width U128 = 128"
| "uint_ty_to_bitvec_width Usize = 64"

fun int_shape :: "Ty \<Rightarrow> (nat \<times> bool) option" where
  "int_shape (TyInt t) = Some (int_ty_to_bitvec_width t, True)"
| "int_shape (TyUint t) = Some (uint_ty_to_bitvec_width t, False)"
| "int_shape _ = None"

definition const_alloc :: "ConstantKind \<Rightarrow> Allocation option" where
  "const_alloc k = (case k of Allocated a \<Rightarrow> Some a | TyConstValue a \<Rightarrow> Some a | OtherConst \<Rightarrow> None)"

definition const_val :: "ConstOperand \<Rightarrow> Val option" where
  "const_val c =
     (case const_alloc (const_kind c) of
        None \<Rightarrow> None
      | Some a \<Rightarrow>
          (case const_ty c of
             TyBool \<Rightarrow> map_option VBool (read_bool a)
           | TyInt t \<Rightarrow> map_option (\<lambda>v. VInt (truncate_bits (as_u128 v) (int_ty_to_bitvec_width t)) (int_ty_to_bitvec_width t) True) (read_int a)
           | TyUint t \<Rightarrow> map_option (\<lambda>v. VInt (truncate_bits v (uint_ty_to_bitvec_width t)) (uint_ty_to_bitvec_width t) False) (read_uint a)
           | TyOther \<Rightarrow> None))"

section \<open>Operators\<close>

definition checked_u128 :: "nat \<Rightarrow> nat option" where
  "checked_u128 n = (if n < 2 ^ 128 then Some n else None)"

definition fits_signed :: "int \<Rightarrow> nat \<Rightarrow> bool" where
  "fits_signed x width \<longleftrightarrow> \<not> (width < 128 \<and> (2 ^ (width - 1) \<le> x \<or> x < - (2 ^ (width - 1))))"

fun bool_op :: "BinOp \<Rightarrow> bool \<Rightarrow> bool \<Rightarrow> Val option" where
  "bool_op BinEq x y = Some (VBool (x = y))"
| "bool_op BinNe x y = Some (VBool (x \<noteq> y))"
| "bool_op BitAnd x y = Some (VBool (x \<and> y))"
| "bool_op BitOr x y = Some (VBool (x \<or> y))"
| "bool_op BitXor x y = Some (VBool (x \<noteq> y))"
| "bool_op _ x y = None"

fun is_shift :: "BinOp \<Rightarrow> bool" where
  "is_shift Shl \<longleftrightarrow> True"
| "is_shift ShlUnchecked \<longleftrightarrow> True"
| "is_shift Shr \<longleftrightarrow> True"
| "is_shift ShrUnchecked \<longleftrightarrow> True"
| "is_shift _ \<longleftrightarrow> False"

definition shift_op :: "BinOp \<Rightarrow> nat \<Rightarrow> nat \<Rightarrow> bool \<Rightarrow> nat \<Rightarrow> nat \<Rightarrow> Val option" where
  "shift_op op ab aw asg bb bw =
     (let shift = to_signed bb bw in
      if shift < 0 \<or> int aw \<le> shift then None
      else let s = nat shift;
               out = (if op = Shl \<or> op = ShlUnchecked then truncate_bits (take_bit 128 (push_bit s ab)) aw
                      else if asg then truncate_bits (as_u128 (drop_bit s (to_signed ab aw))) aw
                      else drop_bit s ab) in
           Some (VInt out aw asg))"

fun compare_op :: "BinOp \<Rightarrow> nat \<Rightarrow> nat \<Rightarrow> int \<Rightarrow> int \<Rightarrow> bool option" where
  "compare_op BinEq ab bb x y = Some (ab = bb)"
| "compare_op BinNe ab bb x y = Some (ab \<noteq> bb)"
| "compare_op BinLt ab bb x y = Some (x < y)"
| "compare_op BinLe ab bb x y = Some (x \<le> y)"
| "compare_op BinGt ab bb x y = Some (y < x)"
| "compare_op BinGe ab bb x y = Some (y \<le> x)"
| "compare_op _ ab bb x y = None"

fun signed_op :: "BinOp \<Rightarrow> int \<Rightarrow> int \<Rightarrow> int option" where
  "signed_op Add x y = checked_add x y"
| "signed_op AddUnchecked x y = checked_add x y"
| "signed_op Sub x y = checked_sub x y"
| "signed_op SubUnchecked x y = checked_sub x y"
| "signed_op Mul x y = checked_mul x y"
| "signed_op MulUnchecked x y = checked_mul x y"
| "signed_op Div x y = checked_div x y"
| "signed_op Rem x y = checked_rem x y"
| "signed_op BitAnd x y = Some (x AND y)"
| "signed_op BitOr x y = Some (x OR y)"
| "signed_op BitXor x y = Some (x XOR y)"
| "signed_op _ x y = None"

fun unsigned_op :: "BinOp \<Rightarrow> nat \<Rightarrow> nat \<Rightarrow> nat option" where
  "unsigned_op Add x y = checked_u128 (x + y)"
| "unsigned_op AddUnchecked x y = checked_u128 (x + y)"
| "unsigned_op Sub x y = (if y \<le> x then Some (x - y) else None)"
| "unsigned_op SubUnchecked x y = (if y \<le> x then Some (x - y) else None)"
| "unsigned_op Mul x y = checked_u128 (x * y)"
| "unsigned_op MulUnchecked x y = checked_u128 (x * y)"
| "unsigned_op Div x y = (if y = 0 then None else Some (x div y))"
| "unsigned_op Rem x y = (if y = 0 then None else Some (x mod y))"
| "unsigned_op BitAnd x y = Some (x AND y)"
| "unsigned_op BitOr x y = Some (x OR y)"
| "unsigned_op BitXor x y = Some (x XOR y)"
| "unsigned_op _ x y = None"

definition is_bitwise :: "BinOp \<Rightarrow> bool" where
  "is_bitwise op \<longleftrightarrow> op = BitAnd \<or> op = BitOr \<or> op = BitXor"

fun eval_binop :: "BinOp \<Rightarrow> Val \<Rightarrow> Val \<Rightarrow> Val option" where
  "eval_binop op (VBool x) (VBool y) = bool_op op x y"
| "eval_binop op (VInt ab aw asg) (VInt bb bw bsg) =
     (if is_shift op then shift_op op ab aw asg bb bw
      else if aw \<noteq> bw \<or> asg \<noteq> bsg then None
      else
        (case (if asg then compare_op op ab bb (to_signed ab aw) (to_signed bb aw)
               else compare_op op ab bb (int ab) (int bb)) of
           Some r \<Rightarrow> Some (VBool r)
         | None \<Rightarrow>
             if asg then
               (case signed_op op (to_signed ab aw) (to_signed bb aw) of
                  None \<Rightarrow> None
                | Some exact \<Rightarrow>
                    if \<not> is_bitwise op \<and> \<not> fits_signed exact aw then None
                    else Some (VInt (truncate_bits (as_u128 exact) aw) aw asg))
             else
               (case unsigned_op op ab bb of
                  None \<Rightarrow> None
                | Some exact \<Rightarrow>
                    if aw < 128 \<and> width_mask aw < exact then None
                    else Some (VInt (truncate_bits exact aw) aw asg))))"
| "eval_binop op _ _ = None"

section \<open>The store\<close>

text \<open>A slot is a local, or one of its fields; a store maps slots to the values known exactly.\<close>

type_synonym Slot = "nat \<times> nat option"
type_synonym Store = "Slot \<Rightarrow> Val option"

definition place_slot :: "Place \<Rightarrow> Slot option" where
  "place_slot p =
     (case projection p of
        [] \<Rightarrow> Some (place_local p, None)
      | [Field i] \<Rightarrow> Some (place_local p, Some (i mod 2 ^ 32))
      | _ \<Rightarrow> None)"

definition store_get :: "Store \<Rightarrow> Place \<Rightarrow> bool list \<Rightarrow> Val option" where
  "store_get m p poisoned =
     (case place_slot p of
        None \<Rightarrow> None
      | Some sl \<Rightarrow> if length poisoned \<le> fst sl \<or> poisoned ! fst sl then None else m sl)"

definition kill_local :: "nat \<Rightarrow> Store \<Rightarrow> Store" where
  "kill_local l m = (\<lambda>sl. if fst sl = l then None else m sl)"

definition store_write :: "Place \<Rightarrow> Val option \<Rightarrow> Store \<Rightarrow> Store" where
  "store_write p v m =
     (case place_slot p of
        Some (l, None) \<Rightarrow> (case v of None \<Rightarrow> kill_local l m | Some x \<Rightarrow> (kill_local l m)((l, None) \<mapsto> x))
      | Some (l, Some i) \<Rightarrow> (m((l, None) := None))((l, Some i) := v)
      | None \<Rightarrow> kill_local (place_local p) m)"

fun aggregate_is_field_addressable :: "AggregateKind \<Rightarrow> bool" where
  "aggregate_is_field_addressable Tuple \<longleftrightarrow> True"
| "aggregate_is_field_addressable (Adt k active) \<longleftrightarrow> k = AdtStruct \<and> active = None"
| "aggregate_is_field_addressable OtherAggregate \<longleftrightarrow> False"

definition poison_statement :: "'x Statement \<Rightarrow> bool list \<Rightarrow> bool list" where
  "poison_statement st P =
     (case st of
        Assign dest rv \<Rightarrow>
          (let P = (if Deref \<in> set (projection dest) then P[place_local dest := True] else P) in
           case rv of
             Ref p \<Rightarrow> P[place_local p := True]
           | AddressOf p \<Rightarrow> P[place_local p := True]
           | CopyForDeref p \<Rightarrow> P[place_local p := True]
           | _ \<Rightarrow> P)
      | _ \<Rightarrow> P)"

definition poisoned_locals :: "'x Body \<Rightarrow> bool list" where
  "poisoned_locals bd =
     fold poison_statement (concat (map statements (blocks bd))) (replicate (local_count bd) False)"

section \<open>Statements\<close>

record Simulator =
  poisoned :: "bool list"
  store :: Store

fun sim_operand :: "Simulator \<Rightarrow> Operand \<Rightarrow> Val option" where
  "sim_operand sim (Constant c) = const_val c"
| "sim_operand sim (Copy p) = store_get (store sim) p (poisoned sim)"
| "sim_operand sim (Move p) = store_get (store sim) p (poisoned sim)"

fun not_val :: "Val \<Rightarrow> Val" where
  "not_val (VBool b) = VBool (\<not> b)"
| "not_val (VInt bits w s) = VInt (truncate_bits (2 ^ 128 - 1 - bits) w) w s"

fun neg_val :: "Val \<Rightarrow> Val option" where
  "neg_val (VInt bits w True) =
     (case checked_neg (to_signed bits w) of
        None \<Rightarrow> None
      | Some n \<Rightarrow> if fits_signed n w then Some (VInt (truncate_bits (as_u128 n) w) w True) else None)"
| "neg_val _ = None"

fun cast_val :: "nat \<Rightarrow> bool \<Rightarrow> Val \<Rightarrow> Val" where
  "cast_val w s (VBool b) = VInt (of_bool b) w s"
| "cast_val w s (VInt bits from_w from_s) =
     VInt (truncate_bits (if from_s then as_u128 (to_signed bits from_w) else bits) w) w s"

fun sim_rvalue :: "Simulator \<Rightarrow> 'x Rvalue \<Rightarrow> Val option" where
  "sim_rvalue sim (Use x) = sim_operand sim x"
| "sim_rvalue sim (BinaryOp op a b) =
     (case sim_operand sim a of None \<Rightarrow> None
      | Some x \<Rightarrow> (case sim_operand sim b of None \<Rightarrow> None | Some y \<Rightarrow> eval_binop op x y))"
| "sim_rvalue sim (UnaryOp BitNot a) = map_option not_val (sim_operand sim a)"
| "sim_rvalue sim (UnaryOp Neg a) = Option.bind (sim_operand sim a) neg_val"
| "sim_rvalue sim (Cast IntToInt x ty) =
     (case int_shape ty of None \<Rightarrow> None | Some (w, s) \<Rightarrow> map_option (cast_val w s) (sim_operand sim x))"
| "sim_rvalue sim _ = None"

fun write_fields :: "Simulator \<Rightarrow> nat \<Rightarrow> nat \<Rightarrow> Operand list \<Rightarrow> Store \<Rightarrow> Store" where
  "write_fields sim l i [] m = m"
| "write_fields sim l i (x # xs) m =
     write_fields (sim\<lparr> store := m \<rparr>) l (i + 1) xs
       (case sim_operand (sim\<lparr> store := m \<rparr>) x of None \<Rightarrow> m | Some v \<Rightarrow> m((l, Some (i mod 2 ^ 32)) \<mapsto> v))"

definition sim_assign :: "Simulator \<Rightarrow> Place \<Rightarrow> 'x Rvalue \<Rightarrow> Simulator" where
  "sim_assign sim p rv =
     (let plain = sim\<lparr> store := store_write p (sim_rvalue sim rv) (store sim) \<rparr> in
      case (rv, place_slot p) of
        (CheckedBinaryOp op a b, Some (l, None)) \<Rightarrow>
          (let m = kill_local l (store sim) in
           sim\<lparr> store :=
             (case Option.bind (sim_operand sim a) (\<lambda>x. Option.bind (sim_operand sim b) (eval_binop op x)) of
                None \<Rightarrow> m
              | Some v \<Rightarrow> m((l, Some 0) \<mapsto> v, (l, Some 1) \<mapsto> VBool False)) \<rparr>)
      | (Aggregate k xs, Some (l, None)) \<Rightarrow>
          if aggregate_is_field_addressable k
          then sim\<lparr> store := write_fields sim l 0 xs (kill_local l (store sim)) \<rparr> else plain
      | _ \<Rightarrow> plain)"

fun sim_statement :: "'x Statement \<Rightarrow> Simulator \<Rightarrow> Simulator" where
  "sim_statement (Assign p rv) sim = sim_assign sim p rv"
| "sim_statement (SetDiscriminant p) sim = sim\<lparr> store := kill_local (place_local p) (store sim) \<rparr>"
| "sim_statement (StorageLive l) sim = sim\<lparr> store := kill_local l (store sim) \<rparr>"
| "sim_statement (StorageDead l) sim = sim\<lparr> store := kill_local l (store sim) \<rparr>"
| "sim_statement (OtherStatement x) sim = sim"

section \<open>The simulation\<close>

datatype NextStep = GoTo nat | Ends | Undecided

fun sim_terminator :: "'x TerminatorKind \<Rightarrow> Simulator \<Rightarrow> Simulator \<times> NextStep" where
  "sim_terminator (Goto t) sim = (sim, GoTo t)"
| "sim_terminator (SwitchInt d branches otherwise) sim =
     (case sim_operand sim d of
        None \<Rightarrow> (sim, Undecided)
      | Some v \<Rightarrow>
          (let (bits, width) = switch_bits v in
           (sim, GoTo (case List.find (\<lambda>(c, _). truncate_bits c width = bits) branches of
                         None \<Rightarrow> otherwise | Some (_, t) \<Rightarrow> t))))"
| "sim_terminator (Assert c e m t w) sim = (sim, GoTo t)"
| "sim_terminator (Drop p t w) sim = (sim\<lparr> store := kill_local (place_local p) (store sim) \<rparr>, GoTo t)"
| "sim_terminator (Call f args dest t w) sim =
     (sim\<lparr> store := store_write dest None (store sim) \<rparr>, case t of Some t \<Rightarrow> GoTo t | None \<Rightarrow> Ends)"
| "sim_terminator (InlineAsm a d) sim = (sim, Undecided)"
| "sim_terminator Return sim = (sim, Ends)"
| "sim_terminator Unreachable sim = (sim, Ends)"
| "sim_terminator Resume sim = (sim, Ends)"
| "sim_terminator Abort sim = (sim, Ends)"

definition sim_block :: "'x Body \<Rightarrow> Simulator \<Rightarrow> nat \<Rightarrow> Simulator \<times> NextStep" where
  "sim_block bd sim bb =
     (let (sim', next) = sim_terminator (block_kind (blocks bd ! bb)) (fold sim_statement (statements (blocks bd ! bb)) sim) in
      (sim', case next of GoTo t \<Rightarrow> if length (blocks bd) \<le> t then Undecided else GoTo t | n \<Rightarrow> n))"

type_synonym counts = "(nat, nat) btree"
type_synonym loops = "(nat, bool list) btree"

datatype SimOutcome = Completed | Bailed "nat list"

definition inside_now :: "loops \<Rightarrow> nat \<Rightarrow> nat list" where
  "inside_now loops bb = sort (map fst (filter (\<lambda>(h, inl). inl ! bb) loops))"

text \<open>The arrival at a block and the step to the next one, as far as the counters see them.\<close>

definition record_max :: "nat \<Rightarrow> nat \<Rightarrow> counts \<Rightarrow> counts" where
  "record_max bb n m = bt_update bb 0 (\<lambda>old. max old n) m"

definition arrive :: "loops \<Rightarrow> nat \<Rightarrow> nat option \<Rightarrow> counts \<times> counts \<Rightarrow> counts \<times> counts" where
  "arrive loops bb prev = (\<lambda>(cur, mx).
     case bt_get loops bb of
       None \<Rightarrow> (cur, mx)
     | Some inl \<Rightarrow>
         (let from_inside = (case prev of None \<Rightarrow> False | Some p \<Rightarrow> inl ! p);
              run = (if from_inside then bt_get_or 0 cur bb + 1 else 0) in
          (bt_insert bb run cur, record_max bb run mx)))"

definition depart :: "loops \<Rightarrow> nat \<Rightarrow> nat \<Rightarrow> counts \<times> counts \<Rightarrow> counts \<times> counts" where
  "depart loops bb next = (\<lambda>(cur, mx).
     case bt_get loops bb of
       None \<Rightarrow> (cur, mx)
     | Some inl \<Rightarrow> if inl ! next then (cur, record_max bb (bt_get_or 0 cur bb + 1) mx) else (cur, mx))"

fun simulate_from :: "nat \<Rightarrow> 'x Body \<Rightarrow> loops \<Rightarrow> Simulator \<Rightarrow> nat \<Rightarrow> nat option \<Rightarrow> counts \<times> counts \<Rightarrow> counts \<times> SimOutcome" where
  "simulate_from 0 bd loops sim bb prev c = (snd c, Bailed (inside_now loops bb))"
| "simulate_from (Suc k) bd loops sim bb prev c =
     (let c = arrive loops bb prev c; (sim', ns) = sim_block bd sim bb in
      case ns of
        Ends \<Rightarrow> (snd c, Completed)
      | Undecided \<Rightarrow> (snd c, Bailed (inside_now loops bb))
      | GoTo next \<Rightarrow> simulate_from k bd loops sim' next (Some bb) (depart loops bb next c))"

definition new_simulator :: "'x Body \<Rightarrow> Simulator" where
  "new_simulator bd = \<lparr> poisoned = poisoned_locals bd, store = Map.empty \<rparr>"

definition simulate :: "'x Body \<Rightarrow> loops \<Rightarrow> counts \<times> SimOutcome" where
  "simulate bd loops = simulate_from MAX_SIM_STEPS bd loops (new_simulator bd) 0 None ([], [])"

section \<open>The derived depth\<close>

fun loops_of :: "Cfg \<Rightarrow> (nat, nat list) btree \<Rightarrow> loops \<Rightarrow> loops option" where
  "loops_of c [] ls = Some ls"
| "loops_of c ((h, srcs) # hs) ls =
     (case natural_loop c h (sort_dedup srcs) of
        None \<Rightarrow> None
      | Some l \<Rightarrow> loops_of c hs (bt_insert h (in_loop l) ls))"

definition incomplete :: "SimOutcome \<Rightarrow> nat list" where
  "incomplete out = (case out of Completed \<Rightarrow> [] | Bailed inside \<Rightarrow> inside)"

definition add_depth :: "nat list \<Rightarrow> nat option \<Rightarrow> nat \<times> nat \<Rightarrow> nat option" where
  "add_depth skip derived = (\<lambda>(h, run).
     if h \<in> set skip \<or> run = 0 then derived
     else if CONST_TRIP_DEPTH_CAP < run then derived
     else Some (max (case derived of None \<Rightarrow> 0 | Some d \<Rightarrow> d) run))"

definition derive_const_trip_unroll_depth :: "'x Body \<Rightarrow> nat option option" where
  "derive_const_trip_unroll_depth bd =
     (case from_body bd of
        None \<Rightarrow> None
      | Some c \<Rightarrow>
          if is_acyclic c then Some None
          else
            (case find_loop_headers c of
               None \<Rightarrow> None
             | Some (Inl e) \<Rightarrow> Some None
             | Some (Inr headers) \<Rightarrow>
                 if headers = [] then Some None
                 else
                   (case loops_of c headers [] of
                      None \<Rightarrow> None
                    | Some loops \<Rightarrow>
                        (let (mx, out) = simulate bd loops in Some (foldl (add_depth (incomplete out)) None mx)))))"

end
