(* ===== verification/Const_Trip_Depth.thy ===== *)
theory Const_Trip_Depth
  imports Const_Trip
begin

text \<open>
  What the derived depth is worth: the path the simulation takes fits the derived depth in every loop whose count
  is complete and within the cap, so after unrolling to that depth the path is not cut.  And the simulated
  operators are exact: an operation yields the mathematical result or nothing.
\<close>

section \<open>Counters\<close>

lemma arrive_max: "bt_get_or 0 mx h \<le> bt_get_or 0 (snd (arrive loops bb prev (cur, mx))) h"
  by (simp add: arrive_def record_max_def Let_def split: option.splits)

lemma depart_max: "bt_get_or 0 mx h \<le> bt_get_or 0 (snd (depart loops bb nb (cur, mx))) h"
  by (simp add: depart_def record_max_def split: option.splits)

lemma depart_cur: "fst (depart loops bb nb c) = fst c"
  by (simp add: depart_def split_beta split: option.splits)

lemma arrive_cur:
  "bt_get_or 0 (fst (arrive loops bb prev (cur, mx))) h =
     (if h = bb then
        (case bt_get loops bb of
           None \<Rightarrow> bt_get_or 0 cur bb
         | Some inl \<Rightarrow>
             if (case prev of None \<Rightarrow> False | Some p \<Rightarrow> inl ! p) then bt_get_or 0 cur bb + 1 else 0)
      else bt_get_or 0 cur h)"
  by (simp add: arrive_def Let_def bt_get_or_def split: option.splits)

lemma arrive_records:
  "bt_get loops bb = Some inl \<Longrightarrow>
   bt_get_or 0 (fst (arrive loops bb prev (cur, mx))) bb \<le> bt_get_or 0 (snd (arrive loops bb prev (cur, mx))) bb"
  by (simp add: arrive_def record_max_def Let_def) (simp add: bt_get_or_def)

lemma depart_records:
  "bt_get loops bb = Some inl \<Longrightarrow> inl ! nb \<Longrightarrow>
   bt_get_or 0 cur bb + 1 \<le> bt_get_or 0 (snd (depart loops bb nb (cur, mx))) bb"
  by (simp add: depart_def record_max_def)

lemma simulate_from_max:
  "simulate_from k bd loops sim bb prev c = (mx, out) \<Longrightarrow> bt_get_or 0 (snd c) h \<le> bt_get_or 0 mx h"
proof (induction k bd loops sim bb prev c rule: simulate_from.induct)
  case (2 k bd loops sim bb prev c)
  have a: "bt_get_or 0 (snd c) h \<le> bt_get_or 0 (snd (arrive loops bb prev c)) h"
    using arrive_max [of "snd c" h loops bb prev "fst c"] by simp
  obtain sim' ns where b: "sim_block bd sim bb = (sim', ns)"
    by fastforce
  show ?case
  proof (cases ns)
    case (GoTo nb)
    have "bt_get_or 0 (snd (arrive loops bb prev c)) h \<le> bt_get_or 0 (snd (depart loops bb nb (arrive loops bb prev c))) h"
      using depart_max [of "snd (arrive loops bb prev c)" h loops bb nb "fst (arrive loops bb prev c)"] by simp
    moreover have "bt_get_or 0 (snd (depart loops bb nb (arrive loops bb prev c))) h \<le> bt_get_or 0 mx h"
      using 2(1) [OF refl b [symmetric] refl GoTo] 2(2) b GoTo by simp
    ultimately show ?thesis
      using a by linarith
  qed (use 2(2) a b in \<open>auto simp: Let_def\<close>)
qed simp

text \<open>The blocks the simulation visits.\<close>

fun sim_path :: "nat \<Rightarrow> 'x Body \<Rightarrow> Simulator \<Rightarrow> nat \<Rightarrow> nat list" where
  "sim_path 0 bd sim bb = [bb]"
| "sim_path (Suc k) bd sim bb =
     bb # (case sim_block bd sim bb of (sim', GoTo nb) \<Rightarrow> sim_path k bd sim' nb | _ \<Rightarrow> [])"

definition simulated_path :: "'x Body \<Rightarrow> nat list" where
  "simulated_path bd = sim_path MAX_SIM_STEPS bd (new_simulator bd) 0"

lemma sim_path_Cons: "\<exists>p. sim_path k bd sim bb = bb # p"
  by (cases k) auto

lemma sim_block_target:
  assumes "sim_block bd sim bb = (sim', GoTo nb)"
  shows "nb \<in> set (targets_at bd bb)" "nb < length (blocks bd)"
proof -
  let ?sim = "fold sim_statement (statements (blocks bd ! bb)) sim"
  have "nb < length (blocks bd) \<and> (\<exists>s. sim_terminator (block_kind (blocks bd ! bb)) ?sim = (s, GoTo nb))"
    using assms by (auto simp: sim_block_def split: prod.splits NextStep.splits if_splits)
  then obtain s where s: "sim_terminator (block_kind (blocks bd ! bb)) ?sim = (s, GoTo nb)" "nb < length (blocks bd)"
    by blast
  show "nb < length (blocks bd)"
    by (rule s(2))
  show "nb \<in> set (targets_at bd bb)"
    using s(1)
  proof (cases "block_kind (blocks bd ! bb)")
    case (SwitchInt d branches otherwise)
    then show ?thesis
      using s(1) by (auto simp: targets_at_def split: option.splits prod.splits dest!: find_SomeD intro: rev_image_eqI)
  qed (auto simp: targets_at_def split: option.splits)
qed

lemma sim_path_is_path: "bb < length (blocks bd) \<Longrightarrow> is_path bd (sim_path k bd sim bb)"
proof (induction k bd sim bb rule: sim_path.induct)
  case (2 k bd sim bb)
  obtain sim' ns where b: "sim_block bd sim bb = (sim', ns)"
    by fastforce
  show ?case
  proof (cases ns)
    case (GoTo nb)
    note t = sim_block_target [OF b [unfolded GoTo]]
    obtain p where p: "sim_path k bd sim' nb = nb # p"
      using sim_path_Cons by blast
    have "is_path bd (nb # p)"
      using 2(1) [OF b [symmetric] GoTo t(2)] p by simp
    then show ?thesis
      using b GoTo p t(1) 2(2) by (simp add: edges_def)
  qed (use b in auto)
qed simp

text \<open>The counter of the specification never exceeds what the simulation has recorded.\<close>

lemma simulation_fits:
  assumes "simulate_from k bd loops sim bb prev c = (mx, out)"
    and loop: "bt_get loops (header l) = Some (in_loop l)" and compl: "header l \<notin> set (incomplete out)"
    and d: "bt_get_or 0 mx (header l) \<le> d"
    and i: "in_loop l ! bb \<Longrightarrow> i \<le> (if bb = header l
        then (if case prev of None \<Rightarrow> False | Some p \<Rightarrow> in_loop l ! p then bt_get_or 0 (fst c) (header l) + 1 else 0)
        else bt_get_or 0 (fst c) (header l))"
  shows "fits l d i (sim_path k bd sim bb)"
  using assms(1,4,5)
proof (induction k arbitrary: sim bb prev c i)
  case 0
  then show ?case
    by simp
next
  case (Suc k)
  let ?h = "header l" and ?c = "arrive loops bb prev c"
  obtain sim' ns where b: "sim_block bd sim bb = (sim', ns)"
    by fastforce
  show ?case
  proof (cases ns)
    case (GoTo nb)
    let ?c' = "depart loops bb nb ?c"
    have rec: "simulate_from k bd loops sim' nb (Some bb) ?c' = (mx, out)"
      using Suc.prems(1) b GoTo by simp
    have cur: "bt_get_or 0 (fst ?c') ?h = bt_get_or 0 (fst ?c) ?h"
      by (simp add: depart_cur)
    have i': "i \<le> bt_get_or 0 (fst ?c) ?h" if "in_loop l ! bb"
      using Suc.prems(3) [OF that] arrive_cur [of loops bb prev "fst c" "snd c" ?h] loop by (auto split: if_splits)
    obtain p where p: "sim_path k bd sim' nb = nb # p"
      using sim_path_Cons by blast
    have mx: "bt_get_or 0 (snd ?c') ?h \<le> d"
      using simulate_from_max [OF rec, of ?h] Suc.prems(2) by simp
    show ?thesis
    proof (cases "in_loop l ! bb \<and> in_loop l ! nb")
      case False
      have "fits l d 0 (sim_path k bd sim' nb)"
        by (rule Suc.IH [OF rec Suc.prems(2)]) simp
      then show ?thesis
        using False b GoTo p by auto
    next
      case True
      have own: "i < d" if "bb = ?h"
      proof -
        have "bt_get_or 0 (fst ?c) ?h + 1 \<le> bt_get_or 0 (snd ?c') ?h"
          using depart_records [of loops bb "in_loop l" nb "fst ?c" "snd ?c"] loop True that by simp
        then show ?thesis
          using i' True mx by simp
      qed
      have ret: "i < d" if n: "nb = ?h" "bb \<noteq> ?h"
      proof (cases k)
        case 0
        then have "?h \<in> set (incomplete out)"
          using rec n(1) True map_of_SomeD [OF loop] by (force simp: incomplete_def inside_now_def image_iff)
        with compl show ?thesis
          by simp
      next
        case (Suc k')
        let ?c2 = "arrive loops nb (Some bb) ?c'"
        have "bt_get_or 0 (fst ?c2) ?h = bt_get_or 0 (fst ?c) ?h + 1"
          using arrive_cur [of loops nb "Some bb" "fst ?c'" "snd ?c'" ?h] n(1) loop True cur by simp
        moreover have "bt_get_or 0 (fst ?c2) ?h \<le> bt_get_or 0 (snd ?c2) ?h"
          using arrive_records [of loops nb "in_loop l" "Some bb" "fst ?c'" "snd ?c'"] n(1) loop by simp
        moreover have "bt_get_or 0 (snd ?c2) ?h \<le> bt_get_or 0 mx ?h"
        proof -
          obtain sim2 ns2 where b2: "sim_block bd sim' nb = (sim2, ns2)"
            by fastforce
          show ?thesis
          proof (cases ns2)
            case (GoTo n2)
            then have "simulate_from k' bd loops sim2 n2 (Some nb) (depart loops nb n2 ?c2) = (mx, out)"
              using rec Suc b2 by simp
            from simulate_from_max [OF this, of ?h]
              depart_max [of "snd ?c2" ?h loops nb n2 "fst ?c2"] show ?thesis
              by simp
          qed (use rec Suc b2 in \<open>auto simp: Let_def\<close>)
        qed
        ultimately show ?thesis
          using i' True Suc.prems(2) by simp
      qed
      have "fits l d (if nb = ?h then Suc i else i) (sim_path k bd sim' nb)"
        using i' True cur by (intro Suc.IH [OF rec Suc.prems(2)]) auto
      then show ?thesis
        using True own ret b GoTo p by auto
    qed
  qed (use b in auto)
qed

section \<open>The derived depth\<close>

lemma fold_add_depth:
  "foldl (add_depth skip) acc xs = Some n \<Longrightarrow>
   (\<forall>m. acc = Some m \<longrightarrow> m \<le> n) \<and> (\<forall>(h, run) \<in> set xs. h \<notin> set skip \<longrightarrow> run \<le> CONST_TRIP_DEPTH_CAP \<longrightarrow> run \<le> n)"
proof (induction xs arbitrary: acc)
  case (Cons x xs)
  obtain h run where x: "x = (h, run)"
    by fastforce
  have IH: "\<forall>m. add_depth skip acc x = Some m \<longrightarrow> m \<le> n"
      "\<forall>(h, run) \<in> set xs. h \<notin> set skip \<longrightarrow> run \<le> CONST_TRIP_DEPTH_CAP \<longrightarrow> run \<le> n"
    using Cons.IH [of "add_depth skip acc x"] Cons.prems by simp_all
  then show ?case
    by (auto simp: add_depth_def x split: if_splits option.splits)
qed simp

text \<open>C8: The derived depth is enough for the execution it was derived from: for every loop that was counted to the
  end and whose count is within the cap, the path of the simulation is a path of the body unrolled to the derived
  depth or any larger one, so it does not run into the unwinding assertion.\<close>

theorem derived_depth_enough:
  assumes "wf_body bd" "derive_const_trip_unroll_depth bd = Some (Some n)" "n \<le> d"
    and "from_body bd = Some c" "find_loop_headers c = Some (Inr headers)" "loops_of c headers [] = Some loops"
    and "simulate bd loops = (mx, out)" "header l \<notin> set (incomplete out)" "bt_get_or 0 mx (header l) \<le> CONST_TRIP_DEPTH_CAP"
    and "bt_get loops (header l) = Some (in_loop l)" "loop_of (length (blocks bd)) l"
    and "unroll_natural_loop bd l d ua = Some bd'"
  shows "\<exists>q. is_path bd' (0 # q) \<and> map (origin (length (blocks bd)) l d) (0 # q) = map Some (simulated_path bd)"
proof -
  have "foldl (add_depth (incomplete out)) None mx = Some n"
    using assms(2,4-7) by (auto simp: derive_const_trip_unroll_depth_def split: if_splits)
  from fold_add_depth [OF this] have "bt_get_or 0 mx (header l) \<le> d"
    using assms(3,8,9) by (fastforce simp: bt_get_or_def split: option.splits dest: map_of_SomeD)
  with assms(7) have "fits l d 0 (sim_path MAX_SIM_STEPS bd (new_simulator bd) 0)"
    unfolding simulate_def by (rule simulation_fits [OF _ assms(10,8)]) simp
  moreover have "is_path bd (sim_path MAX_SIM_STEPS bd (new_simulator bd) 0)"
    by (rule sim_path_is_path [OF wf_body_entry [OF assms(1)]])
  moreover obtain p where "sim_path MAX_SIM_STEPS bd (new_simulator bd) 0 = 0 # p"
    using sim_path_Cons by blast
  ultimately show ?thesis
    using path_lifts [OF assms(12,11,1), of p] by (simp add: simulated_path_def)
qed

section \<open>A loop that runs once\<close>

definition whole :: "nat \<Rightarrow> Place" where
  "whole l = \<lparr> place_local = l, projection = [] \<rparr>"

definition const_bool :: "bool \<Rightarrow> Operand" where
  "const_bool b = Constant \<lparr> const_ty = TyBool,
     const_kind = Allocated \<lparr> read_bool = Some b, read_int = None, read_uint = None \<rparr> \<rparr>"

definition once_loop :: "nat Body" where
  "once_loop = \<lparr> blocks =
     [\<lparr> statements = [Assign (whole 1) (Use (const_bool True))], terminator = \<lparr> kind = Goto 1, span = 0 \<rparr> \<rparr>,
      \<lparr> statements = [], terminator = \<lparr> kind = SwitchInt (Copy (whole 1)) [(0, 3)] 2, span = 0 \<rparr> \<rparr>,
      \<lparr> statements = [Assign (whole 1) (Use (const_bool False))], terminator = \<lparr> kind = Goto 1, span = 0 \<rparr> \<rparr>,
      \<lparr> statements = [], terminator = \<lparr> kind = Return, span = 0 \<rparr> \<rparr>], local_count = 2 \<rparr>"

lemma once_wf: "wf_body once_loop"
  by (simp add: wf_body_def once_loop_def targets_at_def less_Suc_eq numeral_eq_Suc all_conj_distrib)

definition once_cfg :: Cfg where
  "once_cfg = \<lparr> successors = [[1], [2, 3], [1], []], predecessors = [[], [0, 2], [1], [1]],
     reachable = [True, True, True, True], topo_order = [0] \<rparr>"

lemma once_from_body: "from_body once_loop = Some once_cfg"
  by code_simp
lemma once_headers: "find_loop_headers once_cfg = Some (Inr [(1, [2])])"
  by code_simp
lemma once_loops: "loops_of once_cfg [(1, [2])] [] = Some [(1, [False, True, True, False])]"
  by code_simp

lemma once_poisoned: "poisoned_locals once_loop = [False, False]"
  by (simp add: poisoned_locals_def once_loop_def poison_statement_def whole_def const_bool_def numeral_eq_Suc)

lemma once_block:
  "sim_block once_loop \<lparr> poisoned = P, store = m \<rparr> 0 = (\<lparr> poisoned = P, store = (kill_local 1 m)((1, None) \<mapsto> VBool True) \<rparr>, GoTo 1)"
  "sim_block once_loop \<lparr> poisoned = P, store = m \<rparr> 2 = (\<lparr> poisoned = P, store = (kill_local 1 m)((1, None) \<mapsto> VBool False) \<rparr>, GoTo 1)"
  "sim_block once_loop \<lparr> poisoned = P, store = m \<rparr> 3 = (\<lparr> poisoned = P, store = m \<rparr>, Ends)"
  "m (1, None) = Some (VBool True) \<Longrightarrow> sim_block once_loop \<lparr> poisoned = [False, False], store = m \<rparr> 1 =
     (\<lparr> poisoned = [False, False], store = m \<rparr>, GoTo 2)"
  "m (1, None) = Some (VBool False) \<Longrightarrow> sim_block once_loop \<lparr> poisoned = [False, False], store = m \<rparr> 1 =
     (\<lparr> poisoned = [False, False], store = m \<rparr>, GoTo 3)"
  by (simp_all add: sim_block_def once_loop_def sim_assign_def whole_def const_bool_def place_slot_def store_write_def
    const_val_def const_alloc_def store_get_def truncate_bits_def width_mask_def Let_def)

lemma once_simulate: "simulate once_loop [(1, [False, True, True, False])] = ([(1, 1)], Completed)"
proof -
  have "MAX_SIM_STEPS = Suc (Suc (Suc (Suc (Suc (MAX_SIM_STEPS - 5)))))"
    by (simp add: MAX_SIM_STEPS_def)
  then obtain k where k: "MAX_SIM_STEPS = Suc (Suc (Suc (Suc (Suc k))))"
    by blast
  show ?thesis
    by (simp add: simulate_def k new_simulator_def once_poisoned once_block [unfolded One_nat_def] arrive_def depart_def record_max_def bt_get_or_def bt_update_def Let_def)
qed

lemma once_derived: "derive_const_trip_unroll_depth once_loop = Some (Some 1)"
proof -
  have "\<not> is_acyclic once_cfg"
    by (simp add: is_acyclic_def reachable_count_def once_cfg_def)
  then show ?thesis
    by (simp add: derive_const_trip_unroll_depth_def once_from_body once_headers
      once_loops [unfolded One_nat_def] once_simulate [unfolded One_nat_def] incomplete_def add_depth_def
      CONST_TRIP_DEPTH_CAP_def del: loops_of.simps)
qed

lemma once_loop_of: "loop_of (length (blocks once_loop)) sample_natural_loop"
  by (simp add: loop_of_def sample_natural_loop_def once_loop_def upt_rec numeral_eq_Suc)

theorem derived_depth_enough_witness:
  "\<exists>bd' q. unroll_natural_loop once_loop sample_natural_loop 1 True = Some bd' \<and> is_path bd' (0 # q) \<and>
     map (origin 4 sample_natural_loop 1) (0 # q) = map Some (simulated_path once_loop)"
proof -
  have "unroll_natural_loop once_loop sample_natural_loop 1 True \<noteq> None"
    by code_simp
  then obtain bd' where u: "unroll_natural_loop once_loop sample_natural_loop 1 True = Some bd'"
    by blast
  have len: "length (blocks once_loop) = 4"
    by (simp add: once_loop_def)
  have "\<exists>q. is_path bd' (0 # q) \<and>
      map (origin (length (blocks once_loop)) sample_natural_loop 1) (0 # q) = map Some (simulated_path once_loop)"
    by (rule derived_depth_enough [OF once_wf once_derived order_refl once_from_body once_headers once_loops once_simulate
          _ _ _ once_loop_of u])
      (simp_all add: incomplete_def sample_natural_loop_def bt_get_or_def CONST_TRIP_DEPTH_CAP_def)
  then show ?thesis
    using u unfolding len by blast
qed

end
