(* ===== verification/Const_Trip_Ops.thy ===== *)
theory Const_Trip_Ops
  imports Const_Trip
begin

unbundle bit_operations_syntax

text \<open>
  The simulated operators are exact.  A value stands for an integer, in two's complement when it is signed; an
  arithmetic operator yields the value of the mathematical result, and nothing when that is outside the type.
\<close>

section \<open>The integer a value stands for\<close>

definition wf_width :: "nat \<Rightarrow> bool" where
  "wf_width w \<longleftrightarrow> w = 8 \<or> w = 16 \<or> w = 32 \<or> w = 64 \<or> w = 128"

definition int_of :: "nat \<Rightarrow> nat \<Rightarrow> bool \<Rightarrow> int" where
  "int_of b w s = (if s \<and> 2 ^ (w - 1) \<le> b then int b - 2 ^ w else int b)"

definition in_type :: "int \<Rightarrow> nat \<Rightarrow> bool \<Rightarrow> bool" where
  "in_type x w s \<longleftrightarrow> (if s then - (2 ^ (w - 1)) \<le> x \<and> x < 2 ^ (w - 1) else 0 \<le> x \<and> x < 2 ^ w)"

lemma wf_widthD: "wf_width w \<Longrightarrow> 0 < w \<and> w \<le> 128 \<and> (w < 128 \<longrightarrow> w \<le> 64)"
  by (auto simp: wf_width_def)

lemma int_shape_wf: "int_shape t = Some (w, s) \<Longrightarrow> wf_width w"
proof (cases t)
  case (TyInt k)
  then show "int_shape t = Some (w, s) \<Longrightarrow> wf_width w"
    by (cases k) (auto simp: wf_width_def)
next
  case (TyUint k)
  then show "int_shape t = Some (w, s) \<Longrightarrow> wf_width w"
    by (cases k) (auto simp: wf_width_def)
qed auto

lemma bit_top:
  assumes "b < 2 ^ Suc m"
  shows "bit b m \<longleftrightarrow> 2 ^ m \<le> (b :: nat)"
proof -
  have "b div 2 ^ m < 2"
    using assms by (simp add: less_mult_imp_div_less mult.commute)
  moreover have "b div 2 ^ m = 0 \<longleftrightarrow> b < 2 ^ m"
    by (simp add: div_eq_0_iff)
  ultimately show ?thesis
    by (auto simp: bit_iff_odd less_2_cases_iff)
qed

lemma as_i128_small: "b < 2 ^ 127 \<Longrightarrow> as_i128 b = int b"
  by (simp add: as_i128_def signed_take_bit_int_eq_self)

lemma to_signed_int_of:
  assumes "wf_width w" "b < 2 ^ w"
  shows "to_signed b w = int_of b w True"
proof (cases "w = 128")
  case True
  have b: "b < 2 ^ Suc 127"
    using assms(2) True by simp
  have "take_bit (Suc 127) (int b) = int b"
    using b by (intro take_bit_int_eq_self) simp_all
  moreover have "bit (int b) 127 \<longleftrightarrow> 2 ^ 127 \<le> b"
    using bit_top [OF b] by (simp add: bit_of_nat_iff_bit)
  ultimately show ?thesis
    using True by (simp add: to_signed_def as_i128_def int_of_def signed_take_bit_eq_take_bit_minus)
next
  case False
  then have w: "w \<le> 64" "0 < w"
    using wf_widthD [OF assms(1)] by auto
  have "b < 2 ^ 64"
    using assms(2) power_increasing [OF w(1), of "2 :: nat"] by linarith
  then have "as_i128 b = int b"
    by (intro as_i128_small) simp
  moreover have "b AND 2 ^ (w - 1) = 0 \<longleftrightarrow> \<not> 2 ^ (w - 1) \<le> b"
    using bit_top [of b "w - 1"] assms(2) w by (simp add: and_exp_eq_0_iff_not_bit)
  ultimately show ?thesis
    using w by (simp add: to_signed_def int_of_def)
qed

lemma int_of_in_type: "wf_width w \<Longrightarrow> b < 2 ^ w \<Longrightarrow> in_type (int_of b w s) w s"
  by (auto simp: wf_width_def in_type_def int_of_def)

section \<open>Encoding\<close>

lemma width_mask_mask: "w \<le> 128 \<Longrightarrow> width_mask w = mask w"
  by (cases "w = 128") (auto simp: width_mask_def mask_eq_exp_minus_1)

lemma truncate_take_bit: "w \<le> 128 \<Longrightarrow> truncate_bits n w = take_bit w n"
  by (simp add: truncate_bits_def width_mask_mask take_bit_eq_mask)

lemma encode_signed:
  assumes "wf_width w" "in_type r w True"
  shows "truncate_bits (as_u128 r) w < 2 ^ w \<and> int_of (truncate_bits (as_u128 r) w) w True = r"
proof -
  have w: "w \<le> 128"
    using wf_widthD [OF assms(1)] by simp
  have c: "truncate_bits (as_u128 r) w = nat (take_bit w r)"
    using w by (simp add: truncate_take_bit as_u128_def take_bit_nat_eq min_absorb1)
  have "take_bit w r = (if r < 0 then r + 2 ^ w else r)"
  proof (cases "r < 0")
    case True
    have "take_bit w (r + 2 ^ w) = r + 2 ^ w"
      using assms True by (intro take_bit_int_eq_self) (auto simp: wf_width_def in_type_def)
    moreover have "take_bit w (r + 2 ^ w) = take_bit w r"
      by (simp add: take_bit_eq_mod)
    ultimately show ?thesis
      using True by simp
  next
    case False
    then have "take_bit w r = r"
      using assms by (intro take_bit_int_eq_self) (auto simp: wf_width_def in_type_def)
    with False show ?thesis
      by simp
  qed
  then show ?thesis
    using assms unfolding c by (auto simp: wf_width_def in_type_def int_of_def)
qed

lemma encode_unsigned:
  assumes "wf_width w" "c < 2 ^ w"
  shows "truncate_bits c w = c"
  using assms wf_widthD [OF assms(1)] by (simp add: truncate_take_bit take_bit_nat_eq_self)

lemma fits_signed_in_type: "wf_width w \<Longrightarrow> w < 128 \<Longrightarrow> fits_signed r w \<longleftrightarrow> in_type r w True"
  by (auto simp: fits_signed_def in_type_def)

lemma fits_signed_128 [simp]: "fits_signed r 128"
  by (simp add: fits_signed_def)

lemma in_type_i128: "wf_width w \<Longrightarrow> in_type r w True \<Longrightarrow> in_i128 r"
  by (auto simp: wf_width_def in_type_def in_i128_def i128_min_def i128_max_def)

lemma i128_in_type: "in_i128 r \<longleftrightarrow> in_type r 128 True"
  by (auto simp: in_type_def in_i128_def i128_min_def i128_max_def)

section \<open>Exactness\<close>

text \<open>The mathematical result of an arithmetic operator; a zero divisor has none.\<close>

fun exact_result :: "bool \<Rightarrow> BinOp \<Rightarrow> int \<Rightarrow> int \<Rightarrow> int option" where
  "exact_result s Add x y = Some (x + y)"
| "exact_result s AddUnchecked x y = Some (x + y)"
| "exact_result s Sub x y = Some (x - y)"
| "exact_result s SubUnchecked x y = Some (x - y)"
| "exact_result s Mul x y = Some (x * y)"
| "exact_result s MulUnchecked x y = Some (x * y)"
| "exact_result s Div x y = (if y = 0 then None else Some (if s then x sdiv y else x div y))"
| "exact_result s Rem x y = (if y = 0 then None else Some (if s then x smod y else x mod y))"
| "exact_result s _ x y = None"

definition is_arith :: "BinOp \<Rightarrow> bool" where
  "is_arith op \<longleftrightarrow> op \<in> {Add, AddUnchecked, Sub, SubUnchecked, Mul, MulUnchecked, Div, Rem}"

lemma is_arithD:
  assumes "is_arith op"
  shows "\<not> is_shift op" "\<not> is_bitwise op" "compare_op op ab bb x y = None"
  using assms by (auto simp: is_arith_def is_bitwise_def)

lemma signed_op_exact:
  assumes "is_arith op" "\<not> (op = Rem \<and> x = i128_min \<and> y = - 1)" "op = Rem \<Longrightarrow> y \<noteq> 0 \<Longrightarrow> in_i128 (x smod y)"
  shows "signed_op op x y = Option.bind (exact_result True op x y) checked_i128"
  using assms by (auto simp: is_arith_def checked_add_def checked_sub_def checked_mul_def checked_div_def checked_rem_def
      checked_i128_def)

lemma unsigned_op_exact:
  assumes "is_arith op" "ab < 2 ^ 128" "bb < 2 ^ 128"
  shows "map_option int (unsigned_op op ab bb) =
    (case exact_result False op (int ab) (int bb) of None \<Rightarrow> None | Some r \<Rightarrow> if 0 \<le> r \<and> r < 2 ^ 128 then Some r else None)"
proof -
  have "ab div bb < 2 ^ 128" "ab mod bb < 2 ^ 128"
    using assms(2) le_less_trans [OF div_le_dividend] le_less_trans [OF mod_less_eq_dividend] by blast+
  then have q: "int ab div int bb < 2 ^ 128" "int ab mod int bb < 2 ^ 128"
    by (simp_all add: zdiv_int [symmetric] zmod_int [symmetric] flip: of_nat_power)
  have lt: "int (ab + bb) < 2 ^ 128 \<longleftrightarrow> ab + bb < 2 ^ 128" "int (ab * bb) < 2 ^ 128 \<longleftrightarrow> ab * bb < 2 ^ 128"
    by (simp_all only: of_nat_less_numeral_power_cancel_iff)
  consider "op = Add \<or> op = AddUnchecked" | "op = Sub \<or> op = SubUnchecked" | "op = Mul \<or> op = MulUnchecked" | "op = Div" | "op = Rem"
    using assms(1) by (auto simp: is_arith_def)
  then show ?thesis
  proof cases
    case 1
    then show ?thesis
      using lt(1) by (auto simp: checked_u128_def)
  next
    case 2
    then show ?thesis
      using assms(2) by (auto simp: of_nat_diff)
  next
    case 3
    then show ?thesis
      using lt(2) by (auto simp: checked_u128_def)
  next
    case 4
    then show ?thesis
      using q(1) by (auto simp: zdiv_int pos_imp_zdiv_nonneg_iff)
  next
    case 5
    then show ?thesis
      using q(2) by (auto simp: zmod_int)
  qed
qed

text \<open>What the operators return on integers of one shape.\<close>

definition exact_value :: "int option \<Rightarrow> nat \<Rightarrow> bool \<Rightarrow> Val option \<Rightarrow> bool" where
  "exact_value r w s v \<longleftrightarrow>
     (case r of
        None \<Rightarrow> v = None
      | Some x \<Rightarrow> if in_type x w s then \<exists>c. v = Some (VInt c w s) \<and> c < 2 ^ w \<and> int_of c w s = x else v = None)"

lemma smod_in_i128: "in_i128 x \<Longrightarrow> in_i128 y \<Longrightarrow> y \<noteq> 0 \<Longrightarrow> in_i128 (x smod y)"
  by (rule in_i128_smod)

lemma eval_signed_exact:
  assumes "is_arith op" "wf_width w" "ab < 2 ^ w" "bb < 2 ^ w"
    and corner: "\<not> (op = Rem \<and> int_of ab w True = i128_min \<and> int_of bb w True = - 1)"
  shows "exact_value (exact_result True op (int_of ab w True) (int_of bb w True)) w True
    (eval_binop op (VInt ab w True) (VInt bb w True))"
proof -
  let ?x = "int_of ab w True" and ?y = "int_of bb w True"
  have range: "in_i128 ?x" "in_i128 ?y"
    using in_type_i128 [OF assms(2)] int_of_in_type [OF assms(2)] assms(3,4) by auto
  have op: "signed_op op ?x ?y = Option.bind (exact_result True op ?x ?y) checked_i128"
    using assms(1) corner range by (intro signed_op_exact) (auto intro: smod_in_i128)
  have ev: "eval_binop op (VInt ab w True) (VInt bb w True) =
      (case Option.bind (exact_result True op ?x ?y) checked_i128 of
         None \<Rightarrow> None
       | Some r \<Rightarrow> if \<not> fits_signed r w then None else Some (VInt (truncate_bits (as_u128 r) w) w True))"
    using is_arithD [OF assms(1)] assms(2-4) by (simp add: op to_signed_int_of split: option.splits)
  show ?thesis
  proof (cases "exact_result True op ?x ?y")
    case None
    then show ?thesis
      by (simp add: exact_value_def ev del: eval_binop.simps)
  next
    case (Some r)
    show ?thesis
    proof (cases "in_type r w True")
      case True
      then have "checked_i128 r = Some r" "fits_signed r w"
        using in_type_i128 [OF assms(2) True] fits_signed_in_type [OF assms(2), of r] wf_widthD [OF assms(2)]
        by (auto simp: fits_signed_def)
      then show ?thesis
        using True Some encode_signed [OF assms(2) True]
        by (simp add: exact_value_def ev checked_i128_def del: eval_binop.simps)
    next
      case False
      have "checked_i128 r = None \<or> \<not> fits_signed r w"
      proof (cases "w < 128")
        case True
        then show ?thesis
          using False fits_signed_in_type [OF assms(2)] by simp
      next
        case large: False
        then have "w = 128"
          using wf_widthD [OF assms(2)] by simp
        then show ?thesis
          using False by (simp add: checked_i128_def i128_in_type)
      qed
      then show ?thesis
        using Some False by (auto simp: exact_value_def ev checked_i128_def simp del: eval_binop.simps)
    qed
  qed
qed

lemma eval_unsigned_exact:
  assumes "is_arith op" "wf_width w" "ab < 2 ^ w" "bb < 2 ^ w"
  shows "exact_value (exact_result False op (int ab) (int bb)) w False (eval_binop op (VInt ab w False) (VInt bb w False))"
proof -
  have le: "(2 :: nat) ^ w \<le> 2 ^ 128"
    using wf_widthD [OF assms(2)] by (intro power_increasing) auto
  have int_le: "(2 :: int) ^ w \<le> 2 ^ 128"
    using wf_widthD [OF assms(2)] by (intro power_increasing) auto
  from le have op: "map_option int (unsigned_op op ab bb) =
      (case exact_result False op (int ab) (int bb) of None \<Rightarrow> None | Some r \<Rightarrow> if 0 \<le> r \<and> r < 2 ^ 128 then Some r else None)"
    using assms(3,4) by (intro unsigned_op_exact [OF assms(1)]) linarith+
  have ev: "eval_binop op (VInt ab w False) (VInt bb w False) =
      (case unsigned_op op ab bb of
         None \<Rightarrow> None
       | Some e \<Rightarrow> if w < 128 \<and> width_mask w < e then None else Some (VInt (truncate_bits e w) w False))"
    using is_arithD [OF assms(1)] by (simp split: option.splits)
  show ?thesis
  proof (cases "exact_result False op (int ab) (int bb)")
    case None
    then show ?thesis
      using op by (simp add: exact_value_def ev del: eval_binop.simps)
  next
    case (Some r)
    show ?thesis
    proof (cases "0 \<le> r \<and> r < 2 ^ 128")
      case True
      then obtain e where e: "unsigned_op op ab bb = Some e" "int e = r"
        using op Some by auto
      have small: "e < 2 ^ 128"
        using e(2) True by (simp flip: of_nat_power)
      have fit: "in_type r w False \<longleftrightarrow> e < 2 ^ w"
        using e(2) by (auto simp: in_type_def simp flip: of_nat_power)
      have over: "(w < 128 \<and> width_mask w < e) \<longleftrightarrow> \<not> e < 2 ^ w"
        using small wf_widthD [OF assms(2)] by (auto simp: width_mask_def not_less Suc_le_eq [symmetric])
      show ?thesis
        using Some e fit over encode_unsigned [OF assms(2), of e] by (simp add: exact_value_def ev int_of_def del: eval_binop.simps)
    next
      case False
      then have "unsigned_op op ab bb = None"
        using op Some by auto
      moreover have "\<not> in_type r w False"
        using False int_le by (auto simp: in_type_def)
      ultimately show ?thesis
        using Some by (simp add: exact_value_def ev del: eval_binop.simps)
    qed
  qed
qed

text \<open>The remainder whose quotient is not in the type: the least value of a signed type by minus one.\<close>

definition rem_traps :: "BinOp \<Rightarrow> int \<Rightarrow> int \<Rightarrow> nat \<Rightarrow> bool \<Rightarrow> bool" where
  "rem_traps op x y w s \<longleftrightarrow> op = Rem \<and> s \<and> x = - (2 ^ (w - 1)) \<and> y = - 1"

text \<open>C9: Simulated arithmetic is exact: on two values of one integer type an operator yields the value of the
  mathematical result when the type holds it, and nothing otherwise (overflow, zero divisor).  Left out is the
  remainder of the least value of a signed type by minus one, which traps in Rust: there the code yields nothing
  at 128 bits and zero at the narrower widths, against its own comment (see below).\<close>

theorem eval_binop_exact:
  assumes "is_arith op" "wf_width w" "ab < 2 ^ w" "bb < 2 ^ w"
    and "\<not> rem_traps op (int_of ab w s) (int_of bb w s) w s"
  shows "exact_value (exact_result s op (int_of ab w s) (int_of bb w s)) w s (eval_binop op (VInt ab w s) (VInt bb w s))"
proof (cases s)
  case True
  have "w = 128" if "int_of ab w True = i128_min"
    using that int_of_in_type [OF assms(2,3), of True] assms(2) by (auto simp: in_type_def i128_min_def wf_width_def)
  then have "\<not> (op = Rem \<and> int_of ab w True = i128_min \<and> int_of bb w True = - 1)"
    using assms(5) True by (auto simp: rem_traps_def i128_min_def)
  then show ?thesis
    using eval_signed_exact [OF assms(1-4)] True by simp
next
  case False
  then show ?thesis
    using eval_unsigned_exact [OF assms(1-4)] by (simp add: int_of_def)
qed

theorem eval_binop_exact_witness:
  "exact_value (Some (- 100)) 8 True (eval_binop Sub (VInt 206 8 True) (VInt 50 8 True)) \<and>
   exact_value (Some 300) 8 False (eval_binop Add (VInt 200 8 False) (VInt 100 8 False))"
proof
  have "is_arith Sub" "is_arith Add" "wf_width 8"
    by (simp_all add: is_arith_def wf_width_def)
  then show "exact_value (Some (- 100)) 8 True (eval_binop Sub (VInt 206 8 True) (VInt 50 8 True))"
      "exact_value (Some 300) 8 False (eval_binop Add (VInt 200 8 False) (VInt 100 8 False))"
    using eval_binop_exact [of Sub 8 206 50 True] eval_binop_exact [of Add 8 200 100 False]
    by (simp_all add: int_of_def rem_traps_def del: eval_binop.simps)
qed

text \<open>
  The comment at the range check says that an operation that traps yields nothing.  The remainder of the least
  value of a narrower type by minus one traps in Rust, but its result zero passes the check.
\<close>

lemma rem_overflow_accepted: "eval_binop Rem (VInt 128 8 True) (VInt 255 8 True) = Some (VInt 0 8 True)"
proof -
  have "to_signed 128 8 = - 128" "to_signed 255 8 = - 1"
    by (simp_all add: to_signed_int_of wf_width_def int_of_def)
  moreover have "truncate_bits (as_u128 0) 8 = 0"
    by (simp add: truncate_bits_def as_u128_def)
  ultimately show ?thesis
    by (simp add: checked_rem_def i128_min_def fits_signed_def is_bitwise_def signed_modulo_int_def)
qed

end
