(* ===== verification/Chc_Expr.thy ===== *)
theory Chc_Expr
  imports BTree Text "HOL-Library.Word"
begin

text \<open>
  The terms of the clause systems of trust-mc-core and their meaning.

  Terms come from the bindings of the solver, which are not part of the repository; modelled is their shape as the
  code takes it apart (\<open>ExprValue\<close>), with the variants that the code never looks into under
  \<open>OtherOp\<close>.  What terms mean is the solver's business: the record \<open>smt\<close> holds an evaluation, the truth of
  a value and the admissible assignments as parameters, and the locale \<open>smt_model\<close> states the documented laws of
  the term language that the passes rely on.
\<close>

section \<open>Terms\<close>

datatype Sort = SBool | SInt | SReal | SBitVec nat | SArray Sort Sort | SDatatype string | SOther string

datatype BvOp =
    BvAdd | BvSub | BvMul | BvUDiv | BvSDiv | BvURem | BvSRem | BvAnd | BvOr | BvXor | BvShl | BvLShr | BvAShr
  | BvULt | BvULe | BvUGt | BvUGe | BvSLt | BvSLe | BvSGt | BvSGe | BvConcat
  | BvAddNoOverflowUnsigned | BvAddNoOverflowSigned | BvSubNoUnderflowUnsigned | BvSubNoOverflowSigned
  | BvMulNoOverflowUnsigned | BvMulNoOverflowSigned | BvSdivNoOverflow

datatype Expr =
    Var string Sort
  | BoolConst bool
  | BitVecConst nat nat
  | IntConst int
  | RealConst string
  | NotE Expr
  | And "Expr list"
  | Or "Expr list"
  | Eq Expr Expr
  | Ite Expr Expr Expr
  | Select Expr Expr
  | Store Expr Expr Expr
  | ConstArray Sort Expr
  | Bv BvOp Expr Expr
  | BvNot Expr
  | BvNeg Expr
  | BvExtract Expr nat nat
  | BvZeroExtend Expr nat
  | BvSignExtend Expr nat
  | DatatypeConstructor string string "Expr list" Sort
  | DatatypeSelector string string Expr Sort
  | DatatypeTester string string Expr
  | FuncApp string "Expr list" Sort
  | Forall "(string \<times> Sort) list" Expr "Expr list list"
  | Exists "(string \<times> Sort) list" Expr "Expr list list"
  | OtherOp string "Expr list" Sort

text \<open>\<open>children\<close>: the direct sub-terms, triggers of a quantifier included.\<close>

fun children :: "Expr \<Rightarrow> Expr list" where
  "children (NotE a) = [a]"
| "children (And es) = es"
| "children (Or es) = es"
| "children (Eq a b) = [a, b]"
| "children (Ite c a b) = [c, a, b]"
| "children (Select a i) = [a, i]"
| "children (Store a i v) = [a, i, v]"
| "children (ConstArray s v) = [v]"
| "children (Bv op a b) = [a, b]"
| "children (BvNot a) = [a]"
| "children (BvNeg a) = [a]"
| "children (BvExtract a hi lo) = [a]"
| "children (BvZeroExtend a n) = [a]"
| "children (BvSignExtend a n) = [a]"
| "children (DatatypeConstructor d c es s) = es"
| "children (DatatypeSelector d f a s) = [a]"
| "children (DatatypeTester d c a) = [a]"
| "children (FuncApp f es s) = es"
| "children (Forall xs b ts) = b # concat ts"
| "children (Exists xs b ts) = b # concat ts"
| "children (OtherOp f es s) = es"
| "children _ = []"

lemma size_member: "e \<in> set es \<Longrightarrow> size (e :: Expr) < Suc (size_list size es)"
  by (induction es) auto

lemma size_nested: "g \<in> set ts \<Longrightarrow> e \<in> set g \<Longrightarrow> size (e :: Expr) < Suc (size_list (size_list size) ts + n)"
  by (induction ts) (auto dest: size_member)

lemma size_children: "e \<in> set (children x) \<Longrightarrow> size e < size x"
  by (cases x) (auto intro: size_member size_nested)

text \<open>The same node over other sub-terms (\<open>rebuild_with_children\<close>).\<close>

fun regroup :: "'a list list \<Rightarrow> 'b list \<Rightarrow> 'b list list" where
  "regroup [] es = []"
| "regroup (g # gs) es = take (length g) es # regroup gs (drop (length g) es)"

fun with_children :: "Expr \<Rightarrow> Expr list \<Rightarrow> Expr" where
  "with_children (NotE a) es = NotE (es ! 0)"
| "with_children (And as) es = And es"
| "with_children (Or as) es = Or es"
| "with_children (Eq a b) es = Eq (es ! 0) (es ! 1)"
| "with_children (Ite c a b) es = Ite (es ! 0) (es ! 1) (es ! 2)"
| "with_children (Select a i) es = Select (es ! 0) (es ! 1)"
| "with_children (Store a i v) es = Store (es ! 0) (es ! 1) (es ! 2)"
| "with_children (ConstArray s v) es = ConstArray s (es ! 0)"
| "with_children (Bv op a b) es = Bv op (es ! 0) (es ! 1)"
| "with_children (BvNot a) es = BvNot (es ! 0)"
| "with_children (BvNeg a) es = BvNeg (es ! 0)"
| "with_children (BvExtract a hi lo) es = BvExtract (es ! 0) hi lo"
| "with_children (BvZeroExtend a n) es = BvZeroExtend (es ! 0) n"
| "with_children (BvSignExtend a n) es = BvSignExtend (es ! 0) n"
| "with_children (DatatypeConstructor d c as s) es = DatatypeConstructor d c es s"
| "with_children (DatatypeSelector d f a s) es = DatatypeSelector d f (es ! 0) s"
| "with_children (DatatypeTester d c a) es = DatatypeTester d c (es ! 0)"
| "with_children (FuncApp f as s) es = FuncApp f es s"
| "with_children (Forall xs b ts) es = Forall xs (hd es) (regroup ts (tl es))"
| "with_children (Exists xs b ts) es = Exists xs (hd es) (regroup ts (tl es))"
| "with_children (OtherOp f as s) es = OtherOp f es s"
| "with_children e es = e"

definition is_binder :: "Expr \<Rightarrow> bool" where
  "is_binder e \<longleftrightarrow> (case e of Forall xs b ts \<Rightarrow> True | Exists xs b ts \<Rightarrow> True | _ \<Rightarrow> False)"

text \<open>The name of a variable.\<close>

definition var_of :: "Expr \<Rightarrow> string option" where
  "var_of e = (case e of Var x s \<Rightarrow> Some x | _ \<Rightarrow> None)"

lemma var_of_Some: "var_of e = Some x \<longleftrightarrow> (\<exists>s. e = Var x s)"
  by (cases e) (auto simp: var_of_def)

lemma var_of_Var [simp]: "var_of (Var x s) = Some x"
  by (simp add: var_of_def)

text \<open>The names of the variables of a term (bound variables of quantifiers are counted as well).\<close>

function collect_expr_vars :: "Expr \<Rightarrow> string list" where
  "collect_expr_vars e = (case e of Var x s \<Rightarrow> [x] | _ \<Rightarrow> concat (map collect_expr_vars (children e)))"
  by pat_completeness auto
termination
  by (relation "measure size") (auto intro: size_member size_nested)

declare collect_expr_vars.simps [simp del]

lemma collect_expr_vars_Var [simp]: "collect_expr_vars (Var x s) = [x]"
  by (simp add: collect_expr_vars.simps)

lemma collect_expr_vars_node: "(\<And>x s. e \<noteq> Var x s) \<Longrightarrow>
    collect_expr_vars e = concat (map collect_expr_vars (children e))"
  by (subst collect_expr_vars.simps) (simp split: Expr.split)

lemma collect_expr_vars_simps [simp]:
  "collect_expr_vars (BoolConst t) = []"
  "collect_expr_vars (BitVecConst m w) = []"
  "collect_expr_vars (IntConst n) = []"
  "collect_expr_vars (RealConst r) = []"
  "collect_expr_vars (NotE a) = collect_expr_vars a"
  "collect_expr_vars (And es) = concat (map collect_expr_vars es)"
  "collect_expr_vars (Or es) = concat (map collect_expr_vars es)"
  "collect_expr_vars (Eq a b) = collect_expr_vars a @ collect_expr_vars b"
  "collect_expr_vars (Ite c a b) = collect_expr_vars c @ collect_expr_vars a @ collect_expr_vars b"
  "collect_expr_vars (Select a i) = collect_expr_vars a @ collect_expr_vars i"
  "collect_expr_vars (Store a i v) = collect_expr_vars a @ collect_expr_vars i @ collect_expr_vars v"
  "collect_expr_vars (ConstArray s v) = collect_expr_vars v"
  "collect_expr_vars (Bv op a b) = collect_expr_vars a @ collect_expr_vars b"
  "collect_expr_vars (FuncApp f es s) = concat (map collect_expr_vars es)"
  by (simp_all add: collect_expr_vars_node)

abbreviation expr_vars :: "Expr \<Rightarrow> string set" where
  "expr_vars e \<equiv> set (collect_expr_vars e)"

section \<open>Meaning\<close>

text \<open>
  \<open>val\<close> evaluates a term under an assignment of the variables, \<open>truth\<close> says which values are true, and
  \<open>domain_of\<close> gives the values of the sort a variable is declared with (a name is declared once).
\<close>

record 'v smt =
  val :: "(string \<Rightarrow> 'v) \<Rightarrow> Expr \<Rightarrow> 'v"
  truth :: "'v \<Rightarrow> bool"
  domain_of :: "string \<Rightarrow> 'v set"

definition fits :: "'v smt \<Rightarrow> (string \<Rightarrow> 'v) \<Rightarrow> bool" where
  "fits M \<rho> \<longleftrightarrow> (\<forall>x. \<rho> x \<in> domain_of M x)"

definition holds :: "'v smt \<Rightarrow> (string \<Rightarrow> 'v) \<Rightarrow> Expr \<Rightarrow> bool" where
  "holds M \<rho> e \<longleftrightarrow> truth M (val M \<rho> e)"

locale smt_model =
  fixes M :: "'v smt"
  assumes val_Var: "val M \<rho> (Var x s) = \<rho> x"
    and val_cong: "(\<And>x. x \<in> expr_vars e \<Longrightarrow> \<rho> x = \<sigma> x) \<Longrightarrow> val M \<rho> e = val M \<sigma> e"
    and holds_BoolConst: "holds M \<rho> (BoolConst t) \<longleftrightarrow> t"
    and holds_And: "holds M \<rho> (And es) \<longleftrightarrow> (\<forall>e \<in> set es. holds M \<rho> e)"
    and holds_Eq: "holds M \<rho> (Eq a b) \<longleftrightarrow> val M \<rho> a = val M \<rho> b"
begin

lemma holds_cong: "(\<And>x. x \<in> expr_vars e \<Longrightarrow> \<rho> x = \<sigma> x) \<Longrightarrow> holds M \<rho> e = holds M \<sigma> e"
  by (simp add: holds_def val_cong [of e \<rho> \<sigma>])

lemma val_fresh: "x \<notin> expr_vars e \<Longrightarrow> val M (\<rho>(x := v)) e = val M \<rho> e"
  by (rule val_cong) auto

lemma holds_fresh: "x \<notin> expr_vars e \<Longrightarrow> holds M (\<rho>(x := v)) e = holds M \<rho> e"
  by (simp add: holds_def val_fresh)

lemma holds_define:
  assumes "x \<notin> expr_vars e"
  shows "holds M (\<rho>(x := val M \<rho> e)) (Eq (Var x s) e)" "holds M (\<rho>(x := val M \<rho> e)) (Eq e (Var x s))"
  using assms by (simp_all add: holds_Eq val_Var val_fresh)

end

text \<open>The two sides of an equation with a variable have the sort of the variable.\<close>

definition well_sorted_eq :: "'v smt \<Rightarrow> Expr \<Rightarrow> Expr \<Rightarrow> bool" where
  "well_sorted_eq M a b \<longleftrightarrow>
     (\<forall>x s \<rho>. fits M \<rho> \<longrightarrow> (a = Var x s \<longrightarrow> val M \<rho> b \<in> domain_of M x) \<and> (b = Var x s \<longrightarrow> val M \<rho> a \<in> domain_of M x))"

lemma fits_update: "fits M \<rho> \<Longrightarrow> v \<in> domain_of M x \<Longrightarrow> fits M (\<rho>(x := v))"
  by (simp add: fits_def)

section \<open>Bit vectors\<close>

text \<open>
  The operations of the SMT-LIB theory of fixed-size bit vectors on values and widths, division and remainder by the
  magnitudes and signs as that standard defines them, with the overflow predicates of the bindings.
\<close>

definition bv_signed :: "nat \<Rightarrow> nat \<Rightarrow> int" where
  "bv_signed w x = (if 2 ^ (w - 1) \<le> x then int x - 2 ^ w else int x)"

definition bv_neg :: "nat \<Rightarrow> nat \<Rightarrow> nat" where
  "bv_neg w x = (2 ^ w - x) mod 2 ^ w"

definition bv_complement :: "nat \<Rightarrow> nat \<Rightarrow> nat" where
  "bv_complement w x = 2 ^ w - 1 - x"

definition bv_msb :: "nat \<Rightarrow> nat \<Rightarrow> bool" where
  "bv_msb w x \<longleftrightarrow> 2 ^ (w - 1) \<le> x"

definition bv_abs :: "nat \<Rightarrow> nat \<Rightarrow> nat" where
  "bv_abs w x = (if bv_msb w x then bv_neg w x else x)"

definition bv_udiv :: "nat \<Rightarrow> nat \<Rightarrow> nat \<Rightarrow> nat" where
  "bv_udiv w x y = (if y = 0 then 2 ^ w - 1 else x div y)"

definition bv_urem :: "nat \<Rightarrow> nat \<Rightarrow> nat" where
  "bv_urem x y = (if y = 0 then x else x mod y)"

definition in_signed_range :: "nat \<Rightarrow> int \<Rightarrow> bool" where
  "in_signed_range w i \<longleftrightarrow> - (2 ^ (w - 1)) \<le> i \<and> i < 2 ^ (w - 1)"

fun bv_const :: "BvOp \<Rightarrow> nat \<Rightarrow> nat \<Rightarrow> nat \<Rightarrow> nat \<Rightarrow> Expr" where
  "bv_const BvAdd x w y v = BitVecConst ((x + y) mod 2 ^ w) w"
| "bv_const BvSub x w y v = BitVecConst ((x + bv_neg w y) mod 2 ^ w) w"
| "bv_const BvMul x w y v = BitVecConst ((x * y) mod 2 ^ w) w"
| "bv_const BvUDiv x w y v = BitVecConst (bv_udiv w x y) w"
| "bv_const BvURem x w y v = BitVecConst (bv_urem x y) w"
| "bv_const BvSDiv x w y v = BitVecConst
     (let q = bv_udiv w (bv_abs w x) (bv_abs v y) in if bv_msb w x \<noteq> bv_msb v y then bv_neg w q else q) w"
| "bv_const BvSRem x w y v = BitVecConst
     (let r = bv_urem (bv_abs w x) (bv_abs v y) in if bv_msb w x then bv_neg w r else r) w"
| "bv_const BvAnd x w y v = BitVecConst (and x y) w"
| "bv_const BvOr x w y v = BitVecConst (or x y) w"
| "bv_const BvXor x w y v = BitVecConst (xor x y) w"
| "bv_const BvShl x w y v = BitVecConst ((x * 2 ^ y) mod 2 ^ w) w"
| "bv_const BvLShr x w y v = BitVecConst (x div 2 ^ y) w"
| "bv_const BvAShr x w y v = BitVecConst
     (if bv_msb w x then bv_complement w (bv_complement w x div 2 ^ y) else x div 2 ^ y) w"
| "bv_const BvULt x w y v = BoolConst (x < y)"
| "bv_const BvULe x w y v = BoolConst (x \<le> y)"
| "bv_const BvUGt x w y v = BoolConst (y < x)"
| "bv_const BvUGe x w y v = BoolConst (y \<le> x)"
| "bv_const BvSLt x w y v = BoolConst (bv_signed w x < bv_signed v y)"
| "bv_const BvSLe x w y v = BoolConst (bv_signed w x \<le> bv_signed v y)"
| "bv_const BvSGt x w y v = BoolConst (bv_signed v y < bv_signed w x)"
| "bv_const BvSGe x w y v = BoolConst (bv_signed v y \<le> bv_signed w x)"
| "bv_const BvConcat x w y v = BitVecConst (x * 2 ^ v + y) (w + v)"
| "bv_const BvAddNoOverflowUnsigned x w y v = BoolConst (x + y < 2 ^ w)"
| "bv_const BvAddNoOverflowSigned x w y v = BoolConst (in_signed_range w (bv_signed w x + bv_signed v y))"
| "bv_const BvSubNoUnderflowUnsigned x w y v = BoolConst (y \<le> x)"
| "bv_const BvSubNoOverflowSigned x w y v = BoolConst (in_signed_range w (bv_signed w x - bv_signed v y))"
| "bv_const BvMulNoOverflowUnsigned x w y v = BoolConst (x * y < 2 ^ w)"
| "bv_const BvMulNoOverflowSigned x w y v = BoolConst (in_signed_range w (bv_signed w x * bv_signed v y))"
| "bv_const BvSdivNoOverflow x w y v = BoolConst (\<not> (bv_signed w x = - (2 ^ (w - 1)) \<and> bv_signed v y = -1))"

section \<open>A reference model\<close>

text \<open>
  Booleans, bit vectors, integers, data and arrays indexed by scalars, with every variant the passes do not look into
  evaluated to one fixed value.  It shows that the laws can hold together, and the counterexamples are computed
  in it.
\<close>

datatype Key = KB bool | KBV nat nat | KI int | KR string | KOther

datatype SVal = VB bool | VBV nat nat | VI int | VR string | VData string "SVal list" | VArr "Key \<Rightarrow> SVal"

fun key_of :: "SVal \<Rightarrow> Key" where
  "key_of (VB b) = KB b"
| "key_of (VBV v w) = KBV v w"
| "key_of (VI i) = KI i"
| "key_of (VR r) = KR r"
| "key_of _ = KOther"

fun array_at :: "SVal \<Rightarrow> Key \<Rightarrow> SVal" where
  "array_at (VArr f) i = f i"
| "array_at _ i = VB False"

fun literal_val :: "Expr \<Rightarrow> SVal" where
  "literal_val (BoolConst b) = VB b"
| "literal_val (BitVecConst n w) = VBV n w"
| "literal_val (IntConst i) = VI i"
| "literal_val (RealConst r) = VR r"
| "literal_val _ = VB False"

text \<open>Fields of data are selected by position: \<open>fld_N\<close>.\<close>

definition field_index :: "string \<Rightarrow> nat option" where
  "field_index f = (if starts_with f ''fld_'' then parse_usize (drop 4 f) else None)"

definition data_field :: "SVal \<Rightarrow> string \<Rightarrow> SVal" where
  "data_field d f = (case (d, field_index f) of (VData c vs, Some k) \<Rightarrow> if k < length vs then vs ! k else VB False | _ \<Rightarrow> VB False)"

definition constructed_by :: "string \<Rightarrow> SVal \<Rightarrow> bool" where
  "constructed_by c v \<longleftrightarrow> (case v of VData c' vs \<Rightarrow> c' = c | _ \<Rightarrow> False)"

text \<open>Of the other variants one is interpreted: the unsigned value of a bit vector.\<close>

definition other_val :: "string \<Rightarrow> SVal list \<Rightarrow> SVal" where
  "other_val f vs = (if f = ''Bv2Int'' then (case vs of [VBV x w] \<Rightarrow> VI (int x) | _ \<Rightarrow> VB False) else VB False)"

definition bv_apply :: "BvOp \<Rightarrow> SVal \<Rightarrow> SVal \<Rightarrow> SVal" where
  "bv_apply op a b = (case (a, b) of (VBV x w, VBV y v) \<Rightarrow> literal_val (bv_const op x w y v) | _ \<Rightarrow> VB False)"

definition bv_map :: "(nat \<Rightarrow> nat \<Rightarrow> SVal) \<Rightarrow> SVal \<Rightarrow> SVal" where
  "bv_map f a = (case a of VBV x w \<Rightarrow> f x w | _ \<Rightarrow> VB False)"

function ground :: "(string \<Rightarrow> SVal) \<Rightarrow> Expr \<Rightarrow> SVal" where
  "ground \<rho> e =
     (case e of
        Var x s \<Rightarrow> \<rho> x
      | BoolConst b \<Rightarrow> VB b
      | BitVecConst v w \<Rightarrow> VBV v w
      | IntConst i \<Rightarrow> VI i
      | RealConst r \<Rightarrow> VR r
      | NotE a \<Rightarrow> VB (ground \<rho> a \<noteq> VB True)
      | And es \<Rightarrow> VB (\<forall>a \<in> set es. ground \<rho> a = VB True)
      | Or es \<Rightarrow> VB (\<exists>a \<in> set es. ground \<rho> a = VB True)
      | Eq a b \<Rightarrow> VB (ground \<rho> a = ground \<rho> b)
      | Ite c a b \<Rightarrow> (if ground \<rho> c = VB True then ground \<rho> a else ground \<rho> b)
      | Select a i \<Rightarrow> array_at (ground \<rho> a) (key_of (ground \<rho> i))
      | Store a i v \<Rightarrow> VArr ((array_at (ground \<rho> a))(key_of (ground \<rho> i) := ground \<rho> v))
      | ConstArray s v \<Rightarrow> VArr (\<lambda>_. ground \<rho> v)
      | Bv op a b \<Rightarrow> bv_apply op (ground \<rho> a) (ground \<rho> b)
      | BvNot a \<Rightarrow> bv_map (\<lambda>x w. VBV (bv_complement w x) w) (ground \<rho> a)
      | BvNeg a \<Rightarrow> bv_map (\<lambda>x w. VBV (bv_neg w x) w) (ground \<rho> a)
      | BvExtract a hi lo \<Rightarrow> bv_map (\<lambda>x w. VBV ((x div 2 ^ lo) mod 2 ^ (hi - lo + 1)) (hi - lo + 1)) (ground \<rho> a)
      | BvZeroExtend a n \<Rightarrow> bv_map (\<lambda>x w. VBV x (w + n)) (ground \<rho> a)
      | BvSignExtend a n \<Rightarrow> bv_map (\<lambda>x w. VBV (if bv_msb w x then x + 2 ^ (w + n) - 2 ^ w else x) (w + n)) (ground \<rho> a)
      | DatatypeConstructor d c es s \<Rightarrow> VData c (map (ground \<rho>) es)
      | DatatypeSelector d f a s \<Rightarrow> data_field (ground \<rho> a) f
      | DatatypeTester d c a \<Rightarrow> VB (constructed_by c (ground \<rho> a))
      | OtherOp f es s \<Rightarrow> other_val f (map (ground \<rho>) es)
      | _ \<Rightarrow> VB False)"
  by pat_completeness auto
termination
  by (relation "measure (size \<circ> snd)") (auto intro: size_member)

declare ground.simps [simp del]

lemma ground_simps [simp]:
  "ground \<rho> (Var x s) = \<rho> x"
  "ground \<rho> (BoolConst t) = VB t"
  "ground \<rho> (BitVecConst n w) = VBV n w"
  "ground \<rho> (IntConst k) = VI k"
  "ground \<rho> (RealConst r) = VR r"
  "ground \<rho> (NotE a) = VB (ground \<rho> a \<noteq> VB True)"
  "ground \<rho> (And es) = VB (\<forall>a \<in> set es. ground \<rho> a = VB True)"
  "ground \<rho> (Or es) = VB (\<exists>a \<in> set es. ground \<rho> a = VB True)"
  "ground \<rho> (Eq a b) = VB (ground \<rho> a = ground \<rho> b)"
  "ground \<rho> (Ite c a b) = (if ground \<rho> c = VB True then ground \<rho> a else ground \<rho> b)"
  "ground \<rho> (Select a i) = array_at (ground \<rho> a) (key_of (ground \<rho> i))"
  "ground \<rho> (Store a i v) = VArr ((array_at (ground \<rho> a))(key_of (ground \<rho> i) := ground \<rho> v))"
  "ground \<rho> (ConstArray u v) = VArr (\<lambda>_. ground \<rho> v)"
  "ground \<rho> (Bv op a b) = bv_apply op (ground \<rho> a) (ground \<rho> b)"
  "ground \<rho> (BvNot a) = bv_map (\<lambda>x w. VBV (bv_complement w x) w) (ground \<rho> a)"
  "ground \<rho> (BvNeg a) = bv_map (\<lambda>x w. VBV (bv_neg w x) w) (ground \<rho> a)"
  "ground \<rho> (BvExtract a hi lo) = bv_map (\<lambda>x w. VBV ((x div 2 ^ lo) mod 2 ^ (hi - lo + 1)) (hi - lo + 1)) (ground \<rho> a)"
  "ground \<rho> (BvZeroExtend a m) = bv_map (\<lambda>x w. VBV x (w + m)) (ground \<rho> a)"
  "ground \<rho> (BvSignExtend a m) = bv_map (\<lambda>x w. VBV (if bv_msb w x then x + 2 ^ (w + m) - 2 ^ w else x) (w + m)) (ground \<rho> a)"
  "ground \<rho> (DatatypeConstructor dn cn es u) = VData cn (map (ground \<rho>) es)"
  "ground \<rho> (DatatypeSelector dn fn a u) = data_field (ground \<rho> a) fn"
  "ground \<rho> (DatatypeTester dn cn a) = VB (constructed_by cn (ground \<rho> a))"
  "ground \<rho> (OtherOp fn es u) = other_val fn (map (ground \<rho>) es)"
  by (subst ground.simps, simp)+

text \<open>The values of the variables are restricted by a table of domains, or not at all.\<close>

definition ground_in :: "(string \<Rightarrow> SVal set) \<Rightarrow> SVal smt" where
  "ground_in D = \<lparr> val = ground, truth = (\<lambda>v. v = VB True), domain_of = D \<rparr>"

abbreviation ground_smt :: "SVal smt" where
  "ground_smt \<equiv> ground_in (\<lambda>_. UNIV)"

lemma ground_cong: "(\<And>x. x \<in> expr_vars e \<Longrightarrow> \<rho> x = \<sigma> x) \<Longrightarrow> ground \<rho> e = ground \<sigma> e"
proof (induction e rule: measure_induct_rule [of size])
  case (less e)
  have sub: "ground \<rho> a = ground \<sigma> a" if "a \<in> set (children e)" for a
  proof (rule less.IH)
    show "size a < size e"
      using that by (rule size_children)
    fix x
    assume "x \<in> expr_vars a"
    then have "x \<in> expr_vars e"
      using that by (cases e) (auto simp: collect_expr_vars_node)
    then show "\<rho> x = \<sigma> x"
      by (rule less.prems)
  qed
  then have "map (ground \<rho>) (children e) = map (ground \<sigma>) (children e)"
    by simp
  then show ?case
    using sub less.prems by (cases e) (auto simp: ground.simps cong: map_cong)
qed

lemma ground_smt_sel [simp]:
  "val (ground_in D) = ground" "truth (ground_in D) v \<longleftrightarrow> v = VB True" "domain_of (ground_in D) = D"
  by (simp_all add: ground_in_def)

lemma fits_ground [simp]: "fits ground_smt \<rho>"
  by (simp add: fits_def)

interpretation ground: smt_model "ground_in D" for D
  by unfold_locales (auto simp: holds_def intro: ground_cong)

end
