(* ===== verification/Chc.thy ===== *)
theory Chc
  imports Chc_Expr
begin

text \<open>
  Constrained Horn clause systems (trust-mc-core/src/chc.rs, constraints.rs): the storage of constraints, rules,
  relations and the verification condition \<open>ChcVc\<close> with its operations, the facts a system derives, and the
  removal of rules that follow from relations nobody establishes (\<open>prune_orphan_block_rules\<close>).

  Sets of names are lists without duplicates; shared and owned storage differ only in representation.
\<close>

section \<open>Constraint storage\<close>

datatype Constraints = Owned "Expr list" | Shared "Expr list" "Expr list"

fun constraints_iter :: "Constraints \<Rightarrow> Expr list" where
  "constraints_iter (Owned v) = v"
| "constraints_iter (Shared base extra) = base @ extra"

fun constraints_len :: "Constraints \<Rightarrow> nat" where
  "constraints_len (Owned v) = length v"
| "constraints_len (Shared base extra) = length base + length extra"

definition constraints_is_empty :: "Constraints \<Rightarrow> bool" where
  "constraints_is_empty c \<longleftrightarrow> constraints_len c = 0"

fun constraints_first :: "Constraints \<Rightarrow> Expr option" where
  "constraints_first (Owned v) = (case v of [] \<Rightarrow> None | e # _ \<Rightarrow> Some e)"
| "constraints_first (Shared base extra) =
     (case base of e # _ \<Rightarrow> Some e | [] \<Rightarrow> (case extra of [] \<Rightarrow> None | e # _ \<Rightarrow> Some e))"

fun constraints_last :: "Constraints \<Rightarrow> Expr option" where
  "constraints_last (Owned v) = (if v = [] then None else Some (last v))"
| "constraints_last (Shared base extra) =
     (if extra \<noteq> [] then Some (last extra) else if base \<noteq> [] then Some (last base) else None)"

definition constraints_eq :: "Constraints \<Rightarrow> Constraints \<Rightarrow> bool" where
  "constraints_eq c d \<longleftrightarrow>
     constraints_len c = constraints_len d \<and> list_all (\<lambda>(a, b). a = b) (zip (constraints_iter c) (constraints_iter d))"

lemma constraints_len_iter [simp]: "constraints_len c = length (constraints_iter c)"
  by (cases c) simp_all

lemma constraints_is_empty_iff [simp]: "constraints_is_empty c \<longleftrightarrow> constraints_iter c = []"
  by (simp add: constraints_is_empty_def)

text \<open>Both representations answer like the plain list of constraints.\<close>

lemma constraints_refine:
  "constraints_first c = (case constraints_iter c of [] \<Rightarrow> None | e # _ \<Rightarrow> Some e)"
  "constraints_last c = (if constraints_iter c = [] then None else Some (last (constraints_iter c)))"
  "constraints_eq c d \<longleftrightarrow> constraints_iter c = constraints_iter d"
proof -
  show "constraints_first c = (case constraints_iter c of [] \<Rightarrow> None | e # _ \<Rightarrow> Some e)"
    by (cases c) (auto split: list.splits)
  show "constraints_last c = (if constraints_iter c = [] then None else Some (last (constraints_iter c)))"
    by (cases c) auto
  have "list_all (\<lambda>(a, b). a = b) (zip xs ys) \<longleftrightarrow> xs = ys" if "length xs = length ys" for xs ys :: "Expr list"
    using that by (induction rule: list_induct2) auto
  then show "constraints_eq c d \<longleftrightarrow> constraints_iter c = constraints_iter d"
    by (auto simp: constraints_eq_def)
qed

section \<open>Clause systems\<close>

record RelationApp =
  app_name :: string
  app_args :: "Expr list"

record RuleBody =
  relation :: "RelationApp option"
  constraints :: Constraints

record Rule =
  body :: RuleBody
  head :: RelationApp

record RelationDecl =
  rel_name :: string
  arg_sorts :: "Sort list"

record VarDecl =
  var_name :: string
  var_sort :: Sort

text \<open>What a check is about (violation.rs), and where it stands in the program (ident.rs).\<close>

datatype PropertyKind =
    Assertion | Assumption | Cover | ArithmeticOverflow | DivisionByZero | OutOfBounds | NullPointer | MemorySafety
  | PointerOverflow | UnreachableCode | Panic | UndefinedBehavior | Precondition | Postcondition | LoopInvariant
  | LoopDecreases | OtherKind

record SourceLocation =
  loc_file :: string
  loc_line :: nat
  loc_column :: "nat option"
  loc_function :: "string option"

datatype Decl = ConstDecl string Sort | FunDecl string "Sort list" Sort | DatatypeDecl Sort

record ChcProperty =
  prop_id :: nat
  prop_kind :: PropertyKind
  prop_bb :: nat
  prop_relation :: string
  prop_message :: "string option"
  prop_location :: "SourceLocation option"
  approximation_dependent :: "bool option"

record ChcVc =
  decls :: "Decl list"
  vars :: "VarDecl list"
  declared_var_names :: "string list"
  relations :: "RelationDecl list"
  rules :: "Rule list"
  query_target :: "string option"
  cover_assertions :: "(string \<times> Expr) list"
  properties :: "ChcProperty list"
  trivially_safe_discharged :: bool
  vacuous_all_checks_unreachable :: bool
  approximated_vars :: "string list"
  accounted_approximations :: nat
  approximation_identity_complete :: bool

definition new_vc :: ChcVc where
  "new_vc = \<lparr> decls = [], vars = [], declared_var_names = [], relations = [], rules = [], query_target = None,
     cover_assertions = [], properties = [], trivially_safe_discharged = False, vacuous_all_checks_unreachable = False, approximated_vars = [], accounted_approximations = 0,
     approximation_identity_complete = False \<rparr>"

definition add_var :: "VarDecl \<Rightarrow> ChcVc \<Rightarrow> ChcVc" where
  "add_var v vc =
     (if var_name v \<in> set (declared_var_names vc) then vc
      else vc\<lparr> declared_var_names := var_name v # declared_var_names vc, vars := vars vc @ [v] \<rparr>)"

definition declare_var :: "string \<Rightarrow> Sort \<Rightarrow> ChcVc \<Rightarrow> Expr \<times> ChcVc" where
  "declare_var x s vc = (Var x s, add_var \<lparr> var_name = x, var_sort = s \<rparr> vc)"

definition retain_vars :: "string list \<Rightarrow> ChcVc \<Rightarrow> ChcVc" where
  "retain_vars keep vc = vc\<lparr>
     vars := filter (\<lambda>v. var_name v \<in> set keep) (vars vc),
     declared_var_names := filter (\<lambda>x. x \<in> set keep) (declared_var_names vc) \<rparr>"

text \<open>Every declared name is declared once, which the solvers' parsers require.\<close>

definition wf_vars :: "ChcVc \<Rightarrow> bool" where
  "wf_vars vc \<longleftrightarrow> distinct (map var_name (vars vc)) \<and> set (declared_var_names vc) = set (map var_name (vars vc))"

lemma wf_vars_new [simp]: "wf_vars new_vc"
  by (simp add: wf_vars_def new_vc_def)

lemma wf_vars_add_var [simp]: "wf_vars vc \<Longrightarrow> wf_vars (add_var v vc)"
  by (auto simp: wf_vars_def add_var_def)

lemma wf_vars_declare_var [simp]: "wf_vars vc \<Longrightarrow> wf_vars (snd (declare_var x s vc))"
  by (simp add: declare_var_def)

lemma wf_vars_retain_vars [simp]: "wf_vars vc \<Longrightarrow> wf_vars (retain_vars keep vc)"
  by (auto simp: wf_vars_def retain_vars_def distinct_map_filter)

text \<open>Constructors of rules.\<close>

definition body_new :: "RelationApp option \<Rightarrow> Expr list \<Rightarrow> RuleBody" where
  "body_new r cs = \<lparr> relation = r, constraints = Owned cs \<rparr>"

definition from_shared_base :: "RelationApp option \<Rightarrow> Expr list \<Rightarrow> Expr list \<Rightarrow> RuleBody" where
  "from_shared_base r base extra = \<lparr> relation = r, constraints = Shared base extra \<rparr>"

definition from_base_and_extra :: "RelationApp option \<Rightarrow> Expr list \<Rightarrow> Expr list \<Rightarrow> RuleBody" where
  "from_base_and_extra r base extra = \<lparr> relation = r, constraints = Owned (base @ extra) \<rparr>"

definition rule_init :: "Expr \<Rightarrow> RelationApp \<Rightarrow> Rule" where
  "rule_init c h = \<lparr> body = body_new None [c], head = h \<rparr>"

definition rule_transition :: "RelationApp \<Rightarrow> Expr option \<Rightarrow> Expr \<Rightarrow> RelationApp \<Rightarrow> Rule" where
  "rule_transition src guard t dst =
     \<lparr> body = body_new (Some src) (t # (case guard of None \<Rightarrow> [] | Some g \<Rightarrow> [g])), head = dst \<rparr>"

abbreviation body_constraints :: "Rule \<Rightarrow> Expr list" where
  "body_constraints r \<equiv> constraints_iter (constraints (body r))"

abbreviation body_relation :: "Rule \<Rightarrow> RelationApp option" where
  "body_relation r \<equiv> relation (body r)"

abbreviation head_name :: "Rule \<Rightarrow> string" where
  "head_name r \<equiv> app_name (head r)"

definition body_name :: "Rule \<Rightarrow> string option" where
  "body_name r = map_option app_name (body_relation r)"

definition rule_apps :: "Rule \<Rightarrow> RelationApp list" where
  "rule_apps r = head r # (case body_relation r of None \<Rightarrow> [] | Some a \<Rightarrow> [a])"

text \<open>Every relation is declared once and applied to as many arguments as declared.\<close>

definition arity_ok :: "ChcVc \<Rightarrow> bool" where
  "arity_ok vc \<longleftrightarrow> distinct (map rel_name (relations vc)) \<and>
     (\<forall>r \<in> set (rules vc). \<forall>a \<in> set (rule_apps r).
        \<exists>d \<in> set (relations vc). rel_name d = app_name a \<and> length (app_args a) = length (arg_sorts d))"

section \<open>Derivable facts\<close>

text \<open>
  The meaning of a system: the facts derived by its rules under an arbitrary term semantics.  The query asks
  whether a fact of its target relation is derivable.
\<close>

definition args_val :: "'v smt \<Rightarrow> (string \<Rightarrow> 'v) \<Rightarrow> RelationApp \<Rightarrow> 'v list" where
  "args_val M \<rho> a = map (val M \<rho>) (app_args a)"

definition fires :: "'v smt \<Rightarrow> (string \<Rightarrow> 'v) \<Rightarrow> Rule \<Rightarrow> bool" where
  "fires M \<rho> r \<longleftrightarrow> fits M \<rho> \<and> (\<forall>c \<in> set (body_constraints r). holds M \<rho> c)"

inductive derives :: "'v smt \<Rightarrow> Rule list \<Rightarrow> string \<Rightarrow> 'v list \<Rightarrow> bool" for M rs where
  fact: "r \<in> set rs \<Longrightarrow> fires M \<rho> r \<Longrightarrow> body_relation r = None \<Longrightarrow> derives M rs (head_name r) (args_val M \<rho> (head r))"
| rule: "r \<in> set rs \<Longrightarrow> fires M \<rho> r \<Longrightarrow> body_relation r = Some a \<Longrightarrow> derives M rs (app_name a) (args_val M \<rho> a) \<Longrightarrow>
     derives M rs (head_name r) (args_val M \<rho> (head r))"

inductive_cases derivesE: "derives M rs p vs"

text \<open>The query: \<open>error\<close> when no target is set.\<close>

definition query_relation :: "ChcVc \<Rightarrow> string" where
  "query_relation vc = (case query_target vc of None \<Rightarrow> ''error'' | Some t \<Rightarrow> t)"

definition reachable_query :: "'v smt \<Rightarrow> ChcVc \<Rightarrow> bool" where
  "reachable_query M vc \<longleftrightarrow> (\<exists>vs. derives M (rules vc) (query_relation vc) vs)"

lemma derives_iff: "derives M rs p vs \<longleftrightarrow>
    (\<exists>r \<in> set rs. \<exists>\<rho>. fires M \<rho> r \<and> p = head_name r \<and> vs = args_val M \<rho> (head r) \<and>
      (case body_relation r of None \<Rightarrow> True | Some a \<Rightarrow> derives M rs (app_name a) (args_val M \<rho> a)))"
  (is "?l \<longleftrightarrow> ?r")
proof
  show "?l \<Longrightarrow> ?r"
    by (cases rule: derives.cases) force+
  assume ?r
  then obtain r \<rho> where "r \<in> set rs" "fires M \<rho> r" "p = head_name r" "vs = args_val M \<rho> (head r)"
      "case body_relation r of None \<Rightarrow> True | Some a \<Rightarrow> derives M rs (app_name a) (args_val M \<rho> a)"
    by blast
  then show ?l
    by (cases "body_relation r") (auto intro: derives.intros)
qed

lemma derives_mono: "derives M rs p vs \<Longrightarrow> set rs \<subseteq> set rs' \<Longrightarrow> derives M rs' p vs"
  by (induction rule: derives.induct) (auto intro: derives.intros)

lemma derives_set: "set rs = set rs' \<Longrightarrow> derives M rs = derives M rs'"
  using derives_mono by blast

lemma derives_headed: "derives M rs p vs \<Longrightarrow> \<exists>r \<in> set rs. head_name r = p"
  by (auto elim: derivesE)

text \<open>
  A system that simulates another: every rule has a counterpart with weaker constraints whose arguments are the
  images under one map of facts per relation.  It derives the images of all facts.
\<close>

lemma derives_image:
  assumes "derives M rs p vs"
    and sim: "\<And>r \<rho>. r \<in> set rs \<Longrightarrow> fires M \<rho> r \<Longrightarrow>
      \<exists>r' \<in> set rs'. \<exists>\<sigma>. fires M \<sigma> r' \<and> app_name (head r') = head_name r \<and>
        args_val M \<sigma> (head r') = f (head_name r) (args_val M \<rho> (head r)) \<and>
        rel_option (\<lambda>a b. app_name b = app_name a \<and> args_val M \<sigma> b = f (app_name a) (args_val M \<rho> a)) (body_relation r) (body_relation r')"
  shows "derives M rs' p (f p vs)"
  using assms(1)
proof (induction rule: derives.induct)
  case (fact r \<rho>)
  from sim [OF fact(1,2)] obtain r' \<sigma> where r': "r' \<in> set rs'" "fires M \<sigma> r'" "head_name r' = head_name r"
      "args_val M \<sigma> (head r') = f (head_name r) (args_val M \<rho> (head r))" "body_relation r' = None"
    using fact(3) by auto
  show ?case
    using derives.fact [OF r'(1,2,5)] by (simp add: r'(3,4))
next
  case (rule r \<rho> a)
  from sim [OF rule(1,2)] obtain r' \<sigma> b where r': "r' \<in> set rs'" "fires M \<sigma> r'" "head_name r' = head_name r"
      "args_val M \<sigma> (head r') = f (head_name r) (args_val M \<rho> (head r))" "body_relation r' = Some b"
      "app_name b = app_name a" "args_val M \<sigma> b = f (app_name a) (args_val M \<rho> a)"
    using rule(3) by (auto simp: option_rel_Some1)
  show ?case
    using derives.rule [OF r'(1,2,5)] rule.IH by (simp add: r'(3,4,6,7))
qed

text \<open>The facts a rule connects: its premise, when it has one, and its conclusion.  Only these matter.\<close>

definition instances :: "'v smt \<Rightarrow> Rule \<Rightarrow> ((string \<times> 'v list) option \<times> string \<times> 'v list) set" where
  "instances M r = {(map_option (\<lambda>a. (app_name a, args_val M \<rho> a)) (body_relation r), head_name r, args_val M \<rho> (head r)) | \<rho>. fires M \<rho> r}"

lemma instances_mono:
  assumes "\<And>\<rho>. fires M \<rho> r \<Longrightarrow> \<exists>\<sigma>. fires M \<sigma> r' \<and> args_val M \<sigma> (head r') = args_val M \<rho> (head r) \<and>
      map_option (\<lambda>a. (app_name a, args_val M \<sigma> a)) (body_relation r') = map_option (\<lambda>a. (app_name a, args_val M \<rho> a)) (body_relation r)"
    and "head_name r' = head_name r"
  shows "instances M r \<subseteq> instances M r'"
proof
  fix t
  assume "t \<in> instances M r"
  then obtain \<rho> where \<rho>: "fires M \<rho> r" "t = (map_option (\<lambda>a. (app_name a, args_val M \<rho> a)) (body_relation r), head_name r, args_val M \<rho> (head r))"
    by (auto simp: instances_def)
  from assms(1) [OF \<rho>(1)] show "t \<in> instances M r'"
    unfolding instances_def \<rho>(2) assms(2) [symmetric] by (elim exE conjE) (intro CollectI exI conjI, simp_all)
qed

lemma instances_derive:
  assumes "(b, p, vs) \<in> instances M r" "r \<in> set rs" "case b of None \<Rightarrow> True | Some (q, us) \<Rightarrow> derives M rs q us"
  shows "derives M rs p vs"
proof -
  from assms(1) obtain \<rho> where \<rho>: "fires M \<rho> r" "b = map_option (\<lambda>a. (app_name a, args_val M \<rho> a)) (body_relation r)"
      "p = head_name r" "vs = args_val M \<rho> (head r)"
    by (auto simp: instances_def)
  then show ?thesis
    using assms(2,3) by (cases "body_relation r") (auto intro: derives.intros)
qed

lemma derives_instances:
  assumes "derives M rs p vs" "\<And>r. r \<in> set rs \<Longrightarrow> instances M r \<subseteq> (\<Union>r' \<in> set rs'. instances M r')"
  shows "derives M rs' p vs"
  using assms(1)
proof (induction rule: derives.induct)
  case (fact r \<rho>)
  then have "(None, head_name r, args_val M \<rho> (head r)) \<in> instances M r"
    by (auto simp: instances_def)
  then obtain r' where "r' \<in> set rs'" "(None, head_name r, args_val M \<rho> (head r)) \<in> instances M r'"
    using assms(2) [OF fact(1)] by blast
  from this(2,1) show ?case
    by (rule instances_derive) simp
next
  case (rule r \<rho> a)
  then have "(Some (app_name a, args_val M \<rho> a), head_name r, args_val M \<rho> (head r)) \<in> instances M r"
    by (auto simp: instances_def)
  then obtain r' where "r' \<in> set rs'" "(Some (app_name a, args_val M \<rho> a), head_name r, args_val M \<rho> (head r)) \<in> instances M r'"
    using assms(2) [OF rule(1)] by blast
  from this(2,1) show ?case
    by (rule instances_derive) (use rule.IH in simp)
qed

lemma derives_same_instances:
  assumes "(\<Union>r \<in> set rs. instances M r) = (\<Union>r \<in> set rs'. instances M r)"
  shows "derives M rs = derives M rs'"
proof (intro ext iffI)
  fix p vs
  show "derives M rs p vs \<Longrightarrow> derives M rs' p vs"
    by (erule derives_instances) (use assms in blast)
  show "derives M rs' p vs \<Longrightarrow> derives M rs p vs"
    by (erule derives_instances) (use assms in blast)
qed

section \<open>Orphan relations\<close>

definition keep_targeted :: "Rule list \<Rightarrow> Rule list" where
  "keep_targeted rs = filter (\<lambda>r. case body_relation r of None \<Rightarrow> True | Some a \<Rightarrow> app_name a \<in> set (map head_name rs)) rs"

lemma keep_targeted_length: "length (keep_targeted rs) \<le> length rs"
  by (simp add: keep_targeted_def)

function prune_rules :: "Rule list \<Rightarrow> Rule list" where
  "prune_rules rs = (let rs' = keep_targeted rs in if length rs - length rs' = 0 then rs' else prune_rules rs')"
  by pat_completeness auto
termination
  by (relation "measure length") auto

declare prune_rules.simps [simp del]

text \<open>Relation names that occur as applied functions in a term.\<close>

function collect_relation_refs_in_expr :: "string list \<Rightarrow> Expr \<Rightarrow> string list" where
  "collect_relation_refs_in_expr names e =
     (case e of FuncApp f es s \<Rightarrow> if f \<in> set names then [f] else [] | _ \<Rightarrow> []) @
     concat (map (collect_relation_refs_in_expr names) (children e))"
  by pat_completeness auto
termination
  by (relation "measure (size \<circ> snd)") (auto intro: size_children)

declare collect_relation_refs_in_expr.simps [simp del]

definition referenced_relations :: "string list \<Rightarrow> Rule list \<Rightarrow> string list" where
  "referenced_relations names rs =
     concat (map (\<lambda>r. head_name r # (case body_relation r of None \<Rightarrow> [] | Some a \<Rightarrow> [app_name a]) @
       concat (map (collect_relation_refs_in_expr names) (body_constraints r))) rs)"

definition prune_orphan_block_rules :: "ChcVc \<Rightarrow> ChcVc" where
  "prune_orphan_block_rules vc =
     (let rs = prune_rules (rules vc);
          names = map rel_name (relations vc);
          referenced = query_relation vc # referenced_relations names rs in
      vc\<lparr> rules := rs, relations := filter (\<lambda>d. rel_name d \<in> set referenced) (relations vc) \<rparr>)"

lemma derives_keep_targeted: "derives M rs p vs \<Longrightarrow> derives M (keep_targeted rs) p vs"
proof (induction rule: derives.induct)
  case (fact r \<rho>)
  then show ?case
    by (intro derives.fact) (auto simp: keep_targeted_def)
next
  case (rule r \<rho> a)
  from derives_headed [OF rule(4)] have "r \<in> set (keep_targeted rs)"
    using rule(1,3) by (auto simp: keep_targeted_def intro: rev_image_eqI)
  then show ?case
    using rule(2,3,5) by (rule derives.rule)
qed

lemma prune_rules_subset: "set (prune_rules rs) \<subseteq> set rs"
proof (induction rs rule: prune_rules.induct)
  case (1 rs)
  have "set (keep_targeted rs) \<subseteq> set rs"
    by (auto simp: keep_targeted_def)
  with 1 show ?case
    by (subst prune_rules.simps) (auto simp: Let_def)
qed

lemma derives_prune_rules: "derives M rs p vs \<Longrightarrow> derives M (prune_rules rs) p vs"
proof (induction rs rule: prune_rules.induct)
  case (1 rs)
  from derives_keep_targeted [OF 1(2)] show ?case
    using 1(1) by (subst prune_rules.simps) (simp add: Let_def)
qed

lemma keep_targeted_same: "length rs - length (keep_targeted rs) = 0 \<Longrightarrow> keep_targeted rs = rs"
  unfolding keep_targeted_def by (simp add: filter_id_conv) (metis filter_True length_filter_less not_le)

lemma prune_rules_targeted: "r \<in> set (prune_rules rs) \<Longrightarrow> body_relation r = Some a \<Longrightarrow> app_name a \<in> head_name ` set (prune_rules rs)"
proof (induction rs rule: prune_rules.induct)
  case (1 rs)
  show ?case
  proof (cases "length rs - length (keep_targeted rs) = 0")
    case True
    then have "prune_rules rs = keep_targeted rs"
      by (subst prune_rules.simps) (simp add: Let_def)
    then have same: "prune_rules rs = rs" "keep_targeted rs = rs"
      using keep_targeted_same [OF True] by simp_all
    from 1(2) have "r \<in> set (keep_targeted rs)"
      by (simp add: same)
    then show ?thesis
      using 1(3) unfolding same(1) keep_targeted_def by simp
  next
    case False
    then have "prune_rules rs = prune_rules (keep_targeted rs)"
      by (subst prune_rules.simps) (simp add: Let_def)
    then show ?thesis
      using 1 False by simp
  qed
qed

lemma rules_prune_orphan [simp]: "rules (prune_orphan_block_rules vc) = prune_rules (rules vc)"
  by (simp add: prune_orphan_block_rules_def Let_def)

lemma prune_orphan_bodies:
  "r \<in> set (prune_rules rs) \<Longrightarrow> body_name r = None \<or> body_name r \<in> (Some \<circ> head_name) ` set (prune_rules rs)"
  using prune_rules_targeted [of r rs] by (cases "body_relation r") (auto simp: body_name_def)

lemma referenced_relationsI:
  assumes "r \<in> set rs" "n = head_name r \<or> Some n = body_name r"
  shows "n \<in> set (referenced_relations names rs)"
proof -
  have "n \<in> set (head_name r # (case body_relation r of None \<Rightarrow> [] | Some a \<Rightarrow> [app_name a]) @
      concat (map (collect_relation_refs_in_expr names) (body_constraints r)))"
    using assms(2) by (cases "body_relation r") (auto simp: body_name_def)
  then show ?thesis
    using assms(1) unfolding referenced_relations_def set_concat set_map by blast
qed

lemma prune_orphan_relations:
  assumes "d \<in> set (relations vc)" "rel_name d = query_relation vc \<or>
      (\<exists>r \<in> set (prune_rules (rules vc)). rel_name d = head_name r \<or> Some (rel_name d) = body_name r)"
  shows "d \<in> set (relations (prune_orphan_block_rules vc))"
proof -
  have "rel_name d \<in> set (query_relation vc # referenced_relations (map rel_name (relations vc)) (prune_rules (rules vc)))"
    using assms(2) referenced_relationsI by auto
  with assms(1) show ?thesis
    by (simp add: prune_orphan_block_rules_def Let_def)
qed

text \<open>C12: Pruning orphan rules changes no derivable fact, under every semantics of terms; afterwards every relation in
  a rule body is established by some rule, and no relation that a remaining rule or the query uses loses its
  declaration.\<close>

theorem prune_orphan_exact:
  "(derives M (rules (prune_orphan_block_rules vc)) p vs \<longleftrightarrow> derives M (rules vc) p vs) \<and>
   (\<forall>r \<in> set (rules (prune_orphan_block_rules vc)).
      body_name r = None \<or> body_name r \<in> (Some \<circ> head_name) ` set (rules (prune_orphan_block_rules vc))) \<and>
   (\<forall>d \<in> set (relations vc). rel_name d = query_relation vc \<or>
      (\<exists>r \<in> set (rules (prune_orphan_block_rules vc)). rel_name d = head_name r \<or> Some (rel_name d) = body_name r) \<longrightarrow>
      d \<in> set (relations (prune_orphan_block_rules vc)))"
proof (intro conjI ballI impI)
  show "derives M (rules (prune_orphan_block_rules vc)) p vs \<longleftrightarrow> derives M (rules vc) p vs"
    using derives_prune_rules derives_mono [OF _ prune_rules_subset] by (metis rules_prune_orphan)
qed (simp_all only: rules_prune_orphan prune_orphan_bodies prune_orphan_relations)

text \<open>A block that nothing enters feeds a second one; both go, and with them the only way to the error.\<close>

definition orphan_vc :: ChcVc where
  "orphan_vc =
     (let app = (\<lambda>n. \<lparr> app_name = n, app_args = [] \<rparr>) in
      new_vc\<lparr>
        relations := [\<lparr> rel_name = ''bb1'', arg_sorts = [] \<rparr>, \<lparr> rel_name = ''error'', arg_sorts = [] \<rparr>],
        rules := [rule_transition (app ''bb0'') None (BoolConst True) (app ''bb1''),
                  rule_transition (app ''bb1'') None (BoolConst True) (app ''error'')] \<rparr>)"

theorem prune_orphan_exact_witness:
  "prune_rules (rules orphan_vc) = [] \<and> derives ground_smt (rules orphan_vc) ''error'' [] = False"
proof -
  have "prune_rules (rules orphan_vc) = []"
    by code_simp
  then show ?thesis
    using prune_orphan_exact [of ground_smt orphan_vc "''error''" "[]"]
    by (auto elim: derivesE)
qed

end
