(* ===== verification/Saturation.thy ===== *)
theory Saturation
  imports Main
begin

text \<open>
  Loops that repeat a pass over a set until nothing is added, as the analyses of clause systems use them.  The loop
  runs on fuel; under the laws of the locale, as many rounds as there are candidates are enough, and the result is the
  least set closed under the pass.  Passes along edges (a target joins when one of its sources is in the set) are
  an interpretation.
\<close>

fun saturate :: "nat \<Rightarrow> ('a list \<Rightarrow> 'a list) \<Rightarrow> 'a list \<Rightarrow> 'a list" where
  "saturate 0 pass s = s"
| "saturate (Suc n) pass s = (let s' = pass s in if s' = s then s else saturate n pass s')"

locale saturating =
  fixes pass :: "'a list \<Rightarrow> 'a list" and candidates :: "'a set"
  assumes grows: "set s \<subseteq> set (pass s)"
    and progress: "pass s \<noteq> s \<Longrightarrow> \<exists>x \<in> candidates. x \<in> set (pass s) \<and> x \<notin> set s"
    and finite_candidates: "finite candidates"
begin

lemma saturate_grows: "set s \<subseteq> set (saturate n pass s)"
  by (induction n arbitrary: s) (use grows in \<open>auto simp: Let_def dest!: subsetD\<close>)

lemma saturate_fixed:
  assumes "card (candidates - set s) < n"
  shows "pass (saturate n pass s) = saturate n pass s"
  using assms
proof (induction n arbitrary: s)
  case (Suc n)
  show ?case
  proof (cases "pass s = s")
    case False
    from progress [OF False] obtain x where x: "x \<in> candidates" "x \<in> set (pass s)" "x \<notin> set s"
      by blast
    then have "candidates - set (pass s) \<subset> candidates - set s"
      using grows [of s] by blast
    then have "card (candidates - set (pass s)) < card (candidates - set s)"
      by (intro psubset_card_mono) (simp_all add: finite_candidates)
    then show ?thesis
      using Suc False by (simp add: Let_def)
  qed simp
qed simp

lemma saturate_least:
  assumes "\<And>s. set s \<subseteq> C \<Longrightarrow> set (pass s) \<subseteq> C" "set s \<subseteq> C"
  shows "set (saturate n pass s) \<subseteq> C"
  using assms(2) by (induction n arbitrary: s) (auto simp: Let_def dest: assms(1) [THEN subsetD, rotated])

end

text \<open>
  The same for tables: a pass that enters a key of a finite set for the first time whenever it changes the table.
\<close>

locale learning =
  fixes pass :: "('k \<times> 'v) list \<Rightarrow> ('k \<times> 'v) list" and candidates :: "'k set"
  assumes keeps_keys: "fst ` set m \<subseteq> fst ` set (pass m)"
    and new_key: "pass m \<noteq> m \<Longrightarrow> \<exists>k \<in> candidates. k \<in> fst ` set (pass m) \<and> k \<notin> fst ` set m"
    and finite_candidates: "finite candidates"
begin

lemma saturate_fixed:
  assumes "card (candidates - fst ` set m) < n"
  shows "pass (saturate n pass m) = saturate n pass m"
  using assms
proof (induction n arbitrary: m)
  case (Suc n)
  show ?case
  proof (cases "pass m = m")
    case False
    from new_key [OF False] obtain k where k: "k \<in> candidates" "k \<in> fst ` set (pass m)" "k \<notin> fst ` set m"
      by blast
    then have "candidates - fst ` set (pass m) \<subset> candidates - fst ` set m"
      using keeps_keys [of m] by blast
    then have "card (candidates - fst ` set (pass m)) < card (candidates - fst ` set m)"
      by (intro psubset_card_mono) (simp_all add: finite_candidates)
    then show ?thesis
      using Suc False by (simp add: Let_def)
  qed simp
qed simp

end

lemma saturate_invariant: "P m \<Longrightarrow> (\<And>m. P m \<Longrightarrow> P (pass m)) \<Longrightarrow> P (saturate n pass m)"
  by (induction n arbitrary: m) (simp_all add: Let_def)

lemma set_fold_insert [simp]: "set (fold List.insert xs ys) = set xs \<union> set ys"
  by (induction xs arbitrary: ys) auto

section \<open>Passes along edges\<close>

fun flow_step :: "'a list \<times> 'a \<Rightarrow> 'a list \<Rightarrow> 'a list" where
  "flow_step (sources, t) s = (if \<exists>x \<in> set sources. x \<in> set s then List.insert t s else s)"

definition flow_pass :: "('a list \<times> 'a) list \<Rightarrow> 'a list \<Rightarrow> 'a list" where
  "flow_pass es s = fold flow_step es s"

lemma flow_step_grows: "\<exists>xs. flow_step e s = xs @ s \<and> set xs \<subseteq> {snd e} - set s"
  by (cases e) (auto simp: List.insert_def)

lemma flow_pass_grows: "\<exists>xs. flow_pass es s = xs @ s \<and> set xs \<subseteq> snd ` set es - set s"
  unfolding flow_pass_def
proof (induction es arbitrary: s)
  case (Cons e es)
  from flow_step_grows [of e s]
  obtain xs where xs: "flow_step e s = xs @ s" "set xs \<subseteq> {snd e} - set s"
    by (elim exE conjE)
  from Cons.IH [of "flow_step e s"]
  obtain ys where ys: "fold flow_step es (flow_step e s) = ys @ flow_step e s" "set ys \<subseteq> snd ` set es - set (flow_step e s)"
    by (elim exE conjE)
  have "fold flow_step (e # es) s = (ys @ xs) @ s"
    using xs(1) ys(1) by simp
  moreover have "set (ys @ xs) \<subseteq> snd ` set (e # es) - set s"
    using xs ys(2) by fastforce
  ultimately show ?case
    by (intro exI conjI)
qed simp

interpretation flow: saturating "flow_pass es" "snd ` set es" for es :: "('a list \<times> 'a) list"
proof
  fix s :: "'a list"
  from flow_pass_grows [of es s]
  obtain xs where xs: "flow_pass es s = xs @ s" "set xs \<subseteq> snd ` set es - set s"
    by (elim exE conjE)
  then show "set s \<subseteq> set (flow_pass es s)"
    by simp
  show "\<exists>x \<in> snd ` set es. x \<in> set (flow_pass es s) \<and> x \<notin> set s" if "flow_pass es s \<noteq> s"
  proof (cases xs)
    case (Cons x ys)
    then show ?thesis
      using xs by (intro bexI [of _ x]) auto
  qed (use that xs in simp)
qed simp

definition flow_closure :: "('a list \<times> 'a) list \<Rightarrow> 'a list \<Rightarrow> 'a list" where
  "flow_closure es s = saturate (Suc (length es)) (flow_pass es) s"

lemma flow_pass_fixedD:
  assumes "flow_pass es s = s" "(sources, t) \<in> set es" "x \<in> set sources" "x \<in> set s"
  shows "t \<in> set s"
  using assms
proof (induction es arbitrary: s)
  case (Cons e es)
  from flow_step_grows [of e s]
  obtain xs where xs: "flow_step e s = xs @ s"
    by (elim exE conjE)
  from flow_pass_grows [of es "flow_step e s"]
  obtain ys where "flow_pass es (flow_step e s) = ys @ flow_step e s"
    by (elim exE conjE)
  then have "ys @ xs @ s = s"
    using Cons.prems(1) xs by (simp add: flow_pass_def)
  then have same: "flow_step e s = s" "flow_pass es s = s"
    using xs Cons.prems(1) by (simp_all add: flow_pass_def)
  show ?case
  proof (cases "e = (sources, t)")
    case True
    then show ?thesis
      using same(1) Cons.prems(3,4) by (auto simp: List.insert_def split: if_splits)
  next
    case False
    then show ?thesis
      using Cons.IH [OF same(2)] Cons.prems by auto
  qed
qed simp

lemma flow_closure_closed:
  assumes "(sources, t) \<in> set es" "x \<in> set sources" "x \<in> set (flow_closure es s)"
  shows "t \<in> set (flow_closure es s)"
proof -
  have "card (snd ` set es - set s) \<le> card (snd ` set es)"
    by (intro card_mono) auto
  also have "\<dots> \<le> length es"
    using card_image_le [of "set es" snd] card_length [of es] by simp
  finally have "flow_pass es (flow_closure es s) = flow_closure es s"
    unfolding flow_closure_def by (intro flow.saturate_fixed) simp
  then show ?thesis
    using assms by (rule flow_pass_fixedD)
qed

lemma flow_closure_grows: "set s \<subseteq> set (flow_closure es s)"
  unfolding flow_closure_def by (rule flow.saturate_grows)

lemma flow_closure_least:
  assumes "set s \<subseteq> C" "\<And>sources t x. (sources, t) \<in> set es \<Longrightarrow> x \<in> set sources \<Longrightarrow> x \<in> C \<Longrightarrow> t \<in> C"
  shows "set (flow_closure es s) \<subseteq> C"
  unfolding flow_closure_def
proof (rule flow.saturate_least [OF _ assms(1)])
  fix s
  assume "set s \<subseteq> C"
  moreover have "set es' \<subseteq> set es \<Longrightarrow> set s \<subseteq> C \<Longrightarrow> set (fold flow_step es' s) \<subseteq> C" for es'
  proof (induction es' arbitrary: s)
    case (Cons e es')
    have "set (flow_step e s) \<subseteq> C"
      using Cons.prems assms(2) [of "fst e" "snd e"] by (cases e) auto
    then show ?case
      using Cons by simp
  qed simp
  ultimately show "set (flow_pass es s) \<subseteq> C"
    by (simp add: flow_pass_def)
qed

section \<open>Breadth-first search\<close>

text \<open>A queue of nodes whose neighbours have not been looked at, and the nodes met so far.\<close>

fun enqueue :: "'a \<Rightarrow> 'a list \<times> 'a list \<Rightarrow> 'a list \<times> 'a list" where
  "enqueue n (q, seen) = (if n \<in> set seen then (q, seen) else (q @ [n], n # seen))"

definition neighbours :: "('a \<times> 'a) list \<Rightarrow> 'a \<Rightarrow> 'a list" where
  "neighbours es v = map snd (filter (\<lambda>e. fst e = v) es)"

lemma enqueue_all:
  "\<exists>new. fold enqueue ns (q, seen) = (q @ rev new, new @ seen) \<and> distinct new \<and> set new = set ns - set seen"
proof (induction ns arbitrary: q seen)
  case (Cons n ns)
  show ?case
  proof (cases "n \<in> set seen")
    case True
    from Cons.IH [of q seen] show ?thesis
      using True by (auto simp: insert_Diff_if)
  next
    case False
    from Cons.IH [of "q @ [n]" "n # seen"] obtain new where new: "fold enqueue ns (q @ [n], n # seen) = ((q @ [n]) @ rev new, new @ n # seen)"
        "distinct new" "set new = set ns - set (n # seen)"
      by blast
    then have "fold enqueue (n # ns) (q, seen) = (q @ rev (new @ [n]), (new @ [n]) @ seen) \<and> distinct (new @ [n]) \<and>
        set (new @ [n]) = set (n # ns) - set seen"
      using False by auto
    then show ?thesis
      by blast
  qed
qed simp

function bfs :: "('a \<times> 'a) list \<Rightarrow> 'a list \<Rightarrow> 'a list \<Rightarrow> 'a list" where
  "bfs es [] seen = seen"
| "bfs es (v # q) seen = (let (q', seen') = fold enqueue (neighbours es v) (q, seen) in bfs es q' seen')"
  by pat_completeness auto
termination
proof (relation "measure (\<lambda>(es, q, seen). length q + card (snd ` set es - set seen))")
  fix es :: "('a \<times> 'a) list" and v q seen x q' seen'
  assume x: "x = fold enqueue (neighbours es v) (q, seen)" "(q', seen') = x"
  from enqueue_all [of "neighbours es v" q seen] obtain new where new: "q' = q @ rev new" "seen' = new @ seen"
      "distinct new" "set new = set (neighbours es v) - set seen"
    using x by auto
  have sub: "set new \<subseteq> snd ` set es - set seen"
    by (auto simp: new(4) neighbours_def)
  have "snd ` set es - set seen' = (snd ` set es - set seen) - set new"
    by (auto simp: new(2))
  then have "card (snd ` set es - set seen') = card (snd ` set es - set seen) - card (set new)"
    using sub by (simp add: card_Diff_subset)
  moreover have "card (set new) \<le> card (snd ` set es - set seen)"
    using sub by (intro card_mono) simp_all
  ultimately show "((es, q', seen'), (es, v # q, seen)) \<in> measure (\<lambda>(es, q, seen). length q + card (snd ` set es - set seen))"
    using new(1,3) by (simp add: distinct_card)
qed simp

declare bfs.simps [simp del]

lemma bfs_grows: "set seen \<subseteq> set (bfs es q seen)"
proof (induction es q seen rule: bfs.induct)
  case (2 es v q seen)
  from enqueue_all [of "neighbours es v" q seen] obtain new where new: "fold enqueue (neighbours es v) (q, seen) = (q @ rev new, new @ seen)"
    by blast
  from 2 [OF new [symmetric] refl] show ?case
    by (subst bfs.simps) (auto simp: new)
qed (simp add: bfs.simps)

lemma bfs_closed:
  assumes "\<And>a b. (a, b) \<in> set es \<Longrightarrow> a \<in> set seen \<Longrightarrow> a \<notin> set q \<Longrightarrow> b \<in> set seen" "set q \<subseteq> set seen"
    and "(a, b) \<in> set es" "a \<in> set (bfs es q seen)"
  shows "b \<in> set (bfs es q seen)"
  using assms
proof (induction es q seen rule: bfs.induct)
  case (2 es v q seen)
  from enqueue_all [of "neighbours es v" q seen] obtain new where new: "fold enqueue (neighbours es v) (q, seen) = (q @ rev new, new @ seen)"
      "set new = set (neighbours es v) - set seen"
    by blast
  have step: "bfs es (v # q) seen = bfs es (q @ rev new) (new @ seen)"
    by (subst bfs.simps) (simp add: new(1))
  have "b' \<in> set (new @ seen)" if e: "(a', b') \<in> set es" "a' \<in> set (new @ seen)" "a' \<notin> set (q @ rev new)" for a' b'
  proof (cases "a' = v")
    case True
    then have "b' \<in> set (neighbours es v)"
      using e(1) by (force simp: neighbours_def)
    then show ?thesis
      by (auto simp: new(2))
  next
    case False
    then show ?thesis
      using e 2(2) [of a' b'] by auto
  qed
  then show ?case
    using 2(1) [OF new(1) [symmetric] refl] 2(3-5) by (auto simp: step)
qed (auto simp: bfs.simps)

lemma bfs_least:
  assumes "set seen \<subseteq> C" "set q \<subseteq> C" "\<And>a b. (a, b) \<in> set es \<Longrightarrow> a \<in> C \<Longrightarrow> b \<in> C"
  shows "set (bfs es q seen) \<subseteq> C"
  using assms
proof (induction es q seen rule: bfs.induct)
  case (2 es v q seen)
  from enqueue_all [of "neighbours es v" q seen] obtain new where new: "fold enqueue (neighbours es v) (q, seen) = (q @ rev new, new @ seen)"
      "set new = set (neighbours es v) - set seen"
    by blast
  have step: "bfs es (v # q) seen = bfs es (q @ rev new) (new @ seen)"
    by (subst bfs.simps) (simp add: new(1))
  have "set new \<subseteq> C"
    using 2(3,4) by (auto simp: new(2) neighbours_def)
  then show ?case
    unfolding step using 2(2-4) by (intro 2(1) [OF new(1) [symmetric] refl]) auto
qed (simp add: bfs.simps)

end
