(* ===== verification/Chc_Taint.thy ===== *)
theory Chc_Taint
  imports Chc Saturation
begin

text \<open>
  Which properties depend on values that a sound approximation has freed (trust-mc-core/src/chc.rs): the bookkeeping of
  freed variables, the flow of their values through definitions, and \<open>finalize_approximation_identity\<close>, whose
  verdict lets the driver certify a counterexample.
\<close>

section \<open>Operations\<close>

definition normalize_approx_var :: "string \<Rightarrow> string" where
  "normalize_approx_var name = (case strip_suffix name ''__out'' of None \<Rightarrow> name | Some b \<Rightarrow> b)"

definition note_additional_freed_var :: "string \<Rightarrow> ChcVc \<Rightarrow> ChcVc" where
  "note_additional_freed_var v vc =
     (let n = normalize_approx_var v in
      if n \<in> set (approximated_vars vc) then vc else vc\<lparr> approximated_vars := approximated_vars vc @ [n] \<rparr>)"

definition record_approximation_identity :: "string option \<Rightarrow> ChcVc \<Rightarrow> ChcVc" where
  "record_approximation_identity freed vc =
     (let vc' = (case freed of None \<Rightarrow> vc | Some v \<Rightarrow> note_additional_freed_var v vc) in
      vc'\<lparr> accounted_approximations := accounted_approximations vc' + 1 \<rparr>)"

definition collect_normalized_names :: "Expr \<Rightarrow> string list" where
  "collect_normalized_names e = map normalize_approx_var (collect_expr_vars e)"

definition expr_reads_tainted :: "Expr \<Rightarrow> string list \<Rightarrow> bool" where
  "expr_reads_tainted e tainted \<longleftrightarrow> (\<exists>x \<in> set (collect_expr_vars e). normalize_approx_var x \<in> set tainted)"

fun definition_lhs_and_rhs_vars :: "Expr \<Rightarrow> (string \<times> string list) option" where
  "definition_lhs_and_rhs_vars (Eq (Var x s) b) =
     (if ends_with x ''__out'' then Some (normalize_approx_var x, collect_normalized_names b) else None)"
| "definition_lhs_and_rhs_vars _ = None"

fun is_definition_constraint :: "Expr \<Rightarrow> bool" where
  "is_definition_constraint (Eq (Var x s) b) \<longleftrightarrow> ends_with x ''__out''"
| "is_definition_constraint _ \<longleftrightarrow> False"

text \<open>The value flow of the whole system, and its closure of the freed variables.\<close>

definition value_flow :: "Rule list \<Rightarrow> (string list \<times> string) list" where
  "value_flow rs = List.map_filter (\<lambda>c. map_option (\<lambda>(l, xs). (xs, l)) (definition_lhs_and_rhs_vars c)) (concat (map body_constraints rs))"

definition tainted_vars :: "ChcVc \<Rightarrow> string list" where
  "tainted_vars vc =
     (if approximated_vars vc = [] then [] else flow_closure (value_flow (rules vc)) (remdups (approximated_vars vc)))"

text \<open>The relations from which a target can be derived.\<close>

definition rule_edges :: "Rule list \<Rightarrow> (string list \<times> string) list" where
  "rule_edges rs = List.map_filter (\<lambda>r. map_option (\<lambda>a. ([head_name r], app_name a)) (body_relation r)) rs"

definition property_reads_tainted :: "ChcVc \<Rightarrow> string \<Rightarrow> string list \<Rightarrow> bool" where
  "property_reads_tainted vc target tainted \<longleftrightarrow>
     tainted \<noteq> [] \<and>
     (let reachable = flow_closure (rule_edges (rules vc)) [target] in
      \<exists>r \<in> set (rules vc). head_name r \<in> set reachable \<and>
        (\<exists>c \<in> set (body_constraints r). \<not> is_definition_constraint c \<and> expr_reads_tainted c tainted))"

definition finalize_approximation_identity :: "nat \<Rightarrow> ChcVc \<Rightarrow> ChcVc" where
  "finalize_approximation_identity events vc =
     (let tainted = tainted_vars vc in
      vc\<lparr> approximation_identity_complete := events \<le> accounted_approximations vc,
          properties := map (\<lambda>p. p\<lparr> approximation_dependent := Some (property_reads_tainted vc (prop_relation p) tainted) \<rparr>) (properties vc) \<rparr>)"

section \<open>Closure facts\<close>

lemma normalize_out [simp]: "normalize_approx_var (x @ ''__out'') = x"
proof -
  have "strip_suffix (x @ ''__out'') ''__out'' = Some x"
    by (simp add: strip_suffix_Some)
  then show ?thesis
    by (simp only: normalize_approx_var_def option.case)
qed

lemma normalize_id: "\<not> ends_with x ''__out'' \<Longrightarrow> normalize_approx_var x = x"
  by (auto simp: normalize_approx_var_def ends_with_def)

lemma set_value_flow: "(xs, l) \<in> set (value_flow rs) \<longleftrightarrow>
    (\<exists>r \<in> set rs. \<exists>c \<in> set (body_constraints r). definition_lhs_and_rhs_vars c = Some (l, xs))"
  by (force simp: value_flow_def set_map_filter)

lemma set_rule_edges: "(ps, q) \<in> set (rule_edges rs) \<longleftrightarrow>
    (\<exists>r \<in> set rs. \<exists>a. body_relation r = Some a \<and> ps = [head_name r] \<and> q = app_name a)"
  by (force simp: rule_edges_def set_map_filter)

lemma freed_tainted: "set (approximated_vars vc) \<subseteq> set (tainted_vars vc)"
  using flow_closure_grows [of "remdups (approximated_vars vc)"] by (simp add: tainted_vars_def)

lemma taint_flows:
  assumes "r \<in> set (rules vc)" "Eq (Var x s) b \<in> set (body_constraints r)" "ends_with x ''__out''"
    and "y \<in> expr_vars b" "normalize_approx_var y \<in> set (tainted_vars vc)"
  shows "normalize_approx_var x \<in> set (tainted_vars vc)"
proof -
  have "(collect_normalized_names b, normalize_approx_var x) \<in> set (value_flow (rules vc))"
    using assms(1-3) by (auto simp: set_value_flow intro!: bexI [of _ r] bexI [of _ "Eq (Var x s) b"])
  moreover have "normalize_approx_var y \<in> set (collect_normalized_names b)"
    using assms(4) by (simp add: collect_normalized_names_def)
  ultimately show ?thesis
    using assms(5) flow_closure_closed by (fastforce simp: tainted_vars_def split: if_splits)
qed

lemma guard_untainted:
  assumes "\<not> property_reads_tainted vc target (tainted_vars vc)"
    and "r \<in> set (rules vc)" "head_name r \<in> set (flow_closure (rule_edges (rules vc)) [target])"
    and "c \<in> set (body_constraints r)" "\<not> is_definition_constraint c" "x \<in> expr_vars c"
  shows "normalize_approx_var x \<notin> set (tainted_vars vc)"
  using assms by (auto simp: property_reads_tainted_def expr_reads_tainted_def Let_def)

lemma backward_reachable:
  assumes "r \<in> set rs" "body_relation r = Some a" "head_name r \<in> set (flow_closure (rule_edges rs) s)"
  shows "app_name a \<in> set (flow_closure (rule_edges rs) s)"
  using assms by (intro flow_closure_closed [of "[head_name r]" "app_name a"]) (auto simp: set_rule_edges)

end
