(* ===== verification/Chc_Genuine.thy ===== *)
theory Chc_Genuine
  imports Chc_Taint
begin

text \<open>
  What the verdict of \<open>finalize_approximation_identity\<close> is good for.  An approximated system lacks the definitions of
  the freed variables; a system that restores them has fewer solutions.  A property that is reported independent of
  the freed variables is violated in the approximated system only if it is violated in every restored one, provided
  that the rules have the shape the encoder gives them: relation columns are named consistently, bodies name
  pre-states, and each rule defines its post-state names once and in order.
\<close>

section \<open>Rules in frame shape\<close>

fun def_of :: "Expr \<Rightarrow> (string \<times> Expr) option" where
  "def_of (Eq (Var x s) e) = (if ends_with x ''__out'' then Some (x, e) else None)"
| "def_of _ = None"

definition definitions_of :: "Rule \<Rightarrow> (string \<times> Expr) list" where
  "definitions_of r = List.map_filter def_of (body_constraints r)"

fun ssa :: "(string \<times> Expr) list \<Rightarrow> bool" where
  "ssa [] \<longleftrightarrow> True"
| "ssa ((x, e) # ds) \<longleftrightarrow> x \<notin> expr_vars e \<and> (\<forall>(y, _) \<in> set ds. y \<noteq> x \<and> y \<notin> expr_vars e) \<and> ssa ds"

fun arg_name :: "Expr \<Rightarrow> string option" where
  "arg_name (Var x s) = Some x"
| "arg_name _ = None"

definition app_framed :: "(string \<Rightarrow> string list) \<Rightarrow> RelationApp \<Rightarrow> bool" where
  "app_framed cols a \<longleftrightarrow> map (map_option normalize_approx_var \<circ> arg_name) (app_args a) = map Some (cols (app_name a))"

definition app_vars :: "RelationApp \<Rightarrow> string list" where
  "app_vars a = List.map_filter arg_name (app_args a)"

definition rule_framed :: "(string \<Rightarrow> string list) \<Rightarrow> Rule \<Rightarrow> bool" where
  "rule_framed cols r \<longleftrightarrow> app_framed cols (head r) \<and> ssa (definitions_of r) \<and>
     (case body_relation r of None \<Rightarrow> True
      | Some a \<Rightarrow> app_framed cols a \<and> distinct (app_vars a) \<and> (\<forall>x \<in> set (app_vars a). \<not> ends_with x ''__out''))"

text \<open>The restored system: the same rules with more definitions, all of them of freed variables.\<close>

definition rule_restores :: "string list \<Rightarrow> Rule \<Rightarrow> Rule \<Rightarrow> bool" where
  "rule_restores freed r r' \<longleftrightarrow> head r' = head r \<and> body_relation r' = body_relation r \<and>
     set (body_constraints r) \<subseteq> set (body_constraints r') \<and>
     (\<forall>c \<in> set (body_constraints r') - set (body_constraints r).
        case def_of c of None \<Rightarrow> False | Some (x, _) \<Rightarrow> normalize_approx_var x \<in> set freed)"

text \<open>Pre-state and post-state of a slot have one sort, and definitions respect it.\<close>

definition frame_sorted :: "'v smt \<Rightarrow> Rule list \<Rightarrow> bool" where
  "frame_sorted M rs \<longleftrightarrow> (\<forall>x. domain_of M x = domain_of M (normalize_approx_var x)) \<and>
     (\<forall>r \<in> set rs. \<forall>(x, e) \<in> set (definitions_of r). \<forall>\<rho>. fits M \<rho> \<longrightarrow> val M \<rho> e \<in> domain_of M x)"

lemma frame_sortedD:
  "frame_sorted M rs \<Longrightarrow> r \<in> set rs \<Longrightarrow> (x, e) \<in> set (definitions_of r) \<Longrightarrow> fits M \<rho> \<Longrightarrow> val M \<rho> e \<in> domain_of M x"
  unfolding frame_sorted_def by blast

lemma list_all2_member: "list_all2 P xs ys \<Longrightarrow> x \<in> set xs \<Longrightarrow> \<exists>y \<in> set ys. P x y"
  by (induction rule: list_all2_induct) auto

lemma def_of_Some: "def_of c = Some (x, e) \<longleftrightarrow> (\<exists>s. c = Eq (Var x s) e \<and> ends_with x ''__out'')"
  by (cases c rule: def_of.cases) auto

lemma def_of_constraint: "is_definition_constraint c \<longleftrightarrow> def_of c \<noteq> None"
  by (cases c rule: def_of.cases) auto

lemma set_definitions: "(x, e) \<in> set (definitions_of r) \<longleftrightarrow> (\<exists>c \<in> set (body_constraints r). def_of c = Some (x, e))"
  by (simp add: definitions_of_def set_map_filter)

lemma ssa_filter: "ssa ds \<Longrightarrow> ssa (filter P ds)"
  by (induction ds rule: ssa.induct) auto

lemma app_framed_args: "app_framed cols a \<Longrightarrow>
    map normalize_approx_var (app_vars a) = cols (app_name a) \<and> (\<exists>ss. app_args a = map2 Var (app_vars a) ss \<and> length ss = length (app_vars a))"
proof -
  have "map (map_option normalize_approx_var \<circ> arg_name) as = map Some cs \<Longrightarrow>
      map normalize_approx_var (List.map_filter arg_name as) = cs \<and>
      (\<exists>ss. as = map2 Var (List.map_filter arg_name as) ss \<and> length ss = length (List.map_filter arg_name as))" for as cs
  proof (induction as arbitrary: cs)
    case (Cons e as)
    from Cons.prems obtain c cs' where cs: "cs = c # cs'" "map_option normalize_approx_var (arg_name e) = Some c"
        "map (map_option normalize_approx_var \<circ> arg_name) as = map Some cs'"
      by (cases cs) (auto simp: comp_def)
    from cs(2) obtain x s where e: "e = Var x s" "normalize_approx_var x = c"
      by (cases e) auto
    from Cons.IH [OF cs(3)] obtain ss where ss: "as = map2 Var (List.map_filter arg_name as) ss"
        "length ss = length (List.map_filter arg_name as)" "map normalize_approx_var (List.map_filter arg_name as) = cs'"
      by (elim conjE exE)
    show ?case
      using ss e cs(1) by (auto simp: map_filter_simps intro!: exI [of _ "s # ss"])
  qed (simp add: map_filter_simps)
  then show "app_framed cols a \<Longrightarrow> ?thesis"
    by (simp add: app_framed_def app_vars_def)
qed

context smt_model begin

lemma args_val_vars:
  assumes "app_framed cols a"
  shows "args_val M \<rho> a = map \<rho> (app_vars a)"
proof -
  obtain ss where ss: "app_args a = map2 Var (app_vars a) ss" "length ss = length (app_vars a)"
    using app_framed_args [OF assms] by blast
  have "map (val M \<rho>) (map2 Var xs ss) = map \<rho> xs" if "length ss = length xs" for xs
    using that by (induction rule: list_induct2) (simp_all add: val_Var)
  with ss show ?thesis
    by (simp add: args_val_def)
qed

section \<open>Executing definitions\<close>

definition assign :: "(string \<times> Expr) list \<Rightarrow> (string \<Rightarrow> 'v) \<Rightarrow> string \<Rightarrow> 'v" where
  "assign ds \<rho> = fold (\<lambda>(x, e) \<rho>. \<rho>(x := val M \<rho> e)) ds \<rho>"

lemma assign_Nil [simp]: "assign [] \<rho> = \<rho>"
  by (simp add: assign_def)

lemma assign_Cons: "assign ((x, e) # ds) \<rho> = assign ds (\<rho>(x := val M \<rho> e))"
  by (simp add: assign_def)

lemma assign_other: "x \<notin> fst ` set ds \<Longrightarrow> assign ds \<rho> x = \<rho> x"
  by (induction ds arbitrary: \<rho>) (auto simp: assign_Cons)

lemma assign_solves:
  assumes "ssa ds" "(x, e) \<in> set ds"
  shows "assign ds \<rho> x = val M (assign ds \<rho>) e"
  using assms
proof (induction ds arbitrary: \<rho> rule: ssa.induct)
  case (2 y d ds)
  show ?case
  proof (cases "(x, e) = (y, d)")
    case True
    let ?\<rho> = "\<rho>(y := val M \<rho> d)"
    have "x \<notin> fst ` set ds" "\<And>z. z \<in> expr_vars e \<Longrightarrow> z \<notin> fst ` set ds \<and> z \<noteq> y"
      using 2(2) True by force+
    then have "assign ds ?\<rho> x = val M \<rho> d" "val M (assign ds ?\<rho>) e = val M \<rho> e"
      using True by (auto simp: assign_other intro!: val_cong)
    then show ?thesis
      using True by (simp add: assign_Cons)
  next
    case False
    then have "(x, e) \<in> set ds"
      using 2(3) by auto
    then show ?thesis
      using 2(1,2) by (simp add: assign_Cons)
  qed
qed simp

lemma assign_fits:
  assumes "fits M \<rho>" "\<And>x e \<sigma>. (x, e) \<in> set ds \<Longrightarrow> fits M \<sigma> \<Longrightarrow> val M \<sigma> e \<in> domain_of M x"
  shows "fits M (assign ds \<rho>)"
  using assms by (induction ds arbitrary: \<rho>) (auto simp: assign_Cons fits_update)

section \<open>Replaying a rule\<close>

text \<open>A rule of the approximated system fires in the restored one, with new values of tainted variables only.\<close>

lemma refire:
  assumes fires: "fires M \<rho> r" and restores: "rule_restores freed r r'" and "ssa (definitions_of r')"
    and freed: "set freed \<subseteq> T"
    and flow: "\<And>x s e y. Eq (Var x s) e \<in> set (body_constraints r) \<Longrightarrow> ends_with x ''__out'' \<Longrightarrow> y \<in> expr_vars e \<Longrightarrow>
      normalize_approx_var y \<in> T \<Longrightarrow> normalize_approx_var x \<in> T"
    and guards: "\<And>c y. c \<in> set (body_constraints r) \<Longrightarrow> \<not> is_definition_constraint c \<Longrightarrow> y \<in> expr_vars c \<Longrightarrow> normalize_approx_var y \<notin> T"
    and sorted: "\<And>x e \<sigma>. (x, e) \<in> set (definitions_of r') \<Longrightarrow> fits M \<sigma> \<Longrightarrow> val M \<sigma> e \<in> domain_of M x"
    and xs: "distinct xs" "\<And>x. x \<in> set xs \<Longrightarrow> \<not> ends_with x ''__out''" "length vs = length xs"
    and vs: "\<And>i. i < length xs \<Longrightarrow> (normalize_approx_var (xs ! i) \<notin> T \<longrightarrow> vs ! i = \<rho> (xs ! i)) \<and> vs ! i \<in> domain_of M (xs ! i)"
  shows "\<exists>\<sigma>. fires M \<sigma> r' \<and> map \<sigma> xs = vs \<and> (\<forall>x. normalize_approx_var x \<notin> T \<longrightarrow> \<sigma> x = \<rho> x)"
proof -
  define \<rho>0 where "\<rho>0 = (\<lambda>x. case map_of (zip xs vs) x of None \<Rightarrow> \<rho> x | Some v \<Rightarrow> v)"
  define ds where "ds = filter (\<lambda>(x, e). normalize_approx_var x \<in> T) (definitions_of r')"
  define \<sigma> where "\<sigma> = assign ds \<rho>0"
  have at: "\<rho>0 (xs ! i) = vs ! i" if "i < length xs" for i
    using that xs(1,3) by (simp add: \<rho>0_def map_of_zip_nth)
  have other: "\<rho>0 x = \<rho> x" if "x \<notin> set xs" for x
  proof -
    have "map_of (zip xs vs) x = None"
      using that xs(3) by (simp add: map_of_zip_is_None)
    then show ?thesis
      by (simp add: \<rho>0_def)
  qed
  have same0: "\<rho>0 x = \<rho> x" if "normalize_approx_var x \<notin> T" for x
    using that vs at other by (cases "x \<in> set xs") (auto simp: in_set_conv_nth)
  have tainted: "normalize_approx_var x \<in> T" if "x \<in> fst ` set ds" for x
    using that by (auto simp: ds_def)
  have same: "\<sigma> x = \<rho> x" if "normalize_approx_var x \<notin> T" for x
    using that tainted same0 by (metis \<sigma>_def assign_other)
  have "\<rho>0 x \<in> domain_of M x" for x
    using fires vs at other by (cases "x \<in> set xs") (auto simp: in_set_conv_nth fires_def fits_def)
  then have fits: "fits M \<sigma>"
    unfolding \<sigma>_def by (intro assign_fits) (auto simp: fits_def ds_def sorted)
  have "ends_with x ''__out''" if "x \<in> fst ` set ds" for x
    using that by (auto simp: ds_def set_definitions def_of_Some)
  then have "\<sigma> x = \<rho>0 x" if "x \<in> set xs" for x
    using that xs(2) by (metis \<sigma>_def assign_other)
  then have "map \<sigma> xs = vs"
    using at xs(3) by (auto intro: nth_equalityI)
  moreover have "holds M \<sigma> c" if c: "c \<in> set (body_constraints r')" for c
  proof (cases "\<exists>x e. def_of c = Some (x, e) \<and> normalize_approx_var x \<in> T")
    case True
    then obtain x e where d: "def_of c = Some (x, e)" "normalize_approx_var x \<in> T"
      by blast
    then have "(x, e) \<in> set ds"
      using c by (auto simp: ds_def set_definitions)
    then have "\<sigma> x = val M \<sigma> e"
      unfolding \<sigma>_def by (intro assign_solves) (simp_all add: ds_def ssa_filter assms(3))
    then show ?thesis
      using d(1) by (auto simp: def_of_Some holds_Eq val_Var)
  next
    case untainted: False
    have r: "c \<in> set (body_constraints r)"
    proof (rule ccontr)
      assume "c \<notin> set (body_constraints r)"
      with restores c have "case def_of c of None \<Rightarrow> False | Some (x, _) \<Rightarrow> normalize_approx_var x \<in> set freed"
        by (simp add: rule_restores_def)
      then show False
        using untainted freed by (auto split: option.splits)
    qed
    have "normalize_approx_var y \<notin> T" if "y \<in> expr_vars c" for y
    proof (cases "def_of c")
      case None
      then show ?thesis
        using guards [OF r _ that] by (simp add: def_of_constraint)
    next
      case (Some d)
      then obtain x s e where e: "c = Eq (Var x s) e" "ends_with x ''__out''" "normalize_approx_var x \<notin> T"
        using untainted by (cases d) (auto simp: def_of_Some)
      then show ?thesis
        using flow [of x s e y] r that by auto
    qed
    then have "holds M \<sigma> c = holds M \<rho> c"
      by (intro holds_cong same)
    then show ?thesis
      using fires r by (simp add: fires_def)
  qed
  ultimately show ?thesis
    using fits same by (auto simp: fires_def)
qed

section \<open>Replaying a derivation\<close>

text \<open>Facts that agree on the untainted columns.\<close>

definition agrees :: "string set \<Rightarrow> string list \<Rightarrow> 'v list \<Rightarrow> 'v list \<Rightarrow> bool" where
  "agrees T cs vs ws \<longleftrightarrow> length ws = length cs \<and> length vs = length cs \<and>
     (\<forall>i < length cs. (cs ! i \<notin> T \<longrightarrow> ws ! i = vs ! i) \<and> ws ! i \<in> domain_of M (cs ! i))"

lemma agrees_args:
  assumes "app_framed cols a" "fits M \<sigma>" "\<And>x. domain_of M x = domain_of M (normalize_approx_var x)"
    and "\<And>x. normalize_approx_var x \<notin> T \<Longrightarrow> \<sigma> x = \<rho> x"
  shows "agrees T (cols (app_name a)) (args_val M \<rho> a) (args_val M \<sigma> a)"
proof -
  have "cols (app_name a) = map normalize_approx_var (app_vars a)"
    using app_framed_args [OF assms(1)] by simp
  then show ?thesis
    using assms(2-4) by (auto simp: agrees_def args_val_vars [OF assms(1)] fits_def)
qed

lemma refire_rule:
  assumes r: "r \<in> set (rules vc)" "head_name r \<in> set (flow_closure (rule_edges (rules vc)) [target])"
    and verdict: "\<not> property_reads_tainted vc target (tainted_vars vc)"
    and fires: "fires M \<rho> r" and restores: "rule_restores (approximated_vars vc) r r'"
    and "rule_framed cols r'" "frame_sorted M rs'" "r' \<in> set rs'"
    and xs: "distinct xs" "\<forall>x \<in> set xs. \<not> ends_with x ''__out''" "length ws = length xs"
    and ws: "\<And>i. i < length xs \<Longrightarrow> (normalize_approx_var (xs ! i) \<notin> set (tainted_vars vc) \<longrightarrow> ws ! i = \<rho> (xs ! i)) \<and> ws ! i \<in> domain_of M (xs ! i)"
  shows "\<exists>\<sigma>. fires M \<sigma> r' \<and> map \<sigma> xs = ws \<and> (\<forall>x. normalize_approx_var x \<notin> set (tainted_vars vc) \<longrightarrow> \<sigma> x = \<rho> x)"
proof (rule refire [OF fires restores _ freed_tainted])
  show "ssa (definitions_of r')"
    using assms(6) by (simp add: rule_framed_def)
  show "normalize_approx_var x \<in> set (tainted_vars vc)" if "Eq (Var x s) e \<in> set (body_constraints r)"
    "ends_with x ''__out''" "y \<in> expr_vars e" "normalize_approx_var y \<in> set (tainted_vars vc)" for x s e y
    using taint_flows [OF r(1) that] .
  show "normalize_approx_var y \<notin> set (tainted_vars vc)" if "c \<in> set (body_constraints r)" "\<not> is_definition_constraint c"
    "y \<in> expr_vars c" for c y
    using guard_untainted [OF verdict r that] .
  show "val M \<sigma> e \<in> domain_of M x" if "(x, e) \<in> set (definitions_of r')" "fits M \<sigma>" for x e \<sigma>
    using frame_sortedD [OF assms(7,8) that] .
qed (use xs ws in auto)

lemma replay:
  assumes "derives M (rules vc) p vs"
    and target: "p \<in> set (flow_closure (rule_edges (rules vc)) [target])"
    and verdict: "\<not> property_reads_tainted vc target (tainted_vars vc)"
    and restores: "list_all2 (rule_restores (approximated_vars vc)) (rules vc) rs'"
    and framed: "\<forall>r' \<in> set rs'. rule_framed cols r'"
    and sorted: "frame_sorted M rs'"
  shows "\<exists>ws. derives M rs' p ws \<and> agrees (set (tainted_vars vc)) (cols p) vs ws"
  using assms(1) target
proof (induction rule: derives.induct)
  case (fact r \<rho>)
  obtain r' where r': "r' \<in> set rs'" "rule_restores (approximated_vars vc) r r'"
    using list_all2_member [OF restores fact(1)] by blast
  then have same: "head r' = head r" "body_relation r' = None"
    using fact(3) by (simp_all add: rule_restores_def)
  have fr: "rule_framed cols r'"
    using framed r'(1) by simp
  obtain \<sigma> where \<sigma>: "fires M \<sigma> r'" "\<And>x. normalize_approx_var x \<notin> set (tainted_vars vc) \<Longrightarrow> \<sigma> x = \<rho> x"
    using refire_rule [OF fact(1,4) verdict fact(2) r'(2) fr sorted r'(1), of "[]" "[]"] by auto
  have "derives M rs' (head_name r) (args_val M \<sigma> (head r))"
    using derives.fact [OF r'(1) \<sigma>(1) same(2)] by (simp add: same(1))
  moreover have "agrees (set (tainted_vars vc)) (cols (head_name r)) (args_val M \<rho> (head r)) (args_val M \<sigma> (head r))"
    using fr \<sigma> sorted same(1) by (intro agrees_args) (auto simp: rule_framed_def frame_sorted_def fires_def)
  ultimately show ?case
    by blast
next
  case (rule r \<rho> a)
  obtain r' where r': "r' \<in> set rs'" "rule_restores (approximated_vars vc) r r'"
    using list_all2_member [OF restores rule(1)] by blast
  then have same: "head r' = head r" "body_relation r' = Some a"
    using rule(3) by (simp_all add: rule_restores_def)
  have fr: "rule_framed cols r'"
    using framed r'(1) by simp
  then have a: "app_framed cols a" "distinct (app_vars a)" "\<forall>x \<in> set (app_vars a). \<not> ends_with x ''__out''"
    using same(2) by (auto simp: rule_framed_def)
  have "app_name a \<in> set (flow_closure (rule_edges (rules vc)) [target])"
    using backward_reachable [OF rule(1,3,6)] .
  then obtain ws where ws: "derives M rs' (app_name a) ws" "agrees (set (tainted_vars vc)) (cols (app_name a)) (args_val M \<rho> a) ws"
    using rule.IH by blast
  have cols: "cols (app_name a) = map normalize_approx_var (app_vars a)"
    using app_framed_args [OF a(1)] by simp
  have dom: "domain_of M x = domain_of M (normalize_approx_var x)" for x
    using sorted by (simp add: frame_sorted_def)
  have at: "(normalize_approx_var (app_vars a ! i) \<notin> set (tainted_vars vc) \<longrightarrow> ws ! i = \<rho> (app_vars a ! i)) \<and>
      ws ! i \<in> domain_of M (app_vars a ! i)" if "i < length (app_vars a)" for i
    using ws(2) that dom [of "app_vars a ! i"] by (simp add: agrees_def cols args_val_vars [OF a(1)])
  have len: "length ws = length (app_vars a)"
    using ws(2) by (simp add: agrees_def cols)
  obtain \<sigma> where \<sigma>: "fires M \<sigma> r'" "map \<sigma> (app_vars a) = ws" "\<And>x. normalize_approx_var x \<notin> set (tainted_vars vc) \<Longrightarrow> \<sigma> x = \<rho> x"
    using refire_rule [OF rule(1,6) verdict rule(2) r'(2) fr sorted r'(1) a(2,3) len at] by blast
  have "args_val M \<sigma> a = ws"
    using \<sigma>(2) by (simp add: args_val_vars [OF a(1)])
  then have "derives M rs' (head_name r) (args_val M \<sigma> (head r))"
    using derives.rule [OF r'(1) \<sigma>(1) same(2)] ws(1) by (simp add: same(1))
  moreover have "agrees (set (tainted_vars vc)) (cols (head_name r)) (args_val M \<rho> (head r)) (args_val M \<sigma> (head r))"
    using fr \<sigma> sorted same(1) by (intro agrees_args) (auto simp: rule_framed_def frame_sorted_def fires_def)
  ultimately show ?case
    by blast
qed

end

text \<open>C11: A property that finalisation reports as independent of the freed variables, and that is violated in the
  approximated system, is violated in every system that restores definitions of freed variables, if its rules are in
  frame shape and well sorted: the counterexample is not an artefact of the approximation.\<close>

theorem independent_violation_genuine:
  assumes "smt_model M"
    and "prop \<in> set (properties (finalize_approximation_identity events vc))" "approximation_dependent prop = Some False"
    and "list_all2 (rule_restores (approximated_vars vc)) (rules vc) rs'" "\<forall>r' \<in> set rs'. rule_framed cols r'"
    and "frame_sorted M rs'" and "derives M (rules vc) (prop_relation prop) vs"
  shows "\<exists>ws. derives M rs' (prop_relation prop) ws"
proof -
  have "\<not> property_reads_tainted vc (prop_relation prop) (tainted_vars vc)"
    using assms(2,3) by (auto simp: finalize_approximation_identity_def Let_def)
  moreover have "prop_relation prop \<in> set (flow_closure (rule_edges (rules vc)) [prop_relation prop])"
    using flow_closure_grows [of "[prop_relation prop]"] by simp
  ultimately show ?thesis
    using smt_model.replay [OF assms(1,7) _ _ assms(4-6)] by blast
qed

text \<open>One slot is freed, the other is set and checked.\<close>

definition bv8 :: "string \<Rightarrow> Expr" where
  "bv8 x = Var x (SBitVec 8)"

definition check0 :: "bool option \<Rightarrow> ChcProperty" where
  "check0 d = \<lparr> prop_id = 0, prop_kind = Assertion, prop_bb = 0, prop_relation = ''error_p0'', prop_message = None,
     prop_location = None, approximation_dependent = d \<rparr>"

definition two_slots :: "Expr list \<Rightarrow> Rule list" where
  "two_slots restored =
     [\<lparr> body = body_new None (Eq (bv8 ''_2__out'') (BitVecConst 1 8) # restored),
        head = \<lparr> app_name = ''bb0'', app_args = [bv8 ''_1__out'', bv8 ''_2__out''] \<rparr> \<rparr>,
      \<lparr> body = body_new (Some \<lparr> app_name = ''bb0'', app_args = [bv8 ''_1'', bv8 ''_2''] \<rparr>) [Eq (bv8 ''_2'') (BitVecConst 1 8)],
        head = \<lparr> app_name = ''error_p0'', app_args = [] \<rparr> \<rparr>]"

definition two_slots_vc :: ChcVc where
  "two_slots_vc = record_approximation_identity (Some ''_1__out'')
     (new_vc\<lparr> rules := two_slots [],
        properties := [check0 None] \<rparr>)"

theorem independent_violation_genuine_witness:
  "\<exists>ws. derives ground_smt (two_slots [Eq (bv8 ''_1__out'') (BitVecConst 7 8)]) ''error_p0'' ws"
proof -
  define cols :: "string \<Rightarrow> string list" where "cols p = (if p = ''bb0'' then [''_1'', ''_2''] else [])" for p
  let ?rs = "two_slots [Eq (bv8 ''_1__out'') (BitVecConst 7 8)]"
  have vc: "approximated_vars two_slots_vc = [''_1'']" "rules two_slots_vc = two_slots []"
    "properties (finalize_approximation_identity 1 two_slots_vc) = [check0 (Some False)]"
    by code_simp+
  have restores: "list_all2 (rule_restores [''_1'']) (two_slots []) ?rs"
    by code_simp
  have framed: "\<forall>r' \<in> set ?rs. rule_framed cols r'"
    unfolding cols_def by code_simp
  have sorted: "frame_sorted ground_smt ?rs"
    by (simp add: frame_sorted_def)
  have "derives ground_smt (two_slots []) ''bb0'' [VBV 7 8, VBV 1 8]"
    using derives.fact [of "hd (two_slots [])" "two_slots []" ground_smt "(\<lambda>_. VBV 7 8)(''_2__out'' := VBV 1 8)"]
    by (simp add: two_slots_def bv8_def fires_def body_new_def holds_def args_val_def)
  then have "derives ground_smt (two_slots []) ''error_p0'' []"
    using derives.rule [of "last (two_slots [])" "two_slots []" ground_smt "(\<lambda>_. VBV 7 8)(''_2'' := VBV 1 8)"]
    by (simp add: two_slots_def bv8_def fires_def body_new_def holds_def args_val_def)
  then show ?thesis
    using independent_violation_genuine [OF ground.smt_model_axioms _ _ _ framed sorted,
        of "check0 (Some False)" 1 two_slots_vc "[]"] restores
    by (simp add: vc check0_def del: One_nat_def)
qed

text \<open>
  The scan for guards skips every definition, because a definition always has a solution.  Two definitions of
  one name do not: here they compare the freed value with a constant, so the property is violated only for that
  value, and is reported independent of it all the same.
\<close>

definition compared_slot :: "Expr list \<Rightarrow> Rule list" where
  "compared_slot restored =
     [\<lparr> body = body_new None restored, head = \<lparr> app_name = ''bb0'', app_args = [bv8 ''_1__out''] \<rparr> \<rparr>,
      \<lparr> body = body_new (Some \<lparr> app_name = ''bb0'', app_args = [bv8 ''_1''] \<rparr>)
          [Eq (bv8 ''_2__out'') (bv8 ''_1''), Eq (bv8 ''_2__out'') (BitVecConst 5 8)],
        head = \<lparr> app_name = ''error_p0'', app_args = [] \<rparr> \<rparr>]"

definition compared_slot_vc :: ChcVc where
  "compared_slot_vc = record_approximation_identity (Some ''_1__out'')
     (new_vc\<lparr> rules := compared_slot [],
        properties := [check0 None] \<rparr>)"

lemma compared_slot_restored:
  "\<not> derives ground_smt (compared_slot [Eq (bv8 ''_1__out'') (BitVecConst 7 8)]) ''error_p0'' ws"
proof
  assume "derives ground_smt (compared_slot [Eq (bv8 ''_1__out'') (BitVecConst 7 8)]) ''error_p0'' ws"
  then obtain \<rho> where "derives ground_smt (compared_slot [Eq (bv8 ''_1__out'') (BitVecConst 7 8)]) ''bb0'' [\<rho> ''_1'']"
      "\<rho> ''_1'' = VBV 5 8"
    by (subst (asm) derives_iff)
      (auto simp: compared_slot_def bv8_def fires_def body_new_def holds_def args_val_def)
  then show False
    by (subst (asm) derives_iff) (auto simp: compared_slot_def bv8_def fires_def body_new_def holds_def args_val_def)
qed

lemma twice_defined_slot_gates:
  "properties (finalize_approximation_identity 1 compared_slot_vc) = [check0 (Some False)] \<and>
   approximation_identity_complete (finalize_approximation_identity 1 compared_slot_vc) \<and>
   derives ground_smt (rules compared_slot_vc) ''error_p0'' [] \<and>
   \<not> derives ground_smt (compared_slot [Eq (bv8 ''_1__out'') (BitVecConst 7 8)]) ''error_p0'' []"
proof (intro conjI)
  show "properties (finalize_approximation_identity 1 compared_slot_vc) = [check0 (Some False)]"
    "approximation_identity_complete (finalize_approximation_identity 1 compared_slot_vc)"
    by code_simp+
  have rs: "rules compared_slot_vc = compared_slot []"
    by code_simp
  have "derives ground_smt (compared_slot []) ''bb0'' [VBV 5 8]"
    using derives.fact [of "hd (compared_slot [])" "compared_slot []" ground_smt "\<lambda>_. VBV 5 8"]
    by (simp add: compared_slot_def bv8_def fires_def body_new_def holds_def args_val_def)
  then show "derives ground_smt (rules compared_slot_vc) ''error_p0'' []"
    using derives.rule [of "last (compared_slot [])" "compared_slot []" ground_smt "\<lambda>_. VBV 5 8"]
    by (simp add: rs compared_slot_def bv8_def fires_def body_new_def holds_def args_val_def)
qed (rule compared_slot_restored)

end
