(* ===== verification/Chc_Dead_Args.thy ===== *)
theory Chc_Dead_Args
  imports Chc Saturation
begin

text \<open>
  Dead-argument elimination (trust-mc-core/src/chc_optimize.rs, chc_optimize_collect.rs): which argument positions
  of a relation carry only values that are copied around, and their removal from declarations and rules.
\<close>

section \<open>Names in constraints\<close>

text \<open>The collection with one case per variant, as the code spells it out.\<close>

function collect_var_names :: "Expr \<Rightarrow> string list" where
  "collect_var_names e =
     (case e of
        Var x s \<Rightarrow> [x]
      | BoolConst b \<Rightarrow> [] | BitVecConst v w \<Rightarrow> [] | IntConst i \<Rightarrow> [] | RealConst r \<Rightarrow> []
      | NotE a \<Rightarrow> collect_var_names a
      | BvNeg a \<Rightarrow> collect_var_names a
      | BvNot a \<Rightarrow> collect_var_names a
      | BvZeroExtend a n \<Rightarrow> collect_var_names a
      | BvSignExtend a n \<Rightarrow> collect_var_names a
      | BvExtract a hi lo \<Rightarrow> collect_var_names a
      | ConstArray s a \<Rightarrow> collect_var_names a
      | Bv op a b \<Rightarrow> collect_var_names a @ collect_var_names b
      | Eq a b \<Rightarrow> collect_var_names a @ collect_var_names b
      | And es \<Rightarrow> concat (map collect_var_names es)
      | Or es \<Rightarrow> concat (map collect_var_names es)
      | Ite c a b \<Rightarrow> collect_var_names c @ collect_var_names a @ collect_var_names b
      | Select a i \<Rightarrow> collect_var_names a @ collect_var_names i
      | Store a i v \<Rightarrow> collect_var_names a @ collect_var_names i @ collect_var_names v
      | DatatypeConstructor d c es s \<Rightarrow> concat (map collect_var_names es)
      | FuncApp f es s \<Rightarrow> concat (map collect_var_names es)
      | DatatypeSelector d f a s \<Rightarrow> collect_var_names a
      | DatatypeTester d c a \<Rightarrow> collect_var_names a
      | Forall xs b ts \<Rightarrow> collect_var_names b @ concat (map (\<lambda>g. concat (map collect_var_names g)) ts)
      | Exists xs b ts \<Rightarrow> collect_var_names b @ concat (map (\<lambda>g. concat (map collect_var_names g)) ts)
      | OtherOp f es s \<Rightarrow> concat (map collect_var_names es))"
  by pat_completeness auto
termination
  by (relation "measure size") (auto intro: size_member size_nested [where n = 0, simplified] size_nested)

declare collect_var_names.simps [simp del]

text \<open>No variant with sub-terms is forgotten.\<close>

lemma collect_var_names_complete: "collect_var_names e = collect_expr_vars e"
proof (induction e rule: measure_induct_rule [of size])
  case (less e)
  have sub: "map collect_var_names (children e) = map collect_expr_vars (children e)"
    by (intro map_cong refl less size_children)
  have nested: "concat (map (\<lambda>g. concat (map f g)) ts) = concat (map f (concat ts))" for f :: "Expr \<Rightarrow> string list" and ts
    by (induction ts) auto
  have eq: "collect_var_names e = (case e of Var x s \<Rightarrow> [x] | _ \<Rightarrow> concat (map collect_var_names (children e)))"
    by (subst collect_var_names.simps) (simp add: nested split: Expr.split)
  also have "\<dots> = (case e of Var x s \<Rightarrow> [x] | _ \<Rightarrow> concat (map collect_expr_vars (children e)))"
    by (simp only: sub)
  also have "\<dots> = collect_expr_vars e"
    by (rule collect_expr_vars.simps [symmetric])
  finally show ?case .
qed

section \<open>Constrained variables\<close>

text \<open>An equation between two variables copies a value; every other constraint anchors its variables.\<close>

definition transfer :: "Expr \<Rightarrow> (string \<times> string) option" where
  "transfer c =
     (case c of
        Eq a b \<Rightarrow> (case (var_of a, var_of b) of (Some x, Some y) \<Rightarrow> Some (x, y) | _ \<Rightarrow> None)
      | _ \<Rightarrow> None)"

definition classify_constraint :: "Expr \<Rightarrow> string list \<times> (string \<times> string) list \<Rightarrow> string list \<times> (string \<times> string) list" where
  "classify_constraint e = (\<lambda>(anchored, transfers).
     case transfer e of
       Some t \<Rightarrow> (anchored, transfers @ [t])
     | None \<Rightarrow> (fold List.insert (collect_var_names e) anchored, transfers))"

definition both_ways :: "('a \<times> 'a) list \<Rightarrow> ('a \<times> 'a) list" where
  "both_ways ts = concat (map (\<lambda>(a, b). [(a, b), (b, a)]) ts)"

definition collect_constrained_vars :: "Rule list \<Rightarrow> string list" where
  "collect_constrained_vars rs =
     (let (anchored, transfers) = fold classify_constraint (concat (map body_constraints rs)) ([], []) in
      bfs (both_ways transfers) anchored anchored)"

section \<open>Live positions\<close>

definition update_position_names :: "RelationApp \<Rightarrow> (string, string list list) btree \<Rightarrow> (string, string list list) btree" where
  "update_position_names a m =
     (let old = bt_get_or (replicate (length (app_args a)) []) m (app_name a);
          entry = old @ replicate (length (app_args a) - length old) [] in
      bt_insert (app_name a)
        (map (\<lambda>(i, names). if i < length (app_args a) then (case app_args a ! i of Var x s \<Rightarrow> List.insert x names | _ \<Rightarrow> names) else names)
          (enumerate 0 entry)) m)"

definition collect_position_names :: "Rule list \<Rightarrow> (string, string list list) btree" where
  "collect_position_names rs =
     fold (\<lambda>r m. let m' = update_position_names (head r) m in
        case body_relation r of None \<Rightarrow> m' | Some a \<Rightarrow> update_position_names a m') rs []"

type_synonym RelPos = "string \<times> nat"

definition var_positions :: "string \<Rightarrow> RelationApp \<Rightarrow> RelPos list" where
  "var_positions x a = map (\<lambda>(i, _). (app_name a, i)) (filter (\<lambda>(i, e). case e of Var y s \<Rightarrow> y = x | _ \<Rightarrow> False) (enumerate 0 (app_args a)))"

definition rule_links :: "Rule \<Rightarrow> (RelPos \<times> RelPos) list" where
  "rule_links r =
     (let transfers = List.map_filter transfer (body_constraints r);
          positions = (\<lambda>x. (case body_relation r of None \<Rightarrow> [] | Some a \<Rightarrow> var_positions x a) @ var_positions x (head r)) in
      concat (map (\<lambda>(a, b). [(p, q). p \<leftarrow> positions a, q \<leftarrow> positions b, p \<noteq> q]) transfers))"

definition build_cross_relation_links :: "Rule list \<Rightarrow> (RelPos \<times> RelPos) list" where
  "build_cross_relation_links rs = concat (map rule_links rs)"

definition live_positions :: "(string, bool list) btree \<Rightarrow> RelPos list" where
  "live_positions m = concat (map (\<lambda>(n, bs). map (\<lambda>(i, _). (n, i)) (filter snd (enumerate 0 bs))) m)"

definition propagate_liveness :: "(RelPos \<times> RelPos) list \<Rightarrow> (string, bool list) btree \<Rightarrow> (string, bool list) btree" where
  "propagate_liveness links m =
     (let visited = bfs (both_ways links) (live_positions m) (live_positions m) in
      map (\<lambda>(n, bs). (n, map (\<lambda>(i, b). b \<or> (n, i) \<in> set visited) (enumerate 0 bs))) m)"

definition initial_liveness :: "ChcVc \<Rightarrow> string list \<Rightarrow> (string, bool list) btree" where
  "initial_liveness vc constrained =
     fold (\<lambda>d m. case bt_get (collect_position_names (rules vc)) (rel_name d) of
         None \<Rightarrow> m
       | Some names \<Rightarrow>
           if length names \<noteq> length (arg_sorts d) then m
           else bt_insert (rel_name d) (map (\<lambda>ns. \<exists>x \<in> set ns. x \<in> set constrained) names) m)
       (relations vc) []"

definition identify_dead_positions :: "ChcVc \<Rightarrow> string list \<Rightarrow> (string, bool list) btree" where
  "identify_dead_positions vc constrained =
     (let live = initial_liveness vc constrained; links = build_cross_relation_links (rules vc);
          live' = (if links \<noteq> [] then propagate_liveness links live else live) in
      filter (\<lambda>(n, dead). \<exists>d \<in> set dead. d) (map (\<lambda>(n, bs). (n, map Not bs)) live'))"

section \<open>Removal\<close>

text \<open>Keep the entries whose flag is not set; the shorter list decides, as with \<open>zip\<close>.\<close>

definition drop_marked :: "bool list \<Rightarrow> 'a list \<Rightarrow> 'a list" where
  "drop_marked dead xs = map fst (filter (\<lambda>(_, d). \<not> d) (zip xs dead))"

definition strip_relation_app :: "(string, bool list) btree \<Rightarrow> RelationApp \<Rightarrow> RelationApp" where
  "strip_relation_app dead a =
     (case bt_get dead (app_name a) of None \<Rightarrow> a | Some ds \<Rightarrow> a\<lparr> app_args := drop_marked ds (app_args a) \<rparr>)"

definition strip_rule :: "(string, bool list) btree \<Rightarrow> Rule \<Rightarrow> Rule" where
  "strip_rule dead r =
     r\<lparr> head := strip_relation_app dead (head r),
        body := (body r)\<lparr> relation := map_option (strip_relation_app dead) (relation (body r)) \<rparr> \<rparr>"

text \<open>The declaration is stripped by position: a flag list shorter than the declaration is an index out of range.\<close>

definition strip_decl :: "(string, bool list) btree \<Rightarrow> RelationDecl \<Rightarrow> (RelationDecl \<times> nat) option" where
  "strip_decl dead d =
     (case bt_get dead (rel_name d) of
        None \<Rightarrow> Some (d, 0)
      | Some ds \<Rightarrow>
          if length ds < length (arg_sorts d) then None
          else (let kept = drop_marked ds (arg_sorts d) in Some (d\<lparr> arg_sorts := kept \<rparr>, length (arg_sorts d) - length kept)))"

definition apply_stripping :: "(string, bool list) btree \<Rightarrow> ChcVc \<Rightarrow> (ChcVc \<times> nat) option" where
  "apply_stripping dead vc =
     (let ds = map (strip_decl dead) (relations vc) in
      if None \<in> set ds then None
      else Some (vc\<lparr> relations := map (fst \<circ> the) ds, rules := map (strip_rule dead) (rules vc) \<rparr>, sum_list (map (snd \<circ> the) ds)))"

definition strip_dead_args :: "ChcVc \<Rightarrow> (ChcVc \<times> nat) option" where
  "strip_dead_args vc = apply_stripping (identify_dead_positions vc (collect_constrained_vars (rules vc))) vc"

section \<open>Over-approximation\<close>

lemma drop_marked_map: "drop_marked ds (map f xs) = map f (drop_marked ds xs)"
  by (induction xs ds rule: list_induct2') (auto simp: drop_marked_def)

text \<open>Whatever the flags: the stripped rules derive the stripped facts.\<close>

definition strip_fact :: "(string, bool list) btree \<Rightarrow> string \<Rightarrow> 'v list \<Rightarrow> 'v list" where
  "strip_fact dead p vs = (case bt_get dead p of None \<Rightarrow> vs | Some ds \<Rightarrow> drop_marked ds vs)"

lemma strip_relation_app_name [simp]: "app_name (strip_relation_app dead a) = app_name a"
  by (simp add: strip_relation_app_def split: option.splits)

lemma args_val_strip: "args_val M \<rho> (strip_relation_app dead a) = strip_fact dead (app_name a) (args_val M \<rho> a)"
  by (simp add: strip_relation_app_def args_val_def strip_fact_def drop_marked_map split: option.splits)

lemma derives_strip_rule: "derives M rs p vs \<Longrightarrow> derives M (map (strip_rule dead) rs) p (strip_fact dead p vs)"
proof (erule derives_image)
  fix r \<rho>
  assume r: "r \<in> set rs" "fires M \<rho> r"
  have rel: "rel_option (\<lambda>a b. app_name b = app_name a \<and> args_val M \<rho> b = strip_fact dead (app_name a) (args_val M \<rho> a))
      (body_relation r) (body_relation (strip_rule dead r))"
    by (cases "body_relation r") (simp_all add: strip_rule_def args_val_strip)
  have "fires M \<rho> (strip_rule dead r)"
    using r(2) by (simp add: fires_def strip_rule_def)
  then show "\<exists>r' \<in> set (map (strip_rule dead) rs). \<exists>\<sigma>. fires M \<sigma> r' \<and> head_name r' = head_name r \<and>
      args_val M \<sigma> (head r') = strip_fact dead (head_name r) (args_val M \<rho> (head r)) \<and>
      rel_option (\<lambda>a b. app_name b = app_name a \<and> args_val M \<sigma> b = strip_fact dead (app_name a) (args_val M \<rho> a))
        (body_relation r) (body_relation r')"
    using r(1) rel by (intro bexI [of _ "strip_rule dead r"] exI [of _ \<rho>] conjI) (simp_all add: strip_rule_def args_val_strip)
qed

section \<open>What a dead position is\<close>

lemma classify_anchors:
  assumes "c \<in> set cs" "transfer c = None" "x \<in> expr_vars c"
  shows "x \<in> set (fst (fold classify_constraint cs (anchored, transfers)))"
proof -
  have keep: "y \<in> set an \<Longrightarrow> y \<in> set (fst (fold classify_constraint es (an, ts)))" for y es an ts
    by (induction es arbitrary: an ts) (auto simp: classify_constraint_def set_fold_insert split: option.splits)
  show ?thesis
    using assms
  proof (induction cs arbitrary: anchored transfers)
    case (Cons e cs)
    show ?case
    proof (cases "c = e")
      case True
      have "classify_constraint e (anchored, transfers) = (fold List.insert (collect_var_names e) anchored, transfers)"
        using True Cons.prems(2) by (simp add: classify_constraint_def)
      moreover have "x \<in> set (fold List.insert (collect_var_names e) anchored)"
        using True Cons.prems(3) by (simp add: collect_var_names_complete)
      ultimately show ?thesis
        using keep [of x "fold List.insert (collect_var_names e) anchored" cs transfers] by simp
    next
      case False
      then show ?thesis
        using Cons by (cases "classify_constraint e (anchored, transfers)") auto
    qed
  qed simp
qed

lemma constrained_anchored:
  assumes "r \<in> set rs" "c \<in> set (body_constraints r)" "transfer c = None" "x \<in> expr_vars c"
  shows "x \<in> set (collect_constrained_vars rs)"
proof -
  have "x \<in> set (fst (fold classify_constraint (concat (map body_constraints rs)) ([], [])))"
    using assms by (intro classify_anchors [of c]) auto
  then show ?thesis
    using bfs_grows by (fastforce simp: collect_constrained_vars_def Let_def case_prod_beta)
qed

lemma update_position_names_get:
  "bt_get (update_position_names a m) n =
     (if n = app_name a then Some (let old = bt_get_or (replicate (length (app_args a)) []) m n;
          entry = old @ replicate (length (app_args a) - length old) [] in
        map (\<lambda>(i, names). if i < length (app_args a) then (case app_args a ! i of Var x s \<Rightarrow> List.insert x names | _ \<Rightarrow> names) else names)
          (enumerate 0 entry)) else bt_get m n)"
  by (simp add: update_position_names_def Let_def)

text \<open>The name of an argument is recorded at its position, and stays recorded.\<close>

definition recorded :: "(string, string list list) btree \<Rightarrow> string \<Rightarrow> nat \<Rightarrow> string \<Rightarrow> bool" where
  "recorded m n i x \<longleftrightarrow> (\<exists>names. bt_get m n = Some names \<and> i < length names \<and> x \<in> set (names ! i))"

lemma recorded_update:
  assumes "recorded m n i x \<or> n = app_name a \<and> i < length (app_args a) \<and> app_args a ! i = Var x s"
  shows "recorded (update_position_names a m) n i x"
proof (cases "n = app_name a")
  case True
  define old where "old = bt_get_or (replicate (length (app_args a)) []) m n"
  define entry where "entry = old @ replicate (length (app_args a) - length old) []"
  have get: "bt_get (update_position_names a m) n = Some (map (\<lambda>(i, names). if i < length (app_args a)
      then (case app_args a ! i of Var x s \<Rightarrow> List.insert x names | _ \<Rightarrow> names) else names) (enumerate 0 entry))"
    using True by (simp add: update_position_names_get old_def entry_def Let_def)
  have "i < length entry \<and> (x \<in> set (entry ! i) \<or> i < length (app_args a) \<and> app_args a ! i = Var x s)"
    using assms
  proof
    assume "recorded m n i x"
    then show ?thesis
      by (auto simp: recorded_def entry_def old_def bt_get_or_def nth_append)
  next
    assume "n = app_name a \<and> i < length (app_args a) \<and> app_args a ! i = Var x s"
    moreover have "length (app_args a) \<le> length entry"
      by (simp add: entry_def)
    ultimately show ?thesis
      by simp
  qed
  then show ?thesis
    by (auto simp: recorded_def get nth_enumerate_eq split: Expr.split)
next
  case False
  then show ?thesis
    using assms by (simp add: recorded_def update_position_names_get)
qed

lemma recorded_fold:
  assumes "recorded m n i x \<or> (\<exists>r \<in> set rs. \<exists>a. (a = head r \<or> body_relation r = Some a) \<and> app_name a = n \<and>
      i < length (app_args a) \<and> app_args a ! i = Var x s)"
  shows "recorded (fold (\<lambda>r m. let m' = update_position_names (head r) m in
        case body_relation r of None \<Rightarrow> m' | Some a \<Rightarrow> update_position_names a m') rs m) n i x"
  using assms
proof (induction rs arbitrary: m)
  case (Cons r rs)
  let ?m = "let m' = update_position_names (head r) m in case body_relation r of None \<Rightarrow> m' | Some a \<Rightarrow> update_position_names a m'"
  have "recorded ?m n i x \<or> (\<exists>r \<in> set rs. \<exists>a. (a = head r \<or> body_relation r = Some a) \<and> app_name a = n \<and>
      i < length (app_args a) \<and> app_args a ! i = Var x s)"
    using Cons.prems by (auto simp: Let_def intro: recorded_update split: option.splits)
  from Cons.IH [OF this] show ?case
    by simp
qed simp

lemma recorded_positions:
  assumes "r \<in> set rs" "a = head r \<or> body_relation r = Some a" "i < length (app_args a)" "app_args a ! i = Var x s"
  shows "recorded (collect_position_names rs) (app_name a) i x"
  unfolding collect_position_names_def using assms by (intro recorded_fold) blast

text \<open>A name at a position that is not live is not constrained.\<close>

definition sees_constrained :: "ChcVc \<Rightarrow> string list \<Rightarrow> (string, bool list) btree \<Rightarrow> bool" where
  "sees_constrained vc constrained m \<longleftrightarrow> (\<forall>n bs i x. (n, bs) \<in> set m \<longrightarrow> i < length bs \<longrightarrow>
     recorded (collect_position_names (rules vc)) n i x \<longrightarrow> x \<in> set constrained \<longrightarrow> bs ! i)"

lemma set_bt_insert_subset: "set (bt_insert k v m) \<subseteq> insert (k, v) (set m)"
  by (induction k v m rule: bt_insert.induct) auto

lemma initial_sees: "sees_constrained vc constrained (initial_liveness vc constrained)"
proof -
  have keep: "sees_constrained vc constrained m \<Longrightarrow> sees_constrained vc constrained
      (fold (\<lambda>d m. case bt_get (collect_position_names (rules vc)) (rel_name d) of
         None \<Rightarrow> m
       | Some names \<Rightarrow>
           if length names \<noteq> length (arg_sorts d) then m
           else bt_insert (rel_name d) (map (\<lambda>ns. \<exists>x \<in> set ns. x \<in> set constrained) names) m) ds m)" for ds m
  proof (induction ds arbitrary: m)
    case (Cons d ds)
    have "sees_constrained vc constrained (bt_insert (rel_name d) (map (\<lambda>ns. \<exists>x \<in> set ns. x \<in> set constrained) names) m)"
      if "bt_get (collect_position_names (rules vc)) (rel_name d) = Some names" for names
      using Cons.prems that set_bt_insert_subset [of "rel_name d" "map (\<lambda>ns. \<exists>x \<in> set ns. x \<in> set constrained) names" m]
      by (fastforce simp: sees_constrained_def recorded_def)
    then show ?case
      using Cons by (simp split: option.splits)
  qed simp
  show ?thesis
    unfolding initial_liveness_def by (rule keep) (simp add: sees_constrained_def)
qed

lemma propagate_sees: "sees_constrained vc constrained m \<Longrightarrow> sees_constrained vc constrained (propagate_liveness links m)"
  by (fastforce simp: sees_constrained_def propagate_liveness_def Let_def nth_enumerate_eq)

lemma dead_unconstrained:
  assumes "bt_get (identify_dead_positions vc constrained) n = Some ds" "i < length ds" "ds ! i"
    and "recorded (collect_position_names (rules vc)) n i x"
  shows "x \<notin> set constrained"
proof -
  define live where "live = (let live = initial_liveness vc constrained; links = build_cross_relation_links (rules vc) in
    if links \<noteq> [] then propagate_liveness links live else live)"
  have "sees_constrained vc constrained live"
    by (simp add: live_def Let_def initial_sees propagate_sees)
  moreover obtain bs where "(n, bs) \<in> set live" "ds = map Not bs"
    using map_of_SomeD [OF assms(1)] by (auto simp: identify_dead_positions_def live_def Let_def split: if_splits)
  ultimately show ?thesis
    using assms(2-4) by (fastforce simp: sees_constrained_def)
qed

text \<open>C14: Stripping dead arguments only over-approximates: every derivable fact stays derivable with the marked
  arguments left out, so no violation is lost; and a variable at a marked position occurs in no constraint of the
  system other than equations between two variables.\<close>

theorem strip_dead_args_safe:
  assumes "strip_dead_args vc = Some (vc', n)"
  defines "dead \<equiv> identify_dead_positions vc (collect_constrained_vars (rules vc))"
  shows "(derives M (rules vc) p vs \<longrightarrow> derives M (rules vc') p (strip_fact dead p vs)) \<and>
    (\<forall>r \<in> set (rules vc). \<forall>a ds i x s. (a = head r \<or> body_relation r = Some a) \<longrightarrow> bt_get dead (app_name a) = Some ds \<longrightarrow>
       i < length ds \<longrightarrow> ds ! i \<longrightarrow> i < length (app_args a) \<longrightarrow> app_args a ! i = Var x s \<longrightarrow>
       (\<forall>r \<in> set (rules vc). \<forall>c \<in> set (body_constraints r). x \<in> expr_vars c \<longrightarrow> transfer c \<noteq> None))"
proof
  have "rules vc' = map (strip_rule dead) (rules vc)"
    using assms(1) by (auto simp: strip_dead_args_def apply_stripping_def dead_def Let_def split: if_splits)
  then show "derives M (rules vc) p vs \<longrightarrow> derives M (rules vc') p (strip_fact dead p vs)"
    using derives_strip_rule by auto
  show "\<forall>r \<in> set (rules vc). \<forall>a ds i x s. (a = head r \<or> body_relation r = Some a) \<longrightarrow> bt_get dead (app_name a) = Some ds \<longrightarrow>
       i < length ds \<longrightarrow> ds ! i \<longrightarrow> i < length (app_args a) \<longrightarrow> app_args a ! i = Var x s \<longrightarrow>
       (\<forall>r \<in> set (rules vc). \<forall>c \<in> set (body_constraints r). x \<in> expr_vars c \<longrightarrow> transfer c \<noteq> None)"
    unfolding dead_def using dead_unconstrained recorded_positions constrained_anchored by meson
qed

text \<open>A value that is relayed through a second block and never read: its column goes in both relations.\<close>

definition relay_vc :: ChcVc where
  "relay_vc =
     (let app = (\<lambda>n vs. \<lparr> app_name = n, app_args = map (\<lambda>v. Var v SInt) vs \<rparr>) in
      new_vc\<lparr>
        relations := [\<lparr> rel_name = ''bb0'', arg_sorts = [SInt, SInt] \<rparr>, \<lparr> rel_name = ''bb1'', arg_sorts = [SInt, SInt] \<rparr>,
                      \<lparr> rel_name = ''error'', arg_sorts = [] \<rparr>],
        rules := [rule_init (Eq (Var ''x'' SInt) (IntConst 1)) (app ''bb0'' [''x'', ''y'']),
                  rule_transition (app ''bb0'' [''x'', ''y'']) (Some (Eq (Var ''v'' SInt) (Var ''y'' SInt))) (Eq (Var ''u'' SInt) (Var ''x'' SInt))
                    (app ''bb1'' [''u'', ''v'']),
                  rule_transition (app ''bb1'' [''u'', ''v'']) None (Eq (Var ''u'' SInt) (IntConst 1)) (app ''error'' [])] \<rparr>)"

lemma relay_dead:
  "collect_constrained_vars (rules relay_vc) = [''u'', ''x'']"
  "identify_dead_positions relay_vc [''u'', ''x''] = [(''bb0'', [False, True]), (''bb1'', [False, True])]"
  by code_simp+

lemma relay_fact: "strip_fact [(''bb0'', [False, True]), (''bb1'', [False, True])] ''bb0'' [VI 1, VI 7] = [VI 1]"
  by (simp add: strip_fact_def drop_marked_def)

lemma relay_stripped:
  "\<exists>vc'. strip_dead_args relay_vc = Some (vc', 2) \<and> map (length \<circ> arg_sorts) (relations vc') = [1, 1, 0]"
proof -
  have "map_option snd (apply_stripping [(''bb0'', [False, True]), (''bb1'', [False, True])] relay_vc) = Some 2"
    by code_simp
  moreover have "map_option (\<lambda>(vc', _). map (length \<circ> arg_sorts) (relations vc'))
      (apply_stripping [(''bb0'', [False, True]), (''bb1'', [False, True])] relay_vc) = Some [1, 1, 0]"
    by code_simp
  ultimately show ?thesis
    by (auto simp: strip_dead_args_def relay_dead)
qed

lemma relay_entered: "derives ground_smt (rules relay_vc) ''bb0'' [VI 1, VI 7]"
proof (subst derives_iff)
  show "\<exists>r \<in> set (rules relay_vc). \<exists>\<rho>. fires ground_smt \<rho> r \<and> ''bb0'' = head_name r \<and> [VI 1, VI 7] = args_val ground_smt \<rho> (head r) \<and>
      (case body_relation r of None \<Rightarrow> True | Some a \<Rightarrow> derives ground_smt (rules relay_vc) (app_name a) (args_val ground_smt \<rho> a))"
    by (simp add: relay_vc_def rule_init_def body_new_def fires_def args_val_def holds_def Let_def)
      (auto intro!: exI [of _ "(\<lambda>_. VI 7)(''x'' := VI 1)"])
qed

theorem strip_dead_args_safe_witness:
  "\<exists>vc'. strip_dead_args relay_vc = Some (vc', 2) \<and> map (length \<circ> arg_sorts) (relations vc') = [1, 1, 0] \<and>
     derives ground_smt (rules vc') ''bb0'' [VI 1]"
proof -
  from relay_stripped obtain vc' where vc': "strip_dead_args relay_vc = Some (vc', 2)" "map (length \<circ> arg_sorts) (relations vc') = [1, 1, 0]"
    by (elim exE conjE)
  have "derives ground_smt (rules vc') ''bb0'' [VI 1]"
    using strip_dead_args_safe [OF vc'(1), THEN conjunct1, rule_format, OF relay_entered] unfolding relay_dead relay_fact .
  with vc' show ?thesis
    by (intro exI [of _ vc'] conjI)
qed

text \<open>
  An equation between two variables can also be a guard.  Here it compares two constants, both columns are dropped,
  and the error becomes derivable.
\<close>

definition guard_vc :: ChcVc where
  "guard_vc =
     (let state = (\<lambda>es. \<lparr> app_name = ''bb0'', app_args = es \<rparr>) in
      new_vc\<lparr>
        relations := [\<lparr> rel_name = ''bb0'', arg_sorts = [SInt, SInt] \<rparr>, \<lparr> rel_name = ''error'', arg_sorts = [] \<rparr>],
        rules := [rule_init (BoolConst True) (state [IntConst 0, IntConst 1]),
                  rule_transition (state [Var ''x'' SInt, Var ''y'' SInt]) None (Eq (Var ''x'' SInt) (Var ''y'' SInt))
                    \<lparr> app_name = ''error'', app_args = [] \<rparr>] \<rparr>)"

lemma equality_guard_stripped:
  "\<not> reachable_query ground_smt guard_vc \<and> (\<exists>vc'. strip_dead_args guard_vc = Some (vc', 2) \<and> reachable_query ground_smt vc')"
proof
  have state: "vs = [VI 0, VI 1]" if "derives ground_smt (rules guard_vc) ''bb0'' vs" for vs
    using that by (subst (asm) derives_iff) (auto simp: guard_vc_def rule_init_def rule_transition_def args_val_def body_new_def)
  show "\<not> reachable_query ground_smt guard_vc"
  proof
    assume "reachable_query ground_smt guard_vc"
    then obtain vs where "derives ground_smt (rules guard_vc) ''error'' vs"
      by (auto simp: reachable_query_def query_relation_def guard_vc_def new_vc_def)
    then obtain \<rho> where "derives ground_smt (rules guard_vc) ''bb0'' [\<rho> ''x'', \<rho> ''y'']" "\<rho> ''x'' = \<rho> ''y''"
      by (subst (asm) derives_iff)
        (auto simp: guard_vc_def rule_init_def rule_transition_def args_val_def body_new_def fires_def holds_def)
    with state show False
      by fastforce
  qed
  define stripped where "stripped = map (strip_rule [(''bb0'', [True, True])]) (rules guard_vc)"
  have dead: "collect_constrained_vars (rules guard_vc) = []" "identify_dead_positions guard_vc [] = [(''bb0'', [True, True])]"
    by code_simp+
  have "map_option snd (apply_stripping [(''bb0'', [True, True])] guard_vc) = Some 2"
      "map_option (query_target \<circ> fst) (apply_stripping [(''bb0'', [True, True])] guard_vc) = Some None"
    by code_simp+
  then obtain vc' where vc': "strip_dead_args guard_vc = Some (vc', 2)" "query_target vc' = None"
    by (auto simp: strip_dead_args_def dead)
  then have rules: "rules vc' = stripped"
    by (auto simp: strip_dead_args_def dead apply_stripping_def stripped_def Let_def split: if_splits)
  have "derives ground_smt stripped ''bb0'' []"
    by (subst derives_iff) (simp add: stripped_def guard_vc_def rule_init_def body_new_def fires_def args_val_def holds_def
      strip_rule_def strip_relation_app_def drop_marked_def)
  then have "derives ground_smt stripped ''error'' []"
    by (subst derives_iff) (auto simp: stripped_def guard_vc_def rule_transition_def body_new_def fires_def args_val_def
      holds_def strip_rule_def strip_relation_app_def drop_marked_def intro!: exI [of _ "\<lambda>_. VI 0"])
  then show "\<exists>vc'. strip_dead_args guard_vc = Some (vc', 2) \<and> reachable_query ground_smt vc'"
    using vc' by (auto simp: reachable_query_def query_relation_def rules)
qed

end
