(* ===== verification/Chc_Dead_Vars.thy ===== *)
theory Chc_Dead_Vars
  imports Chc Saturation
begin

text \<open>
  Removal of dead constraints and declarations (trust-mc-core/src/chc_optimize_dead_vars.rs): rules that cannot fire,
  definitions of variables that nothing reads, duplicate rules and unused declarations.  The result derives exactly
  the same facts.
\<close>

section \<open>Rules that cannot fire\<close>

fun constraint_contains_false_conjunct :: "Expr \<Rightarrow> bool" where
  "constraint_contains_false_conjunct (BoolConst b) \<longleftrightarrow> \<not> b"
| "constraint_contains_false_conjunct (And es) \<longleftrightarrow> (\<exists>e \<in> set es. constraint_contains_false_conjunct e)"
| "constraint_contains_false_conjunct _ \<longleftrightarrow> False"

definition rule_body_is_literal_false :: "Rule \<Rightarrow> bool" where
  "rule_body_is_literal_false r \<longleftrightarrow>
     body_relation r = None \<and> body_constraints r \<noteq> [] \<and> (\<forall>c \<in> set (body_constraints r). c = BoolConst False)"

definition keeps_rule :: "Rule \<Rightarrow> bool" where
  "keeps_rule r \<longleftrightarrow>
     (head_name r = ''error'' \<or> take 7 (head_name r) = ''error_p'') \<and> rule_body_is_literal_false r \<or>
     \<not> (\<exists>c \<in> set (body_constraints r). constraint_contains_false_conjunct c)"

definition prune_trivially_false_rules :: "Rule list \<Rightarrow> Rule list \<times> nat" where
  "prune_trivially_false_rules rs =
     (filter keeps_rule rs, sum_list (map (\<lambda>r. length (body_constraints r)) (filter (\<lambda>r. \<not> keeps_rule r) rs)))"

section \<open>Essential variables\<close>

definition collect_relation_app_vars :: "RelationApp \<Rightarrow> string list" where
  "collect_relation_app_vars a = concat (map collect_expr_vars (app_args a))"

definition rule_app_vars :: "Rule \<Rightarrow> string list" where
  "rule_app_vars r = collect_relation_app_vars (head r) @
     (case body_relation r of None \<Rightarrow> [] | Some a \<Rightarrow> collect_relation_app_vars a)"

definition collect_protected_heads :: "ChcVc \<Rightarrow> string list" where
  "collect_protected_heads vc =
     query_relation vc # map prop_relation (properties vc) @
     concat (map (\<lambda>r. if head_name r = query_relation vc \<and> constraints_is_empty (constraints (body r))
       then (case body_relation r of Some a \<Rightarrow> (if app_args a = [] then [app_name a] else []) | None \<Rightarrow> []) else []) (rules vc))"

definition seed_vars :: "ChcVc \<Rightarrow> string list" where
  "seed_vars vc =
     concat (map rule_app_vars (rules vc)) @
     concat (map (\<lambda>r. if head_name r \<in> set (collect_protected_heads vc)
       then concat (map collect_expr_vars (body_constraints r)) else []) (rules vc)) @
     concat (map (collect_expr_vars \<circ> snd) (cover_assertions vc))"

text \<open>
  The worklist of constraints that share no essential variable yet; one pass visits them in order and sees the
  variables added before.
\<close>

fun close_pass :: "string list list \<Rightarrow> string list \<Rightarrow> string list list \<times> string list" where
  "close_pass [] ess = ([], ess)"
| "close_pass (vs # ws) ess =
     (if set vs \<inter> set ess = {} then (let (rest, ess') = close_pass ws ess in (vs # rest, ess'))
      else close_pass ws (fold List.insert vs ess))"

lemma close_pass_length: "length (fst (close_pass ws ess)) \<le> length ws"
  by (induction ws ess rule: close_pass.induct) (auto split: prod.splits intro: le_SucI)

lemma close_pass_unchanged: "length ws \<le> length (fst (close_pass ws ess)) \<Longrightarrow> close_pass ws ess = (ws, ess)"
proof (induction ws ess rule: close_pass.induct)
  case (2 vs ws ess)
  then show ?case
    using close_pass_length [of ws "fold List.insert vs ess"] by (auto split: prod.splits if_splits)
qed simp

function close_loop :: "string list list \<Rightarrow> string list \<Rightarrow> string list" where
  "close_loop ws ess = (let (ws', ess') = close_pass ws ess in if set ess' = set ess then ess' else close_loop ws' ess')"
  by pat_completeness auto
termination
proof (relation "measure (length \<circ> fst)")
  fix ws ess x ws' ess'
  assume "x = close_pass ws ess" "(ws', ess') = x" "set ess' \<noteq> set ess"
  then show "((ws', ess'), (ws, ess)) \<in> measure (length \<circ> fst)"
    using close_pass_unchanged [of ws ess] by (cases "length ws \<le> length ws'") (auto simp: not_le dest: sym)
qed simp

declare close_loop.simps [simp del]

definition close_essential_transitively :: "Rule list \<Rightarrow> string list \<Rightarrow> string list" where
  "close_essential_transitively rs ess =
     close_loop (filter (\<lambda>vs. vs \<noteq> []) (map collect_expr_vars (concat (map body_constraints rs)))) ess"

section \<open>Dead definitions\<close>

definition occurs :: "Expr list \<Rightarrow> string \<Rightarrow> nat" where
  "occurs cs x = length (filter (\<lambda>c. x \<in> expr_vars c) cs)"

definition defines_once :: "Expr list \<Rightarrow> Expr \<Rightarrow> Expr \<Rightarrow> bool" where
  "defines_once cs a e \<longleftrightarrow> (case a of Var x s \<Rightarrow> x \<notin> expr_vars e \<and> occurs cs x = 1 | _ \<Rightarrow> False)"

definition is_strippable :: "string list \<Rightarrow> Expr list \<Rightarrow> Expr \<Rightarrow> bool" where
  "is_strippable ess cs c \<longleftrightarrow>
     expr_vars c \<noteq> {} \<and> expr_vars c \<inter> set ess = {} \<and>
     (case c of Eq a b \<Rightarrow> defines_once cs a b \<or> defines_once cs b a | _ \<Rightarrow> False)"

definition strip_rule_constraints :: "string list \<Rightarrow> string list \<Rightarrow> Rule \<Rightarrow> Rule" where
  "strip_rule_constraints protected ess r =
     (if head_name r \<in> set protected then r
      else (let old = body_constraints r in
        if \<forall>c \<in> set old. \<not> is_strippable ess old c then r
        else r\<lparr> body := (body r)\<lparr> constraints := Owned (filter (\<lambda>c. \<not> is_strippable ess old c) old) \<rparr> \<rparr>))"

definition constraint_count :: "Rule list \<Rightarrow> nat" where
  "constraint_count rs = sum_list (map (\<lambda>r. length (body_constraints r)) rs)"

function strip_rounds :: "string list \<Rightarrow> string list \<Rightarrow> Rule list \<Rightarrow> nat \<Rightarrow> Rule list \<times> nat" where
  "strip_rounds protected ess rs n =
     (let rs' = map (strip_rule_constraints protected ess) rs; round = constraint_count rs - constraint_count rs' in
      if round = 0 then (rs', n) else strip_rounds protected ess rs' (n + round))"
  by pat_completeness auto
termination
  by (relation "measure (\<lambda>(_, _, rs, _). constraint_count rs)") (auto simp: Let_def)

declare strip_rounds.simps [simp del]

section \<open>Duplicate rules\<close>

definition rule_eq :: "Rule \<Rightarrow> Rule \<Rightarrow> bool" where
  "rule_eq r s \<longleftrightarrow> head r = head s \<and> body_relation r = body_relation s \<and> constraints_eq (constraints (body r)) (constraints (body s))"

fun dedupe_loop :: "Rule list \<Rightarrow> Rule list \<Rightarrow> Rule list" where
  "dedupe_loop seen [] = []"
| "dedupe_loop seen (r # rs) = (if \<exists>s \<in> set seen. rule_eq s r then dedupe_loop seen rs else r # dedupe_loop (r # seen) rs)"

definition dedupe_rules :: "Rule list \<Rightarrow> Rule list \<times> nat" where
  "dedupe_rules rs = (let kept = dedupe_loop [] rs in (kept, constraint_count rs - constraint_count kept))"

section \<open>The pass\<close>

definition prune_dead_vars_and_constraints :: "ChcVc \<Rightarrow> ChcVc \<times> nat" where
  "prune_dead_vars_and_constraints vc0 =
     (let (rs, stripped) = prune_trivially_false_rules (rules vc0);
          vc = vc0\<lparr> rules := rs \<rparr>;
          seed = seed_vars vc in
      if seed = [] then (vc, stripped)
      else (let ess = close_essential_transitively rs seed;
                (rs', stripped') = strip_rounds (collect_protected_heads vc) ess rs stripped;
                referenced = ess @ concat (map collect_expr_vars (concat (map body_constraints rs'))) @
                  concat (map (collect_expr_vars \<circ> snd) (cover_assertions vc));
                (rs'', dups) = dedupe_rules rs' in
        ((retain_vars referenced (vc\<lparr> rules := rs' \<rparr>))\<lparr> rules := rs'' \<rparr>, stripped' + dups)))"

section \<open>The seed stays essential\<close>

lemma close_pass_grows: "set ess \<subseteq> set (snd (close_pass ws ess))"
  by (induction ws ess rule: close_pass.induct) (auto split: prod.splits)

lemma close_loop_grows: "set ess \<subseteq> set (close_loop ws ess)"
proof (induction ws ess rule: close_loop.induct)
  case (1 ws ess)
  obtain ws' ess' where pass: "close_pass ws ess = (ws', ess')"
    by fastforce
  have "set ess \<subseteq> set ess'"
    using close_pass_grows [of ess ws] by (simp add: pass)
  with 1 [OF pass [symmetric] refl] show ?case
    by (subst close_loop.simps) (auto simp: pass)
qed

lemma close_essential_grows: "set ess \<subseteq> set (close_essential_transitively rs ess)"
  by (simp add: close_essential_transitively_def close_loop_grows)

section \<open>A dead definition constrains nothing\<close>

lemma occurs_once:
  assumes "occurs cs x = 1" "c \<in> set cs" "x \<in> expr_vars c" "d \<in> set cs" "x \<in> expr_vars d"
  shows "d = c"
proof -
  from assms(1) obtain e where "filter (\<lambda>c. x \<in> expr_vars c) cs = [e]"
    by (auto simp: occurs_def length_Suc_conv)
  then have "y = e" if "y \<in> set cs" "x \<in> expr_vars y" for y
    using that filter_set [of "\<lambda>c. x \<in> expr_vars c" cs] by auto
  from this [OF assms(2,3)] this [OF assms(4,5)] show ?thesis
    by simp
qed

text \<open>A strippable constraint can be met by changing one variable that no other constraint and no argument reads.\<close>

definition well_sorted_constraints :: "'v smt \<Rightarrow> Expr list \<Rightarrow> bool" where
  "well_sorted_constraints M cs \<longleftrightarrow> (\<forall>a b. Eq a b \<in> set cs \<longrightarrow> well_sorted_eq M a b)"

context smt_model
begin

lemma false_conjunct_unsat: "constraint_contains_false_conjunct c \<Longrightarrow> \<not> holds M \<rho> c"
  by (induction c rule: constraint_contains_false_conjunct.induct) (auto simp: holds_BoolConst holds_And)

lemma strippable_met:
  assumes "is_strippable ess cs c" "c \<in> set cs" "well_sorted_constraints M cs" "fits M \<sigma>"
  shows "\<exists>x v. x \<notin> set ess \<and> fits M (\<sigma>(x := v)) \<and> holds M (\<sigma>(x := v)) c \<and> (\<forall>d \<in> set cs. x \<in> expr_vars d \<longrightarrow> d = c)"
proof -
  from assms(1) obtain a b where c: "c = Eq a b" "defines_once cs a b \<or> defines_once cs b a" "expr_vars c \<inter> set ess = {}"
    by (cases c) (auto simp: is_strippable_def)
  have sorted: "well_sorted_eq M a b"
    using assms(2,3) c(1) by (auto simp: well_sorted_constraints_def)
  have met: ?thesis if x: "x \<in> expr_vars c" "occurs cs x = 1" "val M \<sigma> e \<in> domain_of M x" "holds M (\<sigma>(x := val M \<sigma> e)) c" for x e
    using x c(3) occurs_once [OF x(2) assms(2) x(1)] fits_update [OF assms(4) x(3)]
    by (intro exI [of _ x] exI [of _ "val M \<sigma> e"]) auto
  from c(2) show ?thesis
  proof
    assume "defines_once cs a b"
    then obtain x s where a: "a = Var x s" "x \<notin> expr_vars b" "occurs cs x = 1"
      by (auto simp: defines_once_def split: Expr.splits)
    then show ?thesis
      using sorted assms(4) holds_define(1) [OF a(2)] by (intro met [of x b]) (simp_all add: c(1) well_sorted_eq_def)
  next
    assume "defines_once cs b a"
    then obtain x s where b: "b = Var x s" "x \<notin> expr_vars a" "occurs cs x = 1"
      by (auto simp: defines_once_def split: Expr.splits)
    then show ?thesis
      using sorted assms(4) holds_define(2) [OF b(2)] by (intro met [of x a]) (simp_all add: c(1) well_sorted_eq_def)
  qed
qed

lemma strippable_all_met:
  assumes "set ds \<subseteq> {c \<in> set cs. is_strippable ess cs c}" "well_sorted_constraints M cs"
    and "fits M \<rho>" "\<forall>c \<in> set cs. \<not> is_strippable ess cs c \<longrightarrow> holds M \<rho> c"
  shows "\<exists>\<sigma>. fits M \<sigma> \<and> (\<forall>x \<in> set ess. \<sigma> x = \<rho> x) \<and> (\<forall>c \<in> set cs. is_strippable ess cs c \<longrightarrow> c \<in> set ds \<longrightarrow> holds M \<sigma> c) \<and>
    (\<forall>c \<in> set cs. \<not> is_strippable ess cs c \<longrightarrow> holds M \<sigma> c)"
  using assms(1)
proof (induction ds)
  case Nil
  then show ?case
    using assms(3,4) by auto
next
  case (Cons c ds)
  then obtain \<sigma> where \<sigma>: "fits M \<sigma>" "\<forall>x \<in> set ess. \<sigma> x = \<rho> x"
      "\<forall>d \<in> set cs. is_strippable ess cs d \<longrightarrow> d \<in> set ds \<longrightarrow> holds M \<sigma> d" "\<forall>d \<in> set cs. \<not> is_strippable ess cs d \<longrightarrow> holds M \<sigma> d"
    by auto
  have c: "is_strippable ess cs c" "c \<in> set cs"
    using Cons.prems by auto
  from strippable_met [OF c assms(2) \<sigma>(1)] obtain x v where x: "x \<notin> set ess" "fits M (\<sigma>(x := v))" "holds M (\<sigma>(x := v)) c"
      "\<forall>d \<in> set cs. x \<in> expr_vars d \<longrightarrow> d = c"
    by blast
  have keep: "holds M (\<sigma>(x := v)) d \<longleftrightarrow> holds M \<sigma> d" if "d \<in> set cs" "d \<noteq> c" for d
    using that x(4) by (intro holds_fresh) blast
  show ?case
    using x(1-3) \<sigma>(2-4) keep c(1) by (intro exI [of _ "\<sigma>(x := v)"]) fastforce
qed

lemma args_val_cong: "(\<And>x. x \<in> set (collect_relation_app_vars a) \<Longrightarrow> \<sigma> x = \<rho> x) \<Longrightarrow> args_val M \<sigma> a = args_val M \<rho> a"
  unfolding args_val_def by (intro map_cong refl val_cong) (auto simp: collect_relation_app_vars_def)

lemma instances_strip_constraints:
  assumes "set (rule_app_vars r) \<subseteq> set ess" "well_sorted_constraints M (body_constraints r)"
  shows "instances M (strip_rule_constraints protected ess r) = instances M r" (is "instances M ?r = _")
proof
  have same [simp]: "head ?r = head r" "body_relation ?r = body_relation r"
    by (simp_all add: strip_rule_constraints_def Let_def)
  have sub: "set (body_constraints ?r) \<subseteq> set (body_constraints r)"
    by (auto simp: strip_rule_constraints_def Let_def)
  then show "instances M r \<subseteq> instances M ?r"
    by (intro instances_mono) (auto simp: fires_def)
  show "instances M ?r \<subseteq> instances M r"
  proof (intro instances_mono)
    fix \<rho>
    assume fires: "fires M \<rho> ?r"
    have "\<forall>c \<in> set (body_constraints r). \<not> is_strippable ess (body_constraints r) c \<longrightarrow> holds M \<rho> c"
      using fires by (auto simp: fires_def strip_rule_constraints_def Let_def split: if_splits)
    from strippable_all_met [OF _ assms(2) _ this, of "filter (is_strippable ess (body_constraints r)) (body_constraints r)"]
    obtain \<sigma> where \<sigma>: "fits M \<sigma>" "\<forall>x \<in> set ess. \<sigma> x = \<rho> x" "\<forall>c \<in> set (body_constraints r). holds M \<sigma> c"
      using fires by (simp add: fires_def) metis
    have "args_val M \<sigma> a = args_val M \<rho> a" if "a = head r \<or> body_relation r = Some a" for a
      using that assms(1) \<sigma>(2) by (intro args_val_cong) (auto simp: rule_app_vars_def)
    then show "\<exists>\<sigma>. fires M \<sigma> r \<and> args_val M \<sigma> (head r) = args_val M \<rho> (head ?r) \<and>
        map_option (\<lambda>a. (app_name a, args_val M \<sigma> a)) (body_relation r) = map_option (\<lambda>a. (app_name a, args_val M \<rho> a)) (body_relation ?r)"
      using \<sigma>(1,3) by (intro exI [of _ \<sigma>]) (auto simp: fires_def map_option_case split: option.splits)
  qed simp
qed

lemma strip_rounds_instances:
  assumes "\<And>r. r \<in> set rs \<Longrightarrow> set (rule_app_vars r) \<subseteq> set ess \<and> well_sorted_constraints M (body_constraints r)"
  shows "(\<Union>r \<in> set (fst (strip_rounds protected ess rs n)). instances M r) = (\<Union>r \<in> set rs. instances M r)"
  using assms
proof (induction protected ess rs n rule: strip_rounds.induct)
  case (1 protected ess rs n)
  define rs' where "rs' = map (strip_rule_constraints protected ess) rs"
  have "(\<Union>r \<in> set rs'. instances M r) = (\<Union>r \<in> set rs. instances M r)"
    using 1(2) by (simp add: rs'_def instances_strip_constraints)
  moreover have "set (rule_app_vars r) \<subseteq> set ess \<and> well_sorted_constraints M (body_constraints r)" if r: "r \<in> set rs'" for r
  proof -
    from r obtain s where s: "s \<in> set rs" "r = strip_rule_constraints protected ess s"
      by (auto simp: rs'_def)
    then show ?thesis
      using 1(2) [OF s(1)]
      by (auto simp: rule_app_vars_def strip_rule_constraints_def well_sorted_constraints_def Let_def)
  qed
  ultimately show ?case
    using 1(1) [OF rs'_def refl] by (subst strip_rounds.simps) (simp add: Let_def flip: rs'_def)
qed

end

lemma rule_eq_iff: "rule_eq r s \<longleftrightarrow> head r = head s \<and> body_relation r = body_relation s \<and> body_constraints r = body_constraints s"
  by (simp add: rule_eq_def constraints_refine)

lemma dedupe_keeps: "set (dedupe_loop seen rs) \<subseteq> set rs"
  by (induction rs arbitrary: seen) auto

lemma dedupe_covers: "r \<in> set rs \<Longrightarrow> \<exists>s \<in> set (dedupe_loop seen rs) \<union> set seen. rule_eq s r"
proof (induction rs arbitrary: seen)
  case (Cons q rs)
  show ?case
  proof (cases "r = q")
    case True
    then show ?thesis
      by (auto simp: rule_eq_iff)
  next
    case False
    then have "r \<in> set rs"
      using Cons.prems by simp
    then show ?thesis
      using Cons.IH [of seen] Cons.IH [of "q # seen"] by (cases "\<exists>s \<in> set seen. rule_eq s q") auto
  qed
qed simp

lemma rule_eq_instances: "rule_eq r s \<Longrightarrow> instances M r = instances M s"
  by (simp add: rule_eq_iff instances_def fires_def)

lemma dedupe_instances: "(\<Union>r \<in> set (dedupe_loop [] rs). instances M r) = (\<Union>r \<in> set rs. instances M r)"
proof
  show "(\<Union>r \<in> set rs. instances M r) \<subseteq> (\<Union>r \<in> set (dedupe_loop [] rs). instances M r)"
    using dedupe_covers [of _ rs "[]"] rule_eq_instances by fastforce
qed (use dedupe_keeps in blast)

section \<open>Exactness\<close>

lemma keeps_rule_instances:
  assumes "smt_model M"
  shows "(\<Union>r \<in> set (filter keeps_rule rs). instances M r) = (\<Union>r \<in> set rs. instances M r)"
proof -
  have "instances M r = {}" if "\<not> keeps_rule r" for r
    using that smt_model.false_conjunct_unsat [OF assms] by (fastforce simp: keeps_rule_def instances_def fires_def)
  then show ?thesis
    by auto
qed

lemma strip_rounds_rules:
  "r \<in> set (fst (strip_rounds protected ess rs n)) \<Longrightarrow> \<exists>s \<in> set rs. head r = head s \<and> body_relation r = body_relation s"
  "r \<in> set rs \<Longrightarrow> head_name r \<in> set protected \<Longrightarrow> r \<in> set (fst (strip_rounds protected ess rs n))"
proof (induction protected ess rs n rule: strip_rounds.induct)
  case (1 protected ess rs n)
  define rs' where "rs' = map (strip_rule_constraints protected ess) rs"
  have run: "fst (strip_rounds protected ess rs n) =
      (if constraint_count rs - constraint_count rs' = 0 then rs' else fst (strip_rounds protected ess rs' (n + (constraint_count rs - constraint_count rs'))))"
    by (subst strip_rounds.simps) (simp add: Let_def rs'_def)
  {
    case 1
    have "\<exists>s \<in> set rs'. head r = head s \<and> body_relation r = body_relation s"
      using "1.IH" (1) [OF rs'_def refl] 1 by (auto simp: run split: if_splits)
    then show ?case
      by (auto simp: rs'_def strip_rule_constraints_def Let_def)
  next
    case 2
    then have "r \<in> set rs'"
      by (force simp: rs'_def strip_rule_constraints_def)
    then show ?case
      using "1.IH" (2) [OF rs'_def refl] 2 by (simp add: run)
  }
qed

lemma prune_result:
  assumes "rs = filter keeps_rule (rules vc)" "seed = seed_vars (vc\<lparr> rules := rs \<rparr>)" "ess = close_essential_transitively rs seed"
    and "rs' = fst (strip_rounds (collect_protected_heads (vc\<lparr> rules := rs \<rparr>)) ess rs (snd (prune_trivially_false_rules (rules vc))))"
  shows "seed = [] \<Longrightarrow> fst (prune_dead_vars_and_constraints vc) = vc\<lparr> rules := rs \<rparr>"
    and "seed \<noteq> [] \<Longrightarrow> rules (fst (prune_dead_vars_and_constraints vc)) = dedupe_loop [] rs'"
    and "seed \<noteq> [] \<Longrightarrow> vars (fst (prune_dead_vars_and_constraints vc)) =
      filter (\<lambda>v. var_name v \<in> set (ess @ concat (map collect_expr_vars (concat (map body_constraints rs'))) @
        concat (map (collect_expr_vars \<circ> snd) (cover_assertions vc)))) (vars vc)"
proof -
  obtain n where trivial: "prune_trivially_false_rules (rules vc) = (rs, n)"
    by (simp add: prune_trivially_false_rules_def assms(1))
  obtain m where rounds: "strip_rounds (collect_protected_heads (vc\<lparr> rules := rs \<rparr>)) ess rs n = (rs', m)"
    using assms(4) by (simp add: trivial) (metis prod.collapse)
  show "seed = [] \<Longrightarrow> fst (prune_dead_vars_and_constraints vc) = vc\<lparr> rules := rs \<rparr>"
    unfolding prune_dead_vars_and_constraints_def Let_def trivial by (simp flip: assms(2))
  show "seed \<noteq> [] \<Longrightarrow> rules (fst (prune_dead_vars_and_constraints vc)) = dedupe_loop [] rs'"
    unfolding prune_dead_vars_and_constraints_def Let_def trivial
    by (simp flip: assms(2,3) add: rounds dedupe_rules_def Let_def)
  show "seed \<noteq> [] \<Longrightarrow> vars (fst (prune_dead_vars_and_constraints vc)) =
      filter (\<lambda>v. var_name v \<in> set (ess @ concat (map collect_expr_vars (concat (map body_constraints rs'))) @
        concat (map (collect_expr_vars \<circ> snd) (cover_assertions vc)))) (vars vc)"
    unfolding prune_dead_vars_and_constraints_def Let_def trivial
    by (simp flip: assms(2,3) add: rounds dedupe_rules_def retain_vars_def Let_def)
qed

text \<open>Every variable of an application is essential, and stays so while the rules are stripped.\<close>

lemma essential_app_vars:
  assumes "r \<in> set rs"
  shows "set (rule_app_vars r) \<subseteq> set (close_essential_transitively rs (seed_vars (vc\<lparr> rules := rs \<rparr>)))"
  using assms close_essential_grows [of "seed_vars (vc\<lparr> rules := rs \<rparr>)" rs] by (fastforce simp: seed_vars_def)

lemma stripped_app_vars:
  assumes "r \<in> set (fst (strip_rounds prot (close_essential_transitively rs (seed_vars (vc\<lparr> rules := rs \<rparr>))) rs n))"
  shows "set (rule_app_vars r) \<subseteq> set (close_essential_transitively rs (seed_vars (vc\<lparr> rules := rs \<rparr>)))"
proof -
  from strip_rounds_rules(1) [OF assms]
  obtain s where "s \<in> set rs" "head r = head s" "body_relation r = body_relation s"
    by (elim bexE conjE)
  then show ?thesis
    using essential_app_vars [of s rs vc] by (simp add: rule_app_vars_def)
qed

text \<open>C13: Removing dead constraints, duplicate rules and unused declarations changes no derivable fact, provided
  equations with a variable are well sorted; every variable the remaining rules use stays declared, and the rules of
  the error relations keep all their constraints.\<close>

theorem prune_dead_vars_exact:
  assumes "smt_model M" "\<And>r. r \<in> set (rules vc) \<Longrightarrow> well_sorted_constraints M (body_constraints r)"
  defines "vc' \<equiv> fst (prune_dead_vars_and_constraints vc)"
  shows "(derives M (rules vc') p vs \<longleftrightarrow> derives M (rules vc) p vs) \<and>
    (\<forall>v \<in> set (vars vc). \<forall>r \<in> set (rules vc').
       var_name v \<in> set (rule_app_vars r) \<union> (\<Union>c \<in> set (body_constraints r). expr_vars c) \<longrightarrow> v \<in> set (vars vc')) \<and>
    (\<forall>r \<in> set (rules vc). keeps_rule r \<longrightarrow> head_name r = query_relation vc \<or> head_name r \<in> prop_relation ` set (properties vc) \<longrightarrow>
       (\<exists>s \<in> set (rules vc'). rule_eq s r))"
proof -
  define rs where "rs = filter keeps_rule (rules vc)"
  define seed where "seed = seed_vars (vc\<lparr> rules := rs \<rparr>)"
  define ess where "ess = close_essential_transitively rs seed"
  define prot where "prot = collect_protected_heads (vc\<lparr> rules := rs \<rparr>)"
  define rs' where "rs' = fst (strip_rounds prot ess rs (snd (prune_trivially_false_rules (rules vc))))"
  note result = prune_result [OF rs_def seed_def ess_def rs'_def [unfolded prot_def]]
  show ?thesis
  proof (cases "seed = []")
    case True
    from result(1) [OF this] have "vc' = vc\<lparr> rules := rs \<rparr>"
      by (simp add: vc'_def)
    then have "rules vc' = rs" "vars vc' = vars vc"
      by simp_all
    moreover have "derives M rs = derives M (rules vc)"
      unfolding rs_def by (rule derives_same_instances [OF keeps_rule_instances [OF assms(1)]])
    moreover have "r \<in> set rs \<and> rule_eq r r" if "r \<in> set (rules vc)" "keeps_rule r" for r
      using that by (simp add: rs_def rule_eq_iff)
    ultimately show ?thesis
      by (intro conjI ballI impI) (simp_all only:, blast)
  next
    case False
    note vc' = result(2,3) [OF False, folded vc'_def]
    show ?thesis
    proof (intro conjI ballI impI)
      have "(\<Union>r \<in> set rs'. instances M r) = (\<Union>r \<in> set rs. instances M r)"
        unfolding rs'_def using essential_app_vars [of _ rs vc] assms(2) by (intro smt_model.strip_rounds_instances [OF assms(1)]) (auto simp: rs_def ess_def seed_def)
      then have "(\<Union>r \<in> set (rules vc'). instances M r) = (\<Union>r \<in> set (rules vc). instances M r)"
        using keeps_rule_instances [OF assms(1), of "rules vc"] by (simp only: vc'(1) dedupe_instances rs_def)
      from derives_same_instances [OF this] show "derives M (rules vc') p vs \<longleftrightarrow> derives M (rules vc) p vs"
        by simp
    next
      fix v r
      assume v: "v \<in> set (vars vc)" "r \<in> set (rules vc')"
        "var_name v \<in> set (rule_app_vars r) \<union> (\<Union>c \<in> set (body_constraints r). expr_vars c)"
      have r: "r \<in> set rs'"
        using v(2) dedupe_keeps [of "[]" rs'] by (auto simp only: vc'(1))
      from stripped_app_vars [OF this [unfolded rs'_def ess_def seed_def], folded seed_def, folded ess_def]
      have "set (rule_app_vars r) \<subseteq> set ess" .
      then show "v \<in> set (vars vc')"
        using v(1,3) r unfolding vc'(2) by auto
    next
      fix r
      assume "r \<in> set (rules vc)" "keeps_rule r" "head_name r = query_relation vc \<or> head_name r \<in> prop_relation ` set (properties vc)"
      then have "r \<in> set rs'"
        unfolding rs'_def by (intro strip_rounds_rules(2)) (auto simp: rs_def prot_def collect_protected_heads_def query_relation_def)
      then show "\<exists>s \<in> set (rules vc'). rule_eq s r"
        using dedupe_covers [of r rs' "[]"] unfolding vc'(1) by simp
    qed
  qed
qed

text \<open>A chain of two definitions that nothing reads unwinds hop by hop; the guard of the error rule stays.\<close>

definition chain_vc :: ChcVc where
  "chain_vc =
     (let bb0 = \<lparr> app_name = ''bb0'', app_args = [Var ''x'' SInt] \<rparr>; v = (\<lambda>n. Var n SInt) in
      new_vc\<lparr>
        vars := map (\<lambda>n. \<lparr> var_name = n, var_sort = SInt \<rparr>) [''x'', ''a0'', ''a1'', ''a2''],
        relations := [\<lparr> rel_name = ''bb0'', arg_sorts = [SInt] \<rparr>, \<lparr> rel_name = ''error'', arg_sorts = [] \<rparr>],
        rules := [\<lparr> body = body_new None [Eq (v ''x'') (IntConst 3), Eq (v ''a2'') (v ''a1''), Eq (v ''a1'') (v ''a0'')], head = bb0 \<rparr>,
                  rule_transition bb0 None (Eq (v ''x'') (IntConst 3)) \<lparr> app_name = ''error'', app_args = [] \<rparr>] \<rparr>)"

lemma chain_pruned:
  "map body_constraints (rules (fst (prune_dead_vars_and_constraints chain_vc))) =
     [[Eq (Var ''x'' SInt) (IntConst 3)], [Eq (Var ''x'' SInt) (IntConst 3)]]"
  "map var_name (vars (fst (prune_dead_vars_and_constraints chain_vc))) = [''x'']"
  by code_simp+

lemma chain_entered: "derives ground_smt (rules chain_vc) ''bb0'' [VI 3]"
proof (subst derives_iff)
  show "\<exists>r \<in> set (rules chain_vc). \<exists>\<rho>. fires ground_smt \<rho> r \<and> ''bb0'' = head_name r \<and> [VI 3] = args_val ground_smt \<rho> (head r) \<and>
      (case body_relation r of None \<Rightarrow> True | Some a \<Rightarrow> derives ground_smt (rules chain_vc) (app_name a) (args_val ground_smt \<rho> a))"
    by (simp add: chain_vc_def body_new_def fires_def args_val_def holds_def Let_def) (auto intro!: exI [of _ "\<lambda>_. VI 3"])
qed

theorem prune_dead_vars_exact_witness:
  "derives ground_smt (rules (fst (prune_dead_vars_and_constraints chain_vc))) ''bb0'' [VI 3] \<and>
   map var_name (vars (fst (prune_dead_vars_and_constraints chain_vc))) = [''x'']"
proof
  have "well_sorted_constraints ground_smt (body_constraints r)" for r
    by (simp add: well_sorted_constraints_def well_sorted_eq_def)
  then show "derives ground_smt (rules (fst (prune_dead_vars_and_constraints chain_vc))) ''bb0'' [VI 3]"
    using prune_dead_vars_exact [OF ground.smt_model_axioms, THEN conjunct1, of chain_vc "\<lambda>_. UNIV" "''bb0''" "[VI 3]"] chain_entered by metis
qed (rule chain_pruned)

end
