(* ===== verification/Chc_Dead_Scalars.thy ===== *)
theory Chc_Dead_Scalars
  imports Chc
begin

text \<open>
  Removal of state variables that are only copied (trust-mc-core/src/chc_optimize_dead_scalars.rs): the slot a name
  belongs to, the slots nothing reads, the columns every application agrees to drop, and the rewriting of rules and
  declarations by position.
\<close>

section \<open>Slots\<close>

fun truncate_at :: "string \<Rightarrow> string \<Rightarrow> string" where
  "truncate_at p [] = []"
| "truncate_at p (c # s) = (if starts_with (c # s) p then [] else c # truncate_at p s)"

definition slot_base :: "string \<Rightarrow> string" where
  "slot_base name =
     (let base = truncate_at ''__mid_bb'' name in
      case strip_suffix base ''__out'' of None \<Rightarrow> base | Some stripped \<Rightarrow> stripped)"

definition alias_identity_base :: "Expr \<Rightarrow> string option" where
  "alias_identity_base c =
     (case c of
        Eq a b \<Rightarrow> (case (var_of a, var_of b) of
            (Some x, Some y) \<Rightarrow> if slot_base x = slot_base y then Some (slot_base x) else None
          | _ \<Rightarrow> None)
      | _ \<Rightarrow> None)"

section \<open>Constraints that do not read a slot\<close>

abbreviation expr_mentions_any_var :: "Expr \<Rightarrow> bool" where
  "expr_mentions_any_var e \<equiv> collect_expr_vars e \<noteq> []"

definition is_identity :: "Expr \<Rightarrow> string \<Rightarrow> string \<Rightarrow> bool" where
  "is_identity c i out \<longleftrightarrow>
     (case c of Eq a b \<Rightarrow> var_of a = Some i \<and> var_of b = Some out \<or> var_of a = Some out \<and> var_of b = Some i | _ \<Rightarrow> False)"

definition is_const_init_of_output :: "Expr \<Rightarrow> string \<Rightarrow> bool" where
  "is_const_init_of_output c out \<longleftrightarrow>
     (case c of
        Eq a b \<Rightarrow> if var_of a = Some out then \<not> expr_mentions_any_var b
                  else if var_of b = Some out then \<not> expr_mentions_any_var a else False
      | _ \<Rightarrow> False)"

definition is_select_of_var :: "Expr \<Rightarrow> string \<Rightarrow> bool" where
  "is_select_of_var e i \<longleftrightarrow> (case e of Select a idx \<Rightarrow> var_of a = Some i \<and> \<not> expr_mentions_any_var idx | _ \<Rightarrow> False)"

definition is_const_select_of_input :: "Expr \<Rightarrow> string \<Rightarrow> bool" where
  "is_const_select_of_input c i \<longleftrightarrow>
     (case c of
        Eq a b \<Rightarrow> is_select_of_var a i \<and> \<not> expr_mentions_any_var b \<or> is_select_of_var b i \<and> \<not> expr_mentions_any_var a
      | _ \<Rightarrow> False)"

definition is_output_var :: "Expr \<Rightarrow> string \<Rightarrow> bool" where
  "is_output_var e out \<longleftrightarrow> var_of e = Some out"

definition is_store_from_input :: "Expr \<Rightarrow> string \<Rightarrow> bool" where
  "is_store_from_input e i \<longleftrightarrow>
     (case e of Store a idx v \<Rightarrow> var_of a = Some i \<and> \<not> expr_mentions_any_var idx \<and> \<not> expr_mentions_any_var v | _ \<Rightarrow> False)"

definition is_store_update_of_output :: "Expr \<Rightarrow> string \<Rightarrow> string \<Rightarrow> bool" where
  "is_store_update_of_output c i out \<longleftrightarrow>
     (case c of
        Eq a b \<Rightarrow> is_output_var a out \<and> is_store_from_input b i \<or> is_output_var b out \<and> is_store_from_input a i
      | _ \<Rightarrow> False)"

text \<open>One constraint: does it keep the slot of \<open>i\<close> alive?\<close>

definition keeps_alive :: "bool \<Rightarrow> Expr \<Rightarrow> string \<Rightarrow> string \<Rightarrow> bool" where
  "keeps_alive is_init c i out \<longleftrightarrow>
     (if alias_identity_base c = Some i then False
      else if \<exists>x \<in> expr_vars c. slot_base x = i \<and> x \<noteq> i \<and> x \<noteq> out then True
      else if is_identity c i out then False
      else if is_const_init_of_output c out then False
      else if is_init \<and> is_const_select_of_input c i then False
      else if is_store_update_of_output c i out then False
      else out \<in> expr_vars c \<or> i \<in> expr_vars c)"

definition is_dead_scalar :: "Rule list \<Rightarrow> string \<Rightarrow> string \<Rightarrow> bool" where
  "is_dead_scalar rs i out \<longleftrightarrow>
     (\<forall>r \<in> set rs. \<forall>c \<in> set (body_constraints r). \<not> keeps_alive (body_relation r = None) c i out)"

definition out_name :: "string \<Rightarrow> string" where
  "out_name x = x @ ''__out''"

definition dead_slots :: "ChcVc \<Rightarrow> string list" where
  "dead_slots vc =
     filter (\<lambda>i. slot_base i = i \<and> is_dead_scalar (rules vc) i (out_name i))
       (remdups (filter (\<lambda>x. \<not> ends_with x ''__out'') (map var_name (vars vc))))"

section \<open>Columns\<close>

text \<open>Droppable so far, the slot named here, whether a name was seen.\<close>

type_synonym column = "bool \<times> string option \<times> bool"

definition observe_column :: "string list \<Rightarrow> Expr \<Rightarrow> column \<Rightarrow> column option" where
  "observe_column dead arg = (\<lambda>(droppable, slot, named).
     case var_of arg of
       Some x \<Rightarrow>
         (let base = slot_base x in
          if slot \<noteq> None \<and> slot \<noteq> Some base then None
          else Some (droppable \<and> base \<in> set dead, Some base, True))
     | None \<Rightarrow> Some (if expr_mentions_any_var arg then (False, slot, named) else (droppable, slot, named)))"

fun observe_args :: "string list \<Rightarrow> Expr list \<Rightarrow> column list \<Rightarrow> column list option" where
  "observe_args dead (a # as) (c # cs) =
     (case observe_column dead a c of
        None \<Rightarrow> None
      | Some c' \<Rightarrow> map_option ((#) c') (observe_args dead as cs))"
| "observe_args dead _ cs = Some cs"

type_synonym columns = "(string, column list option) btree"

definition observe :: "(string \<rightharpoonup> nat) \<Rightarrow> string list \<Rightarrow> RelationApp \<Rightarrow> columns \<Rightarrow> columns" where
  "observe decl_arity dead a acc =
     (case decl_arity (app_name a) of
        None \<Rightarrow> bt_insert (app_name a) None acc
      | Some arity \<Rightarrow>
          (case bt_get_or (Some (replicate arity (True, None, False))) acc (app_name a) of
             None \<Rightarrow> bt_insert (app_name a) None acc
           | Some cols \<Rightarrow>
               bt_insert (app_name a) (if length (app_args a) \<noteq> arity then None else observe_args dead (app_args a) cols) acc))"

definition decl_arities :: "RelationDecl list \<Rightarrow> string \<rightharpoonup> nat" where
  "decl_arities ds = map_of (rev (map (\<lambda>d. (rel_name d, length (arg_sorts d))) ds))"

type_synonym masks = "(string, bool list option) btree"

definition dead_column_masks :: "ChcVc \<Rightarrow> string list \<Rightarrow> masks" where
  "dead_column_masks vc dead =
     map (\<lambda>(n, cols). (n, map_option (map (\<lambda>(droppable, slot, named). droppable \<and> named)) cols))
       (fold (observe (decl_arities (relations vc)) dead) (concat (map rule_apps (rules vc))) [])"

definition drop_columns :: "bool list \<Rightarrow> 'a list \<Rightarrow> 'a list" where
  "drop_columns flags xs = map fst (filter (\<lambda>(_, dropped). \<not> dropped) (zip xs flags))"

definition remove_columns :: "masks \<Rightarrow> string \<Rightarrow> 'a list \<Rightarrow> 'a list" where
  "remove_columns masks n xs =
     (case bt_get masks n of Some (Some flags) \<Rightarrow> if length flags \<noteq> length xs then xs else drop_columns flags xs | _ \<Rightarrow> xs)"

definition remove_dead_columns :: "masks \<Rightarrow> RelationApp \<Rightarrow> RelationApp" where
  "remove_dead_columns masks a = a\<lparr> app_args := remove_columns masks (app_name a) (app_args a) \<rparr>"

section \<open>The pass\<close>

definition is_inert_dead_constraint :: "Expr \<Rightarrow> string list \<Rightarrow> string list \<Rightarrow> bool" where
  "is_inert_dead_constraint c dead framed \<longleftrightarrow>
     expr_vars c \<noteq> {} \<and> (\<forall>x \<in> expr_vars c. slot_base x \<in> set dead \<and> x \<notin> set framed)"

definition rewrite_rule :: "masks \<Rightarrow> string list \<Rightarrow> Rule \<Rightarrow> Rule" where
  "rewrite_rule masks dead r =
     (let h = remove_dead_columns masks (head r);
          b = map_option (remove_dead_columns masks) (body_relation r);
          framed = concat (map collect_expr_vars (app_args h)) @
            (case b of None \<Rightarrow> [] | Some a \<Rightarrow> concat (map collect_expr_vars (app_args a))) in
      \<lparr> body = \<lparr> relation = b, constraints = Owned (filter (\<lambda>c. \<not> is_inert_dead_constraint c dead framed) (body_constraints r)) \<rparr>,
        head = h \<rparr>)"

definition rewrite_decl :: "masks \<Rightarrow> RelationDecl \<Rightarrow> RelationDecl" where
  "rewrite_decl masks d = d\<lparr> arg_sorts := remove_columns masks (rel_name d) (arg_sorts d) \<rparr>"

definition dropped_columns :: "masks \<Rightarrow> nat" where
  "dropped_columns masks = sum_list (map (\<lambda>(n, m). case m of None \<Rightarrow> 0 | Some flags \<Rightarrow> length (filter id flags)) masks)"

definition prune_dead_identity_scalars :: "ChcVc \<Rightarrow> ChcVc \<times> nat" where
  "prune_dead_identity_scalars vc =
     (let dead = dead_slots vc; masks = dead_column_masks vc dead; pruned = dropped_columns masks in
      if dead = [] \<or> pruned = 0 then (vc, 0)
      else (vc\<lparr> rules := map (rewrite_rule masks dead) (rules vc), relations := map (rewrite_decl masks) (relations vc) \<rparr>, pruned))"

section \<open>Dead slots are isolated\<close>

lemma no_vars: "\<not> expr_mentions_any_var e \<Longrightarrow> expr_vars e = {}"
  by simp

lemma dead_slot_isolated:
  assumes "slot_base i = i" "\<not> keeps_alive is_init c i out" "x \<in> expr_vars c" "slot_base x = i \<or> x = out" "y \<in> expr_vars c"
  shows "slot_base y = i \<or> y = out"
proof -
  consider "alias_identity_base c = Some i" | "is_identity c i out" | "is_const_init_of_output c out"
    | "is_const_select_of_input c i" | "is_store_update_of_output c i out" | "out \<notin> expr_vars c" "i \<notin> expr_vars c"
      "\<forall>x \<in> expr_vars c. slot_base x = i \<longrightarrow> x = i \<or> x = out"
    using assms(2) unfolding keeps_alive_def by (auto split: if_splits)
  then show ?thesis
  proof cases
    case 6
    then show ?thesis
      using assms(3,4) by metis
  qed (use assms(1,5) in \<open>auto simp: alias_identity_base_def is_identity_def is_const_init_of_output_def is_output_var_def
      is_const_select_of_input_def is_select_of_var_def is_store_update_of_output_def is_store_from_input_def var_of_Some
      split: Expr.splits option.splits if_splits\<close>)
qed

section \<open>A dropped column carries a dead slot\<close>

definition column_ok :: "string list \<Rightarrow> Expr \<Rightarrow> bool" where
  "column_ok dead e \<longleftrightarrow> (case var_of e of Some x \<Rightarrow> slot_base x \<in> set dead | None \<Rightarrow> expr_vars e = {})"

definition columns_ok :: "string list \<Rightarrow> column list \<Rightarrow> Expr list \<Rightarrow> bool" where
  "columns_ok dead cols args \<longleftrightarrow> list_all2 (\<lambda>c e. fst c \<longrightarrow> column_ok dead e) cols args"

lemma observe_column_ok:
  assumes "observe_column dead a c = Some c'"
  shows "fst c' \<longrightarrow> fst c \<and> column_ok dead a"
  using assms by (cases c) (auto simp: observe_column_def column_ok_def Let_def split: if_splits option.splits)

lemma observe_args_ok:
  assumes "observe_args dead as cs = Some cs'" "length as = length cs"
  shows "columns_ok dead cs' as \<and> list_all2 (\<lambda>c' c. fst c' \<longrightarrow> fst c) cs' cs"
  using assms
proof (induction dead as cs arbitrary: cs' rule: observe_args.induct)
  case (1 dead a as c cs)
  then show ?case
    using observe_column_ok [of dead a c] by (auto simp: columns_ok_def split: option.splits)
qed (auto simp: columns_ok_def)

definition seen_ok :: "(string \<rightharpoonup> nat) \<Rightarrow> string list \<Rightarrow> RelationApp list \<Rightarrow> columns \<Rightarrow> bool" where
  "seen_ok ar dead as acc \<longleftrightarrow>
     (\<forall>n cols. bt_get acc n = Some (Some cols) \<longrightarrow> ar n = Some (length cols)) \<and>
     (\<forall>a \<in> set as. bt_get acc (app_name a) \<noteq> None \<and>
       (\<forall>cols. bt_get acc (app_name a) = Some (Some cols) \<longrightarrow> columns_ok dead cols (app_args a)))"

lemma columns_ok_weaken:
  "columns_ok dead cols as \<Longrightarrow> list_all2 (\<lambda>c' c. fst c' \<longrightarrow> fst c) cols' cols \<Longrightarrow> columns_ok dead cols' as"
  unfolding columns_ok_def list_all2_conv_all_nth by simp

lemma observe_cases:
  obtains "observe ar dead a acc = bt_insert (app_name a) None acc"
  | n cols cols' where "ar (app_name a) = Some n" "bt_get_or (Some (replicate n (True, None, False))) acc (app_name a) = Some cols"
      "length (app_args a) = n" "observe_args dead (app_args a) cols = Some cols'"
      "observe ar dead a acc = bt_insert (app_name a) (Some cols') acc"
proof (cases "ar (app_name a)")
  case (Some n)
  show ?thesis
  proof (cases "bt_get_or (Some (replicate n (True, None, False))) acc (app_name a)")
    case None
    then show ?thesis
      using Some that(1) by (simp add: observe_def)
  next
    case cols: (Some cols)
    show ?thesis
    proof (cases "length (app_args a) = n \<and> observe_args dead (app_args a) cols \<noteq> None")
      case True
      then show ?thesis
        using Some cols that(2) by (auto simp: observe_def)
    next
      case False
      then show ?thesis
        using Some cols that(1) by (auto simp: observe_def split: if_splits)
    qed
  qed
qed (use that(1) in \<open>simp add: observe_def\<close>)

lemma observe_seen:
  assumes "seen_ok ar dead as acc"
  shows "seen_ok ar dead (a # as) (observe ar dead a acc)"
proof (cases rule: observe_cases [of ar dead a acc])
  case 1
  then show ?thesis
    using assms by (auto simp: seen_ok_def)
next
  case (2 n cols cols')
  have "length cols = length (app_args a)"
    using assms 2(1-3) by (auto simp: seen_ok_def bt_get_or_def split: option.splits)
  from observe_args_ok [OF 2(4) this [symmetric]]
  have ok: "columns_ok dead cols' (app_args a)" "list_all2 (\<lambda>c' c. fst c' \<longrightarrow> fst c) cols' cols"
    by simp_all
  have len: "length cols' = n"
    using ok(1) 2(3) by (simp add: columns_ok_def list_all2_lengthD)
  have "columns_ok dead cols' (app_args b)" if b: "b \<in> set as" "app_name b = app_name a" for b
  proof -
    have "bt_get acc (app_name a) \<noteq> None"
      using assms b unfolding seen_ok_def by metis
    then have "bt_get acc (app_name a) = Some (Some cols)"
      using 2(2) by (auto simp: bt_get_or_def)
    then have "columns_ok dead cols (app_args b)"
      using assms b unfolding seen_ok_def by metis
    then show ?thesis
      using ok(2) by (rule columns_ok_weaken)
  qed
  then show ?thesis
    using assms ok(1) len 2(1) unfolding seen_ok_def 2(5) by auto
qed

lemma observe_fold_seen: "seen_ok ar dead seen acc \<Longrightarrow> seen_ok ar dead (rev as @ seen) (fold (observe ar dead) as acc)"
proof (induction as arbitrary: seen acc)
  case (Cons a as)
  from Cons.IH [OF observe_seen [OF Cons.prems, of a]] show ?case
    by simp
qed simp

lemma map_of_map_option: "map_of (map (\<lambda>(k, v). (k, f v)) m) k = map_option f (map_of m k)"
  by (induction m) auto

text \<open>Every application agrees that a dropped column names a dead slot or holds a constant.\<close>

lemma dropped_column_ok:
  assumes "r \<in> set (rules vc)" "a \<in> set (rule_apps r)" "bt_get (dead_column_masks vc dead) (app_name a) = Some (Some flags)"
  shows "list_all2 (\<lambda>f e. f \<longrightarrow> column_ok dead e) flags (app_args a)"
proof -
  let ?as = "concat (map rule_apps (rules vc))" and ?ar = "decl_arities (relations vc)"
  have "seen_ok ?ar dead (rev ?as @ []) (fold (observe ?ar dead) ?as [])"
    by (rule observe_fold_seen) (simp add: seen_ok_def)
  moreover obtain cols where cols: "bt_get (fold (observe ?ar dead) ?as []) (app_name a) = Some (Some cols)"
      "flags = map (\<lambda>(droppable, slot, named). droppable \<and> named) cols"
    using assms(3) by (auto simp: dead_column_masks_def map_of_map_option)
  moreover have "a \<in> set ?as"
    using assms(1,2) by auto
  ultimately have "columns_ok dead cols (app_args a)"
    unfolding seen_ok_def by (metis append_Nil2 set_rev)
  then show ?thesis
    unfolding cols(2) columns_ok_def list_all2_conv_all_nth by (auto simp: case_prod_beta)
qed

section \<open>Safety\<close>

lemma drop_columns_map: "drop_columns flags (map f xs) = map f (drop_columns flags xs)"
  by (induction xs flags rule: list_induct2') (auto simp: drop_columns_def)

lemma drop_columns_length: "length xs = length ys \<Longrightarrow> length (drop_columns flags xs) = length (drop_columns flags ys)"
proof (induction xs ys arbitrary: flags rule: list_induct2)
  case (Cons x xs y ys)
  then show ?case
    by (cases flags) (auto simp: drop_columns_def)
qed (simp add: drop_columns_def)

lemma remove_columns_map: "remove_columns ms n (map f xs) = map f (remove_columns ms n xs)"
  by (simp add: remove_columns_def drop_columns_map split: option.splits)

lemma remove_columns_length: "length xs = length ys \<Longrightarrow> length (remove_columns ms n xs) = length (remove_columns ms n ys)"
  by (auto simp: remove_columns_def intro: drop_columns_length split: option.splits)

lemma remove_dead_columns_name [simp]: "app_name (remove_dead_columns ms a) = app_name a"
  by (simp add: remove_dead_columns_def)

lemma args_val_remove: "args_val M \<rho> (remove_dead_columns ms a) = remove_columns ms (app_name a) (args_val M \<rho> a)"
  by (simp add: remove_dead_columns_def args_val_def remove_columns_map)

lemma rewrite_rule_sel:
  "head (rewrite_rule ms dead r) = remove_dead_columns ms (head r)"
  "body_relation (rewrite_rule ms dead r) = map_option (remove_dead_columns ms) (body_relation r)"
  "set (body_constraints (rewrite_rule ms dead r)) \<subseteq> set (body_constraints r)"
  by (auto simp: rewrite_rule_def Let_def)

lemma derives_rewrite_rule:
  "derives M rs p vs \<Longrightarrow> derives M (map (rewrite_rule ms dead) rs) p (remove_columns ms p vs)"
proof (erule derives_image [where f = "remove_columns ms"])
  fix r \<rho>
  assume r: "r \<in> set rs" "fires M \<rho> r"
  have "fires M \<rho> (rewrite_rule ms dead r)"
    using r(2) rewrite_rule_sel(3) [of ms dead r] unfolding fires_def by blast
  moreover have "rel_option (\<lambda>a b. app_name b = app_name a \<and> args_val M \<rho> b = remove_columns ms (app_name a) (args_val M \<rho> a))
      (body_relation r) (body_relation (rewrite_rule ms dead r))"
    by (cases "body_relation r") (simp_all add: rewrite_rule_sel args_val_remove)
  ultimately show "\<exists>r' \<in> set (map (rewrite_rule ms dead) rs). \<exists>\<sigma>. fires M \<sigma> r' \<and> head_name r' = head_name r \<and>
      args_val M \<sigma> (head r') = remove_columns ms (head_name r) (args_val M \<rho> (head r)) \<and>
      rel_option (\<lambda>a b. app_name b = app_name a \<and> args_val M \<sigma> b = remove_columns ms (app_name a) (args_val M \<rho> a))
        (body_relation r) (body_relation r')"
    using r(1) by (intro bexI [of _ "rewrite_rule ms dead r"] exI [of _ \<rho>] conjI) (simp_all add: rewrite_rule_sel(1) args_val_remove)
qed

text \<open>Applications and declarations lose the same columns.\<close>

lemma rewrite_keeps_arity:
  assumes ok: "arity_ok vc"
  shows "arity_ok (vc\<lparr> rules := map (rewrite_rule masks dead) (rules vc), relations := map (rewrite_decl masks) (relations vc) \<rparr>)"
proof -
  have "\<exists>d \<in> set (map (rewrite_decl masks) (relations vc)). rel_name d = app_name a \<and> length (app_args a) = length (arg_sorts d)"
    if a: "a \<in> set (rule_apps (rewrite_rule masks dead r))" "r \<in> set (rules vc)" for a r
  proof -
    obtain b where b: "b \<in> set (rule_apps r)" "a = remove_dead_columns masks b"
      using a(1) by (auto simp: rule_apps_def rewrite_rule_sel split: option.splits)
    then obtain d where d: "d \<in> set (relations vc)" "rel_name d = app_name b" "length (app_args b) = length (arg_sorts d)"
      using ok a(2) unfolding arity_ok_def by blast
    show ?thesis
    proof (rule bexI [of _ "rewrite_decl masks d"])
      show "rewrite_decl masks d \<in> set (map (rewrite_decl masks) (relations vc))"
        using d(1) by simp
    qed (use d(2) remove_columns_length [OF d(3), of masks "app_name b"] in \<open>simp add: b(2) rewrite_decl_def remove_dead_columns_def\<close>)
  qed
  then show ?thesis
    using ok by (auto simp: arity_ok_def rewrite_decl_def comp_def)
qed

text \<open>C15: Removing copied state variables only over-approximates: every derivable fact stays derivable without the
  dropped columns, and every application keeps the declared arity; a dropped column carries a dead slot or a
  constant in every application, and a constraint that mentions a dead slot mentions no other variable.\<close>

theorem prune_dead_scalars_safe:
  assumes "prune_dead_identity_scalars vc = (vc', n)"
  defines "dead \<equiv> dead_slots vc" and "masks \<equiv> dead_column_masks vc (dead_slots vc)"
  shows "(derives M (rules vc) p vs \<longrightarrow> derives M (rules vc') p (if n = 0 then vs else remove_columns masks p vs)) \<and>
    (arity_ok vc \<longrightarrow> arity_ok vc') \<and>
    (\<forall>r \<in> set (rules vc). \<forall>a \<in> set (rule_apps r). \<forall>flags. bt_get masks (app_name a) = Some (Some flags) \<longrightarrow>
       list_all2 (\<lambda>f e. f \<longrightarrow> (case var_of e of Some x \<Rightarrow> slot_base x \<in> set dead | None \<Rightarrow> expr_vars e = {})) flags (app_args a)) \<and>
    (\<forall>i \<in> set dead. \<forall>r \<in> set (rules vc). \<forall>c \<in> set (body_constraints r). \<forall>x \<in> expr_vars c. \<forall>y \<in> expr_vars c.
       slot_base x = i \<or> x = out_name i \<longrightarrow> slot_base y = i \<or> y = out_name i)"
proof (intro conjI)
  have vc': "n = 0 \<and> vc' = vc \<or> n \<noteq> 0 \<and>
      vc' = vc\<lparr> rules := map (rewrite_rule masks dead) (rules vc), relations := map (rewrite_decl masks) (relations vc) \<rparr>"
    using assms(1) by (auto simp: prune_dead_identity_scalars_def dead_def masks_def Let_def split: if_splits)
  show "derives M (rules vc) p vs \<longrightarrow> derives M (rules vc') p (if n = 0 then vs else remove_columns masks p vs)"
    using vc' derives_rewrite_rule by auto
  show "arity_ok vc \<longrightarrow> arity_ok vc'"
    using vc' rewrite_keeps_arity by auto
  show "\<forall>r \<in> set (rules vc). \<forall>a \<in> set (rule_apps r). \<forall>flags. bt_get masks (app_name a) = Some (Some flags) \<longrightarrow>
       list_all2 (\<lambda>f e. f \<longrightarrow> (case var_of e of Some x \<Rightarrow> slot_base x \<in> set dead | None \<Rightarrow> expr_vars e = {})) flags (app_args a)"
    unfolding masks_def dead_def using dropped_column_ok [unfolded column_ok_def] by simp
  show "\<forall>i \<in> set dead. \<forall>r \<in> set (rules vc). \<forall>c \<in> set (body_constraints r). \<forall>x \<in> expr_vars c. \<forall>y \<in> expr_vars c.
       slot_base x = i \<or> x = out_name i \<longrightarrow> slot_base y = i \<or> y = out_name i"
  proof (intro ballI impI)
    fix i r c x y
    assume "i \<in> set dead" "r \<in> set (rules vc)" "c \<in> set (body_constraints r)"
    then have "slot_base i = i" "\<not> keeps_alive (body_relation r = None) c i (out_name i)"
      by (auto simp: dead_def dead_slots_def is_dead_scalar_def)
    moreover assume "x \<in> expr_vars c" "y \<in> expr_vars c" "slot_base x = i \<or> x = out_name i"
    ultimately show "slot_base y = i \<or> y = out_name i"
      using dead_slot_isolated by blast
  qed
qed

text \<open>A counter that is read and a flag that is only copied through a loop: the flag's column goes.\<close>

definition copied_vc :: ChcVc where
  "copied_vc =
     (let v = (\<lambda>n. Var n SInt); app = (\<lambda>n es. \<lparr> app_name = n, app_args = es \<rparr>) in
      new_vc\<lparr>
        vars := map (\<lambda>n. \<lparr> var_name = n, var_sort = SInt \<rparr>) [''i'', ''i__out'', ''f'', ''f__out''],
        relations := [\<lparr> rel_name = ''bb0'', arg_sorts = [SInt, SInt] \<rparr>, \<lparr> rel_name = ''error'', arg_sorts = [] \<rparr>],
        rules := [rule_init (Eq (v ''i__out'') (IntConst 0)) (app ''bb0'' [v ''i__out'', IntConst 7]),
                  rule_transition (app ''bb0'' [v ''i'', v ''f'']) (Some (Eq (v ''f__out'') (v ''f''))) (Eq (v ''i'') (v ''i__out''))
                    (app ''bb0'' [v ''i__out'', v ''f__out'']),
                  rule_transition (app ''bb0'' [v ''i'', v ''f'']) None (Eq (v ''i'') (IntConst 9)) (app ''error'' [])] \<rparr>)"

lemma copied_pruned:
  "dead_slots copied_vc = [''f'']"
  "dead_column_masks copied_vc [''f''] = [(''bb0'', Some [False, True]), (''error'', Some [])]"
  by code_simp+

lemma copied_result: "\<exists>vc'. prune_dead_identity_scalars copied_vc = (vc', 1) \<and> map (length \<circ> arg_sorts) (relations vc') = [1, 0]"
proof -
  have "dropped_columns [(''bb0'', Some [False, True]), (''error'', Some [])] = 1"
    by code_simp
  moreover have "map (length \<circ> arg_sorts) (map (rewrite_decl [(''bb0'', Some [False, True]), (''error'', Some [])]) (relations copied_vc)) = [1, 0]"
    by code_simp
  ultimately show ?thesis
    by (simp add: prune_dead_identity_scalars_def copied_pruned Let_def)
qed

lemma copied_entered: "derives ground_smt (rules copied_vc) ''bb0'' [VI 0, VI 7]"
proof (subst derives_iff)
  show "\<exists>r \<in> set (rules copied_vc). \<exists>\<rho>. fires ground_smt \<rho> r \<and> ''bb0'' = head_name r \<and> [VI 0, VI 7] = args_val ground_smt \<rho> (head r) \<and>
      (case body_relation r of None \<Rightarrow> True | Some a \<Rightarrow> derives ground_smt (rules copied_vc) (app_name a) (args_val ground_smt \<rho> a))"
    by (simp add: copied_vc_def rule_init_def body_new_def fires_def args_val_def holds_def Let_def) (auto intro!: exI [of _ "\<lambda>_. VI 0"])
qed

lemma copied_fact: "remove_columns [(''bb0'', Some [False, True]), (''error'', Some [])] ''bb0'' [VI 0, VI 7] = [VI 0]"
  by (simp add: remove_columns_def drop_columns_def)

theorem prune_dead_scalars_safe_witness:
  "\<exists>vc'. prune_dead_identity_scalars copied_vc = (vc', 1) \<and> map (length \<circ> arg_sorts) (relations vc') = [1, 0] \<and>
     derives ground_smt (rules vc') ''bb0'' [VI 0]"
proof -
  from copied_result obtain vc' where vc': "prune_dead_identity_scalars copied_vc = (vc', 1)" "map (length \<circ> arg_sorts) (relations vc') = [1, 0]"
    by (elim exE conjE)
  have "derives ground_smt (rules vc') ''bb0'' (if (1::nat) = 0 then [VI 0, VI 7] else remove_columns [(''bb0'', Some [False, True]), (''error'', Some [])] ''bb0'' [VI 0, VI 7])"
    using prune_dead_scalars_safe [OF vc'(1), THEN conjunct1, rule_format, OF copied_entered] unfolding copied_pruned .
  then have "derives ground_smt (rules vc') ''bb0'' [VI 0]"
    unfolding copied_fact by simp
  with vc' show ?thesis
    by (intro exI [of _ vc'] conjI)
qed

text \<open>
  A slot whose copy is also set to a constant in the same rule is compared, not only copied; the pass drops it and
  the error becomes derivable.
\<close>

definition compared_vc :: ChcVc where
  "compared_vc =
     (let v = (\<lambda>n. Var n SInt); app = (\<lambda>n es. \<lparr> app_name = n, app_args = es \<rparr>) in
      new_vc\<lparr>
        vars := map (\<lambda>n. \<lparr> var_name = n, var_sort = SInt \<rparr>) [''f'', ''f__out''],
        relations := [\<lparr> rel_name = ''bb0'', arg_sorts = [SInt] \<rparr>, \<lparr> rel_name = ''error'', arg_sorts = [] \<rparr>],
        rules := [rule_init (BoolConst True) (app ''bb0'' [IntConst 0]),
                  rule_transition (app ''bb0'' [v ''f'']) (Some (Eq (v ''f__out'') (v ''f''))) (Eq (v ''f__out'') (IntConst 1))
                    (app ''error'' [])] \<rparr>)"

lemma compared_dead:
  "dead_slots compared_vc = [''f'']"
  "dead_column_masks compared_vc [''f''] = [(''bb0'', Some [True]), (''error'', Some [])]"
  "dropped_columns [(''bb0'', Some [True]), (''error'', Some [])] = 1"
  "slot_base ''f__out'' = ''f''" "slot_base ''f'' = ''f''"
  by code_simp+

definition compared_rules :: "Rule list" where
  "compared_rules = map (rewrite_rule [(''bb0'', Some [True]), (''error'', Some [])] [''f'']) (rules compared_vc)"

lemma compared_pruned:
  "rules (fst (prune_dead_identity_scalars compared_vc)) = compared_rules"
  "query_relation (fst (prune_dead_identity_scalars compared_vc)) = query_relation compared_vc"
  by (simp_all add: prune_dead_identity_scalars_def compared_dead compared_rules_def query_relation_def Let_def)

lemma compared_query: "query_relation compared_vc = ''error''"
  by (simp add: compared_vc_def new_vc_def query_relation_def Let_def)

lemma compared_rules_derive: "derives ground_smt compared_rules ''error'' []"
proof -
  note defs = compared_rules_def compared_vc_def rule_init_def rule_transition_def body_new_def rewrite_rule_def
    remove_dead_columns_def remove_columns_def drop_columns_def is_inert_dead_constraint_def compared_dead(4,5) Let_def
  have "derives ground_smt compared_rules ''bb0'' []"
    by (subst derives_iff) (simp add: defs fires_def args_val_def holds_def)
  then show ?thesis
    by (subst derives_iff) (simp add: defs fires_def args_val_def holds_def)
qed

lemma compared_state: "derives ground_smt (rules compared_vc) ''bb0'' vs \<Longrightarrow> vs = [VI 0]"
  by (subst (asm) derives_iff) (auto simp: compared_vc_def rule_init_def rule_transition_def args_val_def body_new_def Let_def)

lemma compared_safe: "\<not> derives ground_smt (rules compared_vc) ''error'' vs"
proof
  assume "derives ground_smt (rules compared_vc) ''error'' vs"
  then obtain \<rho> where "derives ground_smt (rules compared_vc) ''bb0'' [\<rho> ''f'']" "\<rho> ''f'' = VI 1"
    by (subst (asm) derives_iff)
      (auto simp: compared_vc_def rule_init_def rule_transition_def args_val_def body_new_def fires_def holds_def Let_def)
  with compared_state show False
    by fastforce
qed

lemma constant_copy_compares:
  "\<not> reachable_query ground_smt compared_vc \<and> reachable_query ground_smt (fst (prune_dead_identity_scalars compared_vc))"
  using compared_safe compared_rules_derive by (auto simp: reachable_query_def compared_pruned compared_query)

end
