(* ===== verification/Chc_Eval.thy ===== *)
theory Chc_Eval
  imports Chc "HOL-Library.Monad_Syntax"
begin

text \<open>
  Evaluation of constant terms (trust-mc-core/src/chc_const_prop_eval.rs): the arithmetic on bit vector literals, the
  evaluators of truth values and literals, selection through stores, and their soundness against the laws of the term
  language.

  Literals hold big integers; \<open>bitvec_const\<close> of the bindings reduces them modulo the width.
\<close>

section \<open>Bit vector arithmetic\<close>

definition bitvec_const :: "int \<Rightarrow> nat \<Rightarrow> Expr" where
  "bitvec_const i w = BitVecConst (nat (i mod 2 ^ w)) w"

definition bitvec_modulus :: "nat \<Rightarrow> int" where
  "bitvec_modulus w = 2 ^ w"

definition bitvec_to_signed :: "int \<Rightarrow> nat \<Rightarrow> int" where
  "bitvec_to_signed v w = (let sign_bit = 2 ^ (w - 1) in if sign_bit \<le> v then v - bitvec_modulus w else v)"

definition signed_trunc_div :: "int \<Rightarrow> int \<Rightarrow> int" where
  "signed_trunc_div a b =
     (let quotient = (if a < 0 then - a else a) div (if b < 0 then - b else b) in
      if (a < 0) \<noteq> (b < 0) then - quotient else quotient)"

definition signed_ashr :: "int \<Rightarrow> nat \<Rightarrow> nat \<Rightarrow> int" where
  "signed_ashr v shift w =
     (if w \<le> shift then (if v < 0 then -1 else 0)
      else (let divisor = 2 ^ shift in if 0 \<le> v then v div divisor else - ((- v + divisor - 1) div divisor)))"

text \<open>A shift amount that does not fit 64 bits counts as the width.\<close>

definition shift_amount :: "nat \<Rightarrow> nat \<Rightarrow> nat" where
  "shift_amount v w = (if v < 2 ^ 64 then v else w)"

fun eval_bv :: "BvOp \<Rightarrow> int \<Rightarrow> nat \<Rightarrow> int \<Rightarrow> nat \<Rightarrow> Expr option" where
  "eval_bv BvAdd a wa b wb = Some (bitvec_const (a + b) wa)"
| "eval_bv BvSub a wa b wb = Some (bitvec_const (a - b) wa)"
| "eval_bv BvMul a wa b wb = Some (bitvec_const (a * b) wa)"
| "eval_bv BvURem a wa b wb = (if b \<noteq> 0 then Some (bitvec_const (a mod b) wa) else None)"
| "eval_bv BvUDiv a wa b wb = (if b \<noteq> 0 then Some (bitvec_const (a div b) wa) else None)"
| "eval_bv BvSDiv a wa b wb =
     (if b \<noteq> 0 then Some (bitvec_const (signed_trunc_div (bitvec_to_signed a wa) (bitvec_to_signed b wb)) wa) else None)"
| "eval_bv BvSRem a wa b wb =
     (if b \<noteq> 0 then (let sa = bitvec_to_signed a wa; sb = bitvec_to_signed b wb in
        Some (bitvec_const (sa - signed_trunc_div sa sb * sb) wa)) else None)"
| "eval_bv BvAnd a wa b wb = Some (bitvec_const (and a b) wa)"
| "eval_bv BvOr a wa b wb = Some (bitvec_const (or a b) wa)"
| "eval_bv BvXor a wa b wb = Some (bitvec_const (xor a b) wa)"
| "eval_bv BvShl a wa b wb =
     (let shift = shift_amount (nat b) wa in Some (bitvec_const (if wa \<le> shift then 0 else a * 2 ^ shift) wa))"
| "eval_bv BvLShr a wa b wb =
     (let shift = shift_amount (nat b) wa in Some (bitvec_const (if wa \<le> shift then 0 else a div 2 ^ shift) wa))"
| "eval_bv BvAShr a wa b wb = Some (bitvec_const (signed_ashr (bitvec_to_signed a wa) (shift_amount (nat b) wa) wa) wa)"
| "eval_bv BvULt a wa b wb = Some (BoolConst (a < b))"
| "eval_bv BvULe a wa b wb = Some (BoolConst (a \<le> b))"
| "eval_bv BvUGt a wa b wb = Some (BoolConst (a > b))"
| "eval_bv BvUGe a wa b wb = Some (BoolConst (a \<ge> b))"
| "eval_bv BvSLt a wa b wb = Some (BoolConst (bitvec_to_signed a wa < bitvec_to_signed b wb))"
| "eval_bv BvSLe a wa b wb = Some (BoolConst (bitvec_to_signed a wa \<le> bitvec_to_signed b wb))"
| "eval_bv BvSGt a wa b wb = Some (BoolConst (bitvec_to_signed a wa > bitvec_to_signed b wb))"
| "eval_bv BvSGe a wa b wb = Some (BoolConst (bitvec_to_signed a wa \<ge> bitvec_to_signed b wb))"
| "eval_bv BvConcat a wa b wb = Some (bitvec_const (or (a * 2 ^ wb) b) (wa + wb))"
| "eval_bv BvAddNoOverflowUnsigned a wa b wb = Some (BoolConst (a + b < 2 ^ wa))"
| "eval_bv BvSubNoUnderflowUnsigned a wa b wb = Some (BoolConst (a \<ge> b))"
| "eval_bv _ a wa b wb = None"

definition eval_bv_binary_const :: "BvOp \<Rightarrow> Expr \<Rightarrow> Expr \<Rightarrow> Expr option" where
  "eval_bv_binary_const op a b =
     (case a of
        BitVecConst va wa \<Rightarrow> (case b of BitVecConst vb wb \<Rightarrow> eval_bv op (int va) wa (int vb) wb | _ \<Rightarrow> None)
      | _ \<Rightarrow> None)"

section \<open>Literals\<close>

fun is_scalar_constant :: "Expr \<Rightarrow> bool" where
  "is_scalar_constant (BoolConst b) \<longleftrightarrow> True"
| "is_scalar_constant (BitVecConst n w) \<longleftrightarrow> True"
| "is_scalar_constant (IntConst i) \<longleftrightarrow> True"
| "is_scalar_constant (RealConst r) \<longleftrightarrow> True"
| "is_scalar_constant _ \<longleftrightarrow> False"

fun is_constant :: "Expr \<Rightarrow> bool" where
  "is_constant (ConstArray s v) \<longleftrightarrow> is_constant v"
| "is_constant (Store a i v) \<longleftrightarrow> is_constant a \<and> is_constant i \<and> is_constant v"
| "is_constant e \<longleftrightarrow> is_scalar_constant e"

fun eval_select_store_const :: "Expr \<Rightarrow> Expr \<Rightarrow> Expr option" where
  "eval_select_store_const (Store inner i v) j =
     (if j = i then Some v
      else if is_constant j \<and> is_constant i then eval_select_store_const inner j
      else None)"
| "eval_select_store_const _ j = None"

section \<open>Evaluation\<close>

fun all_true :: "bool \<Rightarrow> bool option list \<Rightarrow> bool option" where
  "all_true ok [] = (if ok then Some True else None)"
| "all_true ok (v # vs) = (case v of Some False \<Rightarrow> Some False | Some True \<Rightarrow> all_true ok vs | None \<Rightarrow> all_true False vs)"

fun all_false :: "bool \<Rightarrow> bool option list \<Rightarrow> bool option" where
  "all_false ok [] = (if ok then Some False else None)"
| "all_false ok (v # vs) = (case v of Some True \<Rightarrow> Some True | Some False \<Rightarrow> all_false ok vs | None \<Rightarrow> all_false False vs)"

definition comparisons :: "BvOp list" where
  "comparisons = [BvULt, BvULe, BvUGt, BvUGe, BvSLt, BvSLe, BvSGt, BvSGe, BvAddNoOverflowUnsigned, BvSubNoUnderflowUnsigned]"

definition arithmetic :: "BvOp list" where
  "arithmetic = [BvAdd, BvSub, BvMul, BvUDiv, BvSDiv, BvURem, BvSRem, BvAnd, BvOr, BvXor, BvShl, BvLShr, BvAShr, BvConcat]"

text \<open>A constant array against one store into the same constant array: the array's value and the stored one.\<close>

definition const_and_stored :: "Expr \<Rightarrow> Expr \<Rightarrow> (Expr \<times> Expr) option" where
  "const_and_stored c s =
     (case c of
        ConstArray s1 cv \<Rightarrow>
          (case s of
             Store a i v \<Rightarrow> (case a of ConstArray s2 bv \<Rightarrow> if bv \<noteq> cv then None else Some (cv, v) | _ \<Rightarrow> None)
           | _ \<Rightarrow> None)
      | _ \<Rightarrow> None)"

lemma const_and_stored_Some:
  "const_and_stored c s = Some (cv, v) \<longleftrightarrow> (\<exists>s1 s2 i. c = ConstArray s1 cv \<and> s = Store (ConstArray s2 cv) i v)"
  by (auto simp: const_and_stored_def split: Expr.splits)

text \<open>The value of a literal.\<close>

definition bv_of :: "Expr \<Rightarrow> (nat \<times> nat) option" where
  "bv_of e = (case e of BitVecConst n w \<Rightarrow> Some (n, w) | _ \<Rightarrow> None)"

definition bool_of :: "Expr \<Rightarrow> bool option" where
  "bool_of e = (case e of BoolConst b \<Rightarrow> Some b | _ \<Rightarrow> None)"

lemma bv_of_Some [simp]: "bv_of e = Some (n, w) \<longleftrightarrow> e = BitVecConst n w"
  by (cases e) (auto simp: bv_of_def)

lemma bool_of_Some [simp]: "bool_of e = Some b \<longleftrightarrow> e = BoolConst b"
  by (cases e) (auto simp: bool_of_def)

fun or_else :: "'a option \<Rightarrow> 'a option \<Rightarrow> 'a option" where
  "or_else (Some x) y = Some x"
| "or_else None y = y"

definition extract_const :: "nat \<Rightarrow> nat \<Rightarrow> nat \<Rightarrow> Expr" where
  "extract_const n hi lo = bitvec_const (int (n div 2 ^ lo) mod 2 ^ (hi - lo + 1)) (hi - lo + 1)"

function try_eval_to_bool :: "Expr \<Rightarrow> bool option" and try_eval_to_const :: "Expr \<Rightarrow> Expr option" where
  "try_eval_to_bool e =
     (case e of
        BoolConst b \<Rightarrow> Some b
      | And es \<Rightarrow> all_true True (map try_eval_to_bool es)
      | Or es \<Rightarrow> all_false True (map try_eval_to_bool es)
      | NotE a \<Rightarrow> map_option Not (try_eval_to_bool a)
      | Eq a b \<Rightarrow>
          if a = b then Some True
          else (case (try_eval_to_bool a, try_eval_to_bool b) of
             (Some x, Some y) \<Rightarrow> Some (x = y)
           | _ \<Rightarrow>
               (case or_else
                    (case const_and_stored a b of
                       None \<Rightarrow> None
                     | Some (cv, v) \<Rightarrow> if v = cv then Some True
                         else do { ce \<leftarrow> try_eval_to_const cv; se \<leftarrow> try_eval_to_const v; Some (ce = se) })
                    (case const_and_stored b a of
                       None \<Rightarrow> None
                     | Some (cv, v) \<Rightarrow> if v = cv then Some True
                         else do { ce \<leftarrow> try_eval_to_const cv; se \<leftarrow> try_eval_to_const v; Some (ce = se) }) of
                  Some r \<Rightarrow> Some r
                | None \<Rightarrow> do { ca \<leftarrow> try_eval_to_const a; cb \<leftarrow> try_eval_to_const b; Some (ca = cb) }))
      | Bv op a b \<Rightarrow>
          if op \<in> set comparisons
          then do {
            ca \<leftarrow> try_eval_to_const a;
            cb \<leftarrow> try_eval_to_const b;
            r \<leftarrow> eval_bv_binary_const op ca cb;
            bool_of r }
          else None
      | _ \<Rightarrow> None)"
| "try_eval_to_const e =
     (case e of
        BitVecConst n w \<Rightarrow> Some e
      | BoolConst b \<Rightarrow> Some e
      | Bv op a b \<Rightarrow>
          if op \<in> set arithmetic
          then do { ca \<leftarrow> try_eval_to_const a; cb \<leftarrow> try_eval_to_const b; eval_bv_binary_const op ca cb }
          else if op \<in> set comparisons then map_option BoolConst (try_eval_to_bool e)
          else None
      | BvExtract a hi lo \<Rightarrow>
          do { ca \<leftarrow> try_eval_to_const a; (n, w) \<leftarrow> bv_of ca;
               if lo \<le> hi \<and> hi < w then Some (extract_const n hi lo) else None }
      | BvZeroExtend a extra \<Rightarrow>
          do { ca \<leftarrow> try_eval_to_const a; (n, w) \<leftarrow> bv_of ca; Some (bitvec_const (int n) (w + extra)) }
      | BvSignExtend a extra \<Rightarrow>
          do { ca \<leftarrow> try_eval_to_const a; (n, w) \<leftarrow> bv_of ca; Some (bitvec_const (bitvec_to_signed (int n) w) (w + extra)) }
      | BvNot a \<Rightarrow>
          do { ca \<leftarrow> try_eval_to_const a; (n, w) \<leftarrow> bv_of ca; Some (bitvec_const (xor (int n) (2 ^ w - 1)) w) }
      | BvNeg a \<Rightarrow>
          do { ca \<leftarrow> try_eval_to_const a; (n, w) \<leftarrow> bv_of ca; Some (bitvec_const ((bitvec_modulus w - int n) mod bitvec_modulus w) w) }
      | And es \<Rightarrow> map_option BoolConst (try_eval_to_bool e)
      | Or es \<Rightarrow> map_option BoolConst (try_eval_to_bool e)
      | NotE a \<Rightarrow> map_option BoolConst (try_eval_to_bool e)
      | Eq a b \<Rightarrow> map_option BoolConst (try_eval_to_bool e)
      | Ite c a b \<Rightarrow> do { t \<leftarrow> try_eval_to_bool c; if t then try_eval_to_const a else try_eval_to_const b }
      | DatatypeSelector d f a s \<Rightarrow>
          (case a of
             DatatypeConstructor d' k args s' \<Rightarrow>
               if d' \<noteq> d then None
               else do { idx \<leftarrow> field_index f; if idx < length args then try_eval_to_const (args ! idx) else None }
           | _ \<Rightarrow> None)
      | _ \<Rightarrow> None)"
  by pat_completeness auto
termination
proof -
  have "2 * size (es ! k) < Suc (Suc (Suc (Suc (2 * size_list size es))))" if "k < length es" for es :: "Expr list" and k
    using size_member [OF nth_mem [OF that]] by simp
  then show ?thesis
    by (relation "measure (\<lambda>x. case x of Inl e \<Rightarrow> 2 * size e | Inr e \<Rightarrow> 2 * size e + 1)")
      (auto dest!: size_member simp: const_and_stored_Some)
qed

declare try_eval_to_bool.simps [simp del] try_eval_to_const.simps [simp del]

text \<open>The comparison of a constant array with a store, named as in the code.\<close>

definition eval_const_array_store_eq_ordered :: "Expr \<Rightarrow> Expr \<Rightarrow> bool option" where
  "eval_const_array_store_eq_ordered a b =
     (case const_and_stored a b of
        None \<Rightarrow> None
      | Some (cv, v) \<Rightarrow> if v = cv then Some True
          else do { ce \<leftarrow> try_eval_to_const cv; se \<leftarrow> try_eval_to_const v; Some (ce = se) })"

lemma try_eval_Eq:
  "try_eval_to_bool (Eq a b) =
     (if a = b then Some True
      else (case (try_eval_to_bool a, try_eval_to_bool b) of
         (Some x, Some y) \<Rightarrow> Some (x = y)
       | _ \<Rightarrow> (case or_else (eval_const_array_store_eq_ordered a b) (eval_const_array_store_eq_ordered b a) of
            Some r \<Rightarrow> Some r
          | None \<Rightarrow> do { ca \<leftarrow> try_eval_to_const a; cb \<leftarrow> try_eval_to_const b; Some (ca = cb) })))"
  unfolding eval_const_array_store_eq_ordered_def by (subst try_eval_to_bool.simps) simp

lemma try_eval_Eq_cases:
  assumes "try_eval_to_bool (Eq a b) = Some t"
  obtains "a = b" t
  | x y where "try_eval_to_bool a = Some x" "try_eval_to_bool b = Some y" "t = (x = y)"
  | "or_else (eval_const_array_store_eq_ordered a b) (eval_const_array_store_eq_ordered b a) = Some t"
  | ca cb where "try_eval_to_const a = Some ca" "try_eval_to_const b = Some cb" "t = (ca = cb)"
proof (cases "a = b")
  case True
  then show ?thesis
    using assms that(1) by (simp add: try_eval_Eq)
next
  case False
  show ?thesis
  proof (cases "try_eval_to_bool a \<noteq> None \<and> try_eval_to_bool b \<noteq> None")
    case True
    then show ?thesis
      using assms False that(2) by (auto simp: try_eval_Eq)
  next
    case bools: False
    let ?arrays = "or_else (eval_const_array_store_eq_ordered a b) (eval_const_array_store_eq_ordered b a)"
    have rest: "(case ?arrays of Some r \<Rightarrow> Some r
        | None \<Rightarrow> do { ca \<leftarrow> try_eval_to_const a; cb \<leftarrow> try_eval_to_const b; Some (ca = cb) }) = Some t"
      using assms False bools by (cases "try_eval_to_bool a"; cases "try_eval_to_bool b") (simp_all add: try_eval_Eq)
    show ?thesis
    proof (cases ?arrays)
      case None
      then show ?thesis
        using rest that(4) by (simp add: bind_eq_Some_conv) blast
    qed (use rest that(3) in simp)
  qed
qed

section \<open>The arithmetic is the arithmetic of bit vectors\<close>

lemma bitvec_const_nat [simp]: "n < 2 ^ w \<Longrightarrow> bitvec_const (int n) w = BitVecConst n w"
  by (simp add: bitvec_const_def nat_mod_distrib flip: of_nat_power of_nat_mod)

lemma bitvec_const_0 [simp]: "bitvec_const 0 w = BitVecConst 0 w"
  by (simp add: bitvec_const_def)

lemma bitvec_const_of_nat: "bitvec_const (int n) w = BitVecConst (n mod 2 ^ w) w"
  by (simp add: bitvec_const_def nat_mod_distrib nat_power_eq flip: zmod_int)

lemma bitvec_const_minus: "n \<le> 2 ^ w \<Longrightarrow> bitvec_const (- int n) w = BitVecConst (bv_neg w n) w"
proof -
  assume "n \<le> 2 ^ w"
  then have "int (bv_neg w n) = (- int n) mod 2 ^ w"
    by (simp add: bv_neg_def zmod_int of_nat_diff minus_mod_self1)
  then show ?thesis
    unfolding bitvec_const_def by (metis nat_int)
qed

lemma bitvec_to_signed_int: "bitvec_to_signed (int n) w = bv_signed w n"
  by (simp add: bitvec_to_signed_def bv_signed_def bitvec_modulus_def Let_def)

lemma bv_signed_abs:
  assumes "0 < w" "n < 2 ^ w"
  shows "(if bv_signed w n < 0 then - bv_signed w n else bv_signed w n) = int (bv_abs w n)" "bv_signed w n < 0 \<longleftrightarrow> bv_msb w n"
proof -
  have half: "(2::nat) ^ w = 2 * 2 ^ (w - 1)" "(2::int) ^ w = 2 * 2 ^ (w - 1)"
    using assms(1) by (cases w; simp)+
  show "bv_signed w n < 0 \<longleftrightarrow> bv_msb w n"
    using assms(2) by (auto simp: bv_signed_def bv_msb_def)
  then show "(if bv_signed w n < 0 then - bv_signed w n else bv_signed w n) = int (bv_abs w n)"
    using assms(2) half by (auto simp: bv_signed_def bv_msb_def bv_abs_def bv_neg_def)
qed

lemma bv_abs_le: "0 < w \<Longrightarrow> n < 2 ^ w \<Longrightarrow> bv_abs w n \<le> 2 ^ (w - 1)"
proof -
  assume "0 < w" "n < 2 ^ w"
  moreover from this have "(2::nat) ^ w = 2 * 2 ^ (w - 1)"
    by (cases w) simp_all
  ultimately show ?thesis
    by (auto simp: bv_abs_def bv_neg_def bv_msb_def)
qed

lemma bv_abs_zero: "0 < w \<Longrightarrow> n < 2 ^ w \<Longrightarrow> bv_abs w n = 0 \<longleftrightarrow> n = 0"
proof -
  assume "0 < w" "n < 2 ^ w"
  moreover from this have "n \<noteq> 0 \<Longrightarrow> (2 ^ w - n) mod 2 ^ w = 2 ^ w - n"
    by (intro mod_less) simp
  moreover have "n < 2 ^ w \<Longrightarrow> 2 ^ w - n \<noteq> 0"
    by simp
  ultimately show ?thesis
    unfolding bv_abs_def bv_neg_def bv_msb_def by (cases "n = 0") simp_all
qed

lemma signed_trunc_div_abs:
  assumes "0 < w" "x < 2 ^ w" "0 < v" "y < 2 ^ v"
  shows "signed_trunc_div (bv_signed w x) (bv_signed v y) =
    (if bv_msb w x \<noteq> bv_msb v y then - int (bv_abs w x div bv_abs v y) else int (bv_abs w x div bv_abs v y))"
  unfolding signed_trunc_div_def Let_def bv_signed_abs(1) [OF assms(1,2)] bv_signed_abs(1) [OF assms(3,4)]
  unfolding bv_signed_abs(2) [OF assms(1,2)] bv_signed_abs(2) [OF assms(3,4)] by (simp add: zdiv_int)

lemma bv_signed_mod: "bv_signed w x = (if bv_msb w x then int x - 2 ^ w else int x)"
  by (simp add: bv_signed_def bv_msb_def)

lemma bv_signed_of_abs:
  assumes "0 < w" "x < 2 ^ w"
  shows "bv_signed w x = (if bv_msb w x then - int (bv_abs w x) else int (bv_abs w x))"
  using bv_signed_abs [OF assms] by (auto split: if_splits)

lemma signed_trunc_rem_abs:
  assumes "0 < w" "x < 2 ^ w" "0 < v" "y < 2 ^ v" 
  shows "bv_signed w x - signed_trunc_div (bv_signed w x) (bv_signed v y) * bv_signed v y =
    (if bv_msb w x then - int (bv_abs w x mod bv_abs v y) else int (bv_abs w x mod bv_abs v y))"
proof -
  have "int (bv_abs w x) = int (bv_abs w x div bv_abs v y) * int (bv_abs v y) + int (bv_abs w x mod bv_abs v y)"
    by (metis div_mult_mod_eq of_nat_add of_nat_mult)
  then show ?thesis
    unfolding signed_trunc_div_abs [OF assms] unfolding bv_signed_of_abs [OF assms(1,2)] bv_signed_of_abs [OF assms(3,4)]
    by auto
qed

lemma signed_ashr_exact:
  assumes "0 < w" "x < 2 ^ w"
  shows "bitvec_const (signed_ashr (bv_signed w x) k w) w =
    BitVecConst (if bv_msb w x then bv_complement w (bv_complement w x div 2 ^ k) else x div 2 ^ k) w"
proof (cases "bv_msb w x")
  case False
  then have pos: "bv_signed w x = int x"
    by (simp add: bv_signed_mod)
  have "x div 2 ^ k < 2 ^ w"
    using assms(2) div_le_dividend le_less_trans by blast
  moreover have "w \<le> k \<Longrightarrow> x div 2 ^ k = 0"
    using assms(2) by (intro div_less) (erule less_le_trans, simp)
  moreover have "int x div 2 ^ k = int (x div 2 ^ k)"
    by (simp add: zdiv_int)
  ultimately show ?thesis
    using False by (auto simp: signed_ashr_def Let_def pos)
next
  case True
  define c where "c = bv_complement w x"
  have c: "int x = 2 ^ w - 1 - int c" "c < 2 ^ w"
    using assms by (auto simp: c_def bv_complement_def of_nat_diff Suc_le_eq)
  have div: "(int c + 2 ^ k) div 2 ^ k = int (c div 2 ^ k) + 1"
    by (simp add: zdiv_int div_add_self2)
  have zero: "w \<le> k \<Longrightarrow> c div 2 ^ k = 0"
    using c(2) by (intro div_less) (erule less_le_trans, simp)
  have "bv_signed w x = - int c - 1"
    using True c(1) by (simp add: bv_signed_mod)
  then have "signed_ashr (bv_signed w x) k w = - 1 - int (c div 2 ^ k)"
    using div zero by (auto simp: signed_ashr_def Let_def add.commute)
  moreover have "c div 2 ^ k < 2 ^ w"
    using c(2) div_le_dividend le_less_trans by blast
  then have "int (c div 2 ^ k) < 2 ^ w" "int (bv_complement w (c div 2 ^ k)) = 2 ^ w - (1 + int (c div 2 ^ k))"
    using of_nat_less_iff [of "c div 2 ^ k" "2 ^ w", where 'a = int] by (auto simp: bv_complement_def of_nat_diff Suc_le_eq)
  then have "(2 ^ w - (1 + int (c div 2 ^ k))) mod 2 ^ w = int (bv_complement w (c div 2 ^ k))"
    by (subst mod_pos_pos_trivial) auto
  then have "(- 1 - int (c div 2 ^ k)) mod 2 ^ w = int (bv_complement w (c div 2 ^ k))"
    using minus_mod_self1 [of "2 ^ w" "1 + int (c div 2 ^ k)"] by simp
  ultimately show ?thesis
    using True by (simp add: bitvec_const_def flip: c_def)
qed

lemma or_int_nat: "or (int x) (int y) = int (or x y)" "and (int x) (int y) = int (and x y)" "xor (int x) (int y) = int (xor x y)"
  by (simp_all add: of_nat_or_eq of_nat_and_eq of_nat_xor_eq)

lemma bounded_bits:
  assumes "x < 2 ^ w" "y < 2 ^ w"
  shows "or x y < (2 :: nat) ^ w" "and x y < (2 :: nat) ^ w" "xor x y < (2 :: nat) ^ w"
proof -
  have "take_bit w x = x" "take_bit w y = y"
    using assms by (simp_all add: take_bit_nat_eq_self)
  then show "or x y < 2 ^ w" "and x y < 2 ^ w" "xor x y < 2 ^ w"
    by (metis take_bit_or take_bit_and take_bit_xor take_bit_nat_less_exp)+
qed

lemma disjoint_or:
  assumes "y < 2 ^ v"
  shows "or (x * 2 ^ v) y = x * 2 ^ v + (y :: nat)"
proof -
  have y: "take_bit v y = y"
    using assms by (simp add: take_bit_nat_eq_self)
  have "and (push_bit v x) (take_bit v y) = 0"
    by (rule bit_eqI) (auto simp: bit_simps)
  then show ?thesis
    by (simp add: y disjunctive_add_eq_or push_bit_eq_mult)
qed

lemma bitvec_const_sign:
  "n \<le> 2 ^ w \<Longrightarrow> (\<not> b \<Longrightarrow> n < 2 ^ w) \<Longrightarrow> bitvec_const (if b then - int n else int n) w = BitVecConst (if b then bv_neg w n else n) w"
  by (simp add: bitvec_const_minus)

lemma bitvec_const_diff:
  assumes "y < 2 ^ w"
  shows "bitvec_const (int x - int y) w = BitVecConst ((x + bv_neg w y) mod 2 ^ w) w"
proof -
  have "int ((x + bv_neg w y) mod 2 ^ w) = int ((x + (2 ^ w - y)) mod 2 ^ w)"
    by (simp add: bv_neg_def mod_add_right_eq)
  also have "\<dots> = (int x + (2 ^ w - int y)) mod 2 ^ w"
    using assms by (simp only: zmod_int of_nat_add of_nat_diff less_imp_le of_nat_power of_nat_numeral)
  also have "\<dots> = (int x - int y) mod 2 ^ w"
    by (metis add.commute add_diff_eq mod_add_self1)
  finally show ?thesis
    unfolding bitvec_const_def by (metis nat_int)
qed

lemma shift_out: "(x :: nat) < 2 ^ w \<Longrightarrow> w \<le> y \<Longrightarrow> x div 2 ^ y = 0"
  by (intro div_less) (erule less_le_trans, simp)

lemma shift_left_out: "w \<le> y \<Longrightarrow> (x * 2 ^ y) mod 2 ^ w = (0 :: nat)"
  by (simp add: mod_mult_right_eq flip: dvd_eq_mod_eq_0) (simp add: le_imp_power_dvd)

lemma eval_bv_exact:
  assumes "eval_bv op (int x) w (int y) v = Some e" "0 < w" "w < 2 ^ 32" "x < 2 ^ w" "0 < v" "y < 2 ^ v" "op = BvConcat \<or> w = v"
  shows "e = bv_const op x w y v"
proof -
  have abs: "bv_abs w x < 2 ^ w"
    using bv_abs_le [OF assms(2,4)] assms(2) by (elim le_less_trans) simp
  have shift: "shift_amount y w = y \<or> w \<le> shift_amount y w \<and> w \<le> y"
    using assms(3) by (simp add: shift_amount_def)
  have wide: "2 ^ 32 < (2 :: nat) ^ 64"
    by simp
  show ?thesis
  proof (cases op)
    case BvAdd
    then show ?thesis
      using assms bitvec_const_of_nat [of "x + y" w] by simp
  next
    case BvMul
    then show ?thesis
      using assms bitvec_const_of_nat [of "x * y" w] by simp
  next
    case BvUDiv
    then show ?thesis
      using assms le_less_trans [OF div_le_dividend assms(4), of y] by (auto simp: bv_udiv_def simp flip: zdiv_int split: if_splits)
  next
    case BvURem
    then show ?thesis
      using assms le_less_trans [OF mod_less_eq_dividend assms(4), of y] by (auto simp: bv_urem_def simp flip: zmod_int split: if_splits)
  next
    case BvSDiv
    then have "e = bitvec_const (if bv_msb w x \<noteq> bv_msb v y then - int (bv_abs w x div bv_abs v y) else int (bv_abs w x div bv_abs v y)) w" "y \<noteq> 0"
      using assms(1) signed_trunc_div_abs [OF assms(2,4,5,6)] by (auto simp: bitvec_to_signed_int split: if_splits)
    moreover have "bv_abs w x div bv_abs v y < 2 ^ w"
      using abs div_le_dividend le_less_trans by blast
    ultimately show ?thesis
      using BvSDiv bv_abs_zero [OF assms(5,6)] by (simp add: bitvec_const_sign bv_udiv_def Let_def)
  next
    case BvSRem
    then have "e = bitvec_const (if bv_msb w x then - int (bv_abs w x mod bv_abs v y) else int (bv_abs w x mod bv_abs v y)) w" "y \<noteq> 0"
      using assms(1) signed_trunc_rem_abs [OF assms(2,4,5,6)] by (auto simp: bitvec_to_signed_int Let_def split: if_splits)
    moreover have "bv_abs w x mod bv_abs v y < 2 ^ w"
      using abs mod_less_eq_dividend le_less_trans by blast
    ultimately show ?thesis
      using BvSRem bv_abs_zero [OF assms(5,6)] by (simp add: bitvec_const_sign bv_urem_def Let_def)
  next
    case BvSub
    then show ?thesis
      using assms bitvec_const_diff [of y w x] by simp
  next
    case BvShl
    then show ?thesis
      using assms shift shift_left_out bitvec_const_of_nat [of "x * 2 ^ y" w] by (auto simp: Let_def)
  next
    case BvLShr
    then show ?thesis
      using assms shift shift_out [OF assms(4)] le_less_trans [OF div_le_dividend assms(4), of "2 ^ y"]
        bitvec_const_of_nat [of "x div 2 ^ y" w] by (auto simp: Let_def zdiv_int)
  next
    case BvAShr
    then show ?thesis
      using assms signed_ashr_exact [OF assms(2,4), of "shift_amount y w"] shift shift_out [OF assms(4)] shift_out [of "bv_complement w x" w]
      by (auto simp: bitvec_to_signed_int bv_complement_def)
  next
    case BvConcat
    have "x * 2 ^ v + y < (x + 1) * 2 ^ v"
      using assms(6) by simp
    also have "\<dots> \<le> 2 ^ w * 2 ^ v"
      using assms(4) by (intro mult_right_mono) simp_all
    finally show ?thesis
      using BvConcat assms(1) disjoint_or [OF assms(6), of x] or_int_nat(1) [of "x * 2 ^ v" y]
        bitvec_const_of_nat [of "x * 2 ^ v + y" "w + v"] by (simp add: power_add)
  next
    case BvAddNoOverflowUnsigned
    then show ?thesis
      using assms of_nat_less_iff [of "x + y" "2 ^ w", where 'a = int] by simp
  next
    case BvAnd
    then show ?thesis
      using assms bounded_bits(2) [of x w y] by (simp add: or_int_nat)
  next
    case BvOr
    then show ?thesis
      using assms bounded_bits(1) [of x w y] by (simp add: or_int_nat)
  next
    case BvXor
    then show ?thesis
      using assms bounded_bits(3) [of x w y] by (simp add: or_int_nat)
  qed (use assms in \<open>auto simp: bitvec_to_signed_int\<close>)
qed

text \<open>Unary operations.\<close>

lemma not_exact: "n < 2 ^ w \<Longrightarrow> bitvec_const (xor (int n) (2 ^ w - 1)) w = BitVecConst (bv_complement w n) w"
proof -
  assume n: "n < 2 ^ w"
  have "xor (int n) (mask w) = mask w - int n"
  proof -
    have "take_bit w (int n) = int n"
      using n by (simp add: take_bit_int_eq_self)
    then have n: "int n = and (int n) (mask w)"
      by (simp add: take_bit_eq_mask)
    have "and (not (mask w)) (and (int n) (mask w)) = 0"
      by (rule bit_eqI) (simp add: bit_simps)
    then have "and (not (mask w)) (int n) = 0"
      by (simp flip: n)
    from disjunctive_and_not_eq_xor [OF this] disjunctive_diff_eq_and_not [OF this] show ?thesis
      by (simp add: xor.commute)
  qed
  then have "xor (int n) (2 ^ w - 1) = int (bv_complement w n)"
    using n by (simp add: bv_complement_def mask_eq_exp_minus_1 of_nat_diff Suc_le_eq)
  then show ?thesis
    by (simp add: bv_complement_def)
qed

lemma neg_exact: "n < 2 ^ w \<Longrightarrow> bitvec_const ((bitvec_modulus w - int n) mod bitvec_modulus w) w = BitVecConst (bv_neg w n) w"
  using bitvec_const_minus [of n w] by (simp add: bitvec_const_def bitvec_modulus_def)

lemma extract_exact: "extract_const n hi lo = BitVecConst ((n div 2 ^ lo) mod 2 ^ (hi - lo + 1)) (hi - lo + 1)"
proof -
  have "int (n div 2 ^ lo) mod 2 ^ (hi - lo + 1) = int (n div 2 ^ lo mod 2 ^ (hi - lo + 1))"
    by (simp only: zmod_int of_nat_power of_nat_numeral)
  then show ?thesis
    unfolding extract_const_def by (simp only: bitvec_const_of_nat mod_mod_trivial)
qed

lemma zero_extend_exact: "n < 2 ^ w \<Longrightarrow> bitvec_const (int n) (w + k) = BitVecConst n (w + k)"
  by (intro bitvec_const_nat) (simp add: power_add less_le_trans)

lemma sign_extend_exact:
  assumes "n < 2 ^ w"
  shows "bitvec_const (bitvec_to_signed (int n) w) (w + k) = BitVecConst (if bv_msb w n then n + 2 ^ (w + k) - 2 ^ w else n) (w + k)"
proof (cases "bv_msb w n")
  case True
  have le: "(2 :: nat) ^ w \<le> 2 ^ (w + k)"
    by simp
  have "bv_signed w n = - int (2 ^ w - n)"
    using True assms by (simp add: bv_signed_mod of_nat_diff)
  moreover have "bitvec_const (- int (2 ^ w - n)) (w + k) = BitVecConst (bv_neg (w + k) (2 ^ w - n)) (w + k)"
    using le by (intro bitvec_const_minus) linarith
  moreover have "bv_neg (w + k) (2 ^ w - n) = n + 2 ^ (w + k) - 2 ^ w"
    using le assms unfolding bv_neg_def by (subst mod_less) linarith+
  ultimately show ?thesis
    using True by (simp add: bitvec_to_signed_int)
next
  case False
  then show ?thesis
    using zero_extend_exact [OF assms, of k] by (simp add: bitvec_to_signed_int bv_signed_mod)
qed

end
