(* ===== verification/Chc_Eval_Words.thy ===== *)
theory Chc_Eval_Words
  imports Chc_Eval "HOL-Library.Signed_Division"
begin

text \<open>
  The constant arithmetic of trust-mc-core/src/chc_const_prop_eval.rs on operands of machine size: what it computes
  with unbounded integers is the arithmetic of machine words.
\<close>

definition word_lit :: "'a::len word \<Rightarrow> Expr" where
  "word_lit a = BitVecConst (unat a) LENGTH('a)"

text \<open>The reference: the operations of the word library.  Division by zero is left alone, and so are the signed
  overflow predicates.\<close>

fun word_result :: "BvOp \<Rightarrow> 'a::len word \<Rightarrow> 'a word \<Rightarrow> Expr option" where
  "word_result BvAdd a b = Some (word_lit (a + b))"
| "word_result BvSub a b = Some (word_lit (a - b))"
| "word_result BvMul a b = Some (word_lit (a * b))"
| "word_result BvUDiv a b = (if b = 0 then None else Some (word_lit (a div b)))"
| "word_result BvURem a b = (if b = 0 then None else Some (word_lit (a mod b)))"
| "word_result BvSDiv a b = (if b = 0 then None else Some (word_lit (word_of_int (sint a sdiv sint b) :: 'a word)))"
| "word_result BvSRem a b = (if b = 0 then None else Some (word_lit (word_of_int (sint a smod sint b) :: 'a word)))"
| "word_result BvAnd a b = Some (word_lit (and a b))"
| "word_result BvOr a b = Some (word_lit (or a b))"
| "word_result BvXor a b = Some (word_lit (xor a b))"
| "word_result BvShl a b = Some (word_lit (push_bit (unat b) a))"
| "word_result BvLShr a b = Some (word_lit (drop_bit (unat b) a))"
| "word_result BvAShr a b = Some (word_lit (signed_drop_bit (unat b) a))"
| "word_result BvULt a b = Some (BoolConst (a < b))"
| "word_result BvULe a b = Some (BoolConst (a \<le> b))"
| "word_result BvUGt a b = Some (BoolConst (b < a))"
| "word_result BvUGe a b = Some (BoolConst (b \<le> a))"
| "word_result BvSLt a b = Some (BoolConst (a <s b))"
| "word_result BvSLe a b = Some (BoolConst (a \<le>s b))"
| "word_result BvSGt a b = Some (BoolConst (b <s a))"
| "word_result BvSGe a b = Some (BoolConst (b \<le>s a))"
| "word_result BvAddNoOverflowUnsigned a b = Some (BoolConst (unat (a + b) = unat a + unat b))"
| "word_result BvSubNoUnderflowUnsigned a b = Some (BoolConst (unat b + unat (a - b) = unat a))"
| "word_result _ a b = None"

lemma bitvec_const_word: "bitvec_const i LENGTH('a) = word_lit (word_of_int i :: 'a::len word)"
  by (simp add: bitvec_const_def word_lit_def unat_eq_nat_uint uint_word_of_int)

lemma high_bit:
  assumes "0 \<le> (k :: int)" "k < 2 * 2 ^ n"
  shows "bit k n \<longleftrightarrow> 2 ^ n \<le> k"
proof (cases "2 ^ n \<le> k")
  case True
  then have "k div 2 ^ n = 1"
    using assms by (intro int_div_pos_eq [where r = "k - 2 ^ n"]) simp_all
  with True show ?thesis
    by (simp add: bit_iff_odd)
next
  case False
  then have "k div 2 ^ n = 0"
    using assms by (intro div_pos_pos_trivial) simp_all
  with False show ?thesis
    by (simp add: bit_iff_odd)
qed

lemma bitvec_to_signed_word: "bitvec_to_signed (uint (a :: 'a::len word)) LENGTH('a) = sint a"
proof -
  have "uint a < 2 * 2 ^ (LENGTH('a) - 1)"
    using uint_lt2p [of a] by (cases "LENGTH('a)") simp_all
  then have "bit (uint a) (LENGTH('a) - Suc 0) \<longleftrightarrow> 2 ^ (LENGTH('a) - Suc 0) \<le> uint a"
    by (intro high_bit) simp_all
  moreover have "take_bit LENGTH('a) (uint a) = uint a"
    by (simp add: take_bit_int_eq_self)
  ultimately show ?thesis
    by (simp add: bitvec_to_signed_def bitvec_modulus_def Let_def sint_uint signed_take_bit_eq_take_bit_minus)
qed

lemma signed_trunc_div_sdiv: "signed_trunc_div a b = a sdiv b"
  by (auto simp: signed_trunc_div_def signed_divide_int_def sgn_if Let_def abs_if mult_less_0_iff zero_less_mult_iff not_less)

lemma shift_amount_word:
  assumes "LENGTH('a) < 2 ^ 32"
  shows "shift_amount (unat (b :: 'a::len word)) LENGTH('a) = unat b \<or>
    LENGTH('a) \<le> shift_amount (unat b) LENGTH('a) \<and> LENGTH('a) \<le> unat b"
  using assms by (simp add: shift_amount_def)

lemma ashr_floor: "- ((- v + 2 ^ k - 1) div 2 ^ k) = v div (2 ^ k :: int)"
proof -
  have pos: "(0 :: int) < 2 ^ k"
    by simp
  have "(- v + 2 ^ k - 1) div 2 ^ k = - (v div 2 ^ k)"
  proof (rule int_div_pos_eq [where r = "2 ^ k - 1 - v mod 2 ^ k"])
    show "- v + 2 ^ k - 1 = 2 ^ k * (- (v div 2 ^ k)) + (2 ^ k - 1 - v mod 2 ^ k)"
      using mult_div_mod_eq [of "2 ^ k" v] by (simp add: algebra_simps)
  qed (use pos_mod_sign [OF pos, of v] pos_mod_bound [OF pos, of v] in linarith)+
  then show ?thesis
    by simp
qed

lemma signed_ashr_div: "k < w \<Longrightarrow> signed_ashr v k w = v div 2 ^ k"
  unfolding signed_ashr_def Let_def ashr_floor by simp

lemma ashr_word:
  fixes a b :: "'a::len word"
  assumes "LENGTH('a) < 2 ^ 32"
  shows "word_of_int (signed_ashr (sint a) (shift_amount (unat b) LENGTH('a)) LENGTH('a)) = signed_drop_bit (unat b) a"
proof (cases "LENGTH('a) \<le> shift_amount (unat b) LENGTH('a)")
  case True
  then have "LENGTH('a) \<le> unat b"
    using shift_amount_word [OF assms, of b] by auto
  moreover have "sint a < 0 \<longleftrightarrow> bit a (LENGTH('a) - Suc 0)"
    by (simp add: bit_last_iff)
  ultimately show ?thesis
    using True by (simp add: signed_ashr_def signed_drop_bit_beyond)
next
  case False
  then have "shift_amount (unat b) LENGTH('a) = unat b"
    using shift_amount_word [OF assms, of b] by auto
  moreover have "sint a div 2 ^ unat b = sint (signed_drop_bit (unat b) a)"
    by (simp add: sint_signed_drop_bit_eq drop_bit_eq_div)
  ultimately show ?thesis
    using False by (simp add: signed_ashr_div)
qed

lemma shift_words:
  fixes a b :: "'a::len word"
  assumes "LENGTH('a) < 2 ^ 32"
  shows "word_of_int (if LENGTH('a) \<le> shift_amount (unat b) LENGTH('a) then 0 else uint a * 2 ^ shift_amount (unat b) LENGTH('a)) =
      push_bit (unat b) a"
    "word_of_int (if LENGTH('a) \<le> shift_amount (unat b) LENGTH('a) then 0 else uint a div 2 ^ shift_amount (unat b) LENGTH('a)) =
      drop_bit (unat b) a"
proof -
  have "uint (drop_bit (unat b) a) = uint a div 2 ^ unat b"
    by (simp add: unsigned_drop_bit_eq take_bit_int_eq_self flip: drop_bit_eq_div)
  then have drop: "word_of_int (uint a div 2 ^ unat b) = drop_bit (unat b) a"
    by (metis word_of_int_uint)
  consider (inside) "shift_amount (unat b) LENGTH('a) = unat b" "unat b < LENGTH('a)"
    | (outside) "LENGTH('a) \<le> shift_amount (unat b) LENGTH('a)" "LENGTH('a) \<le> unat b"
    using shift_amount_word [OF assms, of b] by linarith
  then have "word_of_int (if LENGTH('a) \<le> shift_amount (unat b) LENGTH('a) then 0 else uint a * 2 ^ shift_amount (unat b) LENGTH('a)) =
      push_bit (unat b) a \<and>
    word_of_int (if LENGTH('a) \<le> shift_amount (unat b) LENGTH('a) then 0 else uint a div 2 ^ shift_amount (unat b) LENGTH('a)) =
      drop_bit (unat b) a"
  proof cases
    case inside
    then show ?thesis
      by (simp add: push_bit_eq_mult drop)
  next
    case outside
    then show ?thesis
      by (simp add: push_bit_word_beyond drop_bit_word_beyond)
  qed
  then show "word_of_int (if LENGTH('a) \<le> shift_amount (unat b) LENGTH('a) then 0 else uint a * 2 ^ shift_amount (unat b) LENGTH('a)) =
      push_bit (unat b) a"
    "word_of_int (if LENGTH('a) \<le> shift_amount (unat b) LENGTH('a) then 0 else uint a div 2 ^ shift_amount (unat b) LENGTH('a)) =
      drop_bit (unat b) a"
    by (rule conjunct1, rule conjunct2)
qed

lemma overflow_words:
  fixes a b :: "'a::len word"
  shows "uint a + uint b < 2 ^ LENGTH('a) \<longleftrightarrow> unat (a + b) = unat a + unat b"
    "uint b \<le> uint a \<longleftrightarrow> unat b + unat (a - b) = unat a"
proof -
  have "uint (a + b) = uint a + uint b \<longleftrightarrow> unat (a + b) = unat a + unat b"
    unfolding uint_nat by (simp only: of_nat_add [symmetric] of_nat_eq_iff)
  with uint_add_lem [of a b] show "uint a + uint b < 2 ^ LENGTH('a) \<longleftrightarrow> unat (a + b) = unat a + unat b"
    by (rule trans)
  have "uint b \<le> uint a \<longleftrightarrow> uint b + uint (a - b) = uint a"
    unfolding uint_sub_lem by linarith
  then show "uint b \<le> uint a \<longleftrightarrow> unat b + unat (a - b) = unat a"
    unfolding uint_nat of_nat_add [symmetric] of_nat_eq_iff .
qed

text \<open>C24: Constant folding of a bit vector operation on operands of machine size computes what the machine word
  operation computes, for every width below 2^32: arithmetic wraps around, signed division and remainder truncate
  towards zero, shifts beyond the width give zero or the sign, and division by zero is not folded.\<close>

theorem eval_bv_words:
  fixes a b :: "'a::len word"
  assumes "LENGTH('a) < 2 ^ 32" "op \<noteq> BvConcat"
  shows "eval_bv_binary_const op (word_lit a) (word_lit b) = word_result op a b"
proof -
  let ?w = "LENGTH('a)"
  have bits: "word_of_int (and (uint a) (uint b)) = and a b" "word_of_int (or (uint a) (uint b)) = or a b"
      "word_of_int (xor (uint a) (uint b)) = xor a b"
    by (simp_all flip: unsigned_and_eq unsigned_or_eq unsigned_xor_eq)
  have "eval_bv op (uint a) ?w (uint b) ?w = word_result op a b"
    using assms(2)
    by (cases op) (simp_all add: bitvec_const_word bitvec_to_signed_word signed_trunc_div_sdiv minus_sdiv_mult_eq_smod Let_def
      ashr_word [OF assms(1)] shift_words [OF assms(1)] overflow_words bits uint_0_iff word_div_def word_mod_def
      word_less_def word_le_def word_sless_alt word_sle_eq)
  then show ?thesis
    by (simp add: eval_bv_binary_const_def word_lit_def)
qed

theorem eval_bv_words_witness:
  "eval_bv_binary_const BvSDiv (BitVecConst 249 8) (BitVecConst 2 8) = Some (BitVecConst 253 8) \<and>
   eval_bv_binary_const BvAShr (BitVecConst 249 8) (BitVecConst 9 8) = Some (BitVecConst 255 8)"
proof -
  have "word_lit (249 :: 8 word) = BitVecConst 249 8" "word_lit (2 :: 8 word) = BitVecConst 2 8" "word_lit (9 :: 8 word) = BitVecConst 9 8"
    by (simp_all add: word_lit_def)
  moreover have "eval_bv_binary_const BvSDiv (word_lit (249 :: 8 word)) (word_lit (2 :: 8 word)) = Some (BitVecConst 253 8)"
    by (subst eval_bv_words) (simp_all add: word_lit_def)
  moreover have "unat (- 1 :: 8 word) = 255"
    by code_simp
  then have "eval_bv_binary_const BvAShr (word_lit (249 :: 8 word)) (word_lit (9 :: 8 word)) = Some (BitVecConst 255 8)"
    by (subst eval_bv_words) (simp_all add: word_lit_def)
  ultimately show ?thesis
    by simp
qed

end
