(* ===== verification/Chc_Eval_Sound.thy ===== *)
theory Chc_Eval_Sound
  imports Chc_Eval
begin

text \<open>
  Soundness of the evaluators of trust-mc-core/src/chc_const_prop_eval.rs: the laws of the term language as a locale
  (documented by SMT-LIB: Boolean connectives, bit vectors, arrays, data, congruence; and the naming convention of the
  encoder for fields of data, val_field: the selector fld_N reads the N-th argument), what it means that a term is well
  sorted, and the agreement of every evaluated term with its value.
\<close>

section \<open>Literals and sorts\<close>

definition bv_lit :: "nat \<Rightarrow> nat \<Rightarrow> bool" where
  "bv_lit n w \<longleftrightarrow> 0 < w \<and> w < 2 ^ 32 \<and> n < 2 ^ w"

definition scalar_literal :: "Expr \<Rightarrow> bool" where
  "scalar_literal e \<longleftrightarrow> is_scalar_constant e \<and> (\<forall>n w. e = BitVecConst n w \<longrightarrow> bv_lit n w)"

definition eval_literal :: "Expr \<Rightarrow> bool" where
  "eval_literal e \<longleftrightarrow> (\<exists>b. e = BoolConst b) \<or> (\<exists>n w. e = BitVecConst n w \<and> bv_lit n w)"

lemma eval_literal_scalar: "eval_literal e \<Longrightarrow> scalar_literal e"
  by (auto simp: eval_literal_def scalar_literal_def)

text \<open>
  A node is well sorted: literals are in range, the operands of a bit vector operation have one width, widths fit 32
  bits, the members of a connective are Boolean, indices are scalars, stores go to arrays and the
  sides of an equation have one sort.
\<close>

record 'v sorts =
  is_scalar :: "'v \<Rightarrow> bool"
  is_array :: "'v \<Rightarrow> bool"
  same_sort :: "'v \<Rightarrow> 'v \<Rightarrow> bool"

definition node_sorted :: "'v smt \<Rightarrow> 'v sorts \<Rightarrow> (string \<Rightarrow> 'v) \<Rightarrow> Expr \<Rightarrow> bool" where
  "node_sorted M S \<rho> e \<longleftrightarrow>
     (case e of
        BitVecConst n w \<Rightarrow> bv_lit n w
      | Bv op a b \<Rightarrow>
          (\<forall>x w y v. bv_lit x w \<longrightarrow> bv_lit y v \<longrightarrow> val M \<rho> a = val M \<rho> (BitVecConst x w) \<longrightarrow> val M \<rho> b = val M \<rho> (BitVecConst y v) \<longrightarrow>
             (if op = BvConcat then w + v < 2 ^ 32 else w = v))
      | BvZeroExtend a n \<Rightarrow> (\<forall>x w. bv_lit x w \<longrightarrow> val M \<rho> a = val M \<rho> (BitVecConst x w) \<longrightarrow> w + n < 2 ^ 32)
      | BvSignExtend a n \<Rightarrow> (\<forall>x w. bv_lit x w \<longrightarrow> val M \<rho> a = val M \<rho> (BitVecConst x w) \<longrightarrow> w + n < 2 ^ 32)
      | And es \<Rightarrow> (\<forall>a \<in> set es. val M \<rho> a = val M \<rho> (BoolConst (holds M \<rho> a)))
      | Or es \<Rightarrow> (\<forall>a \<in> set es. val M \<rho> a = val M \<rho> (BoolConst (holds M \<rho> a)))
      | Select a i \<Rightarrow> is_scalar S (val M \<rho> i)
      | Store a i v \<Rightarrow> is_scalar S (val M \<rho> i) \<and> is_array S (val M \<rho> a)
      | Eq a b \<Rightarrow> same_sort S (val M \<rho> a) (val M \<rho> b)
      | _ \<Rightarrow> True)"

text \<open>A term is well sorted at an assignment when its nodes are; below a binder the bound variables vary.\<close>

function well_sorted_at :: "'v smt \<Rightarrow> 'v sorts \<Rightarrow> (string \<Rightarrow> 'v) \<Rightarrow> Expr \<Rightarrow> bool" where
  "well_sorted_at M S \<rho> e \<longleftrightarrow> node_sorted M S \<rho> e \<and>
     (case e of
        Forall xs b ts \<Rightarrow> (\<forall>\<sigma>. fits M \<sigma> \<longrightarrow> (\<forall>x. x \<notin> fst ` set xs \<longrightarrow> \<sigma> x = \<rho> x) \<longrightarrow> well_sorted_at M S \<sigma> b)
      | Exists xs b ts \<Rightarrow> (\<forall>\<sigma>. fits M \<sigma> \<longrightarrow> (\<forall>x. x \<notin> fst ` set xs \<longrightarrow> \<sigma> x = \<rho> x) \<longrightarrow> well_sorted_at M S \<sigma> b)
      | _ \<Rightarrow> (\<forall>a \<in> set (children e). well_sorted_at M S \<rho> a))"
  by pat_completeness auto
termination
  by (relation "measure (\<lambda>(_, _, _, e). size e)") (auto intro: size_member)

declare well_sorted_at.simps [simp del]

lemma well_sorted_node: "well_sorted_at M S \<rho> e \<Longrightarrow> node_sorted M S \<rho> e"
  by (subst (asm) well_sorted_at.simps) simp

lemma well_sorted_children: "\<not> is_binder e \<Longrightarrow> well_sorted_at M S \<rho> e \<longleftrightarrow>
    node_sorted M S \<rho> e \<and> (\<forall>a \<in> set (children e). well_sorted_at M S \<rho> a)"
  by (subst well_sorted_at.simps) (cases e; simp add: is_binder_def)

lemma well_sorted_simps [simp]:
  "well_sorted_at M S \<rho> (Var x s)"
  "well_sorted_at M S \<rho> (BoolConst t)"
  "well_sorted_at M S \<rho> (IntConst i)"
  "well_sorted_at M S \<rho> (RealConst r)"
  "well_sorted_at M S \<rho> (BitVecConst n w) \<longleftrightarrow> bv_lit n w"
  by (simp_all add: well_sorted_children is_binder_def node_sorted_def)

section \<open>The laws\<close>

locale smt_terms = smt_model M for M :: "'v smt" +
  fixes S :: "'v sorts"
  assumes val_NotE: "val M \<rho> (NotE a) = val M \<rho> (BoolConst (\<not> holds M \<rho> a))"
    and val_And: "val M \<rho> (And es) = val M \<rho> (BoolConst (\<forall>e \<in> set es. holds M \<rho> e))"
    and val_Or: "val M \<rho> (Or es) = val M \<rho> (BoolConst (\<exists>e \<in> set es. holds M \<rho> e))"
    and val_Eq: "val M \<rho> (Eq a b) = val M \<rho> (BoolConst (val M \<rho> a = val M \<rho> b))"
    and val_Ite: "val M \<rho> (Ite c a b) = (if holds M \<rho> c then val M \<rho> a else val M \<rho> b)"
    and literal_inj: "scalar_literal a \<Longrightarrow> scalar_literal b \<Longrightarrow> val M \<rho> a = val M \<rho> b \<Longrightarrow> a = b"
    and val_Bv: "bv_lit x w \<Longrightarrow> bv_lit y v \<Longrightarrow> op = BvConcat \<or> w = v \<Longrightarrow> val M \<rho> a = val M \<rho> (BitVecConst x w) \<Longrightarrow>
      val M \<rho> b = val M \<rho> (BitVecConst y v) \<Longrightarrow> val M \<rho> (Bv op a b) = val M \<rho> (bv_const op x w y v)"
    and val_BvNot: "bv_lit x w \<Longrightarrow> val M \<rho> a = val M \<rho> (BitVecConst x w) \<Longrightarrow> val M \<rho> (BvNot a) = val M \<rho> (BitVecConst (bv_complement w x) w)"
    and val_BvNeg: "bv_lit x w \<Longrightarrow> val M \<rho> a = val M \<rho> (BitVecConst x w) \<Longrightarrow> val M \<rho> (BvNeg a) = val M \<rho> (BitVecConst (bv_neg w x) w)"
    and val_BvExtract: "bv_lit x w \<Longrightarrow> val M \<rho> a = val M \<rho> (BitVecConst x w) \<Longrightarrow> lo \<le> hi \<Longrightarrow> hi < w \<Longrightarrow>
      val M \<rho> (BvExtract a hi lo) = val M \<rho> (BitVecConst ((x div 2 ^ lo) mod 2 ^ (hi - lo + 1)) (hi - lo + 1))"
    and val_BvZeroExtend: "bv_lit x w \<Longrightarrow> val M \<rho> a = val M \<rho> (BitVecConst x w) \<Longrightarrow> val M \<rho> (BvZeroExtend a n) = val M \<rho> (BitVecConst x (w + n))"
    and val_BvSignExtend: "bv_lit x w \<Longrightarrow> val M \<rho> a = val M \<rho> (BitVecConst x w) \<Longrightarrow>
      val M \<rho> (BvSignExtend a n) = val M \<rho> (BitVecConst (if bv_msb w x then x + 2 ^ (w + n) - 2 ^ w else x) (w + n))"
    and select_same: "val M \<rho> i = val M \<rho> j \<Longrightarrow> val M \<rho> (Select (Store a i e) j) = val M \<rho> e"
    and select_other: "is_scalar S (val M \<rho> i) \<Longrightarrow> is_scalar S (val M \<rho> j) \<Longrightarrow> val M \<rho> i \<noteq> val M \<rho> j \<Longrightarrow>
      val M \<rho> (Select (Store a i e) j) = val M \<rho> (Select a j)"
    and select_const: "val M \<rho> (Select (ConstArray s e) j) = val M \<rho> e"
    and store_current: "is_array S (val M \<rho> a) \<Longrightarrow> val M \<rho> e = val M \<rho> (Select a i) \<Longrightarrow> val M \<rho> (Store a i e) = val M \<rho> a"
    and store_twice: "val M \<rho> i = val M \<rho> j \<Longrightarrow> val M \<rho> (Store (Store a i d) j e) = val M \<rho> (Store a j e)"
    and arr_values: "is_array S (val M \<rho> (ConstArray s e))" "is_array S (val M \<rho> (Store a i e))" "is_array S u \<Longrightarrow> \<not> is_scalar S u"
    and const_sort: "same_sort S (val M \<rho> (ConstArray s e)) (val M \<rho> (ConstArray t e)) \<Longrightarrow> val M \<rho> (ConstArray s e) = val M \<rho> (ConstArray t e)"
    and same_sort_store: "is_array S (val M \<rho> a) \<Longrightarrow> same_sort S u (val M \<rho> (Store a i e)) \<Longrightarrow> same_sort S u (val M \<rho> a)"
    and same_sort_refl: "same_sort S u u"
    and same_sort_sym: "same_sort S u u' \<Longrightarrow> same_sort S u' u"
    and val_field: "field_index f = Some k \<Longrightarrow> k < length args \<Longrightarrow>
      val M \<rho> (DatatypeSelector dn f (DatatypeConstructor dn cn args s) s') = val M \<rho> (args ! k)"
    and val_node: "\<not> is_binder e \<Longrightarrow> list_all2 (\<lambda>a b. val M \<rho> b = val M \<rho> a) (children e) es \<Longrightarrow> val M \<rho> (with_children e es) = val M \<rho> e"
    and val_binder: "(\<And>\<sigma>. fits M \<sigma> \<Longrightarrow> (\<And>x. x \<notin> fst ` set xs \<Longrightarrow> \<sigma> x = \<rho> x) \<Longrightarrow> val M \<sigma> b' = val M \<sigma> b) \<Longrightarrow>
      val M \<rho> (Forall xs b' ts') = val M \<rho> (Forall xs b ts) \<and> val M \<rho> (Exists xs b' ts') = val M \<rho> (Exists xs b ts)"
begin

abbreviation sorted_at :: "(string \<Rightarrow> 'v) \<Rightarrow> Expr \<Rightarrow> bool" where
  "sorted_at \<equiv> well_sorted_at M S"

lemma val_bool: "val M \<rho> e = val M \<rho> (BoolConst t) \<Longrightarrow> holds M \<rho> e = t"
  using holds_BoolConst [of \<rho> t] by (simp add: holds_def)

lemma bool_inj: "val M \<rho> (BoolConst s) = val M \<rho> (BoolConst t) \<longleftrightarrow> s = t"
  using literal_inj [of "BoolConst s" "BoolConst t" \<rho>] by (auto simp: scalar_literal_def)

lemma scalar_constant: "is_constant i \<Longrightarrow> is_scalar S (val M \<rho> i) \<Longrightarrow> sorted_at \<rho> i \<Longrightarrow> scalar_literal i"
  using arr_values by (cases i) (fastforce simp: scalar_literal_def)+

lemma sorted_nodes:
  "sorted_at \<rho> (Store a i e) \<longleftrightarrow> is_scalar S (val M \<rho> i) \<and> is_array S (val M \<rho> a) \<and> sorted_at \<rho> a \<and> sorted_at \<rho> i \<and> sorted_at \<rho> e"
  "sorted_at \<rho> (Select a i) \<longleftrightarrow> is_scalar S (val M \<rho> i) \<and> sorted_at \<rho> a \<and> sorted_at \<rho> i"
  "sorted_at \<rho> (ConstArray s e) \<longleftrightarrow> sorted_at \<rho> e"
  "sorted_at \<rho> (NotE e) \<longleftrightarrow> sorted_at \<rho> e"
  "sorted_at \<rho> (Ite c a e) \<longleftrightarrow> sorted_at \<rho> c \<and> sorted_at \<rho> a \<and> sorted_at \<rho> e"
  "sorted_at \<rho> (BvNot e) \<longleftrightarrow> sorted_at \<rho> e"
  "sorted_at \<rho> (BvNeg e) \<longleftrightarrow> sorted_at \<rho> e"
  "sorted_at \<rho> (BvExtract e hi lo) \<longleftrightarrow> sorted_at \<rho> e"
  "sorted_at \<rho> (DatatypeConstructor dn cn es s) \<longleftrightarrow> (\<forall>a \<in> set es. sorted_at \<rho> a)"
  "sorted_at \<rho> (DatatypeSelector dn cn e s) \<longleftrightarrow> sorted_at \<rho> e"
  "sorted_at \<rho> (DatatypeTester dn cn e) \<longleftrightarrow> sorted_at \<rho> e"
  "sorted_at \<rho> (FuncApp cn es s) \<longleftrightarrow> (\<forall>a \<in> set es. sorted_at \<rho> a)"
  "sorted_at \<rho> (OtherOp cn es s) \<longleftrightarrow> (\<forall>a \<in> set es. sorted_at \<rho> a)"
  by (simp_all add: well_sorted_children is_binder_def node_sorted_def)

lemma sorted_members:
  "sorted_at \<rho> (And es) \<longleftrightarrow> (\<forall>a \<in> set es. val M \<rho> a = val M \<rho> (BoolConst (holds M \<rho> a)) \<and> sorted_at \<rho> a)"
  "sorted_at \<rho> (Or es) \<longleftrightarrow> (\<forall>a \<in> set es. val M \<rho> a = val M \<rho> (BoolConst (holds M \<rho> a)) \<and> sorted_at \<rho> a)"
  by (auto simp: well_sorted_children [of "And es"] well_sorted_children [of "Or es"] is_binder_def node_sorted_def)

lemma sorted_operands:
  "sorted_at \<rho> (Bv op a e) \<Longrightarrow> sorted_at \<rho> a \<and> sorted_at \<rho> e"
  "sorted_at \<rho> (Eq a e) \<Longrightarrow> sorted_at \<rho> a \<and> sorted_at \<rho> e"
  "sorted_at \<rho> (BvZeroExtend a n) \<Longrightarrow> sorted_at \<rho> a"
  "sorted_at \<rho> (BvSignExtend a n) \<Longrightarrow> sorted_at \<rho> a"
  by (simp_all add: well_sorted_children is_binder_def)

lemma sorted_sides: "sorted_at \<rho> (Eq a b) \<Longrightarrow> same_sort S (val M \<rho> a) (val M \<rho> b)"
  by (drule well_sorted_node) (simp add: node_sorted_def)

text \<open>Selection through stores.\<close>

lemma eval_select_sound:
  assumes "eval_select_store_const a j = Some v" "sorted_at \<rho> a" "sorted_at \<rho> j" "is_scalar S (val M \<rho> j)"
  shows "val M \<rho> (Select a j) = val M \<rho> v \<and> sorted_at \<rho> v"
  using assms
proof (induction a j rule: eval_select_store_const.induct)
  case (1 inner i x j)
  note sorted = 1(3) [unfolded sorted_nodes]
  show ?case
  proof (cases "j = i")
    case True
    then show ?thesis
      using 1(2) sorted select_same [of \<rho> i i inner x] by simp
  next
    case False
    then have const: "is_constant j" "is_constant i" "eval_select_store_const inner j = Some v"
      using 1(2) by (simp_all split: if_splits)
    have "scalar_literal i" "scalar_literal j"
      using const(1,2) sorted 1(4,5) by (blast intro: scalar_constant)+
    then have "val M \<rho> i \<noteq> val M \<rho> j"
      using literal_inj False by metis
    then have "val M \<rho> (Select (Store inner i x) j) = val M \<rho> (Select inner j)"
      using sorted 1(5) by (intro select_other) blast+
    moreover have "val M \<rho> (Select inner j) = val M \<rho> v \<and> sorted_at \<rho> v"
      using 1(1) [OF False _ const(3)] const(1,2) sorted 1(4,5) by blast
    ultimately show ?thesis
      by simp
  qed
qed simp_all

text \<open>Loops over the members of a connective.\<close>

lemma all_true_eq: "all_true ok vs = (if Some False \<in> set vs then Some False else if ok \<and> None \<notin> set vs then Some True else None)"
proof (induction vs arbitrary: ok)
  case (Cons v vs)
  show ?case
  proof (cases v)
    case (Some t)
    then show ?thesis
      using Cons by (cases t) simp_all
  qed (simp add: Cons)
qed simp

lemma all_false_eq: "all_false ok vs = (if Some True \<in> set vs then Some True else if ok \<and> None \<notin> set vs then Some False else None)"
proof (induction vs arbitrary: ok)
  case (Cons v vs)
  show ?case
  proof (cases v)
    case (Some t)
    then show ?thesis
      using Cons by (cases t) simp_all
  qed (simp add: Cons)
qed simp

lemma all_true_cases:
  assumes "all_true True (map f es) = Some b"
  shows "\<not> b \<and> (\<exists>a \<in> set es. f a = Some False) \<or> b \<and> (\<forall>a \<in> set es. f a = Some True)"
proof (cases "Some False \<in> f ` set es")
  case True
  then show ?thesis
    using assms by (simp add: all_true_eq image_iff) metis
next
  case False
  then have "b" "None \<notin> f ` set es"
    using assms by (simp_all add: all_true_eq split: if_splits)
  moreover have "f a = Some True" if "a \<in> set es" for a
  proof -
    have "f a \<noteq> Some False" "f a \<noteq> None"
      using that False calculation(2) by (metis imageI)+
    then show ?thesis
      by (metis (full_types) option.exhaust)
  qed
  ultimately show ?thesis
    by blast
qed

lemma all_false_cases:
  assumes "all_false True (map f es) = Some b"
  shows "b \<and> (\<exists>a \<in> set es. f a = Some True) \<or> \<not> b \<and> (\<forall>a \<in> set es. f a = Some False)"
proof (cases "Some True \<in> f ` set es")
  case True
  then show ?thesis
    using assms by (simp add: all_false_eq image_iff) metis
next
  case False
  then have "\<not> b" "None \<notin> f ` set es"
    using assms by (simp_all add: all_false_eq split: if_splits)
  moreover have "f a = Some False" if "a \<in> set es" for a
  proof -
    have "f a \<noteq> Some True" "f a \<noteq> None"
      using that False calculation(2) by (metis imageI)+
    then show ?thesis
      by (metis (full_types) option.exhaust)
  qed
  ultimately show ?thesis
    by blast
qed

text \<open>Agreement of both evaluators with the value, for one term.\<close>

definition bool_sound :: "(string \<Rightarrow> 'v) \<Rightarrow> Expr \<Rightarrow> bool" where
  "bool_sound \<rho> e \<longleftrightarrow> (\<forall>b. sorted_at \<rho> e \<longrightarrow> try_eval_to_bool e = Some b \<longrightarrow> val M \<rho> e = val M \<rho> (BoolConst b))"

definition const_sound :: "(string \<Rightarrow> 'v) \<Rightarrow> Expr \<Rightarrow> bool" where
  "const_sound \<rho> e \<longleftrightarrow> (\<forall>c. sorted_at \<rho> e \<longrightarrow> try_eval_to_const e = Some c \<longrightarrow> val M \<rho> e = val M \<rho> c \<and> eval_literal c)"

lemma bool_soundD: "bool_sound \<rho> e \<Longrightarrow> sorted_at \<rho> e \<Longrightarrow> try_eval_to_bool e = Some b \<Longrightarrow> val M \<rho> e = val M \<rho> (BoolConst b) \<and> holds M \<rho> e = b"
  using val_bool unfolding bool_sound_def by blast

lemma const_soundD: "const_sound \<rho> e \<Longrightarrow> sorted_at \<rho> e \<Longrightarrow> try_eval_to_const e = Some c \<Longrightarrow> val M \<rho> e = val M \<rho> c \<and> eval_literal c"
  unfolding const_sound_def by blast

lemma bool_sound_And:
  assumes "\<And>a. a \<in> set es \<Longrightarrow> bool_sound \<rho> a"
  shows "bool_sound \<rho> (And es)"
  unfolding bool_sound_def
proof (intro allI impI)
  fix b
  assume sorted: "sorted_at \<rho> (And es)" and eval: "try_eval_to_bool (And es) = Some b"
  have member: "try_eval_to_bool a = Some t \<Longrightarrow> holds M \<rho> a = t" if "a \<in> set es" for a t
    using bool_soundD [OF assms [OF that]] sorted that unfolding sorted_members by blast
  have "all_true True (map try_eval_to_bool es) = Some b"
    using eval by (simp add: try_eval_to_bool.simps [of "And es"])
  from all_true_cases [OF this] have "(\<forall>a \<in> set es. holds M \<rho> a) = b"
    using member by blast
  then show "val M \<rho> (And es) = val M \<rho> (BoolConst b)"
    by (simp add: val_And)
qed

lemma bool_sound_Or:
  assumes "\<And>a. a \<in> set es \<Longrightarrow> bool_sound \<rho> a"
  shows "bool_sound \<rho> (Or es)"
  unfolding bool_sound_def
proof (intro allI impI)
  fix b
  assume sorted: "sorted_at \<rho> (Or es)" and eval: "try_eval_to_bool (Or es) = Some b"
  have member: "try_eval_to_bool a = Some t \<Longrightarrow> holds M \<rho> a = t" if "a \<in> set es" for a t
    using bool_soundD [OF assms [OF that]] sorted that unfolding sorted_members by blast
  have "all_false True (map try_eval_to_bool es) = Some b"
    using eval by (simp add: try_eval_to_bool.simps [of "Or es"])
  from all_false_cases [OF this] have "(\<exists>a \<in> set es. holds M \<rho> a) = b"
    using member by blast
  then show "val M \<rho> (Or es) = val M \<rho> (BoolConst b)"
    by (simp add: val_Or)
qed

lemma bitvec_const_literal: "0 < w \<Longrightarrow> w < 2 ^ 32 \<Longrightarrow> eval_literal (bitvec_const i w)"
  by (simp add: eval_literal_def bitvec_const_def bv_lit_def nat_less_iff)

lemma eval_bv_literal:
  assumes "eval_bv op a w b v = Some e" "0 < w" "w < 2 ^ 32" "op = BvConcat \<Longrightarrow> w + v < 2 ^ 32"
  shows "eval_literal e"
proof -
  have "(\<exists>t. e = BoolConst t) \<or> (\<exists>i. e = bitvec_const i w) \<or> op = BvConcat \<and> (\<exists>i. e = bitvec_const i (w + v))"
    using assms(1) by (cases op) (auto simp: Let_def simp del: bitvec_const_0 split: if_splits)
  then show ?thesis
  proof (elim disjE exE conjE)
    fix i
    assume "op = BvConcat" "e = bitvec_const i (w + v)"
    then show ?thesis
      using assms(2,4) bitvec_const_literal [of "w + v" i] by simp
  qed (use assms(2,3) bitvec_const_literal in \<open>auto simp: eval_literal_def\<close>)
qed

lemma eval_bv_sound:
  assumes "eval_bv_binary_const op a b = Some e" "eval_literal a" "eval_literal b" "sorted_at \<rho> (Bv op a' b')"
    and "val M \<rho> a' = val M \<rho> a" "val M \<rho> b' = val M \<rho> b"
  shows "val M \<rho> (Bv op a' b') = val M \<rho> e \<and> eval_literal e"
proof -
  obtain x w y v where ab: "a = BitVecConst x w" "b = BitVecConst y v" "eval_bv op (int x) w (int y) v = Some e"
    using assms(1) by (auto simp: eval_bv_binary_const_def split: Expr.splits)
  then have lit: "bv_lit x w" "bv_lit y v"
    using assms(2,3) by (auto simp: eval_literal_def)
  have "\<forall>x w y v. bv_lit x w \<longrightarrow> bv_lit y v \<longrightarrow> val M \<rho> a' = val M \<rho> (BitVecConst x w) \<longrightarrow> val M \<rho> b' = val M \<rho> (BitVecConst y v) \<longrightarrow>
      (if op = BvConcat then w + v < 2 ^ 32 else w = v)"
    using well_sorted_node [OF assms(4)] by (simp add: node_sorted_def)
  from this [rule_format, OF lit assms(5,6) [unfolded ab(1,2)]] have widths: "if op = BvConcat then w + v < 2 ^ 32 else w = v" .
  then have e: "e = bv_const op x w y v"
    using eval_bv_exact [OF ab(3)] lit by (auto simp: bv_lit_def split: if_splits)
  have "val M \<rho> (Bv op a' b') = val M \<rho> e"
    unfolding e using lit widths assms(5,6) ab by (intro val_Bv) (auto split: if_splits)
  moreover have "eval_literal e"
    using lit(1) widths by (intro eval_bv_literal [OF ab(3)]) (auto simp: bv_lit_def)
  ultimately show ?thesis
    by simp
qed

text \<open>Equations.\<close>

lemma const_and_stored_sound:
  assumes "const_and_stored a b = Some (cv, v)" "sorted_at \<rho> (Eq a b) \<or> sorted_at \<rho> (Eq b a)"
  shows "(val M \<rho> a = val M \<rho> b \<longleftrightarrow> val M \<rho> v = val M \<rho> cv) \<and> sorted_at \<rho> cv \<and> sorted_at \<rho> v \<and> cv \<in> set (children a) \<and> v \<in> set (children b)"
proof -
  obtain s t i where ab: "a = ConstArray s cv" "b = Store (ConstArray t cv) i v"
    using assms(1) by (auto simp: const_and_stored_Some)
  have "sorted_at \<rho> a \<and> sorted_at \<rho> b"
    using assms(2) sorted_operands(2) by blast
  then have sorted: "sorted_at \<rho> cv" "sorted_at \<rho> v"
    unfolding ab sorted_nodes by blast+
  have "same_sort S (val M \<rho> a) (val M \<rho> b)"
    using assms(2) sorted_sides same_sort_sym by blast
  then have same: "val M \<rho> (ConstArray s cv) = val M \<rho> (ConstArray t cv)"
    unfolding ab using same_sort_store arr_values(1) const_sort by blast
  have "val M \<rho> a = val M \<rho> b \<longleftrightarrow> val M \<rho> v = val M \<rho> cv"
  proof
    assume eq: "val M \<rho> a = val M \<rho> b"
    have "val M \<rho> (with_children (Select a i) [b, i]) = val M \<rho> (Select a i)"
      by (rule val_node) (simp_all add: is_binder_def eq)
    then show "val M \<rho> v = val M \<rho> cv"
      using select_const [of \<rho> s cv i] select_same [of \<rho> i i "ConstArray t cv" v] by (simp add: ab)
  next
    assume "val M \<rho> v = val M \<rho> cv"
    then have "val M \<rho> (Store (ConstArray t cv) i v) = val M \<rho> (ConstArray t cv)"
      using select_const [of \<rho> t cv i] arr_values by (intro store_current) simp_all
    then show "val M \<rho> a = val M \<rho> b"
      by (simp add: ab same)
  qed
  with sorted show ?thesis
    by (simp add: ab)
qed

lemma literals_decide:
  assumes "val M \<rho> a = val M \<rho> c" "val M \<rho> b = val M \<rho> d" "eval_literal c" "eval_literal d"
  shows "val M \<rho> a = val M \<rho> b \<longleftrightarrow> c = d"
  using assms literal_inj [OF eval_literal_scalar eval_literal_scalar] by metis

lemma eval_const_array_store_eq_sound:
  assumes "eval_const_array_store_eq_ordered a b = Some t" "sorted_at \<rho> (Eq a b) \<or> sorted_at \<rho> (Eq b a)"
    and "\<And>e. e \<in> set (children a) \<union> set (children b) \<Longrightarrow> const_sound \<rho> e"
  shows "val M \<rho> a = val M \<rho> b \<longleftrightarrow> t"
proof -
  obtain cv v where cv: "const_and_stored a b = Some (cv, v)"
      "v = cv \<and> t \<or> v \<noteq> cv \<and> (\<exists>ce se. try_eval_to_const cv = Some ce \<and> try_eval_to_const v = Some se \<and> t = (ce = se))"
    using assms(1) by (auto simp: eval_const_array_store_eq_ordered_def bind_eq_Some_conv split: option.splits if_splits)
  note sound = const_and_stored_sound [OF cv(1) assms(2)]
  show ?thesis
  proof (cases "v = cv")
    case True
    with sound cv(2) show ?thesis
      by simp
  next
    case False
    then obtain ce se where ev: "try_eval_to_const cv = Some ce" "try_eval_to_const v = Some se" "t = (ce = se)"
      using cv(2) by blast
    have "const_sound \<rho> cv" "const_sound \<rho> v"
      using sound assms(3) by blast+
    then have "val M \<rho> cv = val M \<rho> ce \<and> eval_literal ce" "val M \<rho> v = val M \<rho> se \<and> eval_literal se"
      using const_soundD ev(1,2) sound by blast+
    then have "val M \<rho> v = val M \<rho> cv \<longleftrightarrow> se = ce"
      using literals_decide by blast
    with sound ev(3) show ?thesis
      by blast
  qed
qed

lemma bool_sound_Eq:
  assumes "bool_sound \<rho> a" "bool_sound \<rho> b" "const_sound \<rho> a" "const_sound \<rho> b"
    and "\<And>e. e \<in> set (children a) \<union> set (children b) \<Longrightarrow> const_sound \<rho> e"
  shows "bool_sound \<rho> (Eq a b)"
  unfolding bool_sound_def
proof (intro allI impI)
  fix t
  assume sorted: "sorted_at \<rho> (Eq a b)" and eval: "try_eval_to_bool (Eq a b) = Some t"
  note ab = sorted_operands(2) [OF sorted]
  have "val M \<rho> a = val M \<rho> b \<longleftrightarrow> t"
  proof -
    consider "a = b" t
      | x y where "try_eval_to_bool a = Some x" "try_eval_to_bool b = Some y" "t = (x = y)"
      | "or_else (eval_const_array_store_eq_ordered a b) (eval_const_array_store_eq_ordered b a) = Some t"
      | ca cb where "try_eval_to_const a = Some ca" "try_eval_to_const b = Some cb" "t = (ca = cb)"
      using eval by (rule try_eval_Eq_cases)
    then show ?thesis
    proof cases
      case 2
      then show ?thesis
        using bool_soundD [OF assms(1)] bool_soundD [OF assms(2)] ab bool_inj by metis
    next
      case 3
      then have "eval_const_array_store_eq_ordered a b = Some t \<or> eval_const_array_store_eq_ordered b a = Some t"
        by (cases "eval_const_array_store_eq_ordered a b") simp_all
      then show ?thesis
      proof
        assume "eval_const_array_store_eq_ordered a b = Some t"
        then show ?thesis
          using sorted assms(5) by (intro eval_const_array_store_eq_sound) blast+
      next
        assume "eval_const_array_store_eq_ordered b a = Some t"
        then have "val M \<rho> b = val M \<rho> a \<longleftrightarrow> t"
          using sorted assms(5) by (intro eval_const_array_store_eq_sound) blast+
        then show ?thesis
          by (simp add: eq_commute)
      qed
    next
      case 4
      then show ?thesis
        using const_soundD [OF assms(3)] const_soundD [OF assms(4)] ab literals_decide by metis
    qed simp
  qed
  then show "val M \<rho> (Eq a b) = val M \<rho> (BoolConst t)"
    by (simp add: val_Eq)
qed

text \<open>The remaining truth values.\<close>

lemma bool_sound_NotE:
  assumes "bool_sound \<rho> a"
  shows "bool_sound \<rho> (NotE a)"
  unfolding bool_sound_def
proof (intro allI impI)
  fix b
  assume "sorted_at \<rho> (NotE a)" "try_eval_to_bool (NotE a) = Some b"
  then have "sorted_at \<rho> a" "try_eval_to_bool a = Some (\<not> b)"
    by (auto simp: sorted_nodes try_eval_to_bool.simps [of "NotE a"])
  from bool_soundD [OF assms this] show "val M \<rho> (NotE a) = val M \<rho> (BoolConst b)"
    by (simp add: val_NotE)
qed

lemma bool_sound_Bv:
  assumes "const_sound \<rho> a" "const_sound \<rho> b"
  shows "bool_sound \<rho> (Bv op a b)"
  unfolding bool_sound_def
proof (intro allI impI)
  fix t
  assume sorted: "sorted_at \<rho> (Bv op a b)" and eval: "try_eval_to_bool (Bv op a b) = Some t"
  then obtain ca cb where c: "try_eval_to_const a = Some ca" "try_eval_to_const b = Some cb" "eval_bv_binary_const op ca cb = Some (BoolConst t)"
    by (auto simp: try_eval_to_bool.simps [of "Bv op a b"] bind_eq_Some_conv split: if_splits)
  show "val M \<rho> (Bv op a b) = val M \<rho> (BoolConst t)"
    using eval_bv_sound [OF c(3) _ _ sorted] const_soundD [OF assms(1) _ c(1)] const_soundD [OF assms(2) _ c(2)]
      sorted_operands(1) [OF sorted] by blast
qed

lemma const_sound_Bv:
  assumes "const_sound \<rho> a" "const_sound \<rho> b"
  shows "const_sound \<rho> (Bv op a b)"
  unfolding const_sound_def
proof (intro allI impI)
  fix c
  assume sorted: "sorted_at \<rho> (Bv op a b)" and eval: "try_eval_to_const (Bv op a b) = Some c"
  consider ca cb where "try_eval_to_const a = Some ca" "try_eval_to_const b = Some cb" "eval_bv_binary_const op ca cb = Some c"
    | t where "try_eval_to_bool (Bv op a b) = Some t" "c = BoolConst t"
    using eval by (auto simp: try_eval_to_const.simps [of "Bv op a b"] bind_eq_Some_conv split: if_splits)
  then show "val M \<rho> (Bv op a b) = val M \<rho> c \<and> eval_literal c"
  proof cases
    case 1
    show ?thesis
      using eval_bv_sound [OF 1(3) _ _ sorted] const_soundD [OF assms(1) _ 1(1)] const_soundD [OF assms(2) _ 1(2)]
        sorted_operands(1) [OF sorted] by blast
  next
    case 2
    then show ?thesis
      using bool_soundD [OF bool_sound_Bv [OF assms] sorted 2(1)] by (simp add: eval_literal_def)
  qed
qed

text \<open>Unary operations on a literal.\<close>

lemma const_sound_unary:
  assumes "const_sound \<rho> a" "sorted_at \<rho> u \<Longrightarrow> sorted_at \<rho> a"
    and "try_eval_to_const u = do { ca \<leftarrow> try_eval_to_const a; (n, w) \<leftarrow> bv_of ca; f n w }"
    and "\<And>n w c. f n w = Some c \<Longrightarrow> sorted_at \<rho> u \<Longrightarrow> bv_lit n w \<Longrightarrow> val M \<rho> a = val M \<rho> (BitVecConst n w) \<Longrightarrow>
        val M \<rho> u = val M \<rho> c \<and> eval_literal c"
  shows "const_sound \<rho> u"
  unfolding const_sound_def
proof (intro allI impI)
  fix c
  assume sorted: "sorted_at \<rho> u" and "try_eval_to_const u = Some c"
  then obtain n w where n: "try_eval_to_const a = Some (BitVecConst n w)" "f n w = Some c"
    unfolding assms(3) by (auto simp: bind_eq_Some_conv)
  have "val M \<rho> a = val M \<rho> (BitVecConst n w)" "bv_lit n w"
    using const_soundD [OF assms(1) assms(2) [OF sorted] n(1)] by (simp_all add: eval_literal_def)
  then show "val M \<rho> u = val M \<rho> c \<and> eval_literal c"
    using assms(4) [OF n(2) sorted] by blast
qed

lemma eval_literal_bv: "eval_literal (BitVecConst n w) \<longleftrightarrow> bv_lit n w"
  by (simp add: eval_literal_def)

lemma const_sound_BvNot:
  assumes "const_sound \<rho> a"
  shows "const_sound \<rho> (BvNot a)"
proof (rule const_sound_unary [OF assms])
  fix n w c
  assume c: "Some (bitvec_const (xor (int n) (2 ^ w - 1)) w) = Some c" and lit: "bv_lit n w" and a: "val M \<rho> a = val M \<rho> (BitVecConst n w)"
  have "c = BitVecConst (bv_complement w n) w"
    using c lit not_exact [of n w] by (simp add: bv_lit_def)
  then show "val M \<rho> (BvNot a) = val M \<rho> c \<and> eval_literal c"
    using val_BvNot [OF lit a] lit by (simp add: eval_literal_bv bv_lit_def bv_complement_def)
qed (simp_all add: sorted_nodes try_eval_to_const.simps [of "BvNot a"])

lemma const_sound_BvNeg:
  assumes "const_sound \<rho> a"
  shows "const_sound \<rho> (BvNeg a)"
proof (rule const_sound_unary [OF assms])
  fix n w c
  assume c: "Some (bitvec_const ((bitvec_modulus w - int n) mod bitvec_modulus w) w) = Some c" and lit: "bv_lit n w"
    and a: "val M \<rho> a = val M \<rho> (BitVecConst n w)"
  have "c = BitVecConst (bv_neg w n) w"
    using c lit neg_exact [of n w] by (simp add: bv_lit_def)
  then show "val M \<rho> (BvNeg a) = val M \<rho> c \<and> eval_literal c"
    using val_BvNeg [OF lit a] lit by (simp add: eval_literal_bv bv_lit_def bv_neg_def)
qed (simp_all add: sorted_nodes try_eval_to_const.simps [of "BvNeg a"])

lemma extract_literal: "lo \<le> hi \<Longrightarrow> hi < w \<Longrightarrow> bv_lit n w \<Longrightarrow> eval_literal (extract_const n hi lo)"
  unfolding extract_exact eval_literal_bv bv_lit_def by (intro conjI) (arith, arith, simp)

lemma const_sound_BvExtract:
  assumes "const_sound \<rho> a"
  shows "const_sound \<rho> (BvExtract a hi lo)"
proof (rule const_sound_unary [OF assms])
  fix n w c
  assume c: "(if lo \<le> hi \<and> hi < w then Some (extract_const n hi lo) else None) = Some c" and lit: "bv_lit n w"
    and a: "val M \<rho> a = val M \<rho> (BitVecConst n w)"
  then have bounds: "lo \<le> hi" "hi < w" "c = extract_const n hi lo"
    by (auto split: if_splits)
  show "val M \<rho> (BvExtract a hi lo) = val M \<rho> c \<and> eval_literal c"
    using val_BvExtract [OF lit a bounds(1,2)] extract_literal [OF bounds(1,2) lit] by (simp add: bounds(3) extract_exact)
qed (simp_all add: sorted_nodes try_eval_to_const.simps [of "BvExtract a hi lo"])

lemma sorted_extends:
  "sorted_at \<rho> (BvZeroExtend a k) \<Longrightarrow> bv_lit n w \<Longrightarrow> val M \<rho> a = val M \<rho> (BitVecConst n w) \<Longrightarrow> w + k < 2 ^ 32"
  "sorted_at \<rho> (BvSignExtend a k) \<Longrightarrow> bv_lit n w \<Longrightarrow> val M \<rho> a = val M \<rho> (BitVecConst n w) \<Longrightarrow> w + k < 2 ^ 32"
  using well_sorted_node by (force simp: node_sorted_def)+

lemma const_sound_BvZeroExtend:
  assumes "const_sound \<rho> a"
  shows "const_sound \<rho> (BvZeroExtend a k)"
proof (rule const_sound_unary [OF assms])
  fix n w c
  assume c: "Some (bitvec_const (int n) (w + k)) = Some c" and sorted: "sorted_at \<rho> (BvZeroExtend a k)" and lit: "bv_lit n w"
    and a: "val M \<rho> a = val M \<rho> (BitVecConst n w)"
  have c: "c = BitVecConst n (w + k)" "c = bitvec_const (int n) (w + k)"
    using c lit zero_extend_exact [of n w k] by (simp_all add: bv_lit_def)
  have "eval_literal c"
    unfolding c(2) using lit sorted_extends(1) [OF sorted lit a] by (intro bitvec_const_literal) (auto simp: bv_lit_def)
  then show "val M \<rho> (BvZeroExtend a k) = val M \<rho> c \<and> eval_literal c"
    using val_BvZeroExtend [OF lit a, of k] by (simp add: c(1))
qed (simp_all add: sorted_operands(3) try_eval_to_const.simps [of "BvZeroExtend a k"])

lemma const_sound_BvSignExtend:
  assumes "const_sound \<rho> a"
  shows "const_sound \<rho> (BvSignExtend a k)"
proof (rule const_sound_unary [OF assms])
  fix n w c
  assume c: "Some (bitvec_const (bitvec_to_signed (int n) w) (w + k)) = Some c" and sorted: "sorted_at \<rho> (BvSignExtend a k)"
    and lit: "bv_lit n w" and a: "val M \<rho> a = val M \<rho> (BitVecConst n w)"
  have c: "c = bitvec_const (bitvec_to_signed (int n) w) (w + k)"
    using c by simp
  have "eval_literal c"
    unfolding c using lit sorted_extends(2) [OF sorted lit a] by (intro bitvec_const_literal) (auto simp: bv_lit_def)
  then show "val M \<rho> (BvSignExtend a k) = val M \<rho> c \<and> eval_literal c"
    using val_BvSignExtend [OF lit a, of k] sign_extend_exact [of n w k] lit by (simp add: c bv_lit_def)
qed (simp_all add: sorted_operands(4) try_eval_to_const.simps [of "BvSignExtend a k"])

lemma const_sound_of_bool:
  assumes "bool_sound \<rho> e" "try_eval_to_const e = map_option BoolConst (try_eval_to_bool e)"
  shows "const_sound \<rho> e"
  unfolding const_sound_def
proof (intro allI impI)
  fix c
  assume sorted: "sorted_at \<rho> e" and "try_eval_to_const e = Some c"
  then obtain b where b: "try_eval_to_bool e = Some b" "c = BoolConst b"
    unfolding assms(2) by auto
  show "val M \<rho> e = val M \<rho> c \<and> eval_literal c"
    using bool_soundD [OF assms(1) sorted b(1)] by (simp add: b(2) eval_literal_def)
qed

lemma const_sound_Ite:
  assumes "bool_sound \<rho> c" "const_sound \<rho> a" "const_sound \<rho> b"
  shows "const_sound \<rho> (Ite c a b)"
  unfolding const_sound_def
proof (intro allI impI)
  fix d
  assume sorted: "sorted_at \<rho> (Ite c a b)" and eval: "try_eval_to_const (Ite c a b) = Some d"
  then obtain t where t: "try_eval_to_bool c = Some t" "(if t then try_eval_to_const a else try_eval_to_const b) = Some d"
    by (auto simp: try_eval_to_const.simps [of "Ite c a b"] bind_eq_Some_conv)
  have "sorted_at \<rho> c" "sorted_at \<rho> a" "sorted_at \<rho> b"
    using sorted by (simp_all add: sorted_nodes)
  then show "val M \<rho> (Ite c a b) = val M \<rho> d \<and> eval_literal d"
    using bool_soundD [OF assms(1) _ t(1)] t(2) const_soundD [OF assms(2)] const_soundD [OF assms(3)]
    by (cases t) (simp_all add: val_Ite)
qed

lemma const_sound_Selector:
  assumes "\<And>e. e \<in> set (children a) \<Longrightarrow> const_sound \<rho> e"
  shows "const_sound \<rho> (DatatypeSelector dn f a s)"
  unfolding const_sound_def
proof (intro allI impI)
  fix c
  assume sorted: "sorted_at \<rho> (DatatypeSelector dn f a s)" and "try_eval_to_const (DatatypeSelector dn f a s) = Some c"
  then obtain cn args s' k where k: "a = DatatypeConstructor dn cn args s'" "field_index f = Some k" "k < length args"
      "try_eval_to_const (args ! k) = Some c"
    by (insert try_eval_to_const.simps [of "DatatypeSelector dn f a s"], cases a) (auto simp: bind_eq_Some_conv split: if_splits)
  have "const_sound \<rho> (args ! k)" "sorted_at \<rho> (args ! k)"
    using assms [of "args ! k"] sorted k(3) by (simp_all add: k(1) sorted_nodes)
  from const_soundD [OF this k(4)] show "val M \<rho> (DatatypeSelector dn f a s) = val M \<rho> c \<and> eval_literal c"
    using val_field [OF k(2,3)] by (simp add: k(1))
qed

text \<open>Every other term is not evaluated.\<close>

lemma eval_sound: "bool_sound \<rho> e \<and> const_sound \<rho> e"
proof (induction e rule: measure_induct_rule [of size])
  case (less e)
  have child: "bool_sound \<rho> a \<and> const_sound \<rho> a" if "a \<in> set (children e)" for a
    using less size_children [OF that] by blast
  have grandchild: "bool_sound \<rho> a \<and> const_sound \<rho> a" if "a \<in> set (children b)" "b \<in> set (children e)" for a b
    using less size_children [OF that(1)] size_children [OF that(2)] by force
  have bool: "bool_sound \<rho> e"
  proof (cases e)
    case (And es)
    then show ?thesis
      using child by (simp add: bool_sound_And)
  next
    case (Or es)
    then show ?thesis
      using child by (simp add: bool_sound_Or)
  next
    case (NotE a)
    then show ?thesis
      using child by (simp add: bool_sound_NotE)
  next
    case (Eq a b)
    then show ?thesis
      using child grandchild [of _ a] grandchild [of _ b] by (auto intro!: bool_sound_Eq)
  next
    case (Bv op a b)
    then show ?thesis
      using child by (simp add: bool_sound_Bv)
  qed (insert try_eval_to_bool.simps [of e], simp_all add: bool_sound_def)
  moreover have "const_sound \<rho> e"
  proof (cases e)
    case (Bv op a b)
    then show ?thesis
      using child by (simp add: const_sound_Bv)
  next
    case (DatatypeSelector dn f a s)
    then show ?thesis
      using grandchild [of _ a] by (auto intro: const_sound_Selector)
  next
    case (Ite c a b)
    then show ?thesis
      using child by (simp add: const_sound_Ite)
  qed (insert try_eval_to_const.simps [of e] child bool, simp_all add: const_sound_BvNot const_sound_BvNeg const_sound_BvExtract
      const_sound_BvZeroExtend const_sound_BvSignExtend const_sound_of_bool, simp_all add: const_sound_def eval_literal_def)
  ultimately show ?case ..
qed

end

section \<open>The reference model obeys the laws\<close>

definition scalar_val :: "SVal \<Rightarrow> bool" where
  "scalar_val v \<longleftrightarrow> (case v of VArr f \<Rightarrow> False | VData c vs \<Rightarrow> False | _ \<Rightarrow> True)"

definition array_val :: "SVal \<Rightarrow> bool" where
  "array_val v \<longleftrightarrow> (\<exists>f. v = VArr f)"

definition sorts_by :: "(SVal \<Rightarrow> SVal \<Rightarrow> bool) \<Rightarrow> SVal sorts" where
  "sorts_by R = \<lparr>is_scalar = scalar_val, is_array = array_val, same_sort = R\<rparr>"

lemma sorts_by_sel [simp]:
  "is_scalar (sorts_by R) = scalar_val"
  "is_array (sorts_by R) = array_val"
  "same_sort (sorts_by R) = R"
  by (simp_all add: sorts_by_def)

abbreviation ground_sorts :: "SVal sorts" where
  "ground_sorts \<equiv> sorts_by (\<lambda>u v. True)"

lemma key_inj: "scalar_val u \<Longrightarrow> scalar_val v \<Longrightarrow> key_of u = key_of v \<Longrightarrow> u = v"
  by (cases u; cases v) (simp_all add: scalar_val_def)

lemma array_at_VArr [simp]: "array_at (VArr f) = f"
  by (rule ext) simp

lemma ground_literal: "is_scalar_constant a \<Longrightarrow> ground \<rho> a = literal_val a"
  by (cases a) simp_all

lemma literal_val_inj: "is_scalar_constant a \<Longrightarrow> is_scalar_constant b \<Longrightarrow> literal_val a = literal_val b \<Longrightarrow> a = b"
  by (cases a; cases b) simp_all

lemma bv_const_scalar: "is_scalar_constant (bv_const op x w y v)"
  by (cases op) (simp_all add: Let_def)

lemma ground_node:
  assumes "\<not> is_binder e" "list_all2 (\<lambda>a b. ground \<rho> b = ground \<rho> a) (children e) es"
  shows "ground \<rho> (with_children e es) = ground \<rho> e"
proof -
  have one: "list_all2 (\<lambda>a b. ground \<rho> b = ground \<rho> a) [a] bs \<Longrightarrow> ground \<rho> (bs ! 0) = ground \<rho> a" for a bs
    by (auto simp: list_all2_Cons1)
  have all: "list_all2 (\<lambda>a b. ground \<rho> b = ground \<rho> a) as bs \<Longrightarrow> map (ground \<rho>) bs = map (ground \<rho>) as" for as bs
    by (induction rule: list_all2_induct) simp_all
  then have set_eq: "list_all2 (\<lambda>a b. ground \<rho> b = ground \<rho> a) as bs \<Longrightarrow> ground \<rho> ` set bs = ground \<rho> ` set as" for as bs
    by (metis list.set_map)
  show ?thesis
  proof (cases e)
    case (And as)
    then have "(\<forall>v \<in> ground \<rho> ` set es. v = VB True) \<longleftrightarrow> (\<forall>v \<in> ground \<rho> ` set as. v = VB True)"
      using set_eq assms(2) by simp
    then show ?thesis
      using And by simp
  next
    case (Or as)
    then have "VB True \<in> ground \<rho> ` set es \<longleftrightarrow> VB True \<in> ground \<rho> ` set as"
      using set_eq assms(2) by simp
    then have "(\<exists>a \<in> set es. ground \<rho> a = VB True) \<longleftrightarrow> (\<exists>a \<in> set as. ground \<rho> a = VB True)"
      by (metis imageE imageI)
    then show ?thesis
      using Or by simp
  next
    case (DatatypeConstructor d c as s)
    then show ?thesis
      using all assms(2) by simp
  next
    case (OtherOp f as s)
    then show ?thesis
      using all assms(2) by simp
  qed (use assms in \<open>auto simp: list_all2_Cons1 is_binder_def ground.simps [of _ "FuncApp _ _ _"]\<close>)
qed

text \<open>Any reflexive and symmetric notion of equal sorts will do that does not tell arrays apart.\<close>

lemma ground_terms:
  assumes "\<And>u f g. R u (VArr f) \<Longrightarrow> R u (VArr g)" "\<And>u. R u u" "\<And>u v. R u v \<Longrightarrow> R v u"
  shows "smt_terms (ground_in D) (sorts_by R)"
proof unfold_locales
  fix \<rho> :: "string \<Rightarrow> SVal"
  show "val (ground_in D) \<rho> (NotE a) = val (ground_in D) \<rho> (BoolConst (\<not> holds (ground_in D) \<rho> a))" for a
    by (simp add: holds_def)
  show "val (ground_in D) \<rho> (And es) = val (ground_in D) \<rho> (BoolConst (\<forall>e \<in> set es. holds (ground_in D) \<rho> e))" for es
    by (simp add: holds_def)
  show "val (ground_in D) \<rho> (Or es) = val (ground_in D) \<rho> (BoolConst (\<exists>e \<in> set es. holds (ground_in D) \<rho> e))" for es
    by (simp add: holds_def)
  show "val (ground_in D) \<rho> (Eq a b) = val (ground_in D) \<rho> (BoolConst (val (ground_in D) \<rho> a = val (ground_in D) \<rho> b))" for a b
    by simp
  show "val (ground_in D) \<rho> (Ite c a b) = (if holds (ground_in D) \<rho> c then val (ground_in D) \<rho> a else val (ground_in D) \<rho> b)" for c a b
    by (simp add: holds_def)
  show "a = b" if "scalar_literal a" "scalar_literal b" "val (ground_in D) \<rho> a = val (ground_in D) \<rho> b" for a b
    using that literal_val_inj by (simp add: scalar_literal_def ground_literal)
  show "val (ground_in D) \<rho> (Bv op a b) = val (ground_in D) \<rho> (bv_const op x w y v)"
    if "val (ground_in D) \<rho> a = val (ground_in D) \<rho> (BitVecConst x w)" "val (ground_in D) \<rho> b = val (ground_in D) \<rho> (BitVecConst y v)" for op a b x w y v
    using that by (simp add: bv_apply_def ground_literal bv_const_scalar)
  show "val (ground_in D) \<rho> (Select (Store a i e) j) = val (ground_in D) \<rho> (Select a j)"
    if "is_scalar (sorts_by R) (val (ground_in D) \<rho> i)" "is_scalar (sorts_by R) (val (ground_in D) \<rho> j)" "val (ground_in D) \<rho> i \<noteq> val (ground_in D) \<rho> j" for a i e j
    using that key_inj by auto
  show "val (ground_in D) \<rho> (Store a i e) = val (ground_in D) \<rho> a"
    if "is_array (sorts_by R) (val (ground_in D) \<rho> a)" "val (ground_in D) \<rho> e = val (ground_in D) \<rho> (Select a i)" for a i e
    using that by (auto simp: array_val_def)
  show "val (ground_in D) \<rho> (DatatypeSelector dn f (DatatypeConstructor dn cn args s) s') = val (ground_in D) \<rho> (args ! k)"
    if "field_index f = Some k" "k < length args" for f k args dn cn s s'
    using that by (simp add: data_field_def)
  show "same_sort (sorts_by R) u (val (ground_in D) \<rho> a)"
    if "is_array (sorts_by R) (val (ground_in D) \<rho> a)" "same_sort (sorts_by R) u (val (ground_in D) \<rho> (Store a i e))" for u a i e
    using that assms(1) by (auto simp: array_val_def)
  show "val (ground_in D) \<rho> (with_children e es) = val (ground_in D) \<rho> e"
    if "\<not> is_binder e" "list_all2 (\<lambda>a b. val (ground_in D) \<rho> b = val (ground_in D) \<rho> a) (children e) es" for e es
    using ground_node that by simp
  show "val (ground_in D) \<rho> (Forall xs b' ts') = val (ground_in D) \<rho> (Forall xs b ts) \<and>
      val (ground_in D) \<rho> (Exists xs b' ts') = val (ground_in D) \<rho> (Exists xs b ts)" for xs b b' ts ts'
    by (simp add: ground.simps [of _ "Forall _ _ _"] ground.simps [of _ "Exists _ _ _"])
qed (auto simp: bv_map_def array_val_def scalar_val_def assms(2,3))

interpretation ground: smt_terms "ground_in D" ground_sorts for D
  by (rule ground_terms) simp_all

section \<open>Folding does not change a term\<close>

text \<open>C16: Whatever the evaluators of the constant propagation compute is true of the term: over every interpretation of the
SMT-LIB language with the encoder's field names (laws smt_terms) and at every assignment at which the term is well sorted, a term that
try_eval_to_bool decides holds exactly when it says so, a term that try_eval_to_const reduces has the value of the
literal it returns, a literal in range, and a read that eval_select_store_const resolves through a chain of stores has
the value it finds there: connectives decided by one member, comparisons with and without sign, folded arithmetic,
constant arrays compared with stores into them and fields of constructed data alike.\<close>

theorem try_eval_sound:
  assumes "smt_terms M S" "well_sorted_at M S \<rho> e"
  shows "(\<forall>b. try_eval_to_bool e = Some b \<longrightarrow> holds M \<rho> e = b) \<and>
    (\<forall>c. try_eval_to_const e = Some c \<longrightarrow> val M \<rho> e = val M \<rho> c \<and> eval_literal c) \<and>
    (\<forall>a i c. e = Select a i \<longrightarrow> eval_select_store_const a i = Some c \<longrightarrow> val M \<rho> e = val M \<rho> c)"
proof -
  note laws = assms(1)
  have "val M \<rho> e = val M \<rho> c" if "e = Select a i" "eval_select_store_const a i = Some c" for a i c
    using smt_terms.eval_select_sound [OF laws that(2)] assms(2) by (simp add: that(1) smt_terms.sorted_nodes [OF laws])
  then show ?thesis
    using smt_terms.eval_sound [OF laws, of \<rho> e] assms(2)
    by (auto simp: smt_terms.bool_sound_def [OF laws] smt_terms.const_sound_def [OF laws] dest: smt_terms.val_bool [OF laws])
qed

definition decided :: Expr where
  "decided = And [NotE (Eq (Bv BvAdd (BitVecConst 200 8) (BitVecConst 100 8)) (BitVecConst 45 8)),
     Bv BvSLt (BitVecConst 255 8) (BitVecConst 1 8), Or [Eq (Var ''x'' SBool) (BoolConst True), BoolConst True]]"

definition stored_read :: Expr where
  "stored_read = Select (Store (Store (Var ''a'' (SArray (SBitVec 8) (SBitVec 8))) (BitVecConst 1 8) (BitVecConst 5 8))
     (BitVecConst 2 8) (BitVecConst 6 8)) (BitVecConst 1 8)"

definition some_values :: "string \<Rightarrow> SVal" where
  "some_values x = (if x = ''a'' then VArr (\<lambda>k. VB False) else VB False)"

lemma decided_sorted: "well_sorted_at ground_smt ground_sorts some_values decided"
  by (simp add: decided_def some_values_def ground.sorted_members well_sorted_children [of "Eq _ _"] well_sorted_children [of "Bv _ _ _"]
      ground.sorted_nodes is_binder_def node_sorted_def bv_lit_def holds_def bv_apply_def)

lemma stored_read_sorted: "well_sorted_at ground_smt ground_sorts some_values stored_read"
  by (simp add: stored_read_def some_values_def ground.sorted_nodes bv_lit_def scalar_val_def array_val_def)

lemma decided_evaluates: "try_eval_to_bool decided = Some True"
  by code_simp

theorem try_eval_sound_witness:
  "holds ground_smt some_values decided \<and> val ground_smt some_values stored_read = val ground_smt some_values (BitVecConst 5 8)"
  using try_eval_sound [OF ground.smt_terms_axioms decided_sorted] decided_evaluates
    try_eval_sound [OF ground.smt_terms_axioms stored_read_sorted]
  by (auto simp: stored_read_def)

end
