(* ===== verification/Chc_Subst.thy ===== *)
theory Chc_Subst
  imports Chc_Eval_Sound
begin

text \<open>
  Substitution of known values in terms with folding: trust-mc-core/src/chc_const_prop_subst.rs.  What the bindings know
  of a term (its sort, the fields of a constructor, whether a selector or a tester may be applied, whether a variant of
  the term type is known) are the parameters of the record \<open>bindings\<close>.  A substituted term has the value of the
  original one at every assignment that gives the known variables their values.
\<close>

section \<open>What the bindings know\<close>

record bindings =
  sort_of :: "Expr \<Rightarrow> Sort"
  fields_of :: "Sort \<Rightarrow> string \<Rightarrow> (string \<times> Sort) list option"
  selects :: "Expr \<Rightarrow> string \<Rightarrow> string \<Rightarrow> Sort \<Rightarrow> bool"
  tests :: "Expr \<Rightarrow> string \<Rightarrow> string \<Rightarrow> bool"
  known_variant :: "string \<Rightarrow> bool"

fun bitvec_width :: "Sort \<Rightarrow> nat option" where
  "bitvec_width (SBitVec w) = Some w"
| "bitvec_width _ = None"

fun element_sort :: "Sort \<Rightarrow> Sort option" where
  "element_sort (SArray i e) = Some e"
| "element_sort _ = None"

section \<open>Folding\<close>

definition decide :: "Expr \<Rightarrow> bool option" where
  "decide e = (case bool_of e of Some t \<Rightarrow> Some t | None \<Rightarrow> try_eval_to_bool e)"

definition fold_not :: "Expr \<Rightarrow> Expr" where
  "fold_not a = (case decide a of Some t \<Rightarrow> BoolConst (\<not> t) | None \<Rightarrow> NotE a)"

definition fold_extract :: "bindings \<Rightarrow> Expr \<Rightarrow> Expr \<Rightarrow> nat \<Rightarrow> nat \<Rightarrow> Expr" where
  "fold_extract B e a hi lo =
     (case bitvec_width (sort_of B a) of
        None \<Rightarrow> e
      | Some w \<Rightarrow> if lo \<le> hi \<and> hi < w
          then (case bv_of a of Some (n, _) \<Rightarrow> extract_const n hi lo | None \<Rightarrow> BvExtract a hi lo)
          else e)"

definition fold_bv :: "BvOp \<Rightarrow> Expr \<Rightarrow> Expr \<Rightarrow> Expr" where
  "fold_bv op a b = (case eval_bv_binary_const op a b of Some c \<Rightarrow> c | None \<Rightarrow> Bv op a b)"

definition fold_eq :: "Expr \<Rightarrow> Expr \<Rightarrow> Expr" where
  "fold_eq a b =
     (if is_scalar_constant a \<and> is_scalar_constant b then BoolConst (a = b)
      else if a = b then BoolConst True
      else Eq a b)"

text \<open>The members that stay, or nothing when a member decides the connective.\<close>

fun undecided :: "bool \<Rightarrow> Expr list \<Rightarrow> Expr list option" where
  "undecided d [] = Some []"
| "undecided d (e # es) =
     (case decide e of
        Some t \<Rightarrow> if t = d then None else undecided d es
      | None \<Rightarrow> map_option ((#) e) (undecided d es))"

definition fold_and :: "Expr list \<Rightarrow> Expr" where
  "fold_and es =
     (case undecided False es of
        None \<Rightarrow> BoolConst False
      | Some [] \<Rightarrow> BoolConst True
      | Some [e] \<Rightarrow> e
      | Some es' \<Rightarrow> And es')"

definition fold_or :: "Expr list \<Rightarrow> Expr" where
  "fold_or es =
     (case undecided True es of
        None \<Rightarrow> BoolConst True
      | Some [] \<Rightarrow> BoolConst False
      | Some [e] \<Rightarrow> e
      | Some es' \<Rightarrow> Or es')"

definition fold_ite :: "Expr \<Rightarrow> Expr \<Rightarrow> Expr \<Rightarrow> Expr" where
  "fold_ite c a b =
     (case bool_of c of
        Some t \<Rightarrow> if t then a else b
      | None \<Rightarrow>
          if a = b then a
          else (case try_eval_to_bool c of Some t \<Rightarrow> if t then a else b | None \<Rightarrow> Ite c a b))"

fun const_array_of :: "Expr \<Rightarrow> Expr option" where
  "const_array_of (ConstArray s v) = Some v"
| "const_array_of _ = None"

definition fold_select :: "bindings \<Rightarrow> Expr \<Rightarrow> Expr \<Rightarrow> Expr \<Rightarrow> Expr \<Rightarrow> Expr" where
  "fold_select B a i a' i' =
     (if sort_of B a' \<noteq> sort_of B a \<or> sort_of B i' \<noteq> sort_of B i then Select a i
      else (case const_array_of a' of
          Some v \<Rightarrow> v
        | None \<Rightarrow> (case eval_select_store_const a' i' of Some v \<Rightarrow> v | None \<Rightarrow> Select a' i')))"

definition fold_store :: "bindings \<Rightarrow> Expr \<Rightarrow> Expr \<Rightarrow> Expr \<Rightarrow> Expr \<Rightarrow> Expr" where
  "fold_store B v a' i' v' =
     (if const_array_of a' = Some v' then a'
      else if v' = Select a' i' then a'
      else if (case element_sort (sort_of B a') of Some s \<Rightarrow> s \<noteq> sort_of B v' | None \<Rightarrow> False) then Store a' i' v
      else (case a' of
          Store a2 i2 v2 \<Rightarrow> if i2 = i' then Store a2 i' v' else Store a' i' v'
        | _ \<Rightarrow> Store a' i' v'))"

definition adjust_args :: "bindings \<Rightarrow> (string \<times> Sort) list \<Rightarrow> Expr list \<Rightarrow> Expr list \<Rightarrow> Expr list" where
  "adjust_args B fs as as' =
     map (\<lambda>((a, a'), (f, s)). if sort_of B a' = s then a' else a) (zip (zip as as') fs)"

definition fold_dt_constructor :: "bindings \<Rightarrow> string \<Rightarrow> string \<Rightarrow> Expr list \<Rightarrow> Sort \<Rightarrow> Expr list \<Rightarrow> Expr" where
  "fold_dt_constructor B d c as s as' =
     (case fields_of B s c of
        None \<Rightarrow> DatatypeConstructor d c as s
      | Some fs \<Rightarrow>
          if length fs \<noteq> length as then DatatypeConstructor d c as s
          else DatatypeConstructor d c (adjust_args B fs as as') s)"

fun position :: "'a \<Rightarrow> 'a list \<Rightarrow> nat option" where
  "position x [] = None"
| "position x (y # ys) = (if y = x then Some 0 else map_option Suc (position x ys))"

text \<open>The field a selector reads from a constructed value.\<close>

definition constructed_field :: "bindings \<Rightarrow> string \<Rightarrow> Expr \<Rightarrow> Expr option" where
  "constructed_field B f e =
     (case e of
        DatatypeConstructor d c as s \<Rightarrow> do {
          fs \<leftarrow> fields_of B s c;
          k \<leftarrow> position f (map fst fs);
          if k < length as then Some (as ! k) else None }
      | _ \<Rightarrow> None)"

definition fold_dt_selector :: "bindings \<Rightarrow> Expr \<Rightarrow> string \<Rightarrow> string \<Rightarrow> Sort \<Rightarrow> Expr \<Rightarrow> Expr" where
  "fold_dt_selector B e d f s a' =
     (case constructed_field B f a' of
        Some v \<Rightarrow> v
      | None \<Rightarrow> if selects B a' d f s then DatatypeSelector d f a' s else e)"

section \<open>Substitution\<close>

definition filter_bound_vars :: "(string, Expr) btree \<Rightarrow> (string \<times> Sort) list \<Rightarrow> (string, Expr) btree" where
  "filter_bound_vars known xs = fold (\<lambda>(x, _). filter (\<lambda>(y, _). y \<noteq> x)) xs known"

function substitute_vars_inner :: "bindings \<Rightarrow> (string, Expr) btree \<Rightarrow> Expr \<Rightarrow> Expr" where
  "substitute_vars_inner B known e =
     (case e of
        Var x s \<Rightarrow> (case bt_get known x of Some c \<Rightarrow> c | None \<Rightarrow> e)
      | NotE a \<Rightarrow> fold_not (substitute_vars_inner B known a)
      | BvExtract a hi lo \<Rightarrow> fold_extract B e (substitute_vars_inner B known a) hi lo
      | Bv op a b \<Rightarrow> fold_bv op (substitute_vars_inner B known a) (substitute_vars_inner B known b)
      | Eq a b \<Rightarrow> fold_eq (substitute_vars_inner B known a) (substitute_vars_inner B known b)
      | And es \<Rightarrow> fold_and (map (substitute_vars_inner B known) es)
      | Or es \<Rightarrow> fold_or (map (substitute_vars_inner B known) es)
      | Ite c a b \<Rightarrow>
          fold_ite (substitute_vars_inner B known c) (substitute_vars_inner B known a) (substitute_vars_inner B known b)
      | Select a i \<Rightarrow> fold_select B a i (substitute_vars_inner B known a) (substitute_vars_inner B known i)
      | Store a i v \<Rightarrow>
          fold_store B v (substitute_vars_inner B known a) (substitute_vars_inner B known i) (substitute_vars_inner B known v)
      | DatatypeConstructor d c as s \<Rightarrow> fold_dt_constructor B d c as s (map (substitute_vars_inner B known) as)
      | DatatypeSelector d f a s \<Rightarrow> fold_dt_selector B e d f s (substitute_vars_inner B known a)
      | DatatypeTester d c a \<Rightarrow>
          (let a' = substitute_vars_inner B known a in if tests B a' d c then DatatypeTester d c a' else e)
      | Forall xs b ts \<Rightarrow>
          (let known' = filter_bound_vars known xs in
           Forall xs (substitute_vars_inner B known' b) (map (map (substitute_vars_inner B known')) ts))
      | Exists xs b ts \<Rightarrow>
          (let known' = filter_bound_vars known xs in
           Exists xs (substitute_vars_inner B known' b) (map (map (substitute_vars_inner B known')) ts))
      | OtherOp f es s \<Rightarrow> if known_variant B f then OtherOp f (map (substitute_vars_inner B known) es) s else e
      | _ \<Rightarrow> with_children e (map (substitute_vars_inner B known) (children e)))"
  by pat_completeness auto
termination
  by (relation "measure (\<lambda>(_, _, e). size e)") (auto intro: size_member size_nested dest: size_children)

declare substitute_vars_inner.simps [simp del]

definition substitute_vars :: "bindings \<Rightarrow> (string, Expr) btree \<Rightarrow> Expr \<Rightarrow> Expr" where
  "substitute_vars B known e = (if known = [] then e else substitute_vars_inner B known e)"

section \<open>The value is kept\<close>

text \<open>The known constants are the values of their variables.\<close>

definition stands_for :: "'v smt \<Rightarrow> 'v sorts \<Rightarrow> (string \<Rightarrow> 'v) \<Rightarrow> (string, Expr) btree \<Rightarrow> bool" where
  "stands_for M S \<rho> known \<longleftrightarrow>
     (\<forall>x c. bt_get known x = Some c \<longrightarrow> is_constant c \<and> val M \<rho> c = \<rho> x \<and> well_sorted_at M S \<rho> c)"

lemma stands_for_Nil [simp]: "stands_for M S \<rho> []"
  by (simp add: stands_for_def)

lemma constant_closed: "is_constant c \<Longrightarrow> expr_vars c = {}"
  by (induction c rule: is_constant.induct) auto

lemma get_filter_bound: "bt_get (filter_bound_vars known xs) y = (if y \<in> fst ` set xs then None else bt_get known y)"
proof -
  have "bt_get (filter (\<lambda>(z, _). z \<noteq> x) m) y = (if y = x then None else bt_get m y)" for x and m :: "(string, Expr) btree"
    by (induction m) auto
  then show ?thesis
    unfolding filter_bound_vars_def by (induction xs arbitrary: known) auto
qed

locale smt_bindings = smt_terms M S for M :: "'v smt" and S :: "'v sorts" +
  fixes B :: bindings
  assumes sort_literal: "sort_of B (BitVecConst n w) = SBitVec w"
    and field_value: "fields_of B s c = Some fs \<Longrightarrow> position f (map fst fs) = Some k \<Longrightarrow> k < length args \<Longrightarrow>
      val M \<rho> (DatatypeSelector d f (DatatypeConstructor d' c args s) s') = val M \<rho> (args ! k)"
begin

abbreviation keeps :: "(string \<Rightarrow> 'v) \<Rightarrow> Expr \<Rightarrow> Expr \<Rightarrow> bool" where
  "keeps \<rho> e e' \<equiv> val M \<rho> e' = val M \<rho> e \<and> sorted_at \<rho> e'"

abbreviation same_values :: "(string \<Rightarrow> 'v) \<Rightarrow> Expr list \<Rightarrow> Expr list \<Rightarrow> bool" where
  "same_values \<rho> \<equiv> list_all2 (\<lambda>e e'. val M \<rho> e' = val M \<rho> e)"

lemma node_values:
  "val M \<rho> a' = val M \<rho> a \<Longrightarrow> val M \<rho> (NotE a') = val M \<rho> (NotE a)"
  "val M \<rho> a' = val M \<rho> a \<Longrightarrow> val M \<rho> (BvExtract a' hi lo) = val M \<rho> (BvExtract a hi lo)"
  "val M \<rho> a' = val M \<rho> a \<Longrightarrow> val M \<rho> b' = val M \<rho> b \<Longrightarrow> val M \<rho> (Bv op a' b') = val M \<rho> (Bv op a b)"
  "val M \<rho> a' = val M \<rho> a \<Longrightarrow> val M \<rho> b' = val M \<rho> b \<Longrightarrow> val M \<rho> (Select a' b') = val M \<rho> (Select a b)"
  "val M \<rho> a' = val M \<rho> a \<Longrightarrow> val M \<rho> b' = val M \<rho> b \<Longrightarrow> val M \<rho> v' = val M \<rho> v \<Longrightarrow> val M \<rho> (Store a' b' v') = val M \<rho> (Store a b v)"
  "val M \<rho> a' = val M \<rho> a \<Longrightarrow> val M \<rho> (DatatypeSelector d f a' s) = val M \<rho> (DatatypeSelector d f a s)"
  "val M \<rho> a' = val M \<rho> a \<Longrightarrow> val M \<rho> (DatatypeTester d c a') = val M \<rho> (DatatypeTester d c a)"
  "same_values \<rho> es es' \<Longrightarrow> val M \<rho> (DatatypeConstructor d c es' s) = val M \<rho> (DatatypeConstructor d c es s)"
  "same_values \<rho> es es' \<Longrightarrow> val M \<rho> (OtherOp f es' s) = val M \<rho> (OtherOp f es s)"
  using val_node [of "NotE a" \<rho> "[a']"] val_node [of "BvExtract a hi lo" \<rho> "[a']"] val_node [of "Bv op a b" \<rho> "[a', b']"]
    val_node [of "Select a b" \<rho> "[a', b']"] val_node [of "Store a b v" \<rho> "[a', b', v']"]
    val_node [of "DatatypeSelector d f a s" \<rho> "[a']"] val_node [of "DatatypeTester d c a" \<rho> "[a']"]
    val_node [of "DatatypeConstructor d c es s" \<rho> es'] val_node [of "OtherOp f es s" \<rho> es']
  by (simp_all add: is_binder_def)

lemma decide_sound:
  assumes "decide e = Some t" "sorted_at \<rho> e"
  shows "val M \<rho> e = val M \<rho> (BoolConst t)" "holds M \<rho> e = t"
proof -
  have "bool_of e = Some t \<or> try_eval_to_bool e = Some t"
    using assms(1) by (auto simp: decide_def split: option.splits)
  then show "val M \<rho> e = val M \<rho> (BoolConst t)"
    using eval_sound [of \<rho> e] assms(2) by (auto simp: bool_of_Some bool_sound_def)
  then show "holds M \<rho> e = t"
    by (rule val_bool)
qed

lemma fold_not_keeps:
  assumes "keeps \<rho> a a'"
  shows "keeps \<rho> (NotE a) (fold_not a')"
proof (cases "decide a'")
  case None
  then show ?thesis
    using assms node_values(1) [of \<rho> a' a] by (simp add: fold_not_def sorted_nodes)
next
  case (Some t)
  then have "holds M \<rho> a = t"
    using decide_sound(2) [of a' t \<rho>] assms by (simp add: holds_def)
  with Some show ?thesis
    by (simp add: fold_not_def val_NotE)
qed

lemma literal_bv: "sorted_at \<rho> (BitVecConst n w) \<longleftrightarrow> bv_lit n w"
  by simp

lemma fold_extract_keeps:
  assumes "keeps \<rho> a a'" "sorted_at \<rho> (BvExtract a hi lo)"
  shows "keeps \<rho> (BvExtract a hi lo) (fold_extract B (BvExtract a hi lo) a' hi lo)"
proof (cases "\<exists>w. bitvec_width (sort_of B a') = Some w \<and> lo \<le> hi \<and> hi < w")
  case False
  then have "fold_extract B (BvExtract a hi lo) a' hi lo = BvExtract a hi lo"
    by (auto simp: fold_extract_def split: option.split)
  with assms(2) show ?thesis
    by simp
next
  case True
  then obtain w where w: "bitvec_width (sort_of B a') = Some w" "lo \<le> hi" "hi < w"
    by blast
  show ?thesis
  proof (cases "bv_of a'")
    case None
    then show ?thesis
      using w assms node_values(2) [of \<rho> a' a] by (simp add: fold_extract_def sorted_nodes)
  next
    case (Some nw)
    then obtain n where a': "a' = BitVecConst n w"
      using w(1) by (cases nw) (auto simp: bv_of_Some sort_literal)
    have lit: "bv_lit n w"
      using assms(1) by (simp add: a')
    show ?thesis
      using w assms(1) val_BvExtract [OF lit _ w(2,3), of \<rho> a] extract_literal [OF w(2,3) lit]
      by (simp add: fold_extract_def a' sort_literal bv_of_def extract_exact eval_literal_bv)
  qed
qed

lemma sorted_bv:
  assumes "sorted_at \<rho> (Bv op a b)" "keeps \<rho> a a'" "keeps \<rho> b b'"
  shows "sorted_at \<rho> (Bv op a' b')"
  using assms well_sorted_node [OF assms(1)] by (simp add: well_sorted_children [of "Bv op a' b'"] is_binder_def node_sorted_def)

lemma literal_of: "eval_literal c \<Longrightarrow> sorted_at \<rho> c"
  by (auto simp: eval_literal_def)

lemma sorted_literal: "sorted_at \<rho> (BitVecConst n w) \<Longrightarrow> eval_literal (BitVecConst n w)"
  by (simp add: eval_literal_bv)

lemma fold_bv_keeps:
  assumes "keeps \<rho> a a'" "keeps \<rho> b b'" "sorted_at \<rho> (Bv op a b)"
  shows "keeps \<rho> (Bv op a b) (fold_bv op a' b')"
proof (cases "eval_bv_binary_const op a' b'")
  case None
  then show ?thesis
    using assms sorted_bv [of \<rho> op a b a' b'] node_values(3) [of \<rho> a' a b' b op] by (simp add: fold_bv_def)
next
  case (Some c)
  then obtain n w m v where "a' = BitVecConst n w" "b' = BitVecConst m v"
    by (cases a'; cases b') (simp_all add: eval_bv_binary_const_def)
  then have "eval_literal a'" "eval_literal b'"
    using assms sorted_literal by blast+
  then show ?thesis
    using eval_bv_sound [OF Some _ _ assms(3)] assms literal_of by (simp add: fold_bv_def Some)
qed

lemma sorted_scalar: "is_scalar_constant a \<Longrightarrow> sorted_at \<rho> a \<Longrightarrow> scalar_literal a"
  by (cases a) (simp_all add: scalar_literal_def)

lemma sorted_eq:
  assumes "keeps \<rho> a a'" "keeps \<rho> b b'" "sorted_at \<rho> (Eq a b)"
  shows "sorted_at \<rho> (Eq a' b')"
  using assms sorted_sides [OF assms(3)] by (simp add: well_sorted_children [of "Eq a' b'"] is_binder_def node_sorted_def)

lemma fold_eq_keeps:
  assumes "keeps \<rho> a a'" "keeps \<rho> b b'" "sorted_at \<rho> (Eq a b)"
  shows "keeps \<rho> (Eq a b) (fold_eq a' b')"
proof -
  have "val M \<rho> (Eq a b) = val M \<rho> (BoolConst (val M \<rho> a' = val M \<rho> b'))"
    using assms by (simp add: val_Eq)
  moreover have "val M \<rho> a' = val M \<rho> b' \<longleftrightarrow> a' = b'" if "is_scalar_constant a'" "is_scalar_constant b'"
    using literal_inj [of a' b' \<rho>] sorted_scalar that assms by blast
  ultimately show ?thesis
    using sorted_eq [OF assms] by (simp add: fold_eq_def val_Eq)
qed

text \<open>The members that stay decide a connective.\<close>

lemma undecided_sound:
  assumes "\<And>e. e \<in> set es \<Longrightarrow> sorted_at \<rho> e"
  shows "case undecided d es of
      None \<Rightarrow> \<exists>e \<in> set es. holds M \<rho> e = d
    | Some rs \<Rightarrow> set rs \<subseteq> set es \<and> (\<forall>e \<in> set es - set rs. holds M \<rho> e \<noteq> d)"
  using assms
proof (induction es)
  case (Cons e es)
  have sorted: "sorted_at \<rho> e" "\<And>e. e \<in> set es \<Longrightarrow> sorted_at \<rho> e"
    using Cons.prems by simp_all
  note dec = decide_sound(2) [of e _ \<rho>, OF _ sorted(1)]
  show ?case
    using Cons.IH [OF sorted(2)] dec by (cases "decide e"; cases "undecided d es") (auto split: if_splits)
qed simp

lemma fold_and_value:
  assumes "\<And>e. e \<in> set es \<Longrightarrow> sorted_at \<rho> e \<and> val M \<rho> e = val M \<rho> (BoolConst (holds M \<rho> e))"
  shows "val M \<rho> (fold_and es) = val M \<rho> (BoolConst (\<forall>e \<in> set es. holds M \<rho> e)) \<and> sorted_at \<rho> (fold_and es)"
proof (cases "undecided False es")
  case None
  then have "\<exists>e \<in> set es. \<not> holds M \<rho> e"
    using undecided_sound [of es \<rho> False] assms by simp
  then have "\<not> (\<forall>e \<in> set es. holds M \<rho> e)"
    by blast
  then show ?thesis
    by (simp only: fold_and_def None option.case well_sorted_simps)
next
  case (Some rs)
  then have rs: "set rs \<subseteq> set es" "\<forall>e \<in> set es - set rs. holds M \<rho> e"
    using undecided_sound [of es \<rho> False] assms by simp_all
  then have all: "(\<forall>e \<in> set es. holds M \<rho> e) \<longleftrightarrow> (\<forall>e \<in> set rs. holds M \<rho> e)"
    by blast
  have members: "\<forall>e \<in> set rs. sorted_at \<rho> e \<and> val M \<rho> e = val M \<rho> (BoolConst (holds M \<rho> e))"
    using assms rs(1) by blast
  consider "rs = []" | e where "rs = [e]" | "fold_and es = And rs"
    by (cases rs rule: list.exhaust [case_product list.exhaust [of "tl rs"]]) (auto simp: fold_and_def Some split: list.splits)
  then show ?thesis
  proof cases
    case 3
    then show ?thesis
      using members by (simp add: all val_And sorted_members)
  qed (use all members in \<open>simp_all add: fold_and_def Some\<close>)
qed

lemma fold_or_value:
  assumes "\<And>e. e \<in> set es \<Longrightarrow> sorted_at \<rho> e \<and> val M \<rho> e = val M \<rho> (BoolConst (holds M \<rho> e))"
  shows "val M \<rho> (fold_or es) = val M \<rho> (BoolConst (\<exists>e \<in> set es. holds M \<rho> e)) \<and> sorted_at \<rho> (fold_or es)"
proof (cases "undecided True es")
  case None
  then have "\<exists>e \<in> set es. holds M \<rho> e"
    using undecided_sound [of es \<rho> True] assms by simp
  then show ?thesis
    by (simp only: fold_or_def None option.case well_sorted_simps)
next
  case (Some rs)
  then have rs: "set rs \<subseteq> set es" "\<forall>e \<in> set es - set rs. \<not> holds M \<rho> e"
    using undecided_sound [of es \<rho> True] assms by simp_all
  then have some: "(\<exists>e \<in> set es. holds M \<rho> e) \<longleftrightarrow> (\<exists>e \<in> set rs. holds M \<rho> e)"
    by blast
  have members: "\<forall>e \<in> set rs. sorted_at \<rho> e \<and> val M \<rho> e = val M \<rho> (BoolConst (holds M \<rho> e))"
    using assms rs(1) by blast
  consider "rs = []" | e where "rs = [e]" | "fold_or es = Or rs"
    by (cases rs rule: list.exhaust [case_product list.exhaust [of "tl rs"]]) (auto simp: fold_or_def Some split: list.splits)
  then show ?thesis
  proof cases
    case 3
    then show ?thesis
      using members by (simp add: some val_Or sorted_members)
  qed (use some members in \<open>simp_all add: fold_or_def Some\<close>)
qed

lemma holds_same: "val M \<rho> a = val M \<rho> b \<Longrightarrow> holds M \<rho> a = holds M \<rho> b"
  by (simp add: holds_def)

lemma fold_connectives_keep:
  assumes "\<And>e. e \<in> set es \<Longrightarrow> keeps \<rho> e (f e)"
  shows "sorted_at \<rho> (And es) \<Longrightarrow> keeps \<rho> (And es) (fold_and (map f es))"
    and "sorted_at \<rho> (Or es) \<Longrightarrow> keeps \<rho> (Or es) (fold_or (map f es))"
proof -
  have same: "holds M \<rho> (f e) = holds M \<rho> e" if "e \<in> set es" for e
    using assms [OF that] by (intro holds_same) simp
  have bools: "\<forall>e \<in> set es. val M \<rho> e = val M \<rho> (BoolConst (holds M \<rho> e)) \<Longrightarrow> e \<in> set (map f es) \<Longrightarrow>
      sorted_at \<rho> e \<and> val M \<rho> e = val M \<rho> (BoolConst (holds M \<rho> e))" for e
    using assms same by auto
  show "keeps \<rho> (And es) (fold_and (map f es))" if "sorted_at \<rho> (And es)"
    using fold_and_value [of "map f es" \<rho>, OF bools] that same by (simp add: sorted_members val_And)
  show "keeps \<rho> (Or es) (fold_or (map f es))" if "sorted_at \<rho> (Or es)"
    using fold_or_value [of "map f es" \<rho>, OF bools] that same by (simp add: sorted_members val_Or)
qed

lemma fold_ite_keeps:
  assumes "keeps \<rho> c c'" "keeps \<rho> a a'" "keeps \<rho> b b'"
  shows "keeps \<rho> (Ite c a b) (fold_ite c' a' b')"
proof -
  have c: "holds M \<rho> c' = holds M \<rho> c"
    using assms(1) by (intro holds_same) simp
  show ?thesis
  proof (cases "decide c'")
    case None
    then have "bool_of c' = None" "try_eval_to_bool c' = None"
      by (simp_all add: decide_def split: option.splits)
    then show ?thesis
      using assms c by (cases "a' = b'") (auto simp: fold_ite_def val_Ite sorted_nodes)
  next
    case (Some t)
    then have "bool_of c' = Some t \<or> bool_of c' = None \<and> try_eval_to_bool c' = Some t"
      by (simp add: decide_def split: option.splits)
    then have "fold_ite c' a' b' = (if t then a' else b') \<or> a' = b' \<and> fold_ite c' a' b' = a'"
      unfolding fold_ite_def by (elim disjE conjE) (simp_all add: bool_of_def)
    moreover have "val M \<rho> (Ite c a b) = (if t then val M \<rho> a' else val M \<rho> b')"
      using decide_sound(2) [OF Some, of \<rho>] assms c by (simp add: val_Ite)
    ultimately show ?thesis
      using assms by (elim disjE conjE) (cases t; simp)+
  qed
qed

lemma fold_select_keeps:
  assumes "keeps \<rho> a a'" "keeps \<rho> i i'" "sorted_at \<rho> (Select a i)"
  shows "keeps \<rho> (Select a i) (fold_select B a i a' i')"
proof (cases "sort_of B a' \<noteq> sort_of B a \<or> sort_of B i' \<noteq> sort_of B i")
  case True
  then have "fold_select B a i a' i' = Select a i"
    unfolding fold_select_def by (rule if_P)
  with assms(3) show ?thesis
    by simp
next
  case False
  have index: "is_scalar S (val M \<rho> i)"
    using assms(3) by (simp add: sorted_nodes)
  have read: "val M \<rho> (Select a' i') = val M \<rho> (Select a i)"
    using assms by (intro node_values) simp_all
  consider s v where "a' = ConstArray s v" | v where "const_array_of a' = None" "eval_select_store_const a' i' = Some v"
    | "const_array_of a' = None" "eval_select_store_const a' i' = None"
    by (cases "const_array_of a'"; cases "eval_select_store_const a' i'"; cases a') simp_all
  then show ?thesis
  proof cases
    case 1
    then have "fold_select B a i a' i' = v"
      using False by (simp add: fold_select_def)
    then show ?thesis
      using read select_const [of \<rho> s v i'] assms(1) 1 by (simp add: sorted_nodes)
  next
    case 2
    then have "fold_select B a i a' i' = v"
      using False by (simp add: fold_select_def)
    then show ?thesis
      using eval_select_sound [OF 2(2), of \<rho>] assms read index by simp
  next
    case 3
    then have "fold_select B a i a' i' = Select a' i'"
      using False by (simp add: fold_select_def)
    then show ?thesis
      using assms read index by (simp add: sorted_nodes)
  qed
qed

lemma fold_store_cases:
  obtains "const_array_of a' = Some v'" "fold_store B v a' i' v' = a'"
    | "v' = Select a' i'" "fold_store B v a' i' v' = a'"
    | "fold_store B v a' i' v' = Store a' i' v"
    | a2 v2 where "a' = Store a2 i' v2" "fold_store B v a' i' v' = Store a2 i' v'"
    | "fold_store B v a' i' v' = Store a' i' v'"
proof -
  let ?last = "case a' of Store a2 i2 v2 \<Rightarrow> if i2 = i' then Store a2 i' v' else Store a' i' v' | _ \<Rightarrow> Store a' i' v'"
  have last: "(\<exists>a2 v2. a' = Store a2 i' v2 \<and> ?last = Store a2 i' v') \<or> ?last = Store a' i' v'"
    by (cases a') simp_all
  show thesis
  proof (cases "const_array_of a' = Some v' \<or> v' = Select a' i'")
    case True
    then show thesis
      using that(1,2) by (auto simp: fold_store_def)
  next
    case False
    then consider "fold_store B v a' i' v' = Store a' i' v" | "fold_store B v a' i' v' = ?last"
      unfolding fold_store_def by presburger
    then show thesis
      using that(3-5) last by (cases) auto
  qed
qed

lemma fold_store_keeps:
  assumes "keeps \<rho> a a'" "keeps \<rho> i i'" "keeps \<rho> v v'" "sorted_at \<rho> (Store a i v)"
  shows "keeps \<rho> (Store a i v) (fold_store B v a' i' v')"
proof -
  have sorts: "is_scalar S (val M \<rho> i')" "is_array S (val M \<rho> a')" "sorted_at \<rho> v"
    using assms by (simp_all add: sorted_nodes)
  have written: "val M \<rho> (Store a' i' v') = val M \<rho> (Store a i v)" "val M \<rho> (Store a' i' v) = val M \<rho> (Store a i v)"
    using assms by (auto intro!: node_values)
  show ?thesis
  proof (cases rule: fold_store_cases [of a' v' v i'])
    case 1
    then have "val M \<rho> v' = val M \<rho> (Select a' i')"
      by (cases a') (simp_all add: select_const)
    then show ?thesis
      using store_current [OF sorts(2)] written assms(1) 1 by simp
  next
    case 2
    then show ?thesis
      using store_current [OF sorts(2), of v' i'] written assms(1) by simp
  next
    case 3
    then show ?thesis
      using written sorts assms by (simp add: sorted_nodes)
  next
    case (4 a2 v2)
    then show ?thesis
      using written store_twice [of \<rho> i' i' a2 v2 v'] assms by (simp add: sorted_nodes)
  next
    case 5
    then show ?thesis
      using written sorts assms by (simp add: sorted_nodes)
  qed
qed

lemma adjust_args_keep:
  assumes "\<And>a. a \<in> set as \<Longrightarrow> keeps \<rho> a (f a)" "\<And>a. a \<in> set as \<Longrightarrow> sorted_at \<rho> a" "length fs = length as"
  shows "same_values \<rho> as (adjust_args B fs as (map f as)) \<and> (\<forall>a \<in> set (adjust_args B fs as (map f as)). sorted_at \<rho> a)"
  using assms
proof (induction as arbitrary: fs)
  case (Cons a as)
  then obtain g s gs where fs: "fs = (g, s) # gs" "length gs = length as"
    by (cases fs) auto
  have "adjust_args B fs (a # as) (map f (a # as)) =
      (if sort_of B (f a) = s then f a else a) # adjust_args B gs as (map f as)"
    by (simp add: adjust_args_def fs(1))
  then show ?case
    using Cons.IH [OF _ _ fs(2)] Cons.prems(1,2) by simp
qed (simp add: adjust_args_def)

lemma fold_dt_constructor_keeps:
  assumes "\<And>a. a \<in> set as \<Longrightarrow> keeps \<rho> a (f a)" "sorted_at \<rho> (DatatypeConstructor d c as s)"
  shows "keeps \<rho> (DatatypeConstructor d c as s) (fold_dt_constructor B d c as s (map f as))"
proof (cases "\<exists>fs. fields_of B s c = Some fs \<and> length fs = length as")
  case True
  then obtain fs where fs: "fields_of B s c = Some fs" "length fs = length as"
    by blast
  have adj: "same_values \<rho> as (adjust_args B fs as (map f as)) \<and> (\<forall>a \<in> set (adjust_args B fs as (map f as)). sorted_at \<rho> a)"
    using assms fs(2) by (intro adjust_args_keep) (simp_all add: sorted_nodes)
  then show ?thesis
    using node_values(8) fs by (simp add: fold_dt_constructor_def sorted_nodes)
next
  case False
  then have "fold_dt_constructor B d c as s (map f as) = DatatypeConstructor d c as s"
    by (auto simp: fold_dt_constructor_def split: option.split)
  with assms(2) show ?thesis
    by simp
qed

lemma constructed_field_Some:
  assumes "constructed_field B f e = Some v"
  obtains d c as s fs k where "e = DatatypeConstructor d c as s" "fields_of B s c = Some fs" "position f (map fst fs) = Some k"
    "k < length as" "v = as ! k"
  using assms by (cases e) (auto simp: constructed_field_def bind_eq_Some_conv split: if_splits)

lemma fold_dt_selector_keeps:
  assumes "keeps \<rho> a a'" "sorted_at \<rho> (DatatypeSelector d f a s)"
  shows "keeps \<rho> (DatatypeSelector d f a s) (fold_dt_selector B (DatatypeSelector d f a s) d f s a')"
proof -
  have read: "val M \<rho> (DatatypeSelector d f a' s) = val M \<rho> (DatatypeSelector d f a s)"
    using assms(1) by (intro node_values) simp
  show ?thesis
  proof (cases "constructed_field B f a'")
    case None
    then show ?thesis
      using read assms by (simp add: fold_dt_selector_def sorted_nodes)
  next
    case (Some v)
    from constructed_field_Some [OF this] obtain d' c as s' fs k where k: "a' = DatatypeConstructor d' c as s'"
        "fields_of B s' c = Some fs" "position f (map fst fs) = Some k" "k < length as" "v = as ! k"
      by metis
    have "sorted_at \<rho> v"
      using assms(1) nth_mem [OF k(4)] by (simp add: k(1,5) sorted_nodes)
    then show ?thesis
      using read field_value [OF k(2,3,4), of \<rho> d d' s] Some by (simp add: fold_dt_selector_def k(1,5))
  qed
qed

lemma sorted_constant:
  assumes "is_constant c" "sorted_at \<rho> c"
  shows "sorted_at \<sigma> c"
  using assms
proof (induction c rule: is_constant.induct)
  case (2 a i v)
  have "val M \<sigma> i = val M \<rho> i" "val M \<sigma> a = val M \<rho> a"
    using 2(4) by (auto intro!: val_cong simp: constant_closed)
  with 2 show ?case
    by (simp add: sorted_nodes)
qed (simp_all add: sorted_nodes)

lemma val_constant: "is_constant c \<Longrightarrow> val M \<sigma> c = val M \<rho> c"
  by (rule val_cong) (simp add: constant_closed)

lemma stands_for_bound:
  assumes "stands_for M S \<rho> known" "\<And>x. x \<notin> fst ` set xs \<Longrightarrow> \<sigma> x = \<rho> x"
  shows "stands_for M S \<sigma> (filter_bound_vars known xs)"
  using assms sorted_constant [of _ \<rho> \<sigma>] val_constant [of _ \<sigma> \<rho>] by (simp add: stands_for_def get_filter_bound)

lemma unary_values:
  "val M \<rho> a' = val M \<rho> a \<Longrightarrow> val M \<rho> (ConstArray s a') = val M \<rho> (ConstArray s a)"
  "val M \<rho> a' = val M \<rho> a \<Longrightarrow> val M \<rho> (BvNot a') = val M \<rho> (BvNot a)"
  "val M \<rho> a' = val M \<rho> a \<Longrightarrow> val M \<rho> (BvNeg a') = val M \<rho> (BvNeg a)"
  "val M \<rho> a' = val M \<rho> a \<Longrightarrow> val M \<rho> (BvZeroExtend a' n) = val M \<rho> (BvZeroExtend a n)"
  "val M \<rho> a' = val M \<rho> a \<Longrightarrow> val M \<rho> (BvSignExtend a' n) = val M \<rho> (BvSignExtend a n)"
  "same_values \<rho> es es' \<Longrightarrow> val M \<rho> (FuncApp f es' s) = val M \<rho> (FuncApp f es s)"
  using val_node [of "ConstArray s a" \<rho> "[a']"] val_node [of "BvNot a" \<rho> "[a']"] val_node [of "BvNeg a" \<rho> "[a']"]
    val_node [of "BvZeroExtend a n" \<rho> "[a']"] val_node [of "BvSignExtend a n" \<rho> "[a']"] val_node [of "FuncApp f es s" \<rho> es']
  by (simp_all add: is_binder_def)

lemma sorted_extend:
  "keeps \<rho> a a' \<Longrightarrow> sorted_at \<rho> (BvZeroExtend a n) \<Longrightarrow> sorted_at \<rho> (BvZeroExtend a' n)"
  "keeps \<rho> a a' \<Longrightarrow> sorted_at \<rho> (BvSignExtend a n) \<Longrightarrow> sorted_at \<rho> (BvSignExtend a' n)"
  by (simp_all add: well_sorted_children is_binder_def node_sorted_def)

lemma sorted_quantifier:
  "sorted_at \<rho> (Forall xs b ts) \<longleftrightarrow> (\<forall>\<sigma>. fits M \<sigma> \<longrightarrow> (\<forall>x. x \<notin> fst ` set xs \<longrightarrow> \<sigma> x = \<rho> x) \<longrightarrow> sorted_at \<sigma> b)"
  "sorted_at \<rho> (Exists xs b ts) \<longleftrightarrow> (\<forall>\<sigma>. fits M \<sigma> \<longrightarrow> (\<forall>x. x \<notin> fst ` set xs \<longrightarrow> \<sigma> x = \<rho> x) \<longrightarrow> sorted_at \<sigma> b)"
  by (simp_all add: well_sorted_at.simps [of M S \<rho> "Forall xs b ts"] well_sorted_at.simps [of M S \<rho> "Exists xs b ts"] node_sorted_def)

lemma substitute_inner_keeps:
  assumes "stands_for M S \<rho> known" "sorted_at \<rho> e"
  shows "keeps \<rho> e (substitute_vars_inner B known e)"
  using assms
proof (induction e arbitrary: known \<rho> rule: measure_induct_rule [of size])
  case (less e)
  let ?f = "substitute_vars_inner B known"
  note step = substitute_vars_inner.simps [of B known e]
  have child: "keeps \<rho> a (?f a)" if "a \<in> set (children e)" "sorted_at \<rho> a" for a
    using less.IH [OF size_children [OF that(1)] less.prems(1) that(2)] .
  have same: "same_values \<rho> es (map ?f es)" if "\<forall>a \<in> set es. keeps \<rho> a (?f a)" for es
    using that by (simp add: list_all2_map2 list.rel_refl_strong)
  note sorted = less.prems(2)
  show ?case
  proof (cases e)
    case (Var x s)
    then show ?thesis
      using step less.prems by (cases "bt_get known x") (auto simp: stands_for_def val_Var)
  next
    case (NotE a)
    then show ?thesis
      using step child sorted by (simp add: fold_not_keeps sorted_nodes)
  next
    case (BvExtract a hi lo)
    then show ?thesis
      using step child sorted by (simp add: fold_extract_keeps sorted_nodes)
  next
    case (Bv op a b)
    then show ?thesis
      using step child sorted sorted_operands(1) [of \<rho> op a b] by (simp add: fold_bv_keeps)
  next
    case (Eq a b)
    then show ?thesis
      using step child sorted sorted_operands(2) [of \<rho> a b] by (simp add: fold_eq_keeps)
  next
    case (And es)
    then show ?thesis
      using step child sorted fold_connectives_keep(1) [of es \<rho> ?f] by (simp add: sorted_members)
  next
    case (Or es)
    then show ?thesis
      using step child sorted fold_connectives_keep(2) [of es \<rho> ?f] by (simp add: sorted_members)
  next
    case (Ite c a b)
    then show ?thesis
      using step child sorted by (simp add: fold_ite_keeps sorted_nodes)
  next
    case (Select a i)
    then show ?thesis
      using step child sorted by (simp add: fold_select_keeps sorted_nodes)
  next
    case (Store a i v)
    then show ?thesis
      using step child sorted by (simp add: fold_store_keeps sorted_nodes)
  next
    case (DatatypeConstructor d c as s)
    then show ?thesis
      using step child sorted fold_dt_constructor_keeps [of as \<rho> ?f d c s] by (simp add: sorted_nodes)
  next
    case (DatatypeSelector d f a s)
    then show ?thesis
      using step child sorted fold_dt_selector_keeps [of \<rho> "?f a" a d f s] by (simp add: sorted_nodes)
  next
    case (DatatypeTester d c a)
    then show ?thesis
      using step child sorted node_values(7) [of \<rho> "?f a" a d c] by (simp add: sorted_nodes Let_def)
  next
    case (OtherOp f es s)
    then have "\<forall>a \<in> set es. keeps \<rho> a (?f a)"
      using child sorted by (simp add: sorted_nodes)
    then show ?thesis
      using OtherOp step sorted node_values(9) [OF same] by (simp add: sorted_nodes)
  next
    case (FuncApp f es s)
    then have "\<forall>a \<in> set es. keeps \<rho> a (?f a)"
      using child sorted by (simp add: sorted_nodes)
    then show ?thesis
      using FuncApp step sorted unary_values(6) [OF same] by (simp add: sorted_nodes)
  next
    case (Forall xs b ts)
    have body: "keeps \<sigma> b (substitute_vars_inner B (filter_bound_vars known xs) b)"
      if "fits M \<sigma>" "\<And>x. x \<notin> fst ` set xs \<Longrightarrow> \<sigma> x = \<rho> x" for \<sigma>
      using that sorted stands_for_bound [OF less.prems(1) that(2)] less.IH [of b \<sigma>] by (simp add: Forall sorted_quantifier)
    then show ?thesis
      using step val_binder [of xs \<rho> "substitute_vars_inner B (filter_bound_vars known xs) b" b] by (simp add: Forall sorted_quantifier Let_def)
  next
    case (Exists xs b ts)
    have body: "keeps \<sigma> b (substitute_vars_inner B (filter_bound_vars known xs) b)"
      if "fits M \<sigma>" "\<And>x. x \<notin> fst ` set xs \<Longrightarrow> \<sigma> x = \<rho> x" for \<sigma>
      using that sorted stands_for_bound [OF less.prems(1) that(2)] less.IH [of b \<sigma>] by (simp add: Exists sorted_quantifier)
    then show ?thesis
      using step val_binder [of xs \<rho> "substitute_vars_inner B (filter_bound_vars known xs) b" b] by (simp add: Exists sorted_quantifier Let_def)
  next
    case (ConstArray s a)
    then show ?thesis
      using step child sorted unary_values(1) [of \<rho> "?f a" a s] by (simp add: sorted_nodes)
  next
    case (BvNot a)
    then show ?thesis
      using step child sorted unary_values(2) [of \<rho> "?f a" a] by (simp add: sorted_nodes)
  next
    case (BvNeg a)
    then show ?thesis
      using step child sorted unary_values(3) [of \<rho> "?f a" a] by (simp add: sorted_nodes)
  next
    case (BvZeroExtend a n)
    then show ?thesis
      using step child sorted sorted_operands(3) [of \<rho> a n] unary_values(4) [of \<rho> "?f a" a n] sorted_extend(1) [of \<rho> "?f a" a n] by simp
  next
    case (BvSignExtend a n)
    then show ?thesis
      using step child sorted sorted_operands(4) [of \<rho> a n] unary_values(5) [of \<rho> "?f a" a n] sorted_extend(2) [of \<rho> "?f a" a n] by simp
  qed (use step sorted in simp_all)
qed

lemma substitute_keeps: "stands_for M S \<rho> known \<Longrightarrow> sorted_at \<rho> e \<Longrightarrow> keeps \<rho> e (substitute_vars B known e)"
  using substitute_inner_keeps by (simp add: substitute_vars_def)

end

text \<open>Bindings for the reference interpretation: the sorts of leaves and arrays, one pair type.\<close>

fun ground_sort :: "Expr \<Rightarrow> Sort" where
  "ground_sort (Var x s) = s"
| "ground_sort (BoolConst t) = SBool"
| "ground_sort (BitVecConst n w) = SBitVec w"
| "ground_sort (IntConst i) = SInt"
| "ground_sort (RealConst r) = SReal"
| "ground_sort (Store a i v) = ground_sort a"
| "ground_sort (DatatypeConstructor d c es s) = s"
| "ground_sort (DatatypeSelector d f e s) = s"
| "ground_sort (FuncApp f es s) = s"
| "ground_sort (OtherOp f es s) = s"
| "ground_sort (Select a i) = (case ground_sort a of SArray k e \<Rightarrow> e | s \<Rightarrow> s)"
| "ground_sort (Bv op a b) = (if op \<in> set comparisons then SBool else ground_sort a)"
| "ground_sort (Ite c a b) = ground_sort a"
| "ground_sort _ = SBool"

definition ground_bindings :: bindings where
  "ground_bindings =
     \<lparr>sort_of = ground_sort,
      fields_of = (\<lambda>s c. if s = SDatatype ''Pair'' then Some [(''fld_0'', SBitVec 8), (''fld_1'', SBitVec 8)] else None),
      selects = (\<lambda>e d f s. ground_sort e = SDatatype d),
      tests = (\<lambda>e d c. ground_sort e = SDatatype d),
      known_variant = (\<lambda>f. True)\<rparr>"

lemma position_nth: "position x xs = Some k \<Longrightarrow> k < length xs \<and> xs ! k = x"
  by (induction xs arbitrary: k) (auto split: if_splits)

lemma pair_fields:
  assumes "position f [''fld_0'', ''fld_1''] = Some k"
  shows "field_index f = Some k"
proof -
  have fields: "field_index ''fld_0'' = Some 0" "field_index ''fld_1'' = Some 1"
    by (simp_all add: field_index_def starts_with_def parse_usize_def digit_val_def)
  have k: "k < 2" "f = [''fld_0'', ''fld_1''] ! k"
    using position_nth [OF assms] by simp_all
  then consider "k = 0" | "k = 1"
    by linarith
  then show ?thesis
    using fields k(2) by cases (simp_all only: nth_Cons_0 One_nat_def nth_Cons_Suc)
qed

lemma ground_fields: "fields_of ground_bindings s c = Some fs \<Longrightarrow> map fst fs = [''fld_0'', ''fld_1'']"
  by (simp add: ground_bindings_def split: if_splits) auto

lemma ground_field_value:
  assumes "fields_of ground_bindings s c = Some fs" "position f (map fst fs) = Some k" "k < length args"
  shows "ground \<rho> (DatatypeSelector d f (DatatypeConstructor d' c args s) s') = ground \<rho> (args ! k)"
proof -
  have "field_index f = Some k"
    using assms(2) pair_fields unfolding ground_fields [OF assms(1)] by blast
  with assms(3) show ?thesis
    by (simp add: data_field_def)
qed

lemma ground_bound: "smt_terms (ground_in D) (sorts_by R) \<Longrightarrow> smt_bindings (ground_in D) (sorts_by R) ground_bindings"
  by (intro smt_bindings.intro smt_bindings_axioms.intro) (assumption, simp add: ground_bindings_def, simp only: ground_smt_sel ground_field_value)

interpretation ground: smt_bindings "ground_in D" ground_sorts ground_bindings for D
  by (rule ground_bound) (rule ground.smt_terms_axioms)

section \<open>Substitution keeps the meaning\<close>

text \<open>C17: Substitution is value-preserving: at every assignment at which the constants of the table are the values of
their variables and the term is well sorted, the term substitute_vars returns has the value of the original term and is
well sorted, whatever was folded on the way (connectives, comparisons, reads and writes of arrays, constructed data,
bit vectors) and under quantifiers, whose variables shadow the table.\<close>

theorem substitute_sound:
  assumes "smt_bindings M S B" "stands_for M S \<rho> known" "well_sorted_at M S \<rho> e"
  shows "val M \<rho> (substitute_vars B known e) = val M \<rho> e \<and> well_sorted_at M S \<rho> (substitute_vars B known e)"
  using smt_bindings.substitute_keeps [OF assms] .

definition shadowed :: Expr where
  "shadowed = And [
     Eq (Select (Store (Var ''a'' (SArray (SBitVec 8) (SBitVec 8))) (Var ''x'' (SBitVec 8)) (BitVecConst 5 8)) (BitVecConst 1 8))
       (BitVecConst 5 8),
     Exists [(''x'', SBitVec 8)] (Eq (Var ''x'' (SBitVec 8)) (BitVecConst 2 8)) []]"

definition one_known :: "(string, Expr) btree" where
  "one_known = [(''x'', BitVecConst 1 8)]"

definition known_values :: "string \<Rightarrow> SVal" where
  "known_values y = (if y = ''a'' then VArr (\<lambda>k. VB False) else if y = ''x'' then VBV 1 8 else VB False)"

lemma shadowed_sorted: "well_sorted_at ground_smt ground_sorts known_values shadowed"
  by (simp add: shadowed_def known_values_def ground.sorted_members well_sorted_children [of "Eq _ _"]
      ground.sorted_quantifier ground.sorted_nodes is_binder_def node_sorted_def bv_lit_def holds_def scalar_val_def array_val_def
      ground.simps [of _ "Exists _ _ _"])

lemma one_known_stands: "stands_for ground_smt ground_sorts known_values one_known"
  by (simp add: stands_for_def one_known_def known_values_def bv_lit_def)

lemma shadowed_substituted: "substitute_vars ground_bindings one_known shadowed =
    Exists [(''x'', SBitVec 8)] (Eq (Var ''x'' (SBitVec 8)) (BitVecConst 2 8)) []"
  by code_simp

theorem substitute_sound_witness:
  "ground known_values (Exists [(''x'', SBitVec 8)] (Eq (Var ''x'' (SBitVec 8)) (BitVecConst 2 8)) []) = ground known_values shadowed"
  using substitute_sound [OF ground.smt_bindings_axioms one_known_stands shadowed_sorted] shadowed_substituted by simp

end
