(* ===== verification/Chc_Equalities.thy ===== *)
theory Chc_Equalities
  imports Saturation Chc Chc_Subst
begin

text \<open>
  What the constraints of a rule say about its variables: propagate_through_equalities of
  trust-mc-core/src/chc_const_prop.rs, flatten_conjunctions of chc_const_prop_eval.rs and the resolution of reads through
  stores of chc_const_prop_array.rs.  The table of known constants grows until a pass enters nothing; every entry is the
  value of its variable at every assignment at which the constraints hold.
\<close>

section \<open>Equations between variables and terms\<close>

function flatten_and :: "Expr \<Rightarrow> Expr list" where
  "flatten_and e = (case e of And es \<Rightarrow> concat (map flatten_and es) | _ \<Rightarrow> [e])"
  by pat_completeness auto
termination
  by (relation "measure size") (auto intro: size_member)

declare flatten_and.simps [simp del]

definition flatten_conjunctions :: "Expr list \<Rightarrow> Expr list" where
  "flatten_conjunctions cs = concat (map flatten_and cs)"

definition learn :: "string \<Rightarrow> Expr option \<Rightarrow> (string, Expr) btree \<Rightarrow> (string, Expr) btree" where
  "learn x c known =
     (case (bt_get known x, c) of (None, Some c) \<Rightarrow> bt_insert x c known | _ \<Rightarrow> known)"

text \<open>The constant a side of an equation amounts to under what is known.\<close>

definition side_constant :: "bindings \<Rightarrow> (string, Expr) btree \<Rightarrow> Expr \<Rightarrow> Expr option" where
  "side_constant B known e =
     (if is_constant e then Some e
      else (let e' = substitute_vars B known e in if is_constant e' then Some e' else try_eval_to_const e'))"

definition equality_step :: "bindings \<Rightarrow> Expr \<Rightarrow> (string, Expr) btree \<Rightarrow> (string, Expr) btree" where
  "equality_step B e known =
     (case e of
        Eq l r \<Rightarrow>
          (case (var_of l, var_of r) of
             (Some a, Some b) \<Rightarrow>
               (case bt_get known b of
                  Some c \<Rightarrow> learn a (Some c) known
                | None \<Rightarrow> learn b (bt_get known a) known)
           | (Some x, None) \<Rightarrow> learn x (side_constant B known r) known
           | (None, Some x) \<Rightarrow> learn x (side_constant B known l) known
           | (None, None) \<Rightarrow> known)
      | _ \<Rightarrow> known)"

definition equality_pass :: "bindings \<Rightarrow> Expr list \<Rightarrow> (string, Expr) btree \<Rightarrow> (string, Expr) btree" where
  "equality_pass B flat known = fold (equality_step B) flat known"

definition resolve_equalities :: "bindings \<Rightarrow> Expr list \<Rightarrow> (string, Expr) btree \<Rightarrow> (string, Expr) btree" where
  "resolve_equalities B flat known = saturate (Suc (2 * length flat)) (equality_pass B flat) known"

section \<open>Arrays that are stored to\<close>

definition is_store :: "Expr \<Rightarrow> bool" where
  "is_store e \<longleftrightarrow> (case e of Store a i v \<Rightarrow> True | _ \<Rightarrow> False)"

definition store_side :: "bindings \<Rightarrow> (string, Expr) btree \<Rightarrow> Expr \<Rightarrow> Expr \<Rightarrow> (string, Expr) btree \<Rightarrow> (string, Expr) btree" where
  "store_side B known v e stores =
     (case var_of v of
        Some x \<Rightarrow> (let e' = substitute_vars B known e in if is_store e' then bt_insert x e' stores else stores)
      | None \<Rightarrow> stores)"

definition store_step :: "bindings \<Rightarrow> (string, Expr) btree \<Rightarrow> Expr \<Rightarrow> (string, Expr) btree \<Rightarrow> (string, Expr) btree" where
  "store_step B known e stores =
     (case e of Eq l r \<Rightarrow> store_side B known r l (store_side B known l r stores) | _ \<Rightarrow> stores)"

definition array_alias :: "bindings \<Rightarrow> Expr \<Rightarrow> (string \<times> string) option" where
  "array_alias B e =
     (case e of
        Eq l r \<Rightarrow>
          (case (var_of l, var_of r) of
             (Some a, Some b) \<Rightarrow> if element_sort (sort_of B l) \<noteq> None \<and> sort_of B l = sort_of B r then Some (a, b) else None
           | _ \<Rightarrow> None)
      | _ \<Rightarrow> None)"

definition alias_step :: "string \<times> string \<Rightarrow> (string, Expr) btree \<Rightarrow> (string, Expr) btree" where
  "alias_step = (\<lambda>(a, b) stores.
     case (bt_get stores a, bt_get stores b) of
       (Some st, None) \<Rightarrow> bt_insert b st stores
     | (None, Some st) \<Rightarrow> bt_insert a st stores
     | _ \<Rightarrow> stores)"

definition propagate_store_aliases :: "(string \<times> string) list \<Rightarrow> (string, Expr) btree \<Rightarrow> (string, Expr) btree" where
  "propagate_store_aliases aliases stores = saturate (Suc (2 * length aliases)) (fold alias_step aliases) stores"

definition array_stores :: "bindings \<Rightarrow> Expr list \<Rightarrow> (string, Expr) btree \<Rightarrow> (string, Expr) btree" where
  "array_stores B flat known = fold (store_step B known) flat []"

text \<open>Variables in the place of a stored array are replaced by their store, to a depth.\<close>

fun expand_array_stores_bounded ::
    "bindings \<Rightarrow> (string, Expr) btree \<Rightarrow> (string, Expr) btree \<Rightarrow> nat \<Rightarrow> Expr \<Rightarrow> Expr" where
  "expand_array_stores_bounded B stores known 0 e = e"
| "expand_array_stores_bounded B stores known (Suc depth) e =
     (case e of
        Store a i v \<Rightarrow>
          (let inner = (case var_of a of
               Some x \<Rightarrow> (case bt_get stores x of Some st \<Rightarrow> substitute_vars B known st | None \<Rightarrow> a)
             | None \<Rightarrow> a)
           in Store (expand_array_stores_bounded B stores known depth inner) i v)
      | _ \<Rightarrow> e)"

definition expand_array_stores :: "bindings \<Rightarrow> (string, Expr) btree \<Rightarrow> (string, Expr) btree \<Rightarrow> Expr \<Rightarrow> Expr" where
  "expand_array_stores B stores known e = expand_array_stores_bounded B stores known 8 e"

definition resolve_select_from_store ::
    "bindings \<Rightarrow> (string, Expr) btree \<Rightarrow> (string, Expr) btree \<Rightarrow> Expr \<Rightarrow> Expr \<Rightarrow> (string \<times> Expr) option" where
  "resolve_select_from_store B stores known v e =
     (case var_of v of
        None \<Rightarrow> None
      | Some x \<Rightarrow>
          if bt_get known x \<noteq> None then None
          else (case substitute_vars B known e of
              Select a i \<Rightarrow> do {
                arr \<leftarrow> var_of a;
                st \<leftarrow> bt_get stores arr;
                c \<leftarrow> eval_select_store_const (expand_array_stores B stores known (substitute_vars B known st)) i;
                if is_constant c then Some (x, c) else None }
            | _ \<Rightarrow> None))"

definition select_step :: "bindings \<Rightarrow> (string, Expr) btree \<Rightarrow> Expr \<Rightarrow> (string, Expr) btree \<Rightarrow> (string, Expr) btree" where
  "select_step B stores e known =
     (case e of
        Eq l r \<Rightarrow>
          (case or_else (resolve_select_from_store B stores known l r) (resolve_select_from_store B stores known r l) of
             Some (x, c) \<Rightarrow> bt_insert x c known
           | None \<Rightarrow> known)
      | _ \<Rightarrow> known)"

definition resolve_array_store_selects :: "bindings \<Rightarrow> Expr list \<Rightarrow> (string, Expr) btree \<Rightarrow> (string, Expr) btree" where
  "resolve_array_store_selects B flat known =
     (let stores = array_stores B flat known in
      if stores = [] then known
      else (let stores' = propagate_store_aliases (List.map_filter (array_alias B) flat) stores
            in saturate (Suc (2 * length flat)) (fold (select_step B stores') flat) known))"

definition propagate_through_equalities :: "bindings \<Rightarrow> Expr list \<Rightarrow> (string, Expr) btree \<Rightarrow> (string, Expr) btree" where
  "propagate_through_equalities B cs known =
     (let flat = flatten_conjunctions cs in resolve_array_store_selects B flat (resolve_equalities B flat known))"

section \<open>The loops end where nothing more is learned\<close>

text \<open>The names on the sides of the equations.\<close>

definition sides :: "Expr \<Rightarrow> string list" where
  "sides e = (case e of Eq l r \<Rightarrow> List.map_filter var_of [l, r] | _ \<Rightarrow> [])"

definition side_names :: "Expr list \<Rightarrow> string list" where
  "side_names flat = concat (map sides flat)"

lemma length_sides: "length (sides e) \<le> 2"
  by (cases e) (simp_all add: sides_def List.map_filter_def)

lemma side_names_length: "length (side_names flat) \<le> 2 * length flat"
proof (induction flat)
  case (Cons e flat)
  then show ?case
    using length_sides [of e] by (simp add: side_names_def)
qed (simp add: side_names_def)

lemma side_namesI:
  assumes "Eq l r \<in> set flat" "var_of l = Some x \<or> var_of r = Some x"
  shows "x \<in> set (side_names flat)"
proof -
  have "x \<in> set (sides (Eq l r))"
    using assms(2) by (auto simp: sides_def List.map_filter_def)
  with assms(1) show ?thesis
    unfolding side_names_def by force
qed

text \<open>A step that enters at most one new key of a set: passes of such steps are learning.\<close>

definition enters :: "'k::linorder set \<Rightarrow> ('k, 'v) btree \<Rightarrow> ('k, 'v) btree \<Rightarrow> bool" where
  "enters K m m' \<longleftrightarrow> m' = m \<or> (\<exists>k v. k \<in> K \<and> bt_get m k = None \<and> m' = bt_insert k v m)"

lemma entersD:
  assumes "enters K m m'"
  shows "fst ` set m \<subseteq> fst ` set m' \<and> (m' = m \<or> (\<exists>k \<in> K. k \<in> fst ` set m' \<and> k \<notin> fst ` set m))"
proof -
  consider "m' = m" | k v where "k \<in> K" "bt_get m k = None" "m' = bt_insert k v m"
    using assms unfolding enters_def by blast
  then show ?thesis
  proof cases
    case 2
    then have "fst ` set m' = insert k (fst ` set m)" "k \<notin> fst ` set m"
      by (simp_all add: map_of_eq_None_iff)
    with \<open>k \<in> K\<close> show ?thesis
      by blast
  qed simp
qed

lemma fold_enters:
  assumes "\<And>e m. e \<in> set es \<Longrightarrow> enters K m (step e m)"
  shows "fst ` set m \<subseteq> fst ` set (fold step es m) \<and>
    (fold step es m = m \<or> (\<exists>k \<in> K. k \<in> fst ` set (fold step es m) \<and> k \<notin> fst ` set m))"
  using assms
proof (induction es arbitrary: m)
  case (Cons e es)
  have "enters K m (step e m)"
    by (rule Cons.prems) simp
  note first = entersD [OF this]
  have rest: "fst ` set (step e m) \<subseteq> fst ` set (fold step es (step e m)) \<and>
    (fold step es (step e m) = step e m \<or> (\<exists>k \<in> K. k \<in> fst ` set (fold step es (step e m)) \<and> k \<notin> fst ` set (step e m)))"
    by (rule Cons.IH) (simp add: Cons.prems)
  show ?case
  proof (cases "fold step es (step e m) = step e m")
    case True
    with first show ?thesis
      by simp
  next
    case False
    with rest obtain k where "k \<in> K" "k \<in> fst ` set (fold step es (step e m))" "k \<notin> fst ` set (step e m)"
      by blast
    moreover have "fst ` set m \<subseteq> fst ` set (step e m)" "fst ` set (step e m) \<subseteq> fst ` set (fold step es (step e m))"
      using first rest by blast+
    ultimately show ?thesis
      unfolding fold.simps o_apply by blast
  qed
qed simp

lemma learn_enters: "x \<in> K \<Longrightarrow> enters K m (learn x c m)"
  by (auto simp: learn_def enters_def split: option.splits)

lemma equality_step_enters:
  assumes "e \<in> set flat"
  shows "enters (set (side_names flat)) m (equality_step B e m)"
proof (cases e)
  case (Eq l r)
  note side = side_namesI [OF assms [unfolded Eq]]
  have "equality_step B e m = m \<or> (\<exists>x c. (var_of l = Some x \<or> var_of r = Some x) \<and> equality_step B e m = learn x c m)"
    unfolding Eq equality_step_def by (cases "var_of l"; cases "var_of r") (auto split: option.split)
  then show ?thesis
  proof (elim disjE exE conjE)
    show ?thesis if "equality_step B e m = m"
      using that by (simp add: enters_def)
  qed (use side learn_enters in simp_all)
qed (simp_all add: equality_step_def enters_def)

interpretation equalities: learning "equality_pass B flat" "set (side_names flat)" for B flat
  using fold_enters [of flat "set (side_names flat)" "equality_step B", OF equality_step_enters]
  by unfold_locales (auto simp: equality_pass_def)

lemma resolve_equalities_fixed: "equality_pass B flat (resolve_equalities B flat known) = resolve_equalities B flat known"
  unfolding resolve_equalities_def
proof (rule equalities.saturate_fixed)
  have "card (set (side_names flat) - fst ` set known) \<le> card (set (side_names flat))"
    by (intro card_mono) auto
  also have "\<dots> \<le> 2 * length flat"
    using card_length [of "side_names flat"] side_names_length [of flat] by linarith
  finally show "card (set (side_names flat) - fst ` set known) < Suc (2 * length flat)"
    by simp
qed

lemma alias_step_enters: "p \<in> set aliases \<Longrightarrow> enters (fst ` set aliases \<union> snd ` set aliases) m (alias_step p m)"
  by (cases p) (force simp: alias_step_def enters_def split: option.splits)

interpretation aliases: learning "fold alias_step aliases" "fst ` set aliases \<union> snd ` set aliases" for aliases :: "(string \<times> string) list"
  using fold_enters [of aliases "fst ` set aliases \<union> snd ` set aliases" alias_step, OF alias_step_enters]
  by unfold_locales auto

lemma propagate_store_aliases_fixed:
  "fold alias_step aliases (propagate_store_aliases aliases stores) = propagate_store_aliases aliases stores"
  unfolding propagate_store_aliases_def
proof (rule aliases.saturate_fixed)
  have "card (fst ` set aliases \<union> snd ` set aliases - fst ` set stores) \<le> card (fst ` set aliases \<union> snd ` set aliases)"
    by (intro card_mono) auto
  also have "\<dots> \<le> card (fst ` set aliases) + card (snd ` set aliases)"
    by (rule card_Un_le)
  also have "\<dots> \<le> 2 * length aliases"
    using card_image_le [of "set aliases" fst] card_image_le [of "set aliases" snd] card_length [of aliases] by simp
  finally show "card (fst ` set aliases \<union> snd ` set aliases - fst ` set stores) < Suc (2 * length aliases)"
    by simp
qed

lemma resolve_select_new:
  assumes "resolve_select_from_store B stores known v e = Some (x, c)"
  shows "var_of v = Some x" "bt_get known x = None"
  using assms by (auto simp: resolve_select_from_store_def split: option.splits if_splits Expr.splits bind_splits)

lemma select_step_enters:
  assumes "e \<in> set flat"
  shows "enters (set (side_names flat)) m (select_step B stores e m)"
proof (cases e)
  case (Eq l r)
  note side = side_namesI [OF assms [unfolded Eq]]
  show ?thesis
  proof (cases "or_else (resolve_select_from_store B stores m l r) (resolve_select_from_store B stores m r l)")
    case None
    then show ?thesis
      by (simp add: select_step_def Eq enters_def)
  next
    case (Some xc)
    obtain x c where xc: "xc = (x, c)"
      by (cases xc)
    have "resolve_select_from_store B stores m l r = Some (x, c) \<or> resolve_select_from_store B stores m r l = Some (x, c)"
      using Some xc by (cases "resolve_select_from_store B stores m l r") simp_all
    then have "x \<in> set (side_names flat)" "bt_get m x = None"
      using side resolve_select_new by blast+
    then show ?thesis
      using Some xc by (auto simp: select_step_def Eq enters_def)
  qed
qed (simp_all add: select_step_def enters_def)

interpretation selects: learning "fold (select_step B stores) flat" "set (side_names flat)" for B stores flat
  using fold_enters [of flat "set (side_names flat)" "select_step B stores", OF select_step_enters]
  by unfold_locales auto

lemma resolve_array_selects_fixed:
  assumes "array_stores B flat known \<noteq> []"
  defines "stores \<equiv> propagate_store_aliases (List.map_filter (array_alias B) flat) (array_stores B flat known)"
  shows "fold (select_step B stores) flat (resolve_array_store_selects B flat known) = resolve_array_store_selects B flat known"
proof -
  have "card (set (side_names flat) - fst ` set known) \<le> card (set (side_names flat))"
    by (intro card_mono) auto
  also have "\<dots> \<le> 2 * length flat"
    using card_length [of "side_names flat"] side_names_length [of flat] by linarith
  finally have "card (set (side_names flat) - fst ` set known) < Suc (2 * length flat)"
    by simp
  from selects.saturate_fixed [OF this, of B stores] show ?thesis
    using assms by (simp add: resolve_array_store_selects_def Let_def)
qed

section \<open>What is learned is true\<close>

definition says :: "'v smt \<Rightarrow> 'v sorts \<Rightarrow> (string \<Rightarrow> 'v) \<Rightarrow> Expr list \<Rightarrow> bool" where
  "says M S \<rho> cs \<longleftrightarrow> (\<forall>c \<in> set cs. holds M \<rho> c \<and> well_sorted_at M S \<rho> c)"

definition stores_for :: "'v smt \<Rightarrow> 'v sorts \<Rightarrow> (string \<Rightarrow> 'v) \<Rightarrow> (string, Expr) btree \<Rightarrow> bool" where
  "stores_for M S \<rho> stores \<longleftrightarrow> (\<forall>x st. bt_get stores x = Some st \<longrightarrow> val M \<rho> st = \<rho> x \<and> well_sorted_at M S \<rho> st)"

lemma stores_for_insert: "stores_for M S \<rho> stores \<Longrightarrow> val M \<rho> st = \<rho> x \<Longrightarrow> well_sorted_at M S \<rho> st \<Longrightarrow> stores_for M S \<rho> (bt_insert x st stores)"
  by (simp add: stores_for_def)

lemma stands_for_insert:
  "stands_for M S \<rho> known \<Longrightarrow> is_constant c \<Longrightarrow> val M \<rho> c = \<rho> x \<Longrightarrow> well_sorted_at M S \<rho> c \<Longrightarrow> stands_for M S \<rho> (bt_insert x c known)"
  by (simp add: stands_for_def)

lemma fold_invariant_member: "P m \<Longrightarrow> (\<And>e m. e \<in> set es \<Longrightarrow> P m \<Longrightarrow> P (step e m)) \<Longrightarrow> P (fold step es m)"
  by (induction es arbitrary: m) auto

context smt_bindings
begin

abbreviation at_sides :: "(string \<Rightarrow> 'v) \<Rightarrow> Expr \<Rightarrow> Expr \<Rightarrow> bool" where
  "at_sides \<rho> l r \<equiv> val M \<rho> l = val M \<rho> r \<and> sorted_at \<rho> l \<and> sorted_at \<rho> r"

lemma says_flatten:
  assumes "holds M \<rho> e" "sorted_at \<rho> e"
  shows "says M S \<rho> (flatten_and e)"
  using assms
proof (induction e rule: flatten_and.induct)
  case (1 e)
  show ?case
  proof (cases e)
    case (And es)
    have "says M S \<rho> (flatten_and a)" if "a \<in> set es" for a
      using 1 that by (simp add: And holds_And sorted_members)
    then show ?thesis
      by (auto simp: And flatten_and.simps [of "And es"] says_def)
  qed (insert flatten_and.simps [of e] 1, simp_all add: says_def)
qed

lemma says_flatten_conjunctions: "says M S \<rho> cs \<Longrightarrow> says M S \<rho> (flatten_conjunctions cs)"
  using says_flatten by (auto simp: says_def flatten_conjunctions_def)

lemma says_Eq: "says M S \<rho> flat \<Longrightarrow> Eq l r \<in> set flat \<Longrightarrow> at_sides \<rho> l r"
  unfolding says_def using sorted_operands(2) holds_Eq by blast

lemma var_value: "var_of v = Some x \<Longrightarrow> val M \<rho> v = \<rho> x"
  by (auto simp: var_of_Some val_Var)

lemma literal_constant: "eval_literal c \<Longrightarrow> is_constant c"
  by (auto simp: eval_literal_def)

lemma side_constant_sound:
  assumes "stands_for M S \<rho> known" "sorted_at \<rho> e" "side_constant B known e = Some c"
  shows "is_constant c \<and> val M \<rho> c = val M \<rho> e \<and> sorted_at \<rho> c"
proof -
  let ?e = "substitute_vars B known e"
  note keeps = substitute_keeps [OF assms(1,2)]
  have "c = e \<and> is_constant e \<or> c = ?e \<and> is_constant ?e \<or> try_eval_to_const ?e = Some c"
    using assms(3) by (auto simp: side_constant_def Let_def split: if_splits)
  moreover have "is_constant c \<and> val M \<rho> c = val M \<rho> e \<and> sorted_at \<rho> c" if "try_eval_to_const ?e = Some c"
    using eval_sound [of \<rho> ?e] that keeps literal_of literal_constant by (auto simp: const_sound_def)
  ultimately show ?thesis
    using keeps assms(2) by blast
qed

lemma learn_sound:
  assumes "stands_for M S \<rho> known" "\<And>c. oc = Some c \<Longrightarrow> is_constant c \<and> val M \<rho> c = \<rho> x \<and> sorted_at \<rho> c"
  shows "stands_for M S \<rho> (learn x oc known)"
proof (cases "bt_get known x = None \<and> oc \<noteq> None")
  case True
  then obtain c where "oc = Some c" "learn x oc known = bt_insert x c known"
    by (auto simp: learn_def)
  then show ?thesis
    using assms by (simp add: stands_for_insert)
next
  case False
  then have "learn x oc known = known"
    by (auto simp: learn_def split: option.splits)
  with assms(1) show ?thesis
    by simp
qed

lemma equality_step_sound:
  assumes "says M S \<rho> flat" "e \<in> set flat" "stands_for M S \<rho> known"
  shows "stands_for M S \<rho> (equality_step B e known)"
proof (cases e)
  case (Eq l r)
  note at = says_Eq [OF assms(1) assms(2) [unfolded Eq]]
  note get = assms(3) [unfolded stands_for_def, rule_format]
  note const = side_constant_sound [OF assms(3)]
  show ?thesis
  proof (cases "var_of l")
    case None
    note l = None
    show ?thesis
    proof (cases "var_of r")
      case None
      with l assms(3) show ?thesis
        by (simp add: equality_step_def Eq)
    next
      case (Some x)
      then show ?thesis
        using const [of l] at var_value [OF Some, of \<rho>] assms(3) l
        by (auto simp: equality_step_def Eq intro!: learn_sound)
    qed
  next
    case (Some a)
    note l = Some
    show ?thesis
    proof (cases "var_of r")
      case None
      then show ?thesis
        using const [of r] at var_value [OF Some, of \<rho>] assms(3) l
        by (auto simp: equality_step_def Eq intro!: learn_sound)
    next
      case (Some b)
      have same: "\<rho> a = \<rho> b"
        using at var_value [OF l, of \<rho>] var_value [OF Some, of \<rho>] by simp
      show ?thesis
      proof (cases "bt_get known b")
        case None
        then have "equality_step B e known = learn b (bt_get known a) known"
          using l Some by (simp add: equality_step_def Eq)
        then show ?thesis
          using get [of a] same assms(3) by (auto intro!: learn_sound)
      next
        case (Some c)
        then have "equality_step B e known = learn a (Some c) known"
          using l \<open>var_of r = Some b\<close> by (simp add: equality_step_def Eq)
        then show ?thesis
          using get [OF Some] same assms(3) by (auto intro!: learn_sound)
      qed
    qed
  qed
qed (use assms(3) in \<open>simp_all add: equality_step_def\<close>)

lemma resolve_equalities_sound:
  assumes "says M S \<rho> flat" "stands_for M S \<rho> known"
  shows "stands_for M S \<rho> (resolve_equalities B flat known)"
  unfolding resolve_equalities_def
proof (rule saturate_invariant [where P = "stands_for M S \<rho>", OF assms(2)])
  show "stands_for M S \<rho> (equality_pass B flat m)" if "stands_for M S \<rho> m" for m
    unfolding equality_pass_def using that equality_step_sound [OF assms(1)] by (rule fold_invariant_member)
qed

text \<open>Stores.\<close>

lemma resolve_select_Some:
  assumes "resolve_select_from_store B stores known v e = Some (x, c)"
  shows "\<exists>a i arr st. substitute_vars B known e = Select a i \<and> var_of a = Some arr \<and> bt_get stores arr = Some st \<and>
    eval_select_store_const (expand_array_stores B stores known (substitute_vars B known st)) i = Some c \<and> is_constant c"
proof -
  have v: "var_of v = Some x" "bt_get known x = None"
    using resolve_select_new [OF assms] .
  show ?thesis
  proof (cases "substitute_vars B known e")
    case (Select a i)
    with assms v show ?thesis
      by (auto simp: resolve_select_from_store_def bind_eq_Some_conv split: if_splits)
  qed (insert assms v, simp_all add: resolve_select_from_store_def)
qed

lemma store_side_sound:
  assumes "stands_for M S \<rho> known" "at_sides \<rho> v e \<or> at_sides \<rho> e v" "stores_for M S \<rho> stores"
  shows "stores_for M S \<rho> (store_side B known v e stores)"
proof (cases "var_of v")
  case (Some x)
  have "val M \<rho> (substitute_vars B known e) = \<rho> x \<and> sorted_at \<rho> (substitute_vars B known e)"
    using substitute_keeps [OF assms(1), of e] assms(2) var_value [OF Some, of \<rho>] by auto
  then show ?thesis
    using assms(3) Some by (simp add: store_side_def Let_def stores_for_insert)
qed (use assms(3) in \<open>simp add: store_side_def\<close>)

lemma store_step_sound:
  assumes "says M S \<rho> flat" "stands_for M S \<rho> known" "e \<in> set flat" "stores_for M S \<rho> stores"
  shows "stores_for M S \<rho> (store_step B known e stores)"
proof (cases e)
  case (Eq l r)
  note at = says_Eq [OF assms(1) assms(3) [unfolded Eq]]
  show ?thesis
    using store_side_sound [OF assms(2)] at assms(4) by (simp add: store_step_def Eq)
qed (use assms(4) in \<open>simp_all add: store_step_def\<close>)

lemma array_stores_sound:
  assumes "says M S \<rho> flat" "stands_for M S \<rho> known"
  shows "stores_for M S \<rho> (array_stores B flat known)"
  unfolding array_stores_def
proof (rule fold_invariant_member)
  show "stores_for M S \<rho> []"
    by (simp add: stores_for_def)
qed (rule store_step_sound [OF assms])

lemma alias_values:
  assumes "says M S \<rho> flat" "(a, b) \<in> set (List.map_filter (array_alias B) flat)"
  shows "\<rho> a = \<rho> b"
proof -
  obtain e where e: "e \<in> set flat" "array_alias B e = Some (a, b)"
    using assms(2) by (auto simp: List.map_filter_def)
  from e(2) obtain l r where Eq: "e = Eq l r"
    by (cases e) (simp_all add: array_alias_def)
  have "var_of l = Some a" "var_of r = Some b"
    using e(2) by (auto simp: array_alias_def Eq split: option.splits if_splits)
  then show ?thesis
    using says_Eq [OF assms(1) e(1) [unfolded Eq]] var_value [of l a \<rho>] var_value [of r b \<rho>] by simp
qed

lemma alias_step_sound:
  assumes "\<rho> (fst p) = \<rho> (snd p)" "stores_for M S \<rho> stores"
  shows "stores_for M S \<rho> (alias_step p stores)"
proof -
  obtain a b where p: "p = (a, b)"
    by (cases p)
  show ?thesis
  proof (cases "bt_get stores a")
    case None
    then show ?thesis
      using assms by (cases "bt_get stores b") (auto simp: alias_step_def p stores_for_def)
  next
    case (Some st)
    then show ?thesis
      using assms by (cases "bt_get stores b") (auto simp: alias_step_def p stores_for_def)
  qed
qed

lemma propagate_store_aliases_sound:
  assumes "\<And>a b. (a, b) \<in> set aliases \<Longrightarrow> \<rho> a = \<rho> b" "stores_for M S \<rho> stores"
  shows "stores_for M S \<rho> (propagate_store_aliases aliases stores)"
  unfolding propagate_store_aliases_def
proof (rule saturate_invariant [where P = "stores_for M S \<rho>", OF assms(2)])
  show "stores_for M S \<rho> (fold alias_step aliases m)" if "stores_for M S \<rho> m" for m
    using that by (rule fold_invariant_member) (rule alias_step_sound, use assms(1) in auto)
qed

lemma expand_sound:
  assumes "stands_for M S \<rho> known" "stores_for M S \<rho> stores" "sorted_at \<rho> e"
  shows "keeps \<rho> e (expand_array_stores_bounded B stores known depth e)"
  using assms(3)
proof (induction depth arbitrary: e)
  case (Suc depth)
  show ?case
  proof (cases e)
    case (Store a i v)
    define inner where "inner = (case var_of a of
        Some x \<Rightarrow> (case bt_get stores x of Some st \<Rightarrow> substitute_vars B known st | None \<Rightarrow> a) | None \<Rightarrow> a)"
    have e: "expand_array_stores_bounded B stores known (Suc depth) e = Store (expand_array_stores_bounded B stores known depth inner) i v"
      by (simp add: Store inner_def Let_def)
    have sorted: "is_scalar S (val M \<rho> i)" "is_array S (val M \<rho> a)" "sorted_at \<rho> a" "sorted_at \<rho> i" "sorted_at \<rho> v"
      using Suc.prems by (simp_all add: Store sorted_nodes)
    have "keeps \<rho> a inner"
    proof (cases "\<exists>x st. var_of a = Some x \<and> bt_get stores x = Some st")
      case True
      then obtain x st where st: "var_of a = Some x" "bt_get stores x = Some st"
        by blast
      have "val M \<rho> st = val M \<rho> a" "sorted_at \<rho> st"
        using assms(2) st var_value [OF st(1), of \<rho>] by (simp_all add: stores_for_def)
      then show ?thesis
        using substitute_keeps [OF assms(1), of st] st by (simp add: inner_def)
    next
      case False
      then have "inner = a"
        by (auto simp: inner_def split: option.split)
      with sorted(3) show ?thesis
        by simp
    qed
    then have "keeps \<rho> a (expand_array_stores_bounded B stores known depth inner)"
      using Suc.IH [of inner] by simp
    moreover from this have "val M \<rho> (Store (expand_array_stores_bounded B stores known depth inner) i v) = val M \<rho> (Store a i v)"
      by (intro node_values) simp_all
    ultimately show ?thesis
      unfolding e using sorted by (simp add: Store sorted_nodes)
  qed (use Suc.prems in simp_all)
qed simp

lemma resolve_select_sound:
  assumes "stands_for M S \<rho> known" "stores_for M S \<rho> stores" "at_sides \<rho> v e"
    and "resolve_select_from_store B stores known v e = Some (x, c)"
  shows "is_constant c \<and> val M \<rho> c = \<rho> x \<and> sorted_at \<rho> c"
proof -
  have x: "var_of v = Some x"
    using assms(4) by (rule resolve_select_new)
  obtain a i arr st where r: "substitute_vars B known e = Select a i" "var_of a = Some arr" "bt_get stores arr = Some st"
      "eval_select_store_const (expand_array_stores B stores known (substitute_vars B known st)) i = Some c" "is_constant c"
    using resolve_select_Some [OF assms(4)] x by blast
  have sel: "val M \<rho> (Select a i) = \<rho> x" "sorted_at \<rho> (Select a i)"
    using substitute_keeps [OF assms(1), of e] assms(3) var_value [OF x, of \<rho>] by (simp_all add: r(1))
  have i: "is_scalar S (val M \<rho> i)" "sorted_at \<rho> i"
    using sel(2) by (simp_all add: sorted_nodes)
  have "val M \<rho> st = \<rho> arr" "sorted_at \<rho> st"
    using assms(2) r(3) by (simp_all add: stores_for_def)
  then have "keeps \<rho> a (substitute_vars B known st)"
    using substitute_keeps [OF assms(1), of st] var_value [OF r(2), of \<rho>] by simp
  then have arr: "keeps \<rho> a (expand_array_stores B stores known (substitute_vars B known st))"
    using expand_sound [OF assms(1,2), of "substitute_vars B known st" 8] by (simp add: expand_array_stores_def)
  have "val M \<rho> (Select (expand_array_stores B stores known (substitute_vars B known st)) i) = val M \<rho> (Select a i)"
    using arr by (intro node_values) simp_all
  then show ?thesis
    using eval_select_sound [OF r(4), of \<rho>] arr i sel(1) r(5) by simp
qed

lemma select_step_sound:
  assumes "says M S \<rho> flat" "stores_for M S \<rho> stores" "e \<in> set flat" "stands_for M S \<rho> known"
  shows "stands_for M S \<rho> (select_step B stores e known)"
proof (cases e)
  case (Eq l r)
  note at = says_Eq [OF assms(1) assms(3) [unfolded Eq]]
  show ?thesis
  proof (cases "or_else (resolve_select_from_store B stores known l r) (resolve_select_from_store B stores known r l)")
    case None
    with assms(4) show ?thesis
      by (simp add: select_step_def Eq)
  next
    case (Some xc)
    obtain x c where xc: "xc = (x, c)"
      by (cases xc)
    have "resolve_select_from_store B stores known l r = Some (x, c) \<or> resolve_select_from_store B stores known r l = Some (x, c)"
      using Some xc by (cases "resolve_select_from_store B stores known l r") simp_all
    then have "is_constant c \<and> val M \<rho> c = \<rho> x \<and> sorted_at \<rho> c"
    proof
      show ?thesis if "resolve_select_from_store B stores known l r = Some (x, c)"
        using resolve_select_sound [OF assms(4,2) at that] .
      show ?thesis if "resolve_select_from_store B stores known r l = Some (x, c)"
        using resolve_select_sound [OF assms(4,2) _ that] at by simp
    qed
    then show ?thesis
      using Some xc assms(4) by (simp add: select_step_def Eq stands_for_insert)
  qed
qed (use assms(4) in \<open>simp_all add: select_step_def\<close>)

lemma resolve_array_selects_sound:
  assumes "says M S \<rho> flat" "stands_for M S \<rho> known"
  shows "stands_for M S \<rho> (resolve_array_store_selects B flat known)"
proof (cases "array_stores B flat known = []")
  case True
  with assms(2) show ?thesis
    by (simp add: resolve_array_store_selects_def)
next
  case False
  let ?stores = "propagate_store_aliases (List.map_filter (array_alias B) flat) (array_stores B flat known)"
  have stores: "stores_for M S \<rho> ?stores"
    using alias_values [OF assms(1)] array_stores_sound [OF assms] by (rule propagate_store_aliases_sound)
  have "stands_for M S \<rho> (fold (select_step B ?stores) flat m)" if "stands_for M S \<rho> m" for m
    using that select_step_sound [OF assms(1) stores] by (rule fold_invariant_member)
  then have "stands_for M S \<rho> (saturate (Suc (2 * length flat)) (fold (select_step B ?stores) flat) known)"
    using assms(2) by (intro saturate_invariant [where P = "stands_for M S \<rho>"])
  with False show ?thesis
    by (simp add: resolve_array_store_selects_def Let_def)
qed

lemma propagate_through_equalities_sound:
  assumes "says M S \<rho> cs" "stands_for M S \<rho> known"
  shows "stands_for M S \<rho> (propagate_through_equalities B cs known)"
  using says_flatten_conjunctions [OF assms(1)] assms(2)
  by (simp add: propagate_through_equalities_def Let_def resolve_array_selects_sound resolve_equalities_sound)

end

end
