(* ===== verification/Chc_Liveness.thy ===== *)
theory Chc_Liveness
  imports Chc
begin

text \<open>
  The guards of constant propagation: trust-mc-core/src/chc_const_prop_heap_liveness.rs.  Which systems carry object
  liveness, object sizes or overflow checks is read off names and shapes; whether the blocks of a system form a cycle is
  decided by a depth-first search with an explicit stack, shown to find a cycle exactly when there is one.
\<close>

section \<open>Names and shapes\<close>

definition is_scalarized_obj_valid_name :: "string \<Rightarrow> bool" where
  "is_scalarized_obj_valid_name x \<longleftrightarrow> starts_with x ''obj_valid_at_''"

definition expr_mentions_scalarized_obj_valid :: "Expr \<Rightarrow> bool" where
  "expr_mentions_scalarized_obj_valid e \<longleftrightarrow> (\<exists>x \<in> expr_vars e. is_scalarized_obj_valid_name x)"

definition has_scalarized_obj_valid_liveness :: "ChcVc \<Rightarrow> bool" where
  "has_scalarized_obj_valid_liveness vc \<longleftrightarrow>
     (\<exists>v \<in> set (vars vc). is_scalarized_obj_valid_name (var_name v)) \<or>
     (\<exists>r \<in> set (rules vc).
        (\<exists>e \<in> set (app_args (head r)). expr_mentions_scalarized_obj_valid e) \<or>
        (case body_relation r of None \<Rightarrow> False | Some a \<Rightarrow> \<exists>e \<in> set (app_args a). expr_mentions_scalarized_obj_valid e) \<or>
        (\<exists>c \<in> set (body_constraints r). expr_mentions_scalarized_obj_valid c))"

definition is_array_sort :: "Sort \<Rightarrow> bool" where
  "is_array_sort s \<longleftrightarrow> (case s of SArray k e \<Rightarrow> True | _ \<Rightarrow> False)"

definition is_heap_metadata_array :: "string \<Rightarrow> bool \<Rightarrow> bool" where
  "is_heap_metadata_array x arr \<longleftrightarrow>
     arr \<and> (x = ''obj_valid'' \<or> x = ''obj_size'' \<or> starts_with x ''obj_valid'' \<or> starts_with x ''obj_size'')"

definition vc_mentions_heap_metadata :: "ChcVc \<Rightarrow> bool" where
  "vc_mentions_heap_metadata vc \<longleftrightarrow> (\<exists>v \<in> set (vars vc). is_heap_metadata_array (var_name v) (is_array_sort (var_sort v)))"

definition is_scalarized_const_address_cell :: "string \<Rightarrow> bool \<Rightarrow> bool" where
  "is_scalarized_const_address_cell x arr \<longleftrightarrow> \<not> arr \<and> contains x ''_mem_'' \<and> contains x ''_at_0x''"

definition has_scalarized_obj_size_bounds :: "ChcVc \<Rightarrow> bool" where
  "has_scalarized_obj_size_bounds vc \<longleftrightarrow>
     vc_mentions_heap_metadata vc \<and>
     (\<exists>v \<in> set (vars vc). is_scalarized_const_address_cell (var_name v) (is_array_sort (var_sort v)))"

definition is_error_reachable_head :: "string \<Rightarrow> bool" where
  "is_error_reachable_head p \<longleftrightarrow> p = ''error'' \<or> starts_with p ''error_p''"

definition divides_product :: "Expr \<Rightarrow> bool" where
  "divides_product e \<longleftrightarrow>
     (case e of
        Bv op a b \<Rightarrow> op = BvSDiv \<and> (case a of Bv op' c d \<Rightarrow> op' = BvMul | _ \<Rightarrow> False)
      | _ \<Rightarrow> False)"

function expr_has_sdiv_over_mul :: "Expr \<Rightarrow> bool" where
  "expr_has_sdiv_over_mul e \<longleftrightarrow> divides_product e \<or> (\<exists>a \<in> set (children e). expr_has_sdiv_over_mul a)"
  by pat_completeness auto
termination
  by (relation "measure size") (auto intro: size_children)

declare expr_has_sdiv_over_mul.simps [simp del]

definition has_signed_overflow_error_edge :: "ChcVc \<Rightarrow> bool" where
  "has_signed_overflow_error_edge vc \<longleftrightarrow>
     (\<exists>r \<in> set (rules vc). is_error_reachable_head (head_name r) \<and> (\<exists>c \<in> set (body_constraints r). expr_has_sdiv_over_mul c))"

section \<open>Protected positions\<close>

definition mark_heap_liveness_args :: "RelationApp \<Rightarrow> (string, nat list) btree \<Rightarrow> (string, nat list) btree" where
  "mark_heap_liveness_args a m =
     fold (\<lambda>i. bt_update (app_name a) [] (List.insert i))
       (filter (\<lambda>i. expr_mentions_scalarized_obj_valid (app_args a ! i)) [0..<length (app_args a)]) m"

definition heap_liveness_positions :: "Rule list \<Rightarrow> (string, nat list) btree" where
  "heap_liveness_positions rs =
     fold (\<lambda>r m. let m' = mark_heap_liveness_args (head r) m in
        case body_relation r of None \<Rightarrow> m' | Some a \<Rightarrow> mark_heap_liveness_args a m') rs []"

lemma mark_get: "set (bt_get_or [] (mark_heap_liveness_args a m) p) = set (bt_get_or [] m p) \<union>
    (if p = app_name a then {i. i < length (app_args a) \<and> expr_mentions_scalarized_obj_valid (app_args a ! i)} else {})"
proof -
  have "set (bt_get_or [] (fold (\<lambda>i. bt_update q [] (List.insert i)) is m) p) = set (bt_get_or [] m p) \<union> (if p = q then set is else {})" for q "is"
    by (induction "is" arbitrary: m) auto
  then show ?thesis
    by (auto simp: mark_heap_liveness_args_def)
qed

text \<open>Exactly the positions at which some application mentions an object's liveness are protected.\<close>

lemma protected_positions:
  "i \<in> set (bt_get_or [] (heap_liveness_positions rs) p) \<longleftrightarrow>
    (\<exists>r \<in> set rs. \<exists>a \<in> set (rule_apps r). app_name a = p \<and> i < length (app_args a) \<and> expr_mentions_scalarized_obj_valid (app_args a ! i))"
proof -
  let ?step = "\<lambda>r m. let m' = mark_heap_liveness_args (head r) m in
        case body_relation r of None \<Rightarrow> m' | Some a \<Rightarrow> mark_heap_liveness_args a m'"
  let ?at = "\<lambda>r. \<exists>a \<in> set (rule_apps r). app_name a = p \<and> i < length (app_args a) \<and> expr_mentions_scalarized_obj_valid (app_args a ! i)"
  have step: "i \<in> set (bt_get_or [] (?step r m) p) \<longleftrightarrow> i \<in> set (bt_get_or [] m p) \<or> ?at r" for r m
    by (cases "body_relation r") (auto simp: mark_get rule_apps_def)
  have "i \<in> set (bt_get_or [] (fold ?step rs m) p) \<longleftrightarrow> i \<in> set (bt_get_or [] m p) \<or> (\<exists>r \<in> set rs. ?at r)" for m
    by (induction rs arbitrary: m) (auto simp: step)
  from this [of "[]"] show ?thesis
    unfolding heap_liveness_positions_def by (simp add: bt_get_or_def)
qed

section \<open>Cycles of blocks\<close>

definition block_edge :: "Rule \<Rightarrow> (string \<times> string) option" where
  "block_edge r =
     (if is_error_reachable_head (head_name r) then None
      else (case body_relation r of
          None \<Rightarrow> None
        | Some a \<Rightarrow> if is_error_reachable_head (app_name a) then None else Some (app_name a, head_name r)))"

definition block_edges :: "Rule list \<Rightarrow> (string, string list) btree" where
  "block_edges rs =
     fold (\<lambda>r m. case block_edge r of None \<Rightarrow> m | Some (b, h) \<Rightarrow> bt_update b [] (List.insert h) m) rs []"

definition successors :: "(string, string list) btree \<Rightarrow> string \<Rightarrow> string list" where
  "successors E n = bt_get_or [] E n"

text \<open>Marks: 0 not seen, 1 on the stack, 2 finished.\<close>

definition mark_of :: "(string, nat) btree \<Rightarrow> string \<Rightarrow> nat" where
  "mark_of st n = bt_get_or 0 st n"

text \<open>The successors that are pushed, or nothing when one of them is on the stack.\<close>

fun push_successors :: "(string, nat) btree \<Rightarrow> string list \<Rightarrow> (string \<times> bool) list \<Rightarrow> (string \<times> bool) list option" where
  "push_successors st [] stack = Some stack"
| "push_successors st (s # ss) stack =
     (if mark_of st s = 1 then None
      else if mark_of st s = 0 then push_successors st ss ((s, False) # stack)
      else push_successors st ss stack)"

lemma mark_insert [simp]: "mark_of (bt_insert n k st) m = (if m = n then k else mark_of st m)"
  by (simp add: mark_of_def bt_get_or_def)

lemma push_successors_stack:
  "push_successors st ss stack = Some stack' \<Longrightarrow>
    \<exists>new. stack' = new @ stack \<and> (\<forall>(x, b) \<in> set new. x \<in> set ss \<and> \<not> b \<and> mark_of st x = 0) \<and>
      (\<forall>s \<in> set ss. mark_of st s \<noteq> 1 \<and> (mark_of st s = 0 \<longrightarrow> s \<in> fst ` set new))"
proof (induction st ss stack rule: push_successors.induct)
  case (2 st s ss stack)
  show ?case
  proof (cases "mark_of st s = 0")
    case True
    then have "push_successors st ss ((s, False) # stack) = Some stack'"
      using 2(3) by simp
    from 2(1) [OF _ True this] True obtain new where "stack' = new @ (s, False) # stack"
        "\<forall>(x, b) \<in> set new. x \<in> set ss \<and> \<not> b \<and> mark_of st x = 0"
        "\<forall>s \<in> set ss. mark_of st s \<noteq> 1 \<and> (mark_of st s = 0 \<longrightarrow> s \<in> fst ` set new)"
      by auto
    with True show ?thesis
      by (intro exI [of _ "new @ [(s, False)]"]) auto
  next
    case False
    then have mark: "mark_of st s \<noteq> 1" "push_successors st ss stack = Some stack'"
      using 2(3) by (simp_all split: if_splits)
    from 2(2) [OF mark(1) False mark(2)] obtain new where "stack' = new @ stack"
        "\<forall>(x, b) \<in> set new. x \<in> set ss \<and> \<not> b \<and> mark_of st x = 0"
        "\<forall>s \<in> set ss. mark_of st s \<noteq> 1 \<and> (mark_of st s = 0 \<longrightarrow> s \<in> fst ` set new)"
      by blast
    with False mark(1) show ?thesis
      by (intro exI [of _ new]) auto
  qed
qed simp

definition graph_nodes :: "(string, string list) btree \<Rightarrow> string set" where
  "graph_nodes E = (\<Union>n \<in> fst ` set E. set (successors E n))"

lemma successors_nodes: "s \<in> set (successors E n) \<Longrightarrow> s \<in> graph_nodes E"
proof -
  assume s: "s \<in> set (successors E n)"
  then have "n \<in> fst ` set E"
    by (cases "bt_get E n") (simp_all add: successors_def bt_get_or_def, metis fst_conv image_eqI map_of_SomeD)
  with s show ?thesis
    by (auto simp: graph_nodes_def)
qed

lemma finite_graph_nodes: "finite (graph_nodes E)"
  by (simp add: graph_nodes_def)

definition unseen :: "(string, string list) btree \<Rightarrow> (string, nat) btree \<Rightarrow> (string \<times> bool) list \<Rightarrow> string set" where
  "unseen E st stack = {x \<in> graph_nodes E \<union> fst ` set stack. mark_of st x = 0}"

lemma finite_unseen: "finite (unseen E st stack)"
  by (simp add: unseen_def finite_graph_nodes)

text \<open>The search from a stack: nothing when it meets a block on the stack, the marks otherwise.\<close>

function block_search :: "(string, string list) btree \<Rightarrow> (string, nat) btree \<Rightarrow> (string \<times> bool) list \<Rightarrow> (string, nat) btree option" where
  "block_search E st [] = Some st"
| "block_search E st ((n, True) # stack) = block_search E (bt_insert n 2 st) stack"
| "block_search E st ((n, False) # stack) =
     (if mark_of st n \<noteq> 0 then block_search E st stack
      else (case push_successors (bt_insert n 1 st) (successors E n) ((n, True) # stack) of
          None \<Rightarrow> None
        | Some stack' \<Rightarrow> block_search E (bt_insert n 1 st) stack'))"
  by pat_completeness auto
termination
proof (relation "measures [\<lambda>(E, st, stack). card (unseen E st stack), \<lambda>(E, st, stack). length stack]")
  fix E :: "(string, string list) btree" and st :: "(string, nat) btree" and n stack
  show "((E, bt_insert n 2 st, stack), E, st, (n, True) # stack)
      \<in> measures [\<lambda>(E, st, stack). card (unseen E st stack), \<lambda>(E, st, stack). length stack]"
  proof -
    have "unseen E (bt_insert n 2 st) stack \<subseteq> unseen E st ((n, True) # stack)"
      by (auto simp: unseen_def split: if_splits)
    then have "card (unseen E (bt_insert n 2 st) stack) \<le> card (unseen E st ((n, True) # stack))"
      by (intro card_mono finite_unseen)
    then show ?thesis
      by auto
  qed
  show "((E, st, stack), E, st, (n, False) # stack)
      \<in> measures [\<lambda>(E, st, stack). card (unseen E st stack), \<lambda>(E, st, stack). length stack]"
  proof -
    have "card (unseen E st stack) \<le> card (unseen E st ((n, False) # stack))"
      by (intro card_mono finite_unseen) (auto simp: unseen_def)
    then show ?thesis
      by auto
  qed
  fix stack'
  assume unmarked: "\<not> mark_of st n \<noteq> 0" and push: "push_successors (bt_insert n 1 st) (successors E n) ((n, True) # stack) = Some stack'"
  from push_successors_stack [OF push] obtain new where new: "stack' = new @ (n, True) # stack" "\<forall>(x, b) \<in> set new. x \<in> set (successors E n)"
    by blast
  have "unseen E (bt_insert n 1 st) stack' \<subset> unseen E st ((n, False) # stack)"
  proof
    show "unseen E (bt_insert n 1 st) stack' \<subseteq> unseen E st ((n, False) # stack)"
    proof
      fix x
      assume "x \<in> unseen E (bt_insert n 1 st) stack'"
      then have x: "x \<in> graph_nodes E \<union> fst ` set stack'" "x \<noteq> n" "mark_of st x = 0"
        by (simp_all add: unseen_def split: if_splits)
      have "x \<in> graph_nodes E \<union> fst ` set stack"
      proof (cases "x \<in> fst ` set new")
        case True
        then obtain b where "(x, b) \<in> set new"
          by auto
        then show ?thesis
          using new(2) successors_nodes by blast
      next
        case False
        with x(1,2) show ?thesis
          by (auto simp: new(1))
      qed
      with x(3) show "x \<in> unseen E st ((n, False) # stack)"
        by (auto simp: unseen_def)
    qed
    have "n \<in> unseen E st ((n, False) # stack)" "n \<notin> unseen E (bt_insert n 1 st) stack'"
      using unmarked by (simp_all add: unseen_def)
    then show "unseen E (bt_insert n 1 st) stack' \<noteq> unseen E st ((n, False) # stack)"
      by blast
  qed
  then have "card (unseen E (bt_insert n 1 st) stack') < card (unseen E st ((n, False) # stack))"
    by (intro psubset_card_mono finite_unseen)
  then show "((E, bt_insert n 1 st, stack'), E, st, (n, False) # stack)
      \<in> measures [\<lambda>(E, st, stack). card (unseen E st stack), \<lambda>(E, st, stack). length stack]"
    by simp
qed simp

fun cycle_from :: "(string, string list) btree \<Rightarrow> (string, nat) btree \<Rightarrow> string list \<Rightarrow> bool" where
  "cycle_from E st [] = False"
| "cycle_from E st (n # ns) =
     (if mark_of st n \<noteq> 0 then cycle_from E st ns
      else (case block_search E st [(n, False)] of None \<Rightarrow> True | Some st' \<Rightarrow> cycle_from E st' ns))"

definition has_block_relation_cycle :: "ChcVc \<Rightarrow> bool" where
  "has_block_relation_cycle vc = (let E = block_edges (rules vc) in cycle_from E [] (map fst E))"

section \<open>The search finds exactly the cycles\<close>

definition edge_rel :: "(string, string list) btree \<Rightarrow> (string \<times> string) set" where
  "edge_rel E = {(x, y). y \<in> set (successors E x)}"

text \<open>
  What holds of the stack, from the top: a node on the stack is reached from every node being expanded below it; the
  successors of a node being expanded are finished or above it.
\<close>

fun stack_ok :: "(string, string list) btree \<Rightarrow> (string, nat) btree \<Rightarrow> string set \<Rightarrow> (string \<times> bool) list \<Rightarrow> bool" where
  "stack_ok E st A [] \<longleftrightarrow> True"
| "stack_ok E st A ((x, b) # below) \<longleftrightarrow>
     (\<forall>g. (g, True) \<in> set below \<longrightarrow> (g, x) \<in> (edge_rel E)\<^sup>+) \<and>
     (b \<longrightarrow> (x, True) \<notin> set below \<and>
        (\<forall>s \<in> set (successors E x). (mark_of st s = 2 \<or> s \<in> A) \<and> s \<noteq> x \<and> (s, True) \<notin> set below)) \<and>
     stack_ok E st (insert x A) below"

definition finished_ok :: "(string, string list) btree \<Rightarrow> (string, nat) btree \<Rightarrow> bool" where
  "finished_ok E st \<longleftrightarrow>
     (\<forall>n. mark_of st n \<in> {0, 1, 2}) \<and>
     (\<forall>n. mark_of st n = 2 \<longrightarrow> (n, n) \<notin> (edge_rel E)\<^sup>+ \<and> (\<forall>s \<in> set (successors E n). mark_of st s = 2))"

definition search_ok :: "(string, string list) btree \<Rightarrow> (string, nat) btree \<Rightarrow> (string \<times> bool) list \<Rightarrow> bool" where
  "search_ok E st stack \<longleftrightarrow> finished_ok E st \<and> (\<forall>n. mark_of st n = 1 \<longleftrightarrow> (n, True) \<in> set stack) \<and> stack_ok E st {} stack"

lemma stack_ok_mono: "stack_ok E st A stack \<Longrightarrow> A \<subseteq> A' \<Longrightarrow> (\<And>n. mark_of st n = 2 \<Longrightarrow> mark_of st' n = 2) \<Longrightarrow> stack_ok E st' A' stack"
proof (induction E st A stack arbitrary: A' rule: stack_ok.induct)
  case (2 E st A x b below)
  have "stack_ok E st' (insert x A') below"
    using 2 by (intro 2(1)) auto
  then show ?case
    using 2(2-4) by (auto dest: subsetD)
qed simp

lemma stack_ok_drop:
  "stack_ok E st (insert x A) stack \<Longrightarrow> mark_of st x = 2 \<or> x \<in> A \<or> (x, True) \<in> set stack \<Longrightarrow> stack_ok E st A stack"
proof (induction stack arbitrary: A)
  case (Cons e stack)
  obtain y b where e: "e = (y, b)"
    by (cases e)
  have "stack_ok E st (insert y A) stack"
  proof (rule Cons.IH)
    show "stack_ok E st (insert x (insert y A)) stack"
      using Cons.prems(1) by (simp add: e insert_commute)
    show "mark_of st x = 2 \<or> x \<in> insert y A \<or> (x, True) \<in> set stack"
      using Cons.prems(2) by (auto simp: e)
  qed
  then show ?case
    using Cons.prems by (auto simp: e)
qed simp

lemma stack_ok_push:
  assumes "\<forall>(x, b) \<in> set new. \<not> b \<and> (\<forall>g. (g, True) \<in> set stack \<longrightarrow> (g, x) \<in> (edge_rel E)\<^sup>+)"
    and "stack_ok E st (A \<union> fst ` set new) stack"
  shows "stack_ok E st A (new @ stack)"
  using assms
proof (induction new arbitrary: A)
  case (Cons e new)
  obtain x where e: "e = (x, False)"
    using Cons.prems(1) by (cases e) auto
  have "stack_ok E st (insert x A) (new @ stack)"
    using Cons.prems by (intro Cons.IH) (simp_all add: e)
  moreover have "(g, True) \<notin> set new" for g
    using Cons.prems(1) by auto
  ultimately show ?case
    using Cons.prems(1) by (auto simp: e)
qed simp

lemma finished_closed:
  assumes "(n, m) \<in> (edge_rel E)\<^sup>+" "finished_ok E st" "mark_of st n = 2"
  shows "mark_of st m = 2"
  using assms by (induction rule: trancl_induct) (auto simp: edge_rel_def finished_ok_def)

lemma push_None: "push_successors st ss stack = None \<Longrightarrow> \<exists>s \<in> set ss. mark_of st s = 1"
  by (induction st ss stack rule: push_successors.induct) (auto split: if_splits)

lemma step_finish:
  assumes "search_ok E st ((n, True) # stack)"
  shows "search_ok E (bt_insert n 2 st) stack"
proof -
  let ?st = "bt_insert n 2 st"
  have fin: "finished_ok E st" and grey: "\<And>m. mark_of st m = 1 \<longleftrightarrow> m = n \<or> (m, True) \<in> set stack"
    using assms by (auto simp: search_ok_def)
  have stack: "(n, True) \<notin> set stack" "stack_ok E st {n} stack" "\<forall>s \<in> set (successors E n). mark_of st s = 2 \<and> s \<noteq> n"
    using assms by (auto simp: search_ok_def)
  have acyclic: "(n, n) \<notin> (edge_rel E)\<^sup>+"
  proof
    assume "(n, n) \<in> (edge_rel E)\<^sup>+"
    then obtain s where "(n, s) \<in> edge_rel E" "s = n \<or> (s, n) \<in> (edge_rel E)\<^sup>+"
      by (meson tranclD rtranclD)
    then have "mark_of st s = 2" "s \<noteq> n" "(s, n) \<in> (edge_rel E)\<^sup>+"
      using stack(3) by (auto simp: edge_rel_def)
    then have "mark_of st n = 2"
      using finished_closed fin by blast
    with grey [of n] show False
      by simp
  qed
  have "finished_ok E ?st"
    using fin stack(3) acyclic by (auto simp: finished_ok_def)
  moreover have "mark_of ?st m = 1 \<longleftrightarrow> (m, True) \<in> set stack" for m
    using grey stack(1) by auto
  moreover have "stack_ok E ?st {n} stack"
    using stack(2) by (rule stack_ok_mono) simp_all
  then have "stack_ok E ?st {} stack"
    by (rule stack_ok_drop) simp
  ultimately show ?thesis
    by (simp add: search_ok_def)
qed

lemma step_seen:
  assumes "search_ok E st ((n, False) # stack)" "mark_of st n \<noteq> 0"
  shows "search_ok E st stack"
proof -
  have "mark_of st n \<in> {0, 1, 2}"
    using assms(1) unfolding search_ok_def finished_ok_def by blast
  then have "mark_of st n = 2 \<or> (n, True) \<in> set stack"
    using assms by (auto simp: search_ok_def)
  then have "stack_ok E st {} stack"
    using assms(1) by (intro stack_ok_drop [of E st n "{}" stack]) (auto simp: search_ok_def)
  then show ?thesis
    using assms(1) by (auto simp: search_ok_def)
qed

lemma step_expand:
  assumes "search_ok E st ((n, False) # stack)" "mark_of st n = 0"
    and "push_successors (bt_insert n 1 st) (successors E n) ((n, True) # stack) = Some stack'"
  shows "search_ok E (bt_insert n 1 st) stack'"
proof -
  let ?st = "bt_insert n 1 st"
  from push_successors_stack [OF assms(3)] obtain new where new: "stack' = new @ (n, True) # stack"
      "\<forall>(x, b) \<in> set new. x \<in> set (successors E n) \<and> \<not> b \<and> mark_of ?st x = 0"
      "\<forall>s \<in> set (successors E n). mark_of ?st s \<noteq> 1 \<and> (mark_of ?st s = 0 \<longrightarrow> s \<in> fst ` set new)"
    by blast
  have grey: "\<And>m. mark_of st m = 1 \<longleftrightarrow> (m, True) \<in> set stack" and fin: "finished_ok E st"
    using assms(1) by (auto simp: search_ok_def)
  have below: "\<forall>g. (g, True) \<in> set stack \<longrightarrow> (g, n) \<in> (edge_rel E)\<^sup>+" "stack_ok E st {n} stack"
    using assms(1) by (simp_all add: search_ok_def)
  have range: "mark_of ?st s \<in> {0, 1, 2}" for s
    using fin by (simp add: finished_ok_def)
  have succ: "(mark_of ?st s = 2 \<or> s \<in> fst ` set new) \<and> s \<noteq> n \<and> (s, True) \<notin> set stack" if "s \<in> set (successors E n)" for s
    using new(3) that range [of s] grey [of s] by (auto split: if_splits)
  have "stack_ok E ?st (fst ` set new) ((n, True) # stack)"
  proof -
    have "stack_ok E ?st (insert n (fst ` set new)) stack"
      using below(2) by (rule stack_ok_mono) (use assms(2) in auto)
    moreover have "(n, True) \<notin> set stack"
      using grey [of n] assms(2) by simp
    ultimately show ?thesis
      using below(1) succ by (simp del: mark_insert)
  qed
  moreover have "(g, x) \<in> (edge_rel E)\<^sup>+" if "(x, b) \<in> set new" "(g, True) \<in> set ((n, True) # stack)" for g x b
  proof -
    have "(n, x) \<in> edge_rel E"
      using new(2) that(1) by (auto simp: edge_rel_def)
    with that(2) below(1) show ?thesis
      by (auto intro: trancl_into_trancl)
  qed
  ultimately have "stack_ok E ?st {} stack'"
    unfolding new(1) using new(2) by (intro stack_ok_push) auto
  moreover have "mark_of ?st m = 1 \<longleftrightarrow> (m, True) \<in> set stack'" for m
    using grey [of m] new(2) by (auto simp: new(1))
  moreover have "finished_ok E ?st"
    using fin assms(2) by (auto simp: finished_ok_def)
  ultimately show ?thesis
    by (simp add: search_ok_def)
qed

lemma step_cycle:
  assumes "search_ok E st ((n, False) # stack)" "push_successors (bt_insert n 1 st) (successors E n) ((n, True) # stack) = None"
  shows "\<exists>m. (m, m) \<in> (edge_rel E)\<^sup>+"
proof -
  from push_None [OF assms(2)] obtain s where s: "s \<in> set (successors E n)" "mark_of (bt_insert n 1 st) s = 1"
    by blast
  have "s = n \<or> (s, n) \<in> (edge_rel E)\<^sup>+"
    using s(2) assms(1) by (auto simp: search_ok_def split: if_splits)
  with s(1) show ?thesis
    by (auto simp: edge_rel_def intro: trancl_into_trancl)
qed

lemma block_search_correct:
  assumes "search_ok E st stack"
  shows "case block_search E st stack of
      None \<Rightarrow> \<exists>m. (m, m) \<in> (edge_rel E)\<^sup>+
    | Some st' \<Rightarrow> search_ok E st' [] \<and> (\<forall>n. mark_of st n \<noteq> 0 \<or> n \<in> fst ` set stack \<longrightarrow> mark_of st' n \<noteq> 0)"
  using assms
proof (induction E st stack rule: block_search.induct)
  case (2 E st n stack)
  then show ?case
    using step_finish [OF 2(2)] by (auto split: option.splits)
next
  case (3 E st n stack)
  show ?case
  proof (cases "mark_of st n = 0")
    case False
    then show ?thesis
      using 3(1) step_seen [OF 3(3)] by (auto split: option.splits)
  next
    case True
    show ?thesis
    proof (cases "push_successors (bt_insert n 1 st) (successors E n) ((n, True) # stack)")
      case None
      then show ?thesis
        using True step_cycle [OF 3(3)] by simp
    next
      case (Some stack')
      then obtain new where "stack' = new @ (n, True) # stack"
        using push_successors_stack by blast
      then show ?thesis
        using 3(2) [OF _ Some step_expand [OF 3(3) True Some]] True Some by (auto split: option.splits)
    qed
  qed
qed simp

lemma cycle_from_correct:
  assumes "search_ok E st []" "\<And>n. n \<in> fst ` set E \<Longrightarrow> n \<notin> set ns \<Longrightarrow> mark_of st n \<noteq> 0"
  shows "cycle_from E st ns \<longleftrightarrow> (\<exists>m. (m, m) \<in> (edge_rel E)\<^sup>+)"
  using assms
proof (induction E st ns rule: cycle_from.induct)
  case (1 E st)
  have "(m, m) \<notin> (edge_rel E)\<^sup>+" for m
  proof
    assume cycle: "(m, m) \<in> (edge_rel E)\<^sup>+"
    then obtain s where "(m, s) \<in> edge_rel E"
      by (meson tranclD)
    then have "m \<in> fst ` set E"
      by (cases "bt_get E m") (simp_all add: edge_rel_def successors_def bt_get_or_def, metis fst_conv image_eqI map_of_SomeD)
    then have "mark_of st m \<noteq> 0"
      using 1(2) by simp
    moreover have "mark_of st m \<in> {0, 1, 2}"
      using 1(1) unfolding search_ok_def finished_ok_def by blast
    moreover have "mark_of st m \<noteq> 1"
      using 1(1) by (simp add: search_ok_def)
    ultimately have "mark_of st m = 2"
      by auto
    with cycle 1(1) show False
      by (simp add: search_ok_def finished_ok_def)
  qed
  then show ?case
    by simp
next
  case (2 E st n ns)
  show ?case
  proof (cases "mark_of st n = 0")
    case False
    have "cycle_from E st ns \<longleftrightarrow> (\<exists>m. (m, m) \<in> (edge_rel E)\<^sup>+)"
      using False 2(3,4) by (intro 2(1)) auto
    with False show ?thesis
      by simp
  next
    case True
    have "search_ok E st [(n, False)]"
      using 2(3) by (simp add: search_ok_def)
    note correct = block_search_correct [OF this]
    show ?thesis
    proof (cases "block_search E st [(n, False)]")
      case None
      with True correct show ?thesis
        by simp
    next
      case (Some st')
      have "cycle_from E st' ns \<longleftrightarrow> (\<exists>m. (m, m) \<in> (edge_rel E)\<^sup>+)"
        using True Some correct 2(4) by (intro 2(2)) auto
      with True Some show ?thesis
        by simp
    qed
  qed
qed

text \<open>The edges of the map are those of the rules between blocks.\<close>

lemma block_edges_rel: "edge_rel (block_edges rs) = {p. \<exists>r \<in> set rs. block_edge r = Some p}"
proof -
  let ?step = "\<lambda>r m. case block_edge r of None \<Rightarrow> m | Some (b, h) \<Rightarrow> bt_update b [] (List.insert h) m"
  have step: "edge_rel (?step r m) = edge_rel m \<union> {p. block_edge r = Some p}" for r m
    by (cases "block_edge r") (auto simp: edge_rel_def successors_def split: if_splits)
  have "edge_rel (fold ?step rs m) = edge_rel m \<union> {p. \<exists>r \<in> set rs. block_edge r = Some p}" for m
    by (induction rs arbitrary: m) (auto simp: step)
  from this [of "[]"] show ?thesis
    unfolding block_edges_def by (simp add: edge_rel_def successors_def bt_get_or_def)
qed

text \<open>C23: has_block_relation_cycle holds exactly when some block is reached from itself by one or more rules between
blocks, the rules from and to error relations left out: the search with its explicit stack and three marks neither misses
a cycle nor invents one, whatever the order of rules and successors.\<close>

theorem block_cycle_iff:
  "has_block_relation_cycle vc \<longleftrightarrow> (\<exists>p. (p, p) \<in> {e. \<exists>r \<in> set (rules vc). block_edge r = Some e}\<^sup>+)"
proof -
  have "search_ok (block_edges (rules vc)) [] []"
    by (simp add: search_ok_def finished_ok_def mark_of_def bt_get_or_def)
  from cycle_from_correct [OF this, of "map fst (block_edges (rules vc))"] show ?thesis
    by (simp add: has_block_relation_cycle_def Let_def block_edges_rel)
qed

end
