(* ===== verification/Chc_Const_Prop.thy ===== *)
theory Chc_Const_Prop
  imports Chc_Equalities Chc_Liveness Chc_Dead_Vars
begin

text \<open>
  Constant propagation between the relations of a clause system: trust-mc-core/src/chc_const_prop.rs with
  chc_const_prop_identity.rs and the last part of chc_const_prop_eval.rs.  A position of a relation that every rule fills with the same constant is removed, the constant
  takes its place in the rules that read it, and rules with a false premise disappear.
\<close>

section \<open>Positions that keep their value\<close>

definition equated :: "Expr \<Rightarrow> (string \<times> string) option" where
  "equated e =
     (case e of
        Eq l r \<Rightarrow> (case (var_of l, var_of r) of (Some a, Some b) \<Rightarrow> Some (a, b) | _ \<Rightarrow> None)
      | _ \<Rightarrow> None)"

definition var_equivalences :: "Rule \<Rightarrow> (string, string) btree" where
  "var_equivalences r = fold (\<lambda>(a, b) m. bt_insert b a (bt_insert a b m)) (List.map_filter equated (body_constraints r)) []"

definition same_slot :: "(string, string) btree \<Rightarrow> Expr \<Rightarrow> Expr \<Rightarrow> bool" where
  "same_slot eqs h b \<longleftrightarrow>
     (case (var_of h, var_of b) of (Some x, Some y) \<Rightarrow> x = y \<or> bt_get eqs x = Some y | _ \<Rightarrow> False)"

definition detect_identity_positions :: "Rule \<Rightarrow> nat list" where
  "detect_identity_positions r =
     (case body_relation r of
        None \<Rightarrow> []
      | Some a \<Rightarrow>
          if app_name a \<noteq> head_name r then []
          else filter (\<lambda>i. same_slot (var_equivalences r) (app_args (head r) ! i) (app_args a ! i))
            [0..<min (length (app_args (head r))) (length (app_args a))])"

section \<open>Positions with one constant\<close>

definition replace_known :: "(string, Expr) btree \<Rightarrow> Expr \<Rightarrow> Expr" where
  "replace_known known e =
     (case var_of e of
        Some x \<Rightarrow> (case bt_get known x of Some c \<Rightarrow> c | None \<Rightarrow> e)
      | None \<Rightarrow> e)"

definition resolve_head_args :: "bindings \<Rightarrow> Rule \<Rightarrow> Expr list" where
  "resolve_head_args B r = map (replace_known (propagate_through_equalities B (body_constraints r) [])) (app_args (head r))"

definition record_values :: "bindings \<Rightarrow> Rule \<Rightarrow> (string, Expr list list) btree \<Rightarrow> (string, Expr list list) btree" where
  "record_values B r m =
     (let resolved = resolve_head_args B r;
          same = detect_identity_positions r;
          old = bt_get_or (replicate (length resolved) []) m (head_name r);
          entry = old @ replicate (length resolved - length old) []
      in bt_insert (head_name r)
           (map (\<lambda>(i, vs). if i < length resolved \<and> i \<notin> set same then vs @ [resolved ! i] else vs) (enumerate 0 entry)) m)"

definition unique_constant :: "Expr list \<Rightarrow> Expr option" where
  "unique_constant vs =
     (case vs of
        [] \<Rightarrow> None
      | v # ws \<Rightarrow> if is_constant v \<and> (\<forall>w \<in> set ws. w = v) then Some v else None)"

definition position_constants :: "nat list \<Rightarrow> Expr list list \<Rightarrow> Expr option list" where
  "position_constants protected vss =
     map (\<lambda>(i, vs). if i \<in> set protected then None else unique_constant vs) (enumerate 0 vss)"

type_synonym constants = "(string, Expr option list) btree"

definition identify_constant_positions :: "bindings \<Rightarrow> ChcVc \<Rightarrow> constants" where
  "identify_constant_positions B vc =
     (let protected = heap_liveness_positions (rules vc);
          values = fold (record_values B) (rules vc) []
      in filter (\<lambda>(_, cs). \<exists>c \<in> set cs. c \<noteq> None)
           (map (\<lambda>(p, vss). (p, position_constants (bt_get_or [] protected p) vss)) values))"

section \<open>Rewriting the rules\<close>

fun keep_positions :: "'b option list \<Rightarrow> 'a list \<Rightarrow> 'a list" where
  "keep_positions (c # cs) (x # xs) = (case c of None \<Rightarrow> x # keep_positions cs xs | Some _ \<Rightarrow> keep_positions cs xs)"
| "keep_positions _ xs = xs"

definition strip_app :: "constants \<Rightarrow> RelationApp \<Rightarrow> RelationApp" where
  "strip_app constants a =
     (case bt_get constants (app_name a) of None \<Rightarrow> a | Some cs \<Rightarrow> a\<lparr> app_args := keep_positions cs (app_args a) \<rparr>)"

definition body_constants :: "Expr option list \<Rightarrow> RelationApp \<Rightarrow> (string, Expr) btree" where
  "body_constants cs a =
     fold (\<lambda>(c, arg) m. case (c, var_of arg) of (Some c, Some x) \<Rightarrow> bt_insert x c m | _ \<Rightarrow> m) (zip cs (app_args a)) []"

text \<open>
  The variables of a constraint, without those below constructors and functions; nothing when a variant of the term type
  is unknown.
\<close>

function constraint_vars :: "bindings \<Rightarrow> bool \<Rightarrow> Expr \<Rightarrow> string list option" where
  "constraint_vars B in_dt e =
     (case e of
        Var x s \<Rightarrow> Some (if in_dt then [] else [x])
      | DatatypeConstructor d c es s \<Rightarrow> map_option concat (those (map (constraint_vars B True) es))
      | FuncApp f es s \<Rightarrow> map_option concat (those (map (constraint_vars B True) es))
      | OtherOp f es s \<Rightarrow>
          if known_variant B f then map_option concat (those (map (constraint_vars B in_dt) es)) else None
      | _ \<Rightarrow> map_option concat (those (map (constraint_vars B in_dt) (children e))))"
  by pat_completeness auto
termination
  by (relation "measure (\<lambda>(_, _, e). size e)") (auto intro: size_member size_nested dest: size_children)

declare constraint_vars.simps [simp del]

definition propagate_out :: "string list \<Rightarrow> Expr \<Rightarrow> (string, Expr) btree \<Rightarrow> (string, Expr) btree" where
  "propagate_out constrained arg known =
     (case var_of arg of
        None \<Rightarrow> known
      | Some x \<Rightarrow>
          (case strip_suffix x ''__out'' of
             None \<Rightarrow> known
           | Some base \<Rightarrow>
               if x \<notin> set constrained \<and> bt_get known x = None
               then (case bt_get known base of Some c \<Rightarrow> bt_insert x c known | None \<Rightarrow> known)
               else known))"

definition propagate_to_unconstrained_out_vars ::
    "bindings \<Rightarrow> Expr list \<Rightarrow> Expr list \<Rightarrow> (string, Expr) btree \<Rightarrow> (string, Expr) btree" where
  "propagate_to_unconstrained_out_vars B args cs known =
     (case those (map (constraint_vars B False) (flatten_conjunctions cs)) of
        None \<Rightarrow> known
      | Some vss \<Rightarrow> fold (propagate_out (concat vss)) args known)"

definition rebind :: "bindings \<Rightarrow> RelationApp \<Rightarrow> (string, Expr) btree \<Rightarrow> Expr list" where
  "rebind B a known =
     map (\<lambda>(x, c). Eq (Var x (sort_of B c)) c) (filter (\<lambda>(x, _). x \<in> set (List.map_filter var_of (app_args a))) known)"

definition rewrite_known :: "bindings \<Rightarrow> Expr option list \<Rightarrow> RelationApp \<Rightarrow> (string, Expr) btree \<Rightarrow> Rule \<Rightarrow> Rule" where
  "rewrite_known B cs a known r =
     \<lparr> body = \<lparr> relation = Some (a\<lparr> app_args := keep_positions cs (app_args a) \<rparr>),
                constraints = Owned (map (substitute_vars B known) (body_constraints r) @ rebind B a known) \<rparr>,
       head = (head r)\<lparr> app_args := map (replace_known known) (app_args (head r)) \<rparr> \<rparr>"

definition rewrite_constants :: "bindings \<Rightarrow> Expr option list \<Rightarrow> RelationApp \<Rightarrow> Rule \<Rightarrow> Rule" where
  "rewrite_constants B cs a r =
     (let learned = propagate_through_equalities B (body_constraints r) (body_constants cs a);
          known = propagate_to_unconstrained_out_vars B (app_args (head r)) (body_constraints r) learned
      in rewrite_known B cs a known r)"

definition propagate_rule :: "bindings \<Rightarrow> constants \<Rightarrow> Rule \<Rightarrow> Rule" where
  "propagate_rule B constants r =
     (case body_relation r of
        None \<Rightarrow> r
      | Some a \<Rightarrow>
          (case bt_get constants (app_name a) of
             None \<Rightarrow> r
           | Some cs \<Rightarrow> if body_constants cs a = [] then r else rewrite_constants B cs a r))"

definition strip_head :: "constants \<Rightarrow> Rule \<Rightarrow> Rule" where
  "strip_head constants r = r\<lparr> head := strip_app constants (head r) \<rparr>"

definition strip_sorts :: "constants \<Rightarrow> RelationDecl \<Rightarrow> RelationDecl" where
  "strip_sorts constants d =
     (case bt_get constants (rel_name d) of None \<Rightarrow> d | Some cs \<Rightarrow> d\<lparr> arg_sorts := keep_positions cs (arg_sorts d) \<rparr>)"

definition apply_constant_propagation :: "bindings \<Rightarrow> constants \<Rightarrow> ChcVc \<Rightarrow> ChcVc \<times> nat" where
  "apply_constant_propagation B constants vc =
     (vc\<lparr> rules := map (strip_head constants \<circ> propagate_rule B constants) (rules vc),
          relations := map (strip_sorts constants) (relations vc) \<rparr>,
      sum_list (map (\<lambda>d. length (arg_sorts d) - length (arg_sorts (strip_sorts constants d))) (relations vc)))"

section \<open>Rules and constraints that are decided\<close>

definition has_false_conjunct :: "Expr list \<Rightarrow> bool" where
  "has_false_conjunct cs \<longleftrightarrow> (\<exists>c \<in> set cs. try_eval_to_bool c = Some False)"

definition is_trivially_true :: "Expr \<Rightarrow> bool" where
  "is_trivially_true c \<longleftrightarrow> try_eval_to_bool c = Some True"

definition survives :: "Rule \<Rightarrow> bool" where
  "survives r \<longleftrightarrow>
     (head_name r = ''error'' \<or> starts_with (head_name r) ''error_p'') \<and> rule_body_is_literal_false r \<or>
     \<not> has_false_conjunct (body_constraints r)"

definition eliminate_trivially_false_rules :: "ChcVc \<Rightarrow> ChcVc \<times> nat" where
  "eliminate_trivially_false_rules vc =
     (let kept = filter survives (rules vc) in (vc\<lparr> rules := kept \<rparr>, length (rules vc) - length kept))"

definition strip_true :: "Rule \<Rightarrow> Rule" where
  "strip_true r = r\<lparr> body := (body r)\<lparr> constraints := Owned (filter (\<lambda>c. \<not> is_trivially_true c) (body_constraints r)) \<rparr> \<rparr>"

definition strip_trivially_true_constraints :: "ChcVc \<Rightarrow> ChcVc \<times> nat" where
  "strip_trivially_true_constraints vc =
     (vc\<lparr> rules := map strip_true (rules vc) \<rparr>,
      sum_list (map (\<lambda>r. length (body_constraints r) - length (body_constraints (strip_true r))) (rules vc)))"

section \<open>Rounds\<close>

definition declared_arity :: "ChcVc \<Rightarrow> nat" where
  "declared_arity vc = sum_list (map (\<lambda>d. length (arg_sorts d)) (relations vc))"

lemma keep_positions_length: "length (keep_positions cs xs) \<le> length xs"
  by (induction cs xs rule: keep_positions.induct) (auto split: option.split)

lemma strip_sorts_length: "length (arg_sorts (strip_sorts constants d)) \<le> length (arg_sorts d)"
  by (simp add: strip_sorts_def keep_positions_length split: option.split)

lemma apply_arity:
  assumes "apply_constant_propagation B constants vc = (vc', n)"
  shows "declared_arity vc' + n = declared_arity vc"
proof -
  have "sum_list (map (\<lambda>d. length (arg_sorts (strip_sorts constants d))) ds) +
      sum_list (map (\<lambda>d. length (arg_sorts d) - length (arg_sorts (strip_sorts constants d))) ds) = sum_list (map (\<lambda>d. length (arg_sorts d)) ds)" for ds
  proof (induction ds)
    case (Cons d ds)
    then show ?case
      using strip_sorts_length [of constants d] by simp
  qed simp
  then show ?thesis
    using assms by (auto simp: apply_constant_propagation_def declared_arity_def o_def)
qed

function propagate_rounds :: "bindings \<Rightarrow> ChcVc \<Rightarrow> ChcVc \<times> nat" where
  "propagate_rounds B vc =
     (let constants = identify_constant_positions B vc in
      if constants = [] then (vc, 0)
      else (case apply_constant_propagation B constants vc of
          (vc', n) \<Rightarrow>
            if n = 0 then (vc', 0)
            else (case propagate_rounds B vc' of (vc'', m) \<Rightarrow> (vc'', n + m))))"
  by pat_completeness auto
termination
  by (relation "measure (\<lambda>(_, vc). declared_arity vc)") (auto dest!: apply_arity [OF sym])

declare propagate_rounds.simps [simp del]

definition propagate_constants :: "bindings \<Rightarrow> ChcVc \<Rightarrow> ChcVc \<times> nat" where
  "propagate_constants B vc =
     (case propagate_rounds B vc of
        (vc', n) \<Rightarrow> (fst (strip_trivially_true_constraints (fst (eliminate_trivially_false_rules vc'))), n))"

end
