(* ===== verification/Chc_Const_Prop_Safe.thy ===== *)
theory Chc_Const_Prop_Safe
  imports Chc_Const_Prop
begin

text \<open>
  Constant propagation loses no violation: the rounds of Chc_Const_Prop keep every fact that is derived through well
  sorted rules, the removed columns left out.  Two examples show what the conditions of a plain round exclude.
\<close>

section \<open>Facts derived through well-sorted rules\<close>

definition rule_sorted :: "'v smt \<Rightarrow> 'v sorts \<Rightarrow> (string \<Rightarrow> 'v) \<Rightarrow> Rule \<Rightarrow> bool" where
  "rule_sorted M S \<rho> r \<longleftrightarrow>
     (\<forall>c \<in> set (body_constraints r). well_sorted_at M S \<rho> c) \<and>
     (\<forall>a \<in> set (rule_apps r). \<forall>e \<in> set (app_args a). well_sorted_at M S \<rho> e)"

inductive sorted_derives :: "'v smt \<Rightarrow> 'v sorts \<Rightarrow> Rule list \<Rightarrow> string \<Rightarrow> 'v list \<Rightarrow> bool" for M S rs where
  step: "r \<in> set rs \<Longrightarrow> fires M \<rho> r \<Longrightarrow> rule_sorted M S \<rho> r \<Longrightarrow>
    (\<And>a. body_relation r = Some a \<Longrightarrow> sorted_derives M S rs (app_name a) (args_val M \<rho> a)) \<Longrightarrow>
    sorted_derives M S rs (head_name r) (args_val M \<rho> (head r))"

lemma sorted_derives_derives: "sorted_derives M S rs p vs \<Longrightarrow> derives M rs p vs"
proof (induction rule: sorted_derives.induct)
  case (step r \<rho>)
  then show ?case
    by (cases "body_relation r") (auto intro: derives.intros)
qed

lemma derives_sorted:
  assumes "derives M rs p vs" "\<And>r \<rho>. r \<in> set rs \<Longrightarrow> fits M \<rho> \<Longrightarrow> rule_sorted M S \<rho> r"
  shows "sorted_derives M S rs p vs"
  using assms(1)
proof (induction rule: derives.induct)
  case (fact r \<rho>)
  then show ?case
    using assms(2) by (intro sorted_derives.step) (simp_all add: fires_def)
next
  case (rule r \<rho> a)
  then show ?case
    using assms(2) by (intro sorted_derives.step) (simp_all add: fires_def)
qed

text \<open>A system that simulates another derives the images of its facts; an invariant of the facts may be used.\<close>

lemma sorted_derives_image:
  assumes "sorted_derives M S rs p vs"
    and good: "\<And>p vs. sorted_derives M S rs p vs \<Longrightarrow> good p vs"
    and sim: "\<And>r \<rho>. r \<in> set rs \<Longrightarrow> fires M \<rho> r \<Longrightarrow> rule_sorted M S \<rho> r \<Longrightarrow>
      (\<And>a. body_relation r = Some a \<Longrightarrow> good (app_name a) (args_val M \<rho> a)) \<Longrightarrow>
      \<exists>r' \<in> set rs'. fires M \<rho> r' \<and> rule_sorted M S \<rho> r' \<and> head_name r' = head_name r \<and>
        args_val M \<rho> (head r') = f (head_name r) (args_val M \<rho> (head r)) \<and>
        rel_option (\<lambda>a b. app_name b = app_name a \<and> args_val M \<rho> b = f (app_name a) (args_val M \<rho> a)) (body_relation r) (body_relation r')"
  shows "sorted_derives M S rs' p (f p vs)"
  using assms(1)
proof (induction rule: sorted_derives.induct)
  case (step r \<rho>)
  have "\<And>a. body_relation r = Some a \<Longrightarrow> good (app_name a) (args_val M \<rho> a)"
    using step(4) good by blast
  from sim [OF step(1-3) this] obtain r' where r': "r' \<in> set rs'" "fires M \<rho> r'" "rule_sorted M S \<rho> r'" "head_name r' = head_name r"
      "args_val M \<rho> (head r') = f (head_name r) (args_val M \<rho> (head r))"
      "rel_option (\<lambda>a b. app_name b = app_name a \<and> args_val M \<rho> b = f (app_name a) (args_val M \<rho> a)) (body_relation r) (body_relation r')"
    by blast
  have "sorted_derives M S rs' (app_name b) (args_val M \<rho> b)" if "body_relation r' = Some b" for b
    using r'(6) step(5) that by (auto simp: option_rel_Some2)
  from sorted_derives.step [OF r'(1-3) this] show ?case
    by (simp add: r'(4,5))
qed

section \<open>The values at a position\<close>

definition recorded_value :: "Rule \<Rightarrow> nat \<Rightarrow> Expr \<Rightarrow> (string, Expr list list) btree \<Rightarrow> bool" where
  "recorded_value r i v m \<longleftrightarrow> (\<exists>vss. bt_get m (head_name r) = Some vss \<and> i < length vss \<and> v \<in> set (vss ! i))"

lemma bt_get_or_get: "bt_get_or d m k = (case bt_get m k of Some v \<Rightarrow> v | None \<Rightarrow> d)"
  by (simp add: bt_get_or_def split: option.split)

lemma resolve_head_args_length [simp]: "length (resolve_head_args B r) = length (app_args (head r))"
  by (simp add: resolve_head_args_def)

lemma record_values_get:
  "bt_get (record_values B r m) (head_name r) =
    (let old = bt_get_or (replicate (length (app_args (head r))) []) m (head_name r);
         entry = old @ replicate (length (app_args (head r)) - length old) []
     in Some (map (\<lambda>(i, vs). if i < length (app_args (head r)) \<and> i \<notin> set (detect_identity_positions r)
          then vs @ [resolve_head_args B r ! i] else vs) (enumerate 0 entry)))"
  by (simp add: record_values_def Let_def)

lemma record_values_other: "q \<noteq> head_name r \<Longrightarrow> bt_get (record_values B r m) q = bt_get m q"
  by (simp add: record_values_def Let_def)

lemma record_values_new:
  assumes "i < length (app_args (head r))" "i \<notin> set (detect_identity_positions r)"
  shows "recorded_value r i (resolve_head_args B r ! i) (record_values B r m)"
  using assms by (simp add: recorded_value_def record_values_get Let_def nth_enumerate_eq)

lemma record_values_keeps:
  assumes "recorded_value r i v m"
  shows "recorded_value r i v (record_values B r' m)"
proof (cases "head_name r = head_name r'")
  case True
  obtain vss where vss: "bt_get m (head_name r') = Some vss" "i < length vss" "v \<in> set (vss ! i)"
    using assms by (auto simp: recorded_value_def True)
  then show ?thesis
    by (auto simp: recorded_value_def True record_values_get Let_def bt_get_or_get nth_enumerate_eq nth_append)
next
  case False
  with assms show ?thesis
    by (simp add: recorded_value_def record_values_other)
qed

lemma record_values_wf: "bt_wf m \<Longrightarrow> bt_wf (record_values B r m)"
  by (simp add: record_values_def Let_def bt_wf_insert)

lemma recorded_all:
  assumes "r \<in> set rs" "i < length (app_args (head r))" "i \<notin> set (detect_identity_positions r)"
  shows "recorded_value r i (resolve_head_args B r ! i) (fold (record_values B) rs m)"
proof -
  have keeps: "recorded_value r i v m \<Longrightarrow> recorded_value r i v (fold (record_values B) rs m)" for v m rs
    by (induction rs arbitrary: m) (simp_all add: record_values_keeps)
  from split_list [OF assms(1)] obtain xs ys where "rs = xs @ r # ys"
    by blast
  then show ?thesis
    using keeps [OF record_values_new [OF assms(2,3)]] by simp
qed

lemma values_wf: "bt_wf m \<Longrightarrow> bt_wf (fold (record_values B) rs m)"
  by (induction rs arbitrary: m) (simp_all add: record_values_wf)

lemma unique_constant_Some: "unique_constant vs = Some c \<Longrightarrow> is_constant c \<and> (\<forall>v \<in> set vs. v = c)"
  by (cases vs) (auto simp: unique_constant_def split: if_splits)

text \<open>A constant of a position is what every rule puts there.\<close>

lemma identified_constant:
  assumes "bt_get (identify_constant_positions B vc) (head_name r) = Some cs" "r \<in> set (rules vc)"
    and "i < length cs" "cs ! i = Some c" "i < length (app_args (head r))" "i \<notin> set (detect_identity_positions r)"
  shows "is_constant c \<and> resolve_head_args B r ! i = c"
proof -
  let ?recorded = "fold (record_values B) (rules vc) []"
  have "(head_name r, cs) \<in> set (identify_constant_positions B vc)"
    using assms(1) by (rule map_of_SomeD)
  then obtain vss where vss: "(head_name r, vss) \<in> set ?recorded"
      "cs = position_constants (bt_get_or [] (heap_liveness_positions (rules vc)) (head_name r)) vss"
    by (auto simp: identify_constant_positions_def Let_def)
  have get: "bt_get ?recorded (head_name r) = Some vss"
    using vss(1) bt_get_iff [OF values_wf [OF bt_wf_Nil]] by blast
  have "unique_constant (vss ! i) = Some c"
    using assms(3,4) unfolding vss(2) position_constants_def by (auto simp: nth_enumerate_eq split: if_splits)
  moreover have "resolve_head_args B r ! i \<in> set (vss ! i)"
    using recorded_all [OF assms(2,5,6), of B "[]"] get by (simp add: recorded_value_def)
  ultimately show ?thesis
    using unique_constant_Some by blast
qed

section \<open>One round\<close>

definition strip_values :: "constants \<Rightarrow> string \<Rightarrow> 'v list \<Rightarrow> 'v list" where
  "strip_values constants p vs = (case bt_get constants p of None \<Rightarrow> vs | Some cs \<Rightarrow> keep_positions cs vs)"

definition constant_fact :: "'v smt \<Rightarrow> 'v sorts \<Rightarrow> constants \<Rightarrow> string \<Rightarrow> 'v list \<Rightarrow> bool" where
  "constant_fact M S constants p vs \<longleftrightarrow>
     (\<forall>cs i c. bt_get constants p = Some cs \<longrightarrow> i < length cs \<longrightarrow> i < length vs \<longrightarrow> cs ! i = Some c \<longrightarrow>
        is_constant c \<and> (\<forall>\<rho>. val M \<rho> c = vs ! i \<and> well_sorted_at M S \<rho> c))"

text \<open>
  The two steps of a round that are not justified by the facts alone: a rule whose premise has no variable at a constant
  position is left as it is, and an unconstrained output variable is taken to be the copy of its input.
\<close>

definition plain_rule :: "bindings \<Rightarrow> constants \<Rightarrow> Rule \<Rightarrow> bool" where
  "plain_rule B constants r \<longleftrightarrow>
     (case body_relation r of
        None \<Rightarrow> True
      | Some a \<Rightarrow>
          (case bt_get constants (app_name a) of
             None \<Rightarrow> True
           | Some cs \<Rightarrow>
               body_constants cs a \<noteq> [] \<and>
               (let learned = propagate_through_equalities B (body_constraints r) (body_constants cs a)
                in propagate_to_unconstrained_out_vars B (app_args (head r)) (body_constraints r) learned = learned)))"

definition plain_round :: "bindings \<Rightarrow> ChcVc \<Rightarrow> bool" where
  "plain_round B vc \<longleftrightarrow> (\<forall>r \<in> set (rules vc). plain_rule B (identify_constant_positions B vc) r)"

lemma keep_positions_map: "keep_positions cs (map f xs) = map f (keep_positions cs xs)"
  by (induction cs xs rule: keep_positions.induct) (auto split: option.split)

lemma keep_positions_subset: "set (keep_positions cs xs) \<subseteq> set xs"
  by (induction cs xs rule: keep_positions.induct) (auto split: option.split)

lemma args_val_strip_app: "args_val M \<rho> (strip_app constants a) = strip_values constants (app_name a) (args_val M \<rho> a)"
  by (simp add: strip_app_def args_val_def strip_values_def keep_positions_map split: option.split)

lemma strip_app_simps [simp]: "app_name (strip_app constants a) = app_name a"
  by (simp add: strip_app_def split: option.split)

lemma strip_app_args: "set (app_args (strip_app constants a)) \<subseteq> set (app_args a)"
  using keep_positions_subset by (cases "bt_get constants (app_name a)") (simp_all add: strip_app_def)

lemma var_equivalences_Some:
  assumes "bt_get (var_equivalences r) x = Some y"
  shows "\<exists>e \<in> set (body_constraints r). equated e = Some (x, y) \<or> equated e = Some (y, x)"
proof -
  let ?pairs = "List.map_filter equated (body_constraints r)"
  let ?from = "\<lambda>m. \<forall>x y. bt_get m x = Some y \<longrightarrow> (x, y) \<in> set ?pairs \<or> (y, x) \<in> set ?pairs"
  have "?from (fold (\<lambda>(a, b) m. bt_insert b a (bt_insert a b m)) ?pairs [])"
  proof (rule fold_invariant_member [where P = ?from])
    fix p m
    assume p: "p \<in> set ?pairs" and m: "?from m"
    obtain a b where ab: "p = (a, b)"
      by (cases p)
    show "?from ((\<lambda>(a, b) m. bt_insert b a (bt_insert a b m)) p m)"
    proof (intro allI impI)
      fix x y
      assume "bt_get ((\<lambda>(a, b) m. bt_insert b a (bt_insert a b m)) p m) x = Some y"
      then have "x = b \<and> y = a \<or> x = a \<and> y = b \<or> bt_get m x = Some y"
        by (simp add: ab split: if_splits)
      then show "(x, y) \<in> set ?pairs \<or> (y, x) \<in> set ?pairs"
        using p m unfolding ab by blast
    qed
  qed simp
  then have "(x, y) \<in> set ?pairs \<or> (y, x) \<in> set ?pairs"
    using assms unfolding var_equivalences_def by blast
  then show ?thesis
    by (auto simp: List.map_filter_def)
qed

lemma equated_Some: "equated e = Some (x, y) \<Longrightarrow> \<exists>s t. e = Eq (Var x s) (Var y t)"
  by (cases e) (auto simp: equated_def var_of_Some split: option.splits)

context smt_bindings
begin

lemma replace_known_keeps: "stands_for M S \<rho> known \<Longrightarrow> sorted_at \<rho> e \<Longrightarrow> keeps \<rho> e (replace_known known e)"
  by (auto simp: replace_known_def stands_for_def val_Var var_of_Some split: option.split)

lemma rule_says: "fires M \<rho> r \<Longrightarrow> rule_sorted M S \<rho> r \<Longrightarrow> says M S \<rho> (body_constraints r)"
  by (simp add: fires_def rule_sorted_def says_def)

lemma identity_value:
  assumes "fires M \<rho> r" "i \<in> set (detect_identity_positions r)"
  obtains a where "body_relation r = Some a" "app_name a = head_name r" "i < length (app_args a)" "i < length (app_args (head r))"
    "val M \<rho> (app_args (head r) ! i) = val M \<rho> (app_args a ! i)"
proof -
  obtain a where a: "body_relation r = Some a" "app_name a = head_name r" "i < length (app_args a)" "i < length (app_args (head r))"
      "same_slot (var_equivalences r) (app_args (head r) ! i) (app_args a ! i)"
    using assms(2) by (cases "body_relation r") (simp_all add: detect_identity_positions_def split: if_splits)
  from a(5) obtain x y where xy: "var_of (app_args (head r) ! i) = Some x" "var_of (app_args a ! i) = Some y" "x = y \<or> bt_get (var_equivalences r) x = Some y"
    by (auto simp: same_slot_def split: option.splits)
  have "\<rho> x = \<rho> y" if get: "bt_get (var_equivalences r) x = Some y"
  proof -
    obtain e where e: "e \<in> set (body_constraints r)" "equated e = Some (x, y) \<or> equated e = Some (y, x)"
      using var_equivalences_Some [OF get] by blast
    then have "holds M \<rho> e"
      using assms(1) by (simp add: fires_def)
    moreover obtain s t where "e = Eq (Var x s) (Var y t) \<or> e = Eq (Var y s) (Var x t)"
      using e(2) equated_Some by blast
    ultimately show ?thesis
      by (auto simp: holds_Eq val_Var)
  qed
  then have "\<rho> x = \<rho> y"
    using xy(3) by blast
  then show ?thesis
    using that a(1-4) var_value [OF xy(1), of \<rho>] var_value [OF xy(2), of \<rho>] by simp
qed

lemma constant_facts:
  assumes "sorted_derives M S (rules vc) p vs"
  shows "constant_fact M S (identify_constant_positions B vc) p vs"
  using assms
proof (induction rule: sorted_derives.induct)
  case (step r \<rho>)
  show ?case
    unfolding constant_fact_def
  proof (intro allI impI)
    fix cs i c
    assume cs: "bt_get (identify_constant_positions B vc) (head_name r) = Some cs" "i < length cs"
      "i < length (args_val M \<rho> (head r))" "cs ! i = Some c"
    then have i: "i < length (app_args (head r))" "args_val M \<rho> (head r) ! i = val M \<rho> (app_args (head r) ! i)"
      by (simp_all add: args_val_def)
    show "is_constant c \<and> (\<forall>\<sigma>. val M \<sigma> c = args_val M \<rho> (head r) ! i \<and> sorted_at \<sigma> c)"
    proof (cases "i \<in> set (detect_identity_positions r)")
      case True
      with step(2) obtain a where a: "body_relation r = Some a" "app_name a = head_name r" "i < length (app_args a)"
          "val M \<rho> (app_args (head r) ! i) = val M \<rho> (app_args a ! i)"
        by (rule identity_value)
      have "constant_fact M S (identify_constant_positions B vc) (head_name r) (args_val M \<rho> a)"
        using step(5) [OF a(1)] by (simp add: a(2))
      then show ?thesis
        using cs(1,2,4) a(3) i(2) by (simp add: constant_fact_def args_val_def a(4))
    next
      case False
      note c = identified_constant [OF cs(1) step(1) cs(2,4) i(1) False]
      let ?known = "propagate_through_equalities B (body_constraints r) []"
      have "stands_for M S \<rho> ?known"
        using rule_says [OF step(2,3)] by (intro propagate_through_equalities_sound) simp_all
      moreover have "sorted_at \<rho> (app_args (head r) ! i)"
        using step(3) i(1) by (simp add: rule_sorted_def rule_apps_def)
      ultimately have "keeps \<rho> (app_args (head r) ! i) (replace_known ?known (app_args (head r) ! i))"
        by (rule replace_known_keeps)
      moreover have "replace_known ?known (app_args (head r) ! i) = c"
        using c i(1) by (simp add: resolve_head_args_def)
      ultimately have "val M \<rho> c = args_val M \<rho> (head r) ! i" "sorted_at \<rho> c"
        using i(2) by simp_all
      then show ?thesis
        using c sorted_constant val_constant by metis
    qed
  qed
qed

lemma body_constants_stand:
  assumes "constant_fact M S constants (app_name a) (args_val M \<rho> a)" "bt_get constants (app_name a) = Some cs"
  shows "stands_for M S \<rho> (body_constants cs a)"
  unfolding body_constants_def
proof (rule fold_invariant_member)
  fix p m
  assume p: "p \<in> set (zip cs (app_args a))" and m: "stands_for M S \<rho> m"
  from p obtain i where "cs ! i = fst p" "app_args a ! i = snd p" "i < length cs" "i < length (app_args a)"
    unfolding in_set_zip by blast
  then have i: "i < length cs" "i < length (app_args a)" "p = (cs ! i, app_args a ! i)"
    by simp_all
  show "stands_for M S \<rho> ((\<lambda>(c, arg) m. case (c, var_of arg) of (Some c, Some x) \<Rightarrow> bt_insert x c m | _ \<Rightarrow> m) p m)"
  proof (cases "\<exists>c x. cs ! i = Some c \<and> var_of (app_args a ! i) = Some x")
    case True
    then obtain c x where c: "cs ! i = Some c" and x: "var_of (app_args a ! i) = Some x"
      by blast
    have "args_val M \<rho> a ! i = \<rho> x" "i < length (args_val M \<rho> a)"
      using i(2) var_value [OF x, of \<rho>] by (simp_all add: args_val_def)
    then have "is_constant c \<and> val M \<rho> c = \<rho> x \<and> sorted_at \<rho> c"
      using assms(1) [unfolded constant_fact_def, rule_format, OF assms(2) i(1) _ c] by metis
    then have "stands_for M S \<rho> (bt_insert x c m)"
      using m by (intro stands_for_insert) simp_all
    then show ?thesis
      unfolding i(3) by (simp only: prod.case c x option.case)
  next
    case False
    then have "(\<lambda>(c, arg) m. case (c, var_of arg) of (Some c, Some x) \<Rightarrow> bt_insert x c m | _ \<Rightarrow> m) p m = m"
      unfolding i(3) by (cases "cs ! i"; cases "var_of (app_args a ! i)") simp_all
    with m show ?thesis
      by simp
  qed
qed simp

text \<open>A rewritten rule fires wherever the rule did, on the facts without their constant positions.\<close>

lemma rebind_says:
  assumes "stands_for M S \<rho> known" "bt_wf known"
  shows "says M S \<rho> (rebind B a known)"
  unfolding says_def
proof
  fix e
  assume "e \<in> set (rebind B a known)"
  then obtain x c where e: "e = Eq (Var x (sort_of B c)) c" "(x, c) \<in> set known"
    by (auto simp: rebind_def)
  then have "bt_get known x = Some c"
    using bt_get_iff [OF assms(2)] by blast
  then have "val M \<rho> c = \<rho> x" "sorted_at \<rho> c"
    using assms(1) by (simp_all add: stands_for_def)
  then show "holds M \<rho> e \<and> sorted_at \<rho> e"
    by (simp add: e(1) holds_Eq val_Var well_sorted_children [of "Eq _ _"] is_binder_def node_sorted_def same_sort_refl)
qed

end

text \<open>The tables stay ordered by key.\<close>

lemma learn_wf: "bt_wf m \<Longrightarrow> bt_wf (learn x c m)"
  by (auto simp: learn_def split: option.split)

lemma propagate_through_equalities_wf:
  assumes "bt_wf known"
  shows "bt_wf (propagate_through_equalities B cs known)"
proof -
  have step: "bt_wf m \<Longrightarrow> bt_wf (equality_step B e m)" for e m
    by (cases e) (auto simp: equality_step_def learn_wf split: option.split)
  have pass: "bt_wf m \<Longrightarrow> bt_wf (equality_pass B flat m)" for flat m
    unfolding equality_pass_def using step by (intro fold_invariant_member [where P = bt_wf])
  have sel: "bt_wf m \<Longrightarrow> bt_wf (select_step B stores e m)" for stores e m
    by (cases e) (auto simp: select_step_def split: option.split)
  have sels: "bt_wf m \<Longrightarrow> bt_wf (fold (select_step B stores) flat m)" for stores flat m
    using sel by (intro fold_invariant_member [where P = bt_wf])
  have eqs: "bt_wf (resolve_equalities B flat known)" for flat
    unfolding resolve_equalities_def using assms pass by (rule saturate_invariant)
  have "bt_wf (resolve_array_store_selects B flat m)" if "bt_wf m" for flat m
    unfolding resolve_array_store_selects_def Let_def using that sels by (auto simp del: saturate.simps intro!: saturate_invariant [where P = bt_wf])
  then show ?thesis
    by (simp add: propagate_through_equalities_def Let_def eqs)
qed

lemma body_constants_wf: "bt_wf (body_constants cs a)"
  unfolding body_constants_def
  by (rule fold_invariant_member [where P = bt_wf]) (auto split: option.split)

context smt_bindings
begin

lemma rewrite_fires:
  assumes "fires M \<rho> r" "rule_sorted M S \<rho> r" "body_relation r = Some a" "stands_for M S \<rho> known" "bt_wf known"
  shows "fires M \<rho> (rewrite_known B cs a known r) \<and> rule_sorted M S \<rho> (rewrite_known B cs a known r) \<and>
    args_val M \<rho> (head (rewrite_known B cs a known r)) = args_val M \<rho> (head r)"
proof -
  note said = rule_says [OF assms(1,2)]
  have args: "\<And>e. e \<in> set (app_args (head r)) \<Longrightarrow> sorted_at \<rho> e" "\<And>e. e \<in> set (app_args a) \<Longrightarrow> sorted_at \<rho> e"
    using assms(2,3) by (simp_all add: rule_sorted_def rule_apps_def)
  have subst: "keeps \<rho> c (substitute_vars B known c)" if "c \<in> set (body_constraints r)" for c
    using substitute_keeps [OF assms(4)] said that by (simp add: says_def)
  have "holds M \<rho> (substitute_vars B known c) \<and> sorted_at \<rho> (substitute_vars B known c)" if "c \<in> set (body_constraints r)" for c
    using subst [OF that] said that holds_same [of \<rho> "substitute_vars B known c" c] by (simp add: says_def)
  then have cs: "says M S \<rho> (map (substitute_vars B known) (body_constraints r) @ rebind B a known)"
    using rebind_says [OF assms(4,5), of a] by (auto simp: says_def)
  have head: "keeps \<rho> e (replace_known known e)" if "e \<in> set (app_args (head r))" for e
    using replace_known_keeps [OF assms(4) args(1) [OF that]] .
  have "fires M \<rho> (rewrite_known B cs a known r)"
    using cs assms(1) by (simp add: fires_def rewrite_known_def says_def)
  moreover have "rule_sorted M S \<rho> (rewrite_known B cs a known r)"
    using cs head args(2) keep_positions_subset [of cs "app_args a"] by (auto simp: rule_sorted_def rule_apps_def rewrite_known_def says_def)
  moreover have "args_val M \<rho> (head (rewrite_known B cs a known r)) = args_val M \<rho> (head r)"
    using head by (simp add: args_val_def rewrite_known_def)
  ultimately show ?thesis
    by blast
qed

lemma propagate_rule_fires:
  assumes "fires M \<rho> r" "rule_sorted M S \<rho> r" "plain_rule B constants r"
    and "\<And>a. body_relation r = Some a \<Longrightarrow> constant_fact M S constants (app_name a) (args_val M \<rho> a)"
  shows "\<exists>r'. r' = strip_head constants (propagate_rule B constants r) \<and> fires M \<rho> r' \<and> rule_sorted M S \<rho> r' \<and> head_name r' = head_name r \<and>
    args_val M \<rho> (head r') = strip_values constants (head_name r) (args_val M \<rho> (head r)) \<and>
    rel_option (\<lambda>a b. app_name b = app_name a \<and> args_val M \<rho> b = strip_values constants (app_name a) (args_val M \<rho> a))
      (body_relation r) (body_relation r')"
proof -
  let ?r = "propagate_rule B constants r"
  have "fires M \<rho> ?r \<and> rule_sorted M S \<rho> ?r \<and> head_name ?r = head_name r \<and> args_val M \<rho> (head ?r) = args_val M \<rho> (head r) \<and>
    rel_option (\<lambda>a b. app_name b = app_name a \<and> args_val M \<rho> b = strip_values constants (app_name a) (args_val M \<rho> a))
      (body_relation r) (body_relation ?r)"
  proof (cases "body_relation r")
    case None
    then show ?thesis
      using assms(1,2) by (simp add: propagate_rule_def)
  next
    case (Some a)
    show ?thesis
    proof (cases "bt_get constants (app_name a)")
      case None
      then show ?thesis
        using assms(1,2) Some by (simp add: propagate_rule_def strip_values_def)
    next
      case (Some cs)
      let ?learned = "propagate_through_equalities B (body_constraints r) (body_constants cs a)"
      have r: "?r = rewrite_known B cs a ?learned r"
        using assms(3) Some \<open>body_relation r = Some a\<close> by (simp add: propagate_rule_def plain_rule_def rewrite_constants_def Let_def)
      have "stands_for M S \<rho> ?learned"
        using rule_says [OF assms(1,2)] body_constants_stand [OF assms(4) Some] \<open>body_relation r = Some a\<close>
        by (intro propagate_through_equalities_sound) simp_all
      moreover have "bt_wf ?learned"
        by (intro propagate_through_equalities_wf body_constants_wf)
      ultimately have "fires M \<rho> ?r \<and> rule_sorted M S \<rho> ?r \<and> args_val M \<rho> (head ?r) = args_val M \<rho> (head r)"
        unfolding r using assms(1,2) \<open>body_relation r = Some a\<close> by (intro rewrite_fires)
      moreover have "head_name ?r = head_name r" "body_relation ?r = Some (a\<lparr> app_args := keep_positions cs (app_args a) \<rparr>)"
        unfolding r by (simp_all add: rewrite_known_def)
      ultimately show ?thesis
        using Some \<open>body_relation r = Some a\<close> by (simp add: args_val_def strip_values_def keep_positions_map)
    qed
  qed
  moreover from this have "rule_sorted M S \<rho> (strip_head constants ?r)"
    using strip_app_args [of constants "head ?r"] by (auto simp: rule_sorted_def strip_head_def rule_apps_def)
  ultimately show ?thesis
    by (simp add: strip_head_def fires_def args_val_strip_app)
qed

lemma round_keeps:
  assumes "sorted_derives M S (rules vc) p vs" "plain_round B vc"
  defines "constants \<equiv> identify_constant_positions B vc"
  shows "sorted_derives M S (rules (fst (apply_constant_propagation B constants vc))) p (strip_values constants p vs)"
  using assms(1)
proof (rule sorted_derives_image)
  show "constant_fact M S constants q us" if "sorted_derives M S (rules vc) q us" for q us
    unfolding constants_def using that by (rule constant_facts)
  fix r \<rho>
  assume r: "r \<in> set (rules vc)" "fires M \<rho> r" "rule_sorted M S \<rho> r"
    and body: "\<And>a. body_relation r = Some a \<Longrightarrow> constant_fact M S constants (app_name a) (args_val M \<rho> a)"
  have "plain_rule B constants r"
    using assms(2) r(1) by (simp add: plain_round_def constants_def)
  from propagate_rule_fires [OF r(2,3) this body] r(1)
  show "\<exists>r' \<in> set (rules (fst (apply_constant_propagation B constants vc))). fires M \<rho> r' \<and> rule_sorted M S \<rho> r' \<and>
      head_name r' = head_name r \<and> args_val M \<rho> (head r') = strip_values constants (head_name r) (args_val M \<rho> (head r)) \<and>
      rel_option (\<lambda>a b. app_name b = app_name a \<and> args_val M \<rho> b = strip_values constants (app_name a) (args_val M \<rho> a))
        (body_relation r) (body_relation r')"
    by (auto simp: apply_constant_propagation_def)
qed

lemma decided_false: "try_eval_to_bool c = Some False \<Longrightarrow> sorted_at \<rho> c \<Longrightarrow> \<not> holds M \<rho> c"
  using bool_soundD [OF conjunct1 [OF eval_sound], of \<rho> c False] by simp

lemma simplify_keeps:
  assumes "sorted_derives M S (rules vc) p vs"
  shows "sorted_derives M S (rules (fst (strip_trivially_true_constraints (fst (eliminate_trivially_false_rules vc))))) p vs"
proof -
  have "sorted_derives M S (rules (fst (strip_trivially_true_constraints (fst (eliminate_trivially_false_rules vc))))) p ((\<lambda>p vs. vs) p vs)"
    using assms
  proof (rule sorted_derives_image [where good = "\<lambda>p vs. True"])
    fix r \<rho>
    assume r: "r \<in> set (rules vc)" "fires M \<rho> r" "rule_sorted M S \<rho> r"
    have "\<not> has_false_conjunct (body_constraints r)"
      using r(2,3) decided_false unfolding has_false_conjunct_def fires_def rule_sorted_def by blast
    then have "survives r"
      by (simp add: survives_def)
    then have "strip_true r \<in> set (rules (fst (strip_trivially_true_constraints (fst (eliminate_trivially_false_rules vc)))))"
      using r(1) by (simp add: strip_trivially_true_constraints_def eliminate_trivially_false_rules_def Let_def)
    moreover have "fires M \<rho> (strip_true r)" "rule_sorted M S \<rho> (strip_true r)"
      using r(2,3) by (simp_all add: strip_true_def fires_def rule_sorted_def rule_apps_def)
    ultimately show "\<exists>r' \<in> set (rules (fst (strip_trivially_true_constraints (fst (eliminate_trivially_false_rules vc))))).
        fires M \<rho> r' \<and> rule_sorted M S \<rho> r' \<and> head_name r' = head_name r \<and> args_val M \<rho> (head r') = args_val M \<rho> (head r) \<and>
        rel_option (\<lambda>a b. app_name b = app_name a \<and> args_val M \<rho> b = args_val M \<rho> a) (body_relation r) (body_relation r')"
      by (intro bexI [of _ "strip_true r"]) (simp_all add: strip_true_def option.rel_refl)
  qed simp
  then show ?thesis
    by simp
qed

end

section \<open>All rounds\<close>

text \<open>The systems on which a round is run.\<close>

function visited :: "bindings \<Rightarrow> ChcVc \<Rightarrow> ChcVc list" where
  "visited B vc =
     (let constants = identify_constant_positions B vc in
      if constants = [] then []
      else (case apply_constant_propagation B constants vc of
          (vc', n) \<Rightarrow> vc # (if n = 0 then [] else visited B vc')))"
  by pat_completeness auto
termination
  by (relation "measure (\<lambda>(_, vc). declared_arity vc)") (auto dest!: apply_arity [OF sym])

declare visited.simps [simp del]

lemma propagate_rounds_cases:
  obtains "identify_constant_positions B vc = []" "propagate_rounds B vc = (vc, 0)" "visited B vc = []"
  | vc' where "apply_constant_propagation B (identify_constant_positions B vc) vc = (vc', 0)" "propagate_rounds B vc = (vc', 0)" "visited B vc = [vc]"
  | vc' n vc'' m where "apply_constant_propagation B (identify_constant_positions B vc) vc = (vc', n)" "0 < n"
      "propagate_rounds B vc' = (vc'', m)" "propagate_rounds B vc = (vc'', n + m)" "visited B vc = vc # visited B vc'"
proof -
  obtain vc' n where ap: "apply_constant_propagation B (identify_constant_positions B vc) vc = (vc', n)"
    by (cases "apply_constant_propagation B (identify_constant_positions B vc) vc")
  obtain vc'' m where rs: "propagate_rounds B vc' = (vc'', m)"
    by (cases "propagate_rounds B vc'")
  note eqs = propagate_rounds.simps [of B vc] visited.simps [of B vc]
  show thesis
  proof (cases "identify_constant_positions B vc = []")
    case True
    with that(1) eqs show thesis
      by simp
  next
    case False
    show thesis
    proof (cases "n = 0")
      case True
      with False that(2) [of vc'] eqs ap show thesis
        by simp
    next
      case pos: False
      with False that(3) [OF ap _ rs] eqs ap rs show thesis
        by simp
    qed
  qed
qed

lemma propagate_rounds_invariant:
  assumes "P vc" "\<And>v. v \<in> set (visited B vc) \<Longrightarrow> P v \<Longrightarrow> P (fst (apply_constant_propagation B (identify_constant_positions B v) v))"
  shows "P (fst (propagate_rounds B vc))"
  using assms
proof (induction "declared_arity vc" arbitrary: vc rule: less_induct)
  case less
  show ?case
  proof (cases rule: propagate_rounds_cases [of B vc])
    case 1
    with less.prems(1) show ?thesis
      by simp
  next
    case (2 vc')
    then show ?thesis
      using less.prems(2) [of vc] less.prems(1) by simp
  next
    case (3 vc' n vc'' m)
    have "declared_arity vc' < declared_arity vc"
      using apply_arity [OF 3(1)] 3(2) by simp
    moreover have "P vc'"
      using less.prems(2) [of vc] less.prems(1) by (simp add: 3)
    ultimately have "P (fst (propagate_rounds B vc'))"
      using less.hyps less.prems(2) by (simp add: 3(5))
    then show ?thesis
      by (simp add: 3(3,4))
  qed
qed

lemma propagate_rounds_arity: "declared_arity (fst (propagate_rounds B vc)) + snd (propagate_rounds B vc) = declared_arity vc"
proof (induction "declared_arity vc" arbitrary: vc rule: less_induct)
  case less
  show ?case
  proof (cases rule: propagate_rounds_cases [of B vc])
    case (2 vc')
    then show ?thesis
      using apply_arity [OF 2(1)] by simp
  next
    case (3 vc' n vc'' m)
    then show ?thesis
      using apply_arity [OF 3(1)] less.hyps [of vc'] by simp
  qed simp
qed

text \<open>Every application keeps the declared number of arguments.\<close>

lemma keep_positions_lengths: "length xs = length ys \<Longrightarrow> length (keep_positions cs xs) = length (keep_positions cs ys)"
proof (induction cs xs arbitrary: ys rule: keep_positions.induct)
  case (1 c cs x xs)
  then show ?case
    by (cases ys) (auto split: option.split)
qed (auto simp: keep_positions.simps)

lemma round_arity_ok:
  assumes "arity_ok vc" "plain_round B vc"
  shows "arity_ok (fst (apply_constant_propagation B (identify_constant_positions B vc) vc))"
proof -
  let ?cs = "identify_constant_positions B vc"
  have names: "rel_name (strip_sorts ?cs d) = rel_name d" for d
    by (simp add: strip_sorts_def split: option.split)
  have lengths: "length (app_args (strip_app ?cs a)) = length (arg_sorts (strip_sorts ?cs d))"
    if "rel_name d = app_name a" "length (app_args a) = length (arg_sorts d)" for a d
    using that keep_positions_lengths by (auto simp: strip_app_def strip_sorts_def split: option.split)
  have same: "length (app_args (strip_app ?cs a)) = length (app_args (strip_app ?cs b))"
    if "app_name a = app_name b" "length (app_args a) = length (app_args b)" for a b
    using that keep_positions_lengths by (auto simp: strip_app_def split: option.split)
  have apps: "\<exists>b \<in> set (rule_apps r). app_name a = app_name b \<and> length (app_args a) = length (app_args (strip_app ?cs b))"
    if r: "r \<in> set (rules vc)" and a: "a \<in> set (rule_apps (strip_head ?cs (propagate_rule B ?cs r)))" for r a
  proof -
    have plain: "plain_rule B ?cs r"
      using assms(2) r by (simp add: plain_round_def)
    let ?r = "propagate_rule B ?cs r"
    have head: "app_name (head ?r) = head_name r" "length (app_args (head ?r)) = length (app_args (head r))"
      by (simp_all add: propagate_rule_def rewrite_constants_def rewrite_known_def Let_def split: option.split)
    consider "a = strip_app ?cs (head ?r)" | "body_relation ?r = Some a"
      using a by (auto simp: rule_apps_def strip_head_def split: option.splits)
    then show ?thesis
    proof cases
      case 1
      then show ?thesis
        using head same [OF head] by (intro bexI [of _ "head r"]) (simp_all add: rule_apps_def)
    next
      case 2
      then obtain b where b: "body_relation r = Some b"
        by (cases "body_relation r") (simp_all add: propagate_rule_def)
      have "app_name a = app_name b \<and> length (app_args a) = length (app_args (strip_app ?cs b))"
      proof (cases "bt_get ?cs (app_name b)")
        case None
        then show ?thesis
          using 2 b by (simp add: propagate_rule_def strip_app_def)
      next
        case (Some cs)
        then have "?r = rewrite_constants B cs b r"
          using plain b by (simp add: plain_rule_def propagate_rule_def)
        then show ?thesis
          using 2 Some by (auto simp: rewrite_constants_def rewrite_known_def Let_def strip_app_def)
      qed
      then show ?thesis
        using b by (intro bexI [of _ b]) (simp_all add: rule_apps_def)
    qed
  qed
  let ?vc = "fst (apply_constant_propagation B ?cs vc)"
  have "distinct (map rel_name (relations ?vc))"
    using assms(1) by (simp add: arity_ok_def apply_constant_propagation_def o_def names)
  moreover have "\<exists>d \<in> set (relations ?vc). rel_name d = app_name a \<and> length (app_args a) = length (arg_sorts d)"
    if "r \<in> set (rules ?vc)" "a \<in> set (rule_apps r)" for r a
  proof -
    from that obtain r0 where r0: "r0 \<in> set (rules vc)" "r = strip_head ?cs (propagate_rule B ?cs r0)"
      by (auto simp: apply_constant_propagation_def)
    from apps [OF r0(1)] that(2) obtain b where b: "b \<in> set (rule_apps r0)" "app_name a = app_name b"
        "length (app_args a) = length (app_args (strip_app ?cs b))"
      unfolding r0(2) by blast
    with assms(1) r0(1) obtain d where "d \<in> set (relations vc)" "rel_name d = app_name b" "length (app_args b) = length (arg_sorts d)"
      unfolding arity_ok_def by blast
    then show ?thesis
      using lengths [of d b] b(2,3) names [of d] by (intro bexI [of _ "strip_sorts ?cs d"]) (simp_all add: apply_constant_propagation_def)
  qed
  ultimately show ?thesis
    unfolding arity_ok_def by blast
qed

lemma simplify_arity_ok:
  "arity_ok vc \<Longrightarrow> arity_ok (fst (strip_trivially_true_constraints (fst (eliminate_trivially_false_rules vc))))"
proof -
  have "rule_apps (strip_true r) = rule_apps r" for r
    by (simp add: strip_true_def rule_apps_def)
  then show "arity_ok vc \<Longrightarrow> ?thesis"
    by (auto simp: arity_ok_def strip_trivially_true_constraints_def eliminate_trivially_false_rules_def Let_def)
qed

lemma round_target: "query_target (fst (apply_constant_propagation B cs vc)) = query_target vc"
  by (simp add: apply_constant_propagation_def)

lemma round_derives:
  assumes "smt_bindings M S B" "plain_round B vc" "\<exists>vs. sorted_derives M S (rules vc) p vs"
  shows "\<exists>vs. sorted_derives M S (rules (fst (apply_constant_propagation B (identify_constant_positions B vc) vc))) p vs"
  using assms(3) smt_bindings.round_keeps [OF assms(1) _ assms(2)] by blast

section \<open>No violation is lost\<close>

text \<open>C18: Constant propagation, run to its fixed point and followed by the removal of false rules and true constraints,
loses no violation: when the rules are well sorted and every round is plain (no rule with a stripped premise is skipped
and no unconstrained output variable is specialised), the query is reachable afterwards if it was before; relations keep
being applied to as many arguments as they declare, the target stays, and the returned count is the number of declared
columns that are gone.\<close>

theorem propagate_constants_safe:
  assumes "smt_bindings M S B"
    and "\<And>r \<rho>. r \<in> set (rules vc) \<Longrightarrow> fits M \<rho> \<Longrightarrow> rule_sorted M S \<rho> r"
    and "\<And>v. v \<in> set (visited B vc) \<Longrightarrow> plain_round B v"
    and "propagate_constants B vc = (vc', n)"
  shows "(reachable_query M vc \<longrightarrow> reachable_query M vc') \<and> (arity_ok vc \<longrightarrow> arity_ok vc') \<and>
    query_target vc' = query_target vc \<and> declared_arity vc' + n = declared_arity vc"
proof -
  let ?vc = "fst (propagate_rounds B vc)"
  have vc': "vc' = fst (strip_trivially_true_constraints (fst (eliminate_trivially_false_rules ?vc)))" "n = snd (propagate_rounds B vc)"
    using assms(4) by (auto simp: propagate_constants_def split: prod.splits)
  have target: "query_target ?vc = query_target vc"
    by (rule propagate_rounds_invariant [where P = "\<lambda>v. query_target v = query_target vc"]) (simp_all add: round_target)
  have "reachable_query M vc'" if "reachable_query M vc"
  proof -
    from that obtain vs where "derives M (rules vc) (query_relation vc) vs"
      by (auto simp: reachable_query_def)
    then have "\<exists>vs. sorted_derives M S (rules vc) (query_relation vc) vs"
      using derives_sorted assms(2) by blast
    then have "\<exists>vs. sorted_derives M S (rules ?vc) (query_relation vc) vs"
    proof (rule propagate_rounds_invariant [where P = "\<lambda>v. \<exists>vs. sorted_derives M S (rules v) (query_relation vc) vs"])
      show "\<exists>vs. sorted_derives M S (rules (fst (apply_constant_propagation B (identify_constant_positions B v) v))) (query_relation vc) vs"
        if "v \<in> set (visited B vc)" "\<exists>vs. sorted_derives M S (rules v) (query_relation vc) vs" for v
        using round_derives [OF assms(1) assms(3) [OF that(1)] that(2)] .
    qed
    then obtain us where "sorted_derives M S (rules vc') (query_relation vc) us"
      using smt_bindings.simplify_keeps [OF assms(1)] unfolding vc'(1) by blast
    moreover have "query_relation vc' = query_relation vc"
      using target by (simp add: vc'(1) query_relation_def strip_trivially_true_constraints_def eliminate_trivially_false_rules_def Let_def)
    ultimately show ?thesis
      unfolding reachable_query_def using sorted_derives_derives by metis
  qed
  moreover have "arity_ok vc'" if "arity_ok vc"
    unfolding vc'(1)
  proof (intro simplify_arity_ok propagate_rounds_invariant [where P = arity_ok] that)
    show "arity_ok (fst (apply_constant_propagation B (identify_constant_positions B v) v))" if "v \<in> set (visited B vc)" "arity_ok v" for v
      using round_arity_ok [OF that(2) assms(3) [OF that(1)]] .
  qed
  moreover have "declared_arity vc' = declared_arity ?vc" "query_target vc' = query_target ?vc"
    by (simp_all add: vc'(1) declared_arity_def strip_trivially_true_constraints_def eliminate_trivially_false_rules_def Let_def)
  ultimately show ?thesis
    using propagate_rounds_arity [of B vc] target vc'(2) by simp
qed

definition bv8_var :: "string \<Rightarrow> Expr" where
  "bv8_var x = Var x (SBitVec 8)"

definition clause :: "RelationApp option \<Rightarrow> Expr list \<Rightarrow> string \<Rightarrow> Expr list \<Rightarrow> Rule" where
  "clause b cs p args = \<lparr> body = \<lparr> relation = b, constraints = Owned cs \<rparr>, head = \<lparr> app_name = p, app_args = args \<rparr> \<rparr>"

definition application :: "string \<Rightarrow> Expr list \<Rightarrow> RelationApp" where
  "application p args = \<lparr> app_name = p, app_args = args \<rparr>"

definition decl8 :: "string \<Rightarrow> nat \<Rightarrow> RelationDecl" where
  "decl8 p n = \<lparr> rel_name = p, arg_sorts = replicate n (SBitVec 8) \<rparr>"

text \<open>A block that starts with a constant, a step that copies, and a check that reads both variables.\<close>

definition counted_vc :: ChcVc where
  "counted_vc = new_vc\<lparr>
     relations := [decl8 ''bb0'' 2, decl8 ''bb1'' 2, decl8 ''error'' 0],
     rules :=
       [clause None [Eq (bv8_var ''x'') (BitVecConst 3 8)] ''bb0'' [bv8_var ''x'', bv8_var ''y''],
        clause (Some (application ''bb0'' [bv8_var ''x'', bv8_var ''y'']))
          [And [Eq (bv8_var ''x__out'') (bv8_var ''x''), Eq (bv8_var ''y__out'') (bv8_var ''y'')]]
          ''bb1'' [bv8_var ''x__out'', bv8_var ''y__out''],
        clause (Some (application ''bb1'' [bv8_var ''x'', bv8_var ''y'']))
          [Eq (bv8_var ''y'') (BitVecConst 7 8), Eq (bv8_var ''x'') (Bv BvAdd (BitVecConst 1 8) (BitVecConst 2 8))] ''error'' []] \<rparr>"

definition counted_result :: ChcVc where
  "counted_result = new_vc\<lparr>
     relations := [decl8 ''bb0'' 1, decl8 ''bb1'' 1, decl8 ''error'' 0],
     rules :=
       [clause None [Eq (bv8_var ''x'') (BitVecConst 3 8)] ''bb0'' [bv8_var ''y''],
        clause (Some (application ''bb0'' [bv8_var ''y'']))
          [Eq (bv8_var ''y__out'') (bv8_var ''y''), Eq (bv8_var ''x'') (BitVecConst 3 8)] ''bb1'' [bv8_var ''y__out''],
        clause (Some (application ''bb1'' [bv8_var ''y'']))
          [Eq (bv8_var ''x'') (BitVecConst 3 8), Eq (bv8_var ''y'') (BitVecConst 7 8)] ''error'' []] \<rparr>"

lemma counted_propagated: "propagate_constants ground_bindings counted_vc = (counted_result, 2)"
  by code_simp

lemma counted_plain: "\<forall>v \<in> set (visited ground_bindings counted_vc). plain_round ground_bindings v"
  by code_simp

lemmas example_defs = clause_def application_def bv8_var_def new_vc_def

definition counted_values :: "string \<Rightarrow> SVal" where
  "counted_values z = (if z = ''x'' \<or> z = ''x__out'' then VBV 3 8 else VBV 7 8)"

lemma derives_clause:
  assumes "clause b cs p args \<in> set rs" "\<forall>c \<in> set cs. ground \<rho> c = VB True"
    and "\<And>a. b = Some a \<Longrightarrow> derives ground_smt rs (app_name a) (args_val ground_smt \<rho> a)"
  shows "derives ground_smt rs p (map (ground \<rho>) args)"
proof -
  have "fires ground_smt \<rho> (clause b cs p args)"
    using assms(2) by (simp add: fires_def clause_def holds_def)
  then show ?thesis
    using assms(1,3) derives_iff [of ground_smt rs p "map (ground \<rho>) args"]
    by (intro derives_iff [THEN iffD2] bexI [of _ "clause b cs p args"] exI [of _ \<rho>])
      (simp_all add: clause_def args_val_def split: option.split)
qed

lemma counted_reachable: "reachable_query ground_smt counted_vc"
proof -
  let ?rs = "rules counted_vc"
  have bb0: "derives ground_smt ?rs ''bb0'' (map (ground counted_values) [bv8_var ''x'', bv8_var ''y''])"
    by (rule derives_clause [where b = None and cs = "[Eq (bv8_var ''x'') (BitVecConst 3 8)]"])
      (simp_all add: counted_vc_def new_vc_def bv8_var_def counted_values_def)
  have bb1: "derives ground_smt ?rs ''bb1'' (map (ground counted_values) [bv8_var ''x__out'', bv8_var ''y__out''])"
    by (rule derives_clause [where b = "Some (application ''bb0'' [bv8_var ''x'', bv8_var ''y''])"
          and cs = "[And [Eq (bv8_var ''x__out'') (bv8_var ''x''), Eq (bv8_var ''y__out'') (bv8_var ''y'')]]"])
      (use bb0 in \<open>simp_all add: counted_vc_def new_vc_def bv8_var_def counted_values_def application_def args_val_def\<close>)
  have "derives ground_smt ?rs ''error'' (map (ground counted_values) [])"
    by (rule derives_clause [where b = "Some (application ''bb1'' [bv8_var ''x'', bv8_var ''y''])"
          and cs = "[Eq (bv8_var ''y'') (BitVecConst 7 8), Eq (bv8_var ''x'') (Bv BvAdd (BitVecConst 1 8) (BitVecConst 2 8))]"])
      (use bb1 in \<open>simp_all add: counted_vc_def new_vc_def bv8_var_def counted_values_def application_def args_val_def bv_apply_def\<close>)
  then show ?thesis
    by (auto simp: reachable_query_def query_relation_def counted_vc_def new_vc_def)
qed

lemma counted_sorted: "r \<in> set (rules counted_vc) \<Longrightarrow> rule_sorted ground_smt ground_sorts \<rho> r"
  by (auto simp: counted_vc_def example_defs rule_sorted_def rule_apps_def ground.sorted_members well_sorted_children [of "Eq _ _"]
      well_sorted_children [of "Bv _ _ _"] is_binder_def node_sorted_def bv_lit_def holds_def)

theorem propagate_constants_safe_witness:
  "propagate_constants ground_bindings counted_vc = (counted_result, 2) \<and> reachable_query ground_smt counted_result"
  using propagate_constants_safe [OF ground.smt_bindings_axioms counted_sorted _ counted_propagated] counted_plain counted_reachable
    counted_propagated by blast

text \<open>
  The two conditions of a plain round are needed.  An output variable that no constraint mentions may take any value;
  here the check that rejects one value of it is lost.
\<close>

definition unconstrained_vc :: ChcVc where
  "unconstrained_vc = new_vc\<lparr>
     relations := [decl8 ''bb0'' 1, decl8 ''bb1'' 1, decl8 ''error'' 0],
     rules :=
       [clause None [Eq (bv8_var ''x'') (BitVecConst 0 8)] ''bb0'' [bv8_var ''x''],
        clause (Some (application ''bb0'' [bv8_var ''x''])) [] ''bb1'' [bv8_var ''x__out''],
        clause (Some (application ''bb1'' [bv8_var ''x''])) [Eq (bv8_var ''x'') (BitVecConst 1 8)] ''error'' []] \<rparr>"

theorem unconstrained_output_specialised:
  "reachable_query ground_smt unconstrained_vc \<and>
   \<not> reachable_query ground_smt (fst (propagate_constants ground_bindings unconstrained_vc))"
proof
  let ?rs = "rules unconstrained_vc"
  have bb0: "derives ground_smt ?rs ''bb0'' (map (ground (\<lambda>z. VBV 0 8)) [bv8_var ''x''])"
    by (rule derives_clause [where b = None and cs = "[Eq (bv8_var ''x'') (BitVecConst 0 8)]"])
      (simp_all add: unconstrained_vc_def new_vc_def bv8_var_def)
  have bb1: "derives ground_smt ?rs ''bb1'' (map (ground (\<lambda>z. if z = ''x'' then VBV 0 8 else VBV 1 8)) [bv8_var ''x__out''])"
    by (rule derives_clause [where b = "Some (application ''bb0'' [bv8_var ''x''])" and cs = "[]"])
      (use bb0 in \<open>simp_all add: unconstrained_vc_def new_vc_def bv8_var_def application_def args_val_def\<close>)
  have "derives ground_smt ?rs ''error'' (map (ground (\<lambda>z. VBV 1 8)) [])"
    by (rule derives_clause [where b = "Some (application ''bb1'' [bv8_var ''x''])" and cs = "[Eq (bv8_var ''x'') (BitVecConst 1 8)]"])
      (use bb1 in \<open>simp_all add: unconstrained_vc_def new_vc_def bv8_var_def application_def args_val_def\<close>)
  then show "reachable_query ground_smt unconstrained_vc"
    by (auto simp: reachable_query_def query_relation_def unconstrained_vc_def new_vc_def)
  have none: "\<forall>r \<in> set (rules (fst (propagate_constants ground_bindings unconstrained_vc))). head_name r \<noteq> ''error''"
    "query_relation (fst (propagate_constants ground_bindings unconstrained_vc)) = ''error''"
    by code_simp+
  then show "\<not> reachable_query ground_smt (fst (propagate_constants ground_bindings unconstrained_vc))"
    using derives_headed by (fastforce simp: reachable_query_def)
qed

text \<open>A premise with literals only at its constant positions keeps them, while its relation loses the columns.\<close>

definition literal_vc :: ChcVc where
  "literal_vc = new_vc\<lparr>
     relations := [decl8 ''bb0'' 2, decl8 ''error'' 0],
     rules :=
       [clause None [] ''bb0'' [BitVecConst 5 8, bv8_var ''y''],
        clause (Some (application ''bb0'' [BitVecConst 5 8, bv8_var ''z''])) [] ''error'' []] \<rparr>"

theorem literal_premise_not_stripped:
  "arity_ok literal_vc \<and> \<not> arity_ok (fst (propagate_constants ground_bindings literal_vc))"
  by code_simp

end
