(* ===== verification/Straight_Facts.thy ===== *)
theory Straight_Facts
  imports Chc_Subst
begin

text \<open>
  What the straight-line prover of the compiler knows along a path (trust-mc-compiler/src/codegen_ay/chc/straightline_proof.rs):
  the disequalities and unsigned bounds of PathFacts, how they are read off comparisons and which comparisons they
  decide.  Numbers of the host type u128 are int with its range written out.
\<close>

section \<open>Words of the host\<close>

definition U128_END :: int where
  "U128_END = 2 ^ 128"

definition bv_mask :: "nat \<Rightarrow> int" where
  "bv_mask w = (if w = 0 then 0 else if 128 \<le> w then U128_END - 1 else 2 ^ w - 1)"

definition bv_const_u128 :: "Expr \<Rightarrow> (int \<times> nat) option" where
  "bv_const_u128 e =
     (case e of
        BitVecConst n w \<Rightarrow>
          if 128 < w then None else if int n < U128_END then Some (and (int n) (bv_mask w), w) else None
      | _ \<Rightarrow> None)"

definition unsigned_mul_fits_width :: "int \<Rightarrow> int \<Rightarrow> nat \<Rightarrow> bool" where
  "unsigned_mul_fits_width l r w \<longleftrightarrow> l * r < U128_END \<and> l * r \<le> bv_mask w"

section \<open>Facts of a path\<close>

type_synonym bound = "Expr \<times> int \<times> nat"

record PathFacts =
  disequalities :: "(Expr \<times> Expr) list"
  unsigned_upper_bounds :: "bound list"
  unsigned_lower_bounds :: "bound list"

definition no_facts :: PathFacts where
  "no_facts = \<lparr> disequalities = [], unsigned_upper_bounds = [], unsigned_lower_bounds = [] \<rparr>"

text \<open>The operand of a conversion to an unbounded integer.\<close>

definition bv2int_of :: "Expr \<Rightarrow> Expr option" where
  "bv2int_of e = (case e of OtherOp f es s \<Rightarrow> (case es of [a] \<Rightarrow> if f = ''Bv2Int'' then Some a else None | _ \<Rightarrow> None) | _ \<Rightarrow> None)"

lemma bv2int_of_Some: "bv2int_of e = Some a \<longleftrightarrow> (\<exists>s. e = OtherOp ''Bv2Int'' [a] s)"
  by (cases e) (auto simp: bv2int_of_def split: list.splits if_splits)

function are_disequal :: "bindings \<Rightarrow> PathFacts \<Rightarrow> Expr \<Rightarrow> Expr \<Rightarrow> bool" where
  "are_disequal B F l r \<longleftrightarrow>
     (\<exists>(a, b) \<in> set (disequalities F). a = l \<and> b = r \<or> a = r \<and> b = l) \<or>
     (case (bv2int_of l, bv2int_of r) of
        (Some l', Some r') \<Rightarrow> sort_of B l' = sort_of B r' \<and> bitvec_width (sort_of B l') \<noteq> None \<and> are_disequal B F l' r'
      | _ \<Rightarrow> False)"
  by pat_completeness auto
termination
  by (relation "measure (\<lambda>(_, _, l, _). size l)") (auto simp: bv2int_of_Some eq_commute [of "Some _"])

declare are_disequal.simps [simp del]

definition add_disequality :: "bindings \<Rightarrow> Expr \<Rightarrow> Expr \<Rightarrow> PathFacts \<Rightarrow> PathFacts" where
  "add_disequality B l r F =
     (if l = r \<or> are_disequal B F l r then F else F\<lparr> disequalities := disequalities F @ [(l, r)] \<rparr>)"

text \<open>The first bound of a term at a width is tightened, or a new one is entered.\<close>

fun tighten :: "(int \<Rightarrow> int \<Rightarrow> int) \<Rightarrow> Expr \<Rightarrow> int \<Rightarrow> nat \<Rightarrow> bound list \<Rightarrow> bound list" where
  "tighten f e b w [] = [(e, b, w)]"
| "tighten f e b w ((e', b', w') # bs) =
     (if e' = e \<and> w' = w then (e', f b' b, w') # bs else (e', b', w') # tighten f e b w bs)"

definition add_unsigned_upper_bound :: "Expr \<Rightarrow> int \<Rightarrow> nat \<Rightarrow> PathFacts \<Rightarrow> PathFacts" where
  "add_unsigned_upper_bound e b w F = F\<lparr> unsigned_upper_bounds := tighten min e b w (unsigned_upper_bounds F) \<rparr>"

definition add_unsigned_lower_bound :: "Expr \<Rightarrow> int \<Rightarrow> nat \<Rightarrow> PathFacts \<Rightarrow> PathFacts" where
  "add_unsigned_lower_bound e b w F = F\<lparr> unsigned_lower_bounds := tighten max e b w (unsigned_lower_bounds F) \<rparr>"

definition bounds_contradict :: "PathFacts \<Rightarrow> bool" where
  "bounds_contradict F \<longleftrightarrow>
     (\<exists>(e, lower, w) \<in> set (unsigned_lower_bounds F). \<exists>(e', upper, w') \<in> set (unsigned_upper_bounds F).
        e' = e \<and> w' = w \<and> upper \<le> lower)"

text \<open>The least bound of a term, the first one when there are several.\<close>

fun least_bound :: "Expr \<Rightarrow> bound list \<Rightarrow> (int \<times> nat) option" where
  "least_bound e [] = None"
| "least_bound e ((e', b, w) # bs) =
     (if e' \<noteq> e then least_bound e bs
      else (case least_bound e bs of
          Some (b', w') \<Rightarrow> if b' < b then Some (b', w') else Some (b, w)
        | None \<Rightarrow> Some (b, w)))"

definition unsigned_upper_bound :: "PathFacts \<Rightarrow> Expr \<Rightarrow> (int \<times> nat) option" where
  "unsigned_upper_bound F e = least_bound e (unsigned_upper_bounds F)"

lemma least_bound_member: "least_bound e bs = Some (b, w) \<Longrightarrow> (e, b, w) \<in> set bs"
  by (induction bs) (auto split: if_splits option.splits)

section \<open>Unsigned comparisons\<close>

datatype UnsignedCmp = Lt | Le | Gt | Ge

fun negated :: "UnsignedCmp \<Rightarrow> UnsignedCmp" where
  "negated Lt = Ge"
| "negated Le = Gt"
| "negated Gt = Le"
| "negated Ge = Lt"

fun swapped :: "UnsignedCmp \<Rightarrow> UnsignedCmp" where
  "swapped Lt = Gt"
| "swapped Le = Ge"
| "swapped Gt = Lt"
| "swapped Ge = Le"

definition unsigned_cmp :: "BvOp \<Rightarrow> UnsignedCmp option" where
  "unsigned_cmp op =
     (case op of BvULt \<Rightarrow> Some Lt | BvULe \<Rightarrow> Some Le | BvUGt \<Rightarrow> Some Gt | BvUGe \<Rightarrow> Some Ge | _ \<Rightarrow> None)"

text \<open>A comparison with a constant, turned so that the constant is on the right.\<close>

definition oriented :: "Expr \<Rightarrow> Expr \<Rightarrow> UnsignedCmp \<Rightarrow> (Expr \<times> int \<times> UnsignedCmp) option" where
  "oriented l r kind =
     (case (bv_const_u128 l, bv_const_u128 r) of
        (None, Some (c, _)) \<Rightarrow> Some (l, c, kind)
      | (Some (c, _), None) \<Rightarrow> Some (r, c, swapped kind)
      | _ \<Rightarrow> None)"

definition oriented_cmp :: "bindings \<Rightarrow> Expr \<Rightarrow> bool \<Rightarrow> (Expr \<times> int \<times> UnsignedCmp \<times> nat) option" where
  "oriented_cmp B e neg =
     (case e of
        Bv op l r \<Rightarrow> do {
          kind \<leftarrow> unsigned_cmp op;
          w \<leftarrow> bitvec_width (sort_of B l);
          if sort_of B l \<noteq> sort_of B r then None
          else do {
            (t, c, k) \<leftarrow> oriented l r (if neg then negated kind else kind);
            Some (t, c, k, w) } }
      | _ \<Rightarrow> None)"

definition unsigned_upper_bound_from_cmp :: "bindings \<Rightarrow> Expr \<Rightarrow> bool \<Rightarrow> bound option" where
  "unsigned_upper_bound_from_cmp B e neg = do {
     (t, c, kind, w) \<leftarrow> oriented_cmp B e neg;
     b \<leftarrow> (case kind of
         Lt \<Rightarrow> Some c
       | Le \<Rightarrow> if bv_mask w \<le> c then None else if c + 1 < U128_END then Some (c + 1) else None
       | _ \<Rightarrow> None);
     Some (t, b, w) }"

definition unsigned_lower_bound_from_cmp :: "bindings \<Rightarrow> Expr \<Rightarrow> bool \<Rightarrow> bound option" where
  "unsigned_lower_bound_from_cmp B e neg = do {
     (t, c, kind, w) \<leftarrow> oriented_cmp B e neg;
     b \<leftarrow> (case kind of
         Gt \<Rightarrow> if c + 1 < U128_END then Some (c + 1) else None
       | Ge \<Rightarrow> Some c
       | _ \<Rightarrow> None);
     Some (t, b, w) }"

datatype ConstraintStatus = Feasible | Infeasible | Unsupported

text \<open>
  Recording a bound gives a status and the new facts, or nothing when there is no bound to record.
\<close>

definition bounded_facts :: "PathFacts \<Rightarrow> ConstraintStatus \<times> PathFacts" where
  "bounded_facts F = (if bounds_contradict F then Infeasible else Feasible, F)"

definition record_unsigned_upper_bound :: "bindings \<Rightarrow> Expr \<Rightarrow> Expr \<Rightarrow> PathFacts \<Rightarrow> (ConstraintStatus \<times> PathFacts) option" where
  "record_unsigned_upper_bound B l r F =
     (if sort_of B l \<noteq> sort_of B r \<or> bitvec_width (sort_of B l) = None then Some (Unsupported, F)
      else do {
        (b, w) \<leftarrow> bv_const_u128 r;
        Some (if b = 0 then (Infeasible, F) else bounded_facts (add_unsigned_upper_bound l b w F)) })"

definition record_unsigned_upper_bound_from_cmp :: "bindings \<Rightarrow> Expr \<Rightarrow> bool \<Rightarrow> PathFacts \<Rightarrow> (ConstraintStatus \<times> PathFacts) option" where
  "record_unsigned_upper_bound_from_cmp B e neg F = do {
     (t, b, w) \<leftarrow> unsigned_upper_bound_from_cmp B e neg;
     Some (if b = 0 then (Infeasible, F) else bounded_facts (add_unsigned_upper_bound t b w F)) }"

definition record_unsigned_lower_bound_from_cmp :: "bindings \<Rightarrow> Expr \<Rightarrow> bool \<Rightarrow> PathFacts \<Rightarrow> (ConstraintStatus \<times> PathFacts) option" where
  "record_unsigned_lower_bound_from_cmp B e neg F = do {
     (t, b, w) \<leftarrow> unsigned_lower_bound_from_cmp B e neg;
     Some (if bv_mask w < b then (Infeasible, F) else bounded_facts (add_unsigned_lower_bound t b w F)) }"

text \<open>What the recorded upper bound of a term says about a comparison of the term with a constant.\<close>

definition unsigned_bound_decides_cmp :: "bindings \<Rightarrow> PathFacts \<Rightarrow> UnsignedCmp \<Rightarrow> Expr \<Rightarrow> Expr \<Rightarrow> bool option" where
  "unsigned_bound_decides_cmp B F kind l r = do {
     w \<leftarrow> bitvec_width (sort_of B l);
     (t, c, k) \<leftarrow> oriented l r kind;
     (b, bw) \<leftarrow> unsigned_upper_bound F t;
     if bw \<noteq> w \<or> b = 0 then None
     else (case k of
         Lt \<Rightarrow> if b - 1 < c then Some True else None
       | Le \<Rightarrow> if b - 1 \<le> c then Some True else None
       | Gt \<Rightarrow> if b - 1 \<le> c then Some False else None
       | Ge \<Rightarrow> if b - 1 < c then Some False else None) }"

definition unsigned_bound_proves_mul_no_overflow :: "PathFacts \<Rightarrow> Expr \<Rightarrow> int \<Rightarrow> nat \<Rightarrow> bool" where
  "unsigned_bound_proves_mul_no_overflow F t c w \<longleftrightarrow>
     c = 0 \<or>
     (case unsigned_upper_bound F t of
        Some (b, bw) \<Rightarrow> bw = w \<and> unsigned_mul_fits_width (if b = 0 then 0 else b - 1) c w
      | None \<Rightarrow> False)"

definition one_const_one_expr :: "Expr \<Rightarrow> Expr \<Rightarrow> (int \<times> Expr) option" where
  "one_const_one_expr l r =
     (case bv_const_u128 l of
        Some (c, _) \<Rightarrow> Some (c, r)
      | None \<Rightarrow> map_option (\<lambda>(c, _). (c, l)) (bv_const_u128 r))"

end
