(* ===== verification/Straight_Simplify.thy ===== *)
theory Straight_Simplify
  imports Straight_Facts
begin

text \<open>
  The simplifier of the straight-line prover: simplify_with_facts and its helpers.  It gives up (None) where the code
  does: on terms of different widths, on a refusal of the checked constructors of the bindings (try_eq, try_ite and the
  like, modelled by the parameter ok, the terms they accept), and below the recursion depth, which is the fuel of the
  model.  Memo tables and the node budget, which only save work or give up, have no counterpart.
\<close>

definition checked :: "(Expr \<Rightarrow> bool) \<Rightarrow> Expr \<Rightarrow> Expr option" where
  "checked ok e = (if ok e then Some e else None)"

section \<open>Equations and connectives\<close>

text \<open>The helpers take the simplifier of the next depth as S.\<close>

definition simplify_bool_const_eq :: "bindings \<Rightarrow> (Expr \<Rightarrow> Expr option) \<Rightarrow> Expr \<Rightarrow> Expr \<Rightarrow> Expr option" where
  "simplify_bool_const_eq B S e c =
     (case bool_of c of
        None \<Rightarrow> None
      | Some v \<Rightarrow> if sort_of B e \<noteq> SBool then None else if v then Some e else S (NotE e))"

definition bit_of_condition :: "(Expr \<Rightarrow> Expr option) \<Rightarrow> Expr \<Rightarrow> int \<Rightarrow> int \<Rightarrow> int \<Rightarrow> Expr option" where
  "bit_of_condition S c t e r =
     (if (t, e, r) = (1, 0, 1) \<or> (t, e, r) = (0, 1, 0) then Some c
      else if (t, e, r) = (1, 0, 0) \<or> (t, e, r) = (0, 1, 1) then S (NotE c)
      else if (t, e) = (1, 0) \<or> (t, e) = (0, 1) then Some (BoolConst False)
      else None)"

definition simplify_bool_bit_ite_eq :: "(Expr \<Rightarrow> Expr option) \<Rightarrow> Expr \<Rightarrow> Expr \<Rightarrow> Expr option" where
  "simplify_bool_bit_ite_eq S e r =
     (case e of
        Ite c a b \<Rightarrow> do {
          (tv, tw) \<leftarrow> bv_const_u128 a;
          (ev, ew) \<leftarrow> bv_const_u128 b;
          (rv, rw) \<leftarrow> bv_const_u128 r;
          if tw \<noteq> ew \<or> tw \<noteq> rw then None else do { c' \<leftarrow> S c; bit_of_condition S c' tv ev rv } }
      | _ \<Rightarrow> None)"

definition simplified_eq :: "bindings \<Rightarrow> (Expr \<Rightarrow> bool) \<Rightarrow> PathFacts \<Rightarrow> (Expr \<Rightarrow> Expr option) \<Rightarrow> Expr \<Rightarrow> Expr \<Rightarrow> Expr option" where
  "simplified_eq B ok F S l r =
     (if l = r then Some (BoolConst True)
      else if are_disequal B F l r then Some (BoolConst False)
      else (case or_else (simplify_bool_const_eq B S l r) (or_else (simplify_bool_const_eq B S r l)
          (or_else (simplify_bool_bit_ite_eq S l r) (simplify_bool_bit_ite_eq S r l))) of
        Some e \<Rightarrow> Some e
      | None \<Rightarrow>
          (case (bool_of l, bool_of r) of
             (Some a, Some b) \<Rightarrow> Some (BoolConst (a = b))
           | _ \<Rightarrow>
               (case (bv_of l, bv_of r) of
                  (Some (n, w), Some (m, v)) \<Rightarrow> if w \<noteq> v then None else Some (BoolConst (n = m))
                | _ \<Rightarrow> checked ok (Eq l r)))))"

definition simplify_eq :: "bindings \<Rightarrow> (Expr \<Rightarrow> bool) \<Rightarrow> PathFacts \<Rightarrow> (Expr \<Rightarrow> Expr option) \<Rightarrow> Expr \<Rightarrow> Expr \<Rightarrow> Expr option" where
  "simplify_eq B ok F S l r = do { l' \<leftarrow> S l; r' \<leftarrow> S r; simplified_eq B ok F S l' r' }"

definition simplify_bool_ite :: "(Expr \<Rightarrow> bool) \<Rightarrow> (Expr \<Rightarrow> Expr option) \<Rightarrow> Expr \<Rightarrow> Expr \<Rightarrow> Expr \<Rightarrow> Expr option" where
  "simplify_bool_ite ok S c a b =
     (case (bool_of a, bool_of b) of
        (Some True, Some False) \<Rightarrow> Some c
      | (Some False, Some True) \<Rightarrow> S (NotE c)
      | (Some False, _) \<Rightarrow> do { e \<leftarrow> checked ok (And [NotE c, b]); S e }
      | (Some True, _) \<Rightarrow> do { e \<leftarrow> checked ok (Or [c, b]); S e }
      | (_, Some False) \<Rightarrow> do { e \<leftarrow> checked ok (And [c, a]); S e }
      | (_, Some True) \<Rightarrow> do { e \<leftarrow> checked ok (Or [NotE c, a]); S e }
      | _ \<Rightarrow> checked ok (Ite c a b))"

definition simplify_ite :: "bindings \<Rightarrow> (Expr \<Rightarrow> bool) \<Rightarrow> (Expr \<Rightarrow> Expr option) \<Rightarrow> Expr \<Rightarrow> Expr \<Rightarrow> Expr \<Rightarrow> Expr option" where
  "simplify_ite B ok S c a b = do {
     a' \<leftarrow> S a;
     b' \<leftarrow> S b;
     if a' = b' then Some a'
     else if sort_of B a' = SBool \<and> sort_of B b' = SBool then simplify_bool_ite ok S c a' b'
     else checked ok (Ite c a' b') }"

text \<open>The members of a connective that stay; the inner option is empty when a member decides it.\<close>

fun kept_members :: "(Expr \<Rightarrow> Expr option) \<Rightarrow> bool \<Rightarrow> Expr list \<Rightarrow> Expr list \<Rightarrow> Expr list option option" where
  "kept_members S is_and [] kept = Some (Some kept)"
| "kept_members S is_and (c # cs) kept =
     (case S c of
        None \<Rightarrow> None
      | Some c' \<Rightarrow>
          (case c' of
             BoolConst v \<Rightarrow> if v \<noteq> is_and then Some None else kept_members S is_and cs kept
           | And es \<Rightarrow> kept_members S is_and cs (kept @ (if is_and then es else [c']))
           | Or es \<Rightarrow> kept_members S is_and cs (kept @ (if is_and then [c'] else es))
           | _ \<Rightarrow> kept_members S is_and cs (kept @ [c'])))"

definition simplify_bool_nary :: "(Expr \<Rightarrow> bool) \<Rightarrow> (Expr \<Rightarrow> Expr option) \<Rightarrow> bool \<Rightarrow> Expr list \<Rightarrow> Expr option" where
  "simplify_bool_nary ok S is_and cs = do {
     m \<leftarrow> kept_members S is_and cs [];
     case m of
       None \<Rightarrow> Some (BoolConst (\<not> is_and))
     | Some [] \<Rightarrow> Some (BoolConst is_and)
     | Some [e] \<Rightarrow> Some e
     | Some es \<Rightarrow> checked ok (if is_and then And es else Or es) }"

section \<open>Arrays\<close>

fun select_from_simplified :: "bindings \<Rightarrow> (Expr \<Rightarrow> bool) \<Rightarrow> PathFacts \<Rightarrow> (Expr \<Rightarrow> Expr option) \<Rightarrow> Expr \<Rightarrow> Expr \<Rightarrow> Expr option" where
  "select_from_simplified B ok F S (ConstArray s v) i = Some v"
| "select_from_simplified B ok F S (Store a j v) i =
     (case simplify_eq B ok F S j i of
        None \<Rightarrow> None
      | Some q \<Rightarrow>
          if q = BoolConst True then Some v
          else if are_disequal B F j i \<or> q = BoolConst False then select_from_simplified B ok F S a i
          else Some (Select (Store a j v) i))"
| "select_from_simplified B ok F S a i = Some (Select a i)"

definition simplify_select :: "bindings \<Rightarrow> (Expr \<Rightarrow> bool) \<Rightarrow> PathFacts \<Rightarrow> (Expr \<Rightarrow> Expr option) \<Rightarrow> Expr \<Rightarrow> Expr \<Rightarrow> Expr option" where
  "simplify_select B ok F S a i = do { a' \<leftarrow> S a; i' \<leftarrow> S i; select_from_simplified B ok F S a' i' }"

section \<open>Bit vectors\<close>

fun bv_fold :: "BvOp \<Rightarrow> int \<Rightarrow> int \<Rightarrow> nat \<Rightarrow> int option" where
  "bv_fold BvAdd l r w = Some (and ((l + r) mod U128_END) (bv_mask w))"
| "bv_fold BvSub l r w = Some (and ((l - r) mod U128_END) (bv_mask w))"
| "bv_fold BvAnd l r w = Some (and l r)"
| "bv_fold BvOr l r w = Some (or l r)"
| "bv_fold BvXor l r w = Some (xor l r)"
| "bv_fold BvURem l r w = (if r \<noteq> 0 then Some (l mod r) else None)"
| "bv_fold BvMul l r w = (if l * r < U128_END then Some (and (l * r) (bv_mask w)) else None)"
| "bv_fold _ l r w = None"

text \<open>Both operands are constants of one width: their values and the width; the outer option is the refusal.\<close>

definition both_const :: "Expr \<Rightarrow> Expr \<Rightarrow> (int \<times> int \<times> nat) option option" where
  "both_const l r =
     (case (bv_const_u128 l, bv_const_u128 r) of
        (Some (a, lw), Some (b, rw)) \<Rightarrow> if lw \<noteq> rw then None else Some (Some (a, b, lw))
      | _ \<Rightarrow> Some None)"

definition simplify_bv_binop :: "bindings \<Rightarrow> (Expr \<Rightarrow> bool) \<Rightarrow> (Expr \<Rightarrow> Expr option) \<Rightarrow> BvOp \<Rightarrow> Expr \<Rightarrow> Expr \<Rightarrow> Expr option" where
  "simplify_bv_binop B ok S op l r = do {
     l' \<leftarrow> S l;
     r' \<leftarrow> S r;
     if sort_of B l' \<noteq> sort_of B r' \<or> bitvec_width (sort_of B l') = None then None
     else do {
       cs \<leftarrow> both_const l' r';
       (case cs of
          Some (a, b, w) \<Rightarrow>
            (case bv_fold op a b w of Some v \<Rightarrow> Some (bitvec_const v w) | None \<Rightarrow> checked ok (Bv op l' r'))
        | None \<Rightarrow> checked ok (Bv op l' r')) } }"

fun cmp_holds :: "UnsignedCmp \<Rightarrow> int \<Rightarrow> int \<Rightarrow> bool" where
  "cmp_holds Lt l r \<longleftrightarrow> l < r"
| "cmp_holds Le l r \<longleftrightarrow> l \<le> r"
| "cmp_holds Gt l r \<longleftrightarrow> r < l"
| "cmp_holds Ge l r \<longleftrightarrow> r \<le> l"

definition simplify_bv_cmp ::
    "bindings \<Rightarrow> (Expr \<Rightarrow> bool) \<Rightarrow> PathFacts \<Rightarrow> (Expr \<Rightarrow> Expr option) \<Rightarrow> BvOp \<Rightarrow> UnsignedCmp \<Rightarrow> Expr \<Rightarrow> Expr \<Rightarrow> Expr option" where
  "simplify_bv_cmp B ok F S op kind l r = do {
     l' \<leftarrow> S l;
     r' \<leftarrow> S r;
     if sort_of B l' \<noteq> sort_of B r' \<or> bitvec_width (sort_of B l') = None then None
     else do {
       cs \<leftarrow> both_const l' r';
       (case cs of
          Some (a, b, w) \<Rightarrow> Some (BoolConst (cmp_holds kind a b))
        | None \<Rightarrow>
            (case unsigned_bound_decides_cmp B F kind l' r' of
               Some t \<Rightarrow> Some (BoolConst t)
             | None \<Rightarrow> checked ok (Bv op l' r'))) } }"

definition signed_bv_order :: "int \<Rightarrow> int \<Rightarrow> nat \<Rightarrow> int" where
  "signed_bv_order l r w =
     (let sign_bit = push_bit (w - 1) 1; ln = and l sign_bit \<noteq> 0; rn = and r sign_bit \<noteq> 0
      in if ln \<and> \<not> rn then -1 else if \<not> ln \<and> rn then 1 else if l < r then -1 else if r < l then 1 else 0)"

definition signed_cmp :: "BvOp \<Rightarrow> UnsignedCmp option" where
  "signed_cmp op = (case op of BvSLt \<Rightarrow> Some Lt | BvSLe \<Rightarrow> Some Le | BvSGt \<Rightarrow> Some Gt | BvSGe \<Rightarrow> Some Ge | _ \<Rightarrow> None)"

definition simplify_bv_signed_cmp ::
    "bindings \<Rightarrow> (Expr \<Rightarrow> bool) \<Rightarrow> (Expr \<Rightarrow> Expr option) \<Rightarrow> BvOp \<Rightarrow> UnsignedCmp \<Rightarrow> Expr \<Rightarrow> Expr \<Rightarrow> Expr option" where
  "simplify_bv_signed_cmp B ok S op kind l r = do {
     l' \<leftarrow> S l;
     r' \<leftarrow> S r;
     if sort_of B l' \<noteq> sort_of B r' \<or> bitvec_width (sort_of B l') = None then None
     else do {
       cs \<leftarrow> both_const l' r';
       (case cs of
          Some (a, b, w) \<Rightarrow> if w = 0 then None else Some (BoolConst (cmp_holds kind (signed_bv_order a b w) 0))
        | None \<Rightarrow> checked ok (Bv op l' r')) } }"

definition simplify_bv_concat :: "(Expr \<Rightarrow> bool) \<Rightarrow> (Expr \<Rightarrow> Expr option) \<Rightarrow> Expr \<Rightarrow> Expr \<Rightarrow> Expr option" where
  "simplify_bv_concat ok S l r = do {
     l' \<leftarrow> S l;
     r' \<leftarrow> S r;
     (case (bv_const_u128 l', bv_const_u128 r') of
        (Some (a, lw), Some (b, rw)) \<Rightarrow>
          if 128 < lw + rw then None else Some (bitvec_const (or (push_bit rw a) b) (lw + rw))
      | _ \<Rightarrow> checked ok (Bv BvConcat l' r')) }"

definition simplify_bv_zero_extend :: "bindings \<Rightarrow> (Expr \<Rightarrow> bool) \<Rightarrow> (Expr \<Rightarrow> Expr option) \<Rightarrow> Expr \<Rightarrow> nat \<Rightarrow> Expr option" where
  "simplify_bv_zero_extend B ok S e n = do {
     e' \<leftarrow> S e;
     w \<leftarrow> bitvec_width (sort_of B e');
     if 2 ^ 32 \<le> int (w + n) then None
     else if 128 < w + n then checked ok (BvZeroExtend e' n)
     else (case bv_const_u128 e' of
         Some (v, _) \<Rightarrow> Some (bitvec_const v (w + n))
       | None \<Rightarrow> checked ok (BvZeroExtend e' n)) }"

definition simplify_bv_extract :: "bindings \<Rightarrow> (Expr \<Rightarrow> bool) \<Rightarrow> (Expr \<Rightarrow> Expr option) \<Rightarrow> Expr \<Rightarrow> nat \<Rightarrow> nat \<Rightarrow> Expr option" where
  "simplify_bv_extract B ok S e hi lo = do {
     e' \<leftarrow> S e;
     w \<leftarrow> bitvec_width (sort_of B e');
     if hi < lo \<or> w \<le> hi \<or> 128 \<le> hi then None
     else (case bv_const_u128 e' of
         None \<Rightarrow> checked ok (BvExtract e' hi lo)
       | Some (v, _) \<Rightarrow> Some (bitvec_const (and (drop_bit lo v) (bv_mask (hi - lo + 1))) (hi - lo + 1))) }"

definition simplify_bv_mul_no_overflow_unsigned ::
    "bindings \<Rightarrow> (Expr \<Rightarrow> bool) \<Rightarrow> PathFacts \<Rightarrow> (Expr \<Rightarrow> Expr option) \<Rightarrow> Expr \<Rightarrow> Expr \<Rightarrow> Expr option" where
  "simplify_bv_mul_no_overflow_unsigned B ok F S l r = do {
     l' \<leftarrow> S l;
     r' \<leftarrow> S r;
     w \<leftarrow> bitvec_width (sort_of B l');
     if sort_of B l' \<noteq> sort_of B r' then None
     else if w = 0 \<or> 128 < w then checked ok (Bv BvMulNoOverflowUnsigned l' r')
     else do {
       cs \<leftarrow> both_const l' r';
       (case cs of
          Some (a, b, _) \<Rightarrow> Some (BoolConst (unsigned_mul_fits_width a b w))
        | None \<Rightarrow>
            if (case one_const_one_expr l' r' of
                Some (c, t) \<Rightarrow> unsigned_bound_proves_mul_no_overflow F t c w
              | None \<Rightarrow> False)
            then Some (BoolConst True)
            else checked ok (Bv BvMulNoOverflowUnsigned l' r')) } }"

section \<open>Data\<close>

definition field_of :: "bindings \<Rightarrow> string \<Rightarrow> string \<Rightarrow> Sort \<Rightarrow> Expr list \<Rightarrow> Expr option" where
  "field_of B f c s args = do {
     fs \<leftarrow> fields_of B s c;
     k \<leftarrow> position f (map fst fs);
     if k < length args then Some (args ! k) else None }"

definition is_datatype :: "Sort \<Rightarrow> bool" where
  "is_datatype s \<longleftrightarrow> (case s of SDatatype d \<Rightarrow> True | _ \<Rightarrow> False)"

definition simplify_datatype_selector ::
    "bindings \<Rightarrow> (Expr \<Rightarrow> bool) \<Rightarrow> (Expr \<Rightarrow> Expr option) \<Rightarrow> string \<Rightarrow> string \<Rightarrow> Expr \<Rightarrow> Sort \<Rightarrow> Expr option" where
  "simplify_datatype_selector B ok S d f target s = do {
     t \<leftarrow> S target;
     (case t of
        DatatypeConstructor d' c args u \<Rightarrow>
          if d' \<noteq> d \<or> \<not> is_datatype u then None
          else (case field_of B f c u args of Some a \<Rightarrow> Some a | None \<Rightarrow> Some (DatatypeSelector d f t s))
      | Ite c a b \<Rightarrow>
          if selects B a d f s \<and> selects B b d f s
          then do {
            c' \<leftarrow> S c;
            a' \<leftarrow> S (DatatypeSelector d f a s);
            b' \<leftarrow> S (DatatypeSelector d f b s);
            e \<leftarrow> checked ok (Ite c' a' b');
            S e }
          else Some (DatatypeSelector d f t s)
      | _ \<Rightarrow> Some (DatatypeSelector d f t s)) }"

text \<open>T is the simplifier of testers of the next depth.\<close>

definition simplify_tester_node ::
    "bindings \<Rightarrow> (Expr \<Rightarrow> bool) \<Rightarrow> (Expr \<Rightarrow> Expr option) \<Rightarrow> (Expr \<Rightarrow> Expr option) \<Rightarrow> string \<Rightarrow> string \<Rightarrow> Expr \<Rightarrow> Expr option" where
  "simplify_tester_node B ok S T d c target = do {
     t \<leftarrow> S target;
     (case t of
        DatatypeConstructor d' c' args u \<Rightarrow> if d' \<noteq> d then None else Some (BoolConst (c' = c))
      | Ite q a b \<Rightarrow> do {
          q' \<leftarrow> S q;
          a' \<leftarrow> T a;
          b' \<leftarrow> T b;
          e \<leftarrow> checked ok (Ite q' a' b');
          S e }
      | _ \<Rightarrow> if tests B t d c then Some (DatatypeTester d c t) else None) }"

section \<open>All terms\<close>

definition simplify_bv_expr ::
    "bindings \<Rightarrow> (Expr \<Rightarrow> bool) \<Rightarrow> PathFacts \<Rightarrow> (Expr \<Rightarrow> Expr option) \<Rightarrow> BvOp \<Rightarrow> Expr \<Rightarrow> Expr \<Rightarrow> Expr option" where
  "simplify_bv_expr B ok F S op l r =
     (if op \<in> {BvAdd, BvSub, BvAnd, BvOr, BvXor, BvURem, BvMul} then simplify_bv_binop B ok S op l r
      else if op = BvConcat then simplify_bv_concat ok S l r
      else if op = BvMulNoOverflowUnsigned then simplify_bv_mul_no_overflow_unsigned B ok F S l r
      else (case unsigned_cmp op of
          Some kind \<Rightarrow> simplify_bv_cmp B ok F S op kind l r
        | None \<Rightarrow>
            (case signed_cmp op of
               Some kind \<Rightarrow> simplify_bv_signed_cmp B ok S op kind l r
             | None \<Rightarrow> do { l' \<leftarrow> S l; r' \<leftarrow> S r; Some (Bv op l' r') })))"

definition simplify_node ::
    "bindings \<Rightarrow> (Expr \<Rightarrow> bool) \<Rightarrow> PathFacts \<Rightarrow> (Expr \<Rightarrow> Expr option) \<Rightarrow> (string \<Rightarrow> string \<Rightarrow> Expr \<Rightarrow> Expr option) \<Rightarrow> Expr \<Rightarrow> Expr option" where
  "simplify_node B ok F S T e =
     (case e of
        NotE a \<Rightarrow> do {
          a' \<leftarrow> S a;
          (case a' of BoolConst v \<Rightarrow> Some (BoolConst (\<not> v)) | NotE x \<Rightarrow> S x | _ \<Rightarrow> checked ok (NotE a')) }
      | Eq l r \<Rightarrow> simplify_eq B ok F S l r
      | And es \<Rightarrow> simplify_bool_nary ok S True es
      | Or es \<Rightarrow> simplify_bool_nary ok S False es
      | Ite c a b \<Rightarrow> do {
          c' \<leftarrow> S c;
          (case bool_of c' of Some v \<Rightarrow> if v then S a else S b | None \<Rightarrow> simplify_ite B ok S c' a b) }
      | Bv op l r \<Rightarrow> simplify_bv_expr B ok F S op l r
      | BvZeroExtend a n \<Rightarrow> simplify_bv_zero_extend B ok S a n
      | BvExtract a hi lo \<Rightarrow> simplify_bv_extract B ok S a hi lo
      | Select a i \<Rightarrow> simplify_select B ok F S a i
      | Store a i v \<Rightarrow> do { a' \<leftarrow> S a; i' \<leftarrow> S i; v' \<leftarrow> S v; Some (Store a' i' v') }
      | ConstArray s v \<Rightarrow> do { v' \<leftarrow> S v; Some (ConstArray s v') }
      | DatatypeSelector d f a s \<Rightarrow> simplify_datatype_selector B ok S d f a s
      | DatatypeTester d c a \<Rightarrow> T d c a
      | _ \<Rightarrow> map_option (with_children e) (those (map S (children e))))"

fun simplify_with_facts :: "bindings \<Rightarrow> (Expr \<Rightarrow> bool) \<Rightarrow> PathFacts \<Rightarrow> nat \<Rightarrow> Expr \<Rightarrow> Expr option"
  and simplify_datatype_tester :: "bindings \<Rightarrow> (Expr \<Rightarrow> bool) \<Rightarrow> PathFacts \<Rightarrow> nat \<Rightarrow> string \<Rightarrow> string \<Rightarrow> Expr \<Rightarrow> Expr option" where
  "simplify_with_facts B ok F 0 e = None"
| "simplify_with_facts B ok F (Suc depth) e =
     simplify_node B ok F (simplify_with_facts B ok F depth) (simplify_datatype_tester B ok F depth) e"
| "simplify_datatype_tester B ok F 0 d c e = None"
| "simplify_datatype_tester B ok F (Suc depth) d c e =
     simplify_tester_node B ok (simplify_with_facts B ok F depth) (simplify_datatype_tester B ok F depth d c) d c e"

definition simplify :: "bindings \<Rightarrow> (Expr \<Rightarrow> bool) \<Rightarrow> nat \<Rightarrow> Expr \<Rightarrow> Expr option" where
  "simplify B ok depth = simplify_with_facts B ok no_facts depth"

end
