(* ===== verification/Straight_Proof.thy ===== *)
theory Straight_Proof
  imports Straight_Simplify Chc_Liveness
begin

text \<open>
  The straight-line prover (trust-mc-compiler/src/codegen_ay/chc/straightline_proof.rs): substitution along definitions,
  the reading of constraints into an environment and facts, the enumeration of frames up to a fixed point within the
  code's budgets, the verdict, and the discharge of a proved system.
\<close>

section \<open>Substitution\<close>

type_synonym env = "(string, Expr) btree"

text \<open>A variable that is being resolved stands for itself (the occurs check).\<close>

fun substitute_inner :: "bindings \<Rightarrow> env \<Rightarrow> nat \<Rightarrow> string list \<Rightarrow> Expr \<Rightarrow> Expr option" where
  "substitute_inner B env 0 resolving e = None"
| "substitute_inner B env (Suc depth) resolving e =
     (case e of
        Var x s \<Rightarrow>
          (case bt_get env x of
             None \<Rightarrow> Some e
           | Some r \<Rightarrow>
               if x \<in> set resolving then Some e
               else do {
                 r' \<leftarrow> substitute_inner B env depth (x # resolving) r;
                 if sort_of B r' \<noteq> sort_of B e then None else Some r' })
      | _ \<Rightarrow> map_option (with_children e) (those (map (substitute_inner B env depth resolving) (children e))))"

definition substitute :: "bindings \<Rightarrow> env \<Rightarrow> nat \<Rightarrow> Expr \<Rightarrow> Expr option" where
  "substitute B env depth e = substitute_inner B env depth [] e"

definition expr_mentions_var :: "string \<Rightarrow> Expr \<Rightarrow> bool" where
  "expr_mentions_var x e \<longleftrightarrow> x \<in> expr_vars e"

section \<open>Constraints\<close>

definition is_tautological_self_binding :: "bindings \<Rightarrow> env \<Rightarrow> string \<Rightarrow> Expr \<Rightarrow> bool" where
  "is_tautological_self_binding B env x v \<longleftrightarrow>
     (case bt_get env x of
        Some old \<Rightarrow> var_of old = Some x \<and> sort_of B old = sort_of B v \<and> \<not> expr_mentions_var x v
      | None \<Rightarrow> False)"

type_synonym path = "env \<times> PathFacts"

definition bind_env_var :: "bindings \<Rightarrow> (Expr \<Rightarrow> bool) \<Rightarrow> nat \<Rightarrow> string \<Rightarrow> Expr \<Rightarrow> path \<Rightarrow> ConstraintStatus \<times> path" where
  "bind_env_var B ok depth x v = (\<lambda>(env, F).
     if is_tautological_self_binding B env x v then (Feasible, bt_insert x v env, F)
     else (case bt_get env x of
         Some old \<Rightarrow>
           (case simplify B ok depth (Eq old v) of
              None \<Rightarrow> (Unsupported, env, F)
            | Some q \<Rightarrow> (case bool_of q of Some True \<Rightarrow> Feasible | Some False \<Rightarrow> Infeasible | None \<Rightarrow> Unsupported, env, F))
       | None \<Rightarrow> (Feasible, bt_insert x v env, F)))"

text \<open>The first recording that applies; nothing is learned when none does.\<close>

definition after_recording :: "(ConstraintStatus \<times> PathFacts) option \<Rightarrow> path \<Rightarrow> ConstraintStatus \<times> path" where
  "after_recording r = (\<lambda>(env, F). case r of Some (s, F') \<Rightarrow> (s, env, F') | None \<Rightarrow> (Feasible, env, F))"

text \<open>A variable on one side of an equation is bound to the other side.\<close>

definition bind_side :: "bindings \<Rightarrow> (Expr \<Rightarrow> bool) \<Rightarrow> nat \<Rightarrow> Expr \<Rightarrow> Expr \<Rightarrow> path \<Rightarrow> (ConstraintStatus \<times> path) option" where
  "bind_side B ok depth a b st =
     (case var_of a of
        None \<Rightarrow> None
      | Some x \<Rightarrow>
          if expr_mentions_var x b then None
          else Some (if sort_of B a \<noteq> sort_of B b then (Unsupported, st) else bind_env_var B ok depth x b st))"

definition apply_eq :: "bindings \<Rightarrow> (Expr \<Rightarrow> bool) \<Rightarrow> nat \<Rightarrow> Expr \<Rightarrow> Expr \<Rightarrow> path \<Rightarrow> ConstraintStatus \<times> path" where
  "apply_eq B ok depth l r st =
     (case or_else (bind_side B ok depth l r st) (bind_side B ok depth r l st) of Some res \<Rightarrow> res | None \<Rightarrow> (Feasible, st))"

definition apply_not :: "bindings \<Rightarrow> (Expr \<Rightarrow> bool) \<Rightarrow> nat \<Rightarrow> Expr \<Rightarrow> path \<Rightarrow> ConstraintStatus \<times> path" where
  "apply_not B ok depth a = (\<lambda>(env, F).
     case a of
       Eq l r \<Rightarrow> (Feasible, env, add_disequality B l r F)
     | Var x s \<Rightarrow> if sort_of B a = SBool then bind_env_var B ok depth x (BoolConst False) (env, F) else (Feasible, env, F)
     | _ \<Rightarrow> after_recording (or_else (record_unsigned_upper_bound_from_cmp B a True F) (record_unsigned_lower_bound_from_cmp B a True F))
         (env, F))"

definition apply_cmp :: "bindings \<Rightarrow> BvOp \<Rightarrow> Expr \<Rightarrow> Expr \<Rightarrow> path \<Rightarrow> ConstraintStatus \<times> path" where
  "apply_cmp B op l r = (\<lambda>(env, F).
     after_recording
       (if op = BvULt then record_unsigned_upper_bound B l r F
        else or_else (record_unsigned_upper_bound_from_cmp B (Bv op l r) False F)
          (record_unsigned_lower_bound_from_cmp B (Bv op l r) False F))
       (env, F))"

text \<open>One pass over a list of constraints, and passes until nothing changes.\<close>

fun pass_over :: "(Expr \<Rightarrow> path \<Rightarrow> ConstraintStatus \<times> path) \<Rightarrow> Expr list \<Rightarrow> bool \<Rightarrow> path \<Rightarrow> ConstraintStatus \<times> path" where
  "pass_over A [] unsupported st = (if unsupported then Unsupported else Feasible, st)"
| "pass_over A (c # cs) unsupported st =
     (case A c st of
        (Infeasible, st') \<Rightarrow> (Infeasible, st')
      | (s, st') \<Rightarrow> pass_over A cs (unsupported \<or> s = Unsupported) st')"

fun passes :: "(Expr \<Rightarrow> path \<Rightarrow> ConstraintStatus \<times> path) \<Rightarrow> nat \<Rightarrow> Expr list \<Rightarrow> path \<Rightarrow> ConstraintStatus \<times> path" where
  "passes A 0 cs st = (Unsupported, st)"
| "passes A (Suc n) cs st =
     (case pass_over A cs False st of
        (Infeasible, st') \<Rightarrow> (Infeasible, st')
      | (s, st') \<Rightarrow> if st' = st then (s, st') else passes A n cs st')"

definition max_passes :: "Expr list \<Rightarrow> nat" where
  "max_passes cs = max (4 * length cs + 8) 16"

fun apply_constraint :: "bindings \<Rightarrow> (Expr \<Rightarrow> bool) \<Rightarrow> nat \<Rightarrow> nat \<Rightarrow> Expr \<Rightarrow> path \<Rightarrow> ConstraintStatus \<times> path" where
  "apply_constraint B ok depth 0 c st = (Unsupported, st)"
| "apply_constraint B ok depth (Suc n) c st =
     (case do { c' \<leftarrow> substitute B (fst st) depth c; simplify_with_facts B ok (snd st) depth c' } of
        None \<Rightarrow> (Unsupported, st)
      | Some e \<Rightarrow>
          (case e of
             BoolConst v \<Rightarrow> (if v then Feasible else Infeasible, st)
           | Var x s \<Rightarrow> if sort_of B e = SBool then bind_env_var B ok depth x (BoolConst True) st else (Feasible, st)
           | And es \<Rightarrow> passes (apply_constraint B ok depth n) (max_passes es) es st
           | Eq l r \<Rightarrow> apply_eq B ok depth l r st
           | Bv op l r \<Rightarrow> if unsigned_cmp op = None then (Feasible, st) else apply_cmp B op l r st
           | NotE a \<Rightarrow> apply_not B ok depth a st
           | _ \<Rightarrow> (Feasible, st)))"

text \<open>The nesting of conjunctions is bounded by the recursion depth as well.\<close>

definition apply_constraints :: "bindings \<Rightarrow> (Expr \<Rightarrow> bool) \<Rightarrow> nat \<Rightarrow> Expr list \<Rightarrow> path \<Rightarrow> ConstraintStatus \<times> path" where
  "apply_constraints B ok depth cs st = passes (apply_constraint B ok depth depth) (max_passes cs) cs st"

section \<open>Frames\<close>

record Frame =
  frame_args :: "Expr list"
  frame_facts :: PathFacts

definition start_frame :: Frame where
  "start_frame = \<lparr> frame_args = [], frame_facts = no_facts \<rparr>"

type_synonym reach = "(string, Frame list) btree"

definition frames_at :: "reach \<Rightarrow> RelationApp option \<Rightarrow> Frame list" where
  "frames_at R a = (case a of None \<Rightarrow> [start_frame] | Some a \<Rightarrow> bt_get_or [] R (app_name a))"

fun bind_args :: "bindings \<Rightarrow> Expr list \<Rightarrow> Expr list \<Rightarrow> env \<Rightarrow> env option" where
  "bind_args B (a # as) (v # vs) env =
     (case var_of a of
        None \<Rightarrow> None
      | Some x \<Rightarrow> if sort_of B a \<noteq> sort_of B v then None else bind_args B as vs (bt_insert x v env))"
| "bind_args B [] [] env = Some env"
| "bind_args B _ _ env = None"

definition initial_env :: "bindings \<Rightarrow> RelationApp option \<Rightarrow> Frame \<Rightarrow> env option" where
  "initial_env B a f = (case a of None \<Rightarrow> Some [] | Some a \<Rightarrow> bind_args B (app_args a) (frame_args f) [])"

definition relation_args_match_decl :: "bindings \<Rightarrow> RelationDecl list \<Rightarrow> string \<Rightarrow> Expr list \<Rightarrow> bool" where
  "relation_args_match_decl B ds p args \<longleftrightarrow>
     (case bt_get (bt_collect (map (\<lambda>d. (rel_name d, arg_sorts d)) ds)) p of
        None \<Rightarrow> False
      | Some ss \<Rightarrow> map (sort_of B) args = ss)"

datatype StepResult = Declined | Pruned | Reaches Frame

text \<open>One rule at one frame.\<close>

definition fire_rule :: "bindings \<Rightarrow> (Expr \<Rightarrow> bool) \<Rightarrow> nat \<Rightarrow> RelationDecl list \<Rightarrow> Rule \<Rightarrow> Frame \<Rightarrow> StepResult" where
  "fire_rule B ok depth ds r f =
     (case initial_env B (body_relation r) f of
        None \<Rightarrow> Declined
      | Some env \<Rightarrow>
          (case apply_constraints B ok depth (body_constraints r) (env, frame_facts f) of
             (Infeasible, st) \<Rightarrow> Pruned
           | (Unsupported, st) \<Rightarrow> Declined
           | (Feasible, env', F) \<Rightarrow>
               if head_name r = ''error'' then Declined
               else (case those (map (\<lambda>a. do { a' \<leftarrow> substitute B env' depth a; simplify_with_facts B ok F depth a' })
                   (app_args (head r))) of
                   None \<Rightarrow> Declined
                 | Some args \<Rightarrow>
                     if relation_args_match_decl B ds (head_name r) args
                     then Reaches \<lparr> frame_args = args, frame_facts = F \<rparr>
                     else Declined)))"

section \<open>Enumeration\<close>

definition MAX_RULES :: nat where
  "MAX_RULES = 256"

definition MAX_FRAMES_PER_RELATION :: nat where
  "MAX_FRAMES_PER_RELATION = 64"

definition MAX_TOTAL_FRAMES :: nat where
  "MAX_TOTAL_FRAMES = 512"

record Search =
  reachable :: reach
  worklist :: "string list"
  total_frames :: nat
  changed :: bool

definition insert_frame :: "string \<Rightarrow> Frame \<Rightarrow> Search \<Rightarrow> Search option" where
  "insert_frame p f s =
     (let frames = bt_get_or [] (reachable s) p in
      if f \<in> set frames then Some s
      else if MAX_FRAMES_PER_RELATION < Suc (length frames) \<or> MAX_TOTAL_FRAMES < Suc (total_frames s) then None
      else Some (s\<lparr> reachable := bt_insert p (frames @ [f]) (reachable s), worklist := worklist s @ [p],
        total_frames := Suc (total_frames s), changed := True \<rparr>))"

fun over_frames :: "(Frame \<Rightarrow> StepResult) \<Rightarrow> string \<Rightarrow> Frame list \<Rightarrow> Search \<Rightarrow> Search option" where
  "over_frames step p [] s = Some s"
| "over_frames step p (f # fs) s =
     (case step f of
        Declined \<Rightarrow> None
      | Pruned \<Rightarrow> over_frames step p fs s
      | Reaches g \<Rightarrow> do { s' \<leftarrow> insert_frame p g s; over_frames step p fs s' })"

fun over_rules :: "(Rule \<Rightarrow> Frame \<Rightarrow> StepResult) \<Rightarrow> Rule list \<Rightarrow> Search \<Rightarrow> Search option" where
  "over_rules step [] s = Some s"
| "over_rules step (r # rs) s = do {
     s' \<leftarrow> over_frames (step r) (head_name r) (frames_at (reachable s) (body_relation r)) s;
     over_rules step rs s' }"

lemma insert_frame_total:
  assumes "insert_frame p f s = Some s'" "total_frames s \<le> MAX_TOTAL_FRAMES"
  shows "total_frames s \<le> total_frames s' \<and> total_frames s' \<le> MAX_TOTAL_FRAMES \<and>
    (s' = s \<or> changed s' \<and> total_frames s < total_frames s')"
  using assms by (auto simp: insert_frame_def Let_def split: if_splits)

lemma over_frames_total:
  assumes "over_frames step p fs s = Some s'" "total_frames s \<le> MAX_TOTAL_FRAMES"
  shows "total_frames s \<le> total_frames s' \<and> total_frames s' \<le> MAX_TOTAL_FRAMES \<and>
    (s' = s \<or> changed s' \<and> total_frames s < total_frames s')"
  using assms
proof (induction fs arbitrary: s)
  case (Cons f fs)
  show ?case
  proof (cases "step f")
    case (Reaches g)
    then obtain t where "insert_frame p g s = Some t" "over_frames step p fs t = Some s'"
      using Cons.prems(1) by (auto simp: bind_eq_Some_conv)
    then show ?thesis
      using insert_frame_total [of p g s t] Cons.IH [of t] Cons.prems(2) by auto
  qed (use Cons in simp_all)
qed simp

lemma over_rules_total:
  assumes "over_rules step rs s = Some s'" "total_frames s \<le> MAX_TOTAL_FRAMES"
  shows "total_frames s \<le> total_frames s' \<and> total_frames s' \<le> MAX_TOTAL_FRAMES \<and>
    (s' = s \<or> changed s' \<and> total_frames s < total_frames s')"
  using assms
proof (induction rs arbitrary: s)
  case (Cons r rs)
  then obtain t where t: "over_frames (step r) (head_name r) (frames_at (reachable s) (body_relation r)) s = Some t"
      "over_rules step rs t = Some s'"
    by (auto simp: bind_eq_Some_conv)
  show ?case
    using over_frames_total [OF t(1) Cons.prems(2)] Cons.IH [OF t(2)] by auto
qed simp

text \<open>Rounds over all rules, as long as a round adds a frame.\<close>

function search_rounds :: "(Rule \<Rightarrow> Frame \<Rightarrow> StepResult) \<Rightarrow> Rule list \<Rightarrow> Search \<Rightarrow> Search option" where
  "search_rounds step rs s =
     (if MAX_TOTAL_FRAMES < total_frames s then None
      else (case over_rules step rs (s\<lparr> changed := False \<rparr>) of
          None \<Rightarrow> None
        | Some s' \<Rightarrow>
            if \<not> changed s' then Some s'
            else (case worklist s' of [] \<Rightarrow> Some s' | _ # ws \<Rightarrow> search_rounds step rs (s'\<lparr> worklist := ws \<rparr>))))"
  by pat_completeness auto
termination
proof (relation "measure (\<lambda>(_, _, s). MAX_TOTAL_FRAMES - total_frames s)")
  fix step :: "Rule \<Rightarrow> Frame \<Rightarrow> StepResult" and rs s s' p and ws :: "string list"
  assume "\<not> MAX_TOTAL_FRAMES < total_frames s" "over_rules step rs (s\<lparr> changed := False \<rparr>) = Some s'" "\<not> \<not> changed s'"
  then have "total_frames s < total_frames s' \<and> total_frames s' \<le> MAX_TOTAL_FRAMES"
    using over_rules_total [of step rs "s\<lparr> changed := False \<rparr>" s'] by auto
  then show "((step, rs, s'\<lparr> worklist := ws \<rparr>), step, rs, s) \<in> measure (\<lambda>(_, _, s). MAX_TOTAL_FRAMES - total_frames s)"
    by auto
qed simp

declare search_rounds.simps [simp del]

definition empty_search :: Search where
  "empty_search = \<lparr> reachable = [], worklist = [], total_frames = 0, changed = False \<rparr>"

section \<open>Loops\<close>

definition loop_edges :: "Rule list \<Rightarrow> (string, string list) btree" where
  "loop_edges rs = fold (\<lambda>r m. case block_edge r of None \<Rightarrow> m | Some (b, h) \<Rightarrow> bt_update b [] (\<lambda>hs. hs @ [h]) m) rs []"

definition loop_nodes :: "Rule list \<Rightarrow> string list" where
  "loop_nodes rs =
     fold (\<lambda>r ns.
       if is_error_reachable_head (head_name r) then ns
       else (case body_relation r of
           None \<Rightarrow> List.insert (head_name r) ns
         | Some a \<Rightarrow>
             if is_error_reachable_head (app_name a) then List.insert (head_name r) ns
             else List.insert (app_name a) (List.insert (head_name r) ns))) rs []"

lemma loop_search_measure:
  assumes "n \<notin> set seen"
  shows "graph_nodes E \<union> set (rev (successors E n) @ stack) - insert n (set seen) \<subset> graph_nodes E \<union> set (n # stack) - set seen"
proof -
  have "set (successors E n) \<subseteq> graph_nodes E"
    using successors_nodes by blast
  with assms show ?thesis
    by auto
qed

function loop_search :: "(string, string list) btree \<Rightarrow> string \<Rightarrow> string list \<Rightarrow> string list \<Rightarrow> bool" where
  "loop_search E start [] seen \<longleftrightarrow> False"
| "loop_search E start (n # stack) seen \<longleftrightarrow>
     n = start \<or>
     (if n \<in> set seen then loop_search E start stack seen
      else loop_search E start (rev (successors E n) @ stack) (n # seen))"
  by pat_completeness auto
termination
proof (relation "measures [\<lambda>(E, start, stack, seen). card (graph_nodes E \<union> set stack - set seen), \<lambda>(E, start, stack, seen). length stack]")
  fix E :: "(string, string list) btree" and start n :: string and stack seen
  show "((E, start, stack, seen), E, start, n # stack, seen)
      \<in> measures [\<lambda>(E, start, stack, seen). card (graph_nodes E \<union> set stack - set seen), \<lambda>(E, start, stack, seen). length stack]"
    if "n \<in> set seen"
  proof -
    have "card (graph_nodes E \<union> set stack - set seen) \<le> card (graph_nodes E \<union> set (n # stack) - set seen)"
      by (intro card_mono) (auto simp: finite_graph_nodes)
    then show ?thesis
      by auto
  qed
  show "((E, start, rev (successors E n) @ stack, n # seen), E, start, n # stack, seen)
      \<in> measures [\<lambda>(E, start, stack, seen). card (graph_nodes E \<union> set stack - set seen), \<lambda>(E, start, stack, seen). length stack]"
    if "n \<notin> set seen"
    using psubset_card_mono [OF _ loop_search_measure [OF that]] by (simp add: finite_graph_nodes)
qed simp

definition loop_relations :: "Rule list \<Rightarrow> string list" where
  "loop_relations rs =
     (let E = loop_edges rs in filter (\<lambda>p. loop_search E p (rev (successors E p)) []) (loop_nodes rs))"

section \<open>The verdict\<close>

datatype StraightlineOutcome = NotProven | Safe | VacuousUnreachableChecks

definition mentions_havoc :: "Expr \<Rightarrow> bool" where
  "mentions_havoc e \<longleftrightarrow> (\<exists>x \<in> expr_vars e. contains x ''__havoc_'')"

definition has_havoc_edge :: "Rule \<Rightarrow> bool" where
  "has_havoc_edge r \<longleftrightarrow> (\<exists>c \<in> set (body_constraints r). mentions_havoc c) \<or> (\<exists>a \<in> set (app_args (head r)). mentions_havoc a)"

definition has_error_rule :: "ChcVc \<Rightarrow> bool" where
  "has_error_rule vc \<longleftrightarrow> (\<exists>r \<in> set (rules vc). head_name r = ''error'')"

definition sinks :: "Rule list \<Rightarrow> string list" where
  "sinks rs =
     filter (\<lambda>p. \<not> is_error_reachable_head p \<and> Some p \<notin> set (map body_name rs)) (map head_name rs)"

definition enumerate_frames :: "bindings \<Rightarrow> (Expr \<Rightarrow> bool) \<Rightarrow> nat \<Rightarrow> ChcVc \<Rightarrow> reach option" where
  "enumerate_frames B ok depth vc =
     map_option reachable (search_rounds (fire_rule B ok depth (relations vc)) (rules vc) empty_search)"

definition prove_straightline_safety_detailed :: "bindings \<Rightarrow> (Expr \<Rightarrow> bool) \<Rightarrow> nat \<Rightarrow> ChcVc \<Rightarrow> StraightlineOutcome" where
  "prove_straightline_safety_detailed B ok depth vc =
     (if MAX_RULES < length (rules vc) then NotProven
      else if \<exists>r \<in> set (rules vc). has_havoc_edge r then NotProven
      else if \<not> has_error_rule vc then NotProven
      else (case enumerate_frames B ok depth vc of
          None \<Rightarrow> NotProven
        | Some R \<Rightarrow>
            if \<not> (\<forall>p \<in> set (loop_relations (rules vc)). bt_get R p \<noteq> None) then NotProven
            else if sinks (rules vc) \<noteq> [] \<and> (\<forall>p \<in> set (sinks (rules vc)). bt_get_or [] R p = []) then VacuousUnreachableChecks
            else Safe))"

definition prove_straightline_safety :: "bindings \<Rightarrow> (Expr \<Rightarrow> bool) \<Rightarrow> nat \<Rightarrow> ChcVc \<Rightarrow> bool" where
  "prove_straightline_safety B ok depth vc \<longleftrightarrow> prove_straightline_safety_detailed B ok depth vc \<noteq> NotProven"

section \<open>Discharge\<close>

definition has_error_relation :: "ChcVc \<Rightarrow> bool" where
  "has_error_relation vc \<longleftrightarrow> (\<exists>d \<in> set (relations vc). rel_name d = ''error'')"

definition replace_with_unsat_error_obligation :: "ChcVc \<Rightarrow> ChcVc" where
  "replace_with_unsat_error_obligation vc =
     vc\<lparr> relations := (if has_error_relation vc then relations vc else relations vc @ [\<lparr> rel_name = ''error'', arg_sorts = [] \<rparr>]),
        rules := [\<lparr> body = body_new None [BoolConst False], head = \<lparr> app_name = ''error'', app_args = [] \<rparr> \<rparr>] \<rparr>"

text \<open>The flag the caller gets and the system it leaves; the name recorded for a vacuous harness is only reported.\<close>

definition discharge_result :: "ChcVc \<Rightarrow> bool \<times> ChcVc" where
  "discharge_result vc = (True, (replace_with_unsat_error_obligation vc)\<lparr> trivially_safe_discharged := True \<rparr>)"

definition discharge_straightline_safety :: "bindings \<Rightarrow> (Expr \<Rightarrow> bool) \<Rightarrow> nat \<Rightarrow> ChcVc \<Rightarrow> bool \<times> ChcVc" where
  "discharge_straightline_safety B ok depth vc =
     (if has_error_rule vc
      then (case prove_straightline_safety_detailed B ok depth vc of
          NotProven \<Rightarrow> (False, vc)
        | Safe \<Rightarrow> discharge_result vc
        | VacuousUnreachableChecks \<Rightarrow> discharge_result (vc\<lparr> vacuous_all_checks_unreachable := True \<rparr>))
      else if \<not> has_error_relation vc then (False, vc)
      else if properties vc \<noteq> [] then (False, vc)
      else discharge_result vc)"

end
