(* ===== verification/Straight_Terms.thy ===== *)
theory Straight_Terms
  imports Straight_Proof
begin

text \<open>
  What the soundness of the straight-line prover needs of words and terms: the folded operations on the host's words
  agree with those of the evaluators, and strict sorting, a property of the values of a term's sub-terms.
\<close>

section \<open>Arithmetic of the host\<close>

lemma bv_mask_eq: "w \<le> 128 \<Longrightarrow> bv_mask w = 2 ^ w - 1"
  by (auto simp: bv_mask_def U128_END_def)

lemma and_bv_mask: "w \<le> 128 \<Longrightarrow> and z (bv_mask w) = z mod 2 ^ w"
  by (simp add: bv_mask_eq flip: take_bit_eq_mask mask_eq_exp_minus_1 take_bit_eq_mod)

lemma mod_U128: "w \<le> 128 \<Longrightarrow> z mod U128_END mod 2 ^ w = z mod 2 ^ w"
  unfolding U128_END_def by (intro mod_mod_cancel le_imp_power_dvd)

lemma int_less_width: "int n < 2 ^ w \<longleftrightarrow> n < 2 ^ w"
  by (metis of_nat_less_numeral_power_cancel_iff of_nat_numeral)

lemma bv_const_u128_Some:
  assumes "bv_const_u128 e = Some (c, w)"
  obtains n where "e = BitVecConst n w" "w \<le> 128" "c = int n mod 2 ^ w"
  using assms by (cases e) (auto simp: bv_const_u128_def and_bv_mask split: if_splits)

lemma bv_const_u128_None:
  assumes "bv_const_u128 e = None" "e = BitVecConst n w" "n < 2 ^ w"
  shows "128 < w"
proof (rule ccontr)
  assume "\<not> 128 < w"
  have "int n < 2 ^ w"
    using assms(3) by (simp only: int_less_width)
  also have "(2 :: int) ^ w \<le> U128_END"
    unfolding U128_END_def by (intro power_increasing) (use \<open>\<not> 128 < w\<close> in simp_all)
  finally have "int n < U128_END" .
  with \<open>\<not> 128 < w\<close> assms(1,2) show False
    by (simp add: bv_const_u128_def)
qed

lemma bv_fold_eval:
  assumes "bv_fold op l r w = Some v" "w \<le> 128"
  shows "eval_bv op l w r w = Some (bitvec_const v w) \<and> op \<noteq> BvConcat"
  using assms(1) by (cases op) (auto simp: bitvec_const_def and_bv_mask [OF assms(2)] mod_U128 [OF assms(2)] split: if_splits)

lemma cmp_holds_eval:
  "unsigned_cmp op = Some k \<Longrightarrow> eval_bv op l w r w = Some (BoolConst (cmp_holds k l r)) \<and> op \<noteq> BvConcat"
  by (cases op) (auto simp: unsigned_cmp_def)

text \<open>The order of signed words is read off the sign bits.\<close>

lemma sign_bit_int:
  assumes "0 < w" "n < 2 ^ w"
  shows "and (int n) (push_bit (w - 1) 1) \<noteq> 0 \<longleftrightarrow> bv_msb w n"
proof -
  have width: "(2 :: nat) ^ w = 2 * 2 ^ (w - 1)"
    using assms(1) power_eq_if [of 2 w] by simp
  have "and (int n) (push_bit (w - 1) 1) \<noteq> 0 \<longleftrightarrow> bit n (w - 1)"
    by (simp only: push_bit_of_1 and_exp_eq_0_iff_not_bit not_not bit_of_nat_iff_bit)
  moreover have "n div 2 ^ (w - 1) < 2"
    using assms(2) by (intro less_mult_imp_div_less) (simp only: width mult.commute)
  then have "bit n (w - 1) \<longleftrightarrow> n div 2 ^ (w - 1) \<noteq> 0"
    by (auto simp: bit_iff_odd less_2_cases_iff)
  ultimately show ?thesis
    by (simp add: bv_msb_def div_eq_0_iff not_less)
qed

lemma signed_order:
  assumes "0 < w" "n < 2 ^ w" "m < 2 ^ w"
  shows "cmp_holds k (signed_bv_order (int n) (int m) w) 0 \<longleftrightarrow> cmp_holds k (bv_signed w n) (bv_signed w m)"
proof -
  obtain p where p: "(2 :: int) ^ w = p" "int n < p" "int m < p"
    using assms(2,3) by (simp add: int_less_width)
  show ?thesis
    unfolding signed_bv_order_def Let_def sign_bit_int [OF assms(1,2)] sign_bit_int [OF assms(1,3)] bv_signed_mod p(1)
    using p(2,3) by (cases k) auto
qed

lemma signed_cmp_eval:
  assumes "signed_cmp op = Some k" "0 < w" "n < 2 ^ w" "m < 2 ^ w"
  shows "eval_bv op (int n) w (int m) w = Some (BoolConst (cmp_holds k (signed_bv_order (int n) (int m) w) 0)) \<and> op \<noteq> BvConcat"
  unfolding signed_order [OF assms(2-4)] using assms(1) by (cases op) (auto simp: signed_cmp_def bitvec_to_signed_int)

section \<open>Strictly sorted terms\<close>

definition bits :: "'v smt \<Rightarrow> (string \<Rightarrow> 'v) \<Rightarrow> Expr \<Rightarrow> nat \<Rightarrow> nat \<Rightarrow> bool" where
  "bits M \<rho> e n w \<longleftrightarrow> bv_lit n w \<and> val M \<rho> e = val M \<rho> (BitVecConst n w)"

definition boolean :: "'v smt \<Rightarrow> (string \<Rightarrow> 'v) \<Rightarrow> Expr \<Rightarrow> bool" where
  "boolean M \<rho> e \<longleftrightarrow> val M \<rho> e = val M \<rho> (BoolConst (holds M \<rho> e))"

text \<open>
  The sorts of values: the sort of a value, indices and elements of arrays, the sorts of the fields of data.
\<close>

record 'v typing =
  in_sort :: "Sort \<Rightarrow> 'v \<Rightarrow> bool"
  is_index :: "'v \<Rightarrow> 'v \<Rightarrow> bool"
  is_element :: "'v \<Rightarrow> 'v \<Rightarrow> bool"
  field_sort :: "string \<Rightarrow> 'v \<Rightarrow> Sort \<Rightarrow> bool"

text \<open>
  A node that the bindings could build: no quantifier, terms that carry a sort have a value of that sort (a variable
  above all), conditions are Boolean and their branches of one sort, operands of bit vector operations are bit vectors
  of fitting widths, indices and elements fit their arrays, a selector carries the sort of its field.
\<close>

definition node_strict :: "'v smt \<Rightarrow> 'v sorts \<Rightarrow> 'v typing \<Rightarrow> (string \<Rightarrow> 'v) \<Rightarrow> Expr \<Rightarrow> bool" where
  "node_strict M S T \<rho> e \<longleftrightarrow> node_sorted M S \<rho> e \<and>
     (case e of
        Var x s \<Rightarrow> in_sort T s (val M \<rho> e)
      | Forall xs b ts \<Rightarrow> False
      | Exists xs b ts \<Rightarrow> False
      | NotE a \<Rightarrow> boolean M \<rho> a
      | Ite c a b \<Rightarrow> boolean M \<rho> c \<and> same_sort S (val M \<rho> a) (val M \<rho> b)
      | Bv op a b \<Rightarrow>
          (\<exists>x w y v. bits M \<rho> a x w \<and> bits M \<rho> b y v \<and> (if op = BvConcat then w + v < 2 ^ 32 else w = v))
      | BvNot a \<Rightarrow> (\<exists>x w. bits M \<rho> a x w)
      | BvNeg a \<Rightarrow> (\<exists>x w. bits M \<rho> a x w)
      | BvExtract a hi lo \<Rightarrow> (\<exists>x w. bits M \<rho> a x w \<and> lo \<le> hi \<and> hi < w)
      | BvZeroExtend a n \<Rightarrow> (\<exists>x w. bits M \<rho> a x w \<and> w + n < 2 ^ 32)
      | BvSignExtend a n \<Rightarrow> (\<exists>x w. bits M \<rho> a x w \<and> w + n < 2 ^ 32)
      | Select a i \<Rightarrow> is_index T (val M \<rho> a) (val M \<rho> i)
      | Store a i v \<Rightarrow> is_index T (val M \<rho> a) (val M \<rho> i) \<and> is_element T (val M \<rho> a) (val M \<rho> v)
      | DatatypeConstructor d c es s \<Rightarrow> in_sort T s (val M \<rho> e)
      | DatatypeSelector d f a s \<Rightarrow> field_sort T f (val M \<rho> a) s
      | FuncApp f es s \<Rightarrow> in_sort T s (val M \<rho> e)
      | OtherOp f es s \<Rightarrow> in_sort T s (val M \<rho> e) \<and> (f = ''Bv2Int'' \<longrightarrow> (\<forall>a \<in> set es. \<exists>x w. bits M \<rho> a x w))
      | _ \<Rightarrow> True)"

function strict_at :: "'v smt \<Rightarrow> 'v sorts \<Rightarrow> 'v typing \<Rightarrow> (string \<Rightarrow> 'v) \<Rightarrow> Expr \<Rightarrow> bool" where
  "strict_at M S T \<rho> e \<longleftrightarrow> node_strict M S T \<rho> e \<and> (\<forall>a \<in> set (children e). strict_at M S T \<rho> a)"
  by pat_completeness auto
termination
  by (relation "measure (\<lambda>(_, _, _, _, e). size e)") (auto intro: size_children)

declare strict_at.simps [simp del]

lemma strict_no_binder: "strict_at M S T \<rho> e \<Longrightarrow> \<not> is_binder e"
  by (subst (asm) strict_at.simps) (cases e; simp add: is_binder_def node_strict_def)

lemma strict_leaf [simp]:
  "strict_at M S T \<rho> (Var x s) \<longleftrightarrow> in_sort T s (val M \<rho> (Var x s))"
  "strict_at M S T \<rho> (BoolConst t)"
  "strict_at M S T \<rho> (IntConst i)"
  "strict_at M S T \<rho> (RealConst r)"
  "strict_at M S T \<rho> (BitVecConst n w) \<longleftrightarrow> bv_lit n w"
  by (subst strict_at.simps, simp add: node_strict_def node_sorted_def)+

lemma strict_child: "strict_at M S T \<rho> e \<Longrightarrow> a \<in> set (children e) \<Longrightarrow> strict_at M S T \<rho> a"
  by (subst (asm) strict_at.simps) simp

lemma strict_node: "strict_at M S T \<rho> e \<Longrightarrow> node_strict M S T \<rho> e"
  by (subst (asm) strict_at.simps) simp

lemma strict_expand:
  "strict_at M S T \<rho> (NotE a) \<longleftrightarrow> boolean M \<rho> a \<and> strict_at M S T \<rho> a"
  "strict_at M S T \<rho> (Eq a b) \<longleftrightarrow> same_sort S (val M \<rho> a) (val M \<rho> b) \<and> strict_at M S T \<rho> a \<and> strict_at M S T \<rho> b"
  "strict_at M S T \<rho> (And es) \<longleftrightarrow> (\<forall>a \<in> set es. boolean M \<rho> a \<and> strict_at M S T \<rho> a)"
  "strict_at M S T \<rho> (Or es) \<longleftrightarrow> (\<forall>a \<in> set es. boolean M \<rho> a \<and> strict_at M S T \<rho> a)"
  "strict_at M S T \<rho> (Ite c a b) \<longleftrightarrow> boolean M \<rho> c \<and> same_sort S (val M \<rho> a) (val M \<rho> b) \<and>
     strict_at M S T \<rho> c \<and> strict_at M S T \<rho> a \<and> strict_at M S T \<rho> b"
  "strict_at M S T \<rho> (Select a i) \<longleftrightarrow>
     is_scalar S (val M \<rho> i) \<and> is_index T (val M \<rho> a) (val M \<rho> i) \<and> strict_at M S T \<rho> a \<and> strict_at M S T \<rho> i"
  "strict_at M S T \<rho> (Store a i v) \<longleftrightarrow> is_scalar S (val M \<rho> i) \<and> is_array S (val M \<rho> a) \<and>
     is_index T (val M \<rho> a) (val M \<rho> i) \<and> is_element T (val M \<rho> a) (val M \<rho> v) \<and> strict_at M S T \<rho> a \<and> strict_at M S T \<rho> i \<and> strict_at M S T \<rho> v"
  "strict_at M S T \<rho> (ConstArray s v) \<longleftrightarrow> strict_at M S T \<rho> v"
  "strict_at M S T \<rho> (DatatypeSelector d f a s) \<longleftrightarrow> field_sort T f (val M \<rho> a) s \<and> strict_at M S T \<rho> a"
  "strict_at M S T \<rho> (DatatypeTester d cn a) \<longleftrightarrow> strict_at M S T \<rho> a"
  "strict_at M S T \<rho> (DatatypeConstructor d cn es s) \<longleftrightarrow>
     in_sort T s (val M \<rho> (DatatypeConstructor d cn es s)) \<and> (\<forall>a \<in> set es. strict_at M S T \<rho> a)"
  by ((subst strict_at.simps, simp add: node_strict_def node_sorted_def boolean_def, (blast)?)+)

text \<open>Strictness only depends on the values of the sub-terms.\<close>

lemma bits_value: "val M \<rho> a' = val M \<rho> a \<Longrightarrow> bits M \<rho> a n w \<Longrightarrow> bits M \<rho> a' n w"
  by (simp add: bits_def)

lemma bits_same: "val M \<rho> a' = val M \<rho> a \<Longrightarrow> bits M \<rho> a' = bits M \<rho> a"
  by (intro ext) (simp add: bits_def)

lemma boolean_value: "val M \<rho> a' = val M \<rho> a \<Longrightarrow> boolean M \<rho> a \<Longrightarrow> boolean M \<rho> a'"
  by (simp add: boolean_def holds_def)

lemma all_values:
  assumes "list_all2 (\<lambda>a b. val M \<rho> b = val M \<rho> a) as bs" "\<And>a b. val M \<rho> b = val M \<rho> a \<Longrightarrow> P a \<Longrightarrow> P b" "\<forall>a \<in> set as. P a"
  shows "\<forall>b \<in> set bs. P b"
  using assms(1,3) by (induction rule: list_all2_induct) (auto intro: assms(2))

lemma boolean_members:
  "list_all2 (\<lambda>a b. val M \<rho> b = val M \<rho> a) as bs \<Longrightarrow> \<forall>a \<in> set as. boolean M \<rho> a \<Longrightarrow> \<forall>b \<in> set bs. boolean M \<rho> b"
  by (erule all_values) (rule boolean_value)

lemma same_value_lists:
  "list_all2 (\<lambda>a b. val M \<rho> b = val M \<rho> a) [a] es \<longleftrightarrow> (\<exists>a'. es = [a'] \<and> val M \<rho> a' = val M \<rho> a)"
  "list_all2 (\<lambda>a b. val M \<rho> b = val M \<rho> a) [a, b] es \<longleftrightarrow> (\<exists>a' b'. es = [a', b'] \<and> val M \<rho> a' = val M \<rho> a \<and> val M \<rho> b' = val M \<rho> b)"
  "list_all2 (\<lambda>a b. val M \<rho> b = val M \<rho> a) [a, b, c] es \<longleftrightarrow>
     (\<exists>a' b' c'. es = [a', b', c'] \<and> val M \<rho> a' = val M \<rho> a \<and> val M \<rho> b' = val M \<rho> b \<and> val M \<rho> c' = val M \<rho> c)"
  by (auto simp: list_all2_Cons1)

lemma node_strict_one:
  assumes "val M \<rho> a' = val M \<rho> a"
  shows "node_strict M S T \<rho> (NotE a) \<Longrightarrow> node_strict M S T \<rho> (NotE a')"
    "node_strict M S T \<rho> (BvNot a) \<Longrightarrow> node_strict M S T \<rho> (BvNot a')"
    "node_strict M S T \<rho> (BvNeg a) \<Longrightarrow> node_strict M S T \<rho> (BvNeg a')"
    "node_strict M S T \<rho> (BvExtract a hi lo) \<Longrightarrow> node_strict M S T \<rho> (BvExtract a' hi lo)"
    "node_strict M S T \<rho> (BvZeroExtend a n) \<Longrightarrow> node_strict M S T \<rho> (BvZeroExtend a' n)"
    "node_strict M S T \<rho> (BvSignExtend a n) \<Longrightarrow> node_strict M S T \<rho> (BvSignExtend a' n)"
    "node_strict M S T \<rho> (DatatypeSelector d f a s) \<Longrightarrow> node_strict M S T \<rho> (DatatypeSelector d f a' s)"
  by (simp_all add: node_strict_def node_sorted_def bits_same [OF assms] boolean_def holds_def assms)

lemma node_strict_two:
  assumes "val M \<rho> a' = val M \<rho> a" "val M \<rho> b' = val M \<rho> b"
  shows "node_strict M S T \<rho> (Bv op a b) \<Longrightarrow> node_strict M S T \<rho> (Bv op a' b')"
    "node_strict M S T \<rho> (Eq a b) \<Longrightarrow> node_strict M S T \<rho> (Eq a' b')"
    "node_strict M S T \<rho> (Select a b) \<Longrightarrow> node_strict M S T \<rho> (Select a' b')"
    "val M \<rho> c' = val M \<rho> c \<Longrightarrow> node_strict M S T \<rho> (Store a b c) \<Longrightarrow> node_strict M S T \<rho> (Store a' b' c')"
    "val M \<rho> c' = val M \<rho> c \<Longrightarrow> node_strict M S T \<rho> (Ite a b c) \<Longrightarrow> node_strict M S T \<rho> (Ite a' b' c')"
  by (simp_all add: node_strict_def node_sorted_def bits_same [OF assms(1)] bits_same [OF assms(2)] boolean_def holds_def assms
      split del: if_split) blast

lemma node_strict_values:
  assumes "node_strict M S T \<rho> e" "list_all2 (\<lambda>a b. val M \<rho> b = val M \<rho> a) (children e) es"
    and same: "val M \<rho> (with_children e es) = val M \<rho> e"
  shows "node_strict M S T \<rho> (with_children e es)"
proof (cases e)
  case (And as)
  have "\<forall>a \<in> set as. boolean M \<rho> a"
    using assms(1) by (simp add: And node_strict_def node_sorted_def boolean_def)
  then have "\<forall>a \<in> set es. boolean M \<rho> a"
    using assms(2) boolean_members [of M \<rho> as es] by (simp add: And)
  with And show ?thesis
    by (simp add: node_strict_def node_sorted_def boolean_def)
next
  case (Or as)
  have "\<forall>a \<in> set as. boolean M \<rho> a"
    using assms(1) by (simp add: Or node_strict_def node_sorted_def boolean_def)
  then have "\<forall>a \<in> set es. boolean M \<rho> a"
    using assms(2) boolean_members [of M \<rho> as es] by (simp add: Or)
  with Or show ?thesis
    by (simp add: node_strict_def node_sorted_def boolean_def)
next
  case (OtherOp f as s)
  have "\<forall>a \<in> set es. \<exists>x w. bits M \<rho> a x w" if "f = ''Bv2Int''"
    using assms(2) by (rule all_values [where as = "children e"])
      (use assms(1) bits_value that in \<open>force simp: OtherOp node_strict_def\<close>)+
  with OtherOp assms(1) same show ?thesis
    by (simp add: node_strict_def node_sorted_def)
next
  case (DatatypeConstructor d c as s)
  then show ?thesis
    using assms(1) same by (simp add: node_strict_def node_sorted_def)
next
  case (FuncApp f as s)
  then show ?thesis
    using assms(1) same by (simp add: node_strict_def node_sorted_def)
qed (use assms node_strict_one node_strict_two in \<open>auto simp: same_value_lists node_strict_def [of _ _ _ _ "ConstArray _ _"]
    node_strict_def [of _ _ _ _ "DatatypeTester _ _ _"]
    node_strict_def [of _ _ _ _ "Forall _ _ _"] node_strict_def [of _ _ _ _ "Exists _ _ _"] node_sorted_def\<close>)

lemma strict_rebuild:
  assumes "strict_at M S T \<rho> e" "list_all2 (\<lambda>a b. val M \<rho> b = val M \<rho> a \<and> strict_at M S T \<rho> b) (children e) es"
    and same: "val M \<rho> (with_children e es) = val M \<rho> e"
  shows "strict_at M S T \<rho> (with_children e es)"
proof -
  have vals: "list_all2 (\<lambda>a b. val M \<rho> b = val M \<rho> a) (children e) es"
    using assms(2) by (rule list_all2_mono) simp
  have strict: "\<forall>b \<in> set es. strict_at M S T \<rho> b"
    using assms(2) by (auto simp: list_all2_conv_all_nth in_set_conv_nth)
  have "set (children (with_children e es)) \<subseteq> set es"
    using strict_no_binder [OF assms(1)] list_all2_lengthD [OF assms(2)]
    by (cases e) (auto simp: is_binder_def eq_commute [of _ "length es"] intro!: nth_mem)
  with strict show ?thesis
    by (subst strict_at.simps) (use node_strict_values [OF strict_node [OF assms(1)] vals same] in blast)
qed

text \<open>Strictness is read off the variables of a term.\<close>

lemma child_vars: "a \<in> set (children e) \<Longrightarrow> expr_vars a \<subseteq> expr_vars e"
  by (cases e) (auto simp: collect_expr_vars_node)

lemma node_strict_same:
  assumes "\<forall>a \<in> set (children e). val M \<sigma> a = val M \<rho> a" "\<And>c. expr_vars c = {} \<Longrightarrow> val M \<sigma> c = val M \<rho> c"
    and "val M \<sigma> e = val M \<rho> e"
  shows "node_strict M S T \<sigma> e = node_strict M S T \<rho> e"
proof -
  have lits: "val M \<sigma> (BitVecConst n w) = val M \<rho> (BitVecConst n w)" "val M \<sigma> (BoolConst t) = val M \<rho> (BoolConst t)" for n w t
    by (rule assms(2), simp)+
  have bits: "bits M \<sigma> a = bits M \<rho> a" if "a \<in> set (children e)" for a
    using assms(1) that by (intro ext) (simp add: bits_def lits)
  have boolean: "boolean M \<sigma> a = boolean M \<rho> a" "val M \<sigma> a = val M \<sigma> (BoolConst (holds M \<sigma> a)) \<longleftrightarrow> val M \<rho> a = val M \<rho> (BoolConst (holds M \<rho> a))"
    if "a \<in> set (children e)" for a
    using assms(1) that by (simp_all add: boolean_def holds_def lits)
  show ?thesis
    using assms(1,3) bits boolean by (cases e) (simp_all add: node_strict_def node_sorted_def lits)
qed

lemma strict_same:
  assumes "smt_model M" "\<And>x. x \<in> expr_vars e \<Longrightarrow> \<sigma> x = \<rho> x"
  shows "strict_at M S T \<sigma> e = strict_at M S T \<rho> e"
  using assms(2)
proof (induction e rule: measure_induct_rule [of size])
  case (less e)
  have agree: "\<sigma> x = \<rho> x" if "a \<in> set (children e)" "x \<in> expr_vars a" for a x
    using less.prems child_vars [OF that(1)] that(2) by blast
  have "node_strict M S T \<sigma> e = node_strict M S T \<rho> e"
    using less.prems by (intro node_strict_same) (auto intro!: smt_model.val_cong [OF assms(1)] intro: agree)
  moreover have "strict_at M S T \<sigma> a = strict_at M S T \<rho> a" if "a \<in> set (children e)" for a
    using less.IH [OF size_children [OF that]] agree [OF that] by blast
  ultimately show ?case
    by (subst (1 2) strict_at.simps) simp
qed

end
