(* ===== verification/Straight_Sound.thy ===== *)
theory Straight_Sound
  imports Straight_Terms
begin

text \<open>
  The facts of a path and the equations and connectives of the simplifier of the straight-line prover: what it decides
  is true at every assignment at which the facts hold.  The locale states what is used of the bindings (the sort they
  report for a well-sorted term is the sort of its value), of the sorts of values, and the laws of two more variants;
  nothing is used of their checked constructors.
\<close>

lemma checked_Some [simp]: "checked ok e = Some e' \<longleftrightarrow> ok e \<and> e' = e"
  by (auto simp: checked_def)

lemma bitvec_width_Some: "bitvec_width s = Some w \<longleftrightarrow> s = SBitVec w"
  by (cases s) auto

text \<open>The facts of a path hold at an assignment.\<close>

definition bounded_above :: "'v smt \<Rightarrow> (string \<Rightarrow> 'v) \<Rightarrow> bound \<Rightarrow> bool" where
  "bounded_above M \<rho> = (\<lambda>(e, b, w). \<exists>n. bits M \<rho> e n w \<and> int n < b)"

definition bounded_below :: "'v smt \<Rightarrow> (string \<Rightarrow> 'v) \<Rightarrow> bound \<Rightarrow> bool" where
  "bounded_below M \<rho> = (\<lambda>(e, b, w). \<exists>n. bits M \<rho> e n w \<and> b \<le> int n)"

definition facts_hold :: "'v smt \<Rightarrow> (string \<Rightarrow> 'v) \<Rightarrow> PathFacts \<Rightarrow> bool" where
  "facts_hold M \<rho> F \<longleftrightarrow>
     (\<forall>(a, b) \<in> set (disequalities F). val M \<rho> a \<noteq> val M \<rho> b) \<and>
     (\<forall>b \<in> set (unsigned_upper_bounds F). bounded_above M \<rho> b) \<and>
     (\<forall>b \<in> set (unsigned_lower_bounds F). bounded_below M \<rho> b)"

lemma no_facts_hold [simp]: "facts_hold M \<rho> no_facts"
  by (simp add: facts_hold_def no_facts_def)

locale smt_checked = smt_bindings M S B for M :: "'v smt" and S :: "'v sorts" and B :: bindings +
  fixes T :: "'v typing"
  assumes in_bool: "in_sort T SBool u \<longleftrightarrow> (\<exists>t. u = val M \<rho> (BoolConst t))"
    and in_bits: "in_sort T (SBitVec w) u \<Longrightarrow> \<exists>n. bv_lit n w \<and> u = val M \<rho> (BitVecConst n w)"
    and in_same: "in_sort T s u \<Longrightarrow> in_sort T s v \<Longrightarrow> same_sort S u v"
    and same_sort_bool: "same_sort S u (val M \<rho> (BoolConst t)) \<Longrightarrow> \<exists>s. u = val M \<rho> (BoolConst s)"
    and index_store: "is_array S (val M \<rho> a) \<Longrightarrow> is_index T (val M \<rho> (Store a i e)) u \<Longrightarrow> is_index T (val M \<rho> a) u"
    and index_sort: "is_index T x u \<Longrightarrow> is_index T x v \<Longrightarrow> same_sort S u v"
    and field_same: "field_sort T f u s \<Longrightarrow> same_sort S u v \<Longrightarrow> field_sort T f v s"
    and val_Bv2Int: "bits M \<rho> a n w \<Longrightarrow> val M \<rho> (OtherOp ''Bv2Int'' [a] s) = val M \<rho> (IntConst (int n))"
    and val_Tester: "val M \<rho> (DatatypeTester d c (DatatypeConstructor d c' as s)) = val M \<rho> (BoolConst (c' = c))"
    and val_Tester_bool: "\<exists>t. val M \<rho> (DatatypeTester d c a) = val M \<rho> (BoolConst t)"
    and sort_of_Selector: "sort_of B (DatatypeSelector d f a s) = s"
    and sort_of_value: "fits M \<rho> \<Longrightarrow> strict_at M S T \<rho> e \<Longrightarrow> in_sort T (sort_of B e) (val M \<rho> e)"
begin

abbreviation strict :: "(string \<Rightarrow> 'v) \<Rightarrow> Expr \<Rightarrow> bool" where
  "strict \<equiv> strict_at M S T"

abbreviation kept :: "(string \<Rightarrow> 'v) \<Rightarrow> Expr \<Rightarrow> Expr \<Rightarrow> bool" where
  "kept \<rho> e e' \<equiv> val M \<rho> e' = val M \<rho> e \<and> strict \<rho> e'"

definition sound :: "(string \<Rightarrow> 'v) \<Rightarrow> (Expr \<Rightarrow> Expr option) \<Rightarrow> bool" where
  "sound \<rho> f \<longleftrightarrow> (\<forall>e e'. strict \<rho> e \<longrightarrow> f e = Some e' \<longrightarrow> kept \<rho> e e')"

lemma soundD: "sound \<rho> f \<Longrightarrow> f e = Some e' \<Longrightarrow> strict \<rho> e \<Longrightarrow> kept \<rho> e e'"
  by (auto simp: sound_def)

text \<open>The sorts the bindings report are those of the values.\<close>

lemma sort_of_bits: "fits M \<rho> \<Longrightarrow> strict \<rho> e \<Longrightarrow> sort_of B e = SBitVec w \<Longrightarrow> \<exists>n. bits M \<rho> e n w"
  using sort_of_value [of \<rho> e] in_bits [of w _ \<rho>] by (auto simp: bits_def)

lemma sort_of_bool: "fits M \<rho> \<Longrightarrow> strict \<rho> e \<Longrightarrow> sort_of B e = SBool \<Longrightarrow> boolean M \<rho> e"
  using sort_of_value [of \<rho> e] in_bool [of _ \<rho>] val_bool by (auto simp: boolean_def)

text \<open>Values of bit vectors and Booleans.\<close>

lemma bits_unique: "bits M \<rho> e n w \<Longrightarrow> bits M \<rho> e m v \<Longrightarrow> n = m \<and> w = v"
  using literal_inj [of "BitVecConst n w" "BitVecConst m v" \<rho>] by (simp add: bits_def scalar_literal_def)

lemma bits_eq: "bits M \<rho> a n w \<Longrightarrow> bits M \<rho> b m w \<Longrightarrow> val M \<rho> a = val M \<rho> b \<longleftrightarrow> n = m"
  using literal_inj [of "BitVecConst n w" "BitVecConst m w" \<rho>] by (auto simp: bits_def scalar_literal_def)

lemma bits_const: "bv_lit n w \<Longrightarrow> bits M \<rho> (BitVecConst n w) m v \<longleftrightarrow> m = n \<and> v = w"
  using literal_inj [of "BitVecConst n w" "BitVecConst m v" \<rho>] by (auto simp: bits_def scalar_literal_def)

lemma bits_range: "bits M \<rho> e n w \<Longrightarrow> 0 < w \<and> w < 2 ^ 32 \<and> n < 2 ^ w"
  by (simp add: bits_def bv_lit_def)

lemma int_inj: "val M \<rho> (IntConst i) = val M \<rho> (IntConst j) \<longleftrightarrow> i = j"
  using literal_inj [of "IntConst i" "IntConst j" \<rho>] by (auto simp: scalar_literal_def)

lemma boolean_iff: "boolean M \<rho> e \<longleftrightarrow> (\<exists>t. val M \<rho> e = val M \<rho> (BoolConst t))"
  using val_bool by (auto simp: boolean_def)

lemma boolean_BoolConst [simp]: "boolean M \<rho> (BoolConst t)"
  by (auto simp: boolean_iff)

lemma boolean_val: "boolean M \<rho> e \<Longrightarrow> val M \<rho> e = val M \<rho> (BoolConst (holds M \<rho> e))"
  by (simp add: boolean_def)

lemma kept_boolean: "kept \<rho> e e' \<Longrightarrow> boolean M \<rho> e \<Longrightarrow> boolean M \<rho> e'"
  using boolean_value by blast

lemma kept_holds: "kept \<rho> e e' \<Longrightarrow> holds M \<rho> e' = holds M \<rho> e"
  by (simp add: holds_def)

lemma holds_values:
  "holds M \<rho> (NotE a) \<longleftrightarrow> \<not> holds M \<rho> a"
  "holds M \<rho> (And es) \<longleftrightarrow> (\<forall>e \<in> set es. holds M \<rho> e)"
  "holds M \<rho> (Or es) \<longleftrightarrow> (\<exists>e \<in> set es. holds M \<rho> e)"
  "holds M \<rho> (Eq a b) \<longleftrightarrow> val M \<rho> a = val M \<rho> b"
  using val_bool [OF val_NotE] val_bool [OF val_And] val_bool [OF val_Or] val_bool [OF val_Eq] by simp_all

lemma boolean_nodes [simp]:
  "boolean M \<rho> (NotE a)" "boolean M \<rho> (And es)" "boolean M \<rho> (Or es)" "boolean M \<rho> (Eq a b)"
  unfolding boolean_iff by (rule exI, rule val_NotE val_And val_Or val_Eq)+

lemma not_not_val: "boolean M \<rho> a \<Longrightarrow> val M \<rho> (NotE (NotE a)) = val M \<rho> a"
  using boolean_val [of \<rho> a] by (simp only: val_NotE [of \<rho> "NotE a"] holds_values not_not)

lemma val_Not_bool: "val M \<rho> a = val M \<rho> (BoolConst t) \<Longrightarrow> val M \<rho> (NotE a) = val M \<rho> (BoolConst (\<not> t))"
  using val_bool by (simp add: val_NotE)

text \<open>The children of a node can be replaced by terms that keep their values.\<close>

lemma kept_rebuild:
  assumes "strict \<rho> e" "list_all2 (kept \<rho>) (children e) es"
  shows "kept \<rho> e (with_children e es)"
proof
  have "same_values \<rho> (children e) es"
    using assms(2) by (rule list_all2_mono) simp
  then show same: "val M \<rho> (with_children e es) = val M \<rho> e"
    by (rule val_node [OF strict_no_binder [OF assms(1)]])
  show "strict \<rho> (with_children e es)"
    by (rule strict_rebuild [OF assms same])
qed

lemma kept_nodes:
  "kept \<rho> a a' \<Longrightarrow> strict \<rho> (NotE a) \<Longrightarrow> kept \<rho> (NotE a) (NotE a')"
  "kept \<rho> a a' \<Longrightarrow> kept \<rho> b b' \<Longrightarrow> strict \<rho> (Eq a b) \<Longrightarrow> kept \<rho> (Eq a b) (Eq a' b')"
  "kept \<rho> a a' \<Longrightarrow> kept \<rho> b b' \<Longrightarrow> strict \<rho> (Bv op a b) \<Longrightarrow> kept \<rho> (Bv op a b) (Bv op a' b')"
  "kept \<rho> c c' \<Longrightarrow> kept \<rho> a a' \<Longrightarrow> kept \<rho> b b' \<Longrightarrow> strict \<rho> (Ite c a b) \<Longrightarrow> kept \<rho> (Ite c a b) (Ite c' a' b')"
  "kept \<rho> a a' \<Longrightarrow> kept \<rho> b b' \<Longrightarrow> strict \<rho> (Select a b) \<Longrightarrow> kept \<rho> (Select a b) (Select a' b')"
  "kept \<rho> c c' \<Longrightarrow> kept \<rho> a a' \<Longrightarrow> kept \<rho> b b' \<Longrightarrow> strict \<rho> (Store c a b) \<Longrightarrow> kept \<rho> (Store c a b) (Store c' a' b')"
  "kept \<rho> a a' \<Longrightarrow> strict \<rho> (ConstArray s a) \<Longrightarrow> kept \<rho> (ConstArray s a) (ConstArray s a')"
  "kept \<rho> a a' \<Longrightarrow> strict \<rho> (BvZeroExtend a n) \<Longrightarrow> kept \<rho> (BvZeroExtend a n) (BvZeroExtend a' n)"
  "kept \<rho> a a' \<Longrightarrow> strict \<rho> (BvExtract a hi lo) \<Longrightarrow> kept \<rho> (BvExtract a hi lo) (BvExtract a' hi lo)"
  "kept \<rho> a a' \<Longrightarrow> strict \<rho> (DatatypeSelector d f a s) \<Longrightarrow> kept \<rho> (DatatypeSelector d f a s) (DatatypeSelector d f a' s)"
  "kept \<rho> a a' \<Longrightarrow> strict \<rho> (DatatypeTester d f a) \<Longrightarrow> kept \<rho> (DatatypeTester d f a) (DatatypeTester d f a')"
  subgoal using kept_rebuild [of \<rho> "NotE a" "[a']"] by simp
  subgoal using kept_rebuild [of \<rho> "Eq a b" "[a', b']"] by simp
  subgoal using kept_rebuild [of \<rho> "Bv op a b" "[a', b']"] by simp
  subgoal using kept_rebuild [of \<rho> "Ite c a b" "[c', a', b']"] by simp
  subgoal using kept_rebuild [of \<rho> "Select a b" "[a', b']"] by simp
  subgoal using kept_rebuild [of \<rho> "Store c a b" "[c', a', b']"] by simp
  subgoal using kept_rebuild [of \<rho> "ConstArray s a" "[a']"] by simp
  subgoal using kept_rebuild [of \<rho> "BvZeroExtend a n" "[a']"] by simp
  subgoal using kept_rebuild [of \<rho> "BvExtract a hi lo" "[a']"] by simp
  subgoal using kept_rebuild [of \<rho> "DatatypeSelector d f a s" "[a']"] by simp
  subgoal using kept_rebuild [of \<rho> "DatatypeTester d f a" "[a']"] by simp
  done

text \<open>Constants of the host.\<close>

lemma const_bits:
  assumes "bv_const_u128 e = Some (c, w)" "strict \<rho> e"
  shows "\<exists>n. bits M \<rho> e n w \<and> c = int n \<and> w \<le> 128"
proof -
  obtain n where n: "e = BitVecConst n w" "w \<le> 128" "c = int n mod 2 ^ w"
    using bv_const_u128_Some [OF assms(1)] by blast
  then have "bv_lit n w"
    using assms(2) by simp
  moreover from this have "int n mod 2 ^ w = int n"
    by (simp add: bv_lit_def int_less_width)
  ultimately show ?thesis
    using n by (intro exI [of _ n]) (simp add: bits_const)
qed

lemma both_bits:
  assumes "both_const l r = Some (Some (a, b, w))" "strict \<rho> l" "strict \<rho> r"
  shows "\<exists>n m. bits M \<rho> l n w \<and> bits M \<rho> r m w \<and> a = int n \<and> b = int m \<and> w \<le> 128"
  using assms const_bits [of l _ _ \<rho>] const_bits [of r _ _ \<rho>] unfolding both_const_def
  by (fastforce split: option.splits if_splits)

subsection \<open>Facts\<close>

lemma bv2int_bits:
  assumes "fits M \<rho>" "strict \<rho> (OtherOp ''Bv2Int'' [a] s)" "sort_of B a = SBitVec w"
  shows "\<exists>n. bits M \<rho> a n w \<and> val M \<rho> (OtherOp ''Bv2Int'' [a] s) = val M \<rho> (IntConst (int n))"
proof -
  have "strict \<rho> a"
    using strict_child [OF assms(2)] by simp
  then obtain n where "bits M \<rho> a n w"
    using sort_of_bits assms(1,3) by blast
  then show ?thesis
    using val_Bv2Int by blast
qed

lemma are_disequal_sound:
  assumes "are_disequal B F l r" "facts_hold M \<rho> F" "fits M \<rho>" "strict \<rho> l" "strict \<rho> r"
  shows "val M \<rho> l \<noteq> val M \<rho> r"
  using assms(1,4,5)
proof (induction l arbitrary: r rule: measure_induct_rule [of size])
  case (less l)
  show ?case
  proof (cases "\<exists>(a, b) \<in> set (disequalities F). a = l \<and> b = r \<or> a = r \<and> b = l")
    case True
    then obtain a b where ab: "(a, b) \<in> set (disequalities F)" "a = l \<and> b = r \<or> a = r \<and> b = l"
      by blast
    then have "val M \<rho> a \<noteq> val M \<rho> b"
      using assms(2) by (auto simp: facts_hold_def)
    then show ?thesis
      using ab(2) by auto
  next
    case False
    then obtain l' r' w where nested: "bv2int_of l = Some l'" "bv2int_of r = Some r'"
        "sort_of B l' = sort_of B r'" "sort_of B l' = SBitVec w" "are_disequal B F l' r'"
      using less.prems(1) by (subst (asm) are_disequal.simps) (auto simp: bitvec_width_Some split: option.splits)
    then obtain s t where eqs: "l = OtherOp ''Bv2Int'' [l'] s" "r = OtherOp ''Bv2Int'' [r'] t"
      by (auto simp: bv2int_of_Some)
    obtain n m where bits: "bits M \<rho> l' n w" "val M \<rho> l = val M \<rho> (IntConst (int n))"
        "bits M \<rho> r' m w" "val M \<rho> r = val M \<rho> (IntConst (int m))"
      using bv2int_bits [OF assms(3)] less.prems(2,3) nested(3,4) unfolding eqs by metis
    have "val M \<rho> l' \<noteq> val M \<rho> r'"
      using less.prems(2,3) by (intro less.IH [OF _ nested(5)]) (auto simp: eqs intro: strict_child)
    then have "n \<noteq> m"
      using bits_eq [OF bits(1,3)] by blast
    then show ?thesis
      unfolding bits(2,4) int_inj by simp
  qed
qed

lemma add_disequality_hold: "facts_hold M \<rho> F \<Longrightarrow> val M \<rho> l \<noteq> val M \<rho> r \<Longrightarrow> facts_hold M \<rho> (add_disequality B l r F)"
  by (auto simp: add_disequality_def facts_hold_def)

lemma tighten_member: "x \<in> set (tighten f e b w bs) \<Longrightarrow>
    x \<in> set bs \<or> x = (e, b, w) \<or> (\<exists>b'. (e, b', w) \<in> set bs \<and> x = (e, f b' b, w))"
  by (induction bs) (auto split: if_splits)

lemma bounded_at:
  assumes "bits M \<rho> e n w"
  shows "bounded_above M \<rho> (e, b, w) \<longleftrightarrow> int n < b" "bounded_below M \<rho> (e, b, w) \<longleftrightarrow> b \<le> int n"
  using assms bits_unique [OF assms] unfolding bounded_above_def bounded_below_def prod.case by metis+

lemma checked_bits:
  "bounded_above M \<rho> (e, b, w) \<Longrightarrow> \<exists>n. bits M \<rho> e n w"
  "bounded_below M \<rho> (e, b, w) \<Longrightarrow> \<exists>n. bits M \<rho> e n w"
  by (auto simp: bounded_above_def bounded_below_def)

lemma facts_upper: "facts_hold M \<rho> F \<Longrightarrow> x \<in> set (unsigned_upper_bounds F) \<Longrightarrow> bounded_above M \<rho> x"
  by (simp add: facts_hold_def)

lemma facts_lower: "facts_hold M \<rho> F \<Longrightarrow> x \<in> set (unsigned_lower_bounds F) \<Longrightarrow> bounded_below M \<rho> x"
  by (simp add: facts_hold_def)

lemma add_upper_hold:
  assumes "facts_hold M \<rho> F" "bounded_above M \<rho> (e, b, w)"
  shows "facts_hold M \<rho> (add_unsigned_upper_bound e b w F)"
proof -
  obtain n where n: "bits M \<rho> e n w"
    using checked_bits(1) [OF assms(2)] by blast
  have old: "int n < b'" if "(e, b', w) \<in> set (unsigned_upper_bounds F)" for b'
    using facts_upper [OF assms(1) that] by (simp add: bounded_at [OF n])
  have "bounded_above M \<rho> x" if "x \<in> set (tighten min e b w (unsigned_upper_bounds F))" for x
    using tighten_member [OF that] assms(2) old facts_upper [OF assms(1)] by (elim disjE exE conjE) (simp_all add: bounded_at [OF n])
  with assms(1) show ?thesis
    by (simp add: add_unsigned_upper_bound_def facts_hold_def)
qed

lemma add_lower_hold:
  assumes "facts_hold M \<rho> F" "bounded_below M \<rho> (e, b, w)"
  shows "facts_hold M \<rho> (add_unsigned_lower_bound e b w F)"
proof -
  obtain n where n: "bits M \<rho> e n w"
    using checked_bits(2) [OF assms(2)] by blast
  have old: "b' \<le> int n" if "(e, b', w) \<in> set (unsigned_lower_bounds F)" for b'
    using facts_lower [OF assms(1) that] by (simp add: bounded_at [OF n])
  have "bounded_below M \<rho> x" if "x \<in> set (tighten max e b w (unsigned_lower_bounds F))" for x
    using tighten_member [OF that] assms(2) old facts_lower [OF assms(1)] by (elim disjE exE conjE) (simp_all add: bounded_at [OF n])
  with assms(1) show ?thesis
    by (simp add: add_unsigned_lower_bound_def facts_hold_def)
qed

lemma no_contradiction:
  assumes "facts_hold M \<rho> F"
  shows "\<not> bounds_contradict F"
proof
  assume "bounds_contradict F"
  then obtain e w lower upper where b: "(e, lower, w) \<in> set (unsigned_lower_bounds F)" "(e, upper, w) \<in> set (unsigned_upper_bounds F)"
      "upper \<le> lower"
    by (auto simp: bounds_contradict_def)
  from facts_lower [OF assms b(1)] obtain n where n: "bits M \<rho> e n w" "lower \<le> int n"
    by (auto simp: bounded_below_def)
  with facts_upper [OF assms b(2)] b(3) show False
    by (simp add: bounded_at [OF n(1)])
qed

lemma upper_bound_holds:
  assumes "facts_hold M \<rho> F" "unsigned_upper_bound F e = Some (b, w)"
  shows "\<exists>n. bits M \<rho> e n w \<and> int n < b"
  using facts_upper [OF assms(1) least_bound_member] assms(2) by (simp add: unsigned_upper_bound_def bounded_above_def)

lemma negated_holds [simp]: "cmp_holds (negated k) l r \<longleftrightarrow> \<not> cmp_holds k l r"
  by (cases k) auto

lemma swapped_holds [simp]: "cmp_holds (swapped k) r l \<longleftrightarrow> cmp_holds k l r"
  by (cases k) auto

lemma unsigned_cmp_value:
  assumes "unsigned_cmp op = Some k" "bits M \<rho> l n w" "bits M \<rho> r m w"
  shows "val M \<rho> (Bv op l r) = val M \<rho> (BoolConst (cmp_holds k (int n) (int m)))"
  using assms val_Bv [of n w m w op \<rho> l r] by (cases op) (auto simp: bits_def unsigned_cmp_def)

lemma oriented_sound:
  assumes "oriented l r kind = Some (t, c, k)" "bits M \<rho> l n w" "bits M \<rho> r m w" "strict \<rho> l" "strict \<rho> r"
  shows "\<exists>p. bits M \<rho> t p w \<and> (cmp_holds k (int p) c \<longleftrightarrow> cmp_holds kind (int n) (int m)) \<and> w \<le> 128 \<and> 0 \<le> c"
proof (cases "bv_const_u128 l")
  case None
  then obtain v where v: "bv_const_u128 r = Some (c, v)" "t = l" "k = kind"
    using assms(1) by (auto simp: oriented_def split: option.splits)
  obtain q where q: "bits M \<rho> r q v" "c = int q" "v \<le> 128"
    using const_bits [OF v(1) assms(5)] by blast
  then have "q = m" "v = w"
    using bits_unique [OF assms(3)] by blast+
  then show ?thesis
    using v assms(2) q by (intro exI [of _ n]) simp
next
  case (Some cv)
  then obtain v where v: "bv_const_u128 l = Some (c, v)" "t = r" "k = swapped kind"
    using assms(1) Some by (cases cv) (auto simp: oriented_def split: option.splits)
  obtain q where q: "bits M \<rho> l q v" "c = int q" "v \<le> 128"
    using const_bits [OF v(1) assms(4)] by blast
  then have "q = n" "v = w"
    using bits_unique [OF assms(2)] by blast+
  then show ?thesis
    using v assms(3) q by (intro exI [of _ m]) simp
qed

lemma oriented_cmp_sound:
  assumes "oriented_cmp B e neg = Some (t, c, k, w)" "strict \<rho> e" "fits M \<rho>" "holds M \<rho> e \<longleftrightarrow> \<not> neg"
  shows "\<exists>p. bits M \<rho> t p w \<and> cmp_holds k (int p) c \<and> w \<le> 128 \<and> 0 \<le> c"
proof -
  obtain op l r kind where e: "e = Bv op l r" "unsigned_cmp op = Some kind" "bitvec_width (sort_of B l) = Some w"
      "sort_of B l = sort_of B r" "oriented l r (if neg then negated kind else kind) = Some (t, c, k)"
    using assms(1) by (cases e) (auto simp: oriented_cmp_def bind_eq_Some_conv split: if_splits)
  have strict: "strict \<rho> l" "strict \<rho> r"
    using strict_child [OF assms(2)] by (simp_all add: e(1))
  obtain n m where bits: "bits M \<rho> l n w" "bits M \<rho> r m w"
    using sort_of_bits [OF assms(3)] strict e(3,4) by (metis bitvec_width_Some)
  have "cmp_holds kind (int n) (int m) \<longleftrightarrow> \<not> neg"
    using val_bool [OF unsigned_cmp_value [OF e(2) bits]] assms(4) e(1) by simp
  then have "cmp_holds (if neg then negated kind else kind) (int n) (int m)"
    by simp
  then show ?thesis
    using oriented_sound [OF e(5) bits strict] by blast
qed

lemma upper_from_cmp_sound:
  assumes "unsigned_upper_bound_from_cmp B e neg = Some (t, b, w)" "strict \<rho> e" "fits M \<rho>" "holds M \<rho> e \<longleftrightarrow> \<not> neg"
  shows "bounded_above M \<rho> (t, b, w)"
proof -
  obtain c k where c: "oriented_cmp B e neg = Some (t, c, k, w)" and "(case k of
         Lt \<Rightarrow> Some c
       | Le \<Rightarrow> if bv_mask w \<le> c then None else if c + 1 < U128_END then Some (c + 1) else None
       | _ \<Rightarrow> None) = Some b"
    using assms(1) by (auto simp: unsigned_upper_bound_from_cmp_def bind_eq_Some_conv)
  then have "k = Lt \<and> b = c \<or> k = Le \<and> b = c + 1"
    by (cases k) (auto split: if_splits)
  then show ?thesis
    using oriented_cmp_sound [OF c assms(2-4)] by (auto simp: bounded_above_def)
qed

lemma lower_from_cmp_sound:
  assumes "unsigned_lower_bound_from_cmp B e neg = Some (t, b, w)" "strict \<rho> e" "fits M \<rho>" "holds M \<rho> e \<longleftrightarrow> \<not> neg"
  shows "bounded_below M \<rho> (t, b, w) \<and> w \<le> 128"
proof -
  obtain c k where c: "oriented_cmp B e neg = Some (t, c, k, w)" and "(case k of
         Gt \<Rightarrow> if c + 1 < U128_END then Some (c + 1) else None
       | Ge \<Rightarrow> Some c
       | _ \<Rightarrow> None) = Some b"
    using assms(1) by (auto simp: unsigned_lower_bound_from_cmp_def bind_eq_Some_conv)
  then have "k = Ge \<and> b = c \<or> k = Gt \<and> b = c + 1"
    by (cases k) (auto split: if_splits)
  then show ?thesis
    using oriented_cmp_sound [OF c assms(2-4)] by (auto simp: bounded_below_def)
qed

text \<open>A recording is never infeasible and keeps the facts true.\<close>

definition records :: "(string \<Rightarrow> 'v) \<Rightarrow> (ConstraintStatus \<times> PathFacts) option \<Rightarrow> bool" where
  "records \<rho> res \<longleftrightarrow> (\<forall>s F. res = Some (s, F) \<longrightarrow> s \<noteq> Infeasible \<and> facts_hold M \<rho> F)"

lemma bounded_records: "facts_hold M \<rho> F \<Longrightarrow> records \<rho> (Some (bounded_facts F))"
  using no_contradiction by (auto simp: records_def bounded_facts_def)

lemma bounded_above_pos: "bounded_above M \<rho> (e, b, w) \<Longrightarrow> b \<noteq> 0"
  by (auto simp: bounded_above_def)

lemma record_upper_cmp:
  assumes "facts_hold M \<rho> F" "strict \<rho> e" "fits M \<rho>" "holds M \<rho> e \<longleftrightarrow> \<not> neg"
  shows "records \<rho> (record_unsigned_upper_bound_from_cmp B e neg F)"
proof (cases "unsigned_upper_bound_from_cmp B e neg")
  case (Some tbw)
  then obtain t b w where some: "unsigned_upper_bound_from_cmp B e neg = Some (t, b, w)"
    by (cases tbw) simp
  note bound = upper_from_cmp_sound [OF some assms(2-4)]
  show ?thesis
    using bounded_records [OF add_upper_hold [OF assms(1) bound]] bounded_above_pos [OF bound]
    by (simp add: record_unsigned_upper_bound_from_cmp_def some)
qed (simp add: record_unsigned_upper_bound_from_cmp_def records_def)

lemma record_lower_cmp:
  assumes "facts_hold M \<rho> F" "strict \<rho> e" "fits M \<rho>" "holds M \<rho> e \<longleftrightarrow> \<not> neg"
  shows "records \<rho> (record_unsigned_lower_bound_from_cmp B e neg F)"
proof (cases "unsigned_lower_bound_from_cmp B e neg")
  case (Some tbw)
  then obtain t b w where some: "unsigned_lower_bound_from_cmp B e neg = Some (t, b, w)"
    by (cases tbw) simp
  note bound = lower_from_cmp_sound [OF some assms(2-4)]
  then obtain n where n: "bits M \<rho> t n w" "b \<le> int n" "w \<le> 128"
    by (auto simp: bounded_below_def)
  have "int n < 2 ^ w"
    using bits_range [OF n(1)] by (simp only: int_less_width)
  then have "\<not> bv_mask w < b"
    using n(2) unfolding bv_mask_eq [OF n(3)] by linarith
  then show ?thesis
    using bounded_records [OF add_lower_hold [OF assms(1) conjunct1 [OF bound]]]
    by (simp add: record_unsigned_lower_bound_from_cmp_def some)
qed (simp add: record_unsigned_lower_bound_from_cmp_def records_def)

lemma record_upper:
  assumes "facts_hold M \<rho> F" "strict \<rho> (Bv BvULt l r)" "fits M \<rho>" "holds M \<rho> (Bv BvULt l r)"
  shows "records \<rho> (record_unsigned_upper_bound B l r F)"
proof (cases "sort_of B l \<noteq> sort_of B r \<or> bitvec_width (sort_of B l) = None \<or> bv_const_u128 r = None")
  case True
  then show ?thesis
    using assms(1) by (auto simp: record_unsigned_upper_bound_def records_def)
next
  case False
  then obtain b w v where w: "bv_const_u128 r = Some (b, w)" "sort_of B l = SBitVec v" "sort_of B r = SBitVec v" "sort_of B l = sort_of B r"
    by (auto simp: bitvec_width_Some)
  have strict: "strict \<rho> l" "strict \<rho> r"
    using strict_child [OF assms(2)] by simp_all
  obtain n m where bits: "bits M \<rho> l n v" "bits M \<rho> r m v"
    using sort_of_bits [OF assms(3)] strict w(2,3) by blast
  have "n < m"
    using val_bool [OF unsigned_cmp_value [of BvULt Lt, OF _ bits]] assms(4) by (simp add: unsigned_cmp_def)
  moreover obtain q where q: "bits M \<rho> r q w" "b = int q"
    using const_bits [OF w(1) strict(2)] by blast
  moreover have "q = m" "w = v"
    using bits_unique [OF bits(2) q(1)] by simp_all
  ultimately have bound: "bounded_above M \<rho> (l, b, w)"
    using bits(1) by (simp add: bounded_at)
  show ?thesis
    using bounded_records [OF add_upper_hold [OF assms(1) bound]] bounded_above_pos [OF bound] w
    by (simp add: record_unsigned_upper_bound_def bitvec_width_Some)
qed

lemma decides_sound:
  assumes "unsigned_bound_decides_cmp B F kind l r = Some d" "facts_hold M \<rho> F" "strict \<rho> l" "strict \<rho> r"
    and "bits M \<rho> l n w" "bits M \<rho> r m w"
  shows "d = cmp_holds kind (int n) (int m)"
proof -
  obtain t c k b v where t: "oriented l r kind = Some (t, c, k)" "unsigned_upper_bound F t = Some (b, v)"
      "(case k of Lt \<Rightarrow> if b - 1 < c then Some True else None
        | Le \<Rightarrow> if b - 1 \<le> c then Some True else None
        | Gt \<Rightarrow> if b - 1 \<le> c then Some False else None
        | Ge \<Rightarrow> if b - 1 < c then Some False else None) = Some d"
    using assms(1) by (auto simp: unsigned_bound_decides_cmp_def bind_eq_Some_conv split: if_splits)
  obtain p where p: "bits M \<rho> t p w" "cmp_holds k (int p) c \<longleftrightarrow> cmp_holds kind (int n) (int m)"
    using oriented_sound [OF t(1) assms(5,6,3,4)] by blast
  have "int p < b"
    using upper_bound_holds [OF assms(2) t(2)] bits_unique [OF p(1)] by blast
  with t(3) show ?thesis
    unfolding p(2) [symmetric] by (cases k) (auto split: if_splits)
qed

lemma mul_fits: "unsigned_mul_fits_width a b w \<Longrightarrow> w \<le> 128 \<Longrightarrow> a * b < 2 ^ w"
  by (simp add: unsigned_mul_fits_width_def bv_mask_eq)

lemma bound_proves_mul:
  assumes "unsigned_bound_proves_mul_no_overflow F t c w" "facts_hold M \<rho> F" "bits M \<rho> t p w" "0 \<le> c" "w \<le> 128"
  shows "int p * c < 2 ^ w"
proof (cases "c = 0")
  case False
  then obtain b where b: "unsigned_upper_bound F t = Some (b, w)" "unsigned_mul_fits_width (if b = 0 then 0 else b - 1) c w"
    using assms(1) by (auto simp: unsigned_bound_proves_mul_no_overflow_def split: option.splits)
  have "int p < b"
    using upper_bound_holds [OF assms(2) b(1)] bits_unique [OF assms(3)] by blast
  then have "int p * c \<le> (b - 1) * c"
    using assms(4) by (intro mult_right_mono) simp_all
  also have "\<dots> < 2 ^ w"
    using mul_fits [OF b(2) assms(5)] \<open>int p < b\<close> by (simp split: if_splits)
  finally show ?thesis .
qed simp

subsection \<open>Equations\<close>

text \<open>A result, if there is one, keeps the value.\<close>

definition gives :: "(string \<Rightarrow> 'v) \<Rightarrow> Expr \<Rightarrow> Expr option \<Rightarrow> bool" where
  "gives \<rho> e res \<longleftrightarrow> (\<forall>e'. res = Some e' \<longrightarrow> kept \<rho> e e')"

lemma gives_simps [simp]:
  "gives \<rho> e None"
  "gives \<rho> e (Some e') \<longleftrightarrow> kept \<rho> e e'"
  by (simp_all add: gives_def)

lemma sound_gives: "sound \<rho> f \<Longrightarrow> strict \<rho> e \<Longrightarrow> gives \<rho> e (f e)"
  by (simp add: sound_def gives_def)

lemma gives_value: "gives \<rho> e res \<Longrightarrow> val M \<rho> e = val M \<rho> d \<Longrightarrow> gives \<rho> d res"
  by (simp add: gives_def)

lemma gives_checked: "kept \<rho> e e' \<Longrightarrow> gives \<rho> e (checked ok e')"
  by (simp add: gives_def)

lemma gives_bind:
  assumes "gives \<rho> a res" "\<And>a'. kept \<rho> a a' \<Longrightarrow> gives \<rho> e (f a')"
  shows "gives \<rho> e (res \<bind> f)"
  using assms by (cases res) simp_all

lemma gives_or_else: "gives \<rho> e r \<Longrightarrow> gives \<rho> e q \<Longrightarrow> gives \<rho> e (or_else r q)"
  by (cases r) simp_all

lemma strict_Not: "strict \<rho> (NotE a) \<longleftrightarrow> boolean M \<rho> a \<and> strict \<rho> a"
  by (rule strict_expand)

lemma val_Eq_bool:
  assumes "boolean M \<rho> e"
  shows "val M \<rho> (Eq e (BoolConst t)) = (if t then val M \<rho> e else val M \<rho> (NotE e))"
proof -
  have "val M \<rho> e = val M \<rho> (BoolConst t) \<longleftrightarrow> holds M \<rho> e = t"
    using boolean_val [OF assms] bool_inj by metis
  then show ?thesis
    using boolean_val [OF assms] by (cases t) (simp_all add: val_Eq val_NotE)
qed

lemma eq_swap: "strict \<rho> (Eq l r) \<Longrightarrow> kept \<rho> (Eq l r) (Eq r l)"
  by (simp add: strict_expand same_sort_sym val_Eq eq_commute [of "val M \<rho> l"])

lemma bool_const_eq_gives:
  assumes "sound \<rho> f" "fits M \<rho>" "strict \<rho> (Eq e c)"
  shows "gives \<rho> (Eq e c) (simplify_bool_const_eq B f e c)"
proof (cases "bool_of c")
  case (Some v)
  then have c: "c = BoolConst v"
    by simp
  have strict: "strict \<rho> e"
    using assms(3) by (simp add: strict_expand)
  show ?thesis
  proof (cases "sort_of B e = SBool")
    case True
    then have boolean: "boolean M \<rho> e"
      using sort_of_bool assms(2) strict by blast
    have "gives \<rho> (NotE e) (f (NotE e))"
      using boolean strict by (intro sound_gives [OF assms(1)]) (simp add: strict_Not)
    then show ?thesis
      using True strict val_Eq_bool [OF boolean, of v] unfolding simplify_bool_const_eq_def Some
      by (auto simp: c intro: gives_value)
  qed (simp add: simplify_bool_const_eq_def Some)
qed (simp add: simplify_bool_const_eq_def)

lemma const_value:
  assumes "bv_const_u128 e = Some (int n, w)" "strict \<rho> e"
  shows "bits M \<rho> e n w"
  using const_bits [OF assms] by auto

lemma bit_of_condition_gives:
  assumes "sound \<rho> f" "strict \<rho> c" "boolean M \<rho> c"
    and "val M \<rho> d = val M \<rho> (BoolConst (if holds M \<rho> c then t = r else e = r))"
  shows "gives \<rho> d (bit_of_condition f c t e r)"
proof -
  have "gives \<rho> (NotE c) (f (NotE c))"
    using assms(2,3) by (intro sound_gives [OF assms(1)]) (simp add: strict_Not)
  moreover have "val M \<rho> d = val M \<rho> (NotE c)" if "t \<noteq> r" "e = r"
    using assms(4) that by (simp add: val_NotE)
  moreover have "val M \<rho> d = val M \<rho> c" if "t = r" "e \<noteq> r"
    using assms(4) that boolean_val [OF assms(3)] by simp
  moreover have "val M \<rho> d = val M \<rho> (BoolConst False)" if "t \<noteq> r" "e \<noteq> r"
    using assms(4) that by simp
  ultimately show ?thesis
    using assms(2) by (auto simp: bit_of_condition_def intro: gives_value)
qed

lemma bit_ite_eq_gives:
  assumes "sound \<rho> f" "strict \<rho> (Eq e r)"
  shows "gives \<rho> (Eq e r) (simplify_bool_bit_ite_eq f e r)"
proof (cases "simplify_bool_bit_ite_eq f e r")
  case (Some res)
  then obtain c a b c' tv ev rv w where e: "e = Ite c a b" "bv_const_u128 a = Some (tv, w)" "bv_const_u128 b = Some (ev, w)"
      "bv_const_u128 r = Some (rv, w)" "f c = Some c'" "bit_of_condition f c' tv ev rv = Some res"
    by (cases e) (auto simp: simplify_bool_bit_ite_eq_def bind_eq_Some_conv split: if_splits)
  have strict: "boolean M \<rho> c" "strict \<rho> c" "strict \<rho> a" "strict \<rho> b" "strict \<rho> r"
    using assms(2) by (simp_all add: strict_expand e(1))
  obtain x y z where bits: "bits M \<rho> a x w" "bits M \<rho> b y w" "bits M \<rho> r z w" "tv = int x" "ev = int y" "rv = int z"
    using const_bits [OF e(2) strict(3)] const_bits [OF e(3) strict(4)] const_bits [OF e(4) strict(5)] by blast
  have c': "kept \<rho> c c'"
    by (rule soundD [OF assms(1) e(5) strict(2)])
  have "val M \<rho> (Eq e r) = val M \<rho> (BoolConst (if holds M \<rho> c' then tv = rv else ev = rv))"
    using bits_eq [OF bits(1,3)] bits_eq [OF bits(2,3)] kept_holds [OF c'] by (simp add: val_Eq e(1) val_Ite bits(4-6))
  then have "gives \<rho> (Eq e r) (bit_of_condition f c' tv ev rv)"
    using c' kept_boolean [OF c' strict(1)] by (intro bit_of_condition_gives [OF assms(1)]) blast+
  then show ?thesis
    by (simp only: Some e(6))
qed simp

lemma simplified_eq_gives:
  assumes "sound \<rho> f" "fits M \<rho>" "facts_hold M \<rho> F" "strict \<rho> (Eq l r)"
  shows "gives \<rho> (Eq l r) (simplified_eq B ok F f l r)"
proof -
  have strict: "strict \<rho> l" "strict \<rho> r"
    using assms(4) by (simp_all add: strict_expand)
  note swap = eq_swap [OF assms(4)]
  have turned: "gives \<rho> (Eq r l) res \<Longrightarrow> gives \<rho> (Eq l r) res" for res
    using swap gives_value by blast
  define folded where "folded = or_else (simplify_bool_const_eq B f l r) (or_else (simplify_bool_const_eq B f r l)
     (or_else (simplify_bool_bit_ite_eq f l r) (simplify_bool_bit_ite_eq f r l)))"
  have folded: "gives \<rho> (Eq l r) folded"
    unfolding folded_def using assms swap
    by (intro gives_or_else turned [OF bool_const_eq_gives] turned [OF bit_ite_eq_gives] bool_const_eq_gives bit_ite_eq_gives) blast+
  have decided: "kept \<rho> (Eq l r) (BoolConst t)" if "val M \<rho> l = val M \<rho> r \<longleftrightarrow> t" for t
    using that by (simp add: val_Eq)
  have rest: "gives \<rho> (Eq l r) (checked ok (Eq l r))"
    using assms(4) by (intro gives_checked) simp
  have bools: "kept \<rho> (Eq l r) (BoolConst (a = b))" if "l = BoolConst a" "r = BoolConst b" for a b
    using that by (intro decided) (simp add: bool_inj)
  have words: "kept \<rho> (Eq l r) (BoolConst (n = m))" if "l = BitVecConst n w" "r = BitVecConst m w" for n m w
    using that strict by (intro decided bits_eq) (simp_all add: bits_const)
  consider "l = r" | "l \<noteq> r" "are_disequal B F l r" | d where "l \<noteq> r" "\<not> are_disequal B F l r" "folded = Some d"
    | "l \<noteq> r" "\<not> are_disequal B F l r" "folded = None"
    by (cases folded) blast+
  then show ?thesis
  proof cases
    case 1
    then show ?thesis
      using decided [of True] by (simp add: simplified_eq_def)
  next
    case 2
    then show ?thesis
      using decided [of False] are_disequal_sound [OF 2(2) assms(3,2) strict] by (simp add: simplified_eq_def)
  next
    case 3
    then show ?thesis
      using folded by (simp add: simplified_eq_def flip: folded_def)
  next
    case 4
    then show ?thesis
      using rest bools words by (auto simp: simplified_eq_def split: option.splits simp flip: folded_def)
  qed
qed

lemma simplify_eq_gives:
  assumes "sound \<rho> f" "fits M \<rho>" "facts_hold M \<rho> F" "strict \<rho> (Eq l r)"
  shows "gives \<rho> (Eq l r) (simplify_eq B ok F f l r)"
proof -
  have strict: "strict \<rho> l" "strict \<rho> r"
    using assms(4) by (simp_all add: strict_expand)
  show ?thesis
    unfolding simplify_eq_def
  proof (intro gives_bind [OF sound_gives [OF assms(1) strict(1)]] gives_bind [OF sound_gives [OF assms(1) strict(2)]])
    fix l' r'
    assume "kept \<rho> l l'" "kept \<rho> r r'"
    then have kept: "kept \<rho> (Eq l r) (Eq l' r')"
      using kept_nodes(2) assms(4) by blast
    have "gives \<rho> (Eq l' r') (simplified_eq B ok F f l' r')"
      using kept by (intro simplified_eq_gives assms) blast
    then show "gives \<rho> (Eq l r) (simplified_eq B ok F f l' r')"
      using kept gives_value by blast
  qed
qed

end

end
