(* ===== verification/Straight_Simplify_Sound.thy ===== *)
theory Straight_Simplify_Sound
  imports Straight_Sound
begin

lemma bool_option_cases:
  obtains "x = None" | "x = Some True" | "x = Some False"
  by (metis (full_types) option.exhaust)

lemma bool_of_BoolConst: "bool_of (BoolConst t) = Some t"
  by simp

text \<open>
  The rest of the simplifier of the straight-line prover: connectives, reads of arrays, folded bit vectors, data, and
  the simplifier as a whole, at every recursion depth.
\<close>

context smt_checked
begin

section \<open>Connectives\<close>

lemma kept_refl: "strict \<rho> e \<Longrightarrow> kept \<rho> e e"
  by simp

lemma kept_connective:
  assumes "boolean M \<rho> a" "boolean M \<rho> b" "strict \<rho> a" "strict \<rho> b" "val M \<rho> e = val M \<rho> (BoolConst t)"
  shows "t = (holds M \<rho> a \<and> holds M \<rho> b) \<Longrightarrow> kept \<rho> e (And [a, b])" "t = (holds M \<rho> a \<or> holds M \<rho> b) \<Longrightarrow> kept \<rho> e (Or [a, b])"
  using assms by (simp_all add: strict_expand val_And val_Or)

lemma gives_try:
  assumes "sound \<rho> f" "kept \<rho> e e'"
  shows "gives \<rho> e (checked ok e' \<bind> f)"
  using gives_checked [OF assms(2)] by (rule gives_bind) (auto intro: gives_value sound_gives [OF assms(1)])

lemma ite_value:
  assumes "boolean M \<rho> a" "boolean M \<rho> b"
  shows "val M \<rho> (Ite c a b) = val M \<rho> (BoolConst (if holds M \<rho> c then holds M \<rho> a else holds M \<rho> b))"
  unfolding val_Ite using boolean_val [OF assms(1)] boolean_val [OF assms(2)] by (cases "holds M \<rho> c") simp_all

lemma bool_ite_gives:
  assumes "sound \<rho> f" "strict \<rho> (Ite c a b)" "boolean M \<rho> a" "boolean M \<rho> b"
  shows "gives \<rho> (Ite c a b) (simplify_bool_ite ok f c a b)"
proof -
  have c: "boolean M \<rho> c" "strict \<rho> c" "strict \<rho> a" "strict \<rho> b"
    using assms(2) by (simp_all add: strict_expand)
  have n: "boolean M \<rho> (NotE c)" "strict \<rho> (NotE c)" "holds M \<rho> (NotE c) \<longleftrightarrow> \<not> holds M \<rho> c"
    using c by (simp_all add: strict_Not holds_values)
  note val = ite_value [OF assms(3,4), of c]
  have same: "kept \<rho> (Ite c a b) c" if "holds M \<rho> a" "\<not> holds M \<rho> b"
    using val that boolean_val [OF c(1)] c(2) by simp
  have negated: "gives \<rho> (Ite c a b) (f (NotE c))" if "\<not> holds M \<rho> a" "holds M \<rho> b"
    using sound_gives [OF assms(1) n(2)] by (rule gives_value) (use val that in \<open>simp add: val_NotE\<close>)
  have "gives \<rho> (Ite c a b) (checked ok (And [NotE c, b]) \<bind> f)" if "\<not> holds M \<rho> a"
    using that by (intro gives_try [OF assms(1)] kept_connective(1) [OF n(1) assms(4) n(2) c(4) val]) (simp add: n(3))
  moreover have "gives \<rho> (Ite c a b) (checked ok (Or [c, b]) \<bind> f)" if "holds M \<rho> a"
    using that by (intro gives_try [OF assms(1)] kept_connective(2) [OF c(1) assms(4) c(2,4) val]) simp
  moreover have "gives \<rho> (Ite c a b) (checked ok (And [c, a]) \<bind> f)" if "\<not> holds M \<rho> b"
    using that by (intro gives_try [OF assms(1)] kept_connective(1) [OF c(1) assms(3) c(2,3) val]) simp
  moreover have "gives \<rho> (Ite c a b) (checked ok (Or [NotE c, a]) \<bind> f)" if "holds M \<rho> b"
    using that by (intro gives_try [OF assms(1)] kept_connective(2) [OF n(1) assms(3) n(2) c(3) val]) (simp add: n(3))
  moreover have "gives \<rho> (Ite c a b) (checked ok (Ite c a b))"
    using assms(2) by (intro gives_checked) simp
  moreover have "holds M \<rho> a = t" if "bool_of a = Some t" for t
    using that holds_BoolConst by simp
  moreover have "holds M \<rho> b = t" if "bool_of b = Some t" for t
    using that holds_BoolConst by simp
  ultimately show ?thesis
    using same negated by (cases "bool_of a" rule: bool_option_cases; cases "bool_of b" rule: bool_option_cases)
      (simp_all add: simplify_bool_ite_def bool_of_BoolConst holds_BoolConst)
qed

lemma ite_gives:
  assumes "sound \<rho> f" "fits M \<rho>" "strict \<rho> (Ite c a b)"
  shows "gives \<rho> (Ite c a b) (simplify_ite B ok f c a b)"
proof -
  have strict: "strict \<rho> c" "strict \<rho> a" "strict \<rho> b"
    using assms(3) by (simp_all add: strict_expand)
  show ?thesis
    unfolding simplify_ite_def
  proof (intro gives_bind [OF sound_gives [OF assms(1) strict(2)]] gives_bind [OF sound_gives [OF assms(1) strict(3)]])
    fix a' b'
    assume kept: "kept \<rho> a a'" "kept \<rho> b b'"
    then have ite: "kept \<rho> (Ite c a b) (Ite c a' b')"
      using kept_nodes(4) [OF kept_refl] assms(3) strict by blast
    have "kept \<rho> (Ite c a b) a'" if "a' = b'"
      using kept that by (simp add: val_Ite)
    moreover have "gives \<rho> (Ite c a b) (simplify_bool_ite ok f c a' b')" if "sort_of B a' = SBool" "sort_of B b' = SBool"
    proof -
      have "boolean M \<rho> a'" "boolean M \<rho> b'"
        using sort_of_bool [OF assms(2)] kept that by blast+
      then show ?thesis
        using bool_ite_gives [OF assms(1)] ite gives_value by blast
    qed
    ultimately show "gives \<rho> (Ite c a b)
        (if a' = b' then Some a' else if sort_of B a' = SBool \<and> sort_of B b' = SBool then simplify_bool_ite ok f c a' b'
         else checked ok (Ite c a' b'))"
      using gives_checked [OF ite] by simp
  qed
qed

definition member :: "(string \<Rightarrow> 'v) \<Rightarrow> Expr \<Rightarrow> bool" where
  "member \<rho> e \<longleftrightarrow> boolean M \<rho> e \<and> strict \<rho> e"

definition joined :: "(string \<Rightarrow> 'v) \<Rightarrow> bool \<Rightarrow> Expr list \<Rightarrow> bool" where
  "joined \<rho> is_and es \<longleftrightarrow> (if is_and then \<forall>e \<in> set es. holds M \<rho> e else \<exists>e \<in> set es. holds M \<rho> e)"

lemma joined_simps [simp]:
  "joined \<rho> is_and [] = is_and"
  "joined \<rho> is_and (e # es) \<longleftrightarrow> (if is_and then holds M \<rho> e \<and> joined \<rho> is_and es else holds M \<rho> e \<or> joined \<rho> is_and es)"
  "joined \<rho> is_and (es @ fs) \<longleftrightarrow> (if is_and then joined \<rho> is_and es \<and> joined \<rho> is_and fs else joined \<rho> is_and es \<or> joined \<rho> is_and fs)"
  by (auto simp: joined_def)

lemma nary_node: "\<forall>e \<in> set es. member \<rho> e \<Longrightarrow>
    val M \<rho> (if is_and then And es else Or es) = val M \<rho> (BoolConst (joined \<rho> is_and es)) \<and> strict \<rho> (if is_and then And es else Or es)"
  by (simp add: member_def joined_def strict_expand val_And val_Or)

lemma kept_members_value:
  assumes "sound \<rho> f" "kept_members f is_and cs es = Some m" "\<forall>c \<in> set cs. member \<rho> c" "\<forall>c \<in> set es. member \<rho> c"
  shows "case m of None \<Rightarrow> joined \<rho> is_and (es @ cs) = (\<not> is_and)
    | Some es' \<Rightarrow> (\<forall>c \<in> set es'. member \<rho> c) \<and> joined \<rho> is_and es' = joined \<rho> is_and (es @ cs)"
  using assms(2-)
proof (induction cs arbitrary: es)
  case (Cons c cs)
  obtain c' where c': "f c = Some c'"
    using Cons.prems(1) by (auto split: option.splits)
  have kept: "kept \<rho> c c'"
    using soundD [OF assms(1) c'] Cons.prems(2) by (simp add: member_def)
  have c'_member: "member \<rho> c'"
    using kept kept_boolean [OF kept] Cons.prems(2) by (simp add: member_def)
  note same = kept_holds [OF kept]
  have step: "?case" if "kept_members f is_and cs (es @ fs) = Some m" "\<forall>c \<in> set fs. member \<rho> c" "joined \<rho> is_and fs = holds M \<rho> c" for fs
  proof -
    have "\<forall>c \<in> set cs. member \<rho> c" "\<forall>c \<in> set (es @ fs). member \<rho> c"
      using Cons.prems(2,3) that(2) by auto
    from Cons.IH [OF that(1) this] show ?thesis
      using that(3) by (cases m) (simp_all split: if_splits)
  qed
  have single: "joined \<rho> is_and [c'] = holds M \<rho> c" "\<forall>c \<in> set [c']. member \<rho> c"
    using same c'_member by simp_all
  show ?case
  proof (cases c')
    case (BoolConst v)
    then have v: "holds M \<rho> c = v"
      using same holds_BoolConst by simp
    show ?thesis
    proof (cases "v = is_and")
      case True
      then show ?thesis
        using Cons.prems(1) c' BoolConst v by (intro step [of "[]"]) simp_all
    next
      case False
      then show ?thesis
        using Cons.prems(1) c' BoolConst v by auto
    qed
  next
    case (And fs)
    have "\<forall>c \<in> set fs. member \<rho> c" "joined \<rho> True fs = holds M \<rho> c"
      using c'_member same by (simp_all add: And member_def strict_expand holds_values joined_def)
    then show ?thesis
      using Cons.prems(1) c' And single by (intro step [of "if is_and then fs else [c']"]) (simp_all split: if_splits)
  next
    case (Or fs)
    have "\<forall>c \<in> set fs. member \<rho> c" "joined \<rho> False fs = holds M \<rho> c"
      using c'_member same by (simp_all add: Or member_def strict_expand holds_values joined_def)
    then show ?thesis
      using Cons.prems(1) c' Or single by (intro step [of "if is_and then [c'] else fs"]) (simp_all split: if_splits)
  qed (use Cons.prems(1) c' single in \<open>auto intro!: step [of "[c']"]\<close>)
qed auto

lemma nary_gives:
  assumes "sound \<rho> f" "\<forall>c \<in> set cs. member \<rho> c"
  shows "gives \<rho> (if is_and then And cs else Or cs) (simplify_bool_nary ok f is_and cs)"
proof (cases "kept_members f is_and cs []")
  case (Some m)
  note node = nary_node [of _ \<rho> is_and]
  note kept = kept_members_value [OF assms(1) Some assms(2)]
  show ?thesis
  proof (cases m)
    case None
    then show ?thesis
      using kept node [OF assms(2)] by (simp add: simplify_bool_nary_def Some)
  next
    case (Some es)
    then have es: "\<forall>c \<in> set es. member \<rho> c" "joined \<rho> is_and es = joined \<rho> is_and cs"
      using kept by simp_all
    then have "kept \<rho> (if is_and then And cs else Or cs) (if is_and then And es else Or es)"
      using node [OF assms(2)] node [OF es(1)] by simp
    then have "gives \<rho> (if is_and then And cs else Or cs) (checked ok (if is_and then And es else Or es))"
      by (rule gives_checked)
    moreover have "kept \<rho> (if is_and then And cs else Or cs) e" if "es = [e]" for e
      using node [OF assms(2)] es that boolean_val [of \<rho> e] by (cases is_and) (simp_all add: member_def)
    moreover have "val M \<rho> (if is_and then And cs else Or cs) = val M \<rho> (BoolConst is_and)" if "es = []"
      using node [OF assms(2)] es(2) that by simp
    ultimately show ?thesis
      using \<open>kept_members f is_and cs [] = Some m\<close> Some by (auto simp: simplify_bool_nary_def split: list.split)
  qed
qed (simp add: simplify_bool_nary_def)

section \<open>Arrays\<close>

lemma strict_Select_Store:
  assumes "strict \<rho> (Select (Store a j v) i)"
  shows "strict \<rho> a \<and> strict \<rho> j \<and> strict \<rho> v \<and> strict \<rho> i \<and> strict \<rho> (Select a i) \<and> strict \<rho> (Eq j i) \<and>
    is_scalar S (val M \<rho> j) \<and> is_scalar S (val M \<rho> i)"
  using assms index_store index_sort by (simp add: strict_expand) blast

lemma select_from_gives:
  assumes "sound \<rho> f" "fits M \<rho>" "facts_hold M \<rho> F" "strict \<rho> (Select a i)"
  shows "gives \<rho> (Select a i) (select_from_simplified B ok F f a i)"
  using assms(4)
proof (induction a)
  case (Store a j v)
  note strict = strict_Select_Store [OF Store.prems]
  have eq: "gives \<rho> (Eq j i) (simplify_eq B ok F f j i)"
    using strict by (intro simplify_eq_gives assms) blast
  have other: "gives \<rho> (Select (Store a j v) i) (select_from_simplified B ok F f a i)" if "val M \<rho> j \<noteq> val M \<rho> i"
  proof -
    have "val M \<rho> (Select a i) = val M \<rho> (Select (Store a j v) i)"
      using strict that by (intro select_other [symmetric]) blast+
    moreover have "gives \<rho> (Select a i) (select_from_simplified B ok F f a i)"
      using strict by (intro Store.IH(1)) blast
    ultimately show ?thesis
      using gives_value by blast
  qed
  have hit: "kept \<rho> (Select (Store a j v) i) v" if "val M \<rho> j = val M \<rho> i"
    using select_same [OF that, of a v] strict by simp
  have decided: "val M \<rho> j = val M \<rho> i \<longleftrightarrow> t" if "simplify_eq B ok F f j i = Some (BoolConst t)" for t
    using eq unfolding that gives_simps val_Eq bool_inj by blast
  have apart: "val M \<rho> j \<noteq> val M \<rho> i" if "are_disequal B F j i"
    using are_disequal_sound [OF that assms(3,2)] strict by blast
  show ?case
  proof (cases "simplify_eq B ok F f j i")
    case (Some q)
    consider "q = BoolConst True" | "q \<noteq> BoolConst True" "are_disequal B F j i \<or> q = BoolConst False"
      | "q \<noteq> BoolConst True" "\<not> (are_disequal B F j i \<or> q = BoolConst False)"
      by blast
    then show ?thesis
    proof cases
      case 1
      then show ?thesis
        using hit decided [of True] Some by simp
    next
      case 2
      then have "val M \<rho> j \<noteq> val M \<rho> i"
        using decided [of False] apart Some by blast
      from other [OF this] 2 Some show ?thesis
        by simp
    next
      case 3
      then show ?thesis
        using Some Store.prems by simp
    qed
  qed simp
qed (simp_all add: select_const strict_expand)

lemma select_gives:
  assumes "sound \<rho> f" "fits M \<rho>" "facts_hold M \<rho> F" "strict \<rho> (Select a i)"
  shows "gives \<rho> (Select a i) (simplify_select B ok F f a i)"
proof -
  have strict: "strict \<rho> a" "strict \<rho> i"
    using assms(4) by (simp_all add: strict_expand)
  show ?thesis
    unfolding simplify_select_def
  proof (intro gives_bind [OF sound_gives [OF assms(1) strict(1)]] gives_bind [OF sound_gives [OF assms(1) strict(2)]])
    fix a' i'
    assume "kept \<rho> a a'" "kept \<rho> i i'"
    then have "kept \<rho> (Select a i) (Select a' i')"
      using kept_nodes(5) assms(4) by blast
    then show "gives \<rho> (Select a i) (select_from_simplified B ok F f a' i')"
      using select_from_gives [OF assms(1-3)] gives_value by blast
  qed
qed

section \<open>Bit vectors\<close>

lemma literal_strict: "eval_literal e \<Longrightarrow> strict \<rho> e"
  by (auto simp: eval_literal_def)

lemma eval_bv_value:
  assumes "eval_bv op (int n) w (int m) v = Some e" "bits M \<rho> l n w" "bits M \<rho> r m v"
    and "if op = BvConcat then w + v < 2 ^ 32 else w = v"
  shows "kept \<rho> (Bv op l r) e"
proof -
  have lit: "bv_lit n w" "bv_lit m v" and vals: "val M \<rho> l = val M \<rho> (BitVecConst n w)" "val M \<rho> r = val M \<rho> (BitVecConst m v)"
    using assms(2,3) by (simp_all add: bits_def)
  have widths: "op = BvConcat \<or> w = v" "op = BvConcat \<Longrightarrow> w + v < 2 ^ 32"
    using assms(4) by (simp_all split: if_splits)
  have "e = bv_const op n w m v"
    using eval_bv_exact [OF assms(1) _ _ _ _ _ widths(1)] lit by (simp add: bv_lit_def)
  then have "val M \<rho> (Bv op l r) = val M \<rho> e"
    using val_Bv [OF lit widths(1) vals] by simp
  moreover have "eval_literal e"
    using eval_bv_literal [OF assms(1) _ _ widths(2)] lit(1) by (simp add: bv_lit_def)
  ultimately show ?thesis
    using literal_strict by simp
qed

lemma gives_operands:
  assumes "sound \<rho> f" "strict \<rho> (Bv op l r)"
    and step: "\<And>l' r'. strict \<rho> (Bv op l' r') \<Longrightarrow> strict \<rho> l' \<Longrightarrow> strict \<rho> r' \<Longrightarrow> gives \<rho> (Bv op l' r') (g l' r')"
  shows "gives \<rho> (Bv op l r) (do { l' \<leftarrow> f l; r' \<leftarrow> f r; g l' r' })"
proof -
  have strict: "strict \<rho> l" "strict \<rho> r"
    using strict_child [OF assms(2)] by simp_all
  show ?thesis
  proof (intro gives_bind [OF sound_gives [OF assms(1) strict(1)]] gives_bind [OF sound_gives [OF assms(1) strict(2)]])
    fix l' r'
    assume kept: "kept \<rho> l l'" "kept \<rho> r r'"
    then have "kept \<rho> (Bv op l r) (Bv op l' r')"
      using kept_nodes(3) assms(2) by blast
    then show "gives \<rho> (Bv op l r) (g l' r')"
      using step [of l' r'] kept gives_value by blast
  qed
qed

lemma unchanged: "strict \<rho> e \<Longrightarrow> gives \<rho> e (checked ok e)"
  by (rule gives_checked) simp

lemma binop_gives:
  assumes "sound \<rho> f" "strict \<rho> (Bv op l r)"
  shows "gives \<rho> (Bv op l r) (simplify_bv_binop B ok f op l r)"
  unfolding simplify_bv_binop_def
proof (rule gives_operands [OF assms])
  fix l r
  assume strict: "strict \<rho> (Bv op l r)" "strict \<rho> l" "strict \<rho> r"
  have folded: "kept \<rho> (Bv op l r) (bitvec_const v w)"
    if both: "both_const l r = Some (Some (a, b, w))" and fold: "bv_fold op a b w = Some v" for a b w v
  proof -
    obtain n m where bits: "bits M \<rho> l n w" "bits M \<rho> r m w" "a = int n" "b = int m" "w \<le> 128"
      using both_bits [OF both strict(2,3)] by blast
    show ?thesis
      using bv_fold_eval [OF fold bits(5)] unfolding bits(3,4) by (intro eval_bv_value [OF _ bits(1,2)]) simp_all
  qed
  show "gives \<rho> (Bv op l r) (if sort_of B l \<noteq> sort_of B r \<or> bitvec_width (sort_of B l) = None then None
      else do { cs \<leftarrow> both_const l r;
        case cs of None \<Rightarrow> checked ok (Bv op l r)
        | Some (a, b, w) \<Rightarrow> (case bv_fold op a b w of None \<Rightarrow> checked ok (Bv op l r) | Some v \<Rightarrow> Some (bitvec_const v w)) })"
    using folded unchanged [OF strict(1)] by (cases "both_const l r") (auto split: option.split)
qed

lemma cmp_gives:
  assumes "sound \<rho> f" "fits M \<rho>" "facts_hold M \<rho> F" "strict \<rho> (Bv op l r)" "unsigned_cmp op = Some kind"
  shows "gives \<rho> (Bv op l r) (simplify_bv_cmp B ok F f op kind l r)"
  unfolding simplify_bv_cmp_def
proof (rule gives_operands [OF assms(1,4)])
  fix l r
  assume strict: "strict \<rho> (Bv op l r)" "strict \<rho> l" "strict \<rho> r"
  have folded: "kept \<rho> (Bv op l r) (BoolConst (cmp_holds kind a b))" if "both_const l r = Some (Some (a, b, w))" for a b w
    using both_bits [OF that strict(2,3)] unsigned_cmp_value [OF assms(5)] by auto
  have decided: "kept \<rho> (Bv op l r) (BoolConst t)"
    if sorts: "sort_of B l = sort_of B r" "sort_of B l = SBitVec w" and t: "unsigned_bound_decides_cmp B F kind l r = Some t" for t w
  proof -
    obtain n m where bits: "bits M \<rho> l n w" "bits M \<rho> r m w"
      using sort_of_bits [OF assms(2)] strict(2,3) sorts by metis
    show ?thesis
      using decides_sound [OF t assms(3) strict(2,3) bits] unsigned_cmp_value [OF assms(5) bits] by simp
  qed
  show "gives \<rho> (Bv op l r) (if sort_of B l \<noteq> sort_of B r \<or> bitvec_width (sort_of B l) = None then None
      else do { cs \<leftarrow> both_const l r;
        case cs of None \<Rightarrow> (case unsigned_bound_decides_cmp B F kind l r of None \<Rightarrow> checked ok (Bv op l r) | Some t \<Rightarrow> Some (BoolConst t))
        | Some (a, b, w) \<Rightarrow> Some (BoolConst (cmp_holds kind a b)) })"
    using folded decided unchanged [OF strict(1)] by (cases "both_const l r") (auto simp: bitvec_width_Some split: option.split)
qed

lemma signed_cmp_gives:
  assumes "sound \<rho> f" "strict \<rho> (Bv op l r)" "signed_cmp op = Some kind"
  shows "gives \<rho> (Bv op l r) (simplify_bv_signed_cmp B ok f op kind l r)"
  unfolding simplify_bv_signed_cmp_def
proof (rule gives_operands [OF assms(1,2)])
  fix l r
  assume strict: "strict \<rho> (Bv op l r)" "strict \<rho> l" "strict \<rho> r"
  have folded: "kept \<rho> (Bv op l r) (BoolConst (cmp_holds kind (signed_bv_order a b w) 0))"
    if both: "both_const l r = Some (Some (a, b, w))" for a b w
  proof -
    obtain n m where bits: "bits M \<rho> l n w" "bits M \<rho> r m w" "a = int n" "b = int m"
      using both_bits [OF both strict(2,3)] by blast
    have "eval_bv op a w b w = Some (BoolConst (cmp_holds kind (signed_bv_order a b w) 0)) \<and> op \<noteq> BvConcat"
      using bits_range [OF bits(1)] bits_range [OF bits(2)] unfolding bits(3,4) by (intro signed_cmp_eval [OF assms(3)]) blast+
    then show ?thesis
      using eval_bv_value [OF _ bits(1,2)] by (simp add: bits(3,4))
  qed
  show "gives \<rho> (Bv op l r) (if sort_of B l \<noteq> sort_of B r \<or> bitvec_width (sort_of B l) = None then None
      else do { cs \<leftarrow> both_const l r;
        case cs of None \<Rightarrow> checked ok (Bv op l r)
        | Some (a, b, w) \<Rightarrow> if w = 0 then None else Some (BoolConst (cmp_holds kind (signed_bv_order a b w) 0)) })"
    using folded unchanged [OF strict(1)] by (cases "both_const l r") (auto split: option.split)
qed

lemma concat_gives:
  assumes "sound \<rho> f" "strict \<rho> (Bv BvConcat l r)"
  shows "gives \<rho> (Bv BvConcat l r) (simplify_bv_concat ok f l r)"
  unfolding simplify_bv_concat_def
proof (rule gives_operands [OF assms])
  fix l r
  assume strict: "strict \<rho> (Bv BvConcat l r)" "strict \<rho> l" "strict \<rho> r"
  have folded: "kept \<rho> (Bv BvConcat l r) (bitvec_const (or (push_bit v a) b) (w + v))"
    if const: "bv_const_u128 l = Some (a, w)" "bv_const_u128 r = Some (b, v)" and "\<not> 128 < w + v" for a b w v
  proof -
    obtain n m where bits: "bits M \<rho> l n w" "bits M \<rho> r m v" "a = int n" "b = int m"
      using const_bits [OF const(1) strict(2)] const_bits [OF const(2) strict(3)] by blast
    then show ?thesis
      using that(3) by (intro eval_bv_value [OF _ bits(1,2)]) (simp_all add: push_bit_eq_mult)
  qed
  show "gives \<rho> (Bv BvConcat l r) (case (bv_const_u128 l, bv_const_u128 r) of
      (Some (a, lw), Some (b, rw)) \<Rightarrow> if 128 < lw + rw then None else Some (bitvec_const (or (push_bit rw a) b) (lw + rw))
    | _ \<Rightarrow> checked ok (Bv BvConcat l r))"
    using folded unchanged [OF strict(1)] by (auto split: option.split)
qed

lemma zero_extend_gives:
  assumes "sound \<rho> f" "fits M \<rho>" "strict \<rho> (BvZeroExtend a k)"
  shows "gives \<rho> (BvZeroExtend a k) (simplify_bv_zero_extend B ok f a k)"
  unfolding simplify_bv_zero_extend_def
proof (rule gives_bind [OF sound_gives [OF assms(1)]])
  show "strict \<rho> a"
    using strict_child [OF assms(3)] by simp
  fix a'
  assume a': "kept \<rho> a a'"
  note node = kept_nodes(8) [OF a' assms(3)]
  have folded: "kept \<rho> (BvZeroExtend a k) (bitvec_const v (w + k))"
    if sort: "sort_of B a' = SBitVec w" and const: "bv_const_u128 a' = Some (v, u)" and small: "w + k \<le> 128" for w v u
  proof -
    obtain n where n: "bits M \<rho> a' n w"
      using sort_of_bits [OF assms(2)] a' sort by blast
    obtain m where m: "bits M \<rho> a' m u" "v = int m"
      using const_bits [OF const] a' by blast
    have v: "v = int n"
      using bits_unique [OF n m(1)] m(2) by simp
    have range: "0 < w" "n < 2 ^ w"
      using bits_range [OF n] by simp_all
    have "n < 2 ^ (w + k)"
      using range(2) by (rule less_le_trans) simp
    then have "bv_lit n (w + k)"
      using range(1) small by (simp add: bv_lit_def)
    then show ?thesis
      using val_BvZeroExtend [of n w \<rho> a' k] n node zero_extend_exact [OF range(2), of k] by (simp add: bits_def v)
  qed
  show "gives \<rho> (BvZeroExtend a k) (do { w \<leftarrow> bitvec_width (sort_of B a');
      if 2 ^ 32 \<le> int (w + k) then None
      else if 128 < w + k then checked ok (BvZeroExtend a' k)
      else case bv_const_u128 a' of None \<Rightarrow> checked ok (BvZeroExtend a' k) | Some (v, u) \<Rightarrow> Some (bitvec_const v (w + k)) })"
    using folded gives_checked [OF node] by (cases "bitvec_width (sort_of B a')") (auto simp: bitvec_width_Some split: option.split)
qed

lemma extract_gives:
  assumes "sound \<rho> f" "fits M \<rho>" "strict \<rho> (BvExtract a hi lo)"
  shows "gives \<rho> (BvExtract a hi lo) (simplify_bv_extract B ok f a hi lo)"
  unfolding simplify_bv_extract_def
proof (rule gives_bind [OF sound_gives [OF assms(1)]])
  show "strict \<rho> a"
    using strict_child [OF assms(3)] by simp
  fix a'
  assume a': "kept \<rho> a a'"
  note node = kept_nodes(9) [OF a' assms(3)]
  have folded: "kept \<rho> (BvExtract a hi lo) (bitvec_const (and (drop_bit lo v) (bv_mask (hi - lo + 1))) (hi - lo + 1))"
    if sort: "sort_of B a' = SBitVec w" and const: "bv_const_u128 a' = Some (v, u)" and small: "\<not> (hi < lo \<or> w \<le> hi \<or> 128 \<le> hi)" for w v u
  proof -
    obtain n where n: "bits M \<rho> a' n w"
      using sort_of_bits [OF assms(2)] a' sort by blast
    obtain m where m: "bits M \<rho> a' m u" "v = int m"
      using const_bits [OF const] a' by blast
    have v: "v = int n"
      using bits_unique [OF n m(1)] m(2) by simp
    have range: "lo \<le> hi" "hi < w" "hi - lo + 1 \<le> 128"
      using small by auto
    have lit: "bv_lit n w" "val M \<rho> a' = val M \<rho> (BitVecConst n w)"
      using n by (simp_all add: bits_def)
    have "bitvec_const (and (drop_bit lo v) (bv_mask (hi - lo + 1))) (hi - lo + 1) = extract_const n hi lo"
      unfolding and_bv_mask [OF range(3)] v extract_const_def by (simp add: drop_bit_eq_div zdiv_int)
    moreover have "kept \<rho> (BvExtract a hi lo) (extract_const n hi lo)"
      using val_BvExtract [OF lit range(1,2)] node literal_strict [OF extract_literal [OF range(1,2) lit(1)]] unfolding extract_exact by simp
    ultimately show ?thesis
      by simp
  qed
  show "gives \<rho> (BvExtract a hi lo) (do { w \<leftarrow> bitvec_width (sort_of B a');
      if hi < lo \<or> w \<le> hi \<or> 128 \<le> hi then None
      else case bv_const_u128 a' of None \<Rightarrow> checked ok (BvExtract a' hi lo)
        | Some (v, u) \<Rightarrow> Some (bitvec_const (and (drop_bit lo v) (bv_mask (hi - lo + 1))) (hi - lo + 1)) })"
    using folded gives_checked [OF node] by (cases "bitvec_width (sort_of B a')") (auto simp: bitvec_width_Some split: option.split)
qed

lemma mul_fits_iff: "w \<le> 128 \<Longrightarrow> unsigned_mul_fits_width (int n) (int m) w \<longleftrightarrow> n * m < 2 ^ w"
proof -
  assume w: "w \<le> 128"
  then have "(2 :: int) ^ w \<le> U128_END"
    unfolding U128_END_def by (intro power_increasing) simp_all
  then have "unsigned_mul_fits_width (int n) (int m) w \<longleftrightarrow> int n * int m < 2 ^ w"
    by (auto simp: unsigned_mul_fits_width_def bv_mask_eq [OF w])
  also have "\<dots> \<longleftrightarrow> n * m < 2 ^ w"
    using int_less_width [of "n * m" w] by simp
  finally show ?thesis .
qed

lemma mul_value:
  assumes "bits M \<rho> l n w" "bits M \<rho> r m w"
  shows "val M \<rho> (Bv BvMulNoOverflowUnsigned l r) = val M \<rho> (BoolConst (n * m < 2 ^ w))"
  using assms val_Bv [of n w m w BvMulNoOverflowUnsigned \<rho> l r] by (simp add: bits_def)

lemma mul_gives:
  assumes "sound \<rho> f" "fits M \<rho>" "facts_hold M \<rho> F" "strict \<rho> (Bv BvMulNoOverflowUnsigned l r)"
  shows "gives \<rho> (Bv BvMulNoOverflowUnsigned l r) (simplify_bv_mul_no_overflow_unsigned B ok F f l r)"
  unfolding simplify_bv_mul_no_overflow_unsigned_def
proof (rule gives_operands [OF assms(1,4)])
  fix l r
  let ?e = "Bv BvMulNoOverflowUnsigned l r"
  assume strict: "strict \<rho> ?e" "strict \<rho> l" "strict \<rho> r"
  have operands: "\<exists>n m. bits M \<rho> l n w \<and> bits M \<rho> r m w" if "sort_of B l = SBitVec w" "sort_of B r = SBitVec w" for w
    using sort_of_bits [OF assms(2)] strict(2,3) that by blast
  have folded: "kept \<rho> ?e (BoolConst (unsigned_mul_fits_width a b w))"
    if both: "both_const l r = Some (Some (a, b, v))" and sort: "sort_of B l = SBitVec w" and small: "w \<le> 128" for a b v w
  proof -
    obtain n m where bits: "bits M \<rho> l n v" "bits M \<rho> r m v" "a = int n" "b = int m"
      using both_bits [OF both strict(2,3)] by blast
    obtain n' where n': "bits M \<rho> l n' w"
      using sort_of_bits [OF assms(2)] strict(2) sort by blast
    have "v = w"
      using bits_unique [OF bits(1) n'] by simp
    then show ?thesis
      using mul_value [of \<rho> l n w r m] mul_fits_iff [OF small] bits by simp
  qed
  have proved: "kept \<rho> ?e (BoolConst True)"
    if const: "one_const_one_expr l r = Some (c, t)" and bound: "unsigned_bound_proves_mul_no_overflow F t c w"
      and sorts: "sort_of B l = SBitVec w" "sort_of B r = SBitVec w" and small: "w \<le> 128" for c t w
  proof -
    obtain n m where bits: "bits M \<rho> l n w" "bits M \<rho> r m w"
      using operands [OF sorts] by blast
    consider v where "bv_const_u128 l = Some (c, v)" "t = r" | v where "bv_const_u128 r = Some (c, v)" "t = l"
      using const by (auto simp: one_const_one_expr_def split: option.splits)
    then have "n * m < 2 ^ w"
    proof cases
      case 1
      then have "c = int n"
        using const_bits [OF 1(1) strict(2)] bits_unique [OF bits(1)] by blast
      then have "int m * int n < 2 ^ w"
        using bound_proves_mul [OF bound assms(3) _ _ small, of m] bits(2) 1(2) by simp
      then show ?thesis
        using int_less_width [of "n * m" w] by (simp add: mult.commute)
    next
      case 2
      then have "c = int m"
        using const_bits [OF 2(1) strict(3)] bits_unique [OF bits(2)] by blast
      then have "int n * int m < 2 ^ w"
        using bound_proves_mul [OF bound assms(3) _ _ small, of n] bits(1) 2(2) by simp
      then show ?thesis
        using int_less_width [of "n * m" w] by simp
    qed
    then show ?thesis
      using mul_value [OF bits] by simp
  qed
  show "gives \<rho> ?e (do { w \<leftarrow> bitvec_width (sort_of B l);
      if sort_of B l \<noteq> sort_of B r then None
      else if w = 0 \<or> 128 < w then checked ok ?e
      else do { cs \<leftarrow> both_const l r;
        case cs of None \<Rightarrow>
          if (case one_const_one_expr l r of None \<Rightarrow> False | Some (c, t) \<Rightarrow> unsigned_bound_proves_mul_no_overflow F t c w)
          then Some (BoolConst True) else checked ok ?e
        | Some (a, b, u) \<Rightarrow> Some (BoolConst (unsigned_mul_fits_width a b w)) } })"
    using folded proved unchanged [OF strict(1)]
    by (cases "bitvec_width (sort_of B l)"; cases "both_const l r"; cases "one_const_one_expr l r")
      (auto simp: bitvec_width_Some not_less split: option.split)
qed

lemma bv_gives:
  assumes "sound \<rho> f" "fits M \<rho>" "facts_hold M \<rho> F" "strict \<rho> (Bv op l r)"
  shows "gives \<rho> (Bv op l r) (simplify_bv_expr B ok F f op l r)"
proof -
  have plain: "gives \<rho> (Bv op l r) (do { l' \<leftarrow> f l; r' \<leftarrow> f r; Some (Bv op l' r') })"
    by (rule gives_operands [OF assms(1,4)]) simp
  show ?thesis
    using binop_gives [OF assms(1,4)] cmp_gives [OF assms] signed_cmp_gives [OF assms(1,4)] plain
      concat_gives [OF assms(1)] mul_gives [OF assms(1-3)] assms(4)
    by (auto simp: simplify_bv_expr_def split: option.split)
qed

section \<open>Data\<close>

lemma field_gives:
  assumes "field_of B f c u args = Some a" "strict \<rho> (DatatypeConstructor d c args u)"
  shows "kept \<rho> (DatatypeSelector d f (DatatypeConstructor d c args u) s) a"
proof -
  obtain fs k where k: "fields_of B u c = Some fs" "position f (map fst fs) = Some k" "k < length args" "a = args ! k"
    using assms(1) by (auto simp: field_of_def bind_eq_Some_conv split: if_splits)
  then show ?thesis
    using field_value [OF k(1-3)] assms(2) by (simp add: strict_expand)
qed

lemma unary_ite:
  assumes "\<And>x. x \<in> {a, b} \<Longrightarrow> val M \<rho> (Ite c a b) = val M \<rho> x \<Longrightarrow> val M \<rho> (g (Ite c a b)) = val M \<rho> (g x)"
  shows "val M \<rho> (g (Ite c a b)) = val M \<rho> (Ite c (g a) (g b))"
  using assms [of a] assms [of b] by (simp add: val_Ite)

text \<open>A selector or a tester of a conditional is pushed to the branches.\<close>

lemma pushed_gives:
  assumes "sound \<rho> f" "strict \<rho> (Ite c a b)" "gives \<rho> (g a) ra" "gives \<rho> (g b) rb"
    and "val M \<rho> e = val M \<rho> (Ite c (g a) (g b))" "same_sort S (val M \<rho> (g a)) (val M \<rho> (g b))"
  shows "gives \<rho> e (do { c' \<leftarrow> f c; a' \<leftarrow> ra; b' \<leftarrow> rb; q \<leftarrow> checked ok (Ite c' a' b'); f q })"
proof -
  have c: "strict \<rho> c" "boolean M \<rho> c"
    using assms(2) by (simp_all add: strict_expand)
  show ?thesis
  proof (rule gives_bind [OF sound_gives [OF assms(1) c(1)]], rule gives_bind [OF assms(3)], rule gives_bind [OF assms(4)],
      rule gives_try [OF assms(1)])
    fix c' a' b'
    assume kept: "kept \<rho> c c'" "kept \<rho> (g a) a'" "kept \<rho> (g b) b'"
    then show "kept \<rho> e (Ite c' a' b')"
      using kept_boolean [OF kept(1) c(2)] kept_holds [OF kept(1)] by (simp add: assms(5,6) val_Ite strict_expand)
  qed
qed

lemma ite_field_sort:
  assumes "strict \<rho> (Ite c x y)" "field_sort T f (val M \<rho> (Ite c x y)) s"
  shows "field_sort T f (val M \<rho> x) s" "field_sort T f (val M \<rho> y) s"
proof -
  have same: "same_sort S (val M \<rho> x) (val M \<rho> y)"
    using assms(1) by (simp add: strict_expand)
  show "field_sort T f (val M \<rho> x) s" "field_sort T f (val M \<rho> y) s"
    using assms(2) field_same [OF _ same] field_same [OF _ same_sort_sym [OF same]] by (auto simp: val_Ite split: if_splits)
qed

lemma selector_gives:
  assumes "sound \<rho> f" "strict \<rho> (DatatypeSelector d n a s)" and fits: "fits M \<rho>"
  shows "gives \<rho> (DatatypeSelector d n a s) (simplify_datatype_selector B ok f d n a s)"
  unfolding simplify_datatype_selector_def
proof (rule gives_bind [OF sound_gives [OF assms(1)]])
  show "strict \<rho> a"
    using assms(2) by (simp add: strict_expand)
  fix t
  assume t: "kept \<rho> a t"
  note node = kept_nodes(10) [OF t assms(2)]
  have ite: "gives \<rho> (DatatypeSelector d n a s)
      (do { c' \<leftarrow> f c; a' \<leftarrow> f (DatatypeSelector d n x s); b' \<leftarrow> f (DatatypeSelector d n y s);
        e \<leftarrow> checked ok (Ite c' a' b'); f e })" if "t = Ite c x y" for c x y
  proof (rule pushed_gives [OF assms(1)])
    show ite: "strict \<rho> (Ite c x y)"
      using t that by simp
    have "field_sort T n (val M \<rho> (Ite c x y)) s"
      using node by (simp add: that strict_expand)
    with ite ite_field_sort [OF ite this] have branches: "strict \<rho> (DatatypeSelector d n x s)" "strict \<rho> (DatatypeSelector d n y s)"
      by (simp_all add: strict_expand)
    then show "gives \<rho> (DatatypeSelector d n x s) (f (DatatypeSelector d n x s))" "gives \<rho> (DatatypeSelector d n y s) (f (DatatypeSelector d n y s))"
      by (simp_all add: sound_gives [OF assms(1)])
    show "same_sort S (val M \<rho> (DatatypeSelector d n x s)) (val M \<rho> (DatatypeSelector d n y s))"
      using sort_of_value [OF fits branches(1)] sort_of_value [OF fits branches(2)] by (simp add: sort_of_Selector in_same [of s])
    show "val M \<rho> (DatatypeSelector d n a s) = val M \<rho> (Ite c (DatatypeSelector d n x s) (DatatypeSelector d n y s))"
      using node unary_ite [of x y \<rho> c "\<lambda>x. DatatypeSelector d n x s"] node_values(6) unfolding that by metis
  qed
  have field: "kept \<rho> (DatatypeSelector d n a s) e" if "t = DatatypeConstructor d c args u" "field_of B n c u args = Some e" for c args u e
    using field_gives [OF that(2)] node t unfolding that(1) by metis
  show "gives \<rho> (DatatypeSelector d n a s) (case t of
      DatatypeConstructor d' c args u \<Rightarrow>
        if d' \<noteq> d \<or> \<not> is_datatype u then None
        else (case field_of B n c u args of Some a \<Rightarrow> Some a | None \<Rightarrow> Some (DatatypeSelector d n t s))
    | Ite c x y \<Rightarrow>
        if selects B x d n s \<and> selects B y d n s
        then do { c' \<leftarrow> f c; a' \<leftarrow> f (DatatypeSelector d n x s); b' \<leftarrow> f (DatatypeSelector d n y s);
          e \<leftarrow> checked ok (Ite c' a' b'); f e }
        else Some (DatatypeSelector d n t s)
    | _ \<Rightarrow> Some (DatatypeSelector d n t s))"
    using node ite field by (cases t) (auto split: option.split)
qed

lemma tester_gives:
  assumes "sound \<rho> f" "\<And>x. strict \<rho> x \<Longrightarrow> gives \<rho> (DatatypeTester d n x) (g x)" "strict \<rho> a"
  shows "gives \<rho> (DatatypeTester d n a) (simplify_tester_node B ok f g d n a)"
  unfolding simplify_tester_node_def
proof (rule gives_bind [OF sound_gives [OF assms(1,3)]])
  fix t
  assume t: "kept \<rho> a t"
  have node: "kept \<rho> (DatatypeTester d n a) (DatatypeTester d n t)"
    using kept_nodes(11) [OF t] assms(3) by (simp add: strict_expand)
  have ite: "gives \<rho> (DatatypeTester d n a) (do { q' \<leftarrow> f q; a' \<leftarrow> g x; b' \<leftarrow> g y; e \<leftarrow> checked ok (Ite q' a' b'); f e })"
    if "t = Ite q x y" for q x y
  proof (rule pushed_gives [OF assms(1)])
    show "strict \<rho> (Ite q x y)"
      using t that by simp
    then show "gives \<rho> (DatatypeTester d n x) (g x)" "gives \<rho> (DatatypeTester d n y) (g y)"
      by (simp_all add: assms(2) strict_expand)
    show "same_sort S (val M \<rho> (DatatypeTester d n x)) (val M \<rho> (DatatypeTester d n y))"
      using in_bool [of _ \<rho>] val_Tester_bool by (blast intro: in_same [of SBool])
    show "val M \<rho> (DatatypeTester d n a) = val M \<rho> (Ite q (DatatypeTester d n x) (DatatypeTester d n y))"
      using node unary_ite [of x y \<rho> q "DatatypeTester d n"] node_values(7) unfolding that by metis
  qed
  have made: "kept \<rho> (DatatypeTester d n a) (BoolConst (c = n))" if "t = DatatypeConstructor d c args u" for c args u
    using node val_Tester [of \<rho> d n c args u] unfolding that by simp
  show "gives \<rho> (DatatypeTester d n a) (case t of
      DatatypeConstructor d' c args u \<Rightarrow> if d' \<noteq> d then None else Some (BoolConst (c = n))
    | Ite q x y \<Rightarrow> do { q' \<leftarrow> f q; a' \<leftarrow> g x; b' \<leftarrow> g y; e \<leftarrow> checked ok (Ite q' a' b'); f e }
    | _ \<Rightarrow> if tests B t d n then Some (DatatypeTester d n t) else None)"
    using node ite made by (cases t) auto
qed

section \<open>All terms\<close>

lemma those_kept:
  assumes "sound \<rho> f" "\<forall>e \<in> set es. strict \<rho> e" "those (map f es) = Some es'"
  shows "list_all2 (kept \<rho>) es es'"
  using assms(2,3)
proof (induction es arbitrary: es')
  case (Cons e es)
  then obtain d ds where "f e = Some d" "those (map f es) = Some ds" "es' = d # ds"
    by (auto split: option.splits)
  then show ?case
    using Cons soundD [OF assms(1)] by simp
qed simp

lemma rebuilt_gives:
  assumes "sound \<rho> f" "strict \<rho> e"
  shows "gives \<rho> e (map_option (with_children e) (those (map f (children e))))"
proof (cases "those (map f (children e))")
  case (Some es)
  have "list_all2 (kept \<rho>) (children e) es"
    by (rule those_kept [OF assms(1) _ Some]) (use strict_child [OF assms(2)] in blast)
  with Some show ?thesis
    using kept_rebuild [OF assms(2)] by simp
qed simp

lemma not_gives:
  assumes "sound \<rho> f" "strict \<rho> (NotE a)"
  shows "gives \<rho> (NotE a) (do { a' \<leftarrow> f a; case a' of BoolConst v \<Rightarrow> Some (BoolConst (\<not> v)) | NotE x \<Rightarrow> f x | _ \<Rightarrow> checked ok (NotE a') })"
proof (rule gives_bind [OF sound_gives [OF assms(1)]])
  show "strict \<rho> a"
    using assms(2) by (simp add: strict_expand)
  fix a'
  assume a': "kept \<rho> a a'"
  have node: "kept \<rho> (NotE a) (NotE a')"
    by (rule kept_nodes(1) [OF a' assms(2)])
  have "gives \<rho> (NotE a) (f x)" if x: "a' = NotE x" for x
  proof -
    have x': "boolean M \<rho> x" "strict \<rho> x"
      using node by (simp_all add: x strict_Not)
    have "val M \<rho> x = val M \<rho> (NotE a)"
      using not_not_val [OF x'(1)] node by (simp add: x)
    then show ?thesis
      using sound_gives [OF assms(1) x'(2)] gives_value by blast
  qed
  moreover have "kept \<rho> (NotE a) (BoolConst (\<not> v))" if "a' = BoolConst v" for v
    using node val_Not_bool [of \<rho> a' v] that by simp
  ultimately show "gives \<rho> (NotE a) (case a' of BoolConst v \<Rightarrow> Some (BoolConst (\<not> v)) | NotE x \<Rightarrow> f x | _ \<Rightarrow> checked ok (NotE a'))"
    using gives_checked [OF node] by (cases a') auto
qed

lemma conditional_gives:
  assumes "sound \<rho> f" "fits M \<rho>" "strict \<rho> (Ite c a b)"
  shows "gives \<rho> (Ite c a b) (do { c' \<leftarrow> f c; case bool_of c' of Some v \<Rightarrow> if v then f a else f b | None \<Rightarrow> simplify_ite B ok f c' a b })"
proof (rule gives_bind [OF sound_gives [OF assms(1)]])
  have strict: "strict \<rho> c" "strict \<rho> a" "strict \<rho> b"
    using assms(3) by (simp_all add: strict_expand)
  then show "strict \<rho> c"
    by simp
  fix c'
  assume c': "kept \<rho> c c'"
  have node: "kept \<rho> (Ite c a b) (Ite c' a b)"
    using kept_nodes(4) [OF c' kept_refl kept_refl assms(3)] strict(2,3) by blast
  have branch: "gives \<rho> a (f a)" "gives \<rho> b (f b)"
    using sound_gives [OF assms(1)] strict(2,3) by blast+
  show "gives \<rho> (Ite c a b) (case bool_of c' of Some v \<Rightarrow> if v then f a else f b | None \<Rightarrow> simplify_ite B ok f c' a b)"
  proof (cases "bool_of c'" rule: bool_option_cases)
    case 1
    have "gives \<rho> (Ite c' a b) (simplify_ite B ok f c' a b)"
      using node by (intro ite_gives [OF assms(1,2)]) blast
    then have "gives \<rho> (Ite c a b) (simplify_ite B ok f c' a b)"
      using node gives_value by blast
    with 1 show ?thesis
      by simp
  next
    case 2
    then have "val M \<rho> (Ite c a b) = val M \<rho> a"
      using node holds_BoolConst by (simp add: val_Ite)
    then have "gives \<rho> (Ite c a b) (f a)"
      using gives_value [OF branch(1)] by simp
    with 2 show ?thesis
      by (simp add: bool_of_BoolConst)
  next
    case 3
    then have "val M \<rho> (Ite c a b) = val M \<rho> b"
      using node holds_BoolConst by (simp add: val_Ite)
    then have "gives \<rho> (Ite c a b) (f b)"
      using gives_value [OF branch(2)] by simp
    with 3 show ?thesis
      by (simp add: bool_of_BoolConst)
  qed
qed

lemma array_gives:
  assumes "sound \<rho> f"
  shows "strict \<rho> (Store a i v) \<Longrightarrow> gives \<rho> (Store a i v) (do { a' \<leftarrow> f a; i' \<leftarrow> f i; v' \<leftarrow> f v; Some (Store a' i' v') })"
    and "strict \<rho> (ConstArray s v) \<Longrightarrow> gives \<rho> (ConstArray s v) (do { v' \<leftarrow> f v; Some (ConstArray s v') })"
proof -
  assume strict: "strict \<rho> (Store a i v)"
  have "strict \<rho> a" "strict \<rho> i" "strict \<rho> v"
    using strict_child [OF strict] by simp_all
  then have parts: "gives \<rho> a (f a)" "gives \<rho> i (f i)" "gives \<rho> v (f v)"
    using sound_gives [OF assms] by blast+
  show "gives \<rho> (Store a i v) (do { a' \<leftarrow> f a; i' \<leftarrow> f i; v' \<leftarrow> f v; Some (Store a' i' v') })"
    by (rule gives_bind [OF parts(1)], rule gives_bind [OF parts(2)], rule gives_bind [OF parts(3)])
      (use kept_nodes(6) strict in simp)
next
  assume strict: "strict \<rho> (ConstArray s v)"
  have v: "gives \<rho> v (f v)"
    using strict_child [OF strict] by (simp add: sound_gives [OF assms])
  show "gives \<rho> (ConstArray s v) (do { v' \<leftarrow> f v; Some (ConstArray s v') })"
    by (rule gives_bind [OF v]) (use kept_nodes(7) strict in simp)
qed

lemma node_gives:
  assumes "sound \<rho> f" "\<And>d c x. strict \<rho> x \<Longrightarrow> gives \<rho> (DatatypeTester d c x) (g d c x)" "fits M \<rho>" "facts_hold M \<rho> F"
    and "strict \<rho> e"
  shows "gives \<rho> e (simplify_node B ok F f g e)"
proof (cases e)
  case (NotE a)
  then show ?thesis
    using not_gives [OF assms(1)] assms(5) by (simp add: simplify_node_def)
next
  case (Eq l r)
  then show ?thesis
    using simplify_eq_gives [OF assms(1,3,4)] assms(5) by (simp add: simplify_node_def)
next
  case (And es)
  then have "\<forall>c \<in> set es. member \<rho> c"
    using assms(5) by (simp add: strict_expand member_def)
  then show ?thesis
    using nary_gives [OF assms(1), of es True] by (simp add: And simplify_node_def)
next
  case (Or es)
  then have "\<forall>c \<in> set es. member \<rho> c"
    using assms(5) by (simp add: strict_expand member_def)
  then show ?thesis
    using nary_gives [OF assms(1), of es False] by (simp add: Or simplify_node_def)
next
  case (Ite c a b)
  then show ?thesis
    using conditional_gives [OF assms(1,3)] assms(5) by (simp add: simplify_node_def)
next
  case (Bv op l r)
  then show ?thesis
    using bv_gives [OF assms(1,3,4)] assms(5) by (simp add: simplify_node_def)
next
  case (BvZeroExtend a n)
  then show ?thesis
    using zero_extend_gives [OF assms(1,3)] assms(5) by (simp add: simplify_node_def)
next
  case (BvExtract a hi lo)
  then show ?thesis
    using extract_gives [OF assms(1,3)] assms(5) by (simp add: simplify_node_def)
next
  case (Select a i)
  then show ?thesis
    using select_gives [OF assms(1,3,4)] assms(5) by (simp add: simplify_node_def)
next
  case (Store a i v)
  then show ?thesis
    using array_gives(1) [OF assms(1)] assms(5) by (simp add: simplify_node_def)
next
  case (ConstArray s v)
  then show ?thesis
    using array_gives(2) [OF assms(1)] assms(5) by (simp add: simplify_node_def)
next
  case (DatatypeSelector d n a s)
  then show ?thesis
    using selector_gives [OF assms(1) _ assms(3)] assms(5) by (simp add: simplify_node_def)
next
  case (DatatypeTester d n a)
  then show ?thesis
    using assms(2,5) by (simp add: simplify_node_def strict_expand)
qed (insert rebuilt_gives [OF assms(1,5)], simp_all add: simplify_node_def)

lemma simplify_gives:
  assumes "fits M \<rho>" "facts_hold M \<rho> F"
  shows "sound \<rho> (simplify_with_facts B ok F depth)"
proof -
  have "sound \<rho> (simplify_with_facts B ok F depth) \<and>
      (\<forall>d c x. strict \<rho> x \<longrightarrow> gives \<rho> (DatatypeTester d c x) (simplify_datatype_tester B ok F depth d c x))"
  proof (induction depth)
    case 0
    show ?case
      by (simp add: sound_def)
  next
    case (Suc depth)
    then have f: "sound \<rho> (simplify_with_facts B ok F depth)"
      and g: "\<And>d c x. strict \<rho> x \<Longrightarrow> gives \<rho> (DatatypeTester d c x) (simplify_datatype_tester B ok F depth d c x)"
      by blast+
    have "sound \<rho> (simplify_with_facts B ok F (Suc depth))"
      using node_gives [OF f g assms] by (simp add: sound_def gives_def)
    moreover have "gives \<rho> (DatatypeTester d c x) (simplify_datatype_tester B ok F (Suc depth) d c x)" if "strict \<rho> x" for d c x
      using tester_gives [OF f g that] by simp
    ultimately show ?case
      by blast
  qed
  then show ?thesis ..
qed

end

end
