(* ===== verification/Straight_Paths.thy ===== *)
theory Straight_Paths
  imports Straight_Simplify_Sound
begin

text \<open>
  The constraints of a rule, read along a path of the straight-line prover: substitution keeps values, and at an
  assignment at which the constraints hold no step is infeasible and the environment and the facts stay true.
\<close>

section \<open>Environments\<close>

definition env_holds :: "'v smt \<Rightarrow> 'v sorts \<Rightarrow> 'v typing \<Rightarrow> (string \<Rightarrow> 'v) \<Rightarrow> env \<Rightarrow> bool" where
  "env_holds M S T \<rho> env \<longleftrightarrow> (\<forall>x r. bt_get env x = Some r \<longrightarrow> val M \<rho> r = \<rho> x \<and> strict_at M S T \<rho> r)"

lemma env_holds_insert: "env_holds M S T \<rho> env \<Longrightarrow> val M \<rho> r = \<rho> x \<Longrightarrow> strict_at M S T \<rho> r \<Longrightarrow> env_holds M S T \<rho> (bt_insert x r env)"
  by (simp add: env_holds_def)

definition path_holds :: "'v smt \<Rightarrow> 'v sorts \<Rightarrow> 'v typing \<Rightarrow> (string \<Rightarrow> 'v) \<Rightarrow> path \<Rightarrow> bool" where
  "path_holds M S T \<rho> st \<longleftrightarrow> env_holds M S T \<rho> (fst st) \<and> facts_hold M \<rho> (snd st)"

text \<open>A step is never infeasible and keeps the path true.\<close>

definition advances :: "'v smt \<Rightarrow> 'v sorts \<Rightarrow> 'v typing \<Rightarrow> (string \<Rightarrow> 'v) \<Rightarrow> ConstraintStatus \<times> path \<Rightarrow> bool" where
  "advances M S T \<rho> res \<longleftrightarrow> fst res \<noteq> Infeasible \<and> path_holds M S T \<rho> (snd res)"

lemma pass_over_advances:
  assumes "\<And>c st. c \<in> set cs \<Longrightarrow> path_holds M S T \<rho> st \<Longrightarrow> advances M S T \<rho> (A c st)" "path_holds M S T \<rho> st"
  shows "advances M S T \<rho> (pass_over A cs u st)"
  using assms
proof (induction cs arbitrary: u st)
  case Nil
  then show ?case
    by (simp add: advances_def)
next
  case (Cons c cs)
  obtain s st' where a: "A c st = (s, st')"
    by (cases "A c st")
  then have "s \<noteq> Infeasible" "path_holds M S T \<rho> st'"
    using Cons.prems(1) [of c st] Cons.prems(2) by (simp_all add: advances_def)
  then show ?case
    using Cons.IH [OF Cons.prems(1)] by (cases s) (simp_all add: a)
qed

lemma passes_advances:
  assumes "\<And>c st. c \<in> set cs \<Longrightarrow> path_holds M S T \<rho> st \<Longrightarrow> advances M S T \<rho> (A c st)" "path_holds M S T \<rho> st"
  shows "advances M S T \<rho> (passes A n cs st)"
  using assms(2)
proof (induction n arbitrary: st)
  case 0
  then show ?case
    by (simp add: advances_def)
next
  case (Suc n)
  obtain s st' where p: "pass_over A cs False st = (s, st')"
    by (cases "pass_over A cs False st")
  have "advances M S T \<rho> (pass_over A cs False st)"
    using assms(1) Suc.prems by (rule pass_over_advances)
  then have "s \<noteq> Infeasible" "path_holds M S T \<rho> st'"
    by (simp_all add: p advances_def)
  then show ?case
    using Suc.IH by (cases s) (auto simp: p advances_def)
qed

context smt_checked
begin

abbreviation env_ok :: "(string \<Rightarrow> 'v) \<Rightarrow> env \<Rightarrow> bool" where
  "env_ok \<equiv> env_holds M S T"

abbreviation path_ok :: "(string \<Rightarrow> 'v) \<Rightarrow> path \<Rightarrow> bool" where
  "path_ok \<equiv> path_holds M S T"

abbreviation steps_ok :: "(string \<Rightarrow> 'v) \<Rightarrow> ConstraintStatus \<times> path \<Rightarrow> bool" where
  "steps_ok \<equiv> advances M S T"

lemma substitute_inner_sound:
  assumes "env_ok \<rho> env"
  shows "sound \<rho> (substitute_inner B env depth resolving)"
proof (induction depth arbitrary: resolving)
  case 0
  show ?case
    by (simp add: sound_def)
next
  case (Suc depth)
  have "gives \<rho> e (substitute_inner B env (Suc depth) resolving e)" if "strict \<rho> e" for e
  proof (cases "var_of e")
    case None
    then show ?thesis
      using rebuilt_gives [OF Suc that, of resolving] by (cases e) simp_all
  next
    case (Some x)
    then obtain s where e: "e = Var x s"
      by (auto simp: var_of_Some)
    have "gives \<rho> e (substitute_inner B env depth (x # resolving) r)" if "bt_get env x = Some r" for r
    proof -
      have "val M \<rho> r = val M \<rho> e" "strict \<rho> r"
        using assms that by (simp_all add: env_holds_def e val_Var)
      then show ?thesis
        using sound_gives [OF Suc] gives_value by blast
    qed
    then show ?thesis
      using gives_bind [of \<rho> e] \<open>strict \<rho> e\<close> by (auto simp: e split: option.split)
  qed
  then show ?case
    by (simp add: sound_def gives_def)
qed

lemma env_substitute_sound: "env_ok \<rho> env \<Longrightarrow> sound \<rho> (substitute B env depth)"
  using substitute_inner_sound [of \<rho> env depth "[]"] by (simp add: sound_def substitute_def)

section \<open>Constraints\<close>

lemma bind_env_var_advances:
  assumes "fits M \<rho>" "path_ok \<rho> st" "val M \<rho> v = \<rho> x" "strict \<rho> v"
  shows "steps_ok \<rho> (bind_env_var B ok depth x v st)"
proof -
  obtain env F where st: "st = (env, F)"
    by (cases st)
  have env: "env_ok \<rho> env" "facts_hold M \<rho> F"
    using assms(2) by (simp_all add: st path_holds_def)
  have bound: "path_ok \<rho> (bt_insert x v env, F)"
    using env_holds_insert [OF env(1) assms(3,4)] env(2) by (simp add: path_holds_def)
  have "q \<noteq> BoolConst False" if "bt_get env x = Some old" "simplify B ok depth (Eq old v) = Some q" for old q
  proof -
    have old: "val M \<rho> old = val M \<rho> v" "strict \<rho> old"
      using env(1) that(1) assms(3) by (simp_all add: env_holds_def)
    have "strict \<rho> (Eq old v)"
      using old assms(4) by (simp add: strict_expand same_sort_refl)
    then have "kept \<rho> (Eq old v) q"
      using simplify_gives [OF assms(1) no_facts_hold] that(2) unfolding simplify_def sound_def by blast
    then show ?thesis
      using old(1) bool_inj [of \<rho> True False] by (auto simp: val_Eq)
  qed
  then show ?thesis
    using bound assms(2) by (auto simp: bind_env_var_def st advances_def split: option.split bool.split)
qed

lemma bind_side_advances:
  assumes "fits M \<rho>" "path_ok \<rho> st" "val M \<rho> a = val M \<rho> b" "strict \<rho> b" "bind_side B ok depth a b st = Some res"
  shows "steps_ok \<rho> res"
proof -
  obtain x s where a: "a = Var x s"
    using assms(5) by (auto simp: bind_side_def var_of_Some split: option.splits)
  show ?thesis
    using bind_env_var_advances [OF assms(1,2), of b x ok depth] assms(2-5)
    by (auto simp: bind_side_def a val_Var advances_def split: if_splits)
qed

lemma apply_eq_advances:
  assumes "fits M \<rho>" "path_ok \<rho> st" "strict \<rho> (Eq l r)" "holds M \<rho> (Eq l r)"
  shows "steps_ok \<rho> (apply_eq B ok depth l r st)"
proof -
  have eq: "val M \<rho> l = val M \<rho> r" "strict \<rho> l" "strict \<rho> r"
    using assms(3,4) by (simp_all add: strict_expand holds_values)
  have "steps_ok \<rho> res" if "or_else (bind_side B ok depth l r st) (bind_side B ok depth r l st) = Some res" for res
  proof (cases "bind_side B ok depth l r st")
    case None
    then show ?thesis
      using bind_side_advances [OF assms(1,2) eq(1) [symmetric] eq(2)] that by simp
  next
    case (Some res')
    then show ?thesis
      using bind_side_advances [OF assms(1,2) eq(1,3)] that by simp
  qed
  then show ?thesis
    using assms(2) by (auto simp: apply_eq_def advances_def split: option.split)
qed

lemma after_recording_advances:
  assumes "path_ok \<rho> (env, F)" "records \<rho> r"
  shows "steps_ok \<rho> (after_recording r (env, F))"
  using assms by (auto simp: after_recording_def advances_def path_holds_def records_def split: option.split)

lemma records_or_else: "records \<rho> r \<Longrightarrow> records \<rho> q \<Longrightarrow> records \<rho> (or_else r q)"
  by (cases r) simp_all

lemma path_facts: "path_ok \<rho> (env, F) \<Longrightarrow> facts_hold M \<rho> F"
  by (simp add: path_holds_def)

lemma bound_value: "boolean M \<rho> (Var x s) \<Longrightarrow> val M \<rho> (BoolConst (holds M \<rho> (Var x s))) = \<rho> x"
  using boolean_val [of \<rho> "Var x s"] by (simp add: val_Var)

lemma apply_not_advances:
  assumes "fits M \<rho>" "path_ok \<rho> st" "strict \<rho> a" "\<not> holds M \<rho> a"
  shows "steps_ok \<rho> (apply_not B ok depth a st)"
proof -
  obtain env F where st: "st = (env, F)"
    by (cases st)
  note facts = path_facts [OF assms(2) [unfolded st]]
  have "steps_ok \<rho> (after_recording (or_else (record_unsigned_upper_bound_from_cmp B a True F) (record_unsigned_lower_bound_from_cmp B a True F)) (env, F))"
    using assms(4) by (intro after_recording_advances assms(2) [unfolded st] records_or_else record_upper_cmp record_lower_cmp facts assms(3,1)) simp_all
  moreover have "steps_ok \<rho> (Feasible, env, add_disequality B l r F)" if "a = Eq l r" for l r
    using add_disequality_hold [OF facts] assms(2,4) that by (auto simp: advances_def path_holds_def st holds_values)
  moreover have "steps_ok \<rho> (bind_env_var B ok depth x (BoolConst False) (env, F))" if "a = Var x s" "sort_of B a = SBool" for x s
    using bound_value [of \<rho> x s] sort_of_bool [OF assms(1,3)] assms(2,4) that
    by (intro bind_env_var_advances [OF assms(1)]) (simp_all add: st)
  ultimately show ?thesis
    using assms(2) by (cases a) (auto simp: apply_not_def st advances_def [of _ _ _ _ "(Feasible, env, F)"])
qed

lemma apply_cmp_advances:
  assumes "fits M \<rho>" "path_ok \<rho> st" "strict \<rho> (Bv op l r)" "holds M \<rho> (Bv op l r)"
  shows "steps_ok \<rho> (apply_cmp B op l r st)"
proof -
  obtain env F where st: "st = (env, F)"
    by (cases st)
  note facts = path_facts [OF assms(2) [unfolded st]]
  have "records \<rho> (record_unsigned_upper_bound B l r F)" if "op = BvULt"
    using record_upper [OF facts _ assms(1)] assms(3,4) that by blast
  moreover have "records \<rho> (or_else (record_unsigned_upper_bound_from_cmp B (Bv op l r) False F)
      (record_unsigned_lower_bound_from_cmp B (Bv op l r) False F))"
    using assms(4) by (intro records_or_else record_upper_cmp record_lower_cmp facts assms(3,1)) simp_all
  ultimately show ?thesis
    using assms(2) by (auto simp: apply_cmp_def st intro!: after_recording_advances)
qed

lemma apply_constraint_advances:
  assumes "fits M \<rho>" "path_ok \<rho> st" "strict \<rho> c" "holds M \<rho> c"
  shows "steps_ok \<rho> (apply_constraint B ok depth n c st)"
  using assms(2-4)
proof (induction n arbitrary: c st)
  case 0
  then show ?case
    by (simp add: advances_def)
next
  case (Suc n)
  show ?case
  proof (cases "do { c' \<leftarrow> substitute B (fst st) depth c; simplify_with_facts B ok (snd st) depth c' }")
    case None
    then show ?thesis
      using Suc.prems(1) by (simp add: advances_def)
  next
    case (Some e)
    then obtain c' where c': "substitute B (fst st) depth c = Some c'" "simplify_with_facts B ok (snd st) depth c' = Some e"
      by (auto simp: bind_eq_Some_conv)
    have path: "env_ok \<rho> (fst st)" "facts_hold M \<rho> (snd st)"
      using Suc.prems(1) by (simp_all add: path_holds_def)
    have "kept \<rho> c c'"
      by (rule soundD [OF env_substitute_sound [OF path(1)] c'(1) Suc.prems(2)])
    then have "kept \<rho> c e"
      using soundD [OF simplify_gives [OF assms(1) path(2)] c'(2)] by simp
    then have e: "strict \<rho> e" "holds M \<rho> e"
      using Suc.prems(3) by (simp_all add: holds_def)
    have unchanged: "steps_ok \<rho> (Feasible, st)"
      using Suc.prems(1) by (simp add: advances_def)
    show ?thesis
    proof (cases e)
      case (BoolConst v)
      then show ?thesis
        using e(2) holds_BoolConst unchanged by (simp add: Some)
    next
      case (Var x s)
      have "steps_ok \<rho> (bind_env_var B ok depth x (BoolConst True) st)" if "sort_of B e = SBool"
        using bound_value [of \<rho> x s] sort_of_bool [OF assms(1) e(1) that] e(2) Suc.prems(1)
        by (intro bind_env_var_advances [OF assms(1)]) (simp_all add: Var)
      then show ?thesis
        using unchanged by (simp add: Some Var)
    next
      case (And es)
      have "steps_ok \<rho> (passes (apply_constraint B ok depth n) (max_passes es) es st)"
        using e Suc.IH Suc.prems(1) by (intro passes_advances) (simp_all add: And strict_expand holds_values)
      then show ?thesis
        by (simp add: Some And)
    next
      case (Eq l r)
      then show ?thesis
        using apply_eq_advances [OF assms(1) Suc.prems(1)] e by (simp add: Some)
    next
      case (Bv op l r)
      then show ?thesis
        using apply_cmp_advances [OF assms(1) Suc.prems(1)] e unchanged by (simp add: Some)
    next
      case (NotE a)
      then show ?thesis
        using apply_not_advances [OF assms(1) Suc.prems(1)] e by (simp add: Some strict_Not holds_values)
    qed (simp_all add: Some unchanged)
  qed
qed

lemma apply_constraints_advances:
  assumes "fits M \<rho>" "path_ok \<rho> st" "\<forall>c \<in> set cs. strict \<rho> c \<and> holds M \<rho> c"
  shows "steps_ok \<rho> (apply_constraints B ok depth cs st)"
  unfolding apply_constraints_def using assms by (intro passes_advances apply_constraint_advances) blast+

end

end
