(* ===== verification/Straight_Values.thy ===== *)
theory Straight_Values
  imports Straight_Sound
begin

text \<open>
  A reference interpretation of the term language in which every value has one sort: words of every width, arrays that
  carry their index and element sorts, data whose constructors have declared fields.  With the sorts the bindings
  compute for a term (all operators, the annotation of a variable included) it obeys everything the straight-line prover
  needs, at every choice of the values of the variables: the sort of a well-sorted term is the sort of its value.
\<close>

section \<open>Values\<close>

datatype TVal =
    TB bool
  | TBV nat nat
  | TI int
  | TR string
  | TData string string "TVal list"
  | TOther string
  | TArr Sort Sort "Key \<Rightarrow> TVal"

fun sort_of_val :: "TVal \<Rightarrow> Sort" where
  "sort_of_val (TB t) = SBool"
| "sort_of_val (TBV n w) = SBitVec w"
| "sort_of_val (TI i) = SInt"
| "sort_of_val (TR r) = SReal"
| "sort_of_val (TData d c vs) = SDatatype d"
| "sort_of_val (TOther x) = SOther x"
| "sort_of_val (TArr k s f) = SArray k s"

text \<open>The declared data types: an optional byte and a byte with a flag.\<close>

definition constructors_of :: "Sort \<Rightarrow> (string \<times> Sort list) list" where
  "constructors_of s =
     (if s = SDatatype ''Option'' then [(''None'', []), (''Some'', [SBitVec 8])]
      else if s = SDatatype ''Pair'' then [(''Pair'', [SBitVec 8, SBool])]
      else [])"

primrec sorted_val :: "TVal \<Rightarrow> bool" where
  "sorted_val (TB t) \<longleftrightarrow> True"
| "sorted_val (TBV n w) \<longleftrightarrow> bv_lit n w"
| "sorted_val (TI i) \<longleftrightarrow> True"
| "sorted_val (TR r) \<longleftrightarrow> True"
| "sorted_val (TData d c vs) \<longleftrightarrow>
     list_all (\<lambda>b. b) (map sorted_val vs) \<and> map_of (constructors_of (SDatatype d)) c = Some (map sort_of_val vs)"
| "sorted_val (TOther x) \<longleftrightarrow> True"
| "sorted_val (TArr k s f) \<longleftrightarrow> (\<forall>j. sorted_val (f j) \<and> sort_of_val (f j) = s)"

definition has_sort :: "Sort \<Rightarrow> TVal \<Rightarrow> bool" where
  "has_sort s u \<longleftrightarrow> sort_of_val u = s \<and> sorted_val u"

lemma sort_of_val_iff [simp]:
  "sort_of_val u = SBool \<longleftrightarrow> (\<exists>t. u = TB t)"
  "sort_of_val u = SBitVec w \<longleftrightarrow> (\<exists>n. u = TBV n w)"
  "sort_of_val u = SArray k s \<longleftrightarrow> (\<exists>f. u = TArr k s f)"
  by (cases u; simp)+

text \<open>The value of a function, a field or another operator about which nothing is known.\<close>

fun default_val :: "Sort \<Rightarrow> TVal" where
  "default_val SBool = TB False"
| "default_val (SBitVec w) = TBV 0 w"
| "default_val SInt = TI 0"
| "default_val SReal = TR ''0''"
| "default_val (SArray k s) = TArr k s (\<lambda>_. default_val s)"
| "default_val (SDatatype d) =
     (if d = ''Pair'' then TData d ''Pair'' [TBV 0 8, TB False] else TData d ''None'' [])"
| "default_val (SOther x) = TOther x"

section \<open>Evaluation\<close>

fun index_key :: "TVal \<Rightarrow> Key" where
  "index_key (TB t) = KB t"
| "index_key (TBV n w) = KBV n w"
| "index_key (TI i) = KI i"
| "index_key (TR r) = KR r"
| "index_key _ = KOther"

fun entry_at :: "TVal \<Rightarrow> Key \<Rightarrow> TVal" where
  "entry_at (TArr k s f) i = f i"
| "entry_at _ i = TB False"

fun stored_at :: "TVal \<Rightarrow> Key \<Rightarrow> TVal \<Rightarrow> TVal" where
  "stored_at (TArr k s f) i v = TArr k s (f(i := v))"
| "stored_at _ i v = TArr SBool SBool ((\<lambda>_. TB False)(i := v))"

fun literal :: "Expr \<Rightarrow> TVal" where
  "literal (BoolConst t) = TB t"
| "literal (BitVecConst n w) = TBV n w"
| "literal (IntConst i) = TI i"
| "literal (RealConst r) = TR r"
| "literal _ = TB False"

definition field_val :: "TVal \<Rightarrow> string \<Rightarrow> Sort \<Rightarrow> TVal" where
  "field_val u f s =
     (case (u, field_index f) of
        (TData d c vs, Some k) \<Rightarrow> if k < length vs then vs ! k else default_val s
      | _ \<Rightarrow> default_val s)"

definition data_name :: "Sort \<Rightarrow> string" where
  "data_name s = (case s of SDatatype d \<Rightarrow> d | _ \<Rightarrow> [])"

definition made_by :: "string \<Rightarrow> TVal \<Rightarrow> bool" where
  "made_by c u \<longleftrightarrow> (case u of TData d c' vs \<Rightarrow> c' = c | _ \<Rightarrow> False)"

definition operator_val :: "string \<Rightarrow> TVal list \<Rightarrow> Sort \<Rightarrow> TVal" where
  "operator_val f vs s = (case vs of [TBV x w] \<Rightarrow> if f = ''Bv2Int'' then TI (int x) else default_val s | _ \<Rightarrow> default_val s)"

definition word_op :: "BvOp \<Rightarrow> TVal \<Rightarrow> TVal \<Rightarrow> TVal" where
  "word_op op a b = (case (a, b) of (TBV x w, TBV y v) \<Rightarrow> literal (bv_const op x w y v) | _ \<Rightarrow> TB False)"

definition word_map :: "(nat \<Rightarrow> nat \<Rightarrow> TVal) \<Rightarrow> TVal \<Rightarrow> TVal" where
  "word_map f a = (case a of TBV x w \<Rightarrow> f x w | _ \<Rightarrow> TB False)"

function value_of :: "(string \<Rightarrow> TVal) \<Rightarrow> Expr \<Rightarrow> TVal" where
  "value_of \<rho> e =
     (case e of
        Var x s \<Rightarrow> \<rho> x
      | NotE a \<Rightarrow> TB (value_of \<rho> a \<noteq> TB True)
      | And es \<Rightarrow> TB (\<forall>a \<in> set es. value_of \<rho> a = TB True)
      | Or es \<Rightarrow> TB (\<exists>a \<in> set es. value_of \<rho> a = TB True)
      | Eq a b \<Rightarrow> TB (value_of \<rho> a = value_of \<rho> b)
      | Ite c a b \<Rightarrow> (if value_of \<rho> c = TB True then value_of \<rho> a else value_of \<rho> b)
      | Select a i \<Rightarrow> entry_at (value_of \<rho> a) (index_key (value_of \<rho> i))
      | Store a i v \<Rightarrow> stored_at (value_of \<rho> a) (index_key (value_of \<rho> i)) (value_of \<rho> v)
      | ConstArray s v \<Rightarrow> TArr s (sort_of_val (value_of \<rho> v)) (\<lambda>_. value_of \<rho> v)
      | Bv op a b \<Rightarrow> word_op op (value_of \<rho> a) (value_of \<rho> b)
      | BvNot a \<Rightarrow> word_map (\<lambda>x w. TBV (bv_complement w x) w) (value_of \<rho> a)
      | BvNeg a \<Rightarrow> word_map (\<lambda>x w. TBV (bv_neg w x) w) (value_of \<rho> a)
      | BvExtract a hi lo \<Rightarrow> word_map (\<lambda>x w. TBV ((x div 2 ^ lo) mod 2 ^ (hi - lo + 1)) (hi - lo + 1)) (value_of \<rho> a)
      | BvZeroExtend a n \<Rightarrow> word_map (\<lambda>x w. TBV x (w + n)) (value_of \<rho> a)
      | BvSignExtend a n \<Rightarrow> word_map (\<lambda>x w. TBV (if bv_msb w x then x + 2 ^ (w + n) - 2 ^ w else x) (w + n)) (value_of \<rho> a)
      | DatatypeConstructor d c es s \<Rightarrow> TData (data_name s) c (map (value_of \<rho>) es)
      | DatatypeSelector d f a s \<Rightarrow> field_val (value_of \<rho> a) f s
      | DatatypeTester d c a \<Rightarrow> TB (made_by c (value_of \<rho> a))
      | FuncApp f es s \<Rightarrow> default_val s
      | OtherOp f es s \<Rightarrow> operator_val f (map (value_of \<rho>) es) s
      | _ \<Rightarrow> literal e)"
  by pat_completeness auto
termination
  by (relation "measure (size \<circ> snd)") (auto intro: size_member)

declare value_of.simps [simp del]

lemma value_of_simps [simp]:
  "value_of \<rho> (Var x s) = \<rho> x"
  "value_of \<rho> (BoolConst t) = TB t"
  "value_of \<rho> (BitVecConst n w) = TBV n w"
  "value_of \<rho> (IntConst k) = TI k"
  "value_of \<rho> (RealConst r) = TR r"
  "value_of \<rho> (NotE a) = TB (value_of \<rho> a \<noteq> TB True)"
  "value_of \<rho> (And es) = TB (\<forall>a \<in> set es. value_of \<rho> a = TB True)"
  "value_of \<rho> (Or es) = TB (\<exists>a \<in> set es. value_of \<rho> a = TB True)"
  "value_of \<rho> (Eq a b) = TB (value_of \<rho> a = value_of \<rho> b)"
  "value_of \<rho> (Ite c a b) = (if value_of \<rho> c = TB True then value_of \<rho> a else value_of \<rho> b)"
  "value_of \<rho> (Select a i) = entry_at (value_of \<rho> a) (index_key (value_of \<rho> i))"
  "value_of \<rho> (Store a i v) = stored_at (value_of \<rho> a) (index_key (value_of \<rho> i)) (value_of \<rho> v)"
  "value_of \<rho> (ConstArray u v) = TArr u (sort_of_val (value_of \<rho> v)) (\<lambda>_. value_of \<rho> v)"
  "value_of \<rho> (Bv op a b) = word_op op (value_of \<rho> a) (value_of \<rho> b)"
  "value_of \<rho> (BvNot a) = word_map (\<lambda>x w. TBV (bv_complement w x) w) (value_of \<rho> a)"
  "value_of \<rho> (BvNeg a) = word_map (\<lambda>x w. TBV (bv_neg w x) w) (value_of \<rho> a)"
  "value_of \<rho> (BvExtract a hi lo) = word_map (\<lambda>x w. TBV ((x div 2 ^ lo) mod 2 ^ (hi - lo + 1)) (hi - lo + 1)) (value_of \<rho> a)"
  "value_of \<rho> (BvZeroExtend a m) = word_map (\<lambda>x w. TBV x (w + m)) (value_of \<rho> a)"
  "value_of \<rho> (BvSignExtend a m) = word_map (\<lambda>x w. TBV (if bv_msb w x then x + 2 ^ (w + m) - 2 ^ w else x) (w + m)) (value_of \<rho> a)"
  "value_of \<rho> (DatatypeConstructor dn cn es u) = TData (data_name u) cn (map (value_of \<rho>) es)"
  "value_of \<rho> (DatatypeSelector dn fn a u) = field_val (value_of \<rho> a) fn u"
  "value_of \<rho> (DatatypeTester dn cn a) = TB (made_by cn (value_of \<rho> a))"
  "value_of \<rho> (FuncApp fn es u) = default_val u"
  "value_of \<rho> (OtherOp fn es u) = operator_val fn (map (value_of \<rho>) es) u"
  "value_of \<rho> (Forall xs b ts) = TB False"
  "value_of \<rho> (Exists xs b ts) = TB False"
  by (subst value_of.simps, simp)+

definition values_in :: "(string \<Rightarrow> TVal set) \<Rightarrow> TVal smt" where
  "values_in D = \<lparr> val = value_of, truth = (\<lambda>v. v = TB True), domain_of = D \<rparr>"

lemma values_in_sel [simp]:
  "val (values_in D) = value_of" "truth (values_in D) = (\<lambda>v. v = TB True)" "domain_of (values_in D) = D"
  by (simp_all add: values_in_def)

lemma value_of_cong: "(\<And>x. x \<in> expr_vars e \<Longrightarrow> \<rho> x = \<sigma> x) \<Longrightarrow> value_of \<rho> e = value_of \<sigma> e"
proof (induction e rule: measure_induct_rule [of size])
  case (less e)
  have sub: "value_of \<rho> a = value_of \<sigma> a" if "a \<in> set (children e)" for a
    using that child_vars [OF that] by (intro less.IH size_children less.prems) blast+
  show ?case
    using sub less.prems by (cases e) (simp_all cong: map_cong)
qed

interpretation typed: smt_model "values_in D" for D
  by unfold_locales (auto simp: holds_def intro: value_of_cong)

section \<open>The laws of the term language\<close>

definition scalar_sort :: "Sort \<Rightarrow> bool" where
  "scalar_sort s \<longleftrightarrow> s = SBool \<or> s = SInt \<or> s = SReal \<or> (\<exists>w. s = SBitVec w)"

definition one_sort :: "TVal sorts" where
  "one_sort = \<lparr>is_scalar = (\<lambda>u. scalar_sort (sort_of_val u)), is_array = (\<lambda>u. \<exists>k s f. u = TArr k s f),
     same_sort = (\<lambda>u v. sort_of_val u = sort_of_val v)\<rparr>"

lemma one_sort_sel [simp]:
  "is_scalar one_sort = (\<lambda>u. scalar_sort (sort_of_val u))"
  "is_array one_sort = (\<lambda>u. \<exists>k s f. u = TArr k s f)"
  "same_sort one_sort = (\<lambda>u v. sort_of_val u = sort_of_val v)"
  by (simp_all add: one_sort_def)

lemma index_key_inj:
  "scalar_sort (sort_of_val u) \<Longrightarrow> scalar_sort (sort_of_val v) \<Longrightarrow> index_key u = index_key v \<Longrightarrow> u = v"
  by (cases u; cases v) (simp_all add: scalar_sort_def)

lemma entry_stored [simp]: "entry_at (stored_at a i v) j = (if j = i then v else entry_at a j)"
  by (cases a) simp_all

lemma stored_stored [simp]: "stored_at (stored_at a i u) i v = stored_at a i v"
  by (cases a) simp_all

lemma stored_array: "\<exists>k s f. stored_at a i v = TArr k s f"
  by (cases a) simp_all

lemma literal_value: "is_scalar_constant a \<Longrightarrow> value_of \<rho> a = literal a"
  by (cases a) simp_all

lemma literal_inject: "is_scalar_constant a \<Longrightarrow> is_scalar_constant b \<Longrightarrow> literal a = literal b \<Longrightarrow> a = b"
  by (cases a; cases b) simp_all

lemma value_of_node:
  assumes "\<not> is_binder e" "list_all2 (\<lambda>a b. value_of \<rho> b = value_of \<rho> a) (children e) es"
  shows "value_of \<rho> (with_children e es) = value_of \<rho> e"
proof -
  have all: "map (value_of \<rho>) bs = map (value_of \<rho>) as" if "list_all2 (\<lambda>a b. value_of \<rho> b = value_of \<rho> a) as bs" for as bs
    using that by (induction rule: list_all2_induct) simp_all
  have members: "(\<forall>b \<in> set bs. P (value_of \<rho> b)) \<longleftrightarrow> (\<forall>a \<in> set as. P (value_of \<rho> a))"
      "(\<exists>b \<in> set bs. P (value_of \<rho> b)) \<longleftrightarrow> (\<exists>a \<in> set as. P (value_of \<rho> a))"
    if "list_all2 (\<lambda>a b. value_of \<rho> b = value_of \<rho> a) as bs" for as bs P
    using that by (induction rule: list_all2_induct) simp_all
  show ?thesis
  proof (cases e)
    case (And as)
    then show ?thesis
      using members(1) [of as es "\<lambda>v. v = TB True"] assms(2) by simp
  next
    case (Or as)
    then show ?thesis
      using members(2) [of as es "\<lambda>v. v = TB True"] assms(2) by simp
  qed (use assms all in \<open>auto simp: list_all2_Cons1 is_binder_def\<close>)
qed

interpretation typed: smt_terms "values_in D" one_sort for D
proof unfold_locales
  fix \<rho> :: "string \<Rightarrow> TVal"
  let ?M = "values_in D"
  show "a = b" if "scalar_literal a" "scalar_literal b" "val ?M \<rho> a = val ?M \<rho> b" for a b
    using that literal_inject by (simp add: scalar_literal_def literal_value)
  show "val ?M \<rho> (Bv op a b) = val ?M \<rho> (bv_const op x w y v)"
    if "val ?M \<rho> a = val ?M \<rho> (BitVecConst x w)" "val ?M \<rho> b = val ?M \<rho> (BitVecConst y v)" for op a b x w y v
    using that by (simp add: word_op_def literal_value bv_const_scalar)
  show "val ?M \<rho> (Select (Store a i e) j) = val ?M \<rho> (Select a j)"
    if "is_scalar one_sort (val ?M \<rho> i)" "is_scalar one_sort (val ?M \<rho> j)" "val ?M \<rho> i \<noteq> val ?M \<rho> j" for a i e j
    using that index_key_inj by auto
  show "val ?M \<rho> (DatatypeSelector dn f (DatatypeConstructor dn cn args s) s') = val ?M \<rho> (args ! k)"
    if "field_index f = Some k" "k < length args" for f k args dn cn s s'
    using that by (simp add: field_val_def)
  show "val ?M \<rho> (with_children e es) = val ?M \<rho> e"
    if "\<not> is_binder e" "list_all2 (\<lambda>a b. val ?M \<rho> b = val ?M \<rho> a) (children e) es" for e es
    using value_of_node that by simp
qed (auto simp: holds_def word_map_def stored_array scalar_sort_def)

section \<open>The sorts of terms\<close>

text \<open>The sort the bindings compute for a term.\<close>

fun expr_sort :: "Expr \<Rightarrow> Sort" where
  "expr_sort (Var x s) = s"
| "expr_sort (BoolConst t) = SBool"
| "expr_sort (BitVecConst n w) = SBitVec w"
| "expr_sort (IntConst i) = SInt"
| "expr_sort (RealConst r) = SReal"
| "expr_sort (Ite c a b) = expr_sort a"
| "expr_sort (Select a i) = (case expr_sort a of SArray k s \<Rightarrow> s | s \<Rightarrow> s)"
| "expr_sort (Store a i v) = expr_sort a"
| "expr_sort (ConstArray k v) = SArray k (expr_sort v)"
| "expr_sort (Bv op a b) =
     (if op = BvConcat
      then (case (expr_sort a, expr_sort b) of (SBitVec w, SBitVec v) \<Rightarrow> SBitVec (w + v) | _ \<Rightarrow> expr_sort a)
      else if op \<in> set arithmetic then expr_sort a
      else SBool)"
| "expr_sort (BvNot a) = expr_sort a"
| "expr_sort (BvNeg a) = expr_sort a"
| "expr_sort (BvExtract a hi lo) = SBitVec (hi - lo + 1)"
| "expr_sort (BvZeroExtend a n) = (case expr_sort a of SBitVec w \<Rightarrow> SBitVec (w + n) | s \<Rightarrow> s)"
| "expr_sort (BvSignExtend a n) = (case expr_sort a of SBitVec w \<Rightarrow> SBitVec (w + n) | s \<Rightarrow> s)"
| "expr_sort (DatatypeConstructor d c es s) = s"
| "expr_sort (DatatypeSelector d f a s) = s"
| "expr_sort (FuncApp f es s) = s"
| "expr_sort (OtherOp f es s) = s"
| "expr_sort _ = SBool"

definition field_names :: "string list" where
  "field_names = [''fld_0'', ''fld_1'']"

definition value_bindings :: bindings where
  "value_bindings =
     \<lparr>sort_of = expr_sort,
      fields_of = (\<lambda>s c. map_option (zip field_names) (map_of (constructors_of s) c)),
      selects = (\<lambda>e d f s. expr_sort e = SDatatype d \<and> (\<exists>(c, ss) \<in> set (constructors_of (SDatatype d)). (f, s) \<in> set (zip field_names ss))),
      tests = (\<lambda>e d c. expr_sort e = SDatatype d \<and> c \<in> fst ` set (constructors_of (SDatatype d))),
      known_variant = (\<lambda>f. True)\<rparr>"

lemma value_bindings_sel [simp]:
  "sort_of value_bindings = expr_sort"
  by (simp add: value_bindings_def)

lemma field_index_names:
  assumes "position f (map fst (zip field_names ss)) = Some k"
  shows "field_index f = Some k"
proof -
  have k: "k < length (map fst (zip field_names ss))" "map fst (zip field_names ss) ! k = f"
    using position_nth [OF assms] by simp_all
  then have "k < 2" "f = field_names ! k"
    by (simp_all add: field_names_def)
  then consider "k = 0" "f = ''fld_0''" | "k = 1" "f = ''fld_1''"
    by (fastforce simp: field_names_def less_2_cases_iff)
  then show ?thesis
    by cases (simp_all add: field_index_def starts_with_def parse_usize_def digit_val_def)
qed

interpretation typed: smt_bindings "values_in D" one_sort value_bindings for D
proof unfold_locales
  fix \<rho> :: "string \<Rightarrow> TVal"
  show "val (values_in D) \<rho> (DatatypeSelector d f (DatatypeConstructor d' c args s) s') = val (values_in D) \<rho> (args ! k)"
    if fields: "fields_of value_bindings s c = Some fs" "position f (map fst fs) = Some k" "k < length args" for s c fs f k args d d' s'
  proof -
    obtain ss where "fs = zip field_names ss"
      using fields(1) by (auto simp: value_bindings_def)
    then have "field_index f = Some k"
      using field_index_names fields(2) by simp
    with fields(3) show ?thesis
      by (simp add: field_val_def)
  qed
qed simp

section \<open>The sort of a well-sorted term is the sort of its value\<close>

definition value_typing :: "TVal typing" where
  "value_typing =
     \<lparr>in_sort = has_sort,
      is_index = (\<lambda>a i. \<exists>s f. a = TArr (sort_of_val i) s f),
      is_element = (\<lambda>a v. \<exists>k f. a = TArr k (sort_of_val v) f),
      field_sort = (\<lambda>f u s. has_sort s (default_val s) \<and>
        (\<forall>(c, ss) \<in> set (constructors_of (sort_of_val u)). \<forall>k. field_index f = Some k \<longrightarrow> k < length ss \<longrightarrow> ss ! k = s))\<rparr>"

lemma value_typing_sel [simp]:
  "in_sort value_typing = has_sort"
  "is_index value_typing = (\<lambda>a i. \<exists>s f. a = TArr (sort_of_val i) s f)"
  "is_element value_typing = (\<lambda>a v. \<exists>k f. a = TArr k (sort_of_val v) f)"
  by (simp_all add: value_typing_def)

abbreviation typed_strict :: "(string \<Rightarrow> TVal set) \<Rightarrow> (string \<Rightarrow> TVal) \<Rightarrow> Expr \<Rightarrow> bool" where
  "typed_strict D \<equiv> strict_at (values_in D) one_sort value_typing"

lemma typed_bits: "bits (values_in D) \<rho> e n w \<longleftrightarrow> bv_lit n w \<and> value_of \<rho> e = TBV n w"
  by (auto simp: bits_def)

lemma typed_boolean: "boolean (values_in D) \<rho> e \<longleftrightarrow> (\<exists>t. value_of \<rho> e = TB t)"
  by (auto simp: boolean_def holds_def)

lemma has_sort_word [simp]: "has_sort s (TBV n w) \<longleftrightarrow> s = SBitVec w \<and> bv_lit n w"
  by (auto simp: has_sort_def)

lemma has_sort_bool [simp]: "has_sort s (TB t) \<longleftrightarrow> s = SBool"
  by (auto simp: has_sort_def)

lemma has_sort_array: "has_sort s (TArr k u f) \<longleftrightarrow> s = SArray k u \<and> (\<forall>j. has_sort u (f j))"
  by (auto simp: has_sort_def)

lemma word_range:
  "bv_neg w x < 2 ^ w" "bv_complement w x < 2 ^ w"
  "x < 2 ^ w \<Longrightarrow> bv_abs w x < 2 ^ w"
  "x < 2 ^ w \<Longrightarrow> bv_udiv w x y < 2 ^ w" "x < 2 ^ w \<Longrightarrow> bv_urem x y < 2 ^ w" "x < 2 ^ w \<Longrightarrow> x div k < 2 ^ w"
proof -
  show neg: "bv_neg w x < 2 ^ w" for x :: nat
    by (simp add: bv_neg_def)
  show "bv_complement w x < 2 ^ w"
  proof -
    have "bv_complement w x \<le> 2 ^ w - 1"
      unfolding bv_complement_def by (rule diff_le_self)
    then show ?thesis
      by (rule le_less_trans) simp
  qed
  show "bv_abs w x < 2 ^ w" if "x < 2 ^ w"
    using that neg [of x] unfolding bv_abs_def by (cases "bv_msb w x") simp_all
  show div: "x div k < 2 ^ w" if "x < 2 ^ w" for x k :: nat
    by (rule le_less_trans [OF div_le_dividend that])
  show "bv_udiv w x y < 2 ^ w" if "x < 2 ^ w"
    using div [OF that, of y] unfolding bv_udiv_def by (cases "y = 0") simp_all
  show "bv_urem x y < 2 ^ w" if "x < 2 ^ w"
    using that le_less_trans [OF mod_less_eq_dividend [of x y] that] unfolding bv_urem_def by (cases "y = 0") simp_all
qed

lemma concat_range:
  fixes x y :: nat
  assumes "x < 2 ^ w" "y < 2 ^ v"
  shows "x * 2 ^ v + y < 2 ^ (w + v)"
proof -
  have "Suc x * 2 ^ v \<le> 2 ^ w * 2 ^ v"
    using assms(1) by (intro mult_le_mono1) simp
  then show ?thesis
    using assms(2) by (simp add: power_add)
qed

lemma bv_const_literal:
  assumes "bv_lit x w" "bv_lit y v" "if op = BvConcat then w + v < 2 ^ 32 else w = v"
  shows "(\<exists>t. bv_const op x w y v = BoolConst t) \<and> op \<noteq> BvConcat \<and> op \<notin> set arithmetic \<or>
    (\<exists>n. bv_const op x w y v = BitVecConst n (if op = BvConcat then w + v else w) \<and>
       bv_lit n (if op = BvConcat then w + v else w)) \<and> op \<in> set arithmetic"
proof -
  have range: "x < 2 ^ w" "y < 2 ^ v" "0 < w" "w < 2 ^ 32"
    using assms(1,2) by (simp_all add: bv_lit_def)
  note bounds = word_range bounded_bits concat_range
  show ?thesis
    using range assms(3) by (cases op) (simp_all add: arithmetic_def bv_lit_def bounds Let_def)
qed

lemma word_op_sort:
  assumes "bv_lit x w" "bv_lit y v" "if op = BvConcat then w + v < 2 ^ 32 else w = v"
  shows "has_sort (if op = BvConcat then SBitVec (w + v) else if op \<in> set arithmetic then SBitVec w else SBool)
    (word_op op (TBV x w) (TBV y v))"
  using bv_const_literal [OF assms] by (auto simp: word_op_def)

lemma field_val_sort:
  assumes "sorted_val u" "field_sort value_typing f u s"
  shows "has_sort s (field_val u f s)"
proof (cases "\<exists>d c vs k. u = TData d c vs \<and> field_index f = Some k \<and> k < length vs")
  case True
  then obtain d c vs k where u: "u = TData d c vs" "field_index f = Some k" "k < length vs"
    by blast
  then have vs: "list_all sorted_val vs" "(c, map sort_of_val vs) \<in> set (constructors_of (SDatatype d))"
    using assms(1) by (auto simp: list.pred_map comp_def dest: map_of_SomeD)
  then have "map sort_of_val vs ! k = s"
    using assms(2) u by (fastforce simp: value_typing_def)
  then have "has_sort s (vs ! k)"
    using vs(1) u(3) by (simp add: has_sort_def list_all_length)
  then show ?thesis
    using u by (simp add: field_val_def)
next
  case False
  then have "field_val u f s = default_val s"
    by (auto simp: field_val_def split: TVal.split option.split)
  then show ?thesis
    using assms(2) by (simp add: value_typing_def)
qed

lemma expr_sort_true: "typed_strict D \<rho> e \<Longrightarrow> has_sort (expr_sort e) (value_of \<rho> e)"
proof (induction e)
  case (Ite c a b)
  then have "has_sort (expr_sort a) (value_of \<rho> a)" "has_sort (expr_sort b) (value_of \<rho> b)"
      "sort_of_val (value_of \<rho> a) = sort_of_val (value_of \<rho> b)"
    by (simp_all add: strict_expand)
  then show ?case
    by (simp add: has_sort_def)
next
  case (Select a i)
  then obtain s f where "value_of \<rho> a = TArr (sort_of_val (value_of \<rho> i)) s f" "has_sort (expr_sort a) (value_of \<rho> a)"
    by (auto simp: strict_expand)
  then show ?case
    by (simp add: has_sort_array)
next
  case (Store a i v)
  then obtain k f where "value_of \<rho> a = TArr k (sort_of_val (value_of \<rho> v)) f" "has_sort (expr_sort a) (value_of \<rho> a)"
      "has_sort (expr_sort v) (value_of \<rho> v)"
    by (auto simp: strict_expand)
  then show ?case
    by (auto simp: has_sort_array) (simp add: has_sort_def)
next
  case (ConstArray k v)
  then show ?case
    by (simp add: strict_expand has_sort_array) (simp add: has_sort_def)
next
  case (Bv op a b)
  have strict: "typed_strict D \<rho> a" "typed_strict D \<rho> b"
    using strict_child [OF Bv.prems] by simp_all
  obtain x w y v where ops: "bits (values_in D) \<rho> a x w" "bits (values_in D) \<rho> b y v"
      "if op = BvConcat then w + v < 2 ^ 32 else w = v"
    using strict_node [OF Bv.prems] by (auto simp: node_strict_def)
  then show ?case
    using Bv.IH(1) [OF strict(1)] Bv.IH(2) [OF strict(2)] word_op_sort [of x w y v op] by (auto simp: typed_bits split: if_splits)
next
  case (DatatypeSelector d f a s)
  then show ?case
    by (auto simp: strict_expand has_sort_def [of "expr_sort a"] intro: field_val_sort)
next
  case (BvNot a)
  have "typed_strict D \<rho> a"
    using strict_child [OF BvNot.prems] by simp
  moreover obtain x w where "bits (values_in D) \<rho> a x w"
    using strict_node [OF BvNot.prems] by (auto simp: node_strict_def)
  ultimately show ?case
    using BvNot.IH word_range(2) [of w x] by (simp add: typed_bits word_map_def bv_lit_def)
next
  case (BvNeg a)
  have "typed_strict D \<rho> a"
    using strict_child [OF BvNeg.prems] by simp
  moreover obtain x w where "bits (values_in D) \<rho> a x w"
    using strict_node [OF BvNeg.prems] by (auto simp: node_strict_def)
  ultimately show ?case
    using BvNeg.IH word_range(1) [of w x] by (simp add: typed_bits word_map_def bv_lit_def)
next
  case (BvExtract a hi lo)
  obtain x w where "bits (values_in D) \<rho> a x w" "lo \<le> hi" "hi < w"
    using strict_node [OF BvExtract.prems] by (auto simp: node_strict_def)
  then show ?case
    by (simp add: typed_bits word_map_def bv_lit_def) linarith
next
  case (BvZeroExtend a n)
  have "typed_strict D \<rho> a"
    using strict_child [OF BvZeroExtend.prems] by simp
  moreover obtain x w where "bits (values_in D) \<rho> a x w" "w + n < 2 ^ 32"
    using strict_node [OF BvZeroExtend.prems] by (auto simp: node_strict_def)
  moreover have "x < 2 ^ w \<Longrightarrow> x < 2 ^ (w + n)"
    by (erule less_le_trans) (simp add: power_add)
  ultimately show ?case
    using BvZeroExtend.IH by (simp add: typed_bits word_map_def bv_lit_def)
next
  case (BvSignExtend a n)
  have "typed_strict D \<rho> a"
    using strict_child [OF BvSignExtend.prems] by simp
  moreover obtain x w where "bits (values_in D) \<rho> a x w" "w + n < 2 ^ 32"
    using strict_node [OF BvSignExtend.prems] by (auto simp: node_strict_def)
  moreover have "(2 :: nat) ^ w \<le> 2 ^ (w + n)"
    by (simp add: power_add)
  then have "x < 2 ^ w \<Longrightarrow> x < 2 ^ (w + n)" "x < 2 ^ w \<Longrightarrow> x + 2 ^ (w + n) - 2 ^ w < 2 ^ (w + n)"
    by linarith+
  ultimately show ?case
    using BvSignExtend.IH by (simp add: typed_bits word_map_def bv_lit_def)
next
  case (DatatypeConstructor d c es s)
  then show ?case
    by (simp add: strict_expand)
next
  case (FuncApp f es s)
  then show ?case
    using strict_node [OF FuncApp.prems] by (simp add: node_strict_def)
next
  case (OtherOp f es s)
  then show ?case
    using strict_node [OF OtherOp.prems] by (simp add: node_strict_def)
next
  case (Forall xs b ts)
  then show ?case
    using strict_node [OF Forall.prems] by (simp add: node_strict_def)
next
  case (Exists xs b ts)
  then show ?case
    using strict_node [OF Exists.prems] by (simp add: node_strict_def)
qed (simp_all add: has_sort_def)

interpretation typed: smt_checked "values_in D" one_sort value_bindings value_typing for D
proof unfold_locales
  fix \<rho> :: "string \<Rightarrow> TVal"
  show "is_index value_typing (val (values_in D) \<rho> a) u"
    if "is_array one_sort (val (values_in D) \<rho> a)" "is_index value_typing (val (values_in D) \<rho> (Store a i e)) u" for a i e u
    using that by auto
  show "field_sort value_typing f v s" if "field_sort value_typing f u s" "same_sort one_sort u v" for f u v s
    using that by (simp add: value_typing_def)
  show "in_sort value_typing (sort_of value_bindings e) (val (values_in D) \<rho> e)"
    if "strict_at (values_in D) one_sort value_typing \<rho> e" for e
    using expr_sort_true [OF that] by simp
qed (auto simp: has_sort_def typed_bits operator_val_def made_by_def)

end
