(* ===== verification/Straight_Safe.thy ===== *)
theory Straight_Safe
  imports Straight_Paths Straight_Values
begin

text \<open>
  Soundness of the straight-line prover: the frames it finds cover every derivable fact, so that a proved system derives
  no error and its discharge keeps the verdict.  It needs that names shared by a frame and a rule mean the same
  (hygienic); a system with a reachable error that is proved safe shows that the code does not ensure it.
\<close>

section \<open>The enumeration is closed\<close>

definition closed_at :: "(Rule \<Rightarrow> Frame \<Rightarrow> StepResult) \<Rightarrow> reach \<Rightarrow> Rule \<Rightarrow> Frame \<Rightarrow> bool" where
  "closed_at step R r f \<longleftrightarrow> step r f = Pruned \<or> (\<exists>g. step r f = Reaches g \<and> g \<in> set (bt_get_or [] R (head_name r)))"

definition closed_under :: "(Rule \<Rightarrow> Frame \<Rightarrow> StepResult) \<Rightarrow> Rule list \<Rightarrow> reach \<Rightarrow> bool" where
  "closed_under step rs R \<longleftrightarrow> (\<forall>r \<in> set rs. \<forall>f \<in> set (frames_at R (body_relation r)). closed_at step R r f)"

lemma insert_frame_step:
  "insert_frame p g s = Some t \<Longrightarrow> t = s \<and> g \<in> set (bt_get_or [] (reachable s) p) \<or> changed t \<and> worklist t \<noteq> []"
  by (auto simp: insert_frame_def Let_def split: if_splits)

lemma over_frames_keep:
  assumes "over_frames step p fs s = Some s'" "changed s" "worklist s \<noteq> []"
  shows "changed s' \<and> worklist s' \<noteq> []"
  using assms
proof (induction fs arbitrary: s)
  case (Cons f fs)
  show ?case
  proof (cases "step f")
    case (Reaches g)
    then obtain t where t: "insert_frame p g s = Some t" "over_frames step p fs t = Some s'"
      using Cons.prems(1) by (auto simp: bind_eq_Some_conv)
    show ?thesis
      using insert_frame_step [OF t(1)] Cons.IH [OF t(2)] Cons.prems(2,3) by blast
  qed (use Cons in simp_all)
qed simp

lemma over_frames_step:
  assumes "over_frames (step r) (head_name r) fs s = Some s'"
  shows "s' = s \<and> (\<forall>f \<in> set fs. closed_at step (reachable s) r f) \<or> changed s' \<and> worklist s' \<noteq> []"
  using assms
proof (induction fs arbitrary: s)
  case (Cons f fs)
  show ?case
  proof (cases "step r f")
    case (Reaches g)
    then obtain t where t: "insert_frame (head_name r) g s = Some t" "over_frames (step r) (head_name r) fs t = Some s'"
      using Cons.prems by (auto simp: bind_eq_Some_conv)
    from insert_frame_step [OF t(1)] show ?thesis
      using Cons.IH [OF t(2)] over_frames_keep [OF t(2)] Reaches by (auto simp: closed_at_def)
  next
    case Pruned
    then show ?thesis
      using Cons by (auto simp: closed_at_def)
  qed (use Cons.prems in simp)
qed simp

lemma over_rules_keep:
  assumes "over_rules step rs s = Some s'" "changed s" "worklist s \<noteq> []"
  shows "changed s' \<and> worklist s' \<noteq> []"
  using assms
proof (induction rs arbitrary: s)
  case (Cons r rs)
  then obtain t where t: "over_frames (step r) (head_name r) (frames_at (reachable s) (body_relation r)) s = Some t"
      "over_rules step rs t = Some s'"
    by (auto simp: bind_eq_Some_conv)
  show ?case
    using over_frames_keep [OF t(1) Cons.prems(2,3)] Cons.IH [OF t(2)] by blast
qed simp

lemma over_rules_step:
  assumes "over_rules step rs s = Some s'"
  shows "s' = s \<and> closed_under step rs (reachable s) \<or> changed s' \<and> worklist s' \<noteq> []"
  using assms
proof (induction rs arbitrary: s)
  case (Cons r rs)
  then obtain t where t: "over_frames (step r) (head_name r) (frames_at (reachable s) (body_relation r)) s = Some t"
      "over_rules step rs t = Some s'"
    by (auto simp: bind_eq_Some_conv)
  from over_frames_step [of step r, OF t(1)] show ?case
    using Cons.IH [OF t(2)] over_rules_keep [OF t(2)] by (auto simp: closed_under_def)
qed (simp add: closed_under_def)

lemma search_closed:
  assumes "search_rounds step rs s = Some s'"
  shows "closed_under step rs (reachable s')"
  using assms
proof (induction step rs s rule: search_rounds.induct)
  case (1 step rs s)
  obtain t where small: "\<not> MAX_TOTAL_FRAMES < total_frames s" and t: "over_rules step rs (s\<lparr>changed := False\<rparr>) = Some t"
    using 1(2) by (subst (asm) search_rounds.simps) (auto split: if_splits option.splits)
  from over_rules_step [OF t] show ?case
  proof (elim disjE conjE)
    assume same: "t = s\<lparr>changed := False\<rparr>" "closed_under step rs (reachable (s\<lparr>changed := False\<rparr>))"
    then have "s' = t"
      using 1(2) small t by (subst (asm) search_rounds.simps) simp
    with same show ?thesis
      by simp
  next
    assume t': "changed t" "worklist t \<noteq> []"
    then obtain w ws where "worklist t = w # ws"
      by (cases "worklist t") simp_all
    then show ?thesis
      using 1(1) [OF small t] 1(2) small t t' by (subst (asm) (2) search_rounds.simps) simp
  qed
qed

lemma enumerate_closed:
  assumes "enumerate_frames B ok depth vc = Some R"
  shows "closed_under (fire_rule B ok depth (relations vc)) (rules vc) R"
  using assms search_closed by (auto simp: enumerate_frames_def)

section \<open>What a frame stands for\<close>

definition bound_vars :: "bound list \<Rightarrow> string set" where
  "bound_vars bs = (\<Union>(e, b, w) \<in> set bs. expr_vars e)"

definition facts_vars :: "PathFacts \<Rightarrow> string set" where
  "facts_vars F = (\<Union>(a, b) \<in> set (disequalities F). expr_vars a \<union> expr_vars b) \<union>
     bound_vars (unsigned_upper_bounds F) \<union> bound_vars (unsigned_lower_bounds F)"

definition frame_vars :: "Frame \<Rightarrow> string set" where
  "frame_vars f = (\<Union>a \<in> set (frame_args f). expr_vars a) \<union> facts_vars (frame_facts f)"

definition rule_vars :: "Rule \<Rightarrow> string set" where
  "rule_vars r = (\<Union>c \<in> set (body_constraints r). expr_vars c) \<union> (\<Union>a \<in> set (rule_apps r). \<Union>e \<in> set (app_args a). expr_vars e)"

text \<open>
  A frame represents a list of values when its arguments have these values at an assignment at which its facts hold.
\<close>

definition represents :: "'v smt \<Rightarrow> 'v sorts \<Rightarrow> 'v typing \<Rightarrow> (string \<Rightarrow> 'v) \<Rightarrow> Frame \<Rightarrow> 'v list \<Rightarrow> bool" where
  "represents M S T \<rho> f vs \<longleftrightarrow>
     facts_hold M \<rho> (frame_facts f) \<and> (\<forall>a \<in> set (frame_args f). strict_at M S T \<rho> a) \<and> map (val M \<rho>) (frame_args f) = vs"

definition covers :: "'v smt \<Rightarrow> 'v sorts \<Rightarrow> 'v typing \<Rightarrow> Frame \<Rightarrow> 'v list \<Rightarrow> bool" where
  "covers M S T f vs \<longleftrightarrow> (\<exists>\<rho>. fits M \<rho> \<and> represents M S T \<rho> f vs)"

text \<open>
  A name that occurs in a frame and in a rule is read from the frame's argument of that name, or kept equal to it by the
  constraints of the rule.
\<close>

definition hygienic :: "'v smt \<Rightarrow> Rule \<Rightarrow> Frame \<Rightarrow> bool" where
  "hygienic M r f \<longleftrightarrow>
     (\<forall>y \<in> rule_vars r \<inter> frame_vars f. \<exists>a i. body_relation r = Some a \<and> i < length (app_args a) \<and> i < length (frame_args f) \<and>
        var_of (frame_args f ! i) = Some y \<and> (\<forall>\<rho>. fires M \<rho> r \<longrightarrow> \<rho> y = val M \<rho> (app_args a ! i)))"

text \<open>The terms of a rule are strictly sorted at every assignment of values of the declared sorts.\<close>

definition rule_strict :: "'v smt \<Rightarrow> 'v sorts \<Rightarrow> 'v typing \<Rightarrow> Rule \<Rightarrow> bool" where
  "rule_strict M S T r \<longleftrightarrow>
     (\<forall>\<rho>. fits M \<rho> \<longrightarrow> (\<forall>e \<in> set (body_constraints r) \<union> set (app_args (head r)). strict_at M S T \<rho> e))"

lemma facts_hold_same:
  assumes "smt_model M" "\<And>x. x \<in> facts_vars F \<Longrightarrow> \<sigma> x = \<rho> x" "facts_hold M \<rho> F"
  shows "facts_hold M \<sigma> F"
proof -
  have same: "val M \<sigma> e = val M \<rho> e" if "expr_vars e \<subseteq> facts_vars F" for e
    using that assms(2) by (intro smt_model.val_cong [OF assms(1)]) blast
  have const: "val M \<sigma> (BitVecConst n w) = val M \<rho> (BitVecConst n w)" for n w
    by (rule same) simp
  have bits: "bits M \<sigma> e = bits M \<rho> e" if "expr_vars e \<subseteq> facts_vars F" for e
    using same [OF that] const by (intro ext) (simp add: bits_def)
  have "val M \<sigma> a \<noteq> val M \<sigma> b" if "(a, b) \<in> set (disequalities F)" for a b
  proof -
    have "expr_vars a \<subseteq> facts_vars F" "expr_vars b \<subseteq> facts_vars F"
      using that by (auto simp: facts_vars_def)
    moreover have "val M \<rho> a \<noteq> val M \<rho> b"
      using assms(3) that unfolding facts_hold_def by blast
    ultimately show ?thesis
      using same by simp
  qed
  moreover have "bounded_above M \<sigma> (e, b, w)" if "(e, b, w) \<in> set (unsigned_upper_bounds F)" for e b w
  proof -
    have "expr_vars e \<subseteq> facts_vars F"
      using that by (auto simp: facts_vars_def bound_vars_def)
    moreover have "bounded_above M \<rho> (e, b, w)"
      using assms(3) that by (simp add: facts_hold_def)
    ultimately show ?thesis
      using bits by (simp add: bounded_above_def)
  qed
  moreover have "bounded_below M \<sigma> (e, b, w)" if "(e, b, w) \<in> set (unsigned_lower_bounds F)" for e b w
  proof -
    have "expr_vars e \<subseteq> facts_vars F"
      using that by (auto simp: facts_vars_def bound_vars_def)
    moreover have "bounded_below M \<rho> (e, b, w)"
      using assms(3) that by (simp add: facts_hold_def)
    ultimately show ?thesis
      using bits by (simp add: bounded_below_def)
  qed
  ultimately show ?thesis
    unfolding facts_hold_def by (intro conjI ballI) (simp_all only: split_paired_all prod.case not_False_eq_True)
qed

lemma represents_same:
  assumes "smt_model M" "\<And>x. x \<in> frame_vars f \<Longrightarrow> \<sigma> x = \<rho> x" "represents M S T \<rho> f vs"
  shows "represents M S T \<sigma> f vs"
proof -
  have agree: "\<sigma> x = \<rho> x" if "a \<in> set (frame_args f)" "x \<in> expr_vars a" for a x
    using that by (intro assms(2)) (auto simp: frame_vars_def)
  have "val M \<sigma> a = val M \<rho> a" if "a \<in> set (frame_args f)" for a
    by (rule smt_model.val_cong [OF assms(1)]) (rule agree [OF that])
  then have "map (val M \<sigma>) (frame_args f) = map (val M \<rho>) (frame_args f)"
    by (rule map_cong [OF refl])
  moreover have "strict_at M S T \<sigma> a" if "a \<in> set (frame_args f)" for a
  proof -
    have "strict_at M S T \<sigma> a = strict_at M S T \<rho> a"
      by (rule strict_same [OF assms(1)]) (rule agree [OF that])
    with assms(3) that show ?thesis
      by (simp add: represents_def)
  qed
  moreover have "facts_hold M \<sigma> (frame_facts f)"
  proof (rule facts_hold_same [OF assms(1)])
    show "facts_hold M \<rho> (frame_facts f)"
      using assms(3) by (simp add: represents_def)
  qed (rule assms(2), simp add: frame_vars_def)
  ultimately show ?thesis
    using assms(3) unfolding represents_def by simp
qed

text \<open>At a hygienic pair the assignments of the rule and of the frame can be joined.\<close>

lemma joined_assignment:
  assumes "smt_model M" "hygienic M r f" "fires M \<rho> r" "fits M \<tau>" "represents M S T \<tau> f vs"
    and "\<And>a. body_relation r = Some a \<Longrightarrow> args_val M \<rho> a = vs"
  obtains \<sigma> where "fits M \<sigma>" "represents M S T \<sigma> f vs" "\<And>x. x \<in> rule_vars r \<Longrightarrow> \<sigma> x = \<rho> x"
proof
  let ?\<sigma> = "\<lambda>x. if x \<in> frame_vars f then \<tau> x else \<rho> x"
  show "fits M ?\<sigma>"
    using assms(3,4) by (simp add: fits_def fires_def)
  show "represents M S T ?\<sigma> f vs"
    using assms(5) by (rule represents_same [OF assms(1), rotated]) simp
  show "?\<sigma> y = \<rho> y" if y: "y \<in> rule_vars r" for y
  proof (cases "y \<in> frame_vars f")
    case True
    then obtain a i where a: "body_relation r = Some a" "i < length (app_args a)" "i < length (frame_args f)"
        "var_of (frame_args f ! i) = Some y" "\<rho> y = val M \<rho> (app_args a ! i)"
      using assms(2,3) y unfolding hygienic_def by blast
    have "val M \<rho> (app_args a ! i) = vs ! i"
      using assms(6) [OF a(1)] a(2) by (auto simp: args_val_def)
    also have "\<dots> = val M \<tau> (frame_args f ! i)"
      using assms(5) a(3) by (auto simp: represents_def)
    also have "\<dots> = \<tau> y"
      using a(4) smt_model.val_Var [OF assms(1)] by (auto simp: var_of_Some)
    finally show ?thesis
      using True a(5) by simp
  qed simp
qed

section \<open>The frames cover the derivable facts\<close>

context smt_checked
begin

lemma smt_model_here: "smt_model M"
  by (rule smt_model_axioms)

lemma bind_args_env:
  assumes "bind_args B as vs env = Some env'" "env_ok \<rho> env" "map (val M \<rho>) as = map (val M \<rho>) vs" "\<forall>v \<in> set vs. strict \<rho> v"
  shows "env_ok \<rho> env'"
  using assms
proof (induction B as vs env rule: bind_args.induct)
  case (1 B' a as v vs env)
  then obtain x s where a: "a = Var x s"
    by (auto simp: var_of_Some split: option.splits)
  have v: "val M \<rho> v = \<rho> x" "strict \<rho> v"
    using 1(4,5) by (simp_all add: a val_Var)
  show ?case
    using 1(1) [of x] 1(2,4,5) env_holds_insert [OF 1(3) v] by (simp add: a split: if_splits)
qed simp_all

lemma fire_rule_covers:
  assumes "rule_strict M S T r" "hygienic M r f" "fires M \<rho> r" "covers M S T f vs"
    and body: "case body_relation r of None \<Rightarrow> f = start_frame | Some a \<Rightarrow> args_val M \<rho> a = vs"
  shows "fire_rule B ok depth ds r f \<noteq> Pruned"
    and "fire_rule B ok depth ds r f = Reaches g \<Longrightarrow> covers M S T g (args_val M \<rho> (head r)) \<and> head_name r \<noteq> ''error''"
proof -
  obtain \<tau> where \<tau>: "fits M \<tau>" "represents M S T \<tau> f vs"
    using assms(4) by (auto simp: covers_def)
  obtain \<sigma> where \<sigma>: "fits M \<sigma>" "represents M S T \<sigma> f vs" "\<And>x. x \<in> rule_vars r \<Longrightarrow> \<sigma> x = \<rho> x"
  proof (rule joined_assignment [OF smt_model_here assms(2,3) \<tau>])
    show "args_val M \<rho> a = vs" if "body_relation r = Some a" for a
      using body that by simp
  qed blast
  have same: "val M \<sigma> e = val M \<rho> e" if "expr_vars e \<subseteq> rule_vars r" for e
    using that \<sigma>(3) by (intro val_cong) blast
  have cs: "\<forall>c \<in> set (body_constraints r). strict \<sigma> c \<and> holds M \<sigma> c"
  proof
    fix c
    assume c: "c \<in> set (body_constraints r)"
    then have "val M \<sigma> c = val M \<rho> c"
      by (intro same) (auto simp: rule_vars_def)
    with c show "strict \<sigma> c \<and> holds M \<sigma> c"
      using assms(1,3) \<sigma>(1) by (simp add: rule_strict_def fires_def holds_def)
  qed
  have args: "val M \<sigma> e = val M \<rho> e" if "a \<in> set (rule_apps r)" "e \<in> set (app_args a)" for a e
    using that by (intro same) (auto simp: rule_vars_def)
  have env: "env_ok \<sigma> env" if env: "initial_env B (body_relation r) f = Some env" for env
  proof (cases "body_relation r")
    case None
    then show ?thesis
      using env by (simp add: initial_env_def env_holds_def)
  next
    case (Some a)
    have "map (val M \<sigma>) (app_args a) = map (val M \<rho>) (app_args a)"
      using args [of a] Some by (simp add: rule_apps_def)
    also have "\<dots> = map (val M \<sigma>) (frame_args f)"
      using body \<sigma>(2) by (simp add: Some args_val_def represents_def)
    finally show ?thesis
      using bind_args_env [of "app_args a" "frame_args f" "[]" env \<sigma>] env \<sigma>(2)
      by (simp add: initial_env_def Some env_holds_def represents_def)
  qed
  have stepped: "steps_ok \<sigma> (apply_constraints B ok depth (body_constraints r) (env, frame_facts f))"
    if "initial_env B (body_relation r) f = Some env" for env
    using env [OF that] \<sigma>(2) by (intro apply_constraints_advances [OF \<sigma>(1) _ cs]) (simp add: path_holds_def represents_def)
  show "fire_rule B ok depth ds r f \<noteq> Pruned"
  proof (cases "initial_env B (body_relation r) f")
    case (Some env)
    obtain s env' F where run: "apply_constraints B ok depth (body_constraints r) (env, frame_facts f) = (s, env', F)"
      by (metis prod_cases3)
    have "s \<noteq> Infeasible"
      using stepped [OF Some] by (simp add: run advances_def)
    then show ?thesis
      by (cases s) (simp_all add: fire_rule_def Some run split: option.split)
  qed (simp add: fire_rule_def)
  assume reaches: "fire_rule B ok depth ds r f = Reaches g"
  then obtain env env' F as where run: "initial_env B (body_relation r) f = Some env"
      "apply_constraints B ok depth (body_constraints r) (env, frame_facts f) = (Feasible, env', F)"
      "head_name r \<noteq> ''error''"
      "those (map (\<lambda>a. do { a' \<leftarrow> substitute B env' depth a; simplify_with_facts B ok F depth a' }) (app_args (head r))) = Some as"
      "g = \<lparr> frame_args = as, frame_facts = F \<rparr>"
    by (auto simp: fire_rule_def split: option.splits prod.splits ConstraintStatus.splits if_splits)
  have path: "env_ok \<sigma> env'" "facts_hold M \<sigma> F"
    using stepped [OF run(1)] by (simp_all add: run(2) advances_def path_holds_def)
  have step: "sound \<sigma> (\<lambda>a. do { a' \<leftarrow> substitute B env' depth a; simplify_with_facts B ok F depth a' })"
    unfolding sound_def using soundD [OF env_substitute_sound [OF path(1)]] soundD [OF simplify_gives [OF \<sigma>(1) path(2)]]
    by (simp add: bind_eq_Some_conv) metis
  have heads: "\<forall>e \<in> set (app_args (head r)). strict \<sigma> e"
    using assms(1) \<sigma>(1) by (simp add: rule_strict_def)
  have kept: "list_all2 (kept \<sigma>) (app_args (head r)) as"
    by (rule those_kept [OF step heads run(4)])
  have "map (val M \<sigma>) as = map (val M \<sigma>) (app_args (head r))" "\<forall>a \<in> set as. strict \<sigma> a"
    using kept by (induction rule: list_all2_induct) simp_all
  moreover have "map (val M \<sigma>) (app_args (head r)) = args_val M \<rho> (head r)"
    using args [of "head r"] by (simp add: rule_apps_def args_val_def)
  ultimately show "covers M S T g (args_val M \<rho> (head r)) \<and> head_name r \<noteq> ''error''"
    using \<sigma>(1) path(2) run(3) by (auto simp: covers_def represents_def run(5))
qed

lemma derived_covered:
  assumes "closed_under (fire_rule B ok depth ds) rs R" "\<And>r. r \<in> set rs \<Longrightarrow> rule_strict M S T r"
    and "\<And>r f. r \<in> set rs \<Longrightarrow> f \<in> set (frames_at R (body_relation r)) \<Longrightarrow> hygienic M r f"
    and "derives M rs p vs"
  shows "p \<noteq> ''error'' \<and> (\<exists>f \<in> set (bt_get_or [] R p). covers M S T f vs)"
proof -
  have step: "head_name r \<noteq> ''error'' \<and> (\<exists>g \<in> set (bt_get_or [] R (head_name r)). covers M S T g (args_val M \<rho> (head r)))"
    if r: "r \<in> set rs" "fires M \<rho> r" and f: "f \<in> set (frames_at R (body_relation r))" "covers M S T f us"
      and body: "case body_relation r of None \<Rightarrow> f = start_frame | Some a \<Rightarrow> args_val M \<rho> a = us" for r \<rho> f us
  proof -
    note fired = fire_rule_covers [OF assms(2) [OF r(1)] assms(3) [OF r(1) f(1)] r(2) f(2) body, of ok depth ds]
    have "closed_at (fire_rule B ok depth ds) R r f"
      using assms(1) r(1) f(1) unfolding closed_under_def by blast
    then obtain g where "fire_rule B ok depth ds r f = Reaches g" "g \<in> set (bt_get_or [] R (head_name r))"
      using fired(1) by (auto simp: closed_at_def)
    then show ?thesis
      using fired(2) by blast
  qed
  from assms(4) show ?thesis
  proof (induction rule: derives.induct)
    case (fact r \<rho>)
    have "covers M S T start_frame []"
      using fact(2) by (auto simp: covers_def represents_def start_frame_def fires_def)
    then show ?case
      using step [OF fact(1,2)] fact(3) by (simp add: frames_at_def)
  next
    case (rule r \<rho> a)
    then obtain f where "f \<in> set (bt_get_or [] R (app_name a))" "covers M S T f (args_val M \<rho> a)"
      by blast
    then show ?case
      using step [OF rule(1,2)] rule(3) by (simp add: frames_at_def)
  qed
qed

end

section \<open>Proved systems are safe\<close>

lemma sound_verdict:
  assumes "smt_checked M S B T" "prove_straightline_safety_detailed B ok depth vc \<noteq> NotProven"
    and "enumerate_frames B ok depth vc = Some R" "\<And>r. r \<in> set (rules vc) \<Longrightarrow> rule_strict M S T r"
    and "\<And>r f. r \<in> set (rules vc) \<Longrightarrow> f \<in> set (frames_at R (body_relation r)) \<Longrightarrow> hygienic M r f"
  shows "\<not> derives M (rules vc) ''error'' vs"
    and "prove_straightline_safety_detailed B ok depth vc = VacuousUnreachableChecks \<Longrightarrow> p \<in> set (sinks (rules vc)) \<Longrightarrow>
      \<not> derives M (rules vc) p us"
proof -
  have covered: "p \<noteq> ''error'' \<and> (\<exists>f \<in> set (bt_get_or [] R p). covers M S T f ts)" if "derives M (rules vc) p ts" for p ts
    using smt_checked.derived_covered [OF assms(1) enumerate_closed [OF assms(3)] assms(4,5) that] .
  show "\<not> derives M (rules vc) ''error'' vs"
    using covered by blast
  assume "prove_straightline_safety_detailed B ok depth vc = VacuousUnreachableChecks" "p \<in> set (sinks (rules vc))"
  then have "bt_get_or [] R p = []"
    using assms(3) by (auto simp: prove_straightline_safety_detailed_def split: if_splits)
  with covered show "\<not> derives M (rules vc) p us"
    by fastforce
qed

text \<open>C19: A system the straight-line prover proves derives no error: over every interpretation of the SMT-LIB language (laws
smt_checked) in which the terms of the rules are well sorted, when every name shared by a rule and a frame it is applied
to denotes the same value (hygienic), a verdict other than NotProven means that no fact of the relation error is
derivable, at any recursion depth and whatever the checked constructors refuse, although only one frame per path shape is
kept and loops are closed by equality of frames; a vacuous verdict means in addition that no relation without a
successor is ever entered.\<close>

theorem straightline_sound:
  assumes "smt_checked M S B T" "prove_straightline_safety_detailed B ok depth vc \<noteq> NotProven"
    and "enumerate_frames B ok depth vc = Some R" "\<And>r. r \<in> set (rules vc) \<Longrightarrow> rule_strict M S T r"
    and "\<And>r f. r \<in> set (rules vc) \<Longrightarrow> f \<in> set (frames_at R (body_relation r)) \<Longrightarrow> hygienic M r f"
  shows "\<not> derives M (rules vc) ''error'' vs \<and>
    (prove_straightline_safety_detailed B ok depth vc = VacuousUnreachableChecks \<longrightarrow>
      (\<forall>p \<in> set (sinks (rules vc)). \<not> derives M (rules vc) p us))"
  using sound_verdict [OF assms] by blast

text \<open>C20: Discharging a system keeps its verdict: under the same conditions the relation error is derivable in the system
discharge_straightline_safety leaves exactly when it is derivable in the system it is given, the system is left alone
unless the caller is told that it was discharged, and a system whose properties were registered but whose error rules
are gone is never discharged.\<close>

theorem discharge_keeps_verdict:
  assumes "smt_checked M S B T" "\<And>r. r \<in> set (rules vc) \<Longrightarrow> rule_strict M S T r"
    and "\<And>R r f. enumerate_frames B ok depth vc = Some R \<Longrightarrow> r \<in> set (rules vc) \<Longrightarrow> f \<in> set (frames_at R (body_relation r)) \<Longrightarrow>
      hygienic M r f"
    and "discharge_straightline_safety B ok depth vc = (b, vc')"
  shows "((\<exists>vs. derives M (rules vc') ''error'' vs) \<longleftrightarrow> (\<exists>vs. derives M (rules vc) ''error'' vs)) \<and>
    (\<not> b \<longrightarrow> vc' = vc) \<and> (b \<longrightarrow> trivially_safe_discharged vc') \<and> (properties vc \<noteq> [] \<and> \<not> has_error_rule vc \<longrightarrow> \<not> b)"
proof (cases b)
  case False
  then have "vc' = vc"
    using assms(4) by (auto simp: discharge_straightline_safety_def discharge_result_def split: if_splits StraightlineOutcome.splits)
  with False show ?thesis
    by simp
next
  case True
  have model: "smt_model M"
    using smt_checked.smt_model_here [OF assms(1)] .
  have vc': "rules vc' = [\<lparr> body = body_new None [BoolConst False], head = \<lparr> app_name = ''error'', app_args = [] \<rparr> \<rparr>]"
      "trivially_safe_discharged vc'" "properties vc = [] \<or> has_error_rule vc"
    using assms(4) True by (auto simp: discharge_straightline_safety_def discharge_result_def replace_with_unsat_error_obligation_def
        split: if_splits StraightlineOutcome.splits)
  have "\<not> derives M (rules vc') p vs" for p vs
    using smt_model.holds_BoolConst [OF model] unfolding vc'(1) by (subst derives_iff) (simp add: fires_def body_new_def)
  moreover have "\<not> derives M (rules vc) ''error'' vs" for vs
  proof (cases "has_error_rule vc")
    case True
    then have proved: "prove_straightline_safety_detailed B ok depth vc \<noteq> NotProven"
      using assms(4) \<open>b\<close> by (auto simp: discharge_straightline_safety_def)
    then obtain R where R: "enumerate_frames B ok depth vc = Some R"
      by (auto simp: prove_straightline_safety_detailed_def split: if_splits option.splits)
    show ?thesis
      using sound_verdict [OF assms(1) proved R assms(2) assms(3) [OF R]] by blast
  next
    case False
    then show ?thesis
      using derives_headed by (fastforce simp: has_error_rule_def)
  qed
  ultimately show ?thesis
    using True vc'(2,3) by blast
qed

section \<open>The simplifier keeps values\<close>

text \<open>C21: The simplifier of the straight-line prover is value-preserving under the facts of a path: over every interpretation
of the SMT-LIB language (laws smt_checked), at every assignment at which the recorded disequalities and unsigned bounds
hold and the term is well sorted, the term simplify_with_facts returns, at any recursion depth and whatever the checked
constructors refuse, has the value of the original term and is well sorted: folded words of up to 128 bits, comparisons
decided by a bound, products proved to fit, reads through stores told apart by a disequality, flattened connectives,
conditionals turned into connectives and selectors pushed into branches alike.\<close>

theorem simplify_with_facts_sound:
  assumes "smt_checked M S B T" "fits M \<rho>" "facts_hold M \<rho> F" "strict_at M S T \<rho> e" "simplify_with_facts B ok F depth e = Some e'"
  shows "val M \<rho> e' = val M \<rho> e \<and> strict_at M S T \<rho> e'"
  using smt_checked.simplify_gives [OF assms(1-3)] assms(4,5) by (auto simp: smt_checked.sound_def [OF assms(1)])

section \<open>Declarations, terms and systems of the examples\<close>

text \<open>An array of bytes, a flag, and bytes: every variable ranges over the values of its sort.\<close>

definition declared_sort :: "string \<Rightarrow> Sort" where
  "declared_sort x = (if x = ''a'' then SArray (SBitVec 8) (SBitVec 8) else if x = ''p'' then SBool else SBitVec 8)"

definition declared :: "string \<Rightarrow> TVal set" where
  "declared x = {u. has_sort (declared_sort x) u}"

abbreviation example_smt :: "TVal smt" where
  "example_smt \<equiv> values_in declared"

abbreviation example_strict :: "(string \<Rightarrow> TVal) \<Rightarrow> Expr \<Rightarrow> bool" where
  "example_strict \<equiv> typed_strict declared"

definition byte :: "string \<Rightarrow> Expr" where
  "byte x = Var x (SBitVec 8)"

definition flag :: "string \<Rightarrow> Expr" where
  "flag x = Var x SBool"

definition relation_app :: "string \<Rightarrow> string list \<Rightarrow> RelationApp" where
  "relation_app p xs = \<lparr> app_name = p, app_args = map byte xs \<rparr>"

definition clause :: "RelationApp option \<Rightarrow> Expr list \<Rightarrow> RelationApp \<Rightarrow> Rule" where
  "clause b cs h = \<lparr> body = body_new b cs, head = h \<rparr>"

definition byte_system :: "(string \<times> nat) list \<Rightarrow> Rule list \<Rightarrow> ChcVc" where
  "byte_system ds rs = new_vc\<lparr> relations := map (\<lambda>(p, n). \<lparr> rel_name = p, arg_sorts = replicate n (SBitVec 8) \<rparr>) ds, rules := rs \<rparr>"

lemma fits_sort: "fits example_smt \<rho> \<Longrightarrow> has_sort (declared_sort x) (\<rho> x)"
  by (simp add: fits_def declared_def)

lemma has_sort_byte: "has_sort (SBitVec 8) u \<longleftrightarrow> (\<exists>n. u = TBV n 8 \<and> n < 2 ^ 8)"
  by (cases u) (auto simp: has_sort_def bv_lit_def)

lemma fits_byte: "fits example_smt \<rho> \<Longrightarrow> declared_sort x = SBitVec 8 \<Longrightarrow> \<exists>n. \<rho> x = TBV n 8 \<and> n < 2 ^ 8"
  using fits_sort [of \<rho> x] by (simp add: has_sort_byte)

lemma fits_bytes:
  assumes "\<And>x. declared_sort x = SBitVec 8 \<Longrightarrow> \<exists>n. \<rho> x = TBV n 8 \<and> n < 2 ^ 8" "\<exists>t. \<rho> ''p'' = TB t"
    and "has_sort (SArray (SBitVec 8) (SBitVec 8)) (\<rho> ''a'')"
  shows "fits example_smt \<rho>"
  using assms by (auto simp: fits_def declared_def declared_sort_def has_sort_byte)

lemma byte_value [simp]: "value_of \<rho> (byte x) = \<rho> x" "value_of \<rho> (flag x) = \<rho> x"
  by (simp_all add: byte_def flag_def)

lemma byte_strict [simp]:
  "strict_at (values_in D) S value_typing \<rho> (byte x) \<longleftrightarrow> has_sort (SBitVec 8) (\<rho> x)"
  "strict_at (values_in D) S value_typing \<rho> (flag x) \<longleftrightarrow> has_sort SBool (\<rho> x)"
  by (simp_all add: byte_def flag_def)

lemma strict_word:
  assumes "typed_strict D \<rho> a" "typed_strict D \<rho> b" "\<exists>x. bits (values_in D) \<rho> a x w" "\<exists>y. bits (values_in D) \<rho> b y w"
    and "op \<noteq> BvConcat"
  shows "typed_strict D \<rho> (Bv op a b)"
  using assms by (subst strict_at.simps) (auto simp: node_strict_def node_sorted_def typed_bits)

section \<open>A term that is simplified\<close>

definition bounded_sum :: Expr where
  "bounded_sum = And [Bv BvULe (byte ''x'') (BitVecConst 9 8),
     Or [Eq (Bv BvAdd (BitVecConst 200 8) (BitVecConst 100 8)) (BitVecConst 44 8), BoolConst False],
     Ite (flag ''p'') (BoolConst True) (BoolConst False),
     Eq (Bv BvAdd (byte ''x'') (Bv BvSub (BitVecConst 0 8) (BitVecConst 255 8)))
       (Select (Store (Var ''a'' (SArray (SBitVec 8) (SBitVec 8))) (BitVecConst 1 8) (byte ''y'')) (BitVecConst 1 8))]"

definition simplified_sum :: Expr where
  "simplified_sum = And [flag ''p'', Eq (Bv BvAdd (byte ''x'') (BitVecConst 1 8)) (byte ''y'')]"

definition bounded_x :: PathFacts where
  "bounded_x = add_unsigned_upper_bound (byte ''x'') 10 8 no_facts"

lemma bounded_sum_simplified:
  "simplify_with_facts value_bindings (\<lambda>e. True) bounded_x 10 bounded_sum = Some simplified_sum"
  by code_simp

definition nine :: "string \<Rightarrow> TVal" where
  "nine x = (if x = ''a'' then TArr (SBitVec 8) (SBitVec 8) (\<lambda>_. TBV 0 8) else if x = ''p'' then TB True else TBV 9 8)"

lemma nine_fits: "fits example_smt nine" "facts_hold example_smt nine bounded_x"
proof -
  show "fits example_smt nine"
    by (rule fits_bytes) (auto simp: nine_def declared_sort_def has_sort_array bv_lit_def split: if_splits)
  show "facts_hold example_smt nine bounded_x"
    by (simp add: nine_def facts_hold_def bounded_x_def add_unsigned_upper_bound_def no_facts_def bounded_above_def typed_bits bv_lit_def)
qed

lemma nine_strict: "example_strict nine bounded_sum"
  by (auto simp: bounded_sum_def strict_expand typed_boolean typed_bits bv_lit_def nine_def word_op_def bv_neg_def has_sort_array
      scalar_sort_def intro!: strict_word [where w = 8])

theorem simplify_with_facts_sound_witness:
  "value_of nine simplified_sum = value_of nine bounded_sum"
  using simplify_with_facts_sound [OF typed.smt_checked_axioms nine_fits nine_strict bounded_sum_simplified] by simp

section \<open>A system that is proved\<close>

text \<open>
  A bounded byte is handed on, by a loop as well, in the way the encoder names its variables, and checked at last; the
  first step also waits for a flag.
\<close>

definition small :: "string \<Rightarrow> Expr" where
  "small x = Bv BvULt (byte x) (BitVecConst 10 8)"

definition handed_on :: ChcVc where
  "handed_on = byte_system [(''bb0'', 1), (''bb1'', 1), (''error'', 0)]
     [clause None [flag ''p'', small ''x__out''] (relation_app ''bb0'' [''x__out'']),
      clause (Some (relation_app ''bb0'' [''x''])) [Eq (byte ''x__out'') (byte ''x'')] (relation_app ''bb1'' [''x__out'']),
      clause (Some (relation_app ''bb1'' [''x''])) [Eq (byte ''x__out'') (byte ''x'')] (relation_app ''bb1'' [''x__out'']),
      clause (Some (relation_app ''bb1'' [''x''])) [NotE (small ''x'')] (relation_app ''error'' [])]"

definition bounded_frame :: Frame where
  "bounded_frame = \<lparr> frame_args = [byte ''x__out''],
     frame_facts = \<lparr> disequalities = [], unsigned_upper_bounds = [(byte ''x__out'', 10, 8)], unsigned_lower_bounds = [] \<rparr> \<rparr>"

lemma handed_on_proved: "prove_straightline_safety_detailed value_bindings (\<lambda>e. True) 20 handed_on = Safe"
  by code_simp

lemma handed_on_frames:
  "enumerate_frames value_bindings (\<lambda>e. True) 20 handed_on = Some [(''bb0'', [bounded_frame]), (''bb1'', [bounded_frame])]"
  by code_simp

lemma declared_bytes [simp]: "declared_sort ''x'' = SBitVec 8" "declared_sort ''x__out'' = SBitVec 8" "declared_sort ''p'' = SBool"
  by (simp_all add: declared_sort_def)

lemma small_strict: "fits example_smt \<rho> \<Longrightarrow> declared_sort x = SBitVec 8 \<Longrightarrow> example_strict \<rho> (small x)"
  using fits_byte [of \<rho> x] by (auto simp: small_def typed_bits bv_lit_def intro!: strict_word [where w = 8])

lemma small_value: "value_of \<rho> (small x) = word_op BvULt (\<rho> x) (TBV 10 8)"
  by (simp add: small_def)

lemma small_boolean: "fits example_smt \<rho> \<Longrightarrow> declared_sort x = SBitVec 8 \<Longrightarrow> boolean example_smt \<rho> (small x)"
  using fits_byte [of \<rho> x] by (auto simp: typed_boolean small_value word_op_def)

lemma fits_sorts:
  assumes "fits example_smt \<rho>"
  shows "has_sort (SBitVec 8) (\<rho> ''x'')" "has_sort (SBitVec 8) (\<rho> ''x__out'')" "has_sort SBool (\<rho> ''p'')"
    "sort_of_val (\<rho> ''x__out'') = sort_of_val (\<rho> ''x'')"
proof -
  show sorts: "has_sort (SBitVec 8) (\<rho> ''x'')" "has_sort (SBitVec 8) (\<rho> ''x__out'')" "has_sort SBool (\<rho> ''p'')"
    using fits_sort [OF assms, of "''x''"] fits_sort [OF assms, of "''x__out''"] fits_sort [OF assms, of "''p''"] by simp_all
  show "sort_of_val (\<rho> ''x__out'') = sort_of_val (\<rho> ''x'')"
    using sorts(1,2) unfolding has_sort_byte by auto
qed

lemma handed_on_strict: "r \<in> set (rules handed_on) \<Longrightarrow> rule_strict example_smt one_sort value_typing r"
  using small_strict small_boolean fits_sorts
  by (auto simp: handed_on_def byte_system_def clause_def relation_app_def body_new_def rule_strict_def strict_expand)

lemma start_frame_vars: "frame_vars start_frame = {}"
  by (simp add: frame_vars_def start_frame_def facts_vars_def no_facts_def bound_vars_def)

lemma bounded_frame_vars: "frame_vars bounded_frame = {''x__out''}"
  by (simp add: frame_vars_def bounded_frame_def facts_vars_def bound_vars_def byte_def)

lemma passed_hygienic:
  "hygienic example_smt (clause (Some (relation_app p [''x''])) [Eq (byte ''x__out'') (byte ''x'')] h) bounded_frame"
  unfolding hygienic_def bounded_frame_vars
  by (auto simp: clause_def relation_app_def body_new_def fires_def holds_def bounded_frame_def byte_def intro!: exI [of _ 0])

lemma handed_on_hygienic:
  assumes "r \<in> set (rules handed_on)" "f \<in> set (frames_at [(''bb0'', [bounded_frame]), (''bb1'', [bounded_frame])] (body_relation r))"
  shows "hygienic example_smt r f"
proof -
  let ?error = "clause (Some (relation_app ''bb1'' [''x''])) [NotE (small ''x'')] (relation_app ''error'' [])"
  have f: "f = (if body_relation r = None then start_frame else bounded_frame)"
    using assms by (auto simp: handed_on_def byte_system_def clause_def relation_app_def body_new_def frames_at_def bt_get_or_def)
  have "hygienic example_smt ?error bounded_frame"
    by (simp add: hygienic_def bounded_frame_vars rule_vars_def rule_apps_def clause_def relation_app_def body_new_def small_def byte_def)
  moreover have "hygienic example_smt r start_frame"
    by (simp add: hygienic_def start_frame_vars)
  ultimately show ?thesis
    using assms(1) passed_hygienic unfolding f handed_on_def byte_system_def by (auto simp: clause_def body_new_def)
qed

text \<open>The system is not vacuously safe: its last block is entered.\<close>

lemma example_fits: "n < 2 ^ 8 \<Longrightarrow> m < 2 ^ 8 \<Longrightarrow>
    fits example_smt (\<lambda>x. if x = ''a'' then TArr (SBitVec 8) (SBitVec 8) (\<lambda>_. TBV 0 8) else if x = ''p'' then TB True
      else if x = ''x'' then TBV n 8 else TBV m 8)"
  by (rule fits_bytes) (auto simp: declared_sort_def has_sort_array bv_lit_def split: if_splits)

lemma handed_on_entered: "derives example_smt (rules handed_on) ''bb1'' [TBV 9 8]"
proof -
  let ?rs = "rules handed_on" and ?\<rho> = "\<lambda>x. if x = ''a'' then TArr (SBitVec 8) (SBitVec 8) (\<lambda>_. TBV 0 8)
    else if x = ''p'' then TB True else if x = ''x'' then TBV 9 8 else TBV 9 8"
  note defs = handed_on_def byte_system_def clause_def relation_app_def body_new_def
  have fits: "fits example_smt ?\<rho>"
    by (rule example_fits) simp_all
  have "derives example_smt ?rs ''bb0'' [TBV 9 8]"
    by (subst derives_iff, rule bexI [of _ "?rs ! 0"], rule exI [of _ ?\<rho>])
      (use fits in \<open>simp_all add: defs fires_def holds_def small_value word_op_def args_val_def\<close>)
  then show ?thesis
    by (subst derives_iff, intro bexI [of _ "?rs ! 1"] exI [of _ ?\<rho>])
      (use fits in \<open>simp_all add: defs fires_def holds_def args_val_def\<close>)
qed

theorem straightline_sound_witness:
  "\<not> derives example_smt (rules handed_on) ''error'' [] \<and> derives example_smt (rules handed_on) ''bb1'' [TBV 9 8]"
  using straightline_sound [OF typed.smt_checked_axioms _ handed_on_frames handed_on_strict handed_on_hygienic] handed_on_proved
    handed_on_entered by simp

theorem discharge_keeps_verdict_witness:
  "(\<exists>vs. derives example_smt (rules (snd (discharge_straightline_safety value_bindings (\<lambda>e. True) 20 handed_on))) ''error'' vs) \<longleftrightarrow>
    (\<exists>vs. derives example_smt (rules handed_on) ''error'' vs)"
proof -
  obtain b vc' where res: "discharge_straightline_safety value_bindings (\<lambda>e. True) 20 handed_on = (b, vc')"
    by (cases "discharge_straightline_safety value_bindings (\<lambda>e. True) 20 handed_on")
  have "hygienic example_smt r f" if "enumerate_frames value_bindings (\<lambda>e. True) 20 handed_on = Some R" "r \<in> set (rules handed_on)"
      "f \<in> set (frames_at R (body_relation r))" for R r f
    using that handed_on_hygienic by (simp add: handed_on_frames)
  from discharge_keeps_verdict [OF typed.smt_checked_axioms handed_on_strict this res] show ?thesis
    by (simp add: res)
qed

section \<open>A system that is proved and is not safe\<close>

text \<open>
  The byte is incremented on the way.  The fact recorded for the name x__out of the first frame is applied to the x__out
  of the second rule, which is another value.
\<close>

definition incremented :: ChcVc where
  "incremented = byte_system [(''bb0'', 1), (''bb1'', 1), (''error'', 0)]
     [clause None [small ''x__out''] (relation_app ''bb0'' [''x__out'']),
      clause (Some (relation_app ''bb0'' [''x''])) [Eq (byte ''x__out'') (Bv BvAdd (byte ''x'') (BitVecConst 1 8))]
        (relation_app ''bb1'' [''x__out'']),
      clause (Some (relation_app ''bb1'' [''x''])) [NotE (small ''x'')] (relation_app ''error'' [])]"

lemma incremented_proved: "prove_straightline_safety_detailed value_bindings (\<lambda>e. True) 20 incremented = Safe"
  by code_simp

lemma incremented_error: "derives example_smt (rules incremented) ''error'' []"
proof -
  let ?rs = "rules incremented" and ?\<rho> = "\<lambda>n m x. if x = ''a'' then TArr (SBitVec 8) (SBitVec 8) (\<lambda>_. TBV 0 8)
    else if x = ''p'' then TB True else if x = ''x'' then TBV n 8 else TBV m 8"
  note defs = incremented_def byte_system_def clause_def relation_app_def body_new_def
  have fits: "fits example_smt (?\<rho> 9 9)" "fits example_smt (?\<rho> 9 10)" "fits example_smt (?\<rho> 10 10)"
    by (rule example_fits; simp)+
  have "derives example_smt ?rs ''bb0'' [TBV 9 8]"
    by (subst derives_iff, rule bexI [of _ "?rs ! 0"], rule exI [of _ "?\<rho> 9 9"])
      (use fits in \<open>simp_all add: defs fires_def holds_def small_value word_op_def args_val_def\<close>)
  then have "derives example_smt ?rs ''bb1'' [TBV 10 8]"
    by (subst derives_iff, intro bexI [of _ "?rs ! 1"] exI [of _ "?\<rho> 9 10"])
      (use fits in \<open>simp_all add: defs fires_def holds_def word_op_def args_val_def\<close>)
  then show ?thesis
    by (subst derives_iff, intro bexI [of _ "?rs ! 2"] exI [of _ "?\<rho> 10 10"])
      (use fits in \<open>simp_all add: defs fires_def holds_def small_value word_op_def args_val_def\<close>)
qed

theorem shared_name_false_proof:
  "prove_straightline_safety value_bindings (\<lambda>e. True) 20 incremented \<and> derives example_smt (rules incremented) ''error'' []"
  using incremented_proved incremented_error by (simp add: prove_straightline_safety_def)

end
