(* ===== verification/Straight_Loops.thy ===== *)
theory Straight_Loops
  imports Straight_Proof
begin

text \<open>
  The loops the straight-line prover wants to see entered: loop_relations finds exactly the relations on a cycle of block
  relations.
\<close>

section \<open>One search\<close>

text \<open>What a search has expanded has its successors on the stack or expanded as well.\<close>

definition expanded_ok :: "(string, string list) btree \<Rightarrow> string \<Rightarrow> string list \<Rightarrow> string list \<Rightarrow> bool" where
  "expanded_ok E start stack seen \<longleftrightarrow> start \<notin> set seen \<and> edge_rel E `` set seen \<subseteq> set seen \<union> set stack"

lemma expanded_closed:
  assumes "expanded_ok E start [] seen" "n \<in> set seen"
  shows "(n, start) \<notin> (edge_rel E)\<^sup>*"
proof
  assume "(n, start) \<in> (edge_rel E)\<^sup>*"
  then have "start \<in> set seen"
    using assms(1,2) by (induction rule: rtrancl_induct) (auto simp: expanded_ok_def)
  with assms(1) show False
    by (simp add: expanded_ok_def)
qed

lemma loop_search_iff:
  assumes "expanded_ok E start stack seen"
  shows "loop_search E start stack seen \<longleftrightarrow> (\<exists>n \<in> set stack \<union> set seen. (n, start) \<in> (edge_rel E)\<^sup>*)"
  using assms
proof (induction E start stack seen rule: loop_search.induct)
  case (1 E start seen)
  then show ?case
    using expanded_closed by auto
next
  case (2 E start n stack seen)
  show ?case
  proof (cases "n = start")
    case True
    then show ?thesis
      by auto
  next
    case False
    show ?thesis
    proof (cases "n \<in> set seen")
      case True
      then have "expanded_ok E start stack seen"
        using 2(3) by (auto simp: expanded_ok_def)
      then show ?thesis
        using 2(1) [OF True] False True by auto
    next
      case new: False
      have "expanded_ok E start (rev (successors E n) @ stack) (n # seen)"
        using 2(3) False by (auto simp: expanded_ok_def edge_rel_def)
      then have "loop_search E start (n # stack) seen \<longleftrightarrow>
          (\<exists>m \<in> set (rev (successors E n) @ stack) \<union> set (n # seen). (m, start) \<in> (edge_rel E)\<^sup>*)"
        using 2(2) [OF new] False new by simp
      also have "\<dots> \<longleftrightarrow> (\<exists>m \<in> set (n # stack) \<union> set seen. (m, start) \<in> (edge_rel E)\<^sup>*)"
      proof -
        have "(n, start) \<in> (edge_rel E)\<^sup>*" if "m \<in> set (successors E n)" "(m, start) \<in> (edge_rel E)\<^sup>*" for m
          using that by (auto simp: edge_rel_def intro: converse_rtrancl_into_rtrancl)
        then show ?thesis
          by auto
      qed
      finally show ?thesis .
    qed
  qed
qed

lemma loop_search_start: "loop_search E p (rev (successors E p)) [] \<longleftrightarrow> (p, p) \<in> (edge_rel E)\<^sup>+"
proof -
  have "loop_search E p (rev (successors E p)) [] \<longleftrightarrow> (\<exists>n \<in> set (successors E p). (n, p) \<in> (edge_rel E)\<^sup>*)"
    using loop_search_iff [of E p "rev (successors E p)" "[]"] by (simp add: expanded_ok_def)
  also have "\<dots> \<longleftrightarrow> (p, p) \<in> edge_rel E O (edge_rel E)\<^sup>*"
    by (auto simp: edge_rel_def)
  finally show ?thesis
    by (simp add: trancl_unfold_left)
qed

section \<open>All relations\<close>

lemma loop_edges_fold:
  "edge_rel (fold (\<lambda>r m. case block_edge r of None \<Rightarrow> m | Some (b, h) \<Rightarrow> bt_update b [] (\<lambda>hs. hs @ [h]) m) rs m) =
    edge_rel m \<union> {p. \<exists>r \<in> set rs. block_edge r = Some p}"
proof (induction rs arbitrary: m)
  case (Cons r rs)
  have "edge_rel (bt_update b [] (\<lambda>hs. hs @ [h]) m) = insert (b, h) (edge_rel m)" for b h
    by (auto simp: edge_rel_def successors_def split: if_splits)
  with Cons show ?case
    by (auto split: option.split)
qed simp

lemma loop_edges_rel: "edge_rel (loop_edges rs) = {p. \<exists>r \<in> set rs. block_edge r = Some p}"
  unfolding loop_edges_def by (simp add: loop_edges_fold) (simp add: edge_rel_def successors_def bt_get_or_def)

lemma loop_nodes_source:
  assumes "r \<in> set rs" "block_edge r = Some (b, h)"
  shows "b \<in> set (loop_nodes rs)"
proof -
  let ?add = "\<lambda>r ns. if is_error_reachable_head (head_name r) then ns
    else (case body_relation r of
        None \<Rightarrow> List.insert (head_name r) ns
      | Some a \<Rightarrow>
          if is_error_reachable_head (app_name a) then List.insert (head_name r) ns
          else List.insert (app_name a) (List.insert (head_name r) ns))"
  have grow: "set ns \<subseteq> set (?add r ns)" "block_edge r = Some (b, h) \<Longrightarrow> b \<in> set (?add r ns)" for r ns b h
    by (auto simp: block_edge_def split: option.splits if_splits)
  have mono: "set ns \<subseteq> set (fold ?add rs ns)" for rs ns
  proof (induction rs arbitrary: ns)
    case (Cons r rs)
    show ?case
      using grow(1) [of ns r] Cons [of "?add r ns"] by simp
  qed simp
  have "b \<in> set (fold ?add rs ns)" for ns
    using assms(1)
  proof (induction rs arbitrary: ns)
    case (Cons r' rs)
    then show ?case
      using grow(2) [OF assms(2), of ns] mono [of "?add r ns" rs] by (cases "r' = r") auto
  qed simp
  then show ?thesis
    unfolding loop_nodes_def .
qed

text \<open>C22: The relations the straight-line prover insists on entering are exactly those on a loop: loop_relations returns the
relations that reach themselves through one or more rules, self-loops included, error relations left out.\<close>

theorem loop_relations_iff:
  "p \<in> set (loop_relations rs) \<longleftrightarrow> (p, p) \<in> {e. \<exists>r \<in> set rs. block_edge r = Some e}\<^sup>+"
proof -
  have "p \<in> set (loop_nodes rs)" if "(p, p) \<in> {e. \<exists>r \<in> set rs. block_edge r = Some e}\<^sup>+"
    using that loop_nodes_source by (auto dest!: tranclD)
  then show ?thesis
    by (auto simp: loop_relations_def Let_def loop_search_start loop_edges_rel)
qed

end
