(* ===== verification/Spec2Isabelle.thy ===== *)
theory Spec2Isabelle
  imports C_Unit Session Const_Trip_Depth Const_Trip_Ops Chc_Genuine Chc_Dead_Args Chc_Dead_Vars Chc_Dead_Scalars Chc_Eval_Words Chc_Const_Prop_Safe
    Straight_Safe Straight_Loops
begin

text \<open>
  Verification of parts of trust-mc, a bounded model checker for Rust programs.  The compiler translates harness
  functions into solver problems, after it has unrolled their loops; the driver runs the solver on them, decides
  from the answer and from the soundness counters of the metadata what may be claimed, and prints and counts the
  verdicts; a small C front-end turns C sources into declarations for calls across the language border.
  Five groups of theories model the parts that decide something themselves; solvers, processes and the internal
  data of the Rust compiler are outside.

  \<^bold>\<open>Shared theories.\<close>  Prelude holds the generic lemmas and the theorem collections.  BTree models ordered maps
  (the hash maps of the code are read by key only or sorted before use) as sorted association lists, behind a
  locale of map laws; Text models the string operations the driver uses (substring, suffix, paths of names), on
  lists of characters.

  \<^bold>\<open>C front-end\<close> (trust-mc-compiler/src/c\_ffi).
  \<^item> C\_Lex: lex.rs.  Tokens, scanners and tokenize on the list of bytes; every produced token is well formed,
    and rendered tokens are read back.
  \<^item> C\_Ast: ast.rs.  Types, expressions, statements, and size\_align and field\_offsets with an explicit fuel (running out
    of it is an error of its own), with the placement rule of the C ABI and termination for tables without containment cycles.
  \<^item> C\_Parse, C\_Parse\_Fuel, C\_Print: the expression parser of parse.rs.  Its recursive procedures are one
    family indexed by fuel (the parser state is the list of remaining tokens); C\_Parse\_Fuel shows that the fuel
    computed from the number of tokens suffices on every input, C\_Print that printed expressions are read back.
  \<^item> C\_Fold: constant folding, compared with evaluation over the unbounded integers.
  \<^item> C\_Stmt, C\_Decl, C\_Unit: statements, declarations, the division of a file into declarations, registration,
    and the registry of mod.rs; the round trip for whole files and the behaviour of refused and repeated
    declarations.  Reading a file is a parameter (the files are a list of path and optional text).

  \<^bold>\<open>Driver\<close> (trust-mc-driver/src, trust-mc-metadata/src).
  \<^item> Metadata: diagnostics.rs, lib.rs, harness.rs, solver\_option.rs.  The registry of unsoundness categories, the
    metadata of a crate, harness records and their selection.
  \<^item> Counts: unsoundness\_counts.rs, unsoundness\_extract.rs, unsoundness\_extract\_fail\_closed.rs.  The counters read
    from the metadata, per crate and per harness, and the tables that say which of them demote a proof.
  \<^item> Demotion: demotion.rs.  Attribution of counts to harnesses, resolution, and the demotion of a success; no
    entry is lost, and the demotion of a result is characterised from the metadata on.
  \<^item> Results: property\_model.rs, verification\_result.rs, violation.rs.  The table of properties, the record of a
    verification and the classification of its failures.
  \<^item> Ctrex: ctrex\_classify.rs, unknown\_quality.rs, verification\_provenance.rs.  The classification of
    counterexamples and unknown results and the later certification of a tainted counterexample.
  \<^item> Report: verification\_result.rs, its format helpers and proof\_summary.rs.  The console text and the verdict of
    the JSON report, and their agreement.  Colours and path shortening are fields of a record RenderEnv.
  \<^item> Runner: harness\_runner.rs.  What check\_harness does after the solver has answered, gate by gate, with the
    conditions under which a success is reported.
  \<^item> Session: loop\_two\_lane.rs, harness\_runner.rs, metadata.rs, result\_summary.rs, autoharness/mod.rs.  The retry
    with two lanes, harness selection, the run over all harnesses and the exit code.

  \<^bold>\<open>Loop unrolling\<close> (trust-mc-compiler/src/codegen\_ay/loop\_unroll).
  \<^item> Mir: the compiler's control-flow representation as far as the unroller and the simulator read it: places,
    operands, right-hand sides, statements and terminators.  Parts that are only copied are a type parameter.  Runs are given by the inductive
    relation runs over an arbitrary semantics sem of blocks and a valid-successor relation on terminators.
  \<^item> Cfg: cfg.rs.  Predecessors, reachable blocks, Kahn's topological sort; correctness of the graph.
  \<^item> Dominators: dominators.rs.  Lengauer-Tarjan, validation of its result, back edges and loop headers.
  \<^item> Unroll: unroll.rs and mod.rs.  Natural loops, copies and rewriting of terminators, the depth limit and the
    outer loop that unrolls innermost loops until the graph is acyclic.
  \<^item> Unroll\_Sim, Unrolling: the layout of an unrolled body, the simulation between it and the original body in
    both directions, preservation along the outer loop, and the depth that a given path needs.
  \<^item> Const\_Trip: const\_trip.rs.  The simulator of scalar values that counts the iterations of loops with constant
    bounds, and the depth derived from the counts.  Const\_Trip\_Depth links the derived depth to the unroller;
    Const\_Trip\_Ops shows its arithmetic exact on values of one type.

  \<^bold>\<open>Clause systems\<close> (trust-mc-core/src).  The encoder hands the solver a system of constrained Horn clauses, and this
  crate prunes and simplifies it first.  What such a pass may do is stated over the derivable facts of the system.
  \<^item> Saturation: worklists and fixed-point loops the passes share, behind a locale saturating.
  \<^item> Chc\_Expr: the terms of the bindings as far as the passes inspect them (any other operator is OtherOp with its
    operands).  The meaning of terms is a parameter: a record smt of values, with the laws the passes rely on in the
    locale smt\_model, and a reference interpretation ground that obeys them.
  \<^item> Chc: constraints.rs and chc.rs.  Constraint storage, rules, declarations, the system ChcVc and its operations, the
    inductive relation derives of derivable facts, and the pruning of orphan rules.
  \<^item> Chc\_Taint, Chc\_Genuine: chc.rs.  The identity of an approximation, the variables and properties it reaches, and
    the certification that a violation that reads none of them is genuine.
  \<^item> Chc\_Dead\_Args: chc\_optimize.rs and chc\_optimize\_collect.rs.  Arguments no constraint reads are stripped.
  \<^item> Chc\_Dead\_Vars: chc\_optimize\_dead\_vars.rs.  Dead constraints, duplicate rules and unused declarations.
  \<^item> Chc\_Dead\_Scalars: chc\_optimize\_dead\_scalars.rs.  State variables that are only copied.
  \<^item> Chc\_Eval, Chc\_Eval\_Words, Chc\_Eval\_Sound: chc\_const\_prop\_eval.rs.  The evaluation of terms: bit vector folding
    agrees with machine words, and whatever the evaluators decide is true of the term in every interpretation that
    obeys the laws of the locale smt\_terms.
  \<^item> Chc\_Subst: chc\_const\_prop\_subst.rs.  Substitution of known constants with folding; it keeps the value of
    well-sorted terms.  What the bindings say about sorts and constructors is a record bindings.
  \<^item> Chc\_Equalities: propagate\_through\_equalities with chc\_const\_prop\_array.rs.  The constants that follow from the
    constraints of a rule, through equations and through reads of stored arrays.
  \<^item> Chc\_Liveness: chc\_const\_prop\_heap\_liveness.rs.  The guards that switch constant propagation off, and the
    search for cycles of blocks, shown to report exactly the cycles.
  \<^item> Chc\_Const\_Prop, Chc\_Const\_Prop\_Safe: chc\_const\_prop.rs and chc\_const\_prop\_identity.rs.  Rounds that remove
    constant columns up to the fixed point.  Facts derived through well-sorted rules are kept as long as the rounds are
    plain: no rule with a stripped premise is skipped and no output variable that no constraint mentions is
    specialised; two systems show that the code does both and what is lost.
  Pruning of orphans and of dead variables is exact; the removal of arguments and of columns over-approximates, so it
  loses no violation.

  \<^bold>\<open>Straight-line prover\<close> (trust-mc-compiler/src/codegen\_ay/chc/straightline\_proof.rs).  Before a clause system is
  handed to the solver the compiler tries to prove it by walking its rules; a proved system is replaced by a trivial one.
  \<^item> Straight\_Facts: disequalities and unsigned bounds of a path, read off comparisons; numbers of the host's 128-bit
    type are int with the range written out.
  \<^item> Straight\_Simplify: the simplifier.  The fuel is the recursion depth, and all results hold at every depth; which terms
    the checked constructors of the bindings accept is a parameter.
  \<^item> Straight\_Proof: substitution, the reading of constraints to a fixed point, frames and their enumeration within the
    budgets of the code (which ends by the limit on frames), the verdict and the discharge.
  \<^item> Straight\_Terms, Straight\_Sound, Straight\_Simplify\_Sound, Straight\_Paths: facts, simplifier, substitution and constraints
    keep values at every assignment at which the facts and definitions of the path hold, for terms that are well sorted
    in the strict sense of strict\_at: a variable has a value of the sort it is built with, the branches of a conditional
    have one sort, operands, indices, elements and selectors fit.
  \<^item> Straight\_Values: values of one sort each (words of every width, arrays, data with declared fields) and the sort the
    bindings compute for every operator.  The sort of a well-sorted term is the sort of its value, which is what the
    locale smt\_checked asks of the bindings.
  \<^item> Straight\_Safe: the frames cover the derivable facts, so that a proved system derives no error and a discharge keeps the
    verdict, if a name shared by a frame and a rule denotes one value (hygienic).  The code does not ensure that: a system
    with a reachable error is proved.  Straight\_Loops: the relations on loops are found exactly.
  Sets of frames are lists in the order of insertion.  Memo tables, which return an earlier result of the same function, the
  node budget, which only makes the code give up, log output and the recorded function name have no counterpart.

  \<^bold>\<open>Conventions.\<close>  A panic (index out of range, unreachable code, failed assertion) is the value None of the outermost
  option of a definition, an error of the code is Inl or a result datatype of its own.  Counters of the driver are
  nat; where the code saturates or wraps at a width the model does so, and the additions of counters that are
  written without a bound are modelled without one.  Machine integers of the simulator are their bit patterns as
  nat below two to the power of 128, with signed views as int, and the checked operations of the language are
  written with their ranges.  Integers of the C tokenizer and of constant folding are int with the range of the
  128-bit type checked at every step where the code does.

  \<^bold>\<open>Bounds and fuel.\<close>  The parsers take a fuel that grows with the number of tokens, and are shown not to use it up.
  The unroller stops after 256 rounds or above 100000 blocks and the simulator after 200000 steps, as in the code:
  these are errors or incomplete results of the model as well.  Graph traversals recurse on the number of blocks not
  yet visited, or with fuel that is shown to be enough in from\_body\_correct.  The layout of a struct that
  contains itself does not end in the code; in the model it runs out of every fuel.

  \<^bold>\<open>Interfaces.\<close>  Locales state what the clients of a component use.  keyed\_map (BTree) has the laws of a map from
  keys; name\_matching (Demotion) those of the comparison of harness names, on which attribution rests; fuel\_indexed
  (Prelude) says that a result other than running out of fuel is stable under more fuel, and is interpreted for the
  layout and for every procedure of the parsers; fail\_gate and gate\_sequence (Runner) are the contract of a gate
  that may only turn a result into a failure, interpreted for every gate of check\_harness; saturating (Saturation) is a
  loop that grows a set, learning (Saturation) one that grows a table of known values; smt\_model, smt\_terms, smt\_bindings
  and smt\_checked are the documented laws of the solver's term language and of its bindings, interpreted on reference interpretations, smt\_checked
  on one in which every value has one sort (Straight\_Values).

  \<^bold>\<open>Not modelled.\<close>  The encoders (codegen\_ay/chc and the bounded one) build terms of solver bindings that are not in
  the repository (of codegen\_ay/chc only the straight-line prover is modelled), the passes of kani\_middle work on data of the Rust compiler; process handling, argument parsing,
  artifact files, serialisation and coloured output are glue around libraries.  The emission of solver
  programs and the evidence records of trust-mc-core, SARIF output, playback, and the second front-end trust-mc-trust-bmc are
  candidates for extension, in this order.
\<close>

end
